(* ===== verification/Prelude.thy ===== *)
theory Prelude
  imports Main "HOL-Library.Word" "HOL-Library.Char_ord" "HOL-Library.List_Lexorder"
    "HOL-Library.Sublist"
begin

unbundle bit_operations_syntax

text \<open>
  Shared vocabulary of the ForgeFS development: the machine types of the Rust sources, byte
  strings, the \<open>Result\<close> combinators, \<open>str\<close> operations and \<open>BTreeMap\<close>s as strictly sorted
  association lists. Nothing here models a file of the repository; the component theories do.

  \<^item> \<open>u8\<close>, \<open>u64\<close> are words of that width; a \<open>Vec<u8>\<close> is a list of \<open>u8\<close>.
  \<^item> A Rust \<open>String\<close> is a \<open>string\<close> (one \<open>char\<close> per UTF-8 byte); \<open>as_bytes\<close> reads its bytes.
  \<^item> \<open>[u8; 32]\<close> is a \<open>256 word\<close>, most significant byte first, so \<open>Ord\<close> on the array is the
    unsigned order of the word.
  \<^item> \<open>Result<T, E>\<close> is \<open>'e + 'a\<close>; \<open>and_then\<close> is the \<open>?\<close> operator.
\<close>

section \<open>Machine types\<close>

type_synonym u8 = "8 word"
type_synonym u64 = "64 word"
type_synonym bytes = "u8 list"

named_theorems codec
  \<comment> \<open>forward and inversion facts of the byte encoders and readers\<close>

text \<open>\<open>usize\<close> arithmetic on a 64-bit target.\<close>

definition checked_add :: "nat \<Rightarrow> nat \<Rightarrow> nat option" where
  "checked_add a b = (if a + b < 2 ^ 64 then Some (a + b) else None)"

definition saturating_add :: "nat \<Rightarrow> nat \<Rightarrow> nat" where
  "saturating_add a b = min (a + b) (2 ^ 64 - 1)"

definition saturating_mul :: "nat \<Rightarrow> nat \<Rightarrow> nat" where
  "saturating_mul a b = min (a * b) (2 ^ 64 - 1)"

section \<open>Results\<close>

definition and_then :: "'e + 'a \<Rightarrow> ('a \<Rightarrow> 'e + 'b) \<Rightarrow> 'e + 'b" where
  "and_then r f = (case r of Inl e \<Rightarrow> Inl e | Inr x \<Rightarrow> f x)"

lemma and_then_simps [simp]:
  "and_then (Inl e) f = Inl e"
  "and_then (Inr x) f = f x"
  by (simp_all add: and_then_def)

lemma and_then_Inr_iff: "and_then r f = Inr y \<longleftrightarrow> (\<exists>x. r = Inr x \<and> f x = Inr y)"
  by (cases r) auto

lemma and_then_Inl_iff: "and_then r f = Inl e \<longleftrightarrow> r = Inl e \<or> (\<exists>x. r = Inr x \<and> f x = Inl e)"
  by (cases r) auto

text \<open>An early return \<open>if c { return Err(e) }\<close> that did not return.\<close>

lemma guard_Inr_iff [simp]:
  "(if c then Inl e else x) = Inr y \<longleftrightarrow> \<not> c \<and> x = Inr y"
  "(if c then x else Inl e) = Inr y \<longleftrightarrow> c \<and> x = Inr y"
  by auto

lemma and_then_cong [fundef_cong]:
  "r = r' \<Longrightarrow> (\<And>x. r' = Inr x \<Longrightarrow> f x = g x) \<Longrightarrow> and_then r f = and_then r' g"
  by (cases r') auto

lemma and_then_assoc: "and_then (and_then r f) g = and_then r (\<lambda>x. and_then (f x) g)"
  by (cases r) auto

definition ok_or :: "'e \<Rightarrow> 'a option \<Rightarrow> 'e + 'a" where
  "ok_or e x = (case x of None \<Rightarrow> Inl e | Some v \<Rightarrow> Inr v)"

lemma ok_or_simps [simp]: "ok_or e None = Inl e" "ok_or e (Some v) = Inr v"
  by (simp_all add: ok_or_def)

lemma ok_or_Inr_iff [simp]: "ok_or e x = Inr v \<longleftrightarrow> x = Some v"
  by (cases x) auto

definition map_err :: "('e \<Rightarrow> 'f) \<Rightarrow> 'e + 'a \<Rightarrow> 'f + 'a" where
  "map_err h r = (case r of Inl e \<Rightarrow> Inl (h e) | Inr x \<Rightarrow> Inr x)"

lemma map_err_simps [simp]: "map_err h (Inl e) = Inl (h e)" "map_err h (Inr x) = Inr x"
  by (simp_all add: map_err_def)

lemma map_err_Inr_iff [simp]: "map_err h r = Inr x \<longleftrightarrow> r = Inr x"
  by (cases r) auto

definition is_ok :: "'e + 'a \<Rightarrow> bool" where
  "is_ok r = (case r of Inl _ \<Rightarrow> False | Inr _ \<Rightarrow> True)"

lemma is_ok_simps [simp]: "is_ok (Inr x)" "\<not> is_ok (Inl e)"
  by (simp_all add: is_ok_def)

lemma is_ok_iff: "is_ok r \<longleftrightarrow> (\<exists>x. r = Inr x)"
  by (cases r) auto

lemma Some_eq_map_option: "Some y = map_option f x \<longleftrightarrow> (\<exists>z. x = Some z \<and> f z = y)"
  by (cases x) auto

text \<open>A fallible \<open>for\<close> loop over a list: the first error stops it.\<close>

fun try_fold :: "('a \<Rightarrow> 's \<Rightarrow> 'e + 's) \<Rightarrow> 'a list \<Rightarrow> 's \<Rightarrow> 'e + 's" where
  "try_fold f [] s = Inr s"
| "try_fold f (x # xs) s = and_then (f x s) (try_fold f xs)"

lemma try_fold_cong [fundef_cong]:
  "xs = ys \<Longrightarrow> s = t \<Longrightarrow> (\<And>x u. x \<in> set ys \<Longrightarrow> f x u = g x u) \<Longrightarrow> try_fold f xs s = try_fold g ys t"
  by (induction ys arbitrary: xs s t) (auto intro!: and_then_cong)

lemma try_fold_append:
  "try_fold f (xs @ ys) s = and_then (try_fold f xs s) (try_fold f ys)"
  by (induction xs arbitrary: s) (auto simp: and_then_assoc intro!: and_then_cong)

lemma try_fold_invariant:
  assumes "try_fold f xs s = Inr t" and "I s"
    and "\<And>x u v. x \<in> set xs \<Longrightarrow> I u \<Longrightarrow> f x u = Inr v \<Longrightarrow> I v"
  shows "I t"
  using assms by (induction xs arbitrary: s) (auto simp: and_then_Inr_iff)

section \<open>Actions\<close>

text \<open>
  A fallible computation on a store \<open>'st\<close>: the result, and the store it leaves, also after an
  error. \<open>None\<close> is a computation that does not return.
\<close>

type_synonym ('e, 'a, 'st) act = "'st \<Rightarrow> (('e + 'a) \<times> 'st) option"

definition act_ret :: "'a \<Rightarrow> ('e, 'a, 'st) act" where
  "act_ret x st = Some (Inr x, st)"

definition act_of :: "('st \<Rightarrow> 'e + 'a) \<Rightarrow> ('e, 'a, 'st) act" where
  "act_of f st = Some (f st, st)"

definition act_bind :: "('e, 'a, 'st) act \<Rightarrow> ('a \<Rightarrow> ('e, 'b, 'st) act) \<Rightarrow> ('e, 'b, 'st) act" where
  "act_bind m f st =
    (case m st of
       None \<Rightarrow> None
     | Some (Inl e, st') \<Rightarrow> Some (Inl e, st')
     | Some (Inr x, st') \<Rightarrow> f x st')"

fun act_fold :: "('x \<Rightarrow> 'a \<Rightarrow> ('e, 'a, 'st) act) \<Rightarrow> 'x list \<Rightarrow> 'a \<Rightarrow> ('e, 'a, 'st) act" where
  "act_fold f [] acc = act_ret acc"
| "act_fold f (x # xs) acc = act_bind (f x acc) (act_fold f xs)"

lemma act_ret_Some [simp]: "act_ret x st = Some (r, st') \<longleftrightarrow> r = Inr x \<and> st' = st"
  by (auto simp: act_ret_def)

lemma act_ret_not_None [simp]: "act_ret x st \<noteq> None"
  by (simp add: act_ret_def)

lemma act_of_Some [simp]: "act_of f st = Some (r, st') \<longleftrightarrow> f st = r \<and> st' = st"
  by (auto simp: act_of_def)

lemma act_of_not_None [simp]: "act_of f st \<noteq> None"
  by (simp add: act_of_def)

lemma act_bind_Inr_iff:
  "act_bind m f st = Some (Inr y, st') \<longleftrightarrow> (\<exists>x st1. m st = Some (Inr x, st1) \<and> f x st1 = Some (Inr y, st'))"
  by (auto simp: act_bind_def split: option.splits prod.splits sum.splits)

lemma act_bind_not_None:
  "act_bind m f st \<noteq> None \<longleftrightarrow> m st \<noteq> None \<and> (\<forall>x st1. m st = Some (Inr x, st1) \<longrightarrow> f x st1 \<noteq> None)"
  by (auto simp: act_bind_def split: option.splits prod.splits sum.splits)

lemma act_fold_not_None:
  "(\<And>x a st. x \<in> set xs \<Longrightarrow> f x a st \<noteq> None) \<Longrightarrow> act_fold f xs a st \<noteq> None"
proof (induction xs arbitrary: a st)
  case (Cons x xs)
  have "f x a st \<noteq> None" and "\<And>y st1. act_fold f xs y st1 \<noteq> None"
    using Cons by (blast intro: list.set_intros)+
  then show ?case unfolding act_fold.simps act_bind_not_None by blast
qed simp

section \<open>Big-endian bytes\<close>

primrec be_bytes :: "nat \<Rightarrow> 'a::len word \<Rightarrow> bytes" where
  "be_bytes 0 w = []"
| "be_bytes (Suc k) w = ucast (drop_bit (8 * k) w) # be_bytes k w"

definition be_val :: "bytes \<Rightarrow> nat" where
  "be_val bs = foldl (\<lambda>a b. 256 * a + unat b) 0 bs"

lemma length_be_bytes [simp]: "length (be_bytes k w) = k"
  by (induction k) auto

lemma foldl_be_val:
  "foldl (\<lambda>a b. 256 * a + unat b) n bs = n * 256 ^ length bs + be_val bs"
proof (induction bs arbitrary: n)
  case Nil
  then show ?case by (simp add: be_val_def)
next
  case (Cons b bs)
  have "be_val (b # bs) = unat b * 256 ^ length bs + be_val bs"
    using Cons.IH [of "unat b"] by (simp add: be_val_def)
  then show ?case
    using Cons.IH [of "256 * n + unat b"] by (simp add: algebra_simps)
qed

lemma be_val_simps [simp]:
  "be_val [] = 0"
  "be_val (b # bs) = unat b * 256 ^ length bs + be_val bs"
  using foldl_be_val [of "unat b" bs] by (simp_all add: be_val_def)

lemma unat_byte_less: "unat (b :: u8) < 256"
proof -
  have "unat b < 2 ^ LENGTH(8)" by (rule unsigned_less)
  then show ?thesis by simp
qed

lemma be_val_less: "be_val bs < 256 ^ length bs"
proof (induction bs)
  case Nil
  then show ?case by simp
next
  case (Cons b bs)
  have "unat b * 256 ^ length bs + be_val bs < (unat b + 1) * 256 ^ length bs"
    using Cons by simp
  also have "\<dots> \<le> 256 * 256 ^ length bs"
    using unat_byte_less [of b] by (intro mult_right_mono) auto
  finally show ?case by simp
qed

lemma unat_ucast_byte: "unat (ucast (w :: 'a::len word) :: u8) = unat w mod 256"
  by (simp add: unsigned_ucast_eq take_bit_eq_mod)

lemma unat_drop_bit_bytes: "unat (drop_bit (8 * k) (w :: 'a::len word)) = unat w div 256 ^ k"
proof -
  have "(2 :: nat) ^ (8 * k) = 256 ^ k"
    by (simp add: power_mult)
  then show ?thesis
    by (simp only: unat_drop_bit_eq) (simp add: drop_bit_eq_div)
qed

lemma be_val_be_bytes: "be_val (be_bytes k w) = unat w mod 256 ^ k"
proof (induction k)
  case 0
  then show ?case by simp
next
  case (Suc k)
  have "unat w mod (256 ^ k * 256) = 256 ^ k * (unat w div 256 ^ k mod 256) + unat w mod 256 ^ k"
    by (rule mod_mult2_eq)
  then show ?case
    using Suc unat_drop_bit_bytes [of k w] by (simp add: unat_ucast_byte ac_simps)
qed

lemma be_val_inject:
  "length as = length bs \<Longrightarrow> be_val as = be_val bs \<Longrightarrow> as = bs"
proof (induction as arbitrary: bs)
  case Nil
  then show ?case by simp
next
  case (Cons a as)
  then obtain b bs' where bs: "bs = b # bs'" and len: "length as = length bs'"
    by (cases bs) auto
  have eq: "unat a * 256 ^ length bs' + be_val as = unat b * 256 ^ length bs' + be_val bs'"
    using Cons.prems(2) bs len by simp
  have la: "be_val as < 256 ^ length bs'" and lb: "be_val bs' < 256 ^ length bs'"
    using be_val_less [of as] be_val_less [of bs'] len by auto
  have "(unat a * 256 ^ length bs' + be_val as) div 256 ^ length bs' = unat a"
    using la by simp
  moreover have "(unat b * 256 ^ length bs' + be_val bs') div 256 ^ length bs' = unat b"
    using lb by simp
  ultimately have "unat a = unat b" using eq by simp
  with eq have "a = b" and "be_val as = be_val bs'" by (auto simp: word_unat_eq_iff)
  with Cons.IH [OF len] bs show ?case by simp
qed

lemma be_bytes_inverse:
  assumes "unat w = be_val bs"
  shows "be_bytes (length bs) w = bs"
proof (rule be_val_inject)
  show "length (be_bytes (length bs) w) = length bs" by simp
  show "be_val (be_bytes (length bs) w) = be_val bs"
    using assms be_val_less [of bs] by (simp add: be_val_be_bytes)
qed

section \<open>Strings\<close>

definition as_bytes :: "string \<Rightarrow> bytes" where
  "as_bytes s = map of_char s"

definition str_of_bytes :: "bytes \<Rightarrow> string" where
  "str_of_bytes bs = map (\<lambda>b. char_of (unat b)) bs"

lemma unat_of_char [simp]: "unat (of_char c :: u8) = of_char c"
proof -
  have "(of_char c :: nat) < 256" by simp
  then have "unat (of_nat (of_char c :: nat) :: u8) = of_char c"
    by (simp add: unat_of_nat take_bit_eq_mod)
  then show ?thesis by (simp add: of_nat_of_char)
qed

lemma of_char_char_of_unat [simp]: "(of_char (char_of (unat b)) :: u8) = b"
  by (rule word_unat_eq_iff [THEN iffD2])
     (simp add: unat_byte_less)

lemma as_bytes_simps [simp]:
  "as_bytes [] = []"
  "as_bytes (c # s) = of_char c # as_bytes s"
  "as_bytes (s @ t) = as_bytes s @ as_bytes t"
  "length (as_bytes s) = length s"
  by (simp_all add: as_bytes_def)

lemma str_of_as_bytes [simp]: "str_of_bytes (as_bytes s) = s"
  by (simp add: as_bytes_def str_of_bytes_def comp_def)

lemma as_bytes_str_of [simp]: "as_bytes (str_of_bytes bs) = bs"
  by (induction bs) (auto simp: as_bytes_def str_of_bytes_def)

lemma length_str_of_bytes [simp]: "length (str_of_bytes bs) = length bs"
  by (simp add: str_of_bytes_def)

lemma as_bytes_inject [simp]: "as_bytes s = as_bytes t \<longleftrightarrow> s = t"
  by (metis str_of_as_bytes)

lemma of_char_less_iff [simp]: "(of_char c :: u8) < of_char d \<longleftrightarrow> c < d"
  by (simp add: word_less_nat_alt less_char_def)

lemma of_char_byte_eq_iff [simp]: "(of_char c :: u8) = of_char d \<longleftrightarrow> c = d"
proof
  assume "(of_char c :: u8) = of_char d"
  then have "unat (of_char c :: u8) = unat (of_char d :: u8)" by simp
  then show "c = d" by simp
qed simp

lemma as_bytes_less_iff [simp]: "as_bytes s < as_bytes t \<longleftrightarrow> s < t"
proof (induction s arbitrary: t)
  case Nil
  then show ?case by (cases t) auto
next
  case (Cons c s)
  then show ?case by (cases t) simp_all
qed

lemma as_bytes_le_iff [simp]: "as_bytes s \<le> as_bytes t \<longleftrightarrow> s \<le> t"
  by (simp add: le_less)

text \<open>
  UTF-8 well-formedness, the check of \<open>String::from_utf8\<close> (Unicode table 3-7). Every Rust
  \<open>String\<close> satisfies \<open>valid_str\<close>.
\<close>

definition utf8_cont :: "u8 \<Rightarrow> bool" where
  "utf8_cont b \<longleftrightarrow> 0x80 \<le> b \<and> b \<le> 0xBF"

fun utf8 :: "bytes \<Rightarrow> bool" where
  "utf8 [] = True"
| "utf8 (b # bs) =
    (if b < 0x80 then utf8 bs
     else if 0xC2 \<le> b \<and> b \<le> 0xDF then
       (case bs of c # bs' \<Rightarrow> utf8_cont c \<and> utf8 bs' | _ \<Rightarrow> False)
     else if 0xE0 \<le> b \<and> b \<le> 0xEF then
       (case bs of c # d # bs' \<Rightarrow>
          (if b = 0xE0 then 0xA0 \<le> c \<and> c \<le> 0xBF
           else if b = 0xED then 0x80 \<le> c \<and> c \<le> 0x9F else utf8_cont c)
          \<and> utf8_cont d \<and> utf8 bs'
        | _ \<Rightarrow> False)
     else if 0xF0 \<le> b \<and> b \<le> 0xF4 then
       (case bs of c # d # e # bs' \<Rightarrow>
          (if b = 0xF0 then 0x90 \<le> c \<and> c \<le> 0xBF
           else if b = 0xF4 then 0x80 \<le> c \<and> c \<le> 0x8F else utf8_cont c)
          \<and> utf8_cont d \<and> utf8_cont e \<and> utf8 bs'
        | _ \<Rightarrow> False)
     else False)"

definition valid_str :: "string \<Rightarrow> bool" where
  "valid_str s \<longleftrightarrow> utf8 (as_bytes s)"

lemma utf8_ascii: "(\<And>b. b \<in> set bs \<Longrightarrow> b < 0x80) \<Longrightarrow> utf8 bs"
  by (induction bs) auto

definition ascii_char :: "char \<Rightarrow> bool" where
  "ascii_char c \<longleftrightarrow> (of_char c :: nat) < 128"

lemma valid_str_ascii: "list_all ascii_char s \<Longrightarrow> valid_str s"
  unfolding valid_str_def
  by (rule utf8_ascii)
     (auto simp: as_bytes_def ascii_char_def list_all_iff word_less_nat_alt)

subsection \<open>\<open>str\<close> operations\<close>

definition strip_prefix :: "string \<Rightarrow> string \<Rightarrow> string option" where
  "strip_prefix p s = (if prefix p s then Some (drop (length p) s) else None)"

lemma strip_prefix_append [simp]: "strip_prefix p (p @ s) = Some s"
  by (simp add: strip_prefix_def)

lemma strip_prefix_Some: "strip_prefix p s = Some r \<longleftrightarrow> s = p @ r"
  by (auto simp: strip_prefix_def prefix_def)

text \<open>\<open>split_on c\<close> is \<open>str::split(c)\<close>: never empty, one part more than there are separators.\<close>

fun split_on :: "char \<Rightarrow> string \<Rightarrow> string list" where
  "split_on c [] = [[]]"
| "split_on c (x # xs) =
    (if x = c then [] # split_on c xs
     else (case split_on c xs of [] \<Rightarrow> [[x]] | p # ps \<Rightarrow> (x # p) # ps))"

fun split_once :: "char \<Rightarrow> string \<Rightarrow> (string \<times> string) option" where
  "split_once c [] = None"
| "split_once c (x # xs) =
    (if x = c then Some ([], xs)
     else map_option (\<lambda>(a, b). (x # a, b)) (split_once c xs))"

fun join_with :: "string \<Rightarrow> string list \<Rightarrow> string" where
  "join_with sep [] = []"
| "join_with sep [p] = p"
| "join_with sep (p # ps) = p @ sep @ join_with sep ps"

lemma split_on_not_Nil [simp]: "split_on c s \<noteq> []"
  by (induction s) (auto split: list.splits)

lemma split_once_Some:
  "split_once c s = Some (a, b) \<longleftrightarrow> s = a @ c # b \<and> c \<notin> set a"
proof (induction s arbitrary: a)
  case Nil
  then show ?case by simp
next
  case (Cons x s)
  show ?case
  proof (cases "x = c")
    case True
    then show ?thesis by (cases a) auto
  next
    case False
    with Cons.IH show ?thesis by (cases a) (auto simp: Cons.IH)
  qed
qed

lemma split_once_None: "split_once c s = None \<longleftrightarrow> c \<notin> set s"
  by (induction s) auto

lemma split_on_no_sep: "c \<notin> set s \<Longrightarrow> split_on c s = [s]"
  by (induction s) auto

lemma split_on_append_sep: "c \<notin> set p \<Longrightarrow> split_on c (p @ c # s) = p # split_on c s"
  by (induction p) auto

lemma split_on_no_sep_parts: "p \<in> set (split_on c s) \<Longrightarrow> c \<notin> set p"
  by (induction s arbitrary: p) (auto split: list.splits if_splits)

lemma join_with_Cons: "ps \<noteq> [] \<Longrightarrow> join_with sep (p # ps) = p @ sep @ join_with sep ps"
  by (cases ps) auto

lemma join_split_on: "join_with [c] (split_on c s) = s"
proof (induction s)
  case Nil
  then show ?case by simp
next
  case (Cons x s)
  obtain p ps where sp: "split_on c s = p # ps"
    by (cases "split_on c s") auto
  with Cons show ?case by (cases ps) (auto simp: join_with_Cons)
qed

lemma split_on_join:
  "ps \<noteq> [] \<Longrightarrow> (\<And>p. p \<in> set ps \<Longrightarrow> c \<notin> set p) \<Longrightarrow> split_on c (join_with [c] ps) = ps"
proof (induction ps)
  case Nil
  then show ?case by simp
next
  case (Cons p ps)
  then show ?case
    by (cases ps) (auto simp: split_on_no_sep split_on_append_sep)
qed

text \<open>
  \<open>str::trim\<close> removes every leading and trailing code point with the Unicode \<open>White_Space\<close>
  property; \<open>whitespace\<close> lists their UTF-8 encodings.
\<close>

definition whitespace :: "string list" where
  "whitespace =
     map (\<lambda>n. [char_of n]) [0x09, 0x0A, 0x0B, 0x0C, 0x0D, 0x20 :: nat]
   @ map (map char_of) [[0xC2, 0x85], [0xC2, 0xA0], [0xE1, 0x9A, 0x80 :: nat]]
   @ map (\<lambda>n. map char_of [0xE2, 0x80, n]) ([0x80..<0x8B] @ [0xA8, 0xA9, 0xAF :: nat])
   @ map (map char_of) [[0xE2, 0x81, 0x9F], [0xE3, 0x80, 0x80 :: nat]]"

lemma whitespace_nonempty: "w \<in> set whitespace \<Longrightarrow> w \<noteq> []"
  by (auto simp: whitespace_def)

function strip_while :: "string list \<Rightarrow> string \<Rightarrow> string" where
  "strip_while ws s =
    (case find (\<lambda>w. w \<noteq> [] \<and> prefix w s) ws of
       None \<Rightarrow> s
     | Some w \<Rightarrow> strip_while ws (drop (length w) s))"
  by pat_completeness auto
termination
  by (relation "measure (\<lambda>(ws, s). length s)")
     (auto simp: find_Some_iff prefix_def)

declare strip_while.simps [simp del]

definition trim :: "string \<Rightarrow> string" where
  "trim s = rev (strip_while (map rev whitespace) (rev (strip_while whitespace s)))"

lemma strip_while_id: "(\<And>w. w \<in> set ws \<Longrightarrow> w \<noteq> [] \<Longrightarrow> \<not> prefix w s) \<Longrightarrow> strip_while ws s = s"
  by (subst strip_while.simps) (auto simp: find_Some_iff in_set_conv_nth split: option.splits)

definition printable :: "char \<Rightarrow> bool" where
  "printable c \<longleftrightarrow> 0x20 < (of_char c :: nat) \<and> (of_char c :: nat) < 0x7F"

lemma whitespace_not_printable: "w \<in> set whitespace \<Longrightarrow> c \<in> set w \<Longrightarrow> \<not> printable c"
  by (auto simp: whitespace_def printable_def)

lemma strip_while_printable:
  assumes "list_all printable s" and "\<And>w c. w \<in> set ws \<Longrightarrow> c \<in> set w \<Longrightarrow> \<not> printable c"
  shows "strip_while ws s = s"
proof (rule strip_while_id)
  fix w assume w: "w \<in> set ws" "w \<noteq> []"
  then have "\<not> printable (hd w)" using assms(2) by simp
  with w(2) assms(1) show "\<not> prefix w s"
    by (metis hd_in_set in_mono list_all_iff set_mono_prefix)
qed

lemma trim_printable: "list_all printable s \<Longrightarrow> trim s = s"
  unfolding trim_def
  by (subst strip_while_printable; (subst strip_while_printable)?)
     (auto simp: list_all_iff dest: whitespace_not_printable)

section \<open>\<open>BTreeMap\<close> as a strictly sorted association list\<close>

type_synonym ('k, 'v) btree = "('k \<times> 'v) list"

definition bt_ok :: "('k::linorder, 'v) btree \<Rightarrow> bool" where
  "bt_ok m \<longleftrightarrow> sorted_wrt (<) (map fst m)"

fun bt_insert :: "'k::linorder \<Rightarrow> 'v \<Rightarrow> ('k, 'v) btree \<Rightarrow> ('k, 'v) btree" where
  "bt_insert k v [] = [(k, v)]"
| "bt_insert k v ((k', v') # m) =
    (if k < k' then (k, v) # (k', v') # m
     else if k = k' then (k, v) # m
     else (k', v') # bt_insert k v m)"

definition bt_remove :: "'k \<Rightarrow> ('k, 'v) btree \<Rightarrow> ('k, 'v) btree" where
  "bt_remove k m = filter (\<lambda>(k', _). k' \<noteq> k) m"

lemma map_of_bt_insert [simp]: "map_of (bt_insert k v m) = (map_of m)(k \<mapsto> v)"
  by (induction k v m rule: bt_insert.induct) (auto simp: fun_eq_iff)

lemma keys_bt_insert [simp]: "fst ` set (bt_insert k v m) = insert k (fst ` set m)"
  by (induction k v m rule: bt_insert.induct) auto

lemma bt_ok_Nil [simp]: "bt_ok []"
  by (simp add: bt_ok_def)

lemma bt_ok_Cons [simp]: "bt_ok ((k, v) # m) \<longleftrightarrow> (\<forall>k' \<in> fst ` set m. k < k') \<and> bt_ok m"
  by (auto simp: bt_ok_def)

lemma bt_ok_insert [simp]: "bt_ok m \<Longrightarrow> bt_ok (bt_insert k v m)"
proof (induction k v m rule: bt_insert.induct)
  case (2 k v k' v' m)
  consider "k < k'" | "k = k'" | "\<not> k < k'" "k \<noteq> k'" "k' < k" by fastforce
  then show ?case
  proof cases
    case 1
    with 2 show ?thesis by (auto intro: order.strict_trans)
  qed (use 2 in simp_all)
qed simp

lemma map_of_bt_remove [simp]: "map_of (bt_remove k m) = (map_of m)(k := None)"
  by (induction m) (auto simp: bt_remove_def fun_eq_iff)

lemma bt_ok_remove [simp]: "bt_ok m \<Longrightarrow> bt_ok (bt_remove k m)"
  by (auto simp: bt_ok_def bt_remove_def sorted_wrt_map intro: sorted_wrt_filter)

lemma bt_ok_distinct: "bt_ok m \<Longrightarrow> distinct (map fst m)"
  by (simp add: bt_ok_def strict_sorted_iff)

lemma alist_eqI:
  assumes "map fst xs = map fst ys" "distinct (map fst xs)" "map_of xs = map_of ys"
  shows "xs = ys"
  using assms
proof (induction xs arbitrary: ys)
  case Nil
  then show ?case by simp
next
  case (Cons x xs)
  then obtain y ys' where ys: "ys = y # ys'" and k: "fst x = fst y" "map fst xs = map fst ys'"
    by (cases ys) auto
  have n: "map_of zs (fst x) = None" if "map fst zs = map fst xs" for zs :: "('a \<times> 'b) list"
    using Cons.prems(2) that by (metis distinct.simps(2) image_set list.simps(9) map_of_eq_None_iff)
  have "map_of xs j = map_of ys' j" for j
    using fun_cong [OF Cons.prems(3), of j] n [of xs] n [of ys'] k ys by (cases x; cases y) (auto split: if_splits)
  then have "xs = ys'" using Cons.IH [of ys'] Cons.prems(2) k by auto
  moreover have "x = y" using fun_cong [OF Cons.prems(3), of "fst x"] k ys by (cases x; cases y) auto
  ultimately show ?case by (simp add: ys)
qed

lemma bt_ok_ext:
  assumes "bt_ok m" "bt_ok n" "map_of m = map_of n"
  shows "m = n"
proof (rule alist_eqI)
  show "map fst m = map fst n"
  proof (rule strict_sorted_equal)
    show "set (map fst m) = set (map fst n)"
      using arg_cong [OF assms(3), of dom] by (simp add: dom_map_of_conv_image_fst)
  qed (use assms(1,2) in \<open>simp_all add: bt_ok_def\<close>)
qed (use assms bt_ok_distinct in auto)

end
