(* ===== verification/Types.thy ===== *)
theory Types
  imports Prelude
begin

unbundle bit_operations_syntax

text \<open>
  The crate \<open>forge-types\<close> (\<open>src/crates/forge-types/src/lib.rs\<close>): object ids and their hexadecimal
  form, object and entry kinds, the outcome of a compare-and-swap, ref rows, and the error type
  with its exit codes and daemon codes.

  An error carries the fixed text of the source's message; the values a \<open>format!\<close> interpolates
  are left out. \<open>StaleObservation\<close> and \<open>MergeConflict\<close> keep the fields callers act on.
\<close>

section \<open>Object ids and errors\<close>

type_synonym oid = "256 word"

datatype error =
    Denied string
  | NotFound string
  | Sealed string
  | Invalid string
  | Corrupt string
  | Busy string
  | MergeConflict oid
  | StaleObservation string string string
  | InvalidBase
  | Io string
  | Sqlite string
  | Cap string
  | Internal string

fun exit_code :: "error \<Rightarrow> u8" where
  "exit_code (Denied _) = 1"
| "exit_code (Cap _) = 1"
| "exit_code (Invalid _) = 1"
| "exit_code InvalidBase = 1"
| "exit_code (NotFound _) = 1"
| "exit_code (Corrupt _) = 2"
| "exit_code (Sealed _) = 2"
| "exit_code (Busy _) = 3"
| "exit_code (StaleObservation _ _ _) = 4"
| "exit_code (MergeConflict _) = 4"
| "exit_code (Io _) = 5"
| "exit_code (Sqlite _) = 5"
| "exit_code (Internal _) = 5"

fun code :: "error \<Rightarrow> string" where
  "code (Denied _) = ''denied''"
| "code (NotFound _) = ''not_found''"
| "code (Sealed _) = ''sealed''"
| "code (Invalid _) = ''invalid''"
| "code (Corrupt _) = ''corrupt''"
| "code (Busy _) = ''busy''"
| "code (MergeConflict _) = ''conflict''"
| "code (StaleObservation _ _ _) = ''stale_observation''"
| "code InvalidBase = ''invalid_base''"
| "code (Io _) = ''internal''"
| "code (Sqlite _) = ''internal''"
| "code (Cap _) = ''denied''"
| "code (Internal _) = ''internal''"

text \<open>The corrupt classification: what a trust boundary answers about bytes.\<close>

fun is_corrupt :: "error \<Rightarrow> bool" where
  "is_corrupt (Corrupt _) = True"
| "is_corrupt _ = False"

section \<open>Hexadecimal\<close>

definition hex_digit :: "u8 \<Rightarrow> char" where
  "hex_digit n = ''0123456789abcdef'' ! unat n"

fun hex_encode :: "bytes \<Rightarrow> string" where
  "hex_encode [] = []"
| "hex_encode (b # bs) = hex_digit (drop_bit 4 b) # hex_digit (b AND 0xf) # hex_encode bs"

definition hex_val :: "u8 \<Rightarrow> error + u8" where
  "hex_val c =
    (if 0x30 \<le> c \<and> c \<le> 0x39 then Inr (c - 0x30)
     else if 0x61 \<le> c \<and> c \<le> 0x66 then Inr (c - 0x61 + 10)
     else if 0x41 \<le> c \<and> c \<le> 0x46 then Inr (c - 0x41 + 10)
     else Inl (Invalid ''invalid hex digit''))"

fun hex_pairs :: "bytes \<Rightarrow> error + bytes" where
  "hex_pairs (a # b # rest) =
    and_then (hex_val a) (\<lambda>hi. and_then (hex_val b) (\<lambda>lo.
      and_then (hex_pairs rest) (\<lambda>out. Inr ((push_bit 4 hi OR lo) # out))))"
| "hex_pairs _ = Inr []"

definition hex_decode :: "string \<Rightarrow> error + bytes" where
  "hex_decode s = (if length s mod 2 \<noteq> 0 then Inl (Invalid ''odd hex length'') else hex_pairs (as_bytes s))"

definition oid_bytes :: "oid \<Rightarrow> bytes" where
  "oid_bytes i = be_bytes 32 i"

definition oid_of_bytes :: "bytes \<Rightarrow> oid" where
  "oid_of_bytes bs = of_nat (be_val bs)"

abbreviation oid_zero :: oid where
  "oid_zero \<equiv> 0"

definition hex :: "oid \<Rightarrow> string" where
  "hex i = hex_encode (oid_bytes i)"

definition from_hex :: "string \<Rightarrow> error + oid" where
  "from_hex s = and_then (hex_decode (trim s)) (\<lambda>raw.
     if length raw \<noteq> 32 then Inl (Invalid ''object id hex must be 64 chars'')
     else Inr (oid_of_bytes raw))"

definition shard_dirs :: "oid \<Rightarrow> string \<times> string" where
  "shard_dirs i = (let h = hex i in (take 2 h, take 2 (drop 2 h)))"

text \<open>\<open>Display\<close> of an error (the message texts are the modelled ones).\<close>

fun error_string :: "error \<Rightarrow> string" where
  "error_string (Denied s) = ''denied: '' @ s"
| "error_string (NotFound s) = ''not found: '' @ s"
| "error_string (Sealed s) = ''sealed: '' @ s"
| "error_string (Invalid s) = ''invalid: '' @ s"
| "error_string (Corrupt s) = ''corrupt: '' @ s"
| "error_string (Busy s) = ''busy: '' @ s"
| "error_string (MergeConflict i) = ''conflict object '' @ hex i"
| "error_string (StaleObservation p e f) = ''stale observation of '' @ p @ '': expected '' @ e @ '', found '' @ f"
| "error_string InvalidBase = ''invalid base''"
| "error_string (Io s) = ''io: '' @ s"
| "error_string (Sqlite s) = ''sqlite: '' @ s"
| "error_string (Cap s) = ''cap: '' @ s"
| "error_string (Internal s) = ''internal: '' @ s"

section \<open>Object and entry kinds\<close>

datatype ObjectType = Blob | Tree | Commit | Conflict | Snapshot | Contribution

fun object_type_byte :: "ObjectType \<Rightarrow> u8" where
  "object_type_byte ObjectType.Blob = 0x01"
| "object_type_byte ObjectType.Tree = 0x02"
| "object_type_byte ObjectType.Commit = 0x03"
| "object_type_byte ObjectType.Conflict = 0x04"
| "object_type_byte ObjectType.Snapshot = 0x05"
| "object_type_byte ObjectType.Contribution = 0x06"

definition object_type_from_u8 :: "u8 \<Rightarrow> error + ObjectType" where
  "object_type_from_u8 v =
    (if v = 0x01 then Inr ObjectType.Blob
     else if v = 0x02 then Inr ObjectType.Tree
     else if v = 0x03 then Inr ObjectType.Commit
     else if v = 0x04 then Inr ObjectType.Conflict
     else if v = 0x05 then Inr ObjectType.Snapshot
     else if v = 0x06 then Inr ObjectType.Contribution
     else Inl (Corrupt ''unknown object type''))"

fun object_type_str :: "ObjectType \<Rightarrow> string" where
  "object_type_str ObjectType.Blob = ''blob''"
| "object_type_str ObjectType.Tree = ''tree''"
| "object_type_str ObjectType.Commit = ''commit''"
| "object_type_str ObjectType.Conflict = ''conflict''"
| "object_type_str ObjectType.Snapshot = ''snapshot''"
| "object_type_str ObjectType.Contribution = ''contribution''"

datatype EntryKind = Blob | Tree

fun entry_kind_byte :: "EntryKind \<Rightarrow> u8" where
  "entry_kind_byte EntryKind.Blob = 1"
| "entry_kind_byte EntryKind.Tree = 2"

definition entry_kind_from_u8 :: "u8 \<Rightarrow> error + EntryKind" where
  "entry_kind_from_u8 v =
    (if v = 1 then Inr EntryKind.Blob
     else if v = 2 then Inr EntryKind.Tree
     else Inl (Invalid ''unknown tree entry kind''))"

section \<open>Compare-and-swap outcomes and ref rows\<close>

datatype CasResult =
    Updated string oid
    \<comment> \<open>\<open>name\<close>, \<open>oid\<close>\<close>
  | Forked string string oid oid
    \<comment> \<open>\<open>requested\<close>, \<open>fork\<close>, \<open>ours\<close>, \<open>theirs\<close>\<close>
  | Noop string oid
    \<comment> \<open>\<open>name\<close>, \<open>oid\<close>\<close>

record RefRow =
  row_name :: string
  row_oid :: oid
  row_kind :: string
  row_protected :: bool
  row_sealed :: bool

section \<open>Facts\<close>

lemma object_type_roundtrip [simp]: "object_type_from_u8 (object_type_byte t) = Inr t"
  by (cases t) (simp_all add: object_type_from_u8_def)

lemma object_type_from_u8_Inr: "object_type_from_u8 v = Inr t \<longleftrightarrow> v = object_type_byte t"
  by (cases t) (auto simp: object_type_from_u8_def split: if_splits)

lemma entry_kind_roundtrip [simp]: "entry_kind_from_u8 (entry_kind_byte k) = Inr k"
  by (cases k) (simp_all add: entry_kind_from_u8_def)

lemma entry_kind_from_u8_Inr: "entry_kind_from_u8 v = Inr k \<longleftrightarrow> v = entry_kind_byte k"
  by (cases k) (auto simp: entry_kind_from_u8_def split: if_splits)

lemma length_oid_bytes [simp]: "length (oid_bytes i) = 32"
  by (simp add: oid_bytes_def)

lemma unat_oid_bytes: "be_val (oid_bytes i) = unat i"
proof -
  have "unat i < 2 ^ LENGTH(256)" by (rule unsigned_less)
  then have "unat i < 256 ^ 32" by simp
  then show ?thesis by (simp add: oid_bytes_def be_val_be_bytes)
qed

lemma oid_of_oid_bytes [simp]: "oid_of_bytes (oid_bytes i) = i"
  by (simp add: oid_of_bytes_def unat_oid_bytes)

lemma oid_bytes_of_bytes: "length bs = 32 \<Longrightarrow> oid_bytes (oid_of_bytes bs) = bs"
proof -
  assume len: "length bs = 32"
  then have "be_val bs < 2 ^ LENGTH(256)" using be_val_less [of bs] by simp
  then have "unat (oid_of_bytes bs) = be_val bs"
    by (simp add: oid_of_bytes_def unat_of_nat take_bit_eq_mod)
  then show ?thesis unfolding oid_bytes_def using be_bytes_inverse [of "oid_of_bytes bs" bs] len by simp
qed

lemma oid_bytes_inject [simp]: "oid_bytes a = oid_bytes b \<longleftrightarrow> a = b"
  by (metis oid_of_oid_bytes)

subsection \<open>Hexadecimal round trip\<close>

lemma nibble_join: "push_bit 4 (drop_bit 4 b) OR (b AND 0xf) = (b :: u8)"
proof -
  have "b AND 0xf = take_bit 4 b"
    by (simp add: take_bit_eq_mask mask_eq_exp_minus_1)
  then show ?thesis
    by (auto intro!: bit_word_eqI simp: bit_simps)
qed

lemma hex_val_digit_nat:
  "k < 16 \<Longrightarrow> hex_val (of_char (hex_digit (of_nat k))) = Inr (of_nat k) \<and> printable (hex_digit (of_nat k))"
proof -
  have "\<forall>k \<in> {..<16}. hex_val (of_char (hex_digit (of_nat k))) = Inr (of_nat k) \<and> printable (hex_digit (of_nat k))"
    by code_simp
  then show "k < 16 \<Longrightarrow> ?thesis" by blast
qed

lemma hex_val_digit:
  assumes "unat (n :: u8) < 16"
  shows "hex_val (of_char (hex_digit n)) = Inr n" and "printable (hex_digit n)"
  using hex_val_digit_nat [OF assms] by simp_all

lemma nibble_less: "unat (drop_bit 4 (b :: u8)) < 16" "unat (b AND 0xf :: u8) < 16"
proof -
  show "unat (drop_bit 4 b) < 16"
    using unat_byte_less [of b] by (simp only: unat_drop_bit_eq) (simp add: drop_bit_eq_div)
  have "unat (b AND 0xf) \<le> unat (0xf :: u8)"
    by (rule word_and_le1 [THEN word_le_nat_alt [THEN iffD1]])
  then show "unat (b AND 0xf) < 16" by simp
qed

lemma hex_pairs_encode: "hex_pairs (as_bytes (hex_encode bs)) = Inr bs"
  by (induction bs) (simp_all add: hex_val_digit nibble_less nibble_join)

lemma length_hex_encode [simp]: "length (hex_encode bs) = 2 * length bs"
  by (induction bs) auto

lemma hex_decode_encode [simp]: "hex_decode (hex_encode bs) = Inr bs"
  by (simp add: hex_decode_def hex_pairs_encode)

lemma printable_hex_encode: "list_all printable (hex_encode bs)"
  by (induction bs) (simp_all add: hex_val_digit nibble_less)

lemma length_hex [simp]: "length (hex i) = 64"
  by (simp add: hex_def)

lemma from_hex_hex: "from_hex (hex i) = Inr i"
  by (simp add: from_hex_def hex_def trim_printable printable_hex_encode)

lemma hex_inject [simp]: "hex a = hex b \<longleftrightarrow> a = b"
  by (metis from_hex_hex sum.inject(2))

text \<open>
  An object id survives its hexadecimal form: every id prints as 64 characters, parses back to
  itself, and no two ids print alike.
\<close>

theorem object_id_hex_roundtrip:
  "from_hex (hex i) = Inr i \<and> length (hex i) = 64 \<and> (hex i = hex j \<longleftrightarrow> i = j)"
  by (simp add: from_hex_hex)

end
