(* ===== verification/Catalog.thy ===== *)
theory Catalog
  imports Types "HOL-Library.Product_Lexorder"
begin

text \<open>
  The mutable catalog (\<open>src/crates/forge-store/src/meta.rs\<close>): refs and their reflog, sessions
  (namespaces, mounts, overlay, observations), seals, landmarks and object introductions.

  \<^item> A SQLite table is a strictly sorted association list from its primary key to the other
    columns (\<open>btree\<close>); the reflog, keyed by an autoincrement id, is a list in id order.
  \<^item> An operation that writes is a function \<open>Catalog \<Rightarrow> error + ('a \<times> Catalog)\<close>: one immediate
    transaction. \<open>Inl\<close> is a rollback, after which the catalog is the one before the call.
  \<^item> The clock (\<open>ts\<close>) and every fresh ULID are arguments. What SQLite can answer besides its
    constraints (a busy lock, a disk error) is not modelled; \<open>read_only\<close> refuses every write.
\<close>

section \<open>Tables\<close>

text \<open>\<open>INSERT\<close>, \<open>INSERT OR IGNORE\<close>, \<open>UPDATE\<close> and \<open>DELETE\<close> on one table; \<open>INSERT OR REPLACE\<close> is
  \<open>bt_insert\<close>. A violated constraint is \<open>Invalid\<close> (\<open>map_sql\<close>).\<close>

definition has_row :: "'k \<Rightarrow> ('k, 'v) btree \<Rightarrow> bool" where
  "has_row k t \<longleftrightarrow> map_of t k \<noteq> None"

definition insert_row :: "'k::linorder \<Rightarrow> 'v \<Rightarrow> ('k, 'v) btree \<Rightarrow> error + ('k, 'v) btree" where
  "insert_row k v t =
    (if has_row k t then Inl (Invalid ''UNIQUE constraint failed'') else Inr (bt_insert k v t))"

definition insert_or_ignore :: "'k::linorder \<Rightarrow> 'v \<Rightarrow> ('k, 'v) btree \<Rightarrow> ('k, 'v) btree" where
  "insert_or_ignore k v t = (if has_row k t then t else bt_insert k v t)"

definition update_row :: "'k \<Rightarrow> ('v \<Rightarrow> 'v) \<Rightarrow> ('k, 'v) btree \<Rightarrow> ('k, 'v) btree" where
  "update_row k f t = map (\<lambda>(k', v). if k' = k then (k', f v) else (k', v)) t"

definition delete_rows :: "('k \<Rightarrow> bool) \<Rightarrow> ('k, 'v) btree \<Rightarrow> ('k, 'v) btree" where
  "delete_rows P t = filter (\<lambda>(k, _). \<not> P k) t"

section \<open>Rows\<close>

record RefRec =
  r_oid :: oid
  r_kind :: string
  r_protected :: bool
  r_sealed :: bool
  r_updated_ms :: int

record ReflogRec =
  l_name :: string
  l_old_oid :: "oid option"
  l_new_oid :: oid
  l_agent_id :: string
  l_reason :: string
  l_ts_ms :: int

record NsRec =
  n_agent_id :: string
  n_created_ms :: int
  n_pinned_oid :: "oid option"
  n_live_ref :: "string option"

record MountRec =
  m_spec :: string
  m_mode :: string
  m_base_oid :: "oid option"

record OverlayRec =
  o_blob_oid :: "oid option"
  o_exec :: bool

datatype Observed = SeenBlob oid | SeenTree oid | SeenAbsent

record SealRec =
  s_snap_oid :: oid
  s_commit_oid :: oid
  s_tree_oid :: oid
  s_ts_ms :: int

record LandmarkRec =
  k_kind :: string
  k_reason :: string
  k_ts_ms :: int

record IntroRec =
  i_commit_oid :: oid
  i_agent_id :: string
  i_ts_ms :: int

record Catalog =
  refs :: "(string, RefRec) btree"
  reflog_rows :: "ReflogRec list"
  namespaces :: "(string, NsRec) btree"
  observation_rows :: "(string \<times> string \<times> string, Observed) btree"
  mounts :: "(string \<times> string, MountRec) btree"
  overlay :: "(string \<times> string \<times> string, OverlayRec) btree"
  seals :: "(string, SealRec) btree"
  landmarks :: "(oid, LandmarkRec) btree"
  object_intro :: "(oid, IntroRec) btree"
  read_only :: bool

definition empty_catalog :: Catalog where
  "empty_catalog = \<lparr>refs = [], reflog_rows = [], namespaces = [], observation_rows = [],
     mounts = [], overlay = [], seals = [], landmarks = [], object_intro = [], read_only = False\<rparr>"

record RetiredRef =
  rr_name :: string
  rr_oid :: oid
  rr_kind :: string
  rr_agent_id :: string
  rr_ts_ms :: int

record PublishedResolution =
  pr_into :: string
  pr_commit :: oid
  pr_resolution_ref :: string
  pr_retired_conflict :: string
  pr_retired_conflict_oid :: oid

record AbandonedSession =
  as_ns_id :: string
  as_discarded_overlay :: nat
  as_removed_mounts :: nat
  as_removed_observations :: nat

fun observed_kind :: "Observed \<Rightarrow> string" where
  "observed_kind (SeenBlob _) = ''blob''"
| "observed_kind (SeenTree _) = ''tree''"
| "observed_kind SeenAbsent = ''absent''"

fun observed_oid :: "Observed \<Rightarrow> oid option" where
  "observed_oid (SeenBlob i) = Some i"
| "observed_oid (SeenTree i) = Some i"
| "observed_oid SeenAbsent = None"

fun observed_describe :: "Observed \<Rightarrow> string" where
  "observed_describe (SeenBlob i) = hex i"
| "observed_describe (SeenTree i) = ''tree '' @ hex i"
| "observed_describe SeenAbsent = ''absent''"

section \<open>Names\<close>

definition ascii_alnum :: "char \<Rightarrow> bool" where
  "ascii_alnum c \<longleftrightarrow>
     (CHR ''0'' \<le> c \<and> c \<le> CHR ''9'') \<or> (CHR ''A'' \<le> c \<and> c \<le> CHR ''Z'')
     \<or> (CHR ''a'' \<le> c \<and> c \<le> CHR ''z'')"

definition agent_char :: "char \<Rightarrow> bool" where
  "agent_char c \<longleftrightarrow> ascii_alnum c \<or> c = CHR ''-'' \<or> c = CHR ''_'' \<or> c = CHR ''.''"

text \<open>\<open>chars()\<close> walks code points: a continuation byte belongs to the character before it.\<close>

definition sanitize_chars :: "string \<Rightarrow> string" where
  "sanitize_chars s =
     concat (map (\<lambda>c. if utf8_cont (of_char c) then [] else if agent_char c then [c] else ''_'') s)"

definition sanitize_agent :: "string \<Rightarrow> string" where
  "sanitize_agent s = (let t = sanitize_chars s in if t = [] then ''anon'' else t)"

definition validate_inbox_task :: "string \<Rightarrow> error + string" where
  "validate_inbox_task task =
    (if task = [] \<or> length task > 64 then Inl (Invalid ''invalid inbox task'')
     else if sanitize_agent task \<noteq> task \<or> task = ''anon'' then Inl (Invalid ''invalid inbox task'')
     else Inr task)"

text \<open>\<open>char::is_control\<close>: the category Cc, in UTF-8 the bytes below 0x20, 0x7F, and 0xC2 followed
  by 0x80 to 0x9F.\<close>

fun has_control :: "string \<Rightarrow> bool" where
  "has_control [] = False"
| "has_control (c # s) =
    ((of_char c :: nat) < 0x20 \<or> (of_char c :: nat) = 0x7F
     \<or> ((of_char c :: nat) = 0xC2 \<and> s \<noteq> [] \<and> 0x80 \<le> (of_char (hd s) :: nat) \<and> (of_char (hd s) :: nat) < 0xA0)
     \<or> has_control s)"

definition validate_ref_name :: "string \<Rightarrow> error + unit" where
  "validate_ref_name name =
    (if name = [] \<or> length name > 512 \<or> hd name = CHR ''/'' \<or> last name = CHR ''/''
     then Inl (Invalid ''invalid ref name'')
     else if has_control name \<or> CHR 0x5C \<in> set name \<or> CHR '':'' \<in> set name
     then Inl (Invalid ''invalid ref name'')
     else if \<exists>part \<in> set (split_on CHR ''/'' name). part = [] \<or> part = ''.'' \<or> part = ''..''
     then Inl (Invalid ''invalid ref name'')
     else Inr ())"

definition starts_with :: "string \<Rightarrow> string \<Rightarrow> bool" where
  "starts_with p s \<longleftrightarrow> prefix p s"

definition bad_inbox :: "string \<Rightarrow> bool" where
  "bad_inbox rest =
    (let parts = split_on CHR ''/'' rest;
         agent = (case parts of [] \<Rightarrow> [] | a # _ \<Rightarrow> a);
         task = (case parts of _ # b # _ \<Rightarrow> b | _ \<Rightarrow> [])
     in length parts > 2 \<or> agent = [] \<or> sanitize_agent agent \<noteq> agent
        \<or> \<not> is_ok (validate_inbox_task task))"

definition required_kind :: "string \<Rightarrow> string option" where
  "required_kind name =
    (if name = ''main'' \<or> starts_with ''heads/'' name then Some ''commit''
     else if starts_with ''forks/inbox/'' name then Some ''snapshot''
     else if starts_with ''forks/'' name then Some ''commit''
     else if starts_with ''conflicts/'' name then Some ''conflict''
     else if starts_with ''resolutions/'' name then Some ''commit''
     else if starts_with ''tags/'' name \<or> starts_with ''inbox/'' name then Some ''snapshot''
     else None)"

definition validate_ref_kind :: "string \<Rightarrow> string \<Rightarrow> error + unit" where
  "validate_ref_kind name kind =
    and_then (validate_ref_name name) (\<lambda>_.
      if (case strip_prefix ''inbox/'' name of Some rest \<Rightarrow> bad_inbox rest | None \<Rightarrow> False)
      then Inl (Invalid ''invalid inbox ref'')
      else case required_kind name of
             Some expected \<Rightarrow> if kind \<noteq> expected then Inl (Invalid ''ref requires kind'') else Inr ()
           | None \<Rightarrow> Inr ())"

definition session_fork_name :: "string \<Rightarrow> string \<Rightarrow> string \<Rightarrow> string" where
  "session_fork_name ref_name fork_agent ulid =
     ''heads/agents/'' @ sanitize_agent fork_agent @ ''/forks/'' @ ref_name @ ''/'' @ ulid"

definition fork_name :: "string \<Rightarrow> string \<Rightarrow> string \<Rightarrow> string" where
  "fork_name name fork_agent ulid = ''forks/'' @ name @ ''/'' @ sanitize_agent fork_agent @ ''/'' @ ulid"

definition is_fork_ref :: "string \<Rightarrow> bool" where
  "is_fork_ref name =
    (if starts_with ''forks/'' name then True
     else case strip_prefix ''heads/agents/'' name of
            None \<Rightarrow> False
          | Some rest \<Rightarrow>
              (case split_once CHR ''/'' rest of
                 None \<Rightarrow> False
               | Some (_, tail) \<Rightarrow> starts_with ''forks/'' tail \<and> length tail > length ''forks/''))"

definition catalog_object_type :: "string \<Rightarrow> ObjectType option" where
  "catalog_object_type kind =
    (if kind = ''blob'' then Some ObjectType.Blob
     else if kind = ''tree'' then Some ObjectType.Tree
     else if kind = ''commit'' then Some ObjectType.Commit
     else if kind = ''conflict'' then Some ObjectType.Conflict
     else if kind = ''snapshot'' then Some ObjectType.Snapshot
     else if kind = ''contribution'' then Some ObjectType.Contribution
     else None)"

definition catalog_ref_type :: "string \<Rightarrow> ObjectType option" where
  "catalog_ref_type kind =
    (if kind = ''tree'' then Some ObjectType.Tree
     else if kind = ''commit'' then Some ObjectType.Commit
     else if kind = ''conflict'' then Some ObjectType.Conflict
     else if kind = ''snapshot'' then Some ObjectType.Snapshot
     else None)"

section \<open>Transactions\<close>

type_synonym 'a tx = "Catalog \<Rightarrow> error + ('a \<times> Catalog)"

text \<open>\<open>begin_tx\<close>, or one autocommit statement, on the write connection.\<close>

definition begin_tx :: "'a tx \<Rightarrow> 'a tx" where
  "begin_tx body c =
    (if read_only c then Inl (Denied ''repository is open read-only; this operation writes metadata'')
     else body c)"

definition ref_kinds :: "string list" where
  "ref_kinds = [''commit'', ''tree'', ''conflict'', ''snapshot'']"

definition insert_ref_row ::
  "string \<Rightarrow> oid \<Rightarrow> string \<Rightarrow> bool \<Rightarrow> bool \<Rightarrow> int \<Rightarrow> Catalog \<Rightarrow> error + Catalog" where
  "insert_ref_row name i kind protected sealed ts c =
    (if kind \<notin> set ref_kinds then Inl (Invalid ''CHECK constraint failed'')
     else and_then
       (insert_row name \<lparr>r_oid = i, r_kind = kind, r_protected = protected, r_sealed = sealed,
                         r_updated_ms = ts\<rparr> (refs c))
       (\<lambda>t. Inr (c\<lparr>refs := t\<rparr>)))"

definition push_reflog ::
  "string \<Rightarrow> oid option \<Rightarrow> oid \<Rightarrow> string \<Rightarrow> string \<Rightarrow> int \<Rightarrow> Catalog \<Rightarrow> Catalog" where
  "push_reflog name old new agent reason ts c =
    c\<lparr>reflog_rows := reflog_rows c @ [\<lparr>l_name = name, l_old_oid = old, l_new_oid = new,
       l_agent_id = agent, l_reason = reason, l_ts_ms = ts\<rparr>]\<rparr>"

definition last_reflog :: "string \<Rightarrow> Catalog \<Rightarrow> ReflogRec option" where
  "last_reflog name c = find (\<lambda>r. l_name r = name) (rev (reflog_rows c))"

definition ref_retired :: "Catalog \<Rightarrow> string \<Rightarrow> bool" where
  "ref_retired c name \<longleftrightarrow> map_option l_reason (last_reflog name c) = Some ''abandon''"

definition deny_retired :: "Catalog \<Rightarrow> string \<Rightarrow> error + unit" where
  "deny_retired c name =
    (if ref_retired c name
     then Inl (Invalid ''ref was abandoned; the name is retired and cannot be recreated'')
     else Inr ())"

definition ref_exists :: "Catalog \<Rightarrow> string \<Rightarrow> bool" where
  "ref_exists c name \<longleftrightarrow> has_row name (refs c)"

definition insert_intros :: "oid list \<Rightarrow> oid \<Rightarrow> string \<Rightarrow> int \<Rightarrow> Catalog \<Rightarrow> Catalog" where
  "insert_intros oids commit agent ts c =
    c\<lparr>object_intro :=
       fold (\<lambda>i. insert_or_ignore i \<lparr>i_commit_oid = commit, i_agent_id = agent, i_ts_ms = ts\<rparr>)
            oids (object_intro c)\<rparr>"

section \<open>Refs\<close>

definition get_ref :: "Catalog \<Rightarrow> string \<Rightarrow> RefRow option" where
  "get_ref c name =
    map_option (\<lambda>r. \<lparr>row_name = name, row_oid = r_oid r, row_kind = r_kind r,
                      row_protected = r_protected r, row_sealed = r_sealed r\<rparr>)
      (map_of (refs c) name)"

definition list_refs :: "Catalog \<Rightarrow> RefRow list" where
  "list_refs c =
    map (\<lambda>(name, r). \<lparr>row_name = name, row_oid = r_oid r, row_kind = r_kind r,
                        row_protected = r_protected r, row_sealed = r_sealed r\<rparr>) (refs c)"

definition reflog :: "Catalog \<Rightarrow> string \<Rightarrow> nat \<Rightarrow> (oid option \<times> oid \<times> string \<times> string) list" where
  "reflog c name limit =
    map (\<lambda>r. (l_old_oid r, l_new_oid r, l_agent_id r, l_reason r))
      (take limit (filter (\<lambda>r. l_name r = name) (rev (reflog_rows c))))"

definition insert_ref ::
  "string \<Rightarrow> oid \<Rightarrow> string \<Rightarrow> bool \<Rightarrow> bool \<Rightarrow> string \<Rightarrow> string \<Rightarrow> int \<Rightarrow> unit tx" where
  "insert_ref name i kind protected sealed agent reason ts c =
    and_then (validate_ref_kind name kind) (\<lambda>_.
      if starts_with ''tags/'' name then Inl (Denied ''tags may only be created by seal'')
      else begin_tx (\<lambda>c.
        if ref_exists c name then Inl (Invalid ''ref already exists'')
        else and_then (deny_retired c name) (\<lambda>_.
          and_then (insert_ref_row name i kind protected sealed ts c) (\<lambda>c.
            Inr ((), push_reflog name None i agent reason ts c)))) c)"

definition insert_ref_with_intros ::
  "string \<Rightarrow> oid \<Rightarrow> string \<Rightarrow> bool \<Rightarrow> bool \<Rightarrow> string \<Rightarrow> string \<Rightarrow> oid list \<Rightarrow> int \<Rightarrow> unit tx" where
  "insert_ref_with_intros name i kind protected sealed agent reason intro_oids ts c =
    and_then (validate_ref_kind name kind) (\<lambda>_.
      if starts_with ''tags/'' name then Inl (Denied ''tags may only be created by seal'')
      else begin_tx (\<lambda>c.
        and_then (deny_retired c name) (\<lambda>_.
          and_then (insert_ref_row name i kind protected sealed ts c) (\<lambda>c.
            Inr ((), insert_intros intro_oids i agent ts
                       (push_reflog name None i agent reason ts c))))) c)"

text \<open>
  Compare-and-swap. \<open>UPDATE refs \<dots> WHERE name=? AND oid=expected AND sealed=0\<close> changes one row or
  none; none is the lost race, which forks.
\<close>

definition set_ref_oid :: "string \<Rightarrow> oid \<Rightarrow> string \<Rightarrow> int \<Rightarrow> Catalog \<Rightarrow> Catalog" where
  "set_ref_oid name new kind ts c =
    c\<lparr>refs := update_row name (\<lambda>r. r\<lparr>r_oid := new, r_kind := kind, r_updated_ms := ts\<rparr>) (refs c)\<rparr>"

definition cas_ref ::
  "string \<Rightarrow> oid \<Rightarrow> oid \<Rightarrow> string \<Rightarrow> string \<Rightarrow> string \<Rightarrow> bool \<Rightarrow> string \<Rightarrow> int \<Rightarrow> CasResult tx" where
  "cas_ref name expected new kind agent fork_agent allow_protected ulid ts c =
    and_then (validate_ref_kind name kind) (\<lambda>_.
      if starts_with ''tags/'' name then Inl (Denied ''sealed tags cannot be updated through CAS'')
      else begin_tx (\<lambda>c.
        case map_of (refs c) name of
          None \<Rightarrow>
            and_then (deny_retired c name) (\<lambda>_.
              and_then (insert_ref_row name new kind False False ts c) (\<lambda>c.
                Inr (Updated name new, push_reflog name None new agent ''cas'' ts c)))
        | Some row \<Rightarrow>
            if r_kind row \<noteq> kind then Inl (Invalid ''ref kind is immutable'')
            else if r_sealed row then Inl (Sealed name)
            else if r_protected row \<and> \<not> allow_protected
            then Inl (Denied ''ref is protected; only merge/seal may advance it'')
            else if r_oid row = expected
            then Inr (Updated name new,
                      push_reflog name (Some expected) new agent ''cas'' ts (set_ref_oid name new kind ts c))
            else
              (let fork = fork_name name fork_agent ulid in
               and_then (validate_ref_kind fork kind) (\<lambda>_.
                 and_then (insert_ref_row fork new kind False False ts c) (\<lambda>c.
                   Inr (Forked name fork new (r_oid row),
                        push_reflog fork (Some (r_oid row)) new agent ''fork'' ts c))))) c)"

definition cas_ref_with_intros ::
  "string \<Rightarrow> oid \<Rightarrow> oid \<Rightarrow> string \<Rightarrow> string \<Rightarrow> string \<Rightarrow> bool \<Rightarrow> oid list \<Rightarrow> string \<Rightarrow> int
   \<Rightarrow> CasResult tx" where
  "cas_ref_with_intros name expected new kind agent fork_agent allow_protected intro_oids ulid ts c =
    and_then (validate_ref_kind name kind) (\<lambda>_.
      if starts_with ''tags/'' name then Inl (Denied ''sealed tags cannot be updated through CAS'')
      else begin_tx (\<lambda>c.
        case map_of (refs c) name of
          None \<Rightarrow>
            and_then (deny_retired c name) (\<lambda>_.
              and_then (insert_ref_row name new kind False False ts c) (\<lambda>c.
                Inr (Updated name new,
                     insert_intros intro_oids new agent ts
                       (push_reflog name None new agent ''cas'' ts c))))
        | Some row \<Rightarrow>
            if r_kind row \<noteq> kind then Inl (Invalid ''ref kind is immutable'')
            else if r_sealed row then Inl (Sealed name)
            else if r_protected row \<and> \<not> allow_protected
            then Inl (Denied ''ref is protected; only merge/seal may advance it'')
            else if r_oid row = expected
            then Inr (Updated name new,
                      insert_intros intro_oids new agent ts
                        (push_reflog name (Some expected) new agent ''cas'' ts
                          (set_ref_oid name new kind ts c)))
            else
              (let fork = fork_name name fork_agent ulid in
               and_then (validate_ref_kind fork kind) (\<lambda>_.
                 and_then (insert_ref_row fork new kind False False ts c) (\<lambda>c.
                   Inr (Forked name fork new (r_oid row),
                        insert_intros intro_oids new agent ts
                          (push_reflog fork (Some (r_oid row)) new agent ''fork'' ts c)))))) c)"

text \<open>\<open>SELECT COUNT(*)\<close> of the sessions that still resolve a name.\<close>

definition live_head :: "Catalog \<Rightarrow> string \<Rightarrow> bool" where
  "live_head c name \<longleftrightarrow> list_ex (\<lambda>(_, n). n_live_ref n = Some name) (namespaces c)"

definition still_mounted :: "Catalog \<Rightarrow> string \<Rightarrow> bool" where
  "still_mounted c name \<longleftrightarrow> list_ex (\<lambda>(_, m). m_spec m = name \<or> m_spec m = ''ref:'' @ name) (mounts c)"

definition delete_ref :: "string \<Rightarrow> Catalog \<Rightarrow> Catalog" where
  "delete_ref name c = c\<lparr>refs := delete_rows (\<lambda>n. n = name) (refs c)\<rparr>"

definition abandon_ref :: "string \<Rightarrow> string \<Rightarrow> int \<Rightarrow> RetiredRef tx" where
  "abandon_ref name agent ts c =
    and_then (validate_ref_name name) (\<lambda>_.
      if \<not> is_fork_ref name then Inl (Invalid ''only fork refs may be abandoned'')
      else begin_tx (\<lambda>c.
        case map_of (refs c) name of
          None \<Rightarrow>
            if ref_retired c name then Inl (Invalid ''ref is already abandoned'')
            else Inl (NotFound ''ref'')
        | Some row \<Rightarrow>
            if r_sealed row then Inl (Sealed name)
            else if r_protected row then Inl (Denied ''ref is protected'')
            else if live_head c name then Inl (Invalid ''ref is the live head of an open session'')
            else if still_mounted c name then Inl (Invalid ''ref is still mounted by an open session'')
            else Inr (\<lparr>rr_name = name, rr_oid = r_oid row, rr_kind = r_kind row, rr_agent_id = agent,
                       rr_ts_ms = ts\<rparr>,
                      delete_ref name
                        (push_reflog name (Some (r_oid row)) (r_oid row) agent ''abandon'' ts c))) c)"

text \<open>
  One transaction advances \<open>into\<close>, binds \<open>resolutions/\<dots>\<close> and retires the conflict ref. The
  \<open>UPDATE\<close> and the \<open>DELETE\<close> each change exactly one row, because the transaction has just read
  those rows, so the source's answers for any other count do not arise.
\<close>

definition publish_resolution ::
  "string \<Rightarrow> oid \<Rightarrow> oid \<Rightarrow> string \<Rightarrow> oid \<Rightarrow> string \<Rightarrow> string \<Rightarrow> bool \<Rightarrow> oid list \<Rightarrow> int
   \<Rightarrow> PublishedResolution tx" where
  "publish_resolution into expected commit conflict_ref conflict_oid resolution_ref agent
     allow_protected intro_oids ts c =
    and_then (validate_ref_kind into ''commit'') (\<lambda>_.
    and_then (validate_ref_kind resolution_ref ''commit'') (\<lambda>_.
    and_then (validate_ref_kind conflict_ref ''conflict'') (\<lambda>_.
      if \<not> starts_with ''conflicts/'' conflict_ref
      then Inl (Invalid ''only conflict refs may be retired by resolve'')
      else if \<not> starts_with ''resolutions/'' resolution_ref
      then Inl (Invalid ''resolution binding must live under resolutions/'')
      else if starts_with ''tags/'' into \<or> starts_with ''tags/'' resolution_ref
      then Inl (Denied ''sealed tags cannot be updated through resolve'')
      else begin_tx (\<lambda>c.
        case map_of (refs c) into of
          None \<Rightarrow> Inl (NotFound ''ref'')
        | Some row \<Rightarrow>
            if r_kind row \<noteq> ''commit'' then Inl (Invalid ''ref kind is immutable'')
            else if r_sealed row then Inl (Sealed into)
            else if r_protected row \<and> \<not> allow_protected
            then Inl (Denied ''ref is protected; only merge/seal/resolve may advance it'')
            else if r_oid row \<noteq> expected
            then Inl (StaleObservation into (hex expected) (hex (r_oid row)))
            else (case map_of (refs c) conflict_ref of
              None \<Rightarrow>
                if ref_retired c conflict_ref then Inl (Invalid ''conflict ref is already retired'')
                else Inl (NotFound ''ref'')
            | Some con \<Rightarrow>
                if r_kind con \<noteq> ''conflict'' then Inl (Invalid ''ref is not conflict'')
                else if r_sealed con then Inl (Sealed conflict_ref)
                else if r_protected con then Inl (Denied ''ref is protected'')
                else if r_oid con \<noteq> conflict_oid then Inl (Invalid ''conflict ref no longer names'')
                else if live_head c conflict_ref
                then Inl (Invalid ''ref is the live head of an open session'')
                else if still_mounted c conflict_ref
                then Inl (Invalid ''ref is still mounted by an open session'')
                else if ref_exists c resolution_ref then Inl (Invalid ''ref already exists'')
                else and_then (deny_retired c resolution_ref) (\<lambda>_.
                  let c = push_reflog into (Some expected) commit agent ''resolve'' ts
                            (set_ref_oid into commit ''commit'' ts c) in
                  and_then (insert_ref_row resolution_ref commit ''commit'' False False ts c) (\<lambda>c.
                  let c = push_reflog resolution_ref None commit agent ''resolve'' ts c;
                      c = push_reflog conflict_ref (Some conflict_oid) conflict_oid agent ''abandon'' ts c;
                      c = delete_ref conflict_ref c;
                      c = insert_intros intro_oids commit agent ts c in
                  Inr (\<lparr>pr_into = into, pr_commit = commit, pr_resolution_ref = resolution_ref,
                        pr_retired_conflict = conflict_ref,
                        pr_retired_conflict_oid = conflict_oid\<rparr>, c))))) c)))"

section \<open>Seals, landmarks and introductions\<close>

definition add_landmark :: "oid \<Rightarrow> string \<Rightarrow> string \<Rightarrow> int \<Rightarrow> Catalog \<Rightarrow> Catalog" where
  "add_landmark i kind reason ts c =
    c\<lparr>landmarks := insert_or_ignore i \<lparr>k_kind = kind, k_reason = reason, k_ts_ms = ts\<rparr> (landmarks c)\<rparr>"

definition landmark :: "oid \<Rightarrow> string \<Rightarrow> string \<Rightarrow> int \<Rightarrow> unit tx" where
  "landmark i kind reason ts = begin_tx (\<lambda>c. Inr ((), add_landmark i kind reason ts c))"

definition insert_seal_row :: "string \<Rightarrow> SealRec \<Rightarrow> Catalog \<Rightarrow> error + Catalog" where
  "insert_seal_row tag s c =
    (if list_ex (\<lambda>(_, t). s_snap_oid t = s_snap_oid s) (seals c)
     then Inl (Invalid ''UNIQUE constraint failed'')
     else and_then (insert_row tag s (seals c)) (\<lambda>t. Inr (c\<lparr>seals := t\<rparr>)))"

definition check_expect_ref :: "Catalog \<Rightarrow> (string \<times> oid) option \<Rightarrow> error + unit" where
  "check_expect_ref c expect_ref =
    (case expect_ref of
       None \<Rightarrow> Inr ()
     | Some (name, expected) \<Rightarrow>
         (case map_of (refs c) name of
            None \<Rightarrow> Inl (NotFound ''ref'')
          | Some row \<Rightarrow>
              if r_oid row \<noteq> expected
              then Inl (StaleObservation name (hex expected) (hex (r_oid row)))
              else Inr ()))"

definition commit_seal ::
  "string \<Rightarrow> oid \<Rightarrow> oid \<Rightarrow> oid \<Rightarrow> string \<Rightarrow> (string \<times> oid) option \<Rightarrow> int \<Rightarrow> unit tx" where
  "commit_seal tag snap commit tree agent expect_ref ts =
    begin_tx (\<lambda>c.
      let tag_ref = ''tags/'' @ tag in
      and_then (validate_ref_kind tag_ref ''snapshot'') (\<lambda>_.
        if ref_exists c tag_ref then Inl (Sealed tag_ref)
        else and_then (check_expect_ref c expect_ref) (\<lambda>_.
          and_then (insert_ref_row tag_ref snap ''snapshot'' True True ts c) (\<lambda>c.
          let c = push_reflog tag_ref None snap agent ''seal'' ts c in
          and_then (insert_seal_row tag \<lparr>s_snap_oid = snap, s_commit_oid = commit, s_tree_oid = tree,
                                         s_ts_ms = ts\<rparr> c) (\<lambda>c.
          Inr ((), add_landmark commit ''commit'' ''seal'' ts
                     (add_landmark snap ''snapshot'' ''seal'' ts c)))))))"

definition insert_seal :: "string \<Rightarrow> oid \<Rightarrow> oid \<Rightarrow> oid \<Rightarrow> int \<Rightarrow> unit tx" where
  "insert_seal tag snap commit tree ts = commit_seal tag snap commit tree ''seal'' None ts"

definition get_seal :: "Catalog \<Rightarrow> string \<Rightarrow> (oid \<times> oid \<times> oid) option" where
  "get_seal c tag = map_option (\<lambda>s. (s_snap_oid s, s_commit_oid s, s_tree_oid s)) (map_of (seals c) tag)"

definition list_seals :: "Catalog \<Rightarrow> (string \<times> oid \<times> oid \<times> oid) list" where
  "list_seals c = map (\<lambda>(tag, s). (tag, s_snap_oid s, s_commit_oid s, s_tree_oid s)) (seals c)"

definition list_landmarks :: "Catalog \<Rightarrow> (oid \<times> string) list" where
  "list_landmarks c = map (\<lambda>(i, k). (i, k_kind k)) (landmarks c)"

definition intro_insert :: "oid \<Rightarrow> oid \<Rightarrow> string \<Rightarrow> int \<Rightarrow> unit tx" where
  "intro_insert i commit agent ts =
    begin_tx (\<lambda>c. Inr ((), c\<lparr>object_intro :=
      insert_or_ignore i \<lparr>i_commit_oid = commit, i_agent_id = agent, i_ts_ms = ts\<rparr> (object_intro c)\<rparr>))"

definition intro_insert_many :: "oid list \<Rightarrow> oid \<Rightarrow> string \<Rightarrow> int \<Rightarrow> unit tx" where
  "intro_insert_many oids commit agent ts =
    begin_tx (\<lambda>c. Inr ((), insert_intros oids commit agent ts c))"

definition intro_get :: "Catalog \<Rightarrow> oid \<Rightarrow> string option" where
  "intro_get c i = map_option i_agent_id (map_of (object_intro c) i)"

definition forget_object :: "oid \<Rightarrow> Catalog \<Rightarrow> nat \<times> Catalog" where
  "forget_object i c =
    (let t1 = delete_rows (\<lambda>k. k = i) (object_intro c);
         t2 = filter (\<lambda>(_, r). i_commit_oid r \<noteq> i) t1
     in ((length (object_intro c) - length t1) + (length t1 - length t2), c\<lparr>object_intro := t2\<rparr>))"

section \<open>Sessions\<close>

definition insert_ns_row :: "string \<Rightarrow> NsRec \<Rightarrow> Catalog \<Rightarrow> error + Catalog" where
  "insert_ns_row ns r c = and_then (insert_row ns r (namespaces c)) (\<lambda>t. Inr (c\<lparr>namespaces := t\<rparr>))"

definition mount_modes :: "string list" where
  "mount_modes = [''ro'', ''rw'']"

definition insert_mount_row :: "string \<Rightarrow> string \<Rightarrow> MountRec \<Rightarrow> Catalog \<Rightarrow> error + Catalog" where
  "insert_mount_row ns path m c =
    (if m_mode m \<notin> set mount_modes then Inl (Invalid ''CHECK constraint failed'')
     else and_then (insert_row (ns, path) m (mounts c)) (\<lambda>t. Inr (c\<lparr>mounts := t\<rparr>)))"

definition create_session :: "string \<Rightarrow> string \<Rightarrow> oid \<Rightarrow> string \<Rightarrow> bool \<Rightarrow> int \<Rightarrow> unit tx" where
  "create_session ns agent pinned live_ref mount_main ts c =
    and_then (validate_ref_kind live_ref ''commit'') (\<lambda>_.
      begin_tx (\<lambda>c.
        and_then (insert_ns_row ns \<lparr>n_agent_id = agent, n_created_ms = ts, n_pinned_oid = Some pinned,
                                    n_live_ref = Some live_ref\<rparr> c) (\<lambda>c.
        and_then (insert_ref_row live_ref pinned ''commit'' False False ts c) (\<lambda>c.
        let c = push_reflog live_ref None pinned agent ''session'' ts c in
        and_then (insert_mount_row ns ''/'' \<lparr>m_spec = ''ref:'' @ live_ref, m_mode = ''rw'',
                                             m_base_oid = Some pinned\<rparr> c) (\<lambda>c.
        if mount_main
        then and_then (insert_mount_row ns ''/main'' \<lparr>m_spec = ''ref:main'', m_mode = ''ro'',
                                                      m_base_oid = None\<rparr> c) (\<lambda>c. Inr ((), c))
        else Inr ((), c))))) c)"

record NsRow =
  ns_id :: string
  ns_agent_id :: string
  ns_pinned_oid :: "oid option"
  ns_live_ref :: "string option"

definition ns_row :: "string \<Rightarrow> NsRec \<Rightarrow> NsRow" where
  "ns_row ns r = \<lparr>ns_id = ns, ns_agent_id = n_agent_id r, ns_pinned_oid = n_pinned_oid r,
                  ns_live_ref = n_live_ref r\<rparr>"

definition list_namespaces :: "Catalog \<Rightarrow> NsRow list" where
  "list_namespaces c = map (\<lambda>(ns, r). ns_row ns r) (namespaces c)"

definition insert_namespace :: "string \<Rightarrow> string \<Rightarrow> oid \<Rightarrow> string \<Rightarrow> int \<Rightarrow> unit tx" where
  "insert_namespace ns agent pinned live_ref ts =
    begin_tx (\<lambda>c.
      and_then (insert_ns_row ns \<lparr>n_agent_id = agent, n_created_ms = ts, n_pinned_oid = Some pinned,
                                  n_live_ref = Some live_ref\<rparr> c) (\<lambda>c. Inr ((), c)))"

definition get_namespace :: "Catalog \<Rightarrow> string \<Rightarrow> error + NsRow" where
  "get_namespace c ns = ok_or (NotFound ''namespace'') (map_option (ns_row ns) (map_of (namespaces c) ns))"

definition pin_ns :: "string \<Rightarrow> oid \<Rightarrow> Catalog \<Rightarrow> Catalog" where
  "pin_ns ns i c = c\<lparr>namespaces := update_row ns (\<lambda>r. r\<lparr>n_pinned_oid := Some i\<rparr>) (namespaces c)\<rparr>"

definition set_pin :: "string \<Rightarrow> oid \<Rightarrow> unit tx" where
  "set_pin ns i = begin_tx (\<lambda>c. Inr ((), pin_ns ns i c))"

record MountRow =
  mt_path :: string
  mt_spec :: string
  mt_mode :: string
  mt_base_oid :: "oid option"

definition mount_row :: "string \<Rightarrow> MountRec \<Rightarrow> MountRow" where
  "mount_row path m = \<lparr>mt_path = path, mt_spec = m_spec m, mt_mode = m_mode m, mt_base_oid = m_base_oid m\<rparr>"

definition insert_mount :: "string \<Rightarrow> string \<Rightarrow> string \<Rightarrow> string \<Rightarrow> oid option \<Rightarrow> unit tx" where
  "insert_mount ns path spec mode base =
    begin_tx (\<lambda>c.
      if mode \<notin> set mount_modes then Inl (Invalid ''CHECK constraint failed'')
      else Inr ((), c\<lparr>mounts := bt_insert (ns, path)
                        \<lparr>m_spec = spec, m_mode = mode, m_base_oid = base\<rparr> (mounts c)\<rparr>))"

definition list_mounts :: "Catalog \<Rightarrow> string \<Rightarrow> MountRow list" where
  "list_mounts c ns = map (\<lambda>((_, path), m). mount_row path m) (filter (\<lambda>((n, _), _). n = ns) (mounts c))"

definition get_mount :: "Catalog \<Rightarrow> string \<Rightarrow> string \<Rightarrow> MountRow option" where
  "get_mount c ns path = map_option (mount_row path) (map_of (mounts c) (ns, path))"

definition set_mount_spec :: "string \<Rightarrow> string \<Rightarrow> string \<Rightarrow> Catalog \<Rightarrow> Catalog" where
  "set_mount_spec ns path spec c =
    c\<lparr>mounts := update_row (ns, path) (\<lambda>m. m\<lparr>m_spec := spec\<rparr>) (mounts c)\<rparr>"

definition update_mount_spec :: "string \<Rightarrow> string \<Rightarrow> string \<Rightarrow> unit tx" where
  "update_mount_spec ns path spec = begin_tx (\<lambda>c. Inr ((), set_mount_spec ns path spec c))"

definition repin_mount_tx :: "string \<Rightarrow> string \<Rightarrow> oid \<Rightarrow> Catalog \<Rightarrow> error + Catalog" where
  "repin_mount_tx ns path base c =
    (if \<not> has_row (ns, path) (mounts c) then Inl (Corrupt ''missing checkin mount'')
     else Inr (c\<lparr>mounts := update_row (ns, path) (\<lambda>m. m\<lparr>m_base_oid := Some base\<rparr>) (mounts c)\<rparr>))"

definition clear_overlay :: "string \<Rightarrow> string \<Rightarrow> Catalog \<Rightarrow> Catalog" where
  "clear_overlay ns mount c = c\<lparr>overlay := delete_rows (\<lambda>(n, m, _). n = ns \<and> m = mount) (overlay c)\<rparr>"

definition clear_observations :: "string \<Rightarrow> string \<Rightarrow> Catalog \<Rightarrow> Catalog" where
  "clear_observations ns mount c =
    c\<lparr>observation_rows := delete_rows (\<lambda>(n, m, _). n = ns \<and> m = mount) (observation_rows c)\<rparr>"

text \<open>The part of a checkin that closes one mount's epoch: its overlay, its pin, its observations.\<close>

definition close_epoch :: "string \<Rightarrow> string \<Rightarrow> oid \<Rightarrow> Catalog \<Rightarrow> error + Catalog" where
  "close_epoch ns mount new c =
    and_then (repin_mount_tx ns mount new (clear_overlay ns mount c)) (\<lambda>c.
      and_then
        (if mount = ''/''
         then if \<not> has_row ns (namespaces c) then Inl (Corrupt ''missing namespace'')
              else Inr (pin_ns ns new c)
         else Inr c)
        (\<lambda>c. Inr (clear_observations ns mount c)))"

text \<open>The \<open>UPDATE\<close> of the winning branch is repeated under the conditions the transaction has
  just read, so the source's \<open>Busy\<close> answer for zero changed rows does not arise.\<close>

definition cas_ref_session ::
  "string \<Rightarrow> oid \<Rightarrow> oid \<Rightarrow> string \<Rightarrow> string \<Rightarrow> string \<Rightarrow> string \<Rightarrow> oid list \<Rightarrow> string \<Rightarrow> int
   \<Rightarrow> CasResult tx" where
  "cas_ref_session name expected new agent fork_agent ns mount intro_oids ulid ts c =
    and_then (validate_ref_kind name ''commit'') (\<lambda>_.
      begin_tx (\<lambda>c.
        case map_of (refs c) name of
          None \<Rightarrow> Inl (NotFound ''ref'')
        | Some row \<Rightarrow>
            if r_kind row \<noteq> ''commit'' then Inl (Invalid ''ref is not commit'')
            else if r_sealed row then Inl (Sealed name)
            else if r_protected row
            then Inl (Denied ''ref is protected; session checkin cannot advance it'')
            else
              and_then
                (if r_oid row = expected
                 then Inr (Updated name new,
                           push_reflog name (Some expected) new agent ''cas'' ts
                             (set_ref_oid name new ''commit'' ts c))
                 else
                   (let fork = session_fork_name name fork_agent ulid in
                    and_then (validate_ref_kind fork ''commit'') (\<lambda>_.
                    and_then (insert_ref_row fork new ''commit'' False False ts c) (\<lambda>c.
                    let c = push_reflog fork (Some (r_oid row)) new agent ''fork'' ts c in
                    if \<not> has_row (ns, mount) (mounts c) then Inl (Corrupt ''missing checkin mount'')
                    else Inr (Forked name fork new (r_oid row),
                              set_mount_spec ns mount (''ref:'' @ fork) c)))))
                (\<lambda>(result, c).
                   and_then (close_epoch ns mount new c) (\<lambda>c.
                     Inr (result, insert_intros intro_oids new agent ts c)))) c)"

definition complete_noop_session :: "string \<Rightarrow> string \<Rightarrow> oid \<Rightarrow> unit tx" where
  "complete_noop_session ns mount pinned =
    begin_tx (\<lambda>c. and_then (close_epoch ns mount pinned c) (\<lambda>c. Inr ((), c)))"

definition observation_is_current :: "Catalog \<Rightarrow> string \<Rightarrow> string \<Rightarrow> string \<Rightarrow> Observed \<Rightarrow> bool" where
  "observation_is_current c ns mount path seen =
    (case map_of (observation_rows c) (ns, mount, path) of
       Some stored \<Rightarrow> observed_kind stored = observed_kind seen \<and> observed_oid stored = observed_oid seen
     | None \<Rightarrow> False)"

definition observe :: "string \<Rightarrow> string \<Rightarrow> string \<Rightarrow> Observed \<Rightarrow> unit tx" where
  "observe ns mount path seen c =
    (if \<not> read_only c \<and> observation_is_current c ns mount path seen then Inr ((), c)
     else begin_tx (\<lambda>c. Inr ((), c\<lparr>observation_rows :=
            bt_insert (ns, mount, path) seen (observation_rows c)\<rparr>)) c)"

definition observations :: "Catalog \<Rightarrow> string \<Rightarrow> (string \<times> string \<times> Observed) list" where
  "observations c ns =
    map (\<lambda>((_, m, p), seen). (m, p, seen)) (filter (\<lambda>((n, _), _). n = ns) (observation_rows c))"

definition observations_clear :: "string \<Rightarrow> unit tx" where
  "observations_clear ns =
    begin_tx (\<lambda>c. Inr ((), c\<lparr>observation_rows := delete_rows (\<lambda>(n, _). n = ns) (observation_rows c)\<rparr>))"

section \<open>Overlay\<close>

text \<open>\<open>q\<close> lies strictly below \<open>p\<close>: \<open>substr(q,1,length(p))=p\<close> and the next character is a slash.\<close>

definition below :: "string \<Rightarrow> string \<Rightarrow> bool" where
  "below p q \<longleftrightarrow> prefix (p @ ''/'') q"

definition overlay_conflict :: "Catalog \<Rightarrow> string \<Rightarrow> string \<Rightarrow> string \<Rightarrow> bool" where
  "overlay_conflict c ns mount path \<longleftrightarrow>
     list_ex (\<lambda>((n, m, p), _). n = ns \<and> m = mount \<and> p \<noteq> path \<and> (below p path \<or> below path p)) (overlay c)"

definition overlay_ancestor :: "Catalog \<Rightarrow> string \<Rightarrow> string \<Rightarrow> string \<Rightarrow> bool" where
  "overlay_ancestor c ns mount path \<longleftrightarrow>
     list_ex (\<lambda>((n, m, p), _). n = ns \<and> m = mount \<and> below p path) (overlay c)"

definition stage :: "string \<Rightarrow> string \<Rightarrow> string \<Rightarrow> oid option \<Rightarrow> bool \<Rightarrow> Catalog \<Rightarrow> Catalog" where
  "stage ns mount path blob exec c =
    c\<lparr>overlay := bt_insert (ns, mount, path) \<lparr>o_blob_oid = blob, o_exec = exec\<rparr> (overlay c)\<rparr>"

definition overlay_upsert :: "string \<Rightarrow> string \<Rightarrow> string \<Rightarrow> oid option \<Rightarrow> bool \<Rightarrow> unit tx" where
  "overlay_upsert ns mount path blob exec =
    begin_tx (\<lambda>c.
      if overlay_conflict c ns mount path then Inl (Invalid ''overlay path conflict'')
      else Inr ((), stage ns mount path blob exec c))"

definition supersede :: "string \<Rightarrow> string \<Rightarrow> string \<Rightarrow> Catalog \<Rightarrow> Catalog" where
  "supersede ns mount path c =
    c\<lparr>overlay := delete_rows (\<lambda>(n, m, p). n = ns \<and> m = mount \<and> (p = path \<or> below path p)) (overlay c)\<rparr>"

definition overlay_rename ::
  "string \<Rightarrow> string \<Rightarrow> string \<Rightarrow> string \<Rightarrow> (string \<times> oid \<times> bool) list \<Rightarrow> unit tx" where
  "overlay_rename ns mount from to dest =
    begin_tx (\<lambda>c.
      let c = supersede ns mount to (supersede ns mount from c) in
      if overlay_ancestor c ns mount from then Inl (Invalid ''overlay path conflict'')
      else if overlay_ancestor c ns mount to then Inl (Invalid ''overlay path conflict'')
      else
        let c = fold (\<lambda>(path, i, exec). stage ns mount path (Some i) exec) dest c in
        Inr ((), stage ns mount from None False c))"

definition overlay_list :: "Catalog \<Rightarrow> string \<Rightarrow> string \<Rightarrow> (string \<times> oid option \<times> bool) list" where
  "overlay_list c ns mount =
    map (\<lambda>((_, _, p), r). (p, o_blob_oid r, o_exec r))
      (filter (\<lambda>((n, m, _), _). n = ns \<and> m = mount) (overlay c))"

fun group_count :: "'a list \<Rightarrow> ('a \<times> nat) list" where
  "group_count [] = []"
| "group_count (x # xs) =
    (case group_count xs of
       (y, k) # rest \<Rightarrow> if x = y then (y, Suc k) # rest else (x, 1) # (y, k) # rest
     | [] \<Rightarrow> [(x, 1)])"

definition overlay_mounts_outside :: "Catalog \<Rightarrow> string \<Rightarrow> string \<Rightarrow> (string \<times> nat) list" where
  "overlay_mounts_outside c ns except =
    group_count (map (\<lambda>((_, m, _), _). m) (filter (\<lambda>((n, m, _), _). n = ns \<and> m \<noteq> except) (overlay c)))"

definition overlay_clear :: "string \<Rightarrow> string \<Rightarrow> unit tx" where
  "overlay_clear ns mount = begin_tx (\<lambda>c. Inr ((), clear_overlay ns mount c))"

definition abandon_session :: "string \<Rightarrow> bool \<Rightarrow> AbandonedSession tx" where
  "abandon_session ns discard_staged =
    begin_tx (\<lambda>c.
      if \<not> has_row ns (namespaces c) then Inl (NotFound ''namespace'')
      else
        let staged = length (filter (\<lambda>((n, _), _). n = ns) (overlay c)) in
        if staged \<noteq> 0 \<and> \<not> discard_staged
        then Inl (Invalid ''session has staged overlay entries; check in first or abandon with the explicit discard flag'')
        else
          let mounts' = delete_rows (\<lambda>(n, _). n = ns) (mounts c);
              obs' = delete_rows (\<lambda>(n, _). n = ns) (observation_rows c)
          in Inr (\<lparr>as_ns_id = ns, as_discarded_overlay = staged,
                   as_removed_mounts = length (mounts c) - length mounts',
                   as_removed_observations = length (observation_rows c) - length obs'\<rparr>,
                  c\<lparr>mounts := mounts', observation_rows := obs',
                    overlay := delete_rows (\<lambda>(n, _). n = ns) (overlay c),
                    namespaces := delete_rows (\<lambda>n. n = ns) (namespaces c)\<rparr>))"

section \<open>Reclamation roots\<close>

record GcCatalogRoots =
  g_refs :: "(string \<times> string \<times> oid) list"
  g_pins :: "(string \<times> oid) list"
  g_live_refs :: nat
  g_mounts :: "(string \<times> string \<times> string \<times> oid option) list"
  g_overlay :: "(string \<times> string \<times> oid) list"
  g_observations :: "(string \<times> string \<times> string \<times> oid) list"
  g_landmarks :: "(oid \<times> string) list"
  g_seals :: "(string \<times> oid \<times> oid \<times> oid) list"

definition read_gc_roots :: "Catalog \<Rightarrow> GcCatalogRoots" where
  "read_gc_roots c = \<lparr>
     g_refs = map (\<lambda>(name, r). (name, r_kind r, r_oid r)) (refs c),
     g_pins = List.map_filter (\<lambda>(ns, r). map_option (Pair ns) (n_pinned_oid r)) (namespaces c),
     g_live_refs = length (filter (\<lambda>(_, r). n_live_ref r \<noteq> None) (namespaces c)),
     g_mounts = map (\<lambda>((ns, path), m). (ns, path, m_spec m, m_base_oid m)) (mounts c),
     g_overlay = List.map_filter (\<lambda>((ns, _, path), r). map_option (\<lambda>i. (ns, path, i)) (o_blob_oid r)) (overlay c),
     g_observations = List.map_filter
       (\<lambda>((ns, _, path), s). map_option (\<lambda>i. (ns, path, observed_kind s, i)) (observed_oid s)) (observation_rows c),
     g_landmarks = list_landmarks c,
     g_seals = list_seals c\<rparr>"

definition gc_roots :: "Catalog \<Rightarrow> GcCatalogRoots" where
  "gc_roots c = read_gc_roots c"

definition gc_sweep :: "'a tx \<Rightarrow> 'a tx" where
  "gc_sweep body c =
    (if read_only c then Inl (Denied ''repository is open read-only; collection may not unlink objects'')
     else begin_tx body c)"

section \<open>Group commit\<close>

text \<open>
  \<open>drain_group\<close>: every queued job runs in one transaction, each inside a savepoint. What SQLite
  answers to \<open>BEGIN\<close>, to the savepoint statements of job \<open>i\<close> and to \<open>COMMIT\<close> is an argument:
  \<open>None\<close> is success.
\<close>

record sql_faults =
  f_begin :: "error option"
  f_savepoint :: "nat \<Rightarrow> error option"
  f_release :: "nat \<Rightarrow> error option"
  f_rollback :: "nat \<Rightarrow> error option"
  f_commit :: "error option"

fun run_jobs ::
  "sql_faults \<Rightarrow> nat \<Rightarrow> 'a tx list \<Rightarrow> error option \<Rightarrow> Catalog \<Rightarrow> (error + 'a) list \<times> error option \<times> Catalog" where
  "run_jobs F i [] poisoned c = ([], poisoned, c)"
| "run_jobs F i (job # jobs) (Some e) c =
    (let (outs, p, c') = run_jobs F (Suc i) jobs (Some e) c in (Inl e # outs, p, c'))"
| "run_jobs F i (job # jobs) None c =
    (let (out, p, c') =
       (case f_savepoint F i of
          Some e \<Rightarrow> (Inl e, Some e, c)
        | None \<Rightarrow>
            (case job c of
               Inr (v, c') \<Rightarrow>
                 (case f_release F i of
                    None \<Rightarrow> (Inr v, None, c')
                  | Some e \<Rightarrow> (Inl e, Some e, c'))
             | Inl e \<Rightarrow> (Inl e, f_rollback F i, c)))
     in let (outs, p', c'') = run_jobs F (Suc i) jobs p c' in (out # outs, p', c''))"

definition drain_group :: "sql_faults \<Rightarrow> 'a tx list \<Rightarrow> Catalog \<Rightarrow> (error + 'a) list \<times> Catalog" where
  "drain_group F batch c =
    (case f_begin F of
       Some e \<Rightarrow> (map (\<lambda>_. Inl e) batch, c)
     | None \<Rightarrow>
         (let (outs, poisoned, c') = run_jobs F 0 batch None c in
          case poisoned of
            Some e \<Rightarrow> (map (\<lambda>_. Inl e) batch, c)
          | None \<Rightarrow>
              (case f_commit F of
                 None \<Rightarrow> (outs, c')
               | Some e \<Rightarrow> (map (\<lambda>_. Inl e) batch, c))))"

end
