(* ===== verification/Cbor.thy ===== *)
theory Cbor
  imports Types
begin

unbundle bit_operations_syntax

text \<open>
  The canonical CBOR subset of \<open>src/crates/forge-core/src/cbor.rs\<close>: shortest-form integers,
  definite lengths, strictly sorted text map keys.

  An encoder of the source appends to \<open>out: &mut Vec<u8>\<close>; here it returns the bytes it appends.
  The \<open>Reader\<close> keeps the buffer and the position; \<open>usize\<close> is the 64-bit \<open>usize\<close> of the supported
  targets, so positions are naturals and the \<open>checked_add\<close> overflow is the bound \<open>2 ^ 64\<close>.

  Every reader operation has one characterisation, collected in \<open>codec\<close>: it succeeds with value
  \<open>v\<close> exactly when the bytes at the position are the canonical encoding of \<open>v\<close>, and it then
  advances past them. Both directions of every round trip in the object theories follow from these.
\<close>

section \<open>Encoders\<close>

definition u8_len :: "u64 \<Rightarrow> u8" where
  "u8_len n =
    (if n < 24 then ucast n
     else if n \<le> 0xff then 24
     else if n \<le> 0xffff then 25
     else if n \<le> 0xffffffff then 26
     else 27)"

definition push_uint :: "u8 \<Rightarrow> u64 \<Rightarrow> bytes" where
  "push_uint major n =
    (let ai = u8_len n in
     (push_bit 5 major OR ai) #
     (if ai = 24 then [ucast n]
      else if ai = 25 then be_bytes 2 (ucast n :: 16 word)
      else if ai = 26 then be_bytes 4 (ucast n :: 32 word)
      else if ai = 27 then be_bytes 8 n
      else []))"

definition encode_u64 :: "u64 \<Rightarrow> bytes" where
  "encode_u64 n = push_uint 0 n"

definition encode_bool :: "bool \<Rightarrow> bytes" where
  "encode_bool v = [if v then 0xf5 else 0xf4]"

definition encode_null :: bytes where
  "encode_null = [0xf6]"

definition encode_bytes :: "bytes \<Rightarrow> bytes" where
  "encode_bytes b = push_uint 2 (of_nat (length b)) @ b"

definition encode_text :: "string \<Rightarrow> bytes" where
  "encode_text s = push_uint 3 (of_nat (length s)) @ as_bytes s"

definition encode_array_header :: "u64 \<Rightarrow> bytes" where
  "encode_array_header n = push_uint 4 n"

definition encode_map_header :: "u64 \<Rightarrow> bytes" where
  "encode_map_header n = push_uint 5 n"

definition encode_map_sorted :: "(bytes \<times> bytes) list \<Rightarrow> bytes" where
  "encode_map_sorted pairs =
    (let pairs = sort_key fst pairs
     in encode_map_header (of_nat (length pairs)) @ concat (map (\<lambda>(k, v). k @ v) pairs))"

definition text_key :: "string \<Rightarrow> bytes" where
  "text_key s = encode_text s"

section \<open>Reader\<close>

record Reader =
  buf :: bytes
  pos :: nat

definition new_reader :: "bytes \<Rightarrow> Reader" where
  "new_reader b = \<lparr>buf = b, pos = 0\<rparr>"

definition remaining :: "Reader \<Rightarrow> bytes" where
  "remaining r = drop (pos r) (buf r)"

definition at_end :: "Reader \<Rightarrow> bool" where
  "at_end r \<longleftrightarrow> pos r = length (buf r)"

definition rd_take :: "Reader \<Rightarrow> nat \<Rightarrow> error + (bytes \<times> Reader)" where
  "rd_take r n =
    (let e = pos r + n in
     if 2 ^ 64 \<le> e then Inl (Corrupt ''cbor length overflow'')
     else if length (buf r) < e then Inl (Corrupt ''cbor truncated'')
     else Inr (take n (drop (pos r) (buf r)), r\<lparr>pos := e\<rparr>))"

definition take_uint :: "Reader \<Rightarrow> u8 \<Rightarrow> error + (u64 \<times> Reader)" where
  "take_uint r ai =
    (if ai \<le> 23 then Inr (ucast ai, r)
     else if ai = 24 then
       and_then (rd_take r 1) (\<lambda>(b, r). let n = of_nat (be_val b) :: u64 in
         if n < 24 then Inl (Corrupt ''non-canonical uint'') else Inr (n, r))
     else if ai = 25 then
       and_then (rd_take r 2) (\<lambda>(b, r). let n = of_nat (be_val b) :: u64 in
         if n \<le> 0xff then Inl (Corrupt ''non-canonical uint'') else Inr (n, r))
     else if ai = 26 then
       and_then (rd_take r 4) (\<lambda>(b, r). let n = of_nat (be_val b) :: u64 in
         if n \<le> 0xffff then Inl (Corrupt ''non-canonical uint'') else Inr (n, r))
     else if ai = 27 then
       and_then (rd_take r 8) (\<lambda>(b, r). let n = of_nat (be_val b) :: u64 in
         if n \<le> 0xffffffff then Inl (Corrupt ''non-canonical uint'') else Inr (n, r))
     else if ai = 31 then Inl (Corrupt ''indefinite cbor is not canonical'')
     else Inl (Corrupt ''cbor additional info''))"

definition rd_header :: "Reader \<Rightarrow> error + ((u8 \<times> u8) \<times> Reader)" where
  "rd_header r = and_then (rd_take r 1) (\<lambda>(s, r).
    let b = s ! 0; major = drop_bit 5 b; ai = b AND 0x1f in
    if major = 6 then Inl (Corrupt ''cbor tags are not canonical here'')
    else Inr ((major, ai), r))"

definition bounded_len :: "Reader \<Rightarrow> u64 \<Rightarrow> error + nat" where
  "bounded_len r n =
    (if length (remaining r) < unat n then Inl (Corrupt ''length exceeds input'') else Inr (unat n))"

definition usize_max :: nat where
  "usize_max = 2 ^ 64 - 1"

definition rd_u64 :: "Reader \<Rightarrow> error + (u64 \<times> Reader)" where
  "rd_u64 r = and_then (rd_header r) (\<lambda>((major, ai), r).
    if major \<noteq> 0 then Inl (Corrupt ''expected uint'') else take_uint r ai)"

definition rd_bool :: "Reader \<Rightarrow> error + (bool \<times> Reader)" where
  "rd_bool r = and_then (rd_take r 1) (\<lambda>(s, r).
    if s ! 0 = 0xf4 then Inr (False, r)
    else if s ! 0 = 0xf5 then Inr (True, r)
    else Inl (Corrupt ''expected bool''))"

definition null_or :: "(Reader \<Rightarrow> error + ('a \<times> Reader)) \<Rightarrow> Reader \<Rightarrow> error + ('a option \<times> Reader)" where
  "null_or read r =
    (if pos r < length (buf r) \<and> buf r ! pos r = 0xf6 then Inr (None, r\<lparr>pos := pos r + 1\<rparr>)
     else and_then (read r) (\<lambda>(v, r). Inr (Some v, r)))"

definition rd_bytes :: "Reader \<Rightarrow> error + (bytes \<times> Reader)" where
  "rd_bytes r = and_then (rd_header r) (\<lambda>((major, ai), r).
    if major \<noteq> 2 then Inl (Corrupt ''expected bytes'')
    else and_then (take_uint r ai) (\<lambda>(raw, r).
      and_then (bounded_len r raw) (\<lambda>n. rd_take r n)))"

definition bstr32 :: "Reader \<Rightarrow> error + (oid \<times> Reader)" where
  "bstr32 r = and_then (rd_bytes r) (\<lambda>(b, r).
    if length b \<noteq> 32 then Inl (Corrupt ''expected 32-byte bstr'')
    else Inr (oid_of_bytes b, r))"

definition text_bounded :: "Reader \<Rightarrow> nat \<Rightarrow> error + (string \<times> Reader)" where
  "text_bounded r max_bytes = and_then (rd_header r) (\<lambda>((major, ai), r).
    if major \<noteq> 3 then Inl (Corrupt ''expected text'')
    else and_then (take_uint r ai) (\<lambda>(raw, r).
      and_then (bounded_len r raw) (\<lambda>n.
        if max_bytes < n then Inl (Corrupt ''exceeds byte limit'')
        else and_then (rd_take r n) (\<lambda>(s, r).
          if utf8 s then Inr (str_of_bytes s, r) else Inl (Corrupt ''utf8'')))))"

definition rd_text :: "Reader \<Rightarrow> error + (string \<times> Reader)" where
  "rd_text r = text_bounded r usize_max"

definition text_map_key_bounded ::
  "Reader \<Rightarrow> bytes option \<Rightarrow> nat \<Rightarrow> error + (string \<times> bytes option \<times> Reader)" where
  "text_map_key_bounded r lst max_bytes =
    (let start = pos r in
     and_then (text_bounded r max_bytes) (\<lambda>(k, r).
       let encoded = take (pos r - start) (drop start (buf r)) in
       if (case lst of Some prev \<Rightarrow> encoded \<le> prev | None \<Rightarrow> False)
       then Inl (Corrupt ''cbor map keys not strictly sorted'')
       else Inr (k, Some encoded, r)))"

definition text_map_key :: "Reader \<Rightarrow> bytes option \<Rightarrow> error + (string \<times> bytes option \<times> Reader)" where
  "text_map_key r lst = text_map_key_bounded r lst usize_max"

definition rd_array :: "Reader \<Rightarrow> error + (u64 \<times> Reader)" where
  "rd_array r = and_then (rd_header r) (\<lambda>((major, ai), r).
    if major \<noteq> 4 then Inl (Corrupt ''expected array'')
    else and_then (take_uint r ai) (\<lambda>(n, r).
      if length (remaining r) < unat n then Inl (Corrupt ''array count exceeds input'')
      else Inr (n, r)))"

definition rd_map :: "Reader \<Rightarrow> error + (u64 \<times> Reader)" where
  "rd_map r = and_then (rd_header r) (\<lambda>((major, ai), r).
    if major \<noteq> 5 then Inl (Corrupt ''expected map'')
    else and_then (take_uint r ai) (\<lambda>(n, r).
      if length (remaining r) div 2 < unat n then Inl (Corrupt ''map count exceeds input'')
      else Inr (n, r)))"

section \<open>Positions\<close>

text \<open>
  \<open>at_bytes r xs\<close>: the next bytes of \<open>r\<close> are \<open>xs\<close>. The buffer is shorter than \<open>2 ^ 64\<close> bytes, as
  every Rust slice is.
\<close>

definition adv :: "Reader \<Rightarrow> nat \<Rightarrow> Reader" where
  "adv r n = r\<lparr>pos := pos r + n\<rparr>"

definition rd_ok :: "Reader \<Rightarrow> bool" where
  "rd_ok r \<longleftrightarrow> length (buf r) < 2 ^ 64"

definition at_bytes :: "Reader \<Rightarrow> bytes \<Rightarrow> bool" where
  "at_bytes r xs \<longleftrightarrow> pos r + length xs \<le> length (buf r) \<and> take (length xs) (drop (pos r) (buf r)) = xs"

lemma adv_simps [simp]:
  "buf (adv r n) = buf r"
  "pos (adv r n) = pos r + n"
  "adv (adv r m) n = adv r (m + n)"
  "adv r 0 = r"
  "rd_ok (adv r n) = rd_ok r"
  by (simp_all add: adv_def rd_ok_def ac_simps)

lemma at_bytes_append [simp]:
  "at_bytes r (xs @ ys) \<longleftrightarrow> at_bytes r xs \<and> at_bytes (adv r (length xs)) ys"
proof -
  have "take (length xs + length ys) (drop (pos r) (buf r))
      = take (length xs) (drop (pos r) (buf r)) @ take (length ys) (drop (pos r + length xs) (buf r))"
    by (simp add: take_add add.commute)
  then show ?thesis
    by (auto simp: at_bytes_def adv_def)
qed

lemma at_bytes_Nil [simp]: "at_bytes r [] \<longleftrightarrow> pos r \<le> length (buf r)"
  by (simp add: at_bytes_def)

lemma at_bytes_Cons:
  "at_bytes r (x # xs) \<longleftrightarrow> at_bytes r [x] \<and> at_bytes (adv r 1) xs"
  using at_bytes_append [of r "[x]" xs] by simp

lemma at_bytes_pos: "at_bytes r xs \<Longrightarrow> pos r + length xs \<le> length (buf r)"
  by (simp add: at_bytes_def)

lemma at_bytes_new [simp]: "at_bytes (new_reader b) b"
  by (simp add: at_bytes_def new_reader_def)

lemma at_bytes_unique:
  "at_bytes r xs \<Longrightarrow> at_bytes r ys \<Longrightarrow> length xs = length ys \<Longrightarrow> xs = ys"
  by (auto simp: at_bytes_def)

lemma remaining_adv_at: "at_bytes r (xs @ ys) \<Longrightarrow> length ys \<le> length (remaining (adv r (length xs)))"
  by (auto simp: at_bytes_def remaining_def)

lemma rd_take_iff:
  assumes "rd_ok r"
  shows "rd_take r n = Inr (s, r') \<longleftrightarrow> at_bytes r s \<and> length s = n \<and> r' = adv r n"
  using assms by (auto simp: rd_take_def at_bytes_def rd_ok_def adv_def Let_def)

lemma rd_take_length: "rd_take r n = Inr (s, r') \<Longrightarrow> length s = n"
  by (auto simp: rd_take_def Let_def split: if_splits)

section \<open>Integers\<close>

lemma header_byte_split:
  "push_bit 5 (drop_bit 5 b) OR (b AND 0x1f) = (b :: u8)"
  "unat (drop_bit 5 b) < 8" "unat (b AND 0x1f) < 32"
proof -
  have "b AND 0x1f = take_bit 5 b"
    by (simp add: take_bit_eq_mask mask_eq_exp_minus_1)
  then show "push_bit 5 (drop_bit 5 b) OR (b AND 0x1f) = b"
    by (auto intro!: bit_word_eqI simp: bit_simps)
  show "unat (drop_bit 5 b) < 8"
    using unat_byte_less [of b] by (simp only: unat_drop_bit_eq) (simp add: drop_bit_eq_div)
  have "unat (b AND 0x1f) \<le> unat (0x1f :: u8)"
    by (rule word_and_le1 [THEN word_le_nat_alt [THEN iffD1]])
  then show "unat (b AND 0x1f) < 32" by simp
qed

lemma take_bit_small: "unat (w :: 'a::len word) < 2 ^ n \<Longrightarrow> take_bit n w = w"
  by (rule word_unat_eq_iff [THEN iffD2], subst unsigned_take_bit_eq) (simp add: take_bit_eq_mod)

lemma header_byte_join:
  fixes m a :: u8
  assumes "unat m < 8" and "unat a < 32"
  shows "drop_bit 5 (push_bit 5 m OR a) = m" and "(push_bit 5 m OR a) AND 0x1f = a"
proof -
  have m: "take_bit 3 m = m" and a: "take_bit 5 a = a"
    using assms by (simp_all add: take_bit_small)
  have am: "n < 5" if "bit a n" for n
    using that by (subst (asm) a [symmetric]) (simp add: bit_take_bit_iff)
  have mm: "n < 3" if "bit m n" for n
    using that by (subst (asm) m [symmetric]) (simp add: bit_take_bit_iff)
  have mask: "(0x1f :: u8) = mask 5" by (simp add: mask_eq_exp_minus_1)
  show "drop_bit 5 (push_bit 5 m OR a) = m"
    by (rule bit_word_eqI) (use am mm in \<open>force simp: bit_simps\<close>)
  show "(push_bit 5 m OR a) AND 0x1f = a"
    unfolding mask
    by (rule bit_word_eqI) (use am in \<open>force simp: bit_simps\<close>)
qed

lemma rd_header_iff:
  assumes "rd_ok r"
  shows "rd_header r = Inr ((m, ai), r') \<longleftrightarrow>
    at_bytes r [push_bit 5 m OR ai] \<and> unat m < 8 \<and> unat ai < 32 \<and> m \<noteq> 6 \<and> r' = adv r 1"
proof
  assume "rd_header r = Inr ((m, ai), r')"
  then obtain b where "at_bytes r [b]" "r' = adv r 1" "m = drop_bit 5 b" "ai = b AND 0x1f" "m \<noteq> 6"
    using assms
    by (auto simp: rd_header_def and_then_Inr_iff rd_take_iff Let_def length_Suc_conv split: if_splits)
  with header_byte_split [of b] show "at_bytes r [push_bit 5 m OR ai] \<and> unat m < 8 \<and> unat ai < 32 \<and> m \<noteq> 6 \<and> r' = adv r 1"
    by simp
next
  assume a: "at_bytes r [push_bit 5 m OR ai] \<and> unat m < 8 \<and> unat ai < 32 \<and> m \<noteq> 6 \<and> r' = adv r 1"
  then have "rd_take r 1 = Inr ([push_bit 5 m OR ai], adv r 1)"
    using assms by (simp add: rd_take_iff)
  with a header_byte_join [of m ai] show "rd_header r = Inr ((m, ai), r')"
    by (simp add: rd_header_def Let_def)
qed

definition uint_tail :: "u64 \<Rightarrow> bytes" where
  "uint_tail n =
    (if n < 24 then []
     else if n \<le> 0xff then be_bytes 1 n
     else if n \<le> 0xffff then be_bytes 2 n
     else if n \<le> 0xffffffff then be_bytes 4 n
     else be_bytes 8 n)"

lemma be_bytes_ucast:
  assumes "8 * k \<le> LENGTH('b)"
  shows "be_bytes k (ucast (n :: 'a::len word) :: 'b::len word) = be_bytes k n"
proof (rule be_val_inject)
  have "256 ^ k = (2 :: nat) ^ (8 * k)" by (simp add: power_mult)
  then have "(256 :: nat) ^ k dvd 2 ^ LENGTH('b)"
    using assms by (simp add: le_imp_power_dvd)
  then show "be_val (be_bytes k (ucast n :: 'b word)) = be_val (be_bytes k n)"
    by (simp add: be_val_be_bytes unsigned_ucast_eq take_bit_eq_mod mod_mod_cancel)
qed simp

lemma u8_len_small:
  assumes "n < 24"
  shows "unat (u8_len n) = unat n"
proof -
  have "unat n < 24" using assms by (simp add: word_less_nat_alt)
  then show ?thesis using assms by (simp add: u8_len_def unat_ucast_byte)
qed

lemma u8_len_less: "unat (u8_len n) < 32"
proof (cases "n < 24")
  case True
  then show ?thesis using u8_len_small [of n] by (simp add: word_less_nat_alt)
next
  case False
  then show ?thesis by (simp add: u8_len_def)
qed

lemma push_uint_eq: "push_uint major n = (push_bit 5 major OR u8_len n) # uint_tail n"
proof (cases "n < 24")
  case True
  then have "unat (u8_len n) < 24" using u8_len_small [of n] by (simp add: word_less_nat_alt)
  then have "u8_len n \<noteq> 24" "u8_len n \<noteq> 25" "u8_len n \<noteq> 26" "u8_len n \<noteq> 27" by auto
  with True show ?thesis by (simp add: push_uint_def uint_tail_def)
next
  case False
  have 2: "be_bytes 2 (ucast n :: 16 word) = be_bytes 2 n"
    and 4: "be_bytes 4 (ucast n :: 32 word) = be_bytes 4 n" by (rule be_bytes_ucast; simp)+
  have 1: "be_bytes (Suc 0) n = [ucast n]" by simp
  show ?thesis
    using False by (simp add: push_uint_def uint_tail_def u8_len_def Let_def 2 4 1)
qed

subsection \<open>Reading integers\<close>

lemma u8_len_cases:
  "u8_len n = 24 \<longleftrightarrow> 24 \<le> n \<and> n \<le> 0xff"
  "u8_len n = 25 \<longleftrightarrow> 0xff < n \<and> n \<le> 0xffff"
  "u8_len n = 26 \<longleftrightarrow> 0xffff < n \<and> n \<le> 0xffffffff"
  "u8_len n = 27 \<longleftrightarrow> 0xffffffff < n"
  "u8_len n \<le> 23 \<longleftrightarrow> n < 24"
proof -
  have s: "unat (u8_len n) < 24" if "n < 24"
    using that u8_len_small [of n] by (simp add: word_less_nat_alt)
  then have "n < 24 \<Longrightarrow> u8_len n \<noteq> 24 \<and> u8_len n \<noteq> 25 \<and> u8_len n \<noteq> 26 \<and> u8_len n \<noteq> 27 \<and> u8_len n \<le> 23"
    by (auto simp: word_le_nat_alt)
  then show "u8_len n = 24 \<longleftrightarrow> 24 \<le> n \<and> n \<le> 0xff" "u8_len n = 25 \<longleftrightarrow> 0xff < n \<and> n \<le> 0xffff"
    "u8_len n = 26 \<longleftrightarrow> 0xffff < n \<and> n \<le> 0xffffffff" "u8_len n = 27 \<longleftrightarrow> 0xffffffff < n"
    by (cases "n < 24"; force simp: u8_len_def word_less_nat_alt word_le_nat_alt)+
  show "u8_len n \<le> 23 \<longleftrightarrow> n < 24"
    using s by (cases "n < 24") (auto simp: word_le_nat_alt u8_len_def)
qed

lemma be_read_iff:
  fixes n :: u64
  assumes "k \<le> 8"
  shows "length b = k \<and> n = of_nat (be_val b) \<longleftrightarrow> b = be_bytes k n \<and> unat n < 256 ^ k"
proof
  assume a: "length b = k \<and> n = of_nat (be_val b)"
  have "(256 :: nat) ^ k \<le> 256 ^ 8" using assms by (intro power_increasing) auto
  with a be_val_less [of b] have "be_val b < 2 ^ LENGTH(64)" by simp
  with a have "unat n = be_val b" by (simp add: unat_of_nat take_bit_eq_mod)
  with a be_val_less [of b] be_bytes_inverse [of n b] show "b = be_bytes k n \<and> unat n < 256 ^ k" by simp
qed (simp add: be_val_be_bytes)

lemma take_be_iff:
  fixes n :: u64
  assumes "rd_ok r" and "k \<le> 8"
  shows "and_then (rd_take r k) (\<lambda>(b, r). let n = of_nat (be_val b) :: u64 in
      if n \<le> lo then Inl e else Inr (n, r)) = Inr (n, r')
    \<longleftrightarrow> lo < n \<and> unat n < 256 ^ k \<and> at_bytes r (be_bytes k n) \<and> r' = adv r k"
proof -
  have "and_then (rd_take r k) (\<lambda>(b, r). let n = of_nat (be_val b) :: u64 in
      if n \<le> lo then Inl e else Inr (n, r)) = Inr (n, r')
    \<longleftrightarrow> (\<exists>b. at_bytes r b \<and> (length b = k \<and> n = of_nat (be_val b)) \<and> lo < n \<and> r' = adv r k)"
    using assms(1) by (auto simp: and_then_Inr_iff rd_take_iff Let_def not_le split: if_splits)
  then show ?thesis unfolding be_read_iff [OF assms(2)] by auto
qed

lemma word_cases_24_27: "ai \<le> 23 \<or> ai = 24 \<or> ai = 25 \<or> ai = 26 \<or> ai = 27 \<or> (27 :: u8) < ai"
proof -
  have "unat ai \<le> 23 \<or> unat ai = 24 \<or> unat ai = 25 \<or> unat ai = 26 \<or> unat ai = 27 \<or> 27 < unat ai"
    by arith
  then show ?thesis
    by (auto simp: word_unat_eq_iff word_less_nat_alt word_le_nat_alt)
qed

lemma take_uint_iff:
  assumes "rd_ok r" and "pos r \<le> length (buf r)"
  shows "take_uint r ai = Inr (n, r') \<longleftrightarrow>
    ai = u8_len n \<and> at_bytes r (uint_tail n) \<and> r' = adv r (length (uint_tail n))"
proof -
  have lt: "n < 24 \<longleftrightarrow> n \<le> 23" for n :: u64
    by (auto simp: word_less_nat_alt word_le_nat_alt)
  consider "ai \<le> 23" | "ai = 24" | "ai = 25" | "ai = 26" | "ai = 27" | "27 < ai"
    using word_cases_24_27 by blast
  then show ?thesis
  proof cases
    case 1
    have "n = ucast ai \<longleftrightarrow> ai = u8_len n \<and> n < 24"
    proof
      assume n: "n = ucast ai"
      have ai: "unat ai \<le> 23" using 1 by (simp add: word_le_nat_alt)
      have "unat n = unat ai" using n ai by (simp add: unsigned_ucast_eq take_bit_eq_mod)
      moreover from this ai have "n < 24" by (simp add: word_less_nat_alt)
      ultimately show "ai = u8_len n \<and> n < 24"
        using u8_len_small [of n] by (simp add: word_unat_eq_iff)
    next
      assume n: "ai = u8_len n \<and> n < 24"
      then have "unat ai = unat n" using u8_len_small by simp
      with 1 show "n = ucast ai"
        by (simp add: word_unat_eq_iff unsigned_ucast_eq take_bit_eq_mod word_le_nat_alt)
    qed
    with 1 assms u8_len_cases(5) [of n] show ?thesis
      by (auto simp: take_uint_def uint_tail_def)
  next
    case 2
    have "take_uint r ai = Inr (n, r') \<longleftrightarrow> 23 < n \<and> unat n < 256 ^ 1 \<and> at_bytes r (be_bytes 1 n) \<and> r' = adv r 1"
      using take_be_iff [OF assms(1), of 1 23 "Corrupt ''non-canonical uint''" n r']
      unfolding 2 take_uint_def lt by simp
    with 2 u8_len_cases(1) [of n] show ?thesis
      by (auto simp: uint_tail_def word_less_nat_alt word_le_nat_alt)
  next
    case 3
    with take_be_iff [OF assms(1), of 2 "0xff" "Corrupt ''non-canonical uint''" n r'] u8_len_cases(2) [of n]
    show ?thesis by (auto simp: take_uint_def uint_tail_def word_less_nat_alt word_le_nat_alt)
  next
    case 4
    with take_be_iff [OF assms(1), of 4 "0xffff" "Corrupt ''non-canonical uint''" n r'] u8_len_cases(3) [of n]
    show ?thesis by (auto simp: take_uint_def uint_tail_def word_less_nat_alt word_le_nat_alt)
  next
    case 5
    have "unat n < 2 ^ LENGTH(64)" by (rule unsigned_less)
    with 5 take_be_iff [OF assms(1), of 8 "0xffffffff" "Corrupt ''non-canonical uint''" n r'] u8_len_cases(4) [of n]
    show ?thesis by (auto simp: take_uint_def uint_tail_def word_less_nat_alt word_le_nat_alt)
  next
    case 6
    then have "take_uint r ai \<noteq> Inr (n, r')" "ai \<noteq> u8_len n"
      using u8_len_small [of n]
      by (auto simp: take_uint_def u8_len_def word_less_nat_alt word_le_nat_alt split: if_splits)
    then show ?thesis by simp
  qed
qed

section \<open>Items\<close>

lemma uint_head_iff:
  assumes "rd_ok r" and "unat m < 8" and "m \<noteq> 6"
  shows "and_then (rd_header r) (\<lambda>((major, ai), r). if major \<noteq> m then Inl e else and_then (take_uint r ai) f) = Inr y
    \<longleftrightarrow> (\<exists>n. at_bytes r (push_uint m n) \<and> f (n, adv r (length (push_uint m n))) = Inr y)"
    (is "?L \<longleftrightarrow> ?R")
proof
  assume ?L
  then obtain ai n r1 where
    "at_bytes r [push_bit 5 m OR ai]" "take_uint (adv r 1) ai = Inr (n, r1)" "f (n, r1) = Inr y"
    using assms(1) by (auto simp: and_then_Inr_iff rd_header_iff split: if_splits)
  moreover from this(1) have "pos (adv r 1) \<le> length (buf (adv r 1))"
    by (auto dest: at_bytes_pos)
  ultimately show ?R
    using assms(1) by (intro exI [of _ n]) (auto simp: take_uint_iff push_uint_eq at_bytes_Cons [of r _ "uint_tail n"])
next
  assume ?R
  then obtain n where n: "at_bytes r [push_bit 5 m OR u8_len n]" "at_bytes (adv r 1) (uint_tail n)"
      "f (n, adv r (Suc (length (uint_tail n)))) = Inr y"
    by (auto simp: push_uint_eq at_bytes_Cons [of r _ "uint_tail n" for n])
  have "rd_header r = Inr ((m, u8_len n), adv r 1)"
    using n(1) assms u8_len_less [of n] by (simp add: rd_header_iff)
  moreover have "take_uint (adv r 1) (u8_len n) = Inr (n, adv r (Suc (length (uint_tail n))))"
    using n(1,2) assms(1) by (auto simp: take_uint_iff dest: at_bytes_pos)
  ultimately show ?L using n(3) by simp
qed

lemma push_uint_nonempty [simp]: "push_uint m n \<noteq> []"
  by (simp add: push_uint_eq)

lemma unat_of_nat_length:
  assumes "rd_ok r" and "at_bytes r (xs @ b)"
  shows "unat (of_nat (length b) :: u64) = length b"
proof -
  have "length b < 2 ^ LENGTH(64)"
    using assms by (auto simp: rd_ok_def dest: at_bytes_pos)
  then show ?thesis by (simp add: unat_of_nat take_bit_eq_mod)
qed

lemma rd_u64_iff [codec]:
  assumes "rd_ok r"
  shows "rd_u64 r = Inr (n, r') \<longleftrightarrow> at_bytes r (encode_u64 n) \<and> r' = adv r (length (encode_u64 n))"
proof -
  have "rd_u64 r = and_then (rd_header r) (\<lambda>((major, ai), r).
      if major \<noteq> 0 then Inl (Corrupt ''expected uint'') else and_then (take_uint r ai) Inr)"
    unfolding rd_u64_def
    by (intro and_then_cong refl) (auto simp: and_then_def split: sum.splits)
  then show ?thesis
    using uint_head_iff [OF assms, of 0 "Corrupt ''expected uint''" Inr "(n, r')"]
    by (auto simp: encode_u64_def)
qed

lemma rd_bool_iff [codec]:
  assumes "rd_ok r"
  shows "rd_bool r = Inr (v, r') \<longleftrightarrow> at_bytes r (encode_bool v) \<and> r' = adv r (length (encode_bool v))"
proof -
  have "rd_bool r = Inr (v, r') \<longleftrightarrow>
      (\<exists>s. at_bytes r s \<and> length s = 1 \<and> s ! 0 = (if v then 0xf5 else 0xf4) \<and> r' = adv r 1)"
    using assms by (cases v) (force simp: rd_bool_def and_then_Inr_iff rd_take_iff split: if_splits)+
  also have "\<dots> \<longleftrightarrow> (\<exists>s. at_bytes r s \<and> s = encode_bool v \<and> r' = adv r 1)"
    by (simp add: encode_bool_def length_Suc_conv) auto
  finally show ?thesis by (simp add: encode_bool_def)
qed

lemma payload_iff:
  assumes "rd_ok r"
  shows "(\<exists>n. at_bytes r (push_uint m n) \<and>
      and_then (bounded_len (adv r (length (push_uint m n))) n) (rd_take (adv r (length (push_uint m n)))) = Inr (b, r'))
    \<longleftrightarrow> at_bytes r (push_uint m (of_nat (length b)) @ b) \<and> r' = adv r (length (push_uint m (of_nat (length b)) @ b))"
    (is "?L \<longleftrightarrow> ?R")
proof
  assume ?L
  then obtain n where n: "at_bytes r (push_uint m n)" "at_bytes (adv r (length (push_uint m n))) b"
      "unat n = length b" "r' = adv r (length (push_uint m n) + length b)"
    using assms by (auto simp: and_then_Inr_iff bounded_len_def rd_take_iff split: if_splits)
  have "n = of_nat (length b)" using arg_cong [OF n(3), of "of_nat :: nat \<Rightarrow> u64"] by simp
  with n show ?R by simp
next
  assume R: ?R
  then have "unat (of_nat (length b) :: u64) = length b"
    using unat_of_nat_length assms by blast
  moreover have "length b \<le> length (remaining (adv r (length (push_uint m (of_nat (length b))))))"
    using R by (intro remaining_adv_at) simp
  ultimately show ?L
    using R assms by (intro exI [of _ "of_nat (length b)"]) (simp add: bounded_len_def rd_take_iff)
qed

lemma rd_bytes_iff [codec]:
  assumes "rd_ok r"
  shows "rd_bytes r = Inr (b, r') \<longleftrightarrow> at_bytes r (encode_bytes b) \<and> r' = adv r (length (encode_bytes b))"
  using uint_head_iff [OF assms, of 2 "Corrupt ''expected bytes''"
      "\<lambda>(raw, r). and_then (bounded_len r raw) (\<lambda>n. rd_take r n)" "(b, r')"]
    payload_iff [OF assms, of 2 b r']
  by (simp add: rd_bytes_def encode_bytes_def)

lemma bstr32_iff [codec]:
  assumes "rd_ok r"
  shows "bstr32 r = Inr (i, r') \<longleftrightarrow>
    at_bytes r (encode_bytes (oid_bytes i)) \<and> r' = adv r (length (encode_bytes (oid_bytes i)))"
  using assms
  by (auto simp: bstr32_def and_then_Inr_iff rd_bytes_iff oid_bytes_of_bytes split: if_splits
      intro!: exI [of _ "oid_bytes i"])

lemma text_bounded_iff [codec]:
  assumes "rd_ok r"
  shows "text_bounded r mx = Inr (s, r') \<longleftrightarrow>
    valid_str s \<and> length s \<le> mx \<and> at_bytes r (encode_text s) \<and> r' = adv r (length (encode_text s))"
proof -
  let ?f = "\<lambda>(raw, r). and_then (bounded_len r raw) (\<lambda>n. rd_take r n)"
  have "text_bounded r mx = Inr (s, r') \<longleftrightarrow>
      valid_str s \<and> length s \<le> mx \<and>
      and_then (rd_header r) (\<lambda>((major, ai), r). if major \<noteq> 3 then Inl (Corrupt ''expected text'')
        else and_then (take_uint r ai) ?f) = Inr (as_bytes s, r')"
    (is "_ \<longleftrightarrow> _ \<and> _ \<and> ?H = _")
  proof
    assume "text_bounded r mx = Inr (s, r')"
    then obtain ai r1 n r2 k b where c: "rd_header r = Inr ((3, ai), r1)" "take_uint r1 ai = Inr (n, r2)"
        "bounded_len r2 n = Inr k" "k \<le> mx" "rd_take r2 k = Inr (b, r')" "utf8 b" "s = str_of_bytes b"
      by (auto simp: text_bounded_def and_then_Inr_iff split: if_splits)
    from c(5) have "length b = k" by (rule rd_take_length)
    with c show "valid_str s \<and> length s \<le> mx \<and> ?H = Inr (as_bytes s, r')"
      by (simp add: valid_str_def)
  next
    assume a: "valid_str s \<and> length s \<le> mx \<and> ?H = Inr (as_bytes s, r')"
    then obtain ai r1 n r2 k where c: "rd_header r = Inr ((3, ai), r1)" "take_uint r1 ai = Inr (n, r2)"
        "bounded_len r2 n = Inr k" "rd_take r2 k = Inr (as_bytes s, r')"
      by (auto simp: and_then_Inr_iff split: if_splits)
    from c(4) have "k = length s"
      using rd_take_length by fastforce
    with c a show "text_bounded r mx = Inr (s, r')"
      by (simp add: text_bounded_def valid_str_def)
  qed
  then show ?thesis
    using uint_head_iff [OF assms, of 3 "Corrupt ''expected text''" ?f "(as_bytes s, r')"]
      payload_iff [OF assms, of 3 "as_bytes s" r']
    by (simp add: encode_text_def)
qed

lemma rd_text_iff [codec]:
  assumes "rd_ok r"
  shows "rd_text r = Inr (s, r') \<longleftrightarrow>
    valid_str s \<and> at_bytes r (encode_text s) \<and> r' = adv r (length (encode_text s))"
proof -
  have "length s \<le> usize_max" if "at_bytes r (encode_text s)"
    using that assms by (auto simp: rd_ok_def usize_max_def encode_text_def dest!: at_bytes_pos)
  then show ?thesis using assms by (auto simp: rd_text_def text_bounded_iff)
qed

lemma text_map_key_iff [codec]:
  assumes "rd_ok r"
  shows "text_map_key r lst = Inr (k, lst', r') \<longleftrightarrow>
    valid_str k \<and> at_bytes r (text_key k) \<and> r' = adv r (length (text_key k)) \<and>
    lst' = Some (text_key k) \<and> (\<forall>prev. lst = Some prev \<longrightarrow> prev < text_key k)"
proof -
  have "take (pos (adv r (length xs)) - pos r) (drop (pos r) (buf (adv r (length xs)))) = xs" if "at_bytes r xs" for xs
    using that by (simp add: at_bytes_def)
  then show ?thesis
    using assms
    by (auto simp: text_map_key_def text_map_key_bounded_def and_then_Inr_iff Let_def text_key_def
        rd_text_iff [unfolded rd_text_def] not_le split: option.splits if_splits)
qed

lemma rd_array_iff [codec]:
  assumes "rd_ok r"
  shows "rd_array r = Inr (n, r') \<longleftrightarrow> at_bytes r (encode_array_header n) \<and>
    r' = adv r (length (encode_array_header n)) \<and> unat n \<le> length (remaining r')"
  using uint_head_iff [OF assms, of 4 "Corrupt ''expected array''"
      "\<lambda>(n, r). if length (remaining r) < unat n then Inl (Corrupt ''array count exceeds input'') else Inr (n, r)" "(n, r')"]
  by (auto simp: rd_array_def encode_array_header_def not_less)

lemma rd_map_iff [codec]:
  assumes "rd_ok r"
  shows "rd_map r = Inr (n, r') \<longleftrightarrow> at_bytes r (encode_map_header n) \<and>
    r' = adv r (length (encode_map_header n)) \<and> unat n \<le> length (remaining r') div 2"
  using uint_head_iff [OF assms, of 5 "Corrupt ''expected map''"
      "\<lambda>(n, r). if length (remaining r) div 2 < unat n then Inl (Corrupt ''map count exceeds input'') else Inr (n, r)" "(n, r')"]
  by (auto simp: rd_map_def encode_map_header_def not_less)

lemma encode_nonempty [simp]:
  "encode_u64 n \<noteq> []" "encode_bool v \<noteq> []" "encode_bytes b \<noteq> []" "encode_text s \<noteq> []" "text_key s \<noteq> []"
  "encode_array_header n \<noteq> []" "encode_map_header n \<noteq> []" "encode_null \<noteq> []"
  by (simp_all add: encode_u64_def encode_bool_def encode_bytes_def encode_text_def text_key_def
      encode_array_header_def encode_map_header_def encode_null_def)

section \<open>Loops of the readers\<close>

text \<open>
  \<open>read_n\<close> is the loop \<open>for _ in 0..m { v.push(read(r)?) }\<close>; \<open>map_fields\<close> is the loop
  \<open>for _ in 0..n { let k = r.text_map_key(&mut last)?; match k ... }\<close> with its \<open>match\<close> as
  the argument \<open>field\<close>, which updates the decoder's local variables (the state \<open>'s\<close>).
\<close>

fun read_n :: "(Reader \<Rightarrow> error + ('a \<times> Reader)) \<Rightarrow> nat \<Rightarrow> Reader \<Rightarrow> error + ('a list \<times> Reader)" where
  "read_n rd 0 r = Inr ([], r)"
| "read_n rd (Suc n) r =
    and_then (rd r) (\<lambda>(x, r). and_then (read_n rd n r) (\<lambda>(xs, r). Inr (x # xs, r)))"

definition read_array :: "nat \<Rightarrow> error \<Rightarrow> (Reader \<Rightarrow> error + ('a \<times> Reader)) \<Rightarrow> Reader \<Rightarrow> error + ('a list \<times> Reader)" where
  "read_array limit e rd r = and_then (rd_array r) (\<lambda>(m, r).
    if limit < unat m then Inl e else read_n rd (unat m) r)"

fun map_fields ::
  "(string \<Rightarrow> Reader \<Rightarrow> 's \<Rightarrow> error + ('s \<times> Reader)) \<Rightarrow> nat \<Rightarrow> Reader \<Rightarrow> bytes option \<Rightarrow> 's \<Rightarrow> error + ('s \<times> Reader)" where
  "map_fields field 0 r lst s = Inr (s, r)"
| "map_fields field (Suc n) r lst s =
    and_then (text_map_key r lst) (\<lambda>(k, lst, r).
      and_then (field k r s) (\<lambda>(s, r). map_fields field n r lst s))"

definition read_map :: "(string \<Rightarrow> Reader \<Rightarrow> 's \<Rightarrow> error + ('s \<times> Reader)) \<Rightarrow> 's \<Rightarrow> Reader \<Rightarrow> error + ('s \<times> Reader)" where
  "read_map field s r = and_then (rd_map r) (\<lambda>(n, r). map_fields field (unat n) r None s)"

definition encode_array :: "('a \<Rightarrow> bytes) \<Rightarrow> 'a list \<Rightarrow> bytes" where
  "encode_array enc xs = encode_array_header (of_nat (length xs)) @ concat (map enc xs)"

section \<open>Canonical item codecs\<close>

text \<open>
  The contract of one item: its reader succeeds exactly on the canonical encodings of valid
  values. The contract is closed under arrays and under \<open>null_or\<close>.
\<close>

locale item_codec =
  fixes enc :: "'a \<Rightarrow> bytes" and rd :: "Reader \<Rightarrow> error + ('a \<times> Reader)" and valid :: "'a \<Rightarrow> bool"
  assumes rd_iff: "rd_ok r \<Longrightarrow> rd r = Inr (v, r') \<longleftrightarrow> valid v \<and> at_bytes r (enc v) \<and> r' = adv r (length (enc v))"
    and enc_nonempty: "enc v \<noteq> []"
begin

lemma enc_unique:
  assumes "rd_ok r" "valid v" "valid w" "at_bytes r (enc v)" "at_bytes r (enc w)"
  shows "v = w"
proof -
  have "rd r = Inr (v, adv r (length (enc v)))" "rd r = Inr (w, adv r (length (enc w)))"
    using assms by (simp_all add: rd_iff)
  then show ?thesis by simp
qed

lemma enc_inj:
  assumes "valid v" "valid w" "enc v = enc w" "length (enc v) < 2 ^ 64"
  shows "v = w"
  using assms enc_unique [of "new_reader (enc v)" v w] at_bytes_new [of "enc v"]
  by (simp add: rd_ok_def new_reader_def)

lemma read_n_iff:
  assumes "rd_ok r" and "pos r \<le> length (buf r)"
  shows "read_n rd n r = Inr (vs, r') \<longleftrightarrow>
    length vs = n \<and> list_all valid vs \<and> at_bytes r (concat (map enc vs)) \<and> r' = adv r (length (concat (map enc vs)))"
  using assms
proof (induction n arbitrary: r vs)
  case 0
  then show ?case by auto
next
  case (Suc n)
  show ?case
  proof (cases vs)
    case Nil
    then show ?thesis by (auto simp: and_then_Inr_iff)
  next
    case (Cons v ws)
    have "read_n rd (Suc n) r = Inr (vs, r') \<longleftrightarrow>
        valid v \<and> at_bytes r (enc v) \<and> read_n rd n (adv r (length (enc v))) = Inr (ws, r')"
      using Suc.prems by (auto simp: and_then_Inr_iff rd_iff Cons)
    also have "\<dots> \<longleftrightarrow> valid v \<and> at_bytes r (enc v) \<and> (length ws = n \<and> list_all valid ws \<and>
        at_bytes (adv r (length (enc v))) (concat (map enc ws)) \<and> r' = adv r (length (enc v) + length (concat (map enc ws))))"
      using Suc.IH [of "adv r (length (enc v))" ws] Suc.prems by (auto dest: at_bytes_pos)
    finally show ?thesis by (auto simp: Cons)
  qed
qed

lemma length_concat_enc: "length vs \<le> length (concat (map enc vs))"
proof (induction vs)
  case (Cons v vs)
  then show ?case using enc_nonempty [of v] by (cases "enc v") auto
qed simp

lemma read_array_iff:
  assumes "rd_ok r"
  shows "read_array limit e rd r = Inr (vs, r') \<longleftrightarrow>
    (length vs \<le> limit \<and> list_all valid vs) \<and> at_bytes r (encode_array enc vs) \<and> r' = adv r (length (encode_array enc vs))"
    (is "?L \<longleftrightarrow> ?R")
proof
  assume ?L
  then obtain m where m: "at_bytes r (encode_array_header m)" "unat m \<le> limit"
      "read_n rd (unat m) (adv r (length (encode_array_header m))) = Inr (vs, r')"
    using assms by (auto simp: read_array_def and_then_Inr_iff rd_array_iff split: if_splits)
  let ?r = "adv r (length (encode_array_header m))"
  have l: "length vs = unat m" "list_all valid vs" "at_bytes ?r (concat (map enc vs))"
      "r' = adv ?r (length (concat (map enc vs)))"
    using m(3) at_bytes_pos [OF m(1)] assms by (simp_all add: read_n_iff)
  have h: "encode_array_header m = encode_array_header (of_nat (length vs))" and "length vs \<le> limit"
    using l(1) m(2) by simp_all
  then show ?R
    using m(1) l(2-4) unfolding h encode_array_def by simp
next
  assume R: ?R
  let ?h = "encode_array_header (of_nat (length vs))"
  have at: "at_bytes r (?h @ concat (map enc vs))" using R by (simp add: encode_array_def)
  then have "length (concat (map enc vs)) < 2 ^ 64"
    using assms by (auto simp: rd_ok_def dest!: at_bytes_pos)
  then have u: "unat (of_nat (length vs) :: u64) = length vs"
    using length_concat_enc [of vs] by (simp add: unat_of_nat take_bit_eq_mod)
  have "length vs \<le> length (remaining (adv r (length ?h)))"
    using remaining_adv_at [OF at] length_concat_enc [of vs] by simp
  then have "rd_array r = Inr (of_nat (length vs), adv r (length ?h))"
    using at assms u by (simp add: rd_array_iff)
  moreover have "read_n rd (length vs) (adv r (length ?h)) = Inr (vs, r')"
    using R at assms by (subst read_n_iff) (auto simp: encode_array_def dest: at_bytes_pos)
  ultimately show ?L using R u by (simp add: read_array_def)
qed

lemma null_or_iff:
  assumes "rd_ok r" and "\<And>v. hd (enc v) \<noteq> 0xf6"
  shows "null_or rd r = Inr (x, r') \<longleftrightarrow>
    pred_option valid x \<and> at_bytes r (case_option encode_null enc x) \<and> r' = adv r (length (case_option encode_null enc x))"
proof -
  have at1: "at_bytes r [b] \<longleftrightarrow> pos r < length (buf r) \<and> buf r ! pos r = b" for b
    by (auto simp: at_bytes_def take_Suc_conv_app_nth Suc_le_eq hd_drop_conv_nth take_Suc)
  have "buf r ! pos r \<noteq> 0xf6" if "at_bytes r (enc v)" for v
  proof -
    obtain c cs where "enc v = c # cs" using enc_nonempty [of v] by (cases "enc v") auto
    with that assms(2) [of v] show ?thesis
      using at1 [of c] at_bytes_Cons [of r c cs] by auto
  qed
  then show ?thesis
    using assms(1)
    by (cases x) (auto simp: null_or_def encode_null_def at1 and_then_Inr_iff rd_iff adv_def)
qed

end

end
