(* ===== verification/Codec.thy ===== *)
theory Codec
  imports Cbor
begin

text \<open>
  Interfaces of the object codecs. Every object header is one CBOR map read by a loop over its
  keys; \<open>record_codec\<close> states what the loop body of a decoder promises about one key and derives,
  once for all objects, that the loop accepts exactly the canonical encoding (the encoder's
  \<open>encode_map_sorted\<close>) of the fields it collected. A record codec is an item codec, so records nest
  in arrays and in other records.
\<close>

section \<open>Interpretations of the item contract on the readers\<close>

interpretation u64_item: item_codec encode_u64 rd_u64 "\<lambda>_. True"
  by unfold_locales (simp_all add: codec)

interpretation bool_item: item_codec encode_bool rd_bool "\<lambda>_. True"
  by unfold_locales (simp_all add: codec)

interpretation bytes_item: item_codec encode_bytes rd_bytes "\<lambda>_. True"
  by unfold_locales (simp_all add: codec)

interpretation text_item: item_codec encode_text rd_text valid_str
  by unfold_locales (simp_all add: codec)

definition encode_oid :: "oid \<Rightarrow> bytes" where
  "encode_oid i = encode_bytes (oid_bytes i)"

lemma encode_nonempty' [simp]:
  "encode_oid i \<noteq> []" "encode_array enc xs \<noteq> []"
  by (simp_all add: encode_oid_def encode_array_def)

interpretation oid_item: item_codec encode_oid bstr32 "\<lambda>_. True"
  by unfold_locales (simp_all add: codec encode_oid_def)

definition short :: "bytes \<Rightarrow> bool" where
  "short v \<longleftrightarrow> length v < 2 ^ 64"

context item_codec
begin

lemma opt_inj:
  assumes "map_option enc x = map_option enc y" "pred_option valid x" "pred_option valid y"
    and "pred_option short (map_option enc x)"
  shows "x = y"
  using assms enc_inj by (cases x; cases y) (auto simp: short_def)

end

section \<open>Records as maps with text keys\<close>

definition present :: "('k \<times> 'v option) list \<Rightarrow> ('k \<times> 'v) list" where
  "present fs = concat (map (\<lambda>(k, x). case x of None \<Rightarrow> [] | Some v \<Rightarrow> [(k, v)]) fs)"

lemma present_simps [simp]:
  "present [] = []"
  "present ((k, None) # fs) = present fs"
  "present ((k, Some v) # fs) = (k, v) # present fs"
  by (simp_all add: present_def)

lemma fst_present: "fst ` set (present fs) \<subseteq> fst ` set fs"
  by (auto simp: present_def split: option.splits) (force simp: image_iff)+

lemma distinct_present: "distinct (map fst fs) \<Longrightarrow> distinct (map fst (present fs))"
proof (induction fs)
  case (Cons f fs)
  obtain k x where f: "f = (k, x)" by (cases f)
  have "k \<notin> fst ` set (present fs)"
    using Cons.prems fst_present [of fs] by (auto simp: f)
  with Cons show ?case by (cases x) (auto simp: f)
qed simp

lemma map_of_present:
  "distinct (map fst fs) \<Longrightarrow> map_of (present fs) k = Option.bind (map_of fs k) (\<lambda>x. x)"
proof (induction fs)
  case (Cons f fs)
  obtain k' x where f: "f = (k', x)" by (cases f)
  have "k' \<notin> fst ` set (present fs)"
    using Cons.prems fst_present [of fs] by (auto simp: f)
  then have "map_of (present fs) k' = None" by (simp add: map_of_eq_None_iff)
  with Cons show ?case by (cases x) (auto simp: f)
qed simp

definition encode_record :: "(string \<times> bytes option) list \<Rightarrow> bytes" where
  "encode_record fs = encode_map_sorted (map (\<lambda>(k, v). (text_key k, v)) (present fs))"

definition key_val :: "string \<times> bytes \<Rightarrow> bytes" where
  "key_val p = text_key (fst p) @ snd p"

abbreviation key_of :: "string \<times> bytes \<Rightarrow> bytes" where
  "key_of p \<equiv> text_key (fst p)"

lemma encode_record_nonempty [simp]: "encode_record fs \<noteq> []"
  by (simp add: encode_record_def encode_map_sorted_def Let_def)

lemma key_val_pair [simp]: "key_val (k, v) = text_key k @ v"
  by (simp add: key_val_def)

lemma text_key_inject:
  assumes "valid_str a" "valid_str b" "length (text_key a) < 2 ^ 64"
  shows "text_key a = text_key b \<longleftrightarrow> a = b"
  using text_item.enc_inj [of a b] assms by (auto simp: text_key_def)

lemma sort_key_map: "sort_key f (map g xs) = map g (sort_key (\<lambda>x. f (g x)) xs)"
proof -
  have "insort_key f (g x) (map g xs) = map g (insort_key (\<lambda>x. f (g x)) x xs)" for x xs
    by (induction xs) auto
  then show ?thesis by (induction xs) auto
qed

lemma encode_record_sorted:
  "encode_record fs =
    (let kvs = sort_key key_of (present fs)
     in encode_map_header (of_nat (length kvs)) @ concat (map key_val kvs))"
  by (simp add: encode_record_def encode_map_sorted_def Let_def sort_key_map comp_def
      case_prod_unfold key_val_def [abs_def])

text \<open>Bounds on encoded sizes; every header integer takes at most nine bytes.\<close>

lemma length_push_uint: "length (push_uint m n) \<le> 9"
  by (simp add: push_uint_eq uint_tail_def)

lemma length_encode_item:
  "length (encode_bytes b) \<le> 9 + length b" "length (encode_text t) \<le> 9 + length t"
  "length (text_key t) \<le> 9 + length t" "length (encode_u64 n) \<le> 9" "length (encode_bool v) = 1"
  "length (encode_oid i) \<le> 41" "length (encode_array_header n) \<le> 9" "length (encode_map_header n) \<le> 9"
  using length_push_uint [of 2 "of_nat (length b)"] length_push_uint [of 3 "of_nat (length t)"]
    length_push_uint [of 0 n] length_push_uint [of 2 32] length_push_uint [of 4 n] length_push_uint [of 5 n]
  by (simp_all add: encode_bytes_def encode_text_def text_key_def encode_u64_def encode_bool_def encode_oid_def
      encode_array_header_def encode_map_header_def)

lemma sum_list_sort_key: "sum_list (map g (sort_key f xs)) = sum_list (map g xs)" for g :: "'a \<Rightarrow> nat"
proof -
  have "sum_list (map g (insort_key f x xs)) = g x + sum_list (map g xs)" for x xs
    by (induction xs) auto
  then show ?thesis by (induction xs) simp_all
qed

lemma length_encode_map_sorted:
  "length (encode_map_sorted ps) \<le> 9 + sum_list (map (\<lambda>(k, v). length k + length v) ps)"
  using length_encode_item(8) [of "of_nat (length ps)"]
  by (simp add: encode_map_sorted_def Let_def length_concat comp_def case_prod_unfold sum_list_sort_key)

text \<open>Strictly sorted key-value lists with the same map are equal.\<close>

lemma sorted_kvs_unique:
  fixes kvs kvs' :: "(string \<times> bytes) list"
  assumes "sorted_wrt (<) (map key_of kvs)" "sorted_wrt (<) (map key_of kvs')" "map_of kvs = map_of kvs'"
  shows "kvs = kvs'"
proof -
  have d: "distinct (map fst xs)" "distinct (map key_of xs)" if "sorted_wrt (<) (map key_of xs)" for xs :: "(string \<times> bytes) list"
    using that by (auto simp: strict_sorted_iff distinct_map inj_on_def)
  have set: "set kvs = set kvs'"
    using map_of_inject_set d assms by (metis)
  then have "map key_of kvs = map key_of kvs'"
    using assms(1,2) by (intro strict_sorted_equal) auto
  then show ?thesis
    using d(2) [OF assms(1)] set inj_on_map_eq_map [of key_of kvs kvs'] by (auto simp: distinct_map)
qed

locale record_codec =
  fixes field :: "string \<Rightarrow> Reader \<Rightarrow> 's \<Rightarrow> error + ('s \<times> Reader)"
    and init :: 's
    and fields :: "'s \<Rightarrow> (string \<times> bytes option) list"
    and keys :: "string list"
    and valid :: "'s \<Rightarrow> bool"
  assumes init_valid: "valid init"
    and init_fields: "map snd (fields init) = replicate (length keys) None"
    and keys_fields: "map fst (fields s) = keys"
    and fields_nonempty: "(k, Some v) \<in> set (fields s) \<Longrightarrow> v \<noteq> []"
    and keys_distinct: "distinct keys"
    and keys_str: "k \<in> set keys \<Longrightarrow> valid_str k"
    and field_sound: "\<lbrakk>rd_ok r; valid s; field k r s = Inr (s', r')\<rbrakk> \<Longrightarrow>
      \<exists>v. at_bytes r v \<and> v \<noteq> [] \<and> r' = adv r (length v) \<and> valid s' \<and>
        (\<forall>j. map_of (fields s') j = (if j = k then Some (Some v) else map_of (fields s) j))"
    and field_complete: "\<lbrakk>rd_ok r; valid t; map_of (fields t) k = Some (Some v); at_bytes r v\<rbrakk> \<Longrightarrow>
      \<exists>s'. field k r s = Inr (s', adv r (length v))"
    and fields_inj: "\<lbrakk>valid s; valid t; fields s = fields t; list_all (pred_option short \<circ> snd) (fields s)\<rbrakk> \<Longrightarrow> s = t"
begin

abbreviation enc :: "'s \<Rightarrow> bytes" where
  "enc s \<equiv> encode_record (fields s)"

abbreviation pmap :: "'s \<Rightarrow> string \<Rightarrow> bytes option" where
  "pmap s \<equiv> map_of (present (fields s))"

lemma pmap_eq: "pmap s k = Option.bind (map_of (fields s) k) (\<lambda>x. x)"
  by (simp add: map_of_present keys_fields keys_distinct)

lemma dom_fields: "dom (map_of (fields s)) = set keys"
  by (metis dom_map_of_conv_image_fst image_set keys_fields)

lemma fields_eq_pmap: "pmap s = pmap t \<Longrightarrow> fields s = fields t"
proof -
  assume eq: "pmap s = pmap t"
  have some: "\<exists>x. map_of (fields s) k = Some x" if "k \<in> set keys" for k s
    using that dom_fields by blast
  have "map_of (fields s) = map_of (fields t)"
  proof
    fix k
    show "map_of (fields s) k = map_of (fields t) k"
    proof (cases "k \<in> set keys")
      case True
      with some [of k s] some [of k t] fun_cong [OF eq, of k] show ?thesis by (auto simp: pmap_eq)
    next
      case False
      then show ?thesis using dom_fields [of s] dom_fields [of t] by (metis domIff)
    qed
  qed
  moreover have "map fst (fields s) = map fst (fields t)" by (simp add: keys_fields)
  ultimately show ?thesis
    using keys_distinct keys_fields by (intro alist_eqI) auto
qed

lemma pmap_init: "pmap init = Map.empty"
proof
  fix k
  have "snd p = None" if "p \<in> set (fields init)" for p
    using that init_fields by (metis in_set_replicate image_eqI set_map)
  then have "map_of (fields init) k = None \<or> map_of (fields init) k = Some None"
    by (metis map_of_SomeD not_None_eq option.collapse snd_conv)
  then show "pmap init k = None" by (auto simp: pmap_eq)
qed

lemma loop_sound:
  assumes "rd_ok r" "pos r \<le> length (buf r)" "valid s" "map_fields field n r lst s = Inr (s', r')"
  shows "\<exists>kvs. length kvs = n \<and> sorted_wrt (<) (map key_of kvs) \<and>
    (\<forall>p. lst = Some p \<longrightarrow> (\<forall>q \<in> set kvs. p < key_of q)) \<and> (\<forall>q \<in> set kvs. snd q \<noteq> []) \<and>
    at_bytes r (concat (map key_val kvs)) \<and> r' = adv r (length (concat (map key_val kvs))) \<and>
    valid s' \<and> pmap s' = pmap s ++ map_of kvs"
  using assms
proof (induction n arbitrary: r lst s)
  case 0
  then show ?case by auto
next
  case (Suc n)
  from Suc.prems(4,1) obtain k s1 r1 where k: "valid_str k" "at_bytes r (text_key k)"
      "\<forall>p. lst = Some p \<longrightarrow> p < text_key k" "field k (adv r (length (text_key k))) s = Inr (s1, r1)"
      "map_fields field n r1 (Some (text_key k)) s1 = Inr (s', r')"
    by (auto simp: and_then_Inr_iff text_map_key_iff)
  from field_sound [OF _ Suc.prems(3) k(4)] Suc.prems(1) obtain v where
    v: "v \<noteq> []" "at_bytes (adv r (length (text_key k))) v" "r1 = adv r (length (text_key k) + length v)"
      "valid s1" "\<forall>j. map_of (fields s1) j = (if j = k then Some (Some v) else map_of (fields s) j)"
    by auto
  have "pos r1 \<le> length (buf r1)" using at_bytes_pos [OF v(2)] v(3) by simp
  with Suc.IH [OF _ _ v(4) k(5)] Suc.prems(1) v(3) obtain kvs where
    kvs: "length kvs = n" "sorted_wrt (<) (map key_of kvs)" "\<forall>q \<in> set kvs. text_key k < key_of q"
      "\<forall>q \<in> set kvs. snd q \<noteq> []"
      "at_bytes r1 (concat (map key_val kvs))" "r' = adv r1 (length (concat (map key_val kvs)))"
      "valid s'" "pmap s' = pmap s1 ++ map_of kvs"
    by auto
  have p1: "pmap s1 = (pmap s)(k \<mapsto> v)" by (rule ext) (simp add: pmap_eq v(5))
  have "map_of kvs k = None"
    using kvs(3) by (auto simp: map_of_eq_None_iff)
  then have "pmap s1 ++ map_of kvs = pmap s ++ map_of ((k, v) # kvs)"
    unfolding p1 by (auto simp: fun_eq_iff map_add_def split: option.splits)
  with kvs(8) have e: "pmap s' = pmap s ++ map_of ((k, v) # kvs)" by simp
  have o: "sorted_wrt (<) (map key_of ((k, v) # kvs))"
      "\<forall>p. lst = Some p \<longrightarrow> (\<forall>q \<in> set ((k, v) # kvs). p < key_of q)"
    using kvs(2,3) k(3) by (auto intro: order.strict_trans)
  have a: "at_bytes r (concat (map key_val ((k, v) # kvs)))"
      "r' = adv r (length (concat (map key_val ((k, v) # kvs))))"
    using kvs(5,6) v(2,3) k(2) by auto
  show ?case
    by (rule exI [of _ "(k, v) # kvs"], intro conjI)
       (fact e o a | use kvs(1,4,7) v(1) in simp)+
qed

lemma field_step:
  assumes "rd_ok r" "valid t" "valid s" "map_of (fields t) k = Some (Some v)" "at_bytes r v"
  shows "\<exists>s'. field k r s = Inr (s', adv r (length v)) \<and> valid s' \<and> pmap s' = (pmap s)(k \<mapsto> v)"
proof -
  obtain s' where s': "field k r s = Inr (s', adv r (length v))"
    using field_complete [OF assms(1,2,4,5)] by blast
  from field_sound [OF assms(1,3) this] obtain w where
    w: "at_bytes r w" "adv r (length v) = adv r (length w)" "valid s'"
      "\<forall>j. map_of (fields s') j = (if j = k then Some (Some w) else map_of (fields s) j)" by blast
  have "length w = length v" using arg_cong [OF w(2), of pos] by simp
  then have "w = v" using at_bytes_unique w(1) assms(5) by blast
  then have "pmap s' = (pmap s)(k \<mapsto> v)" by (auto simp: pmap_eq w(4))
  with s' w(3) show ?thesis by blast
qed

lemma loop_complete:
  assumes "rd_ok r" "valid t" "valid s" "map_of kvs \<subseteq>\<^sub>m pmap t"
    and "sorted_wrt (<) (map key_of kvs)" "\<forall>p. lst = Some p \<longrightarrow> (\<forall>q \<in> set kvs. p < key_of q)"
    and "at_bytes r (concat (map key_val kvs))"
  shows "\<exists>s'. map_fields field (length kvs) r lst s = Inr (s', adv r (length (concat (map key_val kvs)))) \<and>
    valid s' \<and> pmap s' = pmap s ++ map_of kvs"
  using assms
proof (induction kvs arbitrary: r lst s)
  case Nil
  then show ?case by simp
next
  case (Cons kv kvs)
  obtain k v where kv: "kv = (k, v)" by (cases kv)
  let ?n = "length (text_key k) + length v"
  have at: "at_bytes r (text_key k)" "at_bytes (adv r (length (text_key k))) v"
      "at_bytes (adv r ?n) (concat (map key_val kvs))"
    using Cons.prems(7) by (auto simp: kv)
  have "pmap t k = map_of (kv # kvs) k"
    using Cons.prems(4) unfolding map_le_def by (metis domI kv map_of_Cons_code(2))
  then have pk: "map_of (fields t) k = Some (Some v)"
    by (simp add: kv pmap_eq bind_eq_Some_conv)
  then have "valid_str k" using dom_fields keys_str by blast
  then have key: "text_map_key r lst = Inr (k, Some (text_key k), adv r (length (text_key k)))"
    using Cons.prems(1,6) at(1) by (auto simp: text_map_key_iff kv)
  obtain s1 where s1: "field k (adv r (length (text_key k))) s = Inr (s1, adv r ?n)" "valid s1"
      "pmap s1 = (pmap s)(k \<mapsto> v)"
    using field_step [OF _ Cons.prems(2,3) pk at(2)] Cons.prems(1) by auto
  have nk: "map_of kvs k = None"
    using Cons.prems(5) by (auto simp: map_of_eq_None_iff kv)
  then have "map_of kvs \<subseteq>\<^sub>m map_of (kv # kvs)" by (auto simp: map_le_def kv)
  then have le: "map_of kvs \<subseteq>\<^sub>m pmap t" using Cons.prems(4) by (rule map_le_trans)
  have o: "sorted_wrt (<) (map key_of kvs)" "\<forall>p. Some (text_key k) = Some p \<longrightarrow> (\<forall>q \<in> set kvs. p < key_of q)"
    using Cons.prems(5) by (auto simp: kv)
  obtain s' where s': "map_fields field (length kvs) (adv r ?n) (Some (text_key k)) s1
      = Inr (s', adv r (?n + length (concat (map key_val kvs))))" "valid s'" "pmap s' = pmap s1 ++ map_of kvs"
    using Cons.IH [OF _ Cons.prems(2) s1(2) le o at(3)] Cons.prems(1) by auto
  have "pmap s1 ++ map_of kvs = pmap s ++ map_of (kv # kvs)"
    using nk by (auto simp: s1(3) kv fun_eq_iff map_add_def split: option.splits)
  with s'(3) have e: "pmap s' = pmap s ++ map_of (kv # kvs)" by simp
  have l: "map_fields field (length (kv # kvs)) r lst s = Inr (s', adv r (length (concat (map key_val (kv # kvs)))))"
    using key s1(1) s'(1) by (simp add: kv)
  show ?case by (intro exI [of _ s'] conjI l e s'(2))
qed

lemma present_key:
  assumes "(k, v) \<in> set (present (fields s))"
  shows "valid_str k"
proof -
  have "k \<in> fst ` set (fields s)" using assms fst_present [of "fields s"] by force
  then show ?thesis using keys_str keys_fields [of s] by (metis image_set)
qed

lemma sort_present:
  assumes "rd_ok r" "at_bytes r (concat (map key_val kvs))" "set kvs = set (present (fields s))"
  shows "sorted_wrt (<) (map key_of (sort_key key_of (present (fields s))))"
    and "map_of (sort_key key_of (present (fields s))) = pmap s"
proof -
  have d: "distinct (map fst (present (fields s)))"
    by (simp add: distinct_present keys_fields keys_distinct)
  have len: "length (text_key k) < 2 ^ 64" if "(k, v) \<in> set (present (fields s))" for k v
  proof -
    have "key_val (k, v) \<in> set (map key_val kvs)" using that assms(3) by force
    then have "length (key_val (k, v)) \<le> length (concat (map key_val kvs))"
      by (metis concat.simps(2) concat_append length_append split_list trans_le_add1 trans_le_add2 le_refl)
    then show ?thesis using assms(1,2) by (auto simp: rd_ok_def dest!: at_bytes_pos)
  qed
  have "inj_on key_of (set (present (fields s)))"
  proof (rule inj_onI)
    fix p q assume pq: "p \<in> set (present (fields s))" "q \<in> set (present (fields s))" "key_of p = key_of q"
    then have "fst p = fst q"
      using len text_key_inject present_key by (metis prod.collapse)
    with pq d show "p = q" by (metis eq_key_imp_eq_value prod.collapse)
  qed
  moreover have "distinct (present (fields s))" using d distinct_map by blast
  ultimately have "distinct (map key_of (sort_key key_of (present (fields s))))"
    by (simp add: distinct_map)
  then show "sorted_wrt (<) (map key_of (sort_key key_of (present (fields s))))"
    by (simp add: strict_sorted_iff)
  have "distinct (map fst (sort_key key_of (present (fields s))))"
    using d by (simp add: distinct_map)
  then show "map_of (sort_key key_of (present (fields s))) = pmap s"
    using d by (metis map_of_inject_set set_sort)
qed

lemma length_key_vals: "\<forall>q \<in> set kvs. snd q \<noteq> [] \<Longrightarrow> 2 * length kvs \<le> length (concat (map key_val kvs))"
proof (induction kvs)
  case (Cons q kvs)
  then show ?case
    using encode_nonempty(5) [of "fst q"]
    by (cases "text_key (fst q)"; cases "snd q") (auto simp: key_val_def)
qed simp

lemma read_map_sound:
  assumes "rd_ok r" "read_map field init r = Inr (t, r')"
  shows "valid t \<and> at_bytes r (enc t) \<and> r' = adv r (length (enc t))"
proof -
  obtain n r1 where n: "at_bytes r (encode_map_header n)" "r1 = adv r (length (encode_map_header n))"
      "map_fields field (unat n) r1 None init = Inr (t, r')"
    using assms by (auto simp: read_map_def and_then_Inr_iff rd_map_iff)
  have "rd_ok r1" "pos r1 \<le> length (buf r1)"
    using assms(1) n(2) at_bytes_pos [OF n(1)] by auto
  from loop_sound [OF this init_valid n(3)] obtain kvs where
    kvs: "length kvs = unat n" "sorted_wrt (<) (map key_of kvs)" "at_bytes r1 (concat (map key_val kvs))"
      "r' = adv r1 (length (concat (map key_val kvs)))" "valid t" "pmap t = map_of kvs"
    by (auto simp: pmap_init)
  have d: "distinct (map fst kvs)" "distinct (map fst (present (fields t)))"
    using kvs(2) distinct_present [of "fields t"] keys_distinct keys_fields [of t]
    by (simp_all add: strict_sorted_iff) (auto simp: distinct_map inj_on_def)
  have set: "set kvs = set (present (fields t))"
    using map_of_inject_set [OF d] kvs(6) by simp
  note s = sort_present [OF \<open>rd_ok r1\<close> kvs(3) set]
  have "kvs = sort_key key_of (present (fields t))"
    using sorted_kvs_unique [OF kvs(2) s(1)] s(2) kvs(6) by simp
  then have "enc t = encode_map_header (of_nat (unat n)) @ concat (map key_val kvs)"
    using kvs(1) by (simp only: encode_record_sorted Let_def)
  with n(1,2) kvs(3-5) show ?thesis by simp
qed

lemma read_map_complete:
  assumes "rd_ok r" "valid t" "at_bytes r (enc t)"
  shows "read_map field init r = Inr (t, adv r (length (enc t)))"
proof -
  define kvs where "kvs = sort_key key_of (present (fields t))"
  define n where "n = (of_nat (length kvs) :: u64)"
  define r1 where "r1 = adv r (length (encode_map_header n))"
  have e: "enc t = encode_map_header n @ concat (map key_val kvs)"
    by (simp add: encode_record_sorted kvs_def n_def Let_def)
  have set: "set kvs = set (present (fields t))" by (simp add: kvs_def)
  have at: "at_bytes r (encode_map_header n)" "at_bytes r1 (concat (map key_val kvs))"
    using assms(3) by (simp_all add: e r1_def)
  have r1: "rd_ok r1" "pos r1 \<le> length (buf r1)"
    using assms(1) at_bytes_pos [OF at(1)] by (auto simp: r1_def)
  note s = sort_present [OF r1(1) at(2) set, folded kvs_def]
  have ne: "\<forall>q \<in> set kvs. snd q \<noteq> []"
    using fields_nonempty by (auto simp: set present_def split: option.splits)
  have "2 * length kvs \<le> length (remaining r1)"
    using length_key_vals [OF ne] at_bytes_pos [OF at(2)] by (simp add: remaining_def)
  moreover have "length kvs < 2 ^ 64"
    using calculation r1(1) by (simp add: remaining_def rd_ok_def)
  then have un: "unat n = length kvs"
    by (simp add: n_def unat_of_nat take_bit_eq_mod)
  ultimately have map: "rd_map r = Inr (n, r1)"
    using assms(1) at(1) by (simp add: rd_map_iff r1_def)
  have "map_of kvs \<subseteq>\<^sub>m pmap t" by (simp add: s(2))
  then obtain t' where t': "map_fields field (length kvs) r1 None init = Inr (t', adv r1 (length (concat (map key_val kvs))))"
      "valid t'" "pmap t' = pmap t"
    using loop_complete [OF r1(1) assms(2) init_valid _ s(1) _ at(2), of None] s(2) by (auto simp: pmap_init)
  have "short v" if "(k, Some v) \<in> set (fields t)" for k v
  proof -
    have "(k, v) \<in> set kvs" using that by (force simp: set present_def split: option.splits)
    then have "length (key_val (k, v)) \<le> length (concat (map key_val kvs))"
      by (metis concat.simps(2) concat_append imageI length_append list.set_map split_list trans_le_add1 trans_le_add2 le_refl)
    then show ?thesis using r1(1) at_bytes_pos [OF at(2)] by (simp add: rd_ok_def short_def)
  qed
  then have "list_all (pred_option short \<circ> snd) (fields t)"
    by (auto simp: list_all_iff pred_option_def)
  then have "t = t'" using fields_inj assms(2) t'(2,3) fields_eq_pmap by metis
  then have "read_map field init r = Inr (t, adv r1 (length (concat (map key_val kvs))))"
    using map t'(1) un by (simp add: read_map_def)
  then show ?thesis unfolding e r1_def by simp
qed

lemma read_map_iff:
  "rd_ok r \<Longrightarrow> read_map field init r = Inr (t, r') \<longleftrightarrow> valid t \<and> at_bytes r (enc t) \<and> r' = adv r (length (enc t))"
  using read_map_sound read_map_complete by blast

end

text \<open>A header is accepted to its end exactly when it is the encoding of the fields read.\<close>

context item_codec
begin

lemma header_sound:
  "rd_ok (new_reader h) \<Longrightarrow> rd (new_reader h) = Inr (s, r) \<Longrightarrow> at_end r \<Longrightarrow> valid s \<and> h = enc s"
  by (auto simp: rd_iff at_bytes_def at_end_def new_reader_def)

lemma header_complete:
  "rd_ok (new_reader (enc s)) \<Longrightarrow> valid s \<Longrightarrow> \<exists>r. rd (new_reader (enc s)) = Inr (s, r) \<and> at_end r"
  by (auto simp: rd_iff at_end_def new_reader_def at_bytes_def)

end

sublocale record_codec \<subseteq> whole: item_codec "\<lambda>s. encode_record (fields s)" "read_map field init" valid
  by unfold_locales (simp_all add: read_map_iff encode_record_sorted Let_def)

end
