(* ===== verification/Objects.thy ===== *)
theory Objects
  imports Codec
begin

text \<open>
  Typed objects and their on-disk layout: \<open>src/crates/forge-core/src/object.rs\<close> with the tree
  constructors of \<open>src/crates/forge-core/src/tree.rs\<close>.

  An object file is a type byte, the header length as a big-endian \<open>u32\<close>, a canonical CBOR header
  and a payload. \<open>encode_file\<close> panics on a header longer than \<open>u32::MAX\<close>; a panic is the value
  \<open>None\<close> of an outer option. The local variables of a \<open>decode\<close> loop are a record of options
  (\<open>*Vars\<close>), the \<open>match\<close> on one key is the definition \<open>*_field\<close>, and \<open>read_map\<close> is the loop.

  The main results are the exact decoders: \<open>decode\<close> returns a value precisely on the bytes that
  \<open>encode\<close> produces for it.
\<close>

section \<open>Object files\<close>

definition u32_try_from :: "nat \<Rightarrow> 32 word option" where
  "u32_try_from n = (if n < 2 ^ 32 then Some (of_nat n) else None)"

definition encode_file :: "ObjectType \<Rightarrow> bytes \<Rightarrow> bytes \<Rightarrow> bytes option" where
  "encode_file ty header payload =
    (case u32_try_from (length header) of
       None \<Rightarrow> None
     | Some n \<Rightarrow> Some (object_type_byte ty # be_bytes 4 n @ header @ payload))"

definition parse_file :: "bytes \<Rightarrow> error + (ObjectType \<times> bytes \<times> bytes)" where
  "parse_file bs =
    (if length bs < 5 then Inl (Corrupt ''object file too short'')
     else and_then (object_type_from_u8 (bs ! 0)) (\<lambda>ty.
       let n = be_val (take 4 (drop 1 bs)); header_end = 5 + n in
       if 2 ^ 64 \<le> header_end then Inl (Corrupt ''object header length overflow'')
       else if length bs < header_end then Inl (Corrupt ''object header truncated'')
       else Inr (ty, take n (drop 5 bs), drop header_end bs)))"

definition decode_object_type :: "bytes \<Rightarrow> error + ObjectType" where
  "decode_object_type bs =
    (if bs = [] then Inl (Corrupt ''empty object'') else object_type_from_u8 (bs ! 0))"

lemma encode_file_Some:
  "encode_file ty h p = Some bs \<longleftrightarrow>
    length h < 2 ^ 32 \<and> bs = object_type_byte ty # be_bytes 4 (of_nat (length h) :: 32 word) @ h @ p"
  by (auto simp: encode_file_def u32_try_from_def split: option.splits)

text \<open>Parsing a file is the exact inverse of framing it.\<close>

lemma parse_file_iff: "parse_file bs = Inr (ty, h, p) \<longleftrightarrow> encode_file ty h p = Some bs"
proof
  assume a: "parse_file bs = Inr (ty, h, p)"
  define n where "n = be_val (take 4 (drop 1 bs))"
  from a have c: "5 \<le> length bs" "bs ! 0 = object_type_byte ty" "5 + n \<le> length bs"
      "h = take n (drop 5 bs)" "p = drop (5 + n) bs"
    by (auto simp: parse_file_def and_then_Inr_iff Let_def n_def object_type_from_u8_Inr)
  have l4: "length (take 4 (drop 1 bs)) = 4" using c(1) by simp
  have n32: "n < 2 ^ 32" using be_val_less [of "take 4 (drop 1 bs)"] unfolding l4 n_def by simp
  have "unat (of_nat n :: 32 word) = n" using n32 by (simp add: unat_of_nat take_bit_eq_mod)
  then have "be_bytes (length (take 4 (drop 1 bs))) (of_nat n :: 32 word) = take 4 (drop 1 bs)"
    by (intro be_bytes_inverse) (simp add: n_def)
  then have f: "be_bytes 4 (of_nat n :: 32 word) = take 4 (drop 1 bs)" unfolding l4 .
  have "bs = bs ! 0 # drop 1 bs" using c(1) by (cases bs) auto
  also have "drop 1 bs = take 4 (drop 1 bs) @ drop 5 bs"
    using append_take_drop_id [of 4 "drop 1 bs"] by simp
  also have "drop 5 bs = take n (drop 5 bs) @ drop (5 + n) bs"
    using append_take_drop_id [of n "drop 5 bs"] by (simp add: add.commute)
  finally show "encode_file ty h p = Some bs"
    using c n32 f by (simp add: encode_file_Some)
next
  assume "encode_file ty h p = Some bs"
  then have h: "length h < 2 ^ 32" and bs: "bs = object_type_byte ty # be_bytes 4 (of_nat (length h) :: 32 word) @ h @ p"
    by (simp_all add: encode_file_Some)
  have "be_val (be_bytes 4 (of_nat (length h) :: 32 word)) = length h"
    using h by (simp add: be_val_be_bytes unat_of_nat take_bit_eq_mod)
  moreover have "drop (5 + length h) bs = drop (length h) (drop 5 bs)" by (simp add: add.commute)
  then have "drop (5 + length h) bs = p" by (simp add: bs)
  ultimately show "parse_file bs = Inr (ty, h, p)"
    using h by (simp add: parse_file_def bs Let_def)
qed

lemma encode_file_header_short: "encode_file ty h p = Some bs \<Longrightarrow> rd_ok (new_reader h)"
  by (simp add: encode_file_Some rd_ok_def new_reader_def)

text \<open>The \<open>x = Some(read(r)?)\<close> of a decoder's \<open>match\<close> arm.\<close>

definition into :: "('a \<Rightarrow> 's) \<Rightarrow> error + ('a \<times> Reader) \<Rightarrow> error + ('s \<times> Reader)" where
  "into f res = and_then res (\<lambda>(v, r). Inr (f v, r))"

lemma into_Inr_iff: "into f res = Inr (s, r) \<longleftrightarrow> (\<exists>v. res = Inr (v, r) \<and> s = f v)"
  by (auto simp: into_def and_then_Inr_iff)

section \<open>Blob\<close>

record Blob =
  data :: bytes

definition blob_frame_prefix :: "u64 \<Rightarrow> bytes option" where
  "blob_frame_prefix sz =
    (let header = encode_map_sorted [(text_key ''size'', encode_u64 sz)] in
     case u32_try_from (length header) of
       None \<Rightarrow> None
     | Some n \<Rightarrow> Some (object_type_byte ObjectType.Blob # be_bytes 4 n @ header))"

definition blob_encode :: "Blob \<Rightarrow> bytes option" where
  "blob_encode b = map_option (\<lambda>v. v @ data b) (blob_frame_prefix (of_nat (length (data b))))"

record BlobVars =
  bv_size :: "u64 option"

definition blob_field :: "string \<Rightarrow> Reader \<Rightarrow> BlobVars \<Rightarrow> error + (BlobVars \<times> Reader)" where
  "blob_field k r s =
    (if k = ''size'' then into (\<lambda>v. s\<lparr>bv_size := Some v\<rparr>) (rd_u64 r)
     else Inl (Corrupt ''unknown blob key''))"

definition blob_decode :: "bytes \<Rightarrow> error + Blob" where
  "blob_decode bs = and_then (parse_file bs) (\<lambda>(ty, header, payload).
    if ty \<noteq> ObjectType.Blob then Inl (Corrupt ''not a blob'')
    else and_then (read_map blob_field \<lparr>bv_size = None\<rparr> (new_reader header)) (\<lambda>(s, r).
      and_then (ok_or (Corrupt ''blob missing size'') (bv_size s)) (\<lambda>sz.
        if unat sz \<noteq> length payload then Inl (Corrupt ''blob size != payload'')
        else if \<not> at_end r then Inl (Corrupt ''blob header trailing bytes'')
        else Inr \<lparr>data = payload\<rparr>)))"

definition blob_fields :: "BlobVars \<Rightarrow> (string \<times> bytes option) list" where
  "blob_fields s = [(''size'', map_option encode_u64 (bv_size s))]"

interpretation blob_rec: record_codec blob_field "\<lparr>bv_size = None\<rparr>" blob_fields "[''size'']" "\<lambda>_. True"
proof unfold_locales
  fix r :: Reader and s s' :: BlobVars and k r'
  assume "rd_ok r" "blob_field k r s = Inr (s', r')"
  then show "\<exists>v. at_bytes r v \<and> v \<noteq> [] \<and> r' = adv r (length v) \<and> True \<and>
      (\<forall>j. map_of (blob_fields s') j = (if j = k then Some (Some v) else map_of (blob_fields s) j))"
    by (auto simp: blob_field_def into_Inr_iff rd_u64_iff blob_fields_def)
next
  fix r :: Reader and s t :: BlobVars and k v
  assume "rd_ok r" "map_of (blob_fields t) k = Some (Some v)" "at_bytes r v"
  then show "\<exists>s'. blob_field k r s = Inr (s', adv r (length v))"
    by (auto simp: blob_field_def into_Inr_iff rd_u64_iff blob_fields_def split: if_splits)
next
  fix s t :: BlobVars
  assume "blob_fields s = blob_fields t" "list_all (pred_option short \<circ> snd) (blob_fields s)"
  then show "s = t"
    by (intro BlobVars.equality) (auto simp: blob_fields_def option.pred_True intro: u64_item.opt_inj)
qed (auto simp: blob_fields_def Some_eq_map_option ascii_char_def intro!: valid_str_ascii)

text \<open>A blob decodes from exactly one byte string, its encoding.\<close>

lemma blob_header: "encode_map_sorted [(text_key ''size'', encode_u64 n)] = encode_record (blob_fields \<lparr>bv_size = Some n\<rparr>)"
  by (simp add: encode_record_def blob_fields_def)

lemma blob_encode_Some:
  "blob_encode b = Some bs \<longleftrightarrow>
    encode_file ObjectType.Blob (encode_record (blob_fields \<lparr>bv_size = Some (of_nat (length (data b)))\<rparr>)) (data b) = Some bs"
  by (auto simp: blob_encode_def blob_frame_prefix_def blob_header Let_def encode_file_def split: option.splits)

lemma blob_decode_iff:
  "blob_decode bs = Inr b \<longleftrightarrow> length (data b) < 2 ^ 64 \<and> blob_encode b = Some bs"
proof -
  have l: "unat n = k \<longleftrightarrow> k < 2 ^ 64 \<and> n = of_nat k" for n :: u64 and k
  proof
    assume "unat n = k"
    moreover have "unat n < 2 ^ LENGTH(64)" by (rule unsigned_less)
    ultimately show "k < 2 ^ 64 \<and> n = of_nat k" by auto
  qed (simp add: unat_of_nat take_bit_eq_mod)
  show ?thesis
  proof
    assume "blob_decode bs = Inr b"
    then obtain header s r sz where
      c: "encode_file ObjectType.Blob header (data b) = Some bs" "s = \<lparr>bv_size = Some sz\<rparr>" "unat sz = length (data b)"
        "read_map blob_field \<lparr>bv_size = None\<rparr> (new_reader header) = Inr (s, r)" "at_end r"
      by (auto simp: blob_decode_def and_then_Inr_iff parse_file_iff)
    then show "length (data b) < 2 ^ 64 \<and> blob_encode b = Some bs"
      using blob_rec.whole.header_sound [OF encode_file_header_short [OF c(1)] c(4,5)] l
      by (auto simp: blob_encode_Some)
  next
    assume a: "length (data b) < 2 ^ 64 \<and> blob_encode b = Some bs"
    let ?s = "\<lparr>bv_size = Some (of_nat (length (data b)))\<rparr> :: BlobVars"
    have f: "encode_file ObjectType.Blob (encode_record (blob_fields ?s)) (data b) = Some bs"
      using a by (simp add: blob_encode_Some)
    obtain r where "read_map blob_field \<lparr>bv_size = None\<rparr> (new_reader (encode_record (blob_fields ?s))) = Inr (?s, r)" "at_end r"
      using blob_rec.whole.header_complete [OF encode_file_header_short [OF f]] by auto
    moreover have "unat (of_nat (length (data b)) :: u64) = length (data b)" using a l by blast
    ultimately show "blob_decode bs = Inr b"
      using f [folded parse_file_iff] by (simp add: blob_decode_def)
  qed
qed

section \<open>Commit\<close>

record Commit =
  c_tree :: oid
  c_parents :: "oid list"
  c_agent :: string
  c_msg :: string
  c_ts :: u64
  c_landmark :: bool
  c_contrib :: "oid option"

definition max_commit_parents :: nat where
  "max_commit_parents = 1024"

definition commit_encode :: "Commit \<Rightarrow> bytes option" where
  "commit_encode c =
    (let fields =
       [(text_key ''agent'', encode_text (c_agent c)),
        (text_key ''lm'', encode_bool (c_landmark c)),
        (text_key ''msg'', encode_text (c_msg c)),
        (text_key ''parents'', encode_array_header (of_nat (length (c_parents c)))
           @ concat (map (\<lambda>p. encode_bytes (oid_bytes p)) (c_parents c))),
        (text_key ''tree'', encode_bytes (oid_bytes (c_tree c))),
        (text_key ''ts'', encode_u64 (c_ts c))]
       @ (case c_contrib c of
            Some contrib \<Rightarrow> [(text_key ''contrib'', encode_bytes (oid_bytes contrib))]
          | None \<Rightarrow> [])
     in encode_file ObjectType.Commit (encode_map_sorted fields) [])"

record CommitVars =
  cv_tree :: "oid option"
  cv_parents :: "oid list option"
  cv_agent :: "string option"
  cv_msg :: "string option"
  cv_ts :: "u64 option"
  cv_lm :: "bool option"
  cv_contrib :: "oid option"

definition commit_field :: "string \<Rightarrow> Reader \<Rightarrow> CommitVars \<Rightarrow> error + (CommitVars \<times> Reader)" where
  "commit_field k r s =
    (if k = ''tree'' then into (\<lambda>v. s\<lparr>cv_tree := Some v\<rparr>) (bstr32 r)
     else if k = ''parents'' then into (\<lambda>v. s\<lparr>cv_parents := Some v\<rparr>)
       (read_array max_commit_parents (Corrupt ''commit parent count exceeds limit'') bstr32 r)
     else if k = ''agent'' then into (\<lambda>v. s\<lparr>cv_agent := Some v\<rparr>) (rd_text r)
     else if k = ''msg'' then into (\<lambda>v. s\<lparr>cv_msg := Some v\<rparr>) (rd_text r)
     else if k = ''ts'' then into (\<lambda>v. s\<lparr>cv_ts := Some v\<rparr>) (rd_u64 r)
     else if k = ''lm'' then into (\<lambda>v. s\<lparr>cv_lm := Some v\<rparr>) (rd_bool r)
     else if k = ''contrib'' then into (\<lambda>v. s\<lparr>cv_contrib := Some v\<rparr>) (bstr32 r)
     else Inl (Corrupt ''unknown commit key''))"

definition commit_vars0 :: CommitVars where
  "commit_vars0 = \<lparr>cv_tree = None, cv_parents = None, cv_agent = None, cv_msg = None, cv_ts = None,
     cv_lm = None, cv_contrib = None\<rparr>"

definition commit_decode :: "bytes \<Rightarrow> error + Commit" where
  "commit_decode bs = and_then (parse_file bs) (\<lambda>(ty, header, payload).
    if ty \<noteq> ObjectType.Commit then Inl (Corrupt ''not a commit'')
    else if payload \<noteq> [] then Inl (Corrupt ''commit has payload'')
    else and_then (read_map commit_field commit_vars0 (new_reader header)) (\<lambda>(s, r).
      if \<not> at_end r then Inl (Corrupt ''commit header trailing bytes'')
      else and_then (ok_or (Corrupt ''commit tree'') (cv_tree s)) (\<lambda>tree.
        and_then (ok_or (Corrupt ''commit parents'') (cv_parents s)) (\<lambda>parents.
        and_then (ok_or (Corrupt ''commit agent'') (cv_agent s)) (\<lambda>agent.
        and_then (ok_or (Corrupt ''commit msg'') (cv_msg s)) (\<lambda>msg.
        and_then (ok_or (Corrupt ''commit ts'') (cv_ts s)) (\<lambda>ts.
        and_then (ok_or (Corrupt ''commit lm'') (cv_lm s)) (\<lambda>lm.
        Inr \<lparr>c_tree = tree, c_parents = parents, c_agent = agent, c_msg = msg, c_ts = ts,
          c_landmark = lm, c_contrib = cv_contrib s\<rparr>))))))))"

definition commit_fields :: "CommitVars \<Rightarrow> (string \<times> bytes option) list" where
  "commit_fields s =
    [(''agent'', map_option encode_text (cv_agent s)),
     (''lm'', map_option encode_bool (cv_lm s)),
     (''msg'', map_option encode_text (cv_msg s)),
     (''parents'', map_option (encode_array encode_oid) (cv_parents s)),
     (''tree'', map_option encode_oid (cv_tree s)),
     (''ts'', map_option encode_u64 (cv_ts s)),
     (''contrib'', map_option encode_oid (cv_contrib s))]"

definition commit_vars_ok :: "CommitVars \<Rightarrow> bool" where
  "commit_vars_ok s \<longleftrightarrow> pred_option valid_str (cv_agent s) \<and> pred_option valid_str (cv_msg s) \<and>
    pred_option (\<lambda>ps. length ps \<le> max_commit_parents) (cv_parents s)"

interpretation parents_item: item_codec "encode_array encode_oid"
  "read_array n e bstr32" "\<lambda>ps. length ps \<le> n" for n e
  by unfold_locales (simp_all add: oid_item.read_array_iff list_all_iff encode_array_def)

lemmas item_readers = u64_item.rd_iff bool_item.rd_iff bytes_item.rd_iff text_item.rd_iff
  oid_item.rd_iff parents_item.rd_iff

lemmas item_inj = u64_item.opt_inj bool_item.opt_inj bytes_item.opt_inj text_item.opt_inj
  oid_item.opt_inj parents_item.opt_inj

interpretation commit_rec: record_codec commit_field commit_vars0 commit_fields
  "[''agent'', ''lm'', ''msg'', ''parents'', ''tree'', ''ts'', ''contrib'']" commit_vars_ok
proof unfold_locales
  fix r :: Reader and s s' :: CommitVars and k r'
  assume "rd_ok r" "commit_vars_ok s" "commit_field k r s = Inr (s', r')"
  then show "\<exists>v. at_bytes r v \<and> v \<noteq> [] \<and> r' = adv r (length v) \<and> commit_vars_ok s' \<and>
      (\<forall>j. map_of (commit_fields s') j = (if j = k then Some (Some v) else map_of (commit_fields s) j))"
    by (auto simp: commit_field_def into_Inr_iff item_readers commit_fields_def commit_vars_ok_def split: if_splits)
next
  fix r :: Reader and s t :: CommitVars and k v
  assume "rd_ok r" "commit_vars_ok t" "map_of (commit_fields t) k = Some (Some v)" "at_bytes r v"
  then show "\<exists>s'. commit_field k r s = Inr (s', adv r (length v))"
    by (auto simp: commit_field_def into_Inr_iff item_readers commit_fields_def commit_vars_ok_def split: if_splits)
next
  fix s t :: CommitVars
  assume "commit_vars_ok s" "commit_vars_ok t" "commit_fields s = commit_fields t"
    "list_all (pred_option short \<circ> snd) (commit_fields s)"
  then show "s = t"
    by (intro CommitVars.equality) (auto simp: commit_fields_def commit_vars_ok_def option.pred_True intro: item_inj)
qed (auto simp: commit_fields_def Some_eq_map_option ascii_char_def commit_vars0_def commit_vars_ok_def intro!: valid_str_ascii)

definition commit_ok :: "Commit \<Rightarrow> bool" where
  "commit_ok c \<longleftrightarrow> valid_str (c_agent c) \<and> valid_str (c_msg c) \<and> length (c_parents c) \<le> max_commit_parents"

definition commit_vars_of :: "Commit \<Rightarrow> CommitVars" where
  "commit_vars_of c = \<lparr>cv_tree = Some (c_tree c), cv_parents = Some (c_parents c), cv_agent = Some (c_agent c),
     cv_msg = Some (c_msg c), cv_ts = Some (c_ts c), cv_lm = Some (c_landmark c), cv_contrib = c_contrib c\<rparr>"

lemma commit_encode_record:
  "commit_encode c = encode_file ObjectType.Commit (encode_record (commit_fields (commit_vars_of c))) []"
  by (simp add: commit_encode_def encode_record_def commit_fields_def commit_vars_of_def encode_array_def
      encode_oid_def [abs_def] split: option.splits)

lemma commit_decode_iff:
  "commit_decode bs = Inr c \<longleftrightarrow> commit_ok c \<and> commit_encode c = Some bs"
proof
  assume "commit_decode bs = Inr c"
  then obtain header s r where
    c: "encode_file ObjectType.Commit header [] = Some bs" "s = commit_vars_of c"
      "read_map commit_field commit_vars0 (new_reader header) = Inr (s, r)" "at_end r"
    by (auto simp: commit_decode_def and_then_Inr_iff parse_file_iff commit_vars_of_def)
  then show "commit_ok c \<and> commit_encode c = Some bs"
    using commit_rec.whole.header_sound [OF encode_file_header_short [OF c(1)] c(3,4)]
    by (auto simp: commit_encode_record commit_ok_def commit_vars_ok_def commit_vars_of_def)
next
  assume a: "commit_ok c \<and> commit_encode c = Some bs"
  then have f: "encode_file ObjectType.Commit (encode_record (commit_fields (commit_vars_of c))) [] = Some bs"
    by (simp add: commit_encode_record)
  have "commit_vars_ok (commit_vars_of c)"
    using a by (simp add: commit_ok_def commit_vars_ok_def commit_vars_of_def)
  then obtain r where "read_map commit_field commit_vars0
      (new_reader (encode_record (commit_fields (commit_vars_of c)))) = Inr (commit_vars_of c, r)" "at_end r"
    using commit_rec.whole.header_complete [OF encode_file_header_short [OF f]] by auto
  then show "commit_decode bs = Inr c"
    using f [folded parse_file_iff] by (simp add: commit_decode_def) (simp add: commit_vars_of_def)
qed

section \<open>Snapshot\<close>

record Snapshot =
  s_tree :: oid
  s_commit :: oid
  s_tag :: string
  s_ts :: u64
  s_prov :: oid
  s_pk :: bytes
  s_sig :: bytes

definition snapshot_encode :: "Snapshot \<Rightarrow> bytes option" where
  "snapshot_encode s =
    encode_file ObjectType.Snapshot (encode_map_sorted
      [(text_key ''commit'', encode_bytes (oid_bytes (s_commit s))),
       (text_key ''pk'', encode_bytes (s_pk s)),
       (text_key ''prov'', encode_bytes (oid_bytes (s_prov s))),
       (text_key ''sig'', encode_bytes (s_sig s)),
       (text_key ''tag'', encode_text (s_tag s)),
       (text_key ''tree'', encode_bytes (oid_bytes (s_tree s))),
       (text_key ''ts'', encode_u64 (s_ts s))]) []"

definition snapshot_encode_unsigned :: "Snapshot \<Rightarrow> bytes option" where
  "snapshot_encode_unsigned s = snapshot_encode (s\<lparr>s_sig := replicate 64 0\<rparr>)"

record SnapshotVars =
  sv_tree :: "oid option"
  sv_commit :: "oid option"
  sv_tag :: "string option"
  sv_ts :: "u64 option"
  sv_prov :: "oid option"
  sv_pk :: "bytes option"
  sv_sig :: "bytes option"

text \<open>The inlined read of a fixed-length byte string (\<open>pk\<close>, \<open>sig\<close>).\<close>

definition rd_fixed :: "nat \<Rightarrow> error \<Rightarrow> Reader \<Rightarrow> error + (bytes \<times> Reader)" where
  "rd_fixed n e r = and_then (rd_bytes r) (\<lambda>(b, r). if length b \<noteq> n then Inl e else Inr (b, r))"

definition snapshot_field :: "string \<Rightarrow> Reader \<Rightarrow> SnapshotVars \<Rightarrow> error + (SnapshotVars \<times> Reader)" where
  "snapshot_field k r s =
    (if k = ''tree'' then into (\<lambda>v. s\<lparr>sv_tree := Some v\<rparr>) (bstr32 r)
     else if k = ''commit'' then into (\<lambda>v. s\<lparr>sv_commit := Some v\<rparr>) (bstr32 r)
     else if k = ''tag'' then into (\<lambda>v. s\<lparr>sv_tag := Some v\<rparr>) (rd_text r)
     else if k = ''ts'' then into (\<lambda>v. s\<lparr>sv_ts := Some v\<rparr>) (rd_u64 r)
     else if k = ''prov'' then into (\<lambda>v. s\<lparr>sv_prov := Some v\<rparr>) (bstr32 r)
     else if k = ''pk'' then into (\<lambda>v. s\<lparr>sv_pk := Some v\<rparr>) (rd_fixed 32 (Corrupt ''pk len'') r)
     else if k = ''sig'' then into (\<lambda>v. s\<lparr>sv_sig := Some v\<rparr>) (rd_fixed 64 (Corrupt ''sig len'') r)
     else Inl (Corrupt ''unknown snapshot key''))"

definition snapshot_vars0 :: SnapshotVars where
  "snapshot_vars0 = \<lparr>sv_tree = None, sv_commit = None, sv_tag = None, sv_ts = None, sv_prov = None,
     sv_pk = None, sv_sig = None\<rparr>"

definition snapshot_decode :: "bytes \<Rightarrow> error + Snapshot" where
  "snapshot_decode bs = and_then (parse_file bs) (\<lambda>(ty, header, payload).
    if ty \<noteq> ObjectType.Snapshot then Inl (Corrupt ''not a snapshot'')
    else if payload \<noteq> [] then Inl (Corrupt ''snapshot has payload'')
    else and_then (read_map snapshot_field snapshot_vars0 (new_reader header)) (\<lambda>(s, r).
      if \<not> at_end r then Inl (Corrupt ''snapshot header trailing bytes'')
      else and_then (ok_or (Corrupt ''snap tree'') (sv_tree s)) (\<lambda>tree.
        and_then (ok_or (Corrupt ''snap commit'') (sv_commit s)) (\<lambda>commit.
        and_then (ok_or (Corrupt ''snap tag'') (sv_tag s)) (\<lambda>tag.
        and_then (ok_or (Corrupt ''snap ts'') (sv_ts s)) (\<lambda>ts.
        and_then (ok_or (Corrupt ''snap prov'') (sv_prov s)) (\<lambda>prov.
        and_then (ok_or (Corrupt ''snap pk'') (sv_pk s)) (\<lambda>pk.
        and_then (ok_or (Corrupt ''snap sig'') (sv_sig s)) (\<lambda>sg.
        Inr \<lparr>s_tree = tree, s_commit = commit, s_tag = tag, s_ts = ts, s_prov = prov, s_pk = pk,
          s_sig = sg\<rparr>)))))))))"

definition snapshot_fields :: "SnapshotVars \<Rightarrow> (string \<times> bytes option) list" where
  "snapshot_fields s =
    [(''commit'', map_option encode_oid (sv_commit s)),
     (''pk'', map_option encode_bytes (sv_pk s)),
     (''prov'', map_option encode_oid (sv_prov s)),
     (''sig'', map_option encode_bytes (sv_sig s)),
     (''tag'', map_option encode_text (sv_tag s)),
     (''tree'', map_option encode_oid (sv_tree s)),
     (''ts'', map_option encode_u64 (sv_ts s))]"

definition snapshot_vars_ok :: "SnapshotVars \<Rightarrow> bool" where
  "snapshot_vars_ok s \<longleftrightarrow> pred_option valid_str (sv_tag s) \<and>
    pred_option (\<lambda>b. length b = 32) (sv_pk s) \<and> pred_option (\<lambda>b. length b = 64) (sv_sig s)"

interpretation fixed_item: item_codec encode_bytes "rd_fixed n e" "\<lambda>b. length b = n" for n e
  by unfold_locales (auto simp: rd_fixed_def and_then_Inr_iff bytes_item.rd_iff)

interpretation snapshot_rec: record_codec snapshot_field snapshot_vars0 snapshot_fields
  "[''commit'', ''pk'', ''prov'', ''sig'', ''tag'', ''tree'', ''ts'']" snapshot_vars_ok
proof unfold_locales
  fix r :: Reader and s s' :: SnapshotVars and k r'
  assume "rd_ok r" "snapshot_vars_ok s" "snapshot_field k r s = Inr (s', r')"
  then show "\<exists>v. at_bytes r v \<and> v \<noteq> [] \<and> r' = adv r (length v) \<and> snapshot_vars_ok s' \<and>
      (\<forall>j. map_of (snapshot_fields s') j = (if j = k then Some (Some v) else map_of (snapshot_fields s) j))"
    by (auto simp: snapshot_field_def into_Inr_iff item_readers fixed_item.rd_iff snapshot_fields_def snapshot_vars_ok_def split: if_splits)
next
  fix r :: Reader and s t :: SnapshotVars and k v
  assume "rd_ok r" "snapshot_vars_ok t" "map_of (snapshot_fields t) k = Some (Some v)" "at_bytes r v"
  then show "\<exists>s'. snapshot_field k r s = Inr (s', adv r (length v))"
    by (auto simp: snapshot_field_def into_Inr_iff item_readers fixed_item.rd_iff snapshot_fields_def snapshot_vars_ok_def split: if_splits)
next
  fix s t :: SnapshotVars
  assume "snapshot_vars_ok s" "snapshot_vars_ok t" "snapshot_fields s = snapshot_fields t"
    "list_all (pred_option short \<circ> snd) (snapshot_fields s)"
  then show "s = t"
    by (intro SnapshotVars.equality)
       (auto simp: snapshot_fields_def snapshot_vars_ok_def option.pred_True intro: item_inj)
qed (auto simp: snapshot_fields_def Some_eq_map_option ascii_char_def snapshot_vars0_def snapshot_vars_ok_def intro!: valid_str_ascii)

definition snapshot_ok :: "Snapshot \<Rightarrow> bool" where
  "snapshot_ok s \<longleftrightarrow> valid_str (s_tag s) \<and> length (s_pk s) = 32 \<and> length (s_sig s) = 64"

definition snapshot_vars_of :: "Snapshot \<Rightarrow> SnapshotVars" where
  "snapshot_vars_of s = \<lparr>sv_tree = Some (s_tree s), sv_commit = Some (s_commit s), sv_tag = Some (s_tag s),
     sv_ts = Some (s_ts s), sv_prov = Some (s_prov s), sv_pk = Some (s_pk s), sv_sig = Some (s_sig s)\<rparr>"

lemma snapshot_encode_record:
  "snapshot_encode s = encode_file ObjectType.Snapshot (encode_record (snapshot_fields (snapshot_vars_of s))) []"
  by (simp add: snapshot_encode_def encode_record_def snapshot_fields_def snapshot_vars_of_def encode_oid_def)

lemma snapshot_decode_iff:
  "snapshot_decode bs = Inr x \<longleftrightarrow> snapshot_ok x \<and> snapshot_encode x = Some bs"
proof
  assume "snapshot_decode bs = Inr x"
  then obtain header s r where
    c: "encode_file ObjectType.Snapshot header [] = Some bs" "s = snapshot_vars_of x"
      "read_map snapshot_field snapshot_vars0 (new_reader header) = Inr (s, r)" "at_end r"
    by (auto simp: snapshot_decode_def and_then_Inr_iff parse_file_iff snapshot_vars_of_def)
  then show "snapshot_ok x \<and> snapshot_encode x = Some bs"
    using snapshot_rec.whole.header_sound [OF encode_file_header_short [OF c(1)] c(3,4)]
    by (auto simp: snapshot_encode_record snapshot_ok_def snapshot_vars_ok_def snapshot_vars_of_def)
next
  assume a: "snapshot_ok x \<and> snapshot_encode x = Some bs"
  then have f: "encode_file ObjectType.Snapshot (encode_record (snapshot_fields (snapshot_vars_of x))) [] = Some bs"
    by (simp add: snapshot_encode_record)
  have "snapshot_vars_ok (snapshot_vars_of x)"
    using a by (simp add: snapshot_ok_def snapshot_vars_ok_def snapshot_vars_of_def)
  then obtain r where "read_map snapshot_field snapshot_vars0
      (new_reader (encode_record (snapshot_fields (snapshot_vars_of x)))) = Inr (snapshot_vars_of x, r)" "at_end r"
    using snapshot_rec.whole.header_complete [OF encode_file_header_short [OF f]] by auto
  then show "snapshot_decode bs = Inr x"
    using f [folded parse_file_iff] by (simp add: snapshot_decode_def) (simp add: snapshot_vars_of_def)
qed

section \<open>Properties\<close>

text \<open>
  The blob decoder is the exact inverse of the blob encoder: it accepts a byte string as the blob
  \<open>b\<close> precisely when the string is the encoding of \<open>b\<close>, so no second encoding of a blob is accepted
  and every encoded blob reads back.
\<close>

theorem blob_codec_exact:
  "blob_decode bs = Inr b \<longleftrightarrow> length (data b) < 2 ^ 64 \<and> blob_encode b = Some bs"
  by (rule blob_decode_iff)

text \<open>
  The commit decoder accepts exactly the canonical encodings of well-formed commits (UTF-8 agent
  and message, at most 1024 parents): the identity of a commit is the hash of one byte string only.
\<close>

theorem commit_codec_exact:
  "commit_decode bs = Inr c \<longleftrightarrow> commit_ok c \<and> commit_encode c = Some bs"
  by (rule commit_decode_iff)

text \<open>
  The snapshot decoder accepts exactly the canonical encodings of well-formed snapshots (UTF-8 tag,
  32-byte public key, 64-byte signature).
\<close>

theorem snapshot_codec_exact:
  "snapshot_decode bs = Inr x \<longleftrightarrow> snapshot_ok x \<and> snapshot_encode x = Some bs"
  by (rule snapshot_decode_iff)

text \<open>
  An object file is framed unambiguously: parsing returns type, header and payload precisely when
  framing them gives the file; a header that framing refuses (it panics) is never parsed either.
\<close>

theorem object_file_exact:
  "parse_file bs = Inr (ty, h, p) \<longleftrightarrow> encode_file ty h p = Some bs"
  by (rule parse_file_iff)

end
