(* ===== verification/Trees.thy ===== *)
theory Trees
  imports Objects
begin

text \<open>
  Tree objects: the constructors, lookup and name rules of
  \<open>src/crates/forge-core/src/tree.rs\<close> and the encoding of \<open>src/crates/forge-core/src/object.rs\<close>.
  A tree's entries are strictly sorted by the bytes of their names; the order on \<open>string\<close> is that
  byte order. \<open>get\<close> is the standard library's binary search, modelled as its loop.
\<close>

section \<open>Entries and names\<close>

record TreeEntry =
  e_name :: string
  e_kind :: EntryKind
  e_id :: oid
  e_exec :: bool

record Tree =
  entries :: "TreeEntry list"

definition max_tree_entries :: nat where
  "max_tree_entries = 100000"

definition validate_name :: "string \<Rightarrow> error + unit" where
  "validate_name name =
    (if name = [] \<or> 255 < length name then Inl (Invalid ''tree name length'')
     else if name = ''.'' \<or> name = ''..'' then Inl (Invalid ''tree name . or ..'')
     else if CHR ''/'' \<in> set name \<or> CHR 0x00 \<in> set name then Inl (Invalid ''illegal tree name'')
     else if \<not> utf8 (as_bytes name) then Inl (Invalid ''tree name not utf-8'')
     else Inr ())"

definition validate_names :: "TreeEntry list \<Rightarrow> error + unit" where
  "validate_names es = try_fold (\<lambda>e _. validate_name (e_name e)) es ()"

fun windows_ok :: "('a \<Rightarrow> 'a \<Rightarrow> bool) \<Rightarrow> 'a list \<Rightarrow> bool" where
  "windows_ok P (x # y # xs) \<longleftrightarrow> P x y \<and> windows_ok P (y # xs)"
| "windows_ok P _ \<longleftrightarrow> True"

definition tree_new :: "TreeEntry list \<Rightarrow> error + Tree" where
  "tree_new es = and_then (validate_names es) (\<lambda>_.
    let es = sort_key e_name es in
    if \<not> windows_ok (\<lambda>a b. e_name a \<noteq> e_name b) es then Inl (Invalid ''duplicate tree name'')
    else Inr \<lparr>entries = es\<rparr>)"

definition tree_sort :: "Tree \<Rightarrow> Tree" where
  "tree_sort t = t\<lparr>entries := sort_key e_name (entries t)\<rparr>"

definition from_canonical :: "TreeEntry list \<Rightarrow> error + Tree" where
  "from_canonical es = and_then (validate_names es) (\<lambda>_.
    if \<not> windows_ok (\<lambda>a b. e_name a < e_name b) es
    then Inl (Corrupt ''tree entries are not strictly sorted unique'')
    else Inr \<lparr>entries = es\<rparr>)"

text \<open>\<open>slice::binary_search_by\<close>: the window \<open>[base, base + size)\<close> halves until one element is left.\<close>

function bsearch :: "string \<Rightarrow> TreeEntry list \<Rightarrow> nat \<Rightarrow> nat \<Rightarrow> nat" where
  "bsearch name es base sz =
    (if sz \<le> 1 then base
     else let half = sz div 2; mid = base + half in
       bsearch name es (if name < e_name (es ! mid) then base else mid) (sz - half))"
  by pat_completeness auto
termination
  by (relation "measure (\<lambda>(name, es, base, sz). sz)") auto

declare bsearch.simps [simp del]

definition tree_get :: "Tree \<Rightarrow> string \<Rightarrow> TreeEntry option" where
  "tree_get t name =
    (let es = entries t in
     if es = [] then None
     else let i = bsearch name es 0 (length es) in
       if e_name (es ! i) = name then Some (es ! i) else None)"

definition as_map :: "Tree \<Rightarrow> (string, TreeEntry) btree" where
  "as_map t = fold (\<lambda>e m. bt_insert (e_name e) e m) (entries t) []"

definition tree_is_empty :: "Tree \<Rightarrow> bool" where
  "tree_is_empty t \<longleftrightarrow> entries t = []"

definition tree_default :: Tree where
  "tree_default = \<lparr>entries = []\<rparr>"

section \<open>Encoding\<close>

definition entry_cbor :: "TreeEntry \<Rightarrow> bytes" where
  "entry_cbor e = encode_map_sorted
    [(text_key ''id'', encode_bytes (oid_bytes (e_id e))),
     (text_key ''k'', encode_u64 (ucast (entry_kind_byte (e_kind e)))),
     (text_key ''n'', encode_text (e_name e)),
     (text_key ''x'', encode_bool (e_exec e))]"

definition tree_encode :: "Tree \<Rightarrow> (error + bytes) option" where
  "tree_encode t =
    (if max_tree_entries < length (entries t)
     then Some (Inl (Invalid ''directory has more entries than a tree may hold''))
     else case try_fold (\<lambda>e out. and_then (validate_name (e_name e)) (\<lambda>_. Inr (out @ entry_cbor e)))
         (entries t) (encode_array_header (of_nat (length (entries t)))) of
       Inl err \<Rightarrow> Some (Inl err)
     | Inr entries_cbor \<Rightarrow>
         map_option Inr (encode_file ObjectType.Tree (encode_map_sorted [(text_key ''e'', entries_cbor)]) []))"

record EntryVars =
  ev_name :: "string option"
  ev_kind :: "EntryKind option"
  ev_id :: "oid option"
  ev_exec :: "bool option"

definition rd_kind :: "Reader \<Rightarrow> error + (EntryKind \<times> Reader)" where
  "rd_kind r = and_then (rd_u64 r) (\<lambda>(raw, r).
    if 255 < raw then Inl (Corrupt ''entry kind overflow'')
    else and_then (entry_kind_from_u8 (ucast raw)) (\<lambda>k. Inr (k, r)))"

definition entry_field :: "string \<Rightarrow> Reader \<Rightarrow> EntryVars \<Rightarrow> error + (EntryVars \<times> Reader)" where
  "entry_field fk r s =
    (if fk = ''n'' then into (\<lambda>v. s\<lparr>ev_name := Some v\<rparr>) (rd_text r)
     else if fk = ''k'' then into (\<lambda>v. s\<lparr>ev_kind := Some v\<rparr>) (rd_kind r)
     else if fk = ''id'' then into (\<lambda>v. s\<lparr>ev_id := Some v\<rparr>) (bstr32 r)
     else if fk = ''x'' then into (\<lambda>v. s\<lparr>ev_exec := Some v\<rparr>) (rd_bool r)
     else Inl (Corrupt ''unknown entry key''))"

definition entry_vars0 :: EntryVars where
  "entry_vars0 = \<lparr>ev_name = None, ev_kind = None, ev_id = None, ev_exec = None\<rparr>"

definition rd_entry :: "Reader \<Rightarrow> error + (TreeEntry \<times> Reader)" where
  "rd_entry r = and_then (read_map entry_field entry_vars0 r) (\<lambda>(s, r).
    and_then (ok_or (Corrupt ''entry n'') (ev_name s)) (\<lambda>name.
    and_then (ok_or (Corrupt ''entry k'') (ev_kind s)) (\<lambda>kind.
    and_then (ok_or (Corrupt ''entry id'') (ev_id s)) (\<lambda>i.
    and_then (ok_or (Corrupt ''entry x'') (ev_exec s)) (\<lambda>x.
    Inr (\<lparr>e_name = name, e_kind = kind, e_id = i, e_exec = x\<rparr>, r))))))"

record TreeVars =
  tv_entries :: "TreeEntry list option"

definition tree_field :: "string \<Rightarrow> Reader \<Rightarrow> TreeVars \<Rightarrow> error + (TreeVars \<times> Reader)" where
  "tree_field k r s =
    (if k \<noteq> ''e'' then Inl (Corrupt ''unknown tree key'')
     else into (\<lambda>v. s\<lparr>tv_entries := Some v\<rparr>)
       (read_array max_tree_entries (Corrupt ''tree fanout exceeds limit'') rd_entry r))"

definition tree_decode :: "bytes \<Rightarrow> error + Tree" where
  "tree_decode bs = and_then (parse_file bs) (\<lambda>(ty, header, payload).
    if ty \<noteq> ObjectType.Tree then Inl (Corrupt ''not a tree'')
    else if payload \<noteq> [] then Inl (Corrupt ''tree has payload'')
    else and_then (read_map tree_field \<lparr>tv_entries = None\<rparr> (new_reader header)) (\<lambda>(s, r).
      if \<not> at_end r then Inl (Corrupt ''tree header trailing bytes'')
      else and_then (ok_or (Corrupt ''tree missing e'') (tv_entries s)) from_canonical))"

section \<open>Names, order and lookup\<close>

definition tree_ok :: "Tree \<Rightarrow> bool" where
  "tree_ok t \<longleftrightarrow> sorted_wrt (<) (map e_name (entries t)) \<and>
    (\<forall>e \<in> set (entries t). validate_name (e_name e) = Inr ())"

lemma validate_name_str: "validate_name n = Inr () \<Longrightarrow> valid_str n \<and> n \<noteq> [] \<and> length n \<le> 255 \<and> CHR ''/'' \<notin> set n"
  by (auto simp: validate_name_def valid_str_def)

lemma validate_names_Inr: "validate_names es = Inr u \<longleftrightarrow> (\<forall>e \<in> set es. validate_name (e_name e) = Inr ())"
  by (induction es) (auto simp: validate_names_def and_then_Inr_iff)

lemma windows_ok_sorted:
  "windows_ok (\<lambda>a b. f a < f b) es \<longleftrightarrow> sorted_wrt (<) (map f es)" for f :: "'a \<Rightarrow> 'b::linorder"
proof (induction es rule: induct_list012)
  case (3 x y zs)
  then show ?case by (auto intro: order.strict_trans)
qed auto

lemma from_canonical_iff: "from_canonical es = Inr t \<longleftrightarrow> t = \<lparr>entries = es\<rparr> \<and> tree_ok t"
  by (cases t) (auto simp: from_canonical_def and_then_Inr_iff validate_names_Inr windows_ok_sorted tree_ok_def)

lemma windows_neq_sorted:
  "sorted (map f es) \<Longrightarrow> windows_ok (\<lambda>a b. f a \<noteq> f b) es \<longleftrightarrow> sorted_wrt (<) (map f es)" for f :: "'a \<Rightarrow> 'b::linorder"
proof (induction es rule: induct_list012)
  case (3 x y zs)
  then have "windows_ok (\<lambda>a b. f a \<noteq> f b) (y # zs) \<longleftrightarrow> sorted_wrt (<) (map f (y # zs))" by simp
  with 3 show ?case by (auto simp: order.strict_iff_order)
qed auto

lemma tree_new_iff:
  "tree_new es = Inr t \<longleftrightarrow> tree_ok t \<and> entries t = sort_key e_name es \<and> distinct (map e_name es)"
proof -
  have "sorted_wrt (<) (map e_name (sort_key e_name es)) \<longleftrightarrow> distinct (map e_name es)"
    by (simp add: strict_sorted_iff distinct_map)
  then show ?thesis
    by (cases t) (auto simp: tree_new_def and_then_Inr_iff validate_names_Inr windows_neq_sorted tree_ok_def Let_def)
qed

lemma bsearch_bound:
  "0 < sz \<Longrightarrow> base \<le> bsearch name es base sz \<and> bsearch name es base sz < base + sz"
proof (induction name es base sz rule: bsearch.induct)
  case (1 name es base sz)
  show ?case
  proof (cases "sz \<le> 1")
    case True
    with 1 show ?thesis by (subst (1 2) bsearch.simps) auto
  next
    case False
    then have "0 < sz - sz div 2" "sz div 2 + (sz - sz div 2) = sz" by auto
    with 1 False show ?thesis
      by (subst (1 2) bsearch.simps) (fastforce simp: Let_def split: if_splits)
  qed
qed

text \<open>The loop keeps the element searched for, if there is one, inside its window.\<close>

lemma bsearch_finds:
  assumes "sorted_wrt (<) (map e_name es)" "base + sz \<le> length es" "base \<le> j" "j < base + sz"
  shows "bsearch (e_name (es ! j)) es base sz = j"
  using assms
proof (induction "e_name (es ! j)" es base sz rule: bsearch.induct)
  case (1 es base sz)
  show ?case
  proof (cases "sz \<le> 1")
    case True
    with 1 show ?thesis by (subst bsearch.simps) auto
  next
    case False
    let ?mid = "base + sz div 2"
    have mid: "?mid < length es" "base < ?mid" using 1 False by auto
    have "e_name (es ! j) < e_name (es ! ?mid) \<longleftrightarrow> j < ?mid"
    proof -
      have lt: "e_name (es ! a) < e_name (es ! b)" if "a < b" "b < length es" for a b
        using sorted_wrt_nth_less [OF 1(2), of a b] that by simp
      consider "j < ?mid" | "j = ?mid" | "?mid < j" by linarith
      then show ?thesis
        by cases (use lt [of j ?mid] lt [of ?mid j] mid 1(3,5) in \<open>auto dest: order.asym\<close>)
    qed
    with 1 False mid show ?thesis
      by (subst bsearch.simps) (auto simp: Let_def)
  qed
qed

lemma tree_get_iff:
  assumes "tree_ok t"
  shows "tree_get t name = Some e \<longleftrightarrow> e \<in> set (entries t) \<and> e_name e = name"
proof
  assume a: "tree_get t name = Some e"
  define i where "i = bsearch name (entries t) 0 (length (entries t))"
  have "entries t \<noteq> []" "e = entries t ! i" "e_name e = name"
    using a by (auto simp: tree_get_def Let_def i_def split: if_splits)
  then show "e \<in> set (entries t) \<and> e_name e = name"
    using bsearch_bound [of "length (entries t)" 0 name "entries t"] by (simp add: i_def [symmetric])
next
  assume e: "e \<in> set (entries t) \<and> e_name e = name"
  then obtain j where j: "j < length (entries t)" "entries t ! j = e" by (auto simp: in_set_conv_nth)
  have "bsearch (e_name (entries t ! j)) (entries t) 0 (length (entries t)) = j"
    using assms j(1) by (intro bsearch_finds) (auto simp: tree_ok_def)
  then show "tree_get t name = Some e"
    using e j by (auto simp: tree_get_def Let_def)
qed

section \<open>The tree codec\<close>

definition encode_kind :: "EntryKind \<Rightarrow> bytes" where
  "encode_kind k = encode_u64 (ucast (entry_kind_byte k))"

interpretation kind_item: item_codec encode_kind rd_kind "\<lambda>_. True"
proof unfold_locales
  fix r :: Reader and k r'
  assume r: "rd_ok r"
  have u: "raw = ucast (ucast raw :: u8)" if "\<not> 255 < raw" for raw :: u64
    by (rule word_unat_eq_iff [THEN iffD2], subst unsigned_ucast_eq, subst unat_ucast_byte)
       (use that in \<open>simp add: take_bit_eq_mod word_less_nat_alt\<close>)
  have v: "unat (ucast b :: u64) = unat b" for b :: u8
    using unat_byte_less [of b] by (simp add: unsigned_ucast_eq take_bit_eq_mod)
  have "ucast (ucast b :: u64) = b" for b :: u8
    by (rule word_unat_eq_iff [THEN iffD2], subst unat_ucast_byte, subst v) (simp add: unat_byte_less)
  moreover have "\<not> 255 < (ucast b :: u64)" for b :: u8
    using unat_byte_less [of b] by (simp add: word_less_nat_alt v)
  ultimately show "rd_kind r = Inr (k, r') \<longleftrightarrow> True \<and> at_bytes r (encode_kind k) \<and> r' = adv r (length (encode_kind k))"
    using r by (auto simp: rd_kind_def and_then_Inr_iff u64_item.rd_iff entry_kind_from_u8_Inr encode_kind_def)
      (metis u)+
qed (simp add: encode_kind_def)

definition entry_fields :: "EntryVars \<Rightarrow> (string \<times> bytes option) list" where
  "entry_fields s =
    [(''id'', map_option encode_oid (ev_id s)),
     (''k'', map_option encode_kind (ev_kind s)),
     (''n'', map_option encode_text (ev_name s)),
     (''x'', map_option encode_bool (ev_exec s))]"

definition entry_vars_ok :: "EntryVars \<Rightarrow> bool" where
  "entry_vars_ok s \<longleftrightarrow> pred_option valid_str (ev_name s)"

interpretation entry_rec: record_codec entry_field entry_vars0 entry_fields "[''id'', ''k'', ''n'', ''x'']" entry_vars_ok
proof unfold_locales
  fix r :: Reader and s s' :: EntryVars and k r'
  assume "rd_ok r" "entry_vars_ok s" "entry_field k r s = Inr (s', r')"
  then show "\<exists>v. at_bytes r v \<and> v \<noteq> [] \<and> r' = adv r (length v) \<and> entry_vars_ok s' \<and>
      (\<forall>j. map_of (entry_fields s') j = (if j = k then Some (Some v) else map_of (entry_fields s) j))"
    by (auto simp: entry_field_def into_Inr_iff item_readers kind_item.rd_iff kind_item.enc_nonempty
        entry_fields_def entry_vars_ok_def split: if_splits)
next
  fix r :: Reader and s t :: EntryVars and k v
  assume "rd_ok r" "entry_vars_ok t" "map_of (entry_fields t) k = Some (Some v)" "at_bytes r v"
  then show "\<exists>s'. entry_field k r s = Inr (s', adv r (length v))"
    by (auto simp: entry_field_def into_Inr_iff item_readers kind_item.rd_iff entry_fields_def
        entry_vars_ok_def split: if_splits)
next
  fix s t :: EntryVars
  assume "entry_vars_ok s" "entry_vars_ok t" "entry_fields s = entry_fields t"
    "list_all (pred_option short \<circ> snd) (entry_fields s)"
  then show "s = t"
    by (intro EntryVars.equality)
       (auto simp: entry_fields_def entry_vars_ok_def option.pred_True intro: item_inj kind_item.opt_inj)
qed (auto simp: entry_fields_def Some_eq_map_option kind_item.enc_nonempty ascii_char_def entry_vars0_def
    entry_vars_ok_def intro!: valid_str_ascii)

definition entry_vars_of :: "TreeEntry \<Rightarrow> EntryVars" where
  "entry_vars_of e = \<lparr>ev_name = Some (e_name e), ev_kind = Some (e_kind e), ev_id = Some (e_id e), ev_exec = Some (e_exec e)\<rparr>"

lemma entry_cbor_record: "entry_cbor e = encode_record (entry_fields (entry_vars_of e))"
  by (simp add: entry_cbor_def encode_record_def entry_fields_def entry_vars_of_def encode_oid_def encode_kind_def)

interpretation entry_item: item_codec entry_cbor rd_entry "\<lambda>e. valid_str (e_name e)"
proof unfold_locales
  fix r :: Reader and e r'
  assume r: "rd_ok r"
  have "rd_entry r = Inr (e, r') \<longleftrightarrow> read_map entry_field entry_vars0 r = Inr (entry_vars_of e, r')"
    by (cases e) (auto simp: rd_entry_def and_then_Inr_iff entry_vars_of_def)
  then show "rd_entry r = Inr (e, r') \<longleftrightarrow>
      valid_str (e_name e) \<and> at_bytes r (entry_cbor e) \<and> r' = adv r (length (entry_cbor e))"
    using r by (simp add: entry_rec.whole.rd_iff entry_cbor_record entry_vars_ok_def) (simp add: entry_vars_of_def)
qed (simp add: entry_cbor_record)

definition tree_fields :: "TreeVars \<Rightarrow> (string \<times> bytes option) list" where
  "tree_fields s = [(''e'', map_option (encode_array entry_cbor) (tv_entries s))]"

definition tree_vars_ok :: "TreeVars \<Rightarrow> bool" where
  "tree_vars_ok s \<longleftrightarrow> pred_option (\<lambda>es. length es \<le> max_tree_entries \<and> list_all (\<lambda>e. valid_str (e_name e)) es) (tv_entries s)"

interpretation entries_item: item_codec "encode_array entry_cbor" "read_array n err rd_entry"
  "\<lambda>es. length es \<le> n \<and> list_all (\<lambda>e. valid_str (e_name e)) es" for n err
  by unfold_locales (simp_all add: entry_item.read_array_iff)

interpretation tree_rec: record_codec tree_field "\<lparr>tv_entries = None\<rparr>" tree_fields "[''e'']" tree_vars_ok
proof unfold_locales
  fix r :: Reader and s s' :: TreeVars and k r'
  assume "rd_ok r" "tree_vars_ok s" "tree_field k r s = Inr (s', r')"
  then show "\<exists>v. at_bytes r v \<and> v \<noteq> [] \<and> r' = adv r (length v) \<and> tree_vars_ok s' \<and>
      (\<forall>j. map_of (tree_fields s') j = (if j = k then Some (Some v) else map_of (tree_fields s) j))"
    by (auto simp: tree_field_def into_Inr_iff entries_item.rd_iff tree_fields_def tree_vars_ok_def)
next
  fix r :: Reader and s t :: TreeVars and k v
  assume "rd_ok r" "tree_vars_ok t" "map_of (tree_fields t) k = Some (Some v)" "at_bytes r v"
  then show "\<exists>s'. tree_field k r s = Inr (s', adv r (length v))"
    by (auto simp: tree_field_def into_Inr_iff entries_item.rd_iff tree_fields_def tree_vars_ok_def split: if_splits)
next
  fix s t :: TreeVars
  assume "tree_vars_ok s" "tree_vars_ok t" "tree_fields s = tree_fields t"
    "list_all (pred_option short \<circ> snd) (tree_fields s)"
  then show "s = t"
    by (intro TreeVars.equality) (auto simp: tree_fields_def tree_vars_ok_def intro: entries_item.opt_inj)
qed (auto simp: tree_fields_def tree_vars_ok_def Some_eq_map_option ascii_char_def intro!: valid_str_ascii)

lemma encode_entries_fold:
  "try_fold (\<lambda>e out. and_then (validate_name (e_name e)) (\<lambda>_. Inr (out @ entry_cbor e))) es acc = Inr out
    \<longleftrightarrow> (\<forall>e \<in> set es. validate_name (e_name e) = Inr ()) \<and> out = acc @ concat (map entry_cbor es)"
  by (induction es arbitrary: acc) (auto simp: and_then_Inr_iff)

lemma tree_encode_Some:
  "tree_encode t = Some (Inr bs) \<longleftrightarrow> length (entries t) \<le> max_tree_entries \<and>
    (\<forall>e \<in> set (entries t). validate_name (e_name e) = Inr ()) \<and>
    encode_file ObjectType.Tree (encode_record (tree_fields \<lparr>tv_entries = Some (entries t)\<rparr>)) [] = Some bs"
proof -
  have "encode_map_sorted [(text_key ''e'', encode_array entry_cbor (entries t))]
      = encode_record (tree_fields \<lparr>tv_entries = Some (entries t)\<rparr>)"
    by (simp add: encode_record_def tree_fields_def)
  then show ?thesis
    by (auto simp: tree_encode_def encode_array_def encode_entries_fold [THEN iffD2]
        dest: encode_entries_fold [THEN iffD1] split: sum.splits)
qed

lemma tree_decode_iff: "tree_decode bs = Inr t \<longleftrightarrow> tree_ok t \<and> tree_encode t = Some (Inr bs)"
proof
  assume "tree_decode bs = Inr t"
  then obtain header s r where
    c: "encode_file ObjectType.Tree header [] = Some bs" "s = \<lparr>tv_entries = Some (entries t)\<rparr>" "tree_ok t"
      "read_map tree_field \<lparr>tv_entries = None\<rparr> (new_reader header) = Inr (s, r)" "at_end r"
    by (auto simp: tree_decode_def and_then_Inr_iff parse_file_iff from_canonical_iff)
  then show "tree_ok t \<and> tree_encode t = Some (Inr bs)"
    using tree_rec.whole.header_sound [OF encode_file_header_short [OF c(1)] c(4,5)]
    by (auto simp: tree_encode_Some tree_vars_ok_def tree_ok_def)
next
  assume a: "tree_ok t \<and> tree_encode t = Some (Inr bs)"
  let ?s = "\<lparr>tv_entries = Some (entries t)\<rparr> :: TreeVars"
  have f: "encode_file ObjectType.Tree (encode_record (tree_fields ?s)) [] = Some bs"
    using a by (simp add: tree_encode_Some)
  have "tree_vars_ok ?s"
    using a validate_name_str by (auto simp: tree_vars_ok_def tree_encode_Some list_all_iff)
  then obtain r where "read_map tree_field \<lparr>tv_entries = None\<rparr> (new_reader (encode_record (tree_fields ?s))) = Inr (?s, r)" "at_end r"
    using tree_rec.whole.header_complete [OF encode_file_header_short [OF f]] by auto
  moreover have "from_canonical (entries t) = Inr t" using a by (simp add: from_canonical_iff)
  ultimately show "tree_decode bs = Inr t"
    using f [folded parse_file_iff] by (simp add: tree_decode_def)
qed

section \<open>Properties\<close>

text \<open>
  C30: The tree decoder accepts exactly the encodings of canonical trees: entries strictly sorted by name,
  names valid, at most 100000 of them. In particular it rejects unsorted and duplicate names.
\<close>

theorem tree_codec_exact: "tree_decode bs = Inr t \<longleftrightarrow> tree_ok t \<and> tree_encode t = Some (Inr bs)"
  by (rule tree_decode_iff)

text \<open>
  The binary search of \<open>Tree::get\<close> finds an entry of a canonical tree precisely when the tree has
  one of that name.
\<close>

theorem tree_get_correct:
  assumes "tree_ok t"
  shows "tree_get t name = Some e \<longleftrightarrow> e \<in> set (entries t) \<and> e_name e = name"
  using assms by (rule tree_get_iff)

theorem tree_get_correct_witness:
  "tree_get \<lparr>entries = [\<lparr>e_name = ''a'', e_kind = EntryKind.Blob, e_id = 1, e_exec = False\<rparr>,
      \<lparr>e_name = ''b'', e_kind = EntryKind.Tree, e_id = 2, e_exec = False\<rparr>]\<rparr> ''b''
    = Some \<lparr>e_name = ''b'', e_kind = EntryKind.Tree, e_id = 2, e_exec = False\<rparr>"
  by (subst tree_get_correct) (simp_all add: tree_ok_def validate_name_def utf8_ascii)

text \<open>
  \<open>Tree::new\<close> succeeds precisely on entries with valid, pairwise different names, and then returns
  them in byte order: the only trees it builds are canonical.
\<close>

theorem tree_new_canonical:
  "tree_new es = Inr t \<longleftrightarrow> tree_ok t \<and> entries t = sort_key e_name es \<and> distinct (map e_name es)"
  by (rule tree_new_iff)

end
