(* ===== verification/Overlay.thy ===== *)
theory Overlay
  imports Trees
begin

text \<open>
  The copy-on-write fold of staged paths onto a tree: \<open>apply_overlay\<close>, \<open>apply_level\<close>,
  \<open>merge_sorted_entries\<close>, \<open>strip_path_prefix\<close> and \<open>split_path\<close> of \<open>src/crates/forge-core/src/tree.rs\<close>.

  The source is generic in a \<open>TreeStore\<close>; here \<open>get_tree\<close> and \<open>put_tree\<close> are arguments and the
  locale \<open>tree_store\<close> states what the fold relies on. The recursion of \<open>apply_level\<close> does not end on
  a path that starts with a slash, so it takes fuel and \<open>None\<close> means that it did not return.
\<close>

section \<open>Definitions\<close>

type_synonym staged = "(oid \<times> bool) option"
type_synonym Overlay = "(string, staged) btree"

abbreviation slash :: char where
  "slash \<equiv> CHR ''/''"

definition strip_path_prefix :: "string \<Rightarrow> string \<Rightarrow> string option" where
  "strip_path_prefix path pre =
    (if pre = [] then Some path
     else if path = pre then Some []
     else if length pre < length path \<and> path ! length pre = slash \<and> prefix pre path
     then Some (drop (length pre + 1) path)
     else None)"

definition split_path :: "string \<Rightarrow> error + string list" where
  "split_path path =
    (let path = dropWhile (\<lambda>c. c = slash) path in
     if path = [] then Inr []
     else try_fold (\<lambda>p parts. and_then (validate_name p) (\<lambda>_. Inr (parts @ [p]))) (split_on slash path) [])"

fun merge_sorted_entries :: "TreeEntry list \<Rightarrow> (string, TreeEntry option) btree \<Rightarrow> TreeEntry list" where
  "merge_sorted_entries (b # base) ((n, ed) # edits) =
    (if e_name b < n then b # merge_sorted_entries base ((n, ed) # edits)
     else if e_name b = n then
       (case ed of Some e \<Rightarrow> e # merge_sorted_entries base edits | None \<Rightarrow> merge_sorted_entries base edits)
     else
       (case ed of Some e \<Rightarrow> e # merge_sorted_entries (b # base) edits | None \<Rightarrow> merge_sorted_entries (b # base) edits))"
| "merge_sorted_entries base [] = base"
| "merge_sorted_entries [] edits = List.map_filter snd edits"

definition split_step :: "string \<Rightarrow> string \<times> staged \<Rightarrow>
    (string, Overlay) btree \<times> (string, staged) btree \<Rightarrow> (string, Overlay) btree \<times> (string, staged) btree" where
  "split_step pre = (\<lambda>(path, op) (groups, files).
    case strip_path_prefix path pre of
      None \<Rightarrow> (groups, files)
    | Some rest \<Rightarrow>
        if rest = [] then (groups, files)
        else (case split_once slash rest of
            Some (first, _) \<Rightarrow>
              (bt_insert first (bt_insert path op (case map_of groups first of Some m \<Rightarrow> m | None \<Rightarrow> [])) groups, files)
          | None \<Rightarrow> (groups, bt_insert rest op files)))"

definition split_level :: "string \<Rightarrow> Overlay \<Rightarrow> (string, Overlay) btree \<times> (string, staged) btree" where
  "split_level pre overlay = fold (split_step pre) overlay ([], [])"

definition file_edit :: "string \<times> staged \<Rightarrow> TreeEntry option" where
  "file_edit = (\<lambda>(name, op). map_option (\<lambda>(i, x). \<lparr>e_name = name, e_kind = EntryKind.Blob, e_id = i, e_exec = x\<rparr>) op)"

definition file_edits :: "(string, staged) btree \<Rightarrow> (string, TreeEntry option) btree" where
  "file_edits files = fold (\<lambda>f. bt_insert (fst f) (file_edit f)) files []"

definition child_base :: "(string, staged) btree \<Rightarrow> Tree \<Rightarrow> string \<Rightarrow> oid option" where
  "child_base files base_tree name =
    (if map_of files name \<noteq> None then None
     else case tree_get base_tree name of
       Some e \<Rightarrow> if e_kind e = EntryKind.Tree then Some (e_id e) else None
     | None \<Rightarrow> None)"

definition child_prefix :: "string \<Rightarrow> string \<Rightarrow> string" where
  "child_prefix pre name = (if pre = [] then name else pre @ [slash] @ name)"

definition child_edit :: "string \<Rightarrow> oid \<Rightarrow> Tree \<Rightarrow> TreeEntry option" where
  "child_edit name child_id child_tree =
    (if tree_is_empty child_tree then None
     else Some \<lparr>e_name = name, e_kind = EntryKind.Tree, e_id = child_id, e_exec = False\<rparr>)"

primrec apply_level ::
  "(oid \<Rightarrow> 'st \<Rightarrow> error + Tree) \<Rightarrow> (Tree \<Rightarrow> 'st \<Rightarrow> (error + oid) \<times> 'st) \<Rightarrow> nat \<Rightarrow>
    oid option \<Rightarrow> string \<Rightarrow> Overlay \<Rightarrow> (error, oid, 'st) act" where
  "apply_level get_tree put_tree 0 = (\<lambda>base pre overlay st. None)"
| "apply_level get_tree put_tree (Suc fuel) = (\<lambda>base pre overlay.
    act_bind (act_of (\<lambda>st. case base of Some i \<Rightarrow> get_tree i st | None \<Rightarrow> Inr tree_default)) (\<lambda>base_tree.
    case split_level pre overlay of (groups, files) \<Rightarrow>
    act_bind (act_fold (\<lambda>(name, sub) edits.
        act_bind (apply_level get_tree put_tree fuel (child_base files base_tree name) (child_prefix pre name) sub) (\<lambda>child_id.
        act_bind (act_of (get_tree child_id)) (\<lambda>child_tree.
        act_ret (bt_insert name (child_edit name child_id child_tree) edits))))
      groups (file_edits files)) (\<lambda>edits.
    let es = merge_sorted_entries (entries base_tree) edits in
    if max_tree_entries < length es then act_of (\<lambda>_. Inl (Invalid ''checkin would give more entries than a tree may hold''))
    else act_bind (act_of (\<lambda>_. from_canonical es)) (\<lambda>tree st. Some (put_tree tree st)))))"

definition overlay_fuel :: "Overlay \<Rightarrow> nat" where
  "overlay_fuel overlay = Suc (fold (\<lambda>p m. max (length (fst p)) m) overlay 0)"

definition apply_overlay ::
  "(oid \<Rightarrow> 'st \<Rightarrow> error + Tree) \<Rightarrow> (Tree \<Rightarrow> 'st \<Rightarrow> (error + oid) \<times> 'st) \<Rightarrow>
    oid option \<Rightarrow> Overlay \<Rightarrow> (error, oid, 'st) act" where
  "apply_overlay get_tree put_tree base overlay =
    apply_level get_tree put_tree (overlay_fuel overlay) base [] overlay"

section \<open>Merging edits into sorted entries\<close>

text \<open>An edit list as \<open>apply_level\<close> builds it: every new entry carries the name it is filed under.\<close>

definition edits_named :: "(string, TreeEntry option) btree \<Rightarrow> bool" where
  "edits_named eds \<longleftrightarrow> (\<forall>(n, ed) \<in> set eds. \<forall>e. ed = Some e \<longrightarrow> e_name e = n)"

definition entry_lookup :: "TreeEntry list \<Rightarrow> string \<Rightarrow> TreeEntry option" where
  "entry_lookup es n = map_of (map (\<lambda>e. (e_name e, e)) es) n"

lemma entry_lookup_simps [simp]:
  "entry_lookup [] n = None"
  "entry_lookup (e # es) n = (if e_name e = n then Some e else entry_lookup es n)"
  by (simp_all add: entry_lookup_def)

lemma edits_named_Nil [simp]: "edits_named []"
  by (simp add: edits_named_def)

lemma edits_named_Cons [simp]:
  "edits_named ((n, ed) # eds) \<longleftrightarrow> (\<forall>e. ed = Some e \<longrightarrow> e_name e = n) \<and> edits_named eds"
  by (auto simp: edits_named_def)

lemma map_filter_simps' [simp]:
  "List.map_filter f [] = []"
  "List.map_filter f (x # xs) = (case f x of None \<Rightarrow> List.map_filter f xs | Some y \<Rightarrow> y # List.map_filter f xs)"
  by (simp_all add: List.map_filter_def split: option.splits)

lemma map_filter_names: "edits_named eds \<Longrightarrow> e_name ` set (List.map_filter snd eds) \<subseteq> fst ` set eds"
proof (induction eds)
  case (Cons p eds)
  then show ?case by (cases p; cases "snd p") auto
qed simp

lemma merge_names:
  assumes "edits_named eds"
  shows "e_name ` set (merge_sorted_entries base eds) \<subseteq> e_name ` set base \<union> fst ` set eds"
  using assms
proof (induction base eds rule: merge_sorted_entries.induct)
  case (1 b base n ed edits)
  then have "edits_named edits" by simp
  with 1 show ?case by (cases ed; cases "e_name b < n"; cases "e_name b = n") auto
next
  case (3 v va)
  then show ?case using map_filter_names [of "v # va"] by simp
qed simp

lemma merge_sorted:
  assumes "sorted_wrt (<) (map e_name base)" "bt_ok eds" "edits_named eds"
  shows "sorted_wrt (<) (map e_name (merge_sorted_entries base eds))"
  using assms
proof (induction base eds rule: merge_sorted_entries.induct)
  case (1 b base n ed edits)
  have b: "\<And>x. x \<in> e_name ` set base \<Longrightarrow> e_name b < x" and k: "\<And>x. x \<in> fst ` set edits \<Longrightarrow> n < x"
    and p: "sorted_wrt (<) (map e_name base)" "bt_ok edits" "edits_named edits" "edits_named ((n, ed) # edits)"
    using "1.prems" by auto
  consider "e_name b < n" | "e_name b = n" | "n < e_name b" by fastforce
  then show ?case
  proof cases
    case 1
    have "e_name b < x" if "x \<in> e_name ` set (merge_sorted_entries base ((n, ed) # edits))" for x
    proof -
      have "x \<in> e_name ` set base \<or> x = n \<or> x \<in> fst ` set edits"
        using merge_names [OF p(4), of base] that by auto
      then show ?thesis using b [of x] 1 order.strict_trans [OF 1 k, of x] by blast
    qed
    then show ?thesis using "1.IH"(1) [OF 1] "1.prems" 1 by auto
  next
    case 2
    have "n < x" if "x \<in> e_name ` set (merge_sorted_entries base edits)" for x
    proof -
      have "x \<in> e_name ` set base \<or> x \<in> fst ` set edits"
        using merge_names [OF p(3), of base] that by blast
      then show ?thesis using b [of x] k [of x] 2 by blast
    qed
    then show ?thesis using "1.IH"(2,3) p "1.prems" 2 by (cases ed) auto
  next
    case 3
    have "n < x" if "x \<in> e_name ` set (merge_sorted_entries (b # base) edits)" for x
    proof -
      have "x = e_name b \<or> x \<in> e_name ` set base \<or> x \<in> fst ` set edits"
        using merge_names [OF p(3), of "b # base"] that by auto
      then show ?thesis using order.strict_trans [OF 3 b, of x] k [of x] 3 by blast
    qed
    moreover have "\<not> e_name b < n" "e_name b \<noteq> n" using 3 by auto
    ultimately show ?thesis using "1.IH"(4,5) p "1.prems" by (cases ed) auto
  qed
next
  case (3 v va)
  have "sorted_wrt (<) (map e_name (List.map_filter snd eds))" if "bt_ok eds" "edits_named eds" for eds
    using that
  proof (induction eds)
    case (Cons q eds)
    then show ?case
      using map_filter_names [of eds] by (cases q; cases "snd q") fastforce+
  qed simp
  with 3 show ?case unfolding merge_sorted_entries.simps by blast
qed simp

lemma entry_lookup_None: "n \<notin> e_name ` set es \<Longrightarrow> entry_lookup es n = None"
  by (auto simp: entry_lookup_def map_of_eq_None_iff)

lemma map_filter_lookup:
  "bt_ok eds \<Longrightarrow> edits_named eds \<Longrightarrow>
    entry_lookup (List.map_filter snd eds) n = (case map_of eds n of Some ed \<Rightarrow> ed | None \<Rightarrow> None)"
proof (induction eds)
  case (Cons q eds)
  obtain m ed where q: "q = (m, ed)" by (cases q)
  have "m \<notin> fst ` set eds" using Cons.prems(1) by (auto simp: q)
  then have "entry_lookup (List.map_filter snd eds) m = None"
    using map_filter_names [of eds] Cons.prems(2) by (intro entry_lookup_None) (auto simp: q)
  with Cons show ?case by (cases ed) (auto simp: q)
qed simp

lemma merge_lookup:
  assumes "sorted_wrt (<) (map e_name base)" "bt_ok eds" "edits_named eds"
  shows "entry_lookup (merge_sorted_entries base eds) n =
    (case map_of eds n of Some ed \<Rightarrow> ed | None \<Rightarrow> entry_lookup base n)"
  using assms
proof (induction base eds rule: merge_sorted_entries.induct)
  case (1 b base m ed edits)
  have b: "\<And>x. x \<in> e_name ` set base \<Longrightarrow> e_name b < x" and k: "\<And>x. x \<in> fst ` set edits \<Longrightarrow> m < x"
    and p: "sorted_wrt (<) (map e_name base)" "bt_ok edits" "edits_named edits"
    using "1.prems" by auto
  consider "e_name b < m" | "e_name b = m" | "m < e_name b" by fastforce
  then show ?case
  proof cases
    case 1
    have "map_of edits (e_name b) = None"
      using k 1 by (metis domIff dom_map_of_conv_image_fst order.asym)
    then show ?thesis using "1.IH"(1) [OF 1] "1.prems" 1 by (auto split: option.split)
  next
    case 2
    have "m \<notin> e_name ` set base \<union> fst ` set edits" using b [of m] k [of m] 2 by auto
    then have "entry_lookup (merge_sorted_entries base edits) m = None"
      using merge_names [OF p(3), of base] by (intro entry_lookup_None) blast
    then show ?thesis using "1.IH"(2,3) p "1.prems" 2 by (cases ed) (auto split: option.split)
  next
    case 3
    have "m \<notin> e_name ` set (b # base) \<union> fst ` set edits" using b [of m] k [of m] 3 by auto
    then have "entry_lookup (merge_sorted_entries (b # base) edits) m = None"
      using merge_names [OF p(3), of "b # base"] by (intro entry_lookup_None) blast
    moreover have "\<not> e_name b < m" "e_name b \<noteq> m" using 3 by auto
    ultimately show ?thesis using "1.IH"(4,5) p "1.prems" by (cases ed) (auto split: option.split)
  qed
next
  case (3 v va)
  then show ?case using map_filter_lookup [of "v # va" n] unfolding merge_sorted_entries.simps by (simp only: entry_lookup_simps)
qed simp

section \<open>Splitting one level of the overlay\<close>

lemma child_prefix_inject [simp]: "child_prefix pre a = child_prefix pre b \<longleftrightarrow> a = b"
  by (simp add: child_prefix_def)

lemma child_prefix_nested:
  "child_prefix pre n \<noteq> [] \<Longrightarrow> child_prefix (child_prefix pre n) r = child_prefix pre (n @ slash # r)"
  by (auto simp: child_prefix_def)

lemma strip_path_prefix_iff:
  assumes "r \<noteq> []"
  shows "strip_path_prefix path pre = Some r \<longleftrightarrow> path = child_prefix pre r"
proof (cases "pre = []")
  case True
  then show ?thesis by (simp add: strip_path_prefix_def child_prefix_def)
next
  case False
  have "length pre < length path \<and> path ! length pre = slash \<and> prefix pre path \<and> drop (length pre + 1) path = r
      \<longleftrightarrow> path = pre @ slash # r"
    by (auto simp: prefix_def nth_append Cons_nth_drop_Suc) (metis append_Nil2 list.exhaust nth_Cons_0 length_append less_add_same_cancel1 length_greater_0_conv drop0 drop_Suc_Cons)
  with False assms show ?thesis by (auto simp: strip_path_prefix_def child_prefix_def)
qed

definition split_inv :: "string \<Rightarrow> (string \<Rightarrow> staged option) \<Rightarrow> (string, Overlay) btree \<times> (string, staged) btree \<Rightarrow> bool" where
  "split_inv pre M = (\<lambda>(groups, files).
    bt_ok groups \<and> bt_ok files \<and>
    (\<forall>n. map_of files n = (if n \<noteq> [] \<and> slash \<notin> set n then M (child_prefix pre n) else None)) \<and>
    (\<forall>n. map_of groups n \<noteq> None \<longleftrightarrow> slash \<notin> set n \<and> (\<exists>r. M (child_prefix pre (n @ slash # r)) \<noteq> None)) \<and>
    (\<forall>n sub. map_of groups n = Some sub \<longrightarrow> bt_ok sub \<and>
      (\<forall>p. map_of sub p = (if \<exists>r. p = child_prefix pre (n @ slash # r) then M p else None))))"

lemma split_inv_skip:
  assumes "split_inv pre M gf" "\<And>r. r \<noteq> [] \<Longrightarrow> path \<noteq> child_prefix pre r"
  shows "split_inv pre (M(path \<mapsto> op)) gf"
proof -
  have e: "(M(path \<mapsto> op)) (child_prefix pre r) = M (child_prefix pre r)" if "r \<noteq> []" for r
    using assms(2) [OF that] by simp
  have "(if \<exists>r. p = child_prefix pre (n @ slash # r) then (M(path \<mapsto> op)) p else None)
      = (if \<exists>r. p = child_prefix pre (n @ slash # r) then M p else None)" for n p
    using assms(2) by auto
  moreover have "(\<exists>r. (M(path \<mapsto> op)) (child_prefix pre (n @ slash # r)) \<noteq> None)
      \<longleftrightarrow> (\<exists>r. M (child_prefix pre (n @ slash # r)) \<noteq> None)" for n
    using e by simp
  moreover have "(if n \<noteq> [] \<and> slash \<notin> set n then (M(path \<mapsto> op)) (child_prefix pre n) else None)
      = (if n \<noteq> [] \<and> slash \<notin> set n then M (child_prefix pre n) else None)" for n
    using e by simp
  ultimately show ?thesis using assms(1) unfolding split_inv_def by simp
qed

lemma split_inv_file:
  assumes "split_inv pre M (groups, files)" "slash \<notin> set n" "n \<noteq> []"
  shows "split_inv pre (M(child_prefix pre n \<mapsto> op)) (groups, bt_insert n op files)"
proof -
  have ne: "n \<noteq> m @ slash # r" for m r using assms(2) by auto
  have "(if \<exists>r. p = child_prefix pre (m @ slash # r) then (M(child_prefix pre n \<mapsto> op)) p else None)
      = (if \<exists>r. p = child_prefix pre (m @ slash # r) then M p else None)" for m p
    using ne by auto
  moreover have "(M(child_prefix pre n \<mapsto> op)) (child_prefix pre (m @ slash # r)) = M (child_prefix pre (m @ slash # r))" for m r
    using ne [of m r] by auto
  ultimately show ?thesis
    using assms unfolding split_inv_def by simp
qed

lemma split_inv_group:
  assumes "split_inv pre M (groups, files)" "slash \<notin> set n"
  defines "sub \<equiv> case map_of groups n of Some m \<Rightarrow> m | None \<Rightarrow> []"
  shows "split_inv pre (M(child_prefix pre (n @ slash # tail) \<mapsto> op))
    (bt_insert n (bt_insert (child_prefix pre (n @ slash # tail)) op sub) groups, files)"
proof -
  let ?p = "child_prefix pre (n @ slash # tail)"
  have uniq: "m = n \<and> r = tail" if "m @ slash # r = n @ slash # tail" "slash \<notin> set m" for m r
    using that assms(2) by (metis (no_types) option.inject prod.inject split_once_Some)
  have inv: "bt_ok groups" "bt_ok files"
      "\<And>m. map_of files m = (if m \<noteq> [] \<and> slash \<notin> set m then M (child_prefix pre m) else None)"
      "\<And>m. map_of groups m \<noteq> None \<longleftrightarrow> slash \<notin> set m \<and> (\<exists>r. M (child_prefix pre (m @ slash # r)) \<noteq> None)"
      "\<And>m s. map_of groups m = Some s \<Longrightarrow> bt_ok s \<and>
        (\<forall>p. map_of s p = (if \<exists>r. p = child_prefix pre (m @ slash # r) then M p else None))"
    using assms(1) unfolding split_inv_def by auto
  have sub: "bt_ok sub" "map_of sub p = (if \<exists>r. p = child_prefix pre (n @ slash # r) then M p else None)" for p
  proof -
    show "bt_ok sub" using inv(5) unfolding sub_def by (auto split: option.splits)
    show "map_of sub p = (if \<exists>r. p = child_prefix pre (n @ slash # r) then M p else None)"
    proof (cases "map_of groups n")
      case None
      then have "M (child_prefix pre (n @ slash # r)) = None" for r using inv(4) [of n] assms(2) by auto
      with None show ?thesis by (auto simp: sub_def)
    next
      case (Some s)
      with inv(5) [OF Some] show ?thesis by (simp add: sub_def)
    qed
  qed
  have f: "(M(?p \<mapsto> op)) (child_prefix pre m) = M (child_prefix pre m)" if "slash \<notin> set m" for m
    using that by auto
  have g: "(M(?p \<mapsto> op)) (child_prefix pre (m @ slash # r)) = M (child_prefix pre (m @ slash # r))"
    if "m \<noteq> n" "slash \<notin> set m" for m r
    using that uniq [of m r] by auto
  have a: "map_of files m = (if m \<noteq> [] \<and> slash \<notin> set m then (M(?p \<mapsto> op)) (child_prefix pre m) else None)" for m
    using inv(3) [of m] f [of m] by simp
  have b: "map_of (bt_insert n (bt_insert ?p op sub) groups) m \<noteq> None
      \<longleftrightarrow> slash \<notin> set m \<and> (\<exists>r. (M(?p \<mapsto> op)) (child_prefix pre (m @ slash # r)) \<noteq> None)" for m
  proof (cases "m = n")
    case True
    then show ?thesis using assms(2) by (auto intro!: exI [of _ tail])
  next
    case False
    then show ?thesis using inv(4) [of m] g [OF False] by (cases "slash \<in> set m") simp_all
  qed
  have c: "bt_ok s \<and> (\<forall>p. map_of s p = (if \<exists>r. p = child_prefix pre (m @ slash # r) then (M(?p \<mapsto> op)) p else None))"
    if "map_of (bt_insert n (bt_insert ?p op sub) groups) m = Some s" for m s
  proof (cases "m = n")
    case True
    with that have s: "s = bt_insert ?p op sub" by simp
    show ?thesis unfolding s True using sub by auto
  next
    case False
    with that have s: "map_of groups m = Some s" by simp
    then have ns: "slash \<notin> set m" using inv(4) [of m] by simp
    show ?thesis using inv(5) [OF s] uniq [OF sym ns] False by auto
  qed
  show ?thesis unfolding split_inv_def using inv(1,2) a b c by simp
qed

lemma split_level_inv:
  assumes "distinct (map fst overlay)"
  shows "split_inv pre (map_of overlay) (split_level pre overlay)"
  unfolding split_level_def using assms
proof (induction overlay rule: rev_induct)
  case Nil
  show ?case by (simp add: split_inv_def)
next
  case (snoc x xs)
  obtain path op where x: "x = (path, op)" by (cases x)
  obtain groups files where gf: "fold (split_step pre) xs ([], []) = (groups, files)"
    by (cases "fold (split_step pre) xs ([], [])")
  have inv: "split_inv pre (map_of xs) (groups, files)" using snoc by (simp add: gf)
  have M: "map_of (xs @ [x]) = (map_of xs)(path \<mapsto> op)"
  proof -
    have "map_of xs path = None" using snoc.prems by (simp add: x map_of_eq_None_iff)
    then show ?thesis by (auto simp: x fun_eq_iff map_add_def split: option.split)
  qed
  show ?case
  proof (cases "\<exists>rest. strip_path_prefix path pre = Some rest \<and> rest \<noteq> []")
    case False
    then have "split_step pre x (groups, files) = (groups, files)"
      by (auto simp: split_step_def x split: option.splits)
    then have e: "fold (split_step pre) (xs @ [x]) ([], []) = (groups, files)" by (simp add: gf)
    have "\<And>r. r \<noteq> [] \<Longrightarrow> path \<noteq> child_prefix pre r"
      using False strip_path_prefix_iff by metis
    then show ?thesis unfolding M e using split_inv_skip [OF inv, of path op] by blast
  next
    case True
    then obtain rest where r: "strip_path_prefix path pre = Some rest" "rest \<noteq> []" by blast
    then have p: "path = child_prefix pre rest" using strip_path_prefix_iff by blast
    show ?thesis
    proof (cases "split_once slash rest")
      case None
      then have "slash \<notin> set rest" by (simp add: split_once_None)
      moreover have "fold (split_step pre) (xs @ [x]) ([], []) = (groups, bt_insert rest op files)"
        using None r by (simp add: gf) (simp add: split_step_def x)
      ultimately show ?thesis unfolding M p using split_inv_file [OF inv _ r(2), of op] by metis
    next
      case (Some ft)
      then obtain n t where ft: "ft = (n, t)" "rest = n @ slash # t" "slash \<notin> set n"
        by (cases ft) (auto simp: split_once_Some)
      have "fold (split_step pre) (xs @ [x]) ([], []) =
          (bt_insert n (bt_insert path op (case map_of groups n of Some m \<Rightarrow> m | None \<Rightarrow> [])) groups, files)"
        using Some r by (simp add: gf) (simp add: split_step_def x ft(1))
      then show ?thesis unfolding M p ft(2) using split_inv_group [OF inv ft(3), of t op] by metis
    qed
  qed
qed

section \<open>The fold as a function on files\<close>

text \<open>
  \<open>file_at\<close> reads a path in a stored tree: the blob and the executable bit, if the path names a file.
  \<open>overlay_spec\<close> is the abstract effect of an overlay on such a view: a staged path wins over the
  base, a path below a staged one is gone, and so is a file in the place of a staged directory.
\<close>

fun file_at :: "(oid \<Rightarrow> 'st \<Rightarrow> error + Tree) \<Rightarrow> 'st \<Rightarrow> oid option \<Rightarrow> string list \<Rightarrow> staged" where
  "file_at get_tree st None ps = None"
| "file_at get_tree st (Some i) [] = None"
| "file_at get_tree st (Some i) (n # ps) =
    (case get_tree i st of
       Inl _ \<Rightarrow> None
     | Inr t \<Rightarrow>
         (case tree_get t n of
            None \<Rightarrow> None
          | Some e \<Rightarrow>
              if ps = [] then (if e_kind e = EntryKind.Blob then Some (e_id e, e_exec e) else None)
              else if e_kind e = EntryKind.Tree then file_at get_tree st (Some (e_id e)) ps else None))"

definition staged_below :: "(string \<Rightarrow> staged option) \<Rightarrow> string list \<Rightarrow> bool" where
  "staged_below M ps \<longleftrightarrow> (\<exists>r. M (join_with [slash] ps @ slash # r) \<noteq> None)"

definition staged_above :: "(string \<Rightarrow> staged option) \<Rightarrow> string list \<Rightarrow> bool" where
  "staged_above M ps \<longleftrightarrow> (\<exists>k. 0 < k \<and> k < length ps \<and> M (join_with [slash] (take k ps)) \<noteq> None)"

definition overlay_spec :: "(string \<Rightarrow> staged option) \<Rightarrow> (string list \<Rightarrow> staged) \<Rightarrow> string list \<Rightarrow> staged" where
  "overlay_spec M base ps =
    (if staged_below M ps then None
     else case M (join_with [slash] ps) of
       Some op \<Rightarrow> op
     | None \<Rightarrow> if staged_above M ps then None else base ps)"

definition names_ok :: "string list \<Rightarrow> bool" where
  "names_ok ps \<longleftrightarrow> ps \<noteq> [] \<and> (\<forall>p \<in> set ps. p \<noteq> [] \<and> slash \<notin> set p)"

lemma join_with_two: "join_with [slash] (n # m # ps) = n @ slash # join_with [slash] (m # ps)"
  by simp

lemma staged_below_Cons:
  "staged_below M (n # m # ps) \<longleftrightarrow> staged_below (\<lambda>r. M (n @ slash # r)) (m # ps)"
  by (simp add: staged_below_def)

lemma staged_above_Cons:
  "staged_above M (n # m # ps) \<longleftrightarrow> M n \<noteq> None \<or> staged_above (\<lambda>r. M (n @ slash # r)) (m # ps)"
proof
  assume "staged_above M (n # m # ps)"
  then obtain k where k: "0 < k" "k < length (n # m # ps)" "M (join_with [slash] (take k (n # m # ps))) \<noteq> None"
    by (auto simp: staged_above_def)
  show "M n \<noteq> None \<or> staged_above (\<lambda>r. M (n @ slash # r)) (m # ps)"
  proof (cases "k = 1")
    case True
    with k show ?thesis by simp
  next
    case False
    then obtain j where j: "k = Suc (Suc j)" using k(1) False by (cases k; cases "k - 1") auto
    with k have "staged_above (\<lambda>r. M (n @ slash # r)) (m # ps)"
      unfolding staged_above_def by (intro exI [of _ "Suc j"]) simp
    then show ?thesis ..
  qed
next
  assume "M n \<noteq> None \<or> staged_above (\<lambda>r. M (n @ slash # r)) (m # ps)"
  then show "staged_above M (n # m # ps)"
  proof
    assume "M n \<noteq> None"
    then show ?thesis unfolding staged_above_def by (intro exI [of _ 1]) simp
  next
    assume "staged_above (\<lambda>r. M (n @ slash # r)) (m # ps)"
    then obtain k where "0 < k" "k < length (m # ps)" "M (n @ slash # join_with [slash] (take k (m # ps))) \<noteq> None"
      by (auto simp: staged_above_def)
    then show ?thesis
      unfolding staged_above_def by (intro exI [of _ "Suc k"]) (cases k; simp)
  qed
qed

lemma overlay_spec_single: "slash \<notin> set n \<Longrightarrow>
    overlay_spec M base [n] =
      (if \<exists>r. M (n @ slash # r) \<noteq> None then None else case M n of Some op \<Rightarrow> op | None \<Rightarrow> base [n])"
  by (auto simp: overlay_spec_def staged_below_def staged_above_def split: option.splits)

lemma overlay_spec_deep:
  "overlay_spec M base (n # m # ps) =
    overlay_spec (\<lambda>r. M (n @ slash # r)) (\<lambda>qs. if M n \<noteq> None then None else base (n # qs)) (m # ps)"
  by (simp only: overlay_spec_def staged_below_Cons staged_above_Cons join_with_two)
     (auto split: option.splits)

lemma overlay_spec_none:
  assumes "\<And>r. M (n @ slash # r) = None"
  shows "overlay_spec (\<lambda>r. M (n @ slash # r)) base ps = base ps"
  using assms by (simp add: overlay_spec_def staged_below_def staged_above_def)

lemma overlay_spec_cong:
  "base ps = base' ps \<Longrightarrow> overlay_spec M base ps = overlay_spec M base' ps"
  by (simp add: overlay_spec_def split: option.splits)

lemma tree_get_lookup:
  assumes "tree_ok t"
  shows "tree_get t n = entry_lookup (entries t) n"
proof -
  have d: "distinct (map fst (map (\<lambda>e. (e_name e, e)) (entries t)))"
    using assms by (simp add: tree_ok_def strict_sorted_iff comp_def)
  have "entry_lookup (entries t) n = Some e \<longleftrightarrow> e \<in> set (entries t) \<and> e_name e = n" for e
    using map_of_eq_Some_iff [OF d, of n e] by (auto simp: entry_lookup_def)
  then show ?thesis using tree_get_iff [OF assms, of n] by (metis not_None_eq)
qed

lemma map_of_fold_insert:
  "distinct (map fst xs) \<Longrightarrow> map_of (fold (\<lambda>f. bt_insert (fst f) (g f)) xs acc) n =
    (case map_of xs n of Some v \<Rightarrow> Some (g (n, v)) | None \<Rightarrow> map_of acc n)"
proof (induction xs arbitrary: acc)
  case (Cons x xs)
  have "map_of xs (fst x) = None" using Cons.prems by (simp add: map_of_eq_None_iff)
  with Cons show ?case by (cases x) (auto split: option.split)
qed simp

lemma bt_ok_fold_insert: "bt_ok acc \<Longrightarrow> bt_ok (fold (\<lambda>f. bt_insert (fst f) (g f)) xs acc)"
  by (induction xs arbitrary: acc) auto

lemma edits_named_insert:
  assumes "edits_named eds" "\<And>e. ed = Some e \<Longrightarrow> e_name e = n"
  shows "edits_named (bt_insert n ed eds)"
proof -
  have "set (bt_insert n ed eds) \<subseteq> insert (n, ed) (set eds)"
    by (induction n ed eds rule: bt_insert.induct) auto
  with assms show ?thesis unfolding edits_named_def by blast
qed

lemma file_edit_named: "file_edit f = Some e \<Longrightarrow> e_name e = fst f"
  by (auto simp: file_edit_def split: prod.splits)

lemma file_edits_props:
  assumes "bt_ok files"
  shows "map_of (file_edits files) n = map_option (\<lambda>op. file_edit (n, op)) (map_of files n)"
    and "bt_ok (file_edits files)" and "edits_named (file_edits files)"
proof -
  show "map_of (file_edits files) n = map_option (\<lambda>op. file_edit (n, op)) (map_of files n)"
    using map_of_fold_insert [OF bt_ok_distinct [OF assms], of file_edit "[]" n]
    by (simp add: file_edits_def split: option.split)
  show "bt_ok (file_edits files)" by (simp add: file_edits_def bt_ok_fold_insert)
  have "edits_named (fold (\<lambda>f. bt_insert (fst f) (file_edit f)) fs acc)" if "edits_named acc" for fs acc
    using that
    by (induction fs arbitrary: acc) (auto intro!: edits_named_insert file_edit_named)
  then show "edits_named (file_edits files)" by (simp add: file_edits_def)
qed

section \<open>What the fold relies on\<close>

text \<open>
  A tree store: reading back what was put, and never losing a tree. \<open>good\<close> is the condition under
  which content addressing identifies trees (no two stored byte strings share an id); it holds of
  a store before a \<open>put\<close> if it holds after it.
\<close>

locale tree_store =
  fixes get_tree :: "oid \<Rightarrow> 'st \<Rightarrow> error + Tree"
    and put_tree :: "Tree \<Rightarrow> 'st \<Rightarrow> (error + oid) \<times> 'st"
    and good :: "'st \<Rightarrow> bool"
  assumes get_ok: "get_tree i st = Inr t \<Longrightarrow> tree_ok t"
    and put_good: "put_tree t st = (r, st') \<Longrightarrow> good st' \<Longrightarrow> good st"
    and put_get: "put_tree t st = (Inr i, st') \<Longrightarrow> tree_ok t \<Longrightarrow> good st' \<Longrightarrow> get_tree i st' = Inr t"
    and put_keeps: "put_tree t st = (r, st') \<Longrightarrow> get_tree j st = Inr u \<Longrightarrow> get_tree j st' = Inr u"
begin

definition extends :: "'st \<Rightarrow> 'st \<Rightarrow> bool" where
  "extends st st' \<longleftrightarrow> (\<forall>i t. get_tree i st = Inr t \<longrightarrow> get_tree i st' = Inr t)"

lemma extends_refl [simp]: "extends st st"
  by (simp add: extends_def)

lemma extends_trans: "extends a b \<Longrightarrow> extends b c \<Longrightarrow> extends a c"
  by (simp add: extends_def)

lemma extends_get: "extends st st' \<Longrightarrow> get_tree i st = Inr t \<Longrightarrow> get_tree i st' = Inr t"
  by (simp add: extends_def)

text \<open>What one call of \<open>apply_level\<close> promises about the tree it returns.\<close>

definition level_ok :: "oid option \<Rightarrow> (string \<Rightarrow> staged option) \<Rightarrow> oid \<Rightarrow> 'st \<Rightarrow> bool" where
  "level_ok base M root st \<longleftrightarrow> (\<exists>t. get_tree root st = Inr t) \<and>
    (\<forall>st2 ps. extends st st2 \<longrightarrow> names_ok ps \<longrightarrow>
      file_at get_tree st2 (Some root) ps = overlay_spec M (file_at get_tree st2 base) ps)"

lemma level_ok_extends: "level_ok base M root st \<Longrightarrow> extends st st' \<Longrightarrow> level_ok base M root st'"
  unfolding level_ok_def by (meson extends_get extends_trans)

text \<open>One group of the fold: the child's promise, as it shows in the parent's edit list.\<close>

definition group_ok :: "(string \<Rightarrow> oid option) \<Rightarrow> (string \<Rightarrow> staged option) \<Rightarrow> string \<Rightarrow> TreeEntry option \<Rightarrow> 'st \<Rightarrow> bool" where
  "group_ok cb M n ed st \<longleftrightarrow> (\<exists>c ct. get_tree c st = Inr ct \<and> ed = child_edit n c ct \<and>
    level_ok (cb n) (\<lambda>r. M (n @ slash # r)) c st)"

lemma group_ok_extends: "group_ok cb M n ed st \<Longrightarrow> extends st st' \<Longrightarrow> group_ok cb M n ed st'"
  unfolding group_ok_def using extends_get level_ok_extends by blast

lemma child_edit_named: "child_edit n c ct = Some e \<Longrightarrow> e_name e = n"
  by (auto simp: child_edit_def split: if_splits)

text \<open>The merged entries of a level, read through \<open>file_at\<close>.\<close>

lemma level_ok_merge:
  assumes put: "get_tree root st' = Inr \<lparr>entries = merge_sorted_entries (entries bt) eds\<rparr>"
    and base: "case base of Some i \<Rightarrow> get_tree i st' = Inr bt | None \<Rightarrow> bt = tree_default"
    and eds: "bt_ok eds" "edits_named eds"
    and groups: "\<And>n. slash \<notin> set n \<Longrightarrow> n \<noteq> [] \<Longrightarrow> \<exists>r. M (n @ slash # r) \<noteq> None \<Longrightarrow>
        \<exists>ed. map_of eds n = Some ed \<and> group_ok (child_base files bt) M n ed st'"
    and others: "\<And>n. slash \<notin> set n \<Longrightarrow> n \<noteq> [] \<Longrightarrow> \<forall>r. M (n @ slash # r) = None \<Longrightarrow>
        map_of eds n = map_option (\<lambda>op. file_edit (n, op)) (M n)"
    and files: "\<And>n. slash \<notin> set n \<Longrightarrow> n \<noteq> [] \<Longrightarrow> map_of files n = M n"
  shows "level_ok base M root st'"
  unfolding level_ok_def
proof (intro conjI allI impI)
  show "\<exists>t. get_tree root st' = Inr t" using put by blast
  fix st2 ps
  assume ext: "extends st' st2" and ok: "names_ok ps"
  let ?t = "\<lparr>entries = merge_sorted_entries (entries bt) eds\<rparr> :: Tree"
  let ?cb = "child_base files bt"
  have bt: "tree_ok bt"
    using base get_ok by (cases base) (auto simp: tree_ok_def tree_default_def)
  have root: "get_tree root st2 = Inr ?t" using extends_get [OF ext put] .
  obtain n qs where ps: "ps = n # qs" and n: "slash \<notin> set n" "n \<noteq> []"
    using ok by (cases ps) (auto simp: names_ok_def)
  have look: "tree_get ?t n = (case map_of eds n of Some ed \<Rightarrow> ed | None \<Rightarrow> tree_get bt n)"
  proof -
    have "tree_get ?t n = entry_lookup (merge_sorted_entries (entries bt) eds) n"
      using tree_get_lookup [OF get_ok [OF put], of n] by simp
    then show ?thesis
      using merge_lookup [OF _ eds, of "entries bt" n] bt tree_get_lookup [OF bt, of n]
      by (simp add: tree_ok_def split: option.split)
  qed
  have base_at: "file_at get_tree st2 base (n # qs) = (case tree_get bt n of None \<Rightarrow> None | Some e \<Rightarrow>
      if qs = [] then (if e_kind e = EntryKind.Blob then Some (e_id e, e_exec e) else None)
      else if e_kind e = EntryKind.Tree then file_at get_tree st2 (Some (e_id e)) qs else None)" for qs
    using base extends_get [OF ext] by (cases base) (auto simp: tree_default_def tree_get_def)
  have root_at: "file_at get_tree st2 (Some root) (n # qs) = (case tree_get ?t n of None \<Rightarrow> None | Some e \<Rightarrow>
      if qs = [] then (if e_kind e = EntryKind.Blob then Some (e_id e, e_exec e) else None)
      else if e_kind e = EntryKind.Tree then file_at get_tree st2 (Some (e_id e)) qs else None)" for qs
    using root by simp
  show "file_at get_tree st2 (Some root) ps = overlay_spec M (file_at get_tree st2 base) ps"
  proof (cases "\<exists>r. M (n @ slash # r) \<noteq> None")
    case True
    from groups [OF n this] obtain ed c ct where g: "map_of eds n = Some ed" "get_tree c st' = Inr ct"
        "ed = child_edit n c ct" "level_ok (?cb n) (\<lambda>r. M (n @ slash # r)) c st'"
      unfolding group_ok_def by blast
    show ?thesis
    proof (cases qs)
      case Nil
      then show ?thesis
        using True n look g(1,3) root_at [of "[]"] unfolding ps
        by (auto simp: overlay_spec_single child_edit_def)
    next
      case (Cons m qs')
      have "names_ok qs" using ok by (auto simp: names_ok_def ps Cons)
      then have c: "file_at get_tree st2 (Some c) qs = overlay_spec (\<lambda>r. M (n @ slash # r)) (file_at get_tree st2 (?cb n)) qs"
        using g(4) ext unfolding level_ok_def by blast
      have "tree_get ct m = None" if "tree_is_empty ct"
        using that by (simp add: tree_get_def tree_is_empty_def)
      then have r: "file_at get_tree st2 (Some root) (n # qs) = file_at get_tree st2 (Some c) qs"
        using look g(1,3) extends_get [OF ext g(2)] root_at [of qs] Cons by (simp add: child_edit_def)
      have b: "file_at get_tree st2 (?cb n) qs = (if M n \<noteq> None then None else file_at get_tree st2 base (n # qs))"
        using files [OF n] base_at [of qs] Cons by (auto simp: child_base_def split: option.splits)
      have "overlay_spec M (file_at get_tree st2 base) ps = overlay_spec (\<lambda>r. M (n @ slash # r))
          (\<lambda>qs. if M n \<noteq> None then None else file_at get_tree st2 base (n # qs)) qs"
        unfolding ps Cons overlay_spec_deep ..
      also have "\<dots> = overlay_spec (\<lambda>r. M (n @ slash # r)) (file_at get_tree st2 (?cb n)) qs"
        by (rule overlay_spec_cong) (simp only: b)
      finally show ?thesis using r c by (simp only: ps)
    qed
  next
    case False
    then have m: "map_of eds n = map_option (\<lambda>op. file_edit (n, op)) (M n)" using others [OF n] by blast
    show ?thesis
    proof (cases qs)
      case Nil
      then show ?thesis
        using False n look m root_at [of "[]"] base_at [of "[]"] unfolding ps
        by (auto simp: overlay_spec_single file_edit_def split: option.splits)
    next
      case (Cons m' qs')
      have "overlay_spec M (file_at get_tree st2 base) ps = (if M n \<noteq> None then None else file_at get_tree st2 base (n # qs))"
        unfolding ps Cons overlay_spec_deep using False by (subst overlay_spec_none) auto
      then show ?thesis
        using look m root_at [of qs] base_at [of qs] Cons unfolding ps
        by (auto simp: file_edit_def split: option.splits)
    qed
  qed
qed

text \<open>The loop over the groups leaves one edit per group, each with its child's promise.\<close>

lemma groups_loop:
  fixes cb :: "string \<Rightarrow> oid option" and M :: "string \<Rightarrow> staged option"
  defines "body \<equiv> \<lambda>level. (\<lambda>(name, sub :: Overlay) edits.
      act_bind (level (cb name) name sub) (\<lambda>child_id.
      act_bind (act_of (get_tree child_id)) (\<lambda>child_tree.
      act_ret (bt_insert name (child_edit name child_id child_tree) edits))))"
  assumes run: "act_fold (body level) groups eds st = Some (Inr eds', st')" and good: "good st'"
    and eds: "bt_ok eds" "edits_named eds" and groups: "distinct (map fst groups)"
    and level: "\<And>n sub st c st1. (n, sub) \<in> set groups \<Longrightarrow> level (cb n) n sub st = Some (Inr c, st1) \<Longrightarrow> good st1 \<Longrightarrow>
      good st \<and> extends st st1 \<and> level_ok (cb n) (\<lambda>r. M (n @ slash # r)) c st1"
  shows "good st \<and> extends st st' \<and> bt_ok eds' \<and> edits_named eds' \<and>
    (\<forall>n \<in> fst ` set groups. \<exists>ed. map_of eds' n = Some ed \<and> group_ok cb M n ed st') \<and>
    (\<forall>n. n \<notin> fst ` set groups \<longrightarrow> map_of eds' n = map_of eds n)"
  using run eds groups level
proof (induction groups arbitrary: eds st)
  case Nil
  then show ?case using good by simp
next
  case (Cons g groups)
  obtain n sub where g: "g = (n, sub)" by (cases g)
  from Cons.prems(1) obtain c ct st1 where
    s: "level (cb n) n sub st = Some (Inr c, st1)" "get_tree c st1 = Inr ct"
      "act_fold (body level) groups (bt_insert n (child_edit n c ct) eds) st1 = Some (Inr eds', st')"
    by (auto simp: act_bind_Inr_iff body_def g)
  have named: "edits_named (bt_insert n (child_edit n c ct) eds)"
    using Cons.prems(3) by (rule edits_named_insert) (rule child_edit_named)
  have IH: "good st1 \<and> extends st1 st' \<and> bt_ok eds' \<and> edits_named eds' \<and>
      (\<forall>n \<in> fst ` set groups. \<exists>ed. map_of eds' n = Some ed \<and> group_ok cb M n ed st') \<and>
      (\<forall>m. m \<notin> fst ` set groups \<longrightarrow> map_of eds' m = map_of (bt_insert n (child_edit n c ct) eds) m)"
  proof (rule Cons.IH [OF s(3) _ named])
    show "bt_ok (bt_insert n (child_edit n c ct) eds)" "distinct (map fst groups)" using Cons.prems(2,4) by auto
  qed (use Cons.prems(5) [OF list.set_intros(2)] in blast)
  have l: "good st \<and> extends st st1 \<and> level_ok (cb n) (\<lambda>r. M (n @ slash # r)) c st1"
    using Cons.prems(5) [of n sub] s(1) IH by (auto simp: g)
  have "group_ok cb M n (child_edit n c ct) st1"
    unfolding group_ok_def using l s(2) by (intro exI [of _ c] exI [of _ ct]) simp
  then have gk: "group_ok cb M n (child_edit n c ct) st'" by (rule group_ok_extends) (simp add: IH)
  have "n \<notin> fst ` set groups" using Cons.prems(4) by (simp add: g)
  then have "map_of eds' n = map_of (bt_insert n (child_edit n c ct) eds) n" using IH by blast
  then have "map_of eds' n = Some (child_edit n c ct)" by simp
  moreover have "extends st st'" using l IH extends_trans by blast
  ultimately show ?case using IH l gk unfolding g by simp
qed

text \<open>
  The promise of \<open>apply_level\<close>. Below a non-empty prefix every path qualifies; at the root no
  staged path may start with a slash.
\<close>

lemma apply_level_ok:
  assumes "apply_level get_tree put_tree fuel base pre overlay st = Some (Inr root, st')"
    and "bt_ok overlay" "good st'" "pre = [] \<longrightarrow> (\<forall>r. map_of overlay (slash # r) = None)"
  shows "good st \<and> extends st st' \<and> level_ok base (\<lambda>r. map_of overlay (child_prefix pre r)) root st'"
  using assms
proof (induction fuel arbitrary: base pre overlay st root st')
  case 0
  then show ?case by simp
next
  case (Suc fuel)
  let ?M = "\<lambda>r. map_of overlay (child_prefix pre r)"
  obtain groups files where gf: "split_level pre overlay = (groups, files)" by fastforce
  have inv: "split_inv pre (map_of overlay) (groups, files)"
    using split_level_inv [OF bt_ok_distinct [OF Suc.prems(2)], of pre] by (simp add: gf)
  let ?level = "\<lambda>b n. apply_level get_tree put_tree fuel b (child_prefix pre n)"
  from Suc.prems(1) obtain bt eds st1 t where
    r: "(case base of Some i \<Rightarrow> get_tree i st | None \<Rightarrow> Inr tree_default) = Inr bt"
      "act_fold (\<lambda>(name, sub) edits.
        act_bind (?level (child_base files bt name) name sub) (\<lambda>child_id.
        act_bind (act_of (get_tree child_id)) (\<lambda>child_tree.
        act_ret (bt_insert name (child_edit name child_id child_tree) edits)))) groups (file_edits files) st = Some (Inr eds, st1)"
      "from_canonical (merge_sorted_entries (entries bt) eds) = Inr t" "put_tree t st1 = (Inr root, st')"
    by (auto simp: act_bind_Inr_iff gf Let_def split: if_splits)
  have t: "t = \<lparr>entries = merge_sorted_entries (entries bt) eds\<rparr>" "tree_ok t"
    using r(3) by (auto simp: from_canonical_iff)
  have good1: "good st1" and ext1: "extends st1 st'" and root: "get_tree root st' = Inr t"
    using put_good [OF r(4) Suc.prems(3)] put_keeps [OF r(4)] put_get [OF r(4) t(2) Suc.prems(3)] by (auto simp: extends_def)
  have groups_inv: "bt_ok groups" "bt_ok files"
      "\<And>n. map_of files n = (if n \<noteq> [] \<and> slash \<notin> set n then ?M n else None)"
      "\<And>n. map_of groups n \<noteq> None \<longleftrightarrow> slash \<notin> set n \<and> (\<exists>r. ?M (n @ slash # r) \<noteq> None)"
      "\<And>n sub. map_of groups n = Some sub \<Longrightarrow> bt_ok sub \<and>
        (\<forall>p. map_of sub p = (if \<exists>r. p = child_prefix pre (n @ slash # r) then map_of overlay p else None))"
    using inv unfolding split_inv_def by auto
  have level: "good st2 \<and> extends st2 st3 \<and> level_ok (child_base files bt n) (\<lambda>r. ?M (n @ slash # r)) c st3"
    if g: "(n, sub) \<in> set groups" and l: "?level (child_base files bt n) n sub st2 = Some (Inr c, st3)" and "good st3"
    for n sub st2 c st3
  proof -
    have s: "map_of groups n = Some sub" using g bt_ok_distinct [OF groups_inv(1)] by simp
    have ne: "child_prefix pre n \<noteq> []"
      using Suc.prems(4) groups_inv(4) [of n] s by (auto simp: child_prefix_def split: if_splits)
    have "map_of sub (child_prefix (child_prefix pre n) r) = ?M (n @ slash # r)" for r
      using groups_inv(5) [OF s] child_prefix_nested [OF ne, of r] by auto
    then show ?thesis
      using Suc.IH [OF l] groups_inv(5) [OF s] \<open>good st3\<close> ne by simp
  qed
  have loop: "good st \<and> extends st st1 \<and> bt_ok eds \<and> edits_named eds \<and>
      (\<forall>n \<in> fst ` set groups. \<exists>ed. map_of eds n = Some ed \<and> group_ok (child_base files bt) ?M n ed st1) \<and>
      (\<forall>n. n \<notin> fst ` set groups \<longrightarrow> map_of eds n = map_of (file_edits files) n)"
    by (rule groups_loop [where level = ?level and cb = "child_base files bt" and M = ?M,
          OF r(2) good1 file_edits_props(2,3) [OF groups_inv(2)] bt_ok_distinct [OF groups_inv(1)]]) (rule level)
  have "level_ok base ?M root st'"
  proof (rule level_ok_merge [where bt = bt and eds = eds and files = files])
    show "get_tree root st' = Inr \<lparr>entries = merge_sorted_entries (entries bt) eds\<rparr>" using root t(1) by simp
    show "case base of Some i \<Rightarrow> get_tree i st' = Inr bt | None \<Rightarrow> bt = tree_default"
      using r(1) loop ext1 extends_get by (auto split: option.splits)
    show "bt_ok eds" "edits_named eds" using loop by auto
    show "\<exists>ed. map_of eds n = Some ed \<and> group_ok (child_base files bt) ?M n ed st'"
      if "slash \<notin> set n" "n \<noteq> []" "\<exists>r. ?M (n @ slash # r) \<noteq> None" for n
    proof -
      have "n \<in> fst ` set groups"
        using groups_inv(4) [of n] that by (metis domIff dom_map_of_conv_image_fst)
      then show ?thesis using loop group_ok_extends [OF _ ext1] by blast
    qed
    show "map_of eds n = map_option (\<lambda>op. file_edit (n, op)) (?M n)"
      if "slash \<notin> set n" "n \<noteq> []" "\<forall>r. ?M (n @ slash # r) = None" for n
    proof -
      have "n \<notin> fst ` set groups"
        using groups_inv(4) [of n] that by (metis domIff dom_map_of_conv_image_fst)
      then show ?thesis
        using loop file_edits_props(1) [OF groups_inv(2), of n] groups_inv(3) [of n] that by simp
    qed
    show "map_of files n = ?M n" if "slash \<notin> set n" "n \<noteq> []" for n
      using groups_inv(3) [of n] that by simp
  qed
  then show ?case using loop ext1 extends_trans by blast
qed

text \<open>The whole fold, from the root.\<close>

lemma apply_overlay_ok:
  assumes "apply_overlay get_tree put_tree base overlay st = Some (Inr root, st')"
    and "bt_ok overlay" "good st'" "\<And>r. map_of overlay (slash # r) = None" "names_ok ps"
  shows "file_at get_tree st' (Some root) ps = overlay_spec (map_of overlay) (file_at get_tree st' base) ps"
  using apply_level_ok [OF assms(1) [unfolded apply_overlay_def] assms(2,3)] assms(4,5)
  by (simp add: level_ok_def child_prefix_def)

end

section \<open>Termination\<close>

text \<open>With fuel above the longest staged path the recursion returns, if no path starts with a slash.\<close>

lemma apply_level_returns:
  assumes "bt_ok overlay" "0 < fuel" "\<And>p. map_of overlay p \<noteq> None \<Longrightarrow> length p < length pre + fuel"
    and "pre = [] \<Longrightarrow> (\<forall>r. map_of overlay (slash # r) = None)"
  shows "apply_level get_tree put_tree fuel base pre overlay st \<noteq> None"
  using assms
proof (induction fuel arbitrary: base pre overlay st)
  case 0
  then show ?case by simp
next
  case (Suc fuel)
  obtain groups files where gf: "split_level pre overlay = (groups, files)" by fastforce
  have inv: "split_inv pre (map_of overlay) (groups, files)"
    using split_level_inv [OF bt_ok_distinct [OF Suc.prems(1)], of pre] by (simp add: gf)
  have child: "apply_level get_tree put_tree fuel b (child_prefix pre n) sub st1 \<noteq> None"
    if g: "(n, sub) \<in> set groups" for n sub b st1
  proof -
    have ok: "bt_ok groups" using inv by (simp add: split_inv_def)
    have s: "map_of groups n = Some sub" using g bt_ok_distinct [OF ok] by simp
    have sub: "bt_ok sub" "\<And>p. map_of sub p = (if \<exists>r. p = child_prefix pre (n @ slash # r) then map_of overlay p else None)"
      and ex: "\<exists>r. map_of overlay (child_prefix pre (n @ slash # r)) \<noteq> None"
      using inv s by (auto simp: split_inv_def) (metis option.discI)
    have ne: "child_prefix pre n \<noteq> []"
      using Suc.prems(4) ex by (auto simp: child_prefix_def split: if_splits)
    have len: "length (child_prefix pre n) < length (child_prefix pre (n @ slash # r))" for r
      by (simp add: child_prefix_def)
    have "length pre < length (child_prefix pre n)" using ne by (auto simp: child_prefix_def)
    then have bound: "length p < length (child_prefix pre n) + fuel" if "map_of sub p \<noteq> None" for p
      using that sub(2) [of p] Suc.prems(3) [of p] by (auto split: if_splits)
    obtain r where r: "map_of overlay (child_prefix pre (n @ slash # r)) \<noteq> None" using ex by blast
    have "map_of sub (child_prefix pre (n @ slash # r)) \<noteq> None" using r sub(2) by auto
    then have "0 < fuel" using bound len [of r] by fastforce
    then show ?thesis using Suc.IH [OF sub(1) _ bound] ne by blast
  qed
  have body: "(\<lambda>(name, sub) edits.
      act_bind (apply_level get_tree put_tree fuel (child_base files bt name) (child_prefix pre name) sub) (\<lambda>child_id.
      act_bind (act_of (get_tree child_id)) (\<lambda>child_tree.
      act_ret (bt_insert name (child_edit name child_id child_tree) edits)))) g eds st1 \<noteq> None"
    if "g \<in> set groups" for g eds st1 bt
  proof -
    obtain n sub where g: "g = (n, sub)" by (cases g)
    show ?thesis
      using child [of n sub] that unfolding g prod.case act_bind_not_None by (auto simp del: not_None_eq)
  qed
  have put: "(if c then act_of (\<lambda>_. Inl e) else act_bind (act_of (\<lambda>_. f)) (\<lambda>t st. Some (put_tree t st))) st1 \<noteq> None"
    for c e f st1
    by (simp add: act_bind_def act_of_def split: sum.splits)
  show ?case
    unfolding apply_level.simps gf prod.case act_bind_not_None Let_def
    by (intro conjI allI impI act_of_not_None act_fold_not_None body put)
qed

lemma overlay_fuel_bound: "map_of overlay p \<noteq> None \<Longrightarrow> length p < overlay_fuel overlay"
proof -
  have m: "m \<le> fold (\<lambda>p m. max (length (fst p)) m) xs m \<and>
      (\<forall>x \<in> set xs. length (fst x) \<le> fold (\<lambda>p m. max (length (fst p)) m) xs m)" for xs :: Overlay and m
  proof (induction xs arbitrary: m)
    case (Cons x xs)
    have "max (length (fst x)) m \<le> fold (\<lambda>p m. max (length (fst p)) m) xs (max (length (fst x)) m)"
      using Cons.IH by blast
    then show ?case using Cons.IH [of "max (length (fst x)) m"] by simp
  qed simp
  assume "map_of overlay p \<noteq> None"
  then obtain op where "(p, op) \<in> set overlay" by (auto dest: map_of_SomeD)
  then show ?thesis using m [of 0 overlay] by (force simp: overlay_fuel_def less_Suc_eq_le)
qed

lemma apply_overlay_returns:
  assumes "bt_ok overlay" "\<And>r. map_of overlay (slash # r) = None"
  shows "apply_overlay get_tree put_tree base overlay st \<noteq> None"
  unfolding apply_overlay_def using assms overlay_fuel_bound
  by (intro apply_level_returns) (auto simp: overlay_fuel_def)

end
