(* ===== verification/Conflicts.thy ===== *)
theory Conflicts
  imports Objects
begin

text \<open>
  Conflict objects: \<open>Conflict\<close> and \<open>ConflictPath\<close> of \<open>src/crates/forge-core/src/object.rs\<close>.

  The decoder's local \<open>a\<close>, \<open>b\<close>, \<open>base\<close> are \<open>Option<ObjectId>\<close>, \<open>None\<close> both for an absent key and for
  a CBOR null. The loop variables \<open>pv_a\<close>, \<open>pv_b\<close>, \<open>pv_base\<close> also remember whether the key occurred
  (\<open>None\<close> absent, \<open>Some None\<close> null); the decoded \<open>ConflictPath\<close> forgets it again, as the source does.
\<close>

section \<open>Conflict objects\<close>

record ConflictPath =
  cp_path :: string
  cp_a :: "oid option"
  cp_b :: "oid option"
  cp_base :: "oid option"

record Conflict =
  k_bases :: "oid list"
  k_ours :: oid
  k_theirs :: oid
  k_paths :: "ConflictPath list"
  k_causal :: "oid list"

definition max_conflict_items :: nat where
  "max_conflict_items = 100000"

definition conflict_validate :: "Conflict \<Rightarrow> error + unit" where
  "conflict_validate c = try_fold (\<lambda>n _.
    if max_conflict_items < n then Inl (Invalid ''conflict has more items than a conflict object may hold'') else Inr ())
    [length (k_paths c), length (k_bases c), length (k_causal c)] ()"

definition opt_id :: "oid option \<Rightarrow> bytes" where
  "opt_id x = (case x of Some i \<Rightarrow> encode_bytes (oid_bytes i) | None \<Rightarrow> encode_null)"

definition path_cbor :: "ConflictPath \<Rightarrow> bytes" where
  "path_cbor p = encode_map_sorted
    [(text_key ''a'', opt_id (cp_a p)), (text_key ''b'', opt_id (cp_b p)),
     (text_key ''base'', opt_id (cp_base p)), (text_key ''p'', encode_text (cp_path p))]"

definition id_array_cbor :: "oid list \<Rightarrow> bytes" where
  "id_array_cbor ids = encode_array_header (of_nat (length ids)) @ concat (map (\<lambda>i. encode_bytes (oid_bytes i)) ids)"

definition conflict_encode :: "Conflict \<Rightarrow> bytes option" where
  "conflict_encode c = encode_file ObjectType.Conflict (encode_map_sorted
    [(text_key ''bases'', id_array_cbor (k_bases c)),
     (text_key ''causal'', id_array_cbor (k_causal c)),
     (text_key ''ours'', encode_bytes (oid_bytes (k_ours c))),
     (text_key ''paths'', encode_array_header (of_nat (length (k_paths c))) @ concat (map path_cbor (k_paths c))),
     (text_key ''theirs'', encode_bytes (oid_bytes (k_theirs c)))]) []"

definition id_array :: "Reader \<Rightarrow> error + (oid list \<times> Reader)" where
  "id_array r = read_array max_conflict_items (Corrupt ''object id array exceeds limit'') bstr32 r"

record PathVars =
  pv_path :: "string option"
  pv_a :: "oid option option"
  pv_b :: "oid option option"
  pv_base :: "oid option option"

definition path_field :: "string \<Rightarrow> Reader \<Rightarrow> PathVars \<Rightarrow> error + (PathVars \<times> Reader)" where
  "path_field k r s =
    (if k = ''p'' then into (\<lambda>v. s\<lparr>pv_path := Some v\<rparr>) (rd_text r)
     else if k = ''a'' then into (\<lambda>v. s\<lparr>pv_a := Some v\<rparr>) (null_or bstr32 r)
     else if k = ''b'' then into (\<lambda>v. s\<lparr>pv_b := Some v\<rparr>) (null_or bstr32 r)
     else if k = ''base'' then into (\<lambda>v. s\<lparr>pv_base := Some v\<rparr>) (null_or bstr32 r)
     else Inl (Corrupt ''path key''))"

definition path_vars0 :: PathVars where
  "path_vars0 = \<lparr>pv_path = None, pv_a = None, pv_b = None, pv_base = None\<rparr>"

definition rd_path :: "Reader \<Rightarrow> error + (PathVars \<times> Reader)" where
  "rd_path r = and_then (read_map path_field path_vars0 r) (\<lambda>(s, r).
    and_then (ok_or (Corrupt ''conflict path'') (pv_path s)) (\<lambda>_. Inr (s, r)))"

definition path_of_vars :: "PathVars \<Rightarrow> ConflictPath" where
  "path_of_vars s = \<lparr>cp_path = the (pv_path s), cp_a = Option.bind (pv_a s) (\<lambda>x. x),
     cp_b = Option.bind (pv_b s) (\<lambda>x. x), cp_base = Option.bind (pv_base s) (\<lambda>x. x)\<rparr>"

record ConflictVars =
  kv_bases :: "oid list option"
  kv_ours :: "oid option"
  kv_theirs :: "oid option"
  kv_paths :: "PathVars list option"
  kv_causal :: "oid list option"

definition conflict_field :: "string \<Rightarrow> Reader \<Rightarrow> ConflictVars \<Rightarrow> error + (ConflictVars \<times> Reader)" where
  "conflict_field k r s =
    (if k = ''bases'' then into (\<lambda>v. s\<lparr>kv_bases := Some v\<rparr>) (id_array r)
     else if k = ''ours'' then into (\<lambda>v. s\<lparr>kv_ours := Some v\<rparr>) (bstr32 r)
     else if k = ''theirs'' then into (\<lambda>v. s\<lparr>kv_theirs := Some v\<rparr>) (bstr32 r)
     else if k = ''causal'' then into (\<lambda>v. s\<lparr>kv_causal := Some v\<rparr>) (id_array r)
     else if k = ''paths'' then into (\<lambda>v. s\<lparr>kv_paths := Some v\<rparr>)
       (read_array max_conflict_items (Corrupt ''conflict path count exceeds limit'') rd_path r)
     else Inl (Corrupt ''unknown conflict key''))"

definition conflict_vars0 :: ConflictVars where
  "conflict_vars0 = \<lparr>kv_bases = None, kv_ours = None, kv_theirs = None, kv_paths = None, kv_causal = None\<rparr>"

definition unwrap_or_default :: "'a list option \<Rightarrow> 'a list" where
  "unwrap_or_default x = (case x of None \<Rightarrow> [] | Some v \<Rightarrow> v)"

definition conflict_of_vars :: "ConflictVars \<Rightarrow> error + Conflict" where
  "conflict_of_vars s =
    and_then (ok_or (Corrupt ''conflict ours'') (kv_ours s)) (\<lambda>ours.
    and_then (ok_or (Corrupt ''conflict theirs'') (kv_theirs s)) (\<lambda>theirs.
    Inr \<lparr>k_bases = unwrap_or_default (kv_bases s), k_ours = ours, k_theirs = theirs,
      k_paths = map path_of_vars (unwrap_or_default (kv_paths s)),
      k_causal = unwrap_or_default (kv_causal s)\<rparr>))"

definition conflict_decode :: "bytes \<Rightarrow> error + Conflict" where
  "conflict_decode bs = and_then (parse_file bs) (\<lambda>(ty, header, payload).
    if ty \<noteq> ObjectType.Conflict then Inl (Corrupt ''not a conflict'')
    else if payload \<noteq> [] then Inl (Corrupt ''conflict has payload'')
    else and_then (read_map conflict_field conflict_vars0 (new_reader header)) (\<lambda>(s, r).
      if \<not> at_end r then Inl (Corrupt ''conflict header trailing bytes'')
      else conflict_of_vars s))"

section \<open>The conflict codec\<close>

lemma opt_id_eq: "opt_id = case_option encode_null encode_oid"
  by (auto simp: opt_id_def encode_oid_def fun_eq_iff split: option.splits)

lemma opt_id_nonempty [simp]: "opt_id x \<noteq> []"
  by (cases x) (simp_all add: opt_id_def)

lemma hd_encode_oid: "hd (encode_oid i) \<noteq> 0xf6"
  by (simp add: encode_oid_def encode_bytes_def push_uint_def u8_len_def Let_def)

interpretation opt_item: item_codec opt_id "null_or bstr32" "\<lambda>_. True"
  by unfold_locales (simp_all add: oid_item.null_or_iff hd_encode_oid opt_id_eq option.pred_True del: opt_id_nonempty
      split: option.splits)

definition path_fields :: "PathVars \<Rightarrow> (string \<times> bytes option) list" where
  "path_fields s =
    [(''a'', map_option opt_id (pv_a s)), (''b'', map_option opt_id (pv_b s)),
     (''base'', map_option opt_id (pv_base s)), (''p'', map_option encode_text (pv_path s))]"

definition path_vars_ok :: "PathVars \<Rightarrow> bool" where
  "path_vars_ok s \<longleftrightarrow> pred_option valid_str (pv_path s)"

interpretation path_rec: record_codec path_field path_vars0 path_fields "[''a'', ''b'', ''base'', ''p'']" path_vars_ok
proof unfold_locales
  fix r :: Reader and s s' :: PathVars and k r'
  assume "rd_ok r" "path_vars_ok s" "path_field k r s = Inr (s', r')"
  then show "\<exists>v. at_bytes r v \<and> v \<noteq> [] \<and> r' = adv r (length v) \<and> path_vars_ok s' \<and>
      (\<forall>j. map_of (path_fields s') j = (if j = k then Some (Some v) else map_of (path_fields s) j))"
    by (auto simp: path_field_def into_Inr_iff item_readers opt_item.rd_iff path_fields_def path_vars_ok_def split: if_splits)
next
  fix r :: Reader and s t :: PathVars and k v
  assume "rd_ok r" "path_vars_ok t" "map_of (path_fields t) k = Some (Some v)" "at_bytes r v"
  then show "\<exists>s'. path_field k r s = Inr (s', adv r (length v))"
    by (auto simp: path_field_def into_Inr_iff item_readers opt_item.rd_iff path_fields_def path_vars_ok_def split: if_splits)
next
  fix s t :: PathVars
  assume "path_vars_ok s" "path_vars_ok t" "path_fields s = path_fields t"
    "list_all (pred_option short \<circ> snd) (path_fields s)"
  then show "s = t"
    by (intro PathVars.equality)
       (auto simp: path_fields_def path_vars_ok_def option.pred_True intro: text_item.opt_inj opt_item.opt_inj)
qed (auto simp: path_fields_def Some_eq_map_option ascii_char_def path_vars0_def path_vars_ok_def intro!: valid_str_ascii)

definition path_vars_enc :: "PathVars \<Rightarrow> bytes" where
  "path_vars_enc s = encode_record (path_fields s)"

interpretation path_item: item_codec path_vars_enc rd_path "\<lambda>s. path_vars_ok s \<and> pv_path s \<noteq> None"
  by unfold_locales (auto simp: rd_path_def and_then_Inr_iff path_rec.whole.rd_iff path_vars_enc_def)

interpretation paths_item: item_codec "encode_array path_vars_enc" "read_array n err rd_path"
  "\<lambda>xs. length xs \<le> n \<and> list_all (\<lambda>s. path_vars_ok s \<and> pv_path s \<noteq> None) xs" for n err
  by unfold_locales (simp_all only: path_item.read_array_iff encode_nonempty' simp_thms)

interpretation id_array_item: item_codec "encode_array encode_oid" id_array "\<lambda>ids. length ids \<le> max_conflict_items"
  by unfold_locales (simp_all add: id_array_def [abs_def] parents_item.rd_iff)

definition conflict_fields :: "ConflictVars \<Rightarrow> (string \<times> bytes option) list" where
  "conflict_fields s =
    [(''bases'', map_option (encode_array encode_oid) (kv_bases s)),
     (''causal'', map_option (encode_array encode_oid) (kv_causal s)),
     (''ours'', map_option encode_oid (kv_ours s)),
     (''paths'', map_option (encode_array path_vars_enc) (kv_paths s)),
     (''theirs'', map_option encode_oid (kv_theirs s))]"

definition conflict_vars_ok :: "ConflictVars \<Rightarrow> bool" where
  "conflict_vars_ok s \<longleftrightarrow> pred_option (\<lambda>ids. length ids \<le> max_conflict_items) (kv_bases s) \<and>
    pred_option (\<lambda>ids. length ids \<le> max_conflict_items) (kv_causal s) \<and>
    pred_option (\<lambda>xs. length xs \<le> max_conflict_items \<and> list_all (\<lambda>s. path_vars_ok s \<and> pv_path s \<noteq> None) xs) (kv_paths s)"

interpretation conflict_rec: record_codec conflict_field conflict_vars0 conflict_fields
  "[''bases'', ''causal'', ''ours'', ''paths'', ''theirs'']" conflict_vars_ok
proof unfold_locales
  fix r :: Reader and s s' :: ConflictVars and k r'
  assume "rd_ok r" "conflict_vars_ok s" "conflict_field k r s = Inr (s', r')"
  then show "\<exists>v. at_bytes r v \<and> v \<noteq> [] \<and> r' = adv r (length v) \<and> conflict_vars_ok s' \<and>
      (\<forall>j. map_of (conflict_fields s') j = (if j = k then Some (Some v) else map_of (conflict_fields s) j))"
    by (auto simp: conflict_field_def into_Inr_iff oid_item.rd_iff id_array_item.rd_iff paths_item.rd_iff
        conflict_fields_def conflict_vars_ok_def split: if_splits)
next
  fix r :: Reader and s t :: ConflictVars and k v
  assume "rd_ok r" "conflict_vars_ok t" "map_of (conflict_fields t) k = Some (Some v)" "at_bytes r v"
  then show "\<exists>s'. conflict_field k r s = Inr (s', adv r (length v))"
    by (auto simp: conflict_field_def into_Inr_iff oid_item.rd_iff id_array_item.rd_iff paths_item.rd_iff
        conflict_fields_def conflict_vars_ok_def split: if_splits)
next
  fix s t :: ConflictVars
  assume "conflict_vars_ok s" "conflict_vars_ok t" "conflict_fields s = conflict_fields t"
    "list_all (pred_option short \<circ> snd) (conflict_fields s)"
  then show "s = t"
    by (intro ConflictVars.equality)
       (auto simp: conflict_fields_def conflict_vars_ok_def option.pred_True
          intro: oid_item.opt_inj id_array_item.opt_inj paths_item.opt_inj)
qed (auto simp: conflict_fields_def Some_eq_map_option ascii_char_def conflict_vars0_def conflict_vars_ok_def intro!: valid_str_ascii)

text \<open>What the decoder accepts: any subset of the optional keys.\<close>

lemma conflict_decode_iff:
  "conflict_decode bs = Inr c \<longleftrightarrow> (\<exists>s. conflict_vars_ok s \<and> conflict_of_vars s = Inr c \<and>
    encode_file ObjectType.Conflict (encode_record (conflict_fields s)) [] = Some bs)"
proof
  assume "conflict_decode bs = Inr c"
  then obtain header s r where
    c: "encode_file ObjectType.Conflict header [] = Some bs" "conflict_of_vars s = Inr c"
      "read_map conflict_field conflict_vars0 (new_reader header) = Inr (s, r)" "at_end r"
    by (auto simp: conflict_decode_def and_then_Inr_iff parse_file_iff)
  then show "\<exists>s. conflict_vars_ok s \<and> conflict_of_vars s = Inr c \<and>
      encode_file ObjectType.Conflict (encode_record (conflict_fields s)) [] = Some bs"
    using conflict_rec.whole.header_sound [OF encode_file_header_short [OF c(1)] c(3,4)] by blast
next
  assume "\<exists>s. conflict_vars_ok s \<and> conflict_of_vars s = Inr c \<and>
      encode_file ObjectType.Conflict (encode_record (conflict_fields s)) [] = Some bs"
  then obtain s where s: "conflict_vars_ok s" "conflict_of_vars s = Inr c"
      and f: "encode_file ObjectType.Conflict (encode_record (conflict_fields s)) [] = Some bs" by blast
  obtain r where "read_map conflict_field conflict_vars0 (new_reader (encode_record (conflict_fields s))) = Inr (s, r)" "at_end r"
    using conflict_rec.whole.header_complete [OF encode_file_header_short [OF f] s(1)] by auto
  then show "conflict_decode bs = Inr c"
    using f [folded parse_file_iff] s(2) by (simp add: conflict_decode_def)
qed

definition path_vars_of :: "ConflictPath \<Rightarrow> PathVars" where
  "path_vars_of p = \<lparr>pv_path = Some (cp_path p), pv_a = Some (cp_a p), pv_b = Some (cp_b p), pv_base = Some (cp_base p)\<rparr>"

definition conflict_vars_of :: "Conflict \<Rightarrow> ConflictVars" where
  "conflict_vars_of c = \<lparr>kv_bases = Some (k_bases c), kv_ours = Some (k_ours c), kv_theirs = Some (k_theirs c),
     kv_paths = Some (map path_vars_of (k_paths c)), kv_causal = Some (k_causal c)\<rparr>"

lemma path_cbor_record: "path_cbor p = path_vars_enc (path_vars_of p)"
  by (simp add: path_cbor_def path_vars_enc_def encode_record_def path_fields_def path_vars_of_def)

lemma conflict_encode_record:
  "conflict_encode c = encode_file ObjectType.Conflict (encode_record (conflict_fields (conflict_vars_of c))) []"
  by (simp add: conflict_encode_def encode_record_def conflict_fields_def conflict_vars_of_def encode_array_def
      id_array_cbor_def encode_oid_def [abs_def] comp_def path_cbor_record [symmetric])

lemma path_of_vars_of [simp]: "path_of_vars (path_vars_of p) = p"
  by (simp add: path_of_vars_def path_vars_of_def)

lemma conflict_of_vars_of: "conflict_of_vars (conflict_vars_of c) = Inr c"
  by (simp add: conflict_of_vars_def conflict_vars_of_def unwrap_or_default_def comp_def)

lemma conflict_vars_of_ok:
  "conflict_vars_ok (conflict_vars_of c) \<longleftrightarrow>
    conflict_validate c = Inr () \<and> list_all (\<lambda>p. valid_str (cp_path p)) (k_paths c)"
  by (auto simp: conflict_vars_ok_def conflict_vars_of_def conflict_validate_def and_then_Inr_iff
      list_all_iff path_vars_ok_def path_vars_of_def)

lemma conflict_decode_encode:
  assumes "conflict_validate c = Inr ()" "list_all (\<lambda>p. valid_str (cp_path p)) (k_paths c)" "conflict_encode c = Some bs"
  shows "conflict_decode bs = Inr c"
  using assms conflict_of_vars_of [of c] conflict_vars_of_ok [of c] conflict_encode_record [of c]
  by (auto simp: conflict_decode_iff)

lemma small_conflict_length:
  assumes "kv_bases t = None \<or> kv_bases t = Some []" "kv_causal t = Some []" "kv_paths t = Some []"
    "kv_ours t = Some a" "kv_theirs t = Some b"
  shows "length (encode_record (conflict_fields t)) < 2 ^ 32"
  using assms length_encode_map_sorted [of "map (\<lambda>(k, v). (text_key k, v)) (present (conflict_fields t))"]
    length_encode_item(3) [of "''bases''"] length_encode_item(3) [of "''causal''"] length_encode_item(3) [of "''ours''"]
    length_encode_item(3) [of "''paths''"] length_encode_item(3) [of "''theirs''"]
    length_encode_item(6) [of a] length_encode_item(6) [of b] length_encode_item(7) [of 0]
  by (auto simp: encode_record_def conflict_fields_def encode_array_def)

text \<open>
  C39: Two different byte strings decode to the same conflict: the decoder reads a missing \<open>bases\<close>
  (or \<open>paths\<close>, or \<open>causal\<close>) as empty, so the file without the key and the file the encoder writes
  carry the same value under two object ids.
\<close>

theorem conflict_decode_not_canonical:
  "\<exists>c b b'. b \<noteq> b' \<and> conflict_decode b = Inr c \<and> conflict_decode b' = Inr c \<and> conflict_encode c = Some b"
proof -
  define c where "c = \<lparr>k_bases = [], k_ours = 1, k_theirs = 2, k_paths = [], k_causal = []\<rparr>"
  define s where "s = (conflict_vars_of c)\<lparr>kv_bases := None\<rparr>"
  have ok: "conflict_vars_ok (conflict_vars_of c)" "conflict_vars_ok s"
    "conflict_of_vars (conflict_vars_of c) = Inr c" "conflict_of_vars s = Inr c"
    by (simp_all add: s_def c_def conflict_vars_ok_def conflict_vars_of_def conflict_of_vars_def unwrap_or_default_def)
  have len: "length (encode_record (conflict_fields t)) < 2 ^ 32" if "t = conflict_vars_of c \<or> t = s" for t
    using that small_conflict_length [of t] by (auto simp: s_def c_def conflict_vars_of_def)
  then obtain b b' where b: "conflict_encode c = Some b"
      and b': "encode_file ObjectType.Conflict (encode_record (conflict_fields s)) [] = Some b'"
    by (auto simp: conflict_encode_record encode_file_def u32_try_from_def)
  have "conflict_vars_of c \<noteq> s" by (simp add: s_def conflict_vars_of_def)
  then have "encode_record (conflict_fields (conflict_vars_of c)) \<noteq> encode_record (conflict_fields s)"
    using conflict_rec.whole.enc_inj [OF ok(1,2)] len by fastforce
  then have "b \<noteq> b'"
    using parse_file_iff [of b ObjectType.Conflict] b b' by (auto simp: conflict_encode_record parse_file_iff [symmetric])
  moreover have "conflict_decode b = Inr c" "conflict_decode b' = Inr c"
    using ok b b' conflict_encode_record by (auto simp: conflict_decode_iff)
  ultimately show ?thesis using b by blast
qed

text \<open>
  Every conflict that passes \<open>validate\<close> reads back from its encoding.
\<close>

theorem conflict_roundtrip:
  assumes "conflict_validate c = Inr ()" "list_all (\<lambda>p. valid_str (cp_path p)) (k_paths c)" "conflict_encode c = Some bs"
  shows "conflict_decode bs = Inr c"
  using assms by (rule conflict_decode_encode)

theorem conflict_roundtrip_witness:
  "\<exists>bs. conflict_encode \<lparr>k_bases = [], k_ours = 1, k_theirs = 2, k_paths = [], k_causal = []\<rparr> = Some bs \<and>
    conflict_decode bs = Inr \<lparr>k_bases = [], k_ours = 1, k_theirs = 2, k_paths = [], k_causal = []\<rparr>"
proof -
  let ?c = "\<lparr>k_bases = [], k_ours = 1, k_theirs = 2, k_paths = [], k_causal = []\<rparr> :: Conflict"
  have v: "conflict_validate ?c = Inr ()" "list_all (\<lambda>p. valid_str (cp_path p)) (k_paths ?c)"
    by (simp_all add: conflict_validate_def max_conflict_items_def)
  have "conflict_encode ?c \<noteq> None"
    using small_conflict_length [of "conflict_vars_of ?c" 1 2]
    by (simp add: conflict_encode_record encode_file_def u32_try_from_def conflict_vars_of_def)
  then obtain bs where bs: "conflict_encode ?c = Some bs" by blast
  with conflict_roundtrip [OF v bs] show ?thesis by blast
qed

end
