(* ===== verification/Contributions.thy ===== *)
theory Contributions
  imports Objects
begin

text \<open>
  Contribution receipts: \<open>src/crates/forge-core/src/contribution.rs\<close>. A receipt names the base and
  the result tree, the parent commits, the paths observed with the blob each had, and the paths
  written. \<open>contribution_validate\<close> is shared by the encoder (where its errors are caller errors) and
  the decoder (where they are corruption).
\<close>

section \<open>Receipts\<close>

definition max_items :: nat where "max_items = 100000"
definition max_parents :: nat where "max_parents = 1024"
definition max_path_bytes :: nat where "max_path_bytes = 4096"
definition max_agent_bytes :: nat where "max_agent_bytes = 1024"
definition max_serialized_header_bytes :: nat where "max_serialized_header_bytes = 8 * 1024 * 1024"

record ContributionRead =
  cr_path :: string
  cr_id :: oid

record Contribution =
  co_base :: oid
  co_tree :: oid
  co_parents :: "oid list"
  co_reads :: "ContributionRead list"
  co_writes :: "string list"
  co_agent :: string
  co_ts :: u64

definition validate_path :: "string \<Rightarrow> error + unit" where
  "validate_path path =
    (if path = [] \<or> max_path_bytes < length path \<or> CHR 0x00 \<in> set path
     then Inl (Invalid ''contribution path bounds'') else Inr ())"

definition validate_sorted_unique :: "string list \<Rightarrow> error + unit" where
  "validate_sorted_unique paths =
    and_then (try_fold (\<lambda>path prev. and_then (validate_path path) (\<lambda>_.
      if (case prev of Some p \<Rightarrow> path \<le> p | None \<Rightarrow> False)
      then Inl (Invalid ''contribution paths must be bytewise sorted unique'')
      else Inr (Some path))) paths None) (\<lambda>_. Inr ())"

definition size_step :: "nat \<Rightarrow> nat \<Rightarrow> error + nat" where
  "size_step n estimated = ok_or (Invalid ''contribution size overflow'') (checked_add estimated n)"

definition contribution_validate :: "Contribution \<Rightarrow> error + unit" where
  "contribution_validate c =
    (if max_parents < length (co_parents c) \<or> max_items < length (co_reads c) \<or> max_items < length (co_writes c)
     then Inl (Invalid ''contribution fanout exceeds limit'')
     else if co_agent c = [] \<or> max_agent_bytes < length (co_agent c)
     then Inl (Invalid ''contribution agent bounds'')
     else
       and_then (ok_or (Invalid ''contribution size overflow'')
         (Option.bind (checked_add 1024 (length (co_agent c)))
           (\<lambda>n. checked_add n (saturating_mul (length (co_parents c)) 40)))) (\<lambda>estimated.
       and_then (try_fold (\<lambda>rd. size_step (saturating_add (length (cr_path rd)) 64)) (co_reads c) estimated) (\<lambda>estimated.
       and_then (try_fold (\<lambda>path. size_step (saturating_add (length path) 8)) (co_writes c) estimated) (\<lambda>estimated.
       if max_serialized_header_bytes < estimated
       then Inl (Invalid ''contribution exceeds serialized size limit'')
       else and_then (validate_sorted_unique (map cr_path (co_reads c))) (\<lambda>_.
         validate_sorted_unique (co_writes c))))))"

definition read_cbor :: "ContributionRead \<Rightarrow> bytes" where
  "read_cbor rd = encode_map_sorted
    [(text_key ''id'', encode_bytes (oid_bytes (cr_id rd))), (text_key ''p'', encode_text (cr_path rd))]"

definition contribution_header :: "Contribution \<Rightarrow> bytes" where
  "contribution_header c = encode_map_sorted
    [(text_key ''agent'', encode_text (co_agent c)),
     (text_key ''base'', encode_bytes (oid_bytes (co_base c))),
     (text_key ''parents'', encode_array_header (of_nat (length (co_parents c)))
        @ concat (map (\<lambda>p. encode_bytes (oid_bytes p)) (co_parents c))),
     (text_key ''reads'', encode_array_header (of_nat (length (co_reads c)))
        @ concat (map read_cbor (co_reads c))),
     (text_key ''tree'', encode_bytes (oid_bytes (co_tree c))),
     (text_key ''ts'', encode_u64 (co_ts c)),
     (text_key ''writes'', encode_array_header (of_nat (length (co_writes c)))
        @ concat (map encode_text (co_writes c)))]"

definition contribution_encode :: "Contribution \<Rightarrow> (error + bytes) option" where
  "contribution_encode c =
    (case contribution_validate c of
       Inl e \<Rightarrow> Some (Inl e)
     | Inr _ \<Rightarrow>
         let header = contribution_header c in
         if max_serialized_header_bytes < length header
         then Some (Inl (Invalid ''contribution exceeds serialized size limit''))
         else map_option Inr (encode_file ObjectType.Contribution header []))"

record ReadVars =
  rv_path :: "string option"
  rv_id :: "oid option"

definition read_field :: "string \<Rightarrow> Reader \<Rightarrow> ReadVars \<Rightarrow> error + (ReadVars \<times> Reader)" where
  "read_field k r s =
    (if k = ''p'' then into (\<lambda>v. s\<lparr>rv_path := Some v\<rparr>) (rd_text r)
     else if k = ''id'' then into (\<lambda>v. s\<lparr>rv_id := Some v\<rparr>) (bstr32 r)
     else Inl (Corrupt ''unknown contribution read key''))"

definition rd_read :: "Reader \<Rightarrow> error + (ContributionRead \<times> Reader)" where
  "rd_read r = and_then (read_map read_field \<lparr>rv_path = None, rv_id = None\<rparr> r) (\<lambda>(s, r).
    and_then (ok_or (Corrupt ''contribution read path'') (rv_path s)) (\<lambda>path.
    and_then (ok_or (Corrupt ''contribution read id'') (rv_id s)) (\<lambda>i.
    Inr (\<lparr>cr_path = path, cr_id = i\<rparr>, r))))"

record ContributionVars =
  ov_base :: "oid option"
  ov_tree :: "oid option"
  ov_parents :: "oid list option"
  ov_reads :: "ContributionRead list option"
  ov_writes :: "string list option"
  ov_agent :: "string option"
  ov_ts :: "u64 option"

definition contribution_field :: "string \<Rightarrow> Reader \<Rightarrow> ContributionVars \<Rightarrow> error + (ContributionVars \<times> Reader)" where
  "contribution_field k r s =
    (if k = ''base'' then into (\<lambda>v. s\<lparr>ov_base := Some v\<rparr>) (bstr32 r)
     else if k = ''tree'' then into (\<lambda>v. s\<lparr>ov_tree := Some v\<rparr>) (bstr32 r)
     else if k = ''parents'' then into (\<lambda>v. s\<lparr>ov_parents := Some v\<rparr>)
       (read_array max_parents (Corrupt ''contribution parent count exceeds limit'') bstr32 r)
     else if k = ''reads'' then into (\<lambda>v. s\<lparr>ov_reads := Some v\<rparr>)
       (read_array max_items (Corrupt ''contribution read count exceeds limit'') rd_read r)
     else if k = ''writes'' then into (\<lambda>v. s\<lparr>ov_writes := Some v\<rparr>)
       (read_array max_items (Corrupt ''contribution write count exceeds limit'') rd_text r)
     else if k = ''agent'' then into (\<lambda>v. s\<lparr>ov_agent := Some v\<rparr>) (rd_text r)
     else if k = ''ts'' then into (\<lambda>v. s\<lparr>ov_ts := Some v\<rparr>) (rd_u64 r)
     else Inl (Corrupt ''unknown contribution key''))"

definition contribution_vars0 :: ContributionVars where
  "contribution_vars0 = \<lparr>ov_base = None, ov_tree = None, ov_parents = None, ov_reads = None,
     ov_writes = None, ov_agent = None, ov_ts = None\<rparr>"

definition contribution_of_vars :: "ContributionVars \<Rightarrow> error + Contribution" where
  "contribution_of_vars s =
    and_then (ok_or (Corrupt ''contribution base'') (ov_base s)) (\<lambda>base.
    and_then (ok_or (Corrupt ''contribution tree'') (ov_tree s)) (\<lambda>tree.
    and_then (ok_or (Corrupt ''contribution parents'') (ov_parents s)) (\<lambda>parents.
    and_then (ok_or (Corrupt ''contribution reads'') (ov_reads s)) (\<lambda>rds.
    and_then (ok_or (Corrupt ''contribution writes'') (ov_writes s)) (\<lambda>writes.
    and_then (ok_or (Corrupt ''contribution agent'') (ov_agent s)) (\<lambda>agent.
    and_then (ok_or (Corrupt ''contribution ts'') (ov_ts s)) (\<lambda>ts.
    Inr \<lparr>co_base = base, co_tree = tree, co_parents = parents, co_reads = rds, co_writes = writes,
      co_agent = agent, co_ts = ts\<rparr>)))))))"

definition contribution_decode :: "bytes \<Rightarrow> (error + Contribution) option" where
  "contribution_decode bs =
    (if saturating_add max_serialized_header_bytes 5 < length bs
     then Some (Inl (Corrupt ''contribution exceeds serialized size limit''))
     else case and_then (parse_file bs) (\<lambda>(ty, header, payload).
         if max_serialized_header_bytes < length header
         then Inl (Corrupt ''contribution exceeds serialized size limit'')
         else if ty \<noteq> ObjectType.Contribution then Inl (Corrupt ''not a contribution'')
         else if payload \<noteq> [] then Inl (Corrupt ''contribution has payload'')
         else and_then (read_map contribution_field contribution_vars0 (new_reader header)) (\<lambda>(s, r).
           if \<not> at_end r then Inl (Corrupt ''contribution header trailing bytes'')
           else and_then (contribution_of_vars s) (\<lambda>v.
             and_then (map_err (\<lambda>e. Corrupt (error_string e)) (contribution_validate v)) (\<lambda>_. Inr v)))) of
       Inl e \<Rightarrow> Some (Inl e)
     | Inr v \<Rightarrow>
         (case contribution_encode v of
            None \<Rightarrow> None
          | Some (Inl e) \<Rightarrow> Some (Inl e)
          | Some (Inr enc) \<Rightarrow>
              if enc \<noteq> bs then Some (Inl (Corrupt ''non-canonical contribution encoding''))
              else Some (Inr v)))"

section \<open>The receipt codec\<close>

definition read_fields :: "ReadVars \<Rightarrow> (string \<times> bytes option) list" where
  "read_fields s = [(''id'', map_option encode_oid (rv_id s)), (''p'', map_option encode_text (rv_path s))]"

interpretation read_rec: record_codec read_field "\<lparr>rv_path = None, rv_id = None\<rparr>" read_fields "[''id'', ''p'']"
  "\<lambda>s. pred_option valid_str (rv_path s)"
proof unfold_locales
  fix r :: Reader and s s' :: ReadVars and k r'
  assume "rd_ok r" "pred_option valid_str (rv_path s)" "read_field k r s = Inr (s', r')"
  then show "\<exists>v. at_bytes r v \<and> v \<noteq> [] \<and> r' = adv r (length v) \<and> pred_option valid_str (rv_path s') \<and>
      (\<forall>j. map_of (read_fields s') j = (if j = k then Some (Some v) else map_of (read_fields s) j))"
    by (auto simp: read_field_def into_Inr_iff item_readers read_fields_def split: if_splits)
next
  fix r :: Reader and s t :: ReadVars and k v
  assume "rd_ok r" "pred_option valid_str (rv_path t)" "map_of (read_fields t) k = Some (Some v)" "at_bytes r v"
  then show "\<exists>s'. read_field k r s = Inr (s', adv r (length v))"
    by (auto simp: read_field_def into_Inr_iff item_readers read_fields_def split: if_splits)
next
  fix s t :: ReadVars
  assume "pred_option valid_str (rv_path s)" "pred_option valid_str (rv_path t)" "read_fields s = read_fields t"
    "list_all (pred_option short \<circ> snd) (read_fields s)"
  then show "s = t"
    by (intro ReadVars.equality) (auto simp: read_fields_def option.pred_True intro: item_inj)
qed (auto simp: read_fields_def Some_eq_map_option ascii_char_def intro!: valid_str_ascii)

definition read_vars_of :: "ContributionRead \<Rightarrow> ReadVars" where
  "read_vars_of x = \<lparr>rv_path = Some (cr_path x), rv_id = Some (cr_id x)\<rparr>"

lemma read_cbor_record: "read_cbor x = encode_record (read_fields (read_vars_of x))"
  by (simp add: read_cbor_def encode_record_def read_fields_def read_vars_of_def encode_oid_def)

interpretation read_item: item_codec read_cbor rd_read "\<lambda>x. valid_str (cr_path x)"
proof unfold_locales
  fix r :: Reader and x r'
  assume r: "rd_ok r"
  have "rd_read r = Inr (x, r') \<longleftrightarrow> read_map read_field \<lparr>rv_path = None, rv_id = None\<rparr> r = Inr (read_vars_of x, r')"
    by (cases x) (auto simp: rd_read_def and_then_Inr_iff read_vars_of_def)
  then show "rd_read r = Inr (x, r') \<longleftrightarrow>
      valid_str (cr_path x) \<and> at_bytes r (read_cbor x) \<and> r' = adv r (length (read_cbor x))"
    using r by (simp add: read_rec.whole.rd_iff read_cbor_record) (simp add: read_vars_of_def)
qed (simp add: read_cbor_record)

interpretation reads_item: item_codec "encode_array read_cbor" "read_array n err rd_read"
  "\<lambda>xs. length xs \<le> n \<and> list_all (\<lambda>x. valid_str (cr_path x)) xs" for n err
  by unfold_locales (simp_all add: read_item.read_array_iff)

interpretation texts_item: item_codec "encode_array encode_text" "read_array n err rd_text"
  "\<lambda>xs. length xs \<le> n \<and> list_all valid_str xs" for n err
  by unfold_locales (simp_all add: text_item.read_array_iff)

definition contribution_fields :: "ContributionVars \<Rightarrow> (string \<times> bytes option) list" where
  "contribution_fields s =
    [(''agent'', map_option encode_text (ov_agent s)),
     (''base'', map_option encode_oid (ov_base s)),
     (''parents'', map_option (encode_array encode_oid) (ov_parents s)),
     (''reads'', map_option (encode_array read_cbor) (ov_reads s)),
     (''tree'', map_option encode_oid (ov_tree s)),
     (''ts'', map_option encode_u64 (ov_ts s)),
     (''writes'', map_option (encode_array encode_text) (ov_writes s))]"

definition contribution_vars_ok :: "ContributionVars \<Rightarrow> bool" where
  "contribution_vars_ok s \<longleftrightarrow> pred_option valid_str (ov_agent s) \<and>
    pred_option (\<lambda>ps. length ps \<le> max_parents) (ov_parents s) \<and>
    pred_option (\<lambda>xs. length xs \<le> max_items \<and> list_all (\<lambda>x. valid_str (cr_path x)) xs) (ov_reads s) \<and>
    pred_option (\<lambda>xs. length xs \<le> max_items \<and> list_all valid_str xs) (ov_writes s)"

interpretation contribution_rec: record_codec contribution_field contribution_vars0 contribution_fields
  "[''agent'', ''base'', ''parents'', ''reads'', ''tree'', ''ts'', ''writes'']" contribution_vars_ok
proof unfold_locales
  fix r :: Reader and s s' :: ContributionVars and k r'
  assume "rd_ok r" "contribution_vars_ok s" "contribution_field k r s = Inr (s', r')"
  then show "\<exists>v. at_bytes r v \<and> v \<noteq> [] \<and> r' = adv r (length v) \<and> contribution_vars_ok s' \<and>
      (\<forall>j. map_of (contribution_fields s') j = (if j = k then Some (Some v) else map_of (contribution_fields s) j))"
    by (auto simp: contribution_field_def into_Inr_iff item_readers reads_item.rd_iff texts_item.rd_iff
        contribution_fields_def contribution_vars_ok_def split: if_splits)
next
  fix r :: Reader and s t :: ContributionVars and k v
  assume "rd_ok r" "contribution_vars_ok t" "map_of (contribution_fields t) k = Some (Some v)" "at_bytes r v"
  then show "\<exists>s'. contribution_field k r s = Inr (s', adv r (length v))"
    by (auto simp: contribution_field_def into_Inr_iff item_readers reads_item.rd_iff texts_item.rd_iff
        contribution_fields_def contribution_vars_ok_def split: if_splits)
next
  fix s t :: ContributionVars
  assume "contribution_vars_ok s" "contribution_vars_ok t" "contribution_fields s = contribution_fields t"
    "list_all (pred_option short \<circ> snd) (contribution_fields s)"
  then show "s = t"
    by (intro ContributionVars.equality)
       (auto simp: contribution_fields_def contribution_vars_ok_def option.pred_True
          intro: item_inj reads_item.opt_inj texts_item.opt_inj)
qed (auto simp: contribution_fields_def Some_eq_map_option ascii_char_def contribution_vars0_def
    contribution_vars_ok_def intro!: valid_str_ascii)

definition contribution_vars_of :: "Contribution \<Rightarrow> ContributionVars" where
  "contribution_vars_of c = \<lparr>ov_base = Some (co_base c), ov_tree = Some (co_tree c), ov_parents = Some (co_parents c),
     ov_reads = Some (co_reads c), ov_writes = Some (co_writes c), ov_agent = Some (co_agent c), ov_ts = Some (co_ts c)\<rparr>"

lemma contribution_header_record:
  "contribution_header c = encode_record (contribution_fields (contribution_vars_of c))"
  by (simp add: contribution_header_def encode_record_def contribution_fields_def contribution_vars_of_def
      encode_array_def encode_oid_def [abs_def])

lemma contribution_of_vars_iff: "contribution_of_vars s = Inr c \<longleftrightarrow> s = contribution_vars_of c"
  by (cases s; cases c) (auto simp: contribution_of_vars_def contribution_vars_of_def and_then_Inr_iff)

text \<open>Every Rust \<open>String\<close> of a receipt is UTF-8.\<close>

definition contribution_strs :: "Contribution \<Rightarrow> bool" where
  "contribution_strs c \<longleftrightarrow> valid_str (co_agent c) \<and> list_all (\<lambda>x. valid_str (cr_path x)) (co_reads c) \<and>
    list_all valid_str (co_writes c)"

lemma contribution_encode_Some:
  "contribution_encode c = Some (Inr bs) \<longleftrightarrow> contribution_validate c = Inr () \<and>
    length (contribution_header c) \<le> max_serialized_header_bytes \<and>
    encode_file ObjectType.Contribution (contribution_header c) [] = Some bs"
  by (auto simp: contribution_encode_def Let_def split: sum.splits)

lemma contribution_validate_limits:
  "contribution_validate c = Inr u \<Longrightarrow>
    length (co_parents c) \<le> max_parents \<and> length (co_reads c) \<le> max_items \<and> length (co_writes c) \<le> max_items"
  by (auto simp: contribution_validate_def)

lemma contribution_decode_iff:
  "contribution_decode bs = Some (Inr c) \<longleftrightarrow> contribution_strs c \<and> contribution_encode c = Some (Inr bs)"
proof
  assume "contribution_decode bs = Some (Inr c)"
  then obtain header s r where
    c: "encode_file ObjectType.Contribution header [] = Some bs" "s = contribution_vars_of c"
      "read_map contribution_field contribution_vars0 (new_reader header) = Inr (s, r)" "at_end r"
      "contribution_encode c = Some (Inr bs)"
    by (auto simp: contribution_decode_def and_then_Inr_iff parse_file_iff contribution_of_vars_iff
        split: if_splits sum.splits option.splits)
  then show "contribution_strs c \<and> contribution_encode c = Some (Inr bs)"
    using contribution_rec.whole.header_sound [OF encode_file_header_short [OF c(1)] c(3,4)]
    by (auto simp: contribution_vars_ok_def contribution_vars_of_def contribution_strs_def)
next
  assume a: "contribution_strs c \<and> contribution_encode c = Some (Inr bs)"
  then have v: "contribution_validate c = Inr ()"
    and l: "length (contribution_header c) \<le> max_serialized_header_bytes"
    and f: "encode_file ObjectType.Contribution (encode_record (contribution_fields (contribution_vars_of c))) [] = Some bs"
    by (simp_all add: contribution_encode_Some contribution_header_record)
  have "contribution_vars_ok (contribution_vars_of c)"
    using a contribution_validate_limits [OF v]
    by (auto simp: contribution_vars_ok_def contribution_vars_of_def contribution_strs_def)
  then obtain r where "read_map contribution_field contribution_vars0
      (new_reader (encode_record (contribution_fields (contribution_vars_of c)))) = Inr (contribution_vars_of c, r)" "at_end r"
    using contribution_rec.whole.header_complete [OF encode_file_header_short [OF f]] by auto
  moreover have "contribution_of_vars (contribution_vars_of c) = Inr c" by (simp add: contribution_of_vars_iff)
  moreover have "length bs = length (contribution_header c) + 5"
    using f by (auto simp: encode_file_Some contribution_header_record)
  ultimately show "contribution_decode bs = Some (Inr c)"
    using f [folded parse_file_iff] a v l
    by (simp add: contribution_decode_def contribution_header_record saturating_add_def max_serialized_header_bytes_def)
qed

section \<open>Properties\<close>

text \<open>
  The receipt decoder accepts exactly the encodings of valid receipts. The check that re-encodes
  the decoded value never rejects anything the key loop accepted, and encoding never panics on it.
\<close>

theorem contribution_codec_exact:
  "contribution_decode bs = Some (Inr c) \<longleftrightarrow> contribution_strs c \<and> contribution_encode c = Some (Inr bs)"
  by (rule contribution_decode_iff)

end
