(* ===== verification/Object_Store.thy ===== *)
theory Object_Store
  imports Overlay Conflicts Contributions
begin

text \<open>
  The object plane: the contract of \<open>src/crates/forge-store/src/objectstore.rs\<close> on its reference
  backend \<open>src/crates/forge-store/src/objectstore/memory.rs\<close>, and the typed reads and writes of
  \<open>src/crates/forge-store/src/lib.rs\<close> on top of it.

  BLAKE3 is the argument \<open>H\<close>. Nothing assumes that \<open>H\<close> is injective; where an object must be
  recovered from its id, the hypothesis is that the byte strings at hand do not collide.
  The two LRU caches of \<open>Store\<close> are left out: they hold copies keyed by content id.
  Publication is two-phase: \<open>put_parts\<close> makes bytes visible, \<open>finish\<close> proves the names a batch owes.
\<close>

section \<open>The memory backend\<close>

record BlobStoreStats =
  st_puts :: nat
  st_dedup_hits :: nat
  st_fsync_file :: nat
  st_fsync_file_us :: nat
  st_fsync_dir :: nat
  st_fsync_dir_us :: nat

record MemoryObjectStore =
  visible :: "oid \<Rightarrow> bytes option"
  durable :: "oid set"
  stats :: BlobStoreStats
  read_only :: bool

record MemoryBatch =
  owed :: "oid set"
  new_puts :: nat
  new_dedup :: nat

definition hash_parts :: "(bytes \<Rightarrow> oid) \<Rightarrow> bytes list \<Rightarrow> oid" where
  "hash_parts H parts = H (concat parts)"

definition memory_store_new :: "bool \<Rightarrow> MemoryObjectStore" where
  "memory_store_new ro = \<lparr>visible = Map.empty, durable = {},
     stats = \<lparr>st_puts = 0, st_dedup_hits = 0, st_fsync_file = 0, st_fsync_file_us = 0, st_fsync_dir = 0, st_fsync_dir_us = 0\<rparr>,
     read_only = ro\<rparr>"

definition begin_batch :: MemoryBatch where
  "begin_batch = \<lparr>owed = {}, new_puts = 0, new_dedup = 0\<rparr>"

definition file_barrier :: "BlobStoreStats \<Rightarrow> BlobStoreStats" where
  "file_barrier s = s\<lparr>st_fsync_file := st_fsync_file s + 1, st_fsync_file_us := st_fsync_file_us s + 1\<rparr>"

definition put_parts ::
  "(bytes \<Rightarrow> oid) \<Rightarrow> bytes list \<Rightarrow> MemoryObjectStore \<times> MemoryBatch \<Rightarrow> (error + oid) \<times> (MemoryObjectStore \<times> MemoryBatch)" where
  "put_parts H parts = (\<lambda>(st, b).
    if read_only st then (Inl (Denied ''repository is open read-only; objects cannot be published''), (st, b))
    else let i = hash_parts H parts in
    case visible st i of
      Some existing \<Rightarrow>
        if H existing \<noteq> i then (Inl (Corrupt ''existing object does not match its id''), (st, b))
        else let b = b\<lparr>new_dedup := new_dedup b + 1\<rparr> in
          if i \<in> durable st then (Inr i, (st, b))
          else (Inr i, (st\<lparr>stats := file_barrier (stats st)\<rparr>, b\<lparr>owed := insert i (owed b)\<rparr>))
    | None \<Rightarrow>
        (Inr i, (st\<lparr>visible := (visible st)(i \<mapsto> concat parts), stats := file_barrier (stats st)\<rparr>,
          b\<lparr>owed := insert i (owed b), new_puts := new_puts b + 1\<rparr>)))"

definition batch_put :: "(bytes \<Rightarrow> oid) \<Rightarrow> bytes \<Rightarrow> MemoryObjectStore \<times> MemoryBatch \<Rightarrow> (error + oid) \<times> (MemoryObjectStore \<times> MemoryBatch)" where
  "batch_put H bs = put_parts H [bs]"

definition batch_finish :: "MemoryObjectStore \<times> MemoryBatch \<Rightarrow> MemoryObjectStore" where
  "batch_finish = (\<lambda>(st, b).
    let s = stats st;
        s = (if owed b \<noteq> {} then s\<lparr>st_fsync_dir := st_fsync_dir s + 1, st_fsync_dir_us := st_fsync_dir_us s + 1\<rparr> else s)
    in st\<lparr>durable := durable st \<union> owed b,
          stats := s\<lparr>st_puts := st_puts s + new_puts b, st_dedup_hits := st_dedup_hits s + new_dedup b\<rparr>\<rparr>)"

definition store_get :: "(bytes \<Rightarrow> oid) \<Rightarrow> oid \<Rightarrow> MemoryObjectStore \<Rightarrow> error + bytes" where
  "store_get H i st = and_then (ok_or (NotFound ''object'') (visible st i)) (\<lambda>bs.
    if H bs \<noteq> i then Inl (Corrupt ''hash mismatch'') else Inr bs)"

definition store_has :: "oid \<Rightarrow> MemoryObjectStore \<Rightarrow> bool" where
  "store_has i st \<longleftrightarrow> visible st i \<noteq> None"

definition verify_blob :: "(bytes \<Rightarrow> oid) \<Rightarrow> oid \<Rightarrow> MemoryObjectStore \<Rightarrow> error + unit" where
  "verify_blob H i st = and_then (store_get H i st) (\<lambda>bs. and_then (blob_decode bs) (\<lambda>_. Inr ()))"

definition store_put_parts :: "(bytes \<Rightarrow> oid) \<Rightarrow> bytes list \<Rightarrow> MemoryObjectStore \<Rightarrow> (error + oid) \<times> MemoryObjectStore" where
  "store_put_parts H parts st =
    (case put_parts H parts (st, begin_batch) of
       (Inl e, (st, b)) \<Rightarrow> (Inl e, st)
     | (Inr i, (st, b)) \<Rightarrow> (Inr i, batch_finish (st, b)))"

definition store_put :: "(bytes \<Rightarrow> oid) \<Rightarrow> bytes \<Rightarrow> MemoryObjectStore \<Rightarrow> (error + oid) \<times> MemoryObjectStore" where
  "store_put H bs = store_put_parts H [bs]"

section \<open>Typed objects\<close>

definition put_blob_data :: "(bytes \<Rightarrow> oid) \<Rightarrow> bytes \<Rightarrow> MemoryObjectStore \<Rightarrow> ((error + oid) \<times> MemoryObjectStore) option" where
  "put_blob_data H d st = map_option (\<lambda>p. store_put_parts H [p, d] st) (blob_frame_prefix (of_nat (length d)))"

definition get_blob_data :: "(bytes \<Rightarrow> oid) \<Rightarrow> oid \<Rightarrow> MemoryObjectStore \<Rightarrow> error + bytes" where
  "get_blob_data H i st = and_then (store_get H i st) (\<lambda>bs. and_then (blob_decode bs) (\<lambda>b. Inr (data b)))"

definition get_tree :: "(bytes \<Rightarrow> oid) \<Rightarrow> oid \<Rightarrow> MemoryObjectStore \<Rightarrow> error + Tree" where
  "get_tree H i st = and_then (store_get H i st) tree_decode"

definition get_commit :: "(bytes \<Rightarrow> oid) \<Rightarrow> oid \<Rightarrow> MemoryObjectStore \<Rightarrow> error + Commit" where
  "get_commit H i st = and_then (store_get H i st) commit_decode"

definition get_conflict :: "(bytes \<Rightarrow> oid) \<Rightarrow> oid \<Rightarrow> MemoryObjectStore \<Rightarrow> error + Conflict" where
  "get_conflict H i st = and_then (store_get H i st) conflict_decode"

definition get_snapshot :: "(bytes \<Rightarrow> oid) \<Rightarrow> oid \<Rightarrow> MemoryObjectStore \<Rightarrow> error + Snapshot" where
  "get_snapshot H i st = and_then (store_get H i st) snapshot_decode"

definition object_type :: "(bytes \<Rightarrow> oid) \<Rightarrow> oid \<Rightarrow> MemoryObjectStore \<Rightarrow> error + ObjectType" where
  "object_type H i st = and_then (store_get H i st) decode_object_type"

definition put_commit :: "(bytes \<Rightarrow> oid) \<Rightarrow> Commit \<Rightarrow> MemoryObjectStore \<Rightarrow> ((error + oid) \<times> MemoryObjectStore) option" where
  "put_commit H c st = map_option (\<lambda>bs. store_put H bs st) (commit_encode c)"

definition put_snapshot :: "(bytes \<Rightarrow> oid) \<Rightarrow> Snapshot \<Rightarrow> MemoryObjectStore \<Rightarrow> ((error + oid) \<times> MemoryObjectStore) option" where
  "put_snapshot H s st = map_option (\<lambda>bs. store_put H bs st) (snapshot_encode s)"

definition put_conflict :: "(bytes \<Rightarrow> oid) \<Rightarrow> Conflict \<Rightarrow> MemoryObjectStore \<Rightarrow> ((error + oid) \<times> MemoryObjectStore) option" where
  "put_conflict H c st =
    (case conflict_validate c of
       Inl e \<Rightarrow> Some (Inl e, st)
     | Inr _ \<Rightarrow> map_option (\<lambda>bs. store_put H bs st) (conflict_encode c))"

text \<open>A publication in progress: \<open>StorePublishBatch\<close>, with the byte strings it has offered so far (a ghost).\<close>

record Publication =
  p_store :: MemoryObjectStore
  p_batch :: MemoryBatch
  p_seen :: "bytes set"

definition batch_put_tree :: "(bytes \<Rightarrow> oid) \<Rightarrow> Tree \<Rightarrow> Publication \<Rightarrow> (error + oid) \<times> Publication" where
  "batch_put_tree H t p =
    (case the (tree_encode t) of
       Inl e \<Rightarrow> (Inl e, p)
     | Inr bs \<Rightarrow>
         (case batch_put H bs (p_store p, p_batch p) of (r, (st, b)) \<Rightarrow>
           (r, p\<lparr>p_store := st, p_batch := b, p_seen := insert bs (p_seen p)\<rparr>)))"

definition batch_get_tree :: "(bytes \<Rightarrow> oid) \<Rightarrow> oid \<Rightarrow> Publication \<Rightarrow> error + Tree" where
  "batch_get_tree H i p = get_tree H i (p_store p)"

section \<open>Encoding a tree never panics\<close>

lemma length_entry_cbor:
  assumes "validate_name (e_name e) = Inr ()"
  shows "length (entry_cbor e) \<le> 400"
proof -
  have n: "length (e_name e) \<le> 255" using validate_name_str [OF assms] by simp
  show ?thesis
    using n length_encode_map_sorted [of "[(text_key ''id'', encode_bytes (oid_bytes (e_id e))),
        (text_key ''k'', encode_u64 (ucast (entry_kind_byte (e_kind e)))),
        (text_key ''n'', encode_text (e_name e)), (text_key ''x'', encode_bool (e_exec e))]"]
      length_encode_item(3) [of "''id''"] length_encode_item(3) [of "''k''"] length_encode_item(3) [of "''n''"]
      length_encode_item(3) [of "''x''"] length_encode_item(1) [of "oid_bytes (e_id e)"]
      length_encode_item(4) [of "ucast (entry_kind_byte (e_kind e))"] length_encode_item(2) [of "e_name e"]
      length_encode_item(5) [of "e_exec e"]
    unfolding entry_cbor_def by simp
qed

lemma tree_encode_returns: "tree_encode t \<noteq> None"
proof (cases "max_tree_entries < length (entries t)")
  case True
  then show ?thesis by (simp add: tree_encode_def)
next
  case False
  let ?es = "entries t" and ?h = "encode_array_header (of_nat (length (entries t)))"
  have "encode_file ObjectType.Tree (encode_map_sorted [(text_key ''e'', out)]) [] \<noteq> None"
    if "\<forall>e \<in> set ?es. validate_name (e_name e) = Inr ()" "out = ?h @ concat (map entry_cbor ?es)" for out
  proof -
    have "length (concat (map entry_cbor es)) \<le> 400 * length es" if "\<forall>e \<in> set es. validate_name (e_name e) = Inr ()" for es
      using that by (induction es) (auto dest: length_entry_cbor)
    then have "length out \<le> 9 + 400 * 100000"
      using that False length_encode_item(7) [of "of_nat (length ?es)"] by (fastforce simp: max_tree_entries_def)
    then have "length (encode_map_sorted [(text_key ''e'', out)]) < 2 ^ 32"
      using length_encode_map_sorted [of "[(text_key ''e'', out)]"] length_encode_item(3) [of "''e''"] by simp
    then show ?thesis by (simp add: encode_file_def u32_try_from_def)
  qed
  then show ?thesis
    using False by (auto simp: tree_encode_def dest: encode_entries_fold [THEN iffD1] split: sum.splits)
qed

lemma tree_encodes:
  assumes "tree_ok t" "length (entries t) \<le> max_tree_entries"
  shows "\<exists>bs. tree_encode t = Some (Inr bs)"
proof -
  have "\<forall>e \<in> set (entries t). validate_name (e_name e) = Inr ()" using assms(1) by (simp add: tree_ok_def)
  then have "try_fold (\<lambda>e out. and_then (validate_name (e_name e)) (\<lambda>_. Inr (out @ entry_cbor e))) (entries t)
      (encode_array_header (of_nat (length (entries t)))) =
      Inr (encode_array_header (of_nat (length (entries t))) @ concat (map entry_cbor (entries t)))"
    by (simp add: encode_entries_fold)
  then show ?thesis
    using assms(2) tree_encode_returns [of t] by (auto simp: tree_encode_def)
qed

section \<open>The tree store contract on the memory backend\<close>

definition publication_good :: "(bytes \<Rightarrow> oid) \<Rightarrow> Publication \<Rightarrow> bool" where
  "publication_good H p \<longleftrightarrow> inj_on H (ran (visible (p_store p)) \<union> p_seen p)"

lemma put_parts_keeps:
  assumes "put_parts H parts (st, b) = (r, (st', b'))" "visible st i = Some bs"
  shows "visible st' i = Some bs"
  using assms by (auto simp: put_parts_def Let_def split: if_splits option.splits)

lemma put_parts_Inr:
  assumes "put_parts H parts (st, b) = (Inr i, (st', b'))"
  shows "i = H (concat parts) \<and> (\<exists>bs. visible st' i = Some bs \<and> H bs = i) \<and>
    ran (visible st') \<subseteq> insert (concat parts) (ran (visible st))"
proof -
  have "ran ((visible st)(j \<mapsto> x)) \<subseteq> insert x (ran (visible st))" for j x by (auto simp: ran_def)
  then show ?thesis
    using assms by (auto simp: put_parts_def hash_parts_def Let_def split: if_splits option.splits)
qed

lemma put_parts_ran: "put_parts H parts (st, b) = (r, (st', b')) \<Longrightarrow> ran (visible st) \<subseteq> ran (visible st')"
  using put_parts_keeps unfolding ran_def by blast

lemma store_get_Inr: "store_get H i st = Inr bs \<longleftrightarrow> visible st i = Some bs \<and> H bs = i"
  by (auto simp: store_get_def and_then_Inr_iff)

interpretation mem: tree_store "batch_get_tree H" "batch_put_tree H" "publication_good H" for H
proof unfold_locales
  fix i st t
  assume "batch_get_tree H i st = Inr t"
  then show "tree_ok t" by (auto simp: batch_get_tree_def get_tree_def and_then_Inr_iff tree_decode_iff)
next
  fix t p r p'
  assume put: "batch_put_tree H t p = (r, p')" and good: "publication_good H p'"
  show "publication_good H p"
  proof (cases "the (tree_encode t)")
    case (Inl e)
    with put good show ?thesis by (simp add: batch_put_tree_def)
  next
    case (Inr bs)
    obtain st b where s: "put_parts H [bs] (p_store p, p_batch p) = (r, (st, b))"
        "p' = p\<lparr>p_store := st, p_batch := b, p_seen := insert bs (p_seen p)\<rparr>"
      using put Inr by (auto simp: batch_put_tree_def batch_put_def split: prod.splits)
    from put_parts_ran [OF s(1)] good show ?thesis
      unfolding publication_good_def s(2) by (auto elim!: inj_on_subset)
  qed
next
  fix t p i p'
  assume put: "batch_put_tree H t p = (Inr i, p')" and ok: "tree_ok t" and good: "publication_good H p'"
  obtain bs where enc: "tree_encode t = Some (Inr bs)"
    using put tree_encode_returns [of t] by (cases "tree_encode t"; cases "the (tree_encode t)") (auto simp: batch_put_tree_def)
  obtain st b where s: "put_parts H [bs] (p_store p, p_batch p) = (Inr i, (st, b))"
      "p' = p\<lparr>p_store := st, p_batch := b, p_seen := insert bs (p_seen p)\<rparr>"
    using put enc by (auto simp: batch_put_tree_def batch_put_def split: prod.splits)
  from put_parts_Inr [OF s(1)] obtain e where e: "visible st i = Some e" "H e = i" "i = H bs" by auto
  have "e \<in> ran (visible st)" using e(1) by (auto simp: ran_def)
  moreover have "inj_on H (ran (visible st) \<union> insert bs (p_seen p))"
    using good by (simp only: publication_good_def s(2)) simp
  ultimately have "e = bs" using e(2,3) by (metis UnI1 UnI2 inj_onD insertI1)
  then show "batch_get_tree H i p' = Inr t"
    using e ok enc by (simp add: batch_get_tree_def get_tree_def s(2) store_get_Inr and_then_Inr_iff tree_decode_iff)
next
  fix t p r p' j u
  assume put: "batch_put_tree H t p = (r, p')" and get: "batch_get_tree H j p = Inr u"
  show "batch_get_tree H j p' = Inr u"
  proof (cases "the (tree_encode t)")
    case (Inl e)
    with put get show ?thesis by (simp add: batch_put_tree_def)
  next
    case (Inr bs)
    obtain st b where s: "put_parts H [bs] (p_store p, p_batch p) = (r, (st, b))"
        "p' = p\<lparr>p_store := st, p_batch := b, p_seen := insert bs (p_seen p)\<rparr>"
      using put Inr by (auto simp: batch_put_tree_def batch_put_def split: prod.splits)
    then show ?thesis
      using get put_parts_keeps [OF s(1)]
      by (auto simp: batch_get_tree_def get_tree_def and_then_Inr_iff store_get_Inr)
  qed
qed

section \<open>Two-phase publication by concurrent batches\<close>

text \<open>
  Several batches work on one store, their operations interleaved in any order. \<open>w_returned\<close> records
  the ids a batch's puts returned, \<open>w_named\<close> the ids of finished batches: the ids a ref may name.
\<close>

record World =
  w_store :: MemoryObjectStore
  w_batches :: "nat \<Rightarrow> MemoryBatch option"
  w_returned :: "nat \<Rightarrow> oid set"
  w_named :: "oid set"

definition world_init :: "bool \<Rightarrow> World" where
  "world_init ro = \<lparr>w_store = memory_store_new ro, w_batches = Map.empty, w_returned = (\<lambda>_. {}), w_named = {}\<rparr>"

inductive publish_step :: "(bytes \<Rightarrow> oid) \<Rightarrow> World \<Rightarrow> World \<Rightarrow> bool" for H where
  Begin: "w_batches w n = None \<Longrightarrow>
    publish_step H w (w\<lparr>w_batches := (w_batches w)(n \<mapsto> begin_batch), w_returned := (w_returned w)(n := {})\<rparr>)"
| Put: "w_batches w n = Some b \<Longrightarrow> put_parts H parts (w_store w, b) = (Inr i, (st, b')) \<Longrightarrow>
    publish_step H w (w\<lparr>w_store := st, w_batches := (w_batches w)(n \<mapsto> b'),
      w_returned := (w_returned w)(n := insert i (w_returned w n))\<rparr>)"
| Put_err: "w_batches w n = Some b \<Longrightarrow> put_parts H parts (w_store w, b) = (Inl e, (st, b')) \<Longrightarrow>
    publish_step H w (w\<lparr>w_store := st, w_batches := (w_batches w)(n \<mapsto> b')\<rparr>)"
| Finish: "w_batches w n = Some b \<Longrightarrow>
    publish_step H w (w\<lparr>w_store := batch_finish (w_store w, b), w_batches := (w_batches w)(n := None),
      w_named := w_named w \<union> w_returned w n\<rparr>)"
| Drop: "w_batches w n = Some b \<Longrightarrow> publish_step H w (w\<lparr>w_batches := (w_batches w)(n := None)\<rparr>)"

inductive_cases publish_stepE: "publish_step H w w'"

definition world_inv :: "(bytes \<Rightarrow> oid) \<Rightarrow> World \<Rightarrow> bool" where
  "world_inv H w \<longleftrightarrow>
    (\<forall>i bs. visible (w_store w) i = Some bs \<longrightarrow> H bs = i) \<and>
    durable (w_store w) \<subseteq> dom (visible (w_store w)) \<and>
    (\<forall>n b. w_batches w n = Some b \<longrightarrow> owed b \<subseteq> dom (visible (w_store w)) \<and> w_returned w n \<subseteq> owed b \<union> durable (w_store w)) \<and>
    w_named w \<subseteq> durable (w_store w)"

lemma put_parts_effect:
  assumes "put_parts H parts (st, b) = (r, (st', b'))" "\<forall>i bs. visible st i = Some bs \<longrightarrow> H bs = i"
  shows "\<forall>i bs. visible st' i = Some bs \<longrightarrow> H bs = i" "durable st' = durable st"
    "dom (visible st) \<subseteq> dom (visible st')" "owed b \<subseteq> owed b'"
    "owed b' \<subseteq> owed b \<union> dom (visible st')"
    "r = Inr i \<Longrightarrow> i \<in> owed b' \<union> durable st'"
  using assms by (auto simp: put_parts_def hash_parts_def Let_def split: if_splits option.splits)

lemma world_inv_step: "publish_step H w w' \<Longrightarrow> world_inv H w \<Longrightarrow> world_inv H w'"
proof (induction rule: publish_step.induct)
  case (Begin w n)
  then show ?case by (auto simp: world_inv_def begin_batch_def)
next
  case (Put w n b parts i st b')
  have v: "\<forall>i bs. visible (w_store w) i = Some bs \<longrightarrow> H bs = i" using Put.prems by (simp add: world_inv_def)
  note e = put_parts_effect [OF Put.hyps(2) v]
  have "w_returned w n \<subseteq> owed b \<union> durable (w_store w)" "owed b \<subseteq> dom (visible (w_store w))"
    using Put.prems Put.hyps(1) by (auto simp: world_inv_def)
  with Put.prems e show ?case
    unfolding world_inv_def by (simp add: e(1,2)) (use e(3-6) in blast)
next
  case (Put_err w n b parts err st b')
  have v: "\<forall>i bs. visible (w_store w) i = Some bs \<longrightarrow> H bs = i" using Put_err.prems by (simp add: world_inv_def)
  note e = put_parts_effect [OF Put_err.hyps(2) v]
  have "w_returned w n \<subseteq> owed b \<union> durable (w_store w)" "owed b \<subseteq> dom (visible (w_store w))"
    using Put_err.prems Put_err.hyps(1) by (auto simp: world_inv_def)
  with Put_err.prems e show ?case
    unfolding world_inv_def by (simp add: e(1,2)) (use e(3-5) in blast)
next
  case (Finish w n b)
  then have "w_returned w n \<subseteq> owed b \<union> durable (w_store w)" "owed b \<subseteq> dom (visible (w_store w))"
    by (auto simp: world_inv_def)
  with Finish.prems show ?case
    unfolding world_inv_def by (simp add: batch_finish_def Let_def) blast
next
  case (Drop w n b)
  then show ?case by (auto simp: world_inv_def)
qed

lemma world_inv_reachable:
  assumes "(publish_step H)\<^sup>*\<^sup>* (world_init ro) w"
  shows "world_inv H w"
  using assms
proof (induction rule: rtranclp_induct)
  case base
  then show ?case by (simp add: world_inv_def world_init_def memory_store_new_def)
next
  case (step y z)
  then show ?case using world_inv_step by blast
qed

section \<open>Properties\<close>

text \<open>
  C10: Whatever the interleaving of concurrent batches, an id that a finished batch returned is durable
  and its bytes are readable and hash to it. A batch that joins an object another, unfinished batch made
  visible proves it again before it finishes; a dropped batch proves nothing.
\<close>

theorem finished_ids_durable:
  assumes "(publish_step H)\<^sup>*\<^sup>* (world_init ro) w" and "i \<in> w_named w"
  shows "i \<in> durable (w_store w) \<and> (\<exists>bs. store_get H i (w_store w) = Inr bs \<and> H bs = i)"
  using world_inv_reachable [OF assms(1)] assms(2) by (auto simp: world_inv_def store_get_Inr)

theorem finished_ids_durable_witness:
  "\<exists>w. (publish_step (\<lambda>bs. of_nat (length bs)))\<^sup>*\<^sup>* (world_init False) w \<and>
    2 \<in> durable (w_store w) \<and> (\<exists>bs. store_get (\<lambda>bs. of_nat (length bs)) 2 (w_store w) = Inr bs)"
proof -
  let ?H = "\<lambda>bs :: bytes. of_nat (length bs) :: oid"
  define w1 where "w1 = (world_init False)\<lparr>w_batches := (w_batches (world_init False))(0 \<mapsto> begin_batch),
      w_returned := (w_returned (world_init False))(0 := {})\<rparr>"
  have s1: "publish_step ?H (world_init False) w1"
    unfolding w1_def by (rule publish_step.Begin) (simp add: world_init_def)
  obtain st b' where p: "put_parts ?H [[7, 9]] (w_store w1, begin_batch) = (Inr 2, (st, b'))"
    by (simp add: put_parts_def hash_parts_def w1_def world_init_def memory_store_new_def Let_def)
  define w2 where "w2 = w1\<lparr>w_store := st, w_batches := (w_batches w1)(0 \<mapsto> b'), w_returned := (w_returned w1)(0 := insert 2 (w_returned w1 0))\<rparr>"
  have s2: "publish_step ?H w1 w2"
    unfolding w2_def using p by (intro publish_step.Put) (simp add: w1_def)
  define w3 where "w3 = w2\<lparr>w_store := batch_finish (w_store w2, b'), w_batches := (w_batches w2)(0 := None), w_named := w_named w2 \<union> w_returned w2 0\<rparr>"
  have s3: "publish_step ?H w2 w3"
    unfolding w3_def by (rule publish_step.Finish) (simp add: w2_def)
  have r: "(publish_step ?H)\<^sup>*\<^sup>* (world_init False) w3" using s1 s2 s3 by auto
  have n: "2 \<in> w_named w3" by (simp add: w3_def w2_def)
  from finished_ids_durable [OF r n] r show ?thesis by blast
qed

text \<open>
  Publishing bytes under their id is write-once: a put never changes or removes an object that is
  already visible, whether it succeeds or not.
\<close>

theorem put_never_overwrites:
  assumes "store_put_parts H parts st = (r, st')" "visible st i = Some bs"
  shows "visible st' i = Some bs"
proof -
  obtain q st1 b where q: "put_parts H parts (st, begin_batch) = (q, (st1, b))" by (metis prod.collapse)
  from put_parts_keeps [OF q assms(2)] assms(1) q show ?thesis
    by (cases q) (auto simp: store_put_parts_def batch_finish_def Let_def)
qed

theorem put_never_overwrites_witness:
  "visible (snd (store_put_parts (\<lambda>_. 5) [[1]] ((memory_store_new False)\<lparr>visible := [5 \<mapsto> [9]]\<rparr>))) 5 = Some [9]"
  by (rule put_never_overwrites [OF surjective_pairing]) simp

text \<open>
  C14: Folding an overlay onto a base tree is exact: a path of the new tree is the staged file where the
  overlay stages one, is absent where the overlay removes it, stages something below it or stages one of
  its ancestors, and is the base's file everywhere else. Every entry untouched by the overlay is kept.
\<close>

theorem apply_overlay_files:
  assumes "apply_overlay (batch_get_tree H) (batch_put_tree H) base overlay p = Some (Inr root, p')"
    and "bt_ok overlay" and "\<And>r. map_of overlay (slash # r) = None"
    and "publication_good H p'" and "names_ok ps"
  shows "file_at (batch_get_tree H) p' (Some root) ps =
    overlay_spec (map_of overlay) (file_at (batch_get_tree H) p' base) ps"
  using mem.apply_overlay_ok [OF assms(1,2,4) _ assms(5)] assms(3) by blast

text \<open>
  The fold always returns (a tree id or an error) when no staged path starts with a slash: the
  recursion is bounded by the longest path.
\<close>

theorem apply_overlay_terminates:
  assumes "bt_ok overlay" and "\<And>r. map_of overlay (slash # r) = None"
  shows "\<exists>r. apply_overlay (batch_get_tree H) (batch_put_tree H) base overlay p = Some r"
  using apply_overlay_returns [OF assms, of "batch_get_tree H" "batch_put_tree H" base p] by (simp only: not_None_eq)

theorem apply_overlay_terminates_witness:
  "\<exists>r. apply_overlay (batch_get_tree (\<lambda>_. 0)) (batch_put_tree (\<lambda>_. 0)) None [(''d/f'', Some (7, False))]
    \<lparr>p_store = memory_store_new False, p_batch = begin_batch, p_seen = {}\<rparr> = Some r"
  by (rule apply_overlay_terminates) simp_all

text \<open>
  Staging the removal of a path below a file makes the fold drop the file itself: if the overlay holds nothing but a
  tombstone for \<open>n/q\<close>, the new tree has no file \<open>n\<close>, also when the base has one and \<open>n/q\<close> never existed, as in the
  example below.
\<close>

theorem tombstone_below_file_drops_file:
  assumes "apply_overlay (batch_get_tree H) (batch_put_tree H) base [(n @ slash # q, None)] p = Some (Inr root, p')"
    and "publication_good H p'" and "names_ok [n]"
  shows "file_at (batch_get_tree H) p' (Some root) [n] = None"
proof -
  have "map_of [(n @ slash # q, None :: staged)] (slash # r) = None" for r
    using assms(3) by (cases n) (auto simp: names_ok_def)
  moreover have "bt_ok [(n @ slash # q, None :: staged)]" by simp
  ultimately have "file_at (batch_get_tree H) p' (Some root) [n] =
      overlay_spec (map_of [(n @ slash # q, None)]) (file_at (batch_get_tree H) p' base) [n]"
    using mem.apply_overlay_ok [OF assms(1) _ assms(2) _ assms(3)] by blast
  then show ?thesis by (simp add: overlay_spec_def staged_below_def)
qed

lemma fold_example:
  fixes eA :: TreeEntry
  defines "eA \<equiv> \<lparr>e_name = ''a'', e_kind = EntryKind.Blob, e_id = 7, e_exec = False\<rparr>"
  shows "\<exists>H p p'. apply_overlay (batch_get_tree H) (batch_put_tree H) (Some 2) [(''a/b'', None)] p = Some (Inr 1, p') \<and>
    publication_good H p' \<and> file_at (batch_get_tree H) p' (Some 2) [''a''] = Some (7, False)"
proof -
  let ?tE = "\<lparr>entries = []\<rparr> :: Tree" and ?tA = "\<lparr>entries = [eA]\<rparr> :: Tree"
  have ok: "tree_ok ?tE" "tree_ok ?tA"
    by (simp_all add: tree_ok_def eA_def validate_name_def utf8_ascii)
  obtain bE bA where enc: "tree_encode ?tE = Some (Inr bE)" "tree_encode ?tA = Some (Inr bA)"
    using tree_encodes ok by (metis length_Cons list.size(3) le0 max_tree_entries_def numeral_One one_le_numeral One_nat_def Tree.select_convs(1))
  then have dec: "tree_decode bE = Inr ?tE" "tree_decode bA = Inr ?tA" using ok by (simp_all add: tree_decode_iff)
  then have ne: "bA \<noteq> bE" by auto
  define H where "H = (\<lambda>bs. if bs = bE then 1 else 2 :: oid)"
  have hash: "H bE = 1" "H bA = 2" using ne by (simp_all add: H_def)
  define p where "p = \<lparr>p_store = (memory_store_new False)\<lparr>visible := [2 \<mapsto> bA]\<rparr>, p_batch = begin_batch, p_seen = {}\<rparr>"
  have getA: "tree_get ?tA ''a'' = Some eA" using tree_get_iff [OF ok(2), of "''a''" eA] by (simp add: eA_def)
  let ?st1 = "(p_store p)\<lparr>visible := [2 \<mapsto> bA, 1 \<mapsto> bE], stats := file_barrier (stats (p_store p))\<rparr>"
  let ?b1 = "begin_batch\<lparr>owed := {1}, new_puts := 1\<rparr>"
  let ?p1 = "p\<lparr>p_store := ?st1, p_batch := ?b1, p_seen := {bE}\<rparr>"
  have put1: "batch_put_tree H ?tE p = (Inr 1, ?p1)"
    by (simp add: batch_put_tree_def enc batch_put_def put_parts_def hash_parts_def hash p_def memory_store_new_def begin_batch_def Let_def)
  let ?p2 = "?p1\<lparr>p_store := ?st1\<lparr>stats := file_barrier (stats ?st1)\<rparr>, p_batch := ?b1\<lparr>new_dedup := 1\<rparr>\<rparr>"
  have put2: "batch_put_tree H ?tE ?p1 = (Inr 1, ?p2)"
    by (simp add: batch_put_tree_def enc batch_put_def put_parts_def hash_parts_def hash p_def memory_store_new_def begin_batch_def Let_def)
  have get: "batch_get_tree H 2 p = Inr ?tA" "batch_get_tree H 1 ?p1 = Inr ?tE" "batch_get_tree H 2 ?p2 = Inr ?tA"
    by (simp_all add: batch_get_tree_def get_tree_def store_get_def hash dec p_def)
  have "overlay_fuel [(''a/b'', None)] = Suc (Suc (Suc (Suc 0)))" by (simp add: overlay_fuel_def)
  moreover have "from_canonical [] = Inr ?tE" using ok(1) by (simp add: from_canonical_iff)
  ultimately have "apply_overlay (batch_get_tree H) (batch_put_tree H) (Some 2) [(''a/b'', None)] p = Some (Inr 1, ?p2)"
    using get(1,2) put1 put2 getA
    by (simp add: apply_overlay_def act_bind_def act_of_def act_ret_def split_level_def split_step_def
        strip_path_prefix_def file_edits_def file_edit_def child_base_def child_prefix_def child_edit_def tree_is_empty_def
        tree_default_def max_tree_entries_def Let_def prefix_def eA_def)
  moreover have "publication_good H ?p2"
    using ne by (auto simp: publication_good_def p_def H_def inj_on_def ran_def)
  moreover have "file_at (batch_get_tree H) ?p2 (Some 2) [''a''] = Some (7, False)"
    using get(3) getA by (simp add: eA_def)
  ultimately show ?thesis by blast
qed

theorem tombstone_below_file_drops_file_witness:
  "\<exists>H p p'. file_at (batch_get_tree H) p' (Some 2) [''a''] = Some (7, False) \<and>
    apply_overlay (batch_get_tree H) (batch_put_tree H) (Some 2) [(''a/b'', None)] p = Some (Inr 1, p') \<and>
    file_at (batch_get_tree H) p' (Some 1) [''a''] = None"
proof -
  obtain H p p' where r: "apply_overlay (batch_get_tree H) (batch_put_tree H) (Some 2) [(''a'' @ slash # ''b'', None)] p = Some (Inr 1, p')"
    "publication_good H p'" "file_at (batch_get_tree H) p' (Some 2) [''a''] = Some (7, False)"
    using fold_example by auto
  with tombstone_below_file_drops_file [OF r(1,2)] show ?thesis by (auto simp: names_ok_def)
qed

theorem apply_overlay_files_witness:
  "\<exists>H p p'. apply_overlay (batch_get_tree H) (batch_put_tree H) (Some 2) [(''a/b'', None)] p = Some (Inr 1, p') \<and>
    file_at (batch_get_tree H) p' (Some 1) [''a'', ''b''] = None"
proof -
  obtain H p p' where r: "apply_overlay (batch_get_tree H) (batch_put_tree H) (Some 2) [(''a/b'', None)] p = Some (Inr 1, p')"
    "publication_good H p'" using fold_example by blast
  have "file_at (batch_get_tree H) p' (Some 1) [''a'', ''b''] =
      overlay_spec (map_of [(''a/b'', None)]) (file_at (batch_get_tree H) p' (Some 2)) [''a'', ''b'']"
    by (rule apply_overlay_files [OF r(1) _ _ r(2)]) (simp_all add: names_ok_def)
  also have "\<dots> = None" by (simp add: overlay_spec_def)
  finally show ?thesis using r(1) by blast
qed

end
