(* ===== verification/Namespace.thy ===== *)
theory Namespace
  imports Catalog Object_Store
begin

text \<open>
  The crate \<open>forge-ns\<close> (\<open>src/crates/forge-ns/src/lib.rs\<close>): mount tables and path resolution through a
  session's overlay. A store is read through \<open>get\<close> (\<open>Store::get_tree\<close>).
\<close>

section \<open>Mounts\<close>

datatype Mode = Ro | Rw

record Mount =
  mnt_path :: string
  mnt_spec :: string
  mnt_mode :: Mode
  mnt_base_oid :: "oid option"

definition parse_mode :: "string \<Rightarrow> error + Mode" where
  "parse_mode s = (if s = ''ro'' then Inr Ro else if s = ''rw'' then Inr Rw else Inl (Invalid ''mode''))"

fun mode_str :: "Mode \<Rightarrow> string" where
  "mode_str Ro = ''ro''"
| "mode_str Rw = ''rw''"

definition mount_of_row :: "MountRow \<Rightarrow> Mount" where
  "mount_of_row r = \<lparr>mnt_path = mt_path r, mnt_spec = mt_spec r,
     mnt_mode = (case parse_mode (mt_mode r) of Inr m \<Rightarrow> m | Inl _ \<Rightarrow> Ro), mnt_base_oid = mt_base_oid r\<rparr>"

section \<open>Paths\<close>

text \<open>\<open>while p.len() > 1 && p.ends_with('/') { p.pop(); }\<close>, on the reversed string.\<close>

fun pop_slashes_rev :: "string \<Rightarrow> string" where
  "pop_slashes_rev (c # d # p) = (if c = slash then pop_slashes_rev (d # p) else c # d # p)"
| "pop_slashes_rev p = p"

definition pop_slashes :: "string \<Rightarrow> string" where
  "pop_slashes p = rev (pop_slashes_rev (rev p))"

definition normalize_abs :: "string \<Rightarrow> error + string" where
  "normalize_abs path =
    (if path = [] then Inr ''/''
     else
       let p = pop_slashes (if prefix ''/'' path then path else slash # path) in
       if p \<noteq> ''/'' then and_then (split_path p) (\<lambda>_. Inr p) else Inr p)"

definition mount_covers :: "string \<Rightarrow> string \<Rightarrow> bool" where
  "mount_covers mp p \<longleftrightarrow> p = mp \<or> mp = ''/'' \<or> prefix (mp @ [slash]) p"

definition longest_step :: "string \<Rightarrow> Mount \<Rightarrow> Mount option \<times> nat \<Rightarrow> error + Mount option \<times> nat" where
  "longest_step p m = (\<lambda>(best, best_len).
    and_then (normalize_abs (mnt_path m)) (\<lambda>mp.
      if mount_covers mp p \<and> best_len \<le> length mp then Inr (Some m, length mp) else Inr (best, best_len)))"

definition longest_mount :: "Mount list \<Rightarrow> string \<Rightarrow> error + Mount" where
  "longest_mount ms path =
    and_then (normalize_abs path) (\<lambda>p.
    and_then (try_fold (longest_step p) ms (None, 0)) (\<lambda>(best, _).
      ok_or (NotFound ''no mount'') best))"

definition rel_of :: "string \<Rightarrow> string \<Rightarrow> error + string" where
  "rel_of mount_path path =
    and_then (normalize_abs mount_path) (\<lambda>mp.
    and_then (normalize_abs path) (\<lambda>p.
      if mp = ''/'' then Inr (dropWhile (\<lambda>c. c = slash) p)
      else if p = mp then Inr []
      else ok_or (Invalid ''not under the mount'') (strip_prefix (mp @ [slash]) p)))"

section \<open>Resolution\<close>

datatype Resolved = ResolvedTree oid | ResolvedBlob oid bool

definition overlay_map :: "(string \<times> oid option \<times> bool) list \<Rightarrow> Overlay" where
  "overlay_map rows = fold (\<lambda>(path, blob, exec) m. bt_insert path (map_option (\<lambda>i. (i, exec)) blob) m) rows []"

text \<open>The loop of \<open>resolve\<close> over the components; \<open>done\<close> holds the components already passed.\<close>

fun resolve_walk :: "(oid \<Rightarrow> error + Tree) \<Rightarrow> Overlay \<Rightarrow> string list \<Rightarrow> string list \<Rightarrow> oid \<Rightarrow> error + Resolved" where
  "resolve_walk get ov before [] cur = Inr (ResolvedTree cur)"
| "resolve_walk get ov before (part # parts) cur =
    (let pre = join_with [slash] before;
         so_far = (if pre = [] then part else pre @ [slash] @ part) in
     case map_of ov so_far of
       Some None \<Rightarrow> Inl (NotFound so_far)
     | Some (Some (i, exec)) \<Rightarrow>
         if parts = [] then Inr (ResolvedBlob i exec) else Inl (Invalid ''overlay file in middle of path'')
     | None \<Rightarrow>
         and_then (get cur) (\<lambda>tree.
         and_then (ok_or (NotFound so_far) (tree_get tree part)) (\<lambda>ent.
           if parts = [] then
             Inr (case e_kind ent of EntryKind.Blob \<Rightarrow> ResolvedBlob (e_id ent) (e_exec ent) | EntryKind.Tree \<Rightarrow> ResolvedTree (e_id ent))
           else if e_kind ent \<noteq> EntryKind.Tree then Inl (NotFound so_far)
           else resolve_walk get ov (before @ [part]) parts (e_id ent))))"

definition resolve ::
  "(oid \<Rightarrow> error + Tree) \<Rightarrow> Mount list \<Rightarrow> (string \<times> oid option \<times> bool) list \<Rightarrow> oid \<Rightarrow> string \<Rightarrow> error + Resolved" where
  "resolve get ms rows root_oid path =
    and_then (longest_mount ms path) (\<lambda>m.
    and_then (rel_of (mnt_path m) path) (\<lambda>rel.
      let ov = overlay_map rows in
      if rel \<noteq> [] \<and> map_of ov rel \<noteq> None then
        (case map_of ov rel of Some (Some (i, exec)) \<Rightarrow> Inr (ResolvedBlob i exec) | _ \<Rightarrow> Inl (NotFound rel))
      else if rel = [] then Inr (ResolvedTree root_oid)
      else and_then (split_path rel) (\<lambda>parts. resolve_walk get ov [] parts root_oid)))"

section \<open>Listing\<close>

definition ls_walk_step :: "(oid \<Rightarrow> error + Tree) \<Rightarrow> string \<Rightarrow> oid \<Rightarrow> error + oid" where
  "ls_walk_step get p cur =
    and_then (get cur) (\<lambda>t.
    and_then (ok_or (NotFound p) (tree_get t p)) (\<lambda>e.
      if e_kind e \<noteq> EntryKind.Tree then Inl (Invalid ''ls on blob'') else Inr (e_id e)))"

definition ls_row :: "string \<Rightarrow> string \<times> staged \<Rightarrow> (string, TreeEntry) btree \<Rightarrow> (string, TreeEntry) btree" where
  "ls_row rel = (\<lambda>(path, op) m.
    case (if rel = [] then Some path else strip_prefix (rel @ [slash]) path) of
      None \<Rightarrow> m
    | Some rest \<Rightarrow>
        if slash \<in> set rest then
          (let first = takeWhile (\<lambda>c. c \<noteq> slash) rest in
           if map_of m first = None
           then bt_insert first \<lparr>e_name = first, e_kind = EntryKind.Tree, e_id = oid_zero, e_exec = False\<rparr> m
           else m)
        else
          (case op of
             Some (i, exec) \<Rightarrow> bt_insert rest \<lparr>e_name = rest, e_kind = EntryKind.Blob, e_id = i, e_exec = exec\<rparr> m
           | None \<Rightarrow> bt_remove rest m))"

definition ns_ls :: "(oid \<Rightarrow> error + Tree) \<Rightarrow> (string \<times> oid option \<times> bool) list \<Rightarrow> oid \<Rightarrow> string \<Rightarrow> error + TreeEntry list" where
  "ns_ls get rows tree_oid rel =
    and_then
      (if rel = [] then get tree_oid
       else and_then (split_path rel) (\<lambda>parts. and_then (try_fold (ls_walk_step get) parts tree_oid) get))
      (\<lambda>t. Inr (sort_key e_name (map snd (fold (ls_row rel) (overlay_map rows) (as_map t)))))"

section \<open>Specs\<close>

datatype Spec = SpecRef string | SpecOid oid

definition parse_spec :: "string \<Rightarrow> error + Spec" where
  "parse_spec spec =
    (case strip_prefix ''ref:'' spec of
       Some r \<Rightarrow> Inr (SpecRef r)
     | None \<Rightarrow>
         (case strip_prefix ''oid:'' spec of
            Some h \<Rightarrow> and_then (from_hex h) (\<lambda>i. Inr (SpecOid i))
          | None \<Rightarrow> Inr (SpecRef spec)))"

definition dirent_kind :: "TreeEntry \<Rightarrow> string" where
  "dirent_kind e = (case e_kind e of EntryKind.Blob \<Rightarrow> ''blob'' | EntryKind.Tree \<Rightarrow> ''tree'')"

end
