(* ===== verification/Merge.thy ===== *)
theory Merge
  imports Object_Store
begin

text \<open>
  The crate \<open>forge-merge\<close> (\<open>src/crates/forge-merge/src/lib.rs\<close>): ancestry and merge bases, exact rename
  detection, and the path-granular three-way merge of trees.

  A store is read through \<open>get\<close> (\<open>Store::get_tree\<close>, \<open>Store::get_commit\<close>) and written through
  \<open>put\<close> (\<open>Store::put_tree\<close>). A \<open>Vec\<close> used as a stack is a list with its top at the head. A \<open>HashMap\<close> is
  an association list or a map, a \<open>HashSet\<close> a set or a list without repetition: no result below depends on
  their iteration order. Loops over trees are \<open>partial_function\<close>s, so that \<open>None\<close> is a walk that does not return.
\<close>

section \<open>Ancestry\<close>

definition MAX_ANCESTRY_COMMITS :: nat where
  "MAX_ANCESTRY_COMMITS = 1000000"

type_synonym ancestry = "(oid \<times> oid list) list"

function ancestor_loop :: "(oid \<Rightarrow> error + Commit) \<Rightarrow> oid list \<Rightarrow> ancestry \<Rightarrow> error + ancestry" where
  "ancestor_loop get [] out = Inr out"
| "ancestor_loop get (i # stack) out =
    (if map_of out i \<noteq> None then ancestor_loop get stack out
     else if length out \<ge> MAX_ANCESTRY_COMMITS then Inl (Invalid ''commit ancestry exceeds safety limit'')
     else and_then (get i) (\<lambda>c. ancestor_loop get (rev (c_parents c) @ stack) ((i, c_parents c) # out)))"
  by pat_completeness auto
termination
  by (relation "measures [\<lambda>(_, _, out). MAX_ANCESTRY_COMMITS - length out, \<lambda>(_, stack, _). length stack]") auto

declare ancestor_loop.simps [simp del]

definition ancestor_map :: "(oid \<Rightarrow> error + Commit) \<Rightarrow> oid \<Rightarrow> error + ancestry" where
  "ancestor_map get start = ancestor_loop get [start] []"

definition commit_parent_map :: "(oid \<Rightarrow> error + Commit) \<Rightarrow> oid \<Rightarrow> error + ancestry" where
  "commit_parent_map get start = ancestor_map get start"

text \<open>The walk that marks the common ancestors older than a candidate.\<close>

definition recorded_parents :: "ancestry \<Rightarrow> oid \<Rightarrow> oid list" where
  "recorded_parents am i = (case map_of am i of Some ps \<Rightarrow> rev ps | None \<Rightarrow> [])"

function dominated_loop :: "ancestry \<Rightarrow> oid list \<Rightarrow> oid list \<Rightarrow> oid set \<Rightarrow> oid set \<Rightarrow> oid set" where
  "dominated_loop am common [] seen dominated = dominated"
| "dominated_loop am common (i # stack) seen dominated =
    (if i \<in> seen then dominated_loop am common stack seen dominated
     else dominated_loop am common (recorded_parents am i @ stack) (insert i seen)
       (if i \<in> set common then insert i dominated else dominated))"
  by pat_completeness auto
termination
proof (relation "measures [\<lambda>(am, _, _, seen, _). card (fst ` set am - seen), \<lambda>(_, _, stack, _, _). length stack]")
  fix am :: ancestry and common stack :: "oid list" and i and seen dominated d :: "oid set"
  assume i: "i \<notin> seen"
  show "((am, common, recorded_parents am i @ stack, insert i seen, d), am, common, i # stack, seen, dominated)
      \<in> measures [\<lambda>(am, _, _, seen, _). card (fst ` set am - seen), \<lambda>(_, _, stack, _, _). length stack]"
  proof (cases "i \<in> fst ` set am")
    case True
    then have "fst ` set am - insert i seen \<subset> fst ` set am - seen" using i by auto
    then show ?thesis by (simp add: psubset_card_mono)
  next
    case False
    then have "fst ` set am - insert i seen = fst ` set am - seen" by auto
    moreover have "map_of am i = None" using False by (simp add: map_of_eq_None_iff)
    ultimately show ?thesis by (simp add: recorded_parents_def)
  qed
qed auto

declare dominated_loop.simps [simp del]

definition dominated_by :: "ancestry \<Rightarrow> oid list \<Rightarrow> oid \<Rightarrow> oid set \<Rightarrow> error + oid set" where
  "dominated_by am common candidate dominated =
    and_then (ok_or (Corrupt ''common ancestor missing from ancestry map'') (map_of am candidate)) (\<lambda>ps.
      Inr (dominated_loop am common (rev ps) {} dominated))"

definition merge_bases :: "(oid \<Rightarrow> error + Commit) \<Rightarrow> oid \<Rightarrow> oid \<Rightarrow> error + oid list" where
  "merge_bases get a b =
    (if a = b then and_then (get a) (\<lambda>_. Inr [a])
     else
       and_then (ancestor_map get a) (\<lambda>am.
       and_then (ancestor_map get b) (\<lambda>bm.
         let common = filter (\<lambda>i. map_of bm i \<noteq> None) (map fst am) in
         if common = [] then Inr []
         else and_then (try_fold (dominated_by am common) common {}) (\<lambda>dominated.
           Inr (sort_key oid_bytes (filter (\<lambda>i. i \<notin> dominated) common))))))"

definition lca :: "(oid \<Rightarrow> error + Commit) \<Rightarrow> oid \<Rightarrow> oid \<Rightarrow> error + oid option" where
  "lca get a b =
    and_then (merge_bases get a b) (\<lambda>bases.
      case bases of
        [] \<Rightarrow> Inr None
      | [base] \<Rightarrow> Inr (Some base)
      | _ \<Rightarrow> Inl (Invalid ''multiple best merge bases''))"

section \<open>Changes between two trees\<close>

datatype MergeOutcome = MergedTree oid | MergeConflict Conflict

definition same_entry :: "TreeEntry \<Rightarrow> TreeEntry \<Rightarrow> bool" where
  "same_entry a b \<longleftrightarrow> e_id a = e_id b \<and> e_kind a = e_kind b \<and> e_exec a = e_exec b"

type_synonym EntryIdentity = "oid \<times> u8 \<times> bool"

definition entry_identity :: "TreeEntry \<Rightarrow> EntryIdentity" where
  "entry_identity e = (e_id e, entry_kind_byte (e_kind e), e_exec e)"

record TreeChanges =
  deleted :: "(string, TreeEntry) btree"
  added :: "(string, TreeEntry) btree"

definition no_changes :: TreeChanges where
  "no_changes = \<lparr>deleted = [], added = []\<rparr>"

text \<open>The names of several trees, each once, sorted.\<close>

definition sorted_names :: "TreeEntry list \<Rightarrow> string list" where
  "sorted_names es = sort (remdups (map e_name es))"

type_synonym walk = "(string \<times> oid \<times> oid) list"

text \<open>
  \<open>while let Some(item) = stack.pop()\<close>, the shape of the walks over trees: \<open>step\<close> handles one item and
  says what it pushes.
\<close>

partial_function (option) walk_loop ::
  "('x \<Rightarrow> 'acc \<Rightarrow> 'e + 'acc \<times> 'x list) \<Rightarrow> 'x list \<Rightarrow> 'acc \<Rightarrow> ('e + 'acc) option" where
  "walk_loop step stack acc =
    (case stack of
       [] \<Rightarrow> Some (Inr acc)
     | x # stack \<Rightarrow>
         (case step x acc of
            Inl e \<Rightarrow> Some (Inl e)
          | Inr r \<Rightarrow> walk_loop step (snd r @ stack) (fst r)))"

definition change_step ::
  "string \<Rightarrow> Tree \<Rightarrow> Tree \<Rightarrow> string \<Rightarrow> TreeChanges \<times> walk \<Rightarrow> TreeChanges \<times> walk" where
  "change_step pre base_tree side_tree name = (\<lambda>(changes, stack).
    let path = child_prefix pre name in
    case (map_of (as_map base_tree) name, map_of (as_map side_tree) name) of
      (Some before, None) \<Rightarrow> (changes\<lparr>deleted := bt_insert path before (deleted changes)\<rparr>, stack)
    | (None, Some after) \<Rightarrow> (changes\<lparr>added := bt_insert path after (added changes)\<rparr>, stack)
    | (Some before, Some after) \<Rightarrow>
        if same_entry before after then (changes, stack)
        else if e_kind before = EntryKind.Tree \<and> e_kind after = EntryKind.Tree
        then (changes, (path, e_id before, e_id after) # stack)
        else (changes, stack)
    | (None, None) \<Rightarrow> (changes, stack))"

definition read_pair :: "(oid \<Rightarrow> error + Tree) \<Rightarrow> oid \<Rightarrow> oid \<Rightarrow> error + Tree \<times> Tree" where
  "read_pair get i j = and_then (get i) (\<lambda>l. and_then (get j) (\<lambda>r. Inr (l, r)))"

definition change_item ::
  "(oid \<Rightarrow> error + Tree) \<Rightarrow> string \<times> oid \<times> oid \<Rightarrow> TreeChanges \<Rightarrow> error + TreeChanges \<times> walk" where
  "change_item get = (\<lambda>(pre, base_id, side_id) changes.
    if base_id = side_id then Inr (changes, [])
    else and_then (read_pair get base_id side_id) (\<lambda>(base_tree, side_tree).
      Inr (fold (change_step pre base_tree side_tree) (sorted_names (entries base_tree @ entries side_tree)) (changes, []))))"

definition tree_changes :: "(oid \<Rightarrow> error + Tree) \<Rightarrow> oid \<Rightarrow> oid \<Rightarrow> (error + TreeChanges) option" where
  "tree_changes get base side = walk_loop (change_item get) [([], base, side)] no_changes"

section \<open>Exact renames\<close>

definition count_step ::
  "EntryIdentity set \<Rightarrow> TreeEntry \<Rightarrow> (EntryIdentity \<rightharpoonup> nat) \<times> oid list \<Rightarrow> (EntryIdentity \<rightharpoonup> nat) \<times> oid list" where
  "count_step wanted e = (\<lambda>(counts, stack).
    let i = entry_identity e;
        counts = (if i \<in> wanted then counts(i \<mapsto> min ((case counts i of Some n \<Rightarrow> n | None \<Rightarrow> 0) + 1) 2) else counts)
    in (counts, if e_kind e = EntryKind.Tree then e_id e # stack else stack))"

definition count_item ::
  "(oid \<Rightarrow> error + Tree) \<Rightarrow> EntryIdentity set \<Rightarrow> oid \<Rightarrow> (EntryIdentity \<rightharpoonup> nat) \<Rightarrow> error + (EntryIdentity \<rightharpoonup> nat) \<times> oid list" where
  "count_item get wanted tree_id counts =
    and_then (get tree_id) (\<lambda>tree. Inr (fold (count_step wanted) (entries tree) (counts, [])))"

definition count_base_identities ::
  "(oid \<Rightarrow> error + Tree) \<Rightarrow> oid \<Rightarrow> EntryIdentity set \<Rightarrow> (error + (EntryIdentity \<rightharpoonup> nat)) option" where
  "count_base_identities get base wanted =
    (if wanted = {} then Some (Inr Map.empty) else walk_loop (count_item get wanted) [base] Map.empty)"

definition destinations :: "TreeChanges \<Rightarrow> EntryIdentity \<rightharpoonup> string list" where
  "destinations changes =
    fold (\<lambda>(path, e) d. d(entry_identity e \<mapsto> (case d (entry_identity e) of Some ps \<Rightarrow> ps | None \<Rightarrow> []) @ [path]))
      (added changes) Map.empty"

definition infer_exact_renames :: "TreeChanges \<Rightarrow> (EntryIdentity \<rightharpoonup> nat) \<Rightarrow> string \<rightharpoonup> string" where
  "infer_exact_renames changes base_counts =
    fold (\<lambda>(source, e) renames.
        if base_counts (entry_identity e) \<noteq> Some 1 then renames
        else case destinations changes (entry_identity e) of
               Some [path] \<Rightarrow> renames(source \<mapsto> path)
             | _ \<Rightarrow> renames)
      (deleted changes) Map.empty"

definition identities :: "(string, TreeEntry) btree \<Rightarrow> EntryIdentity set" where
  "identities m = set (map (\<lambda>(_, e). entry_identity e) m)"

definition rename_conflict :: "TreeChanges \<Rightarrow> (string \<rightharpoonup> string) \<Rightarrow> (string \<rightharpoonup> string) \<Rightarrow> string \<times> TreeEntry \<Rightarrow> ConflictPath option" where
  "rename_conflict theirs_changes ours_renames theirs_renames = (\<lambda>(source, base_entry).
    if map_of (deleted theirs_changes) source = None then None
    else if ours_renames source = None \<and> theirs_renames source = None then None
    else if ours_renames source \<noteq> None \<and> ours_renames source = theirs_renames source then None
    else Some \<lparr>cp_path = source, cp_a = None, cp_b = None, cp_base = Some (e_id base_entry)\<rparr>)"

text \<open>The question mark on a walk that may not return.\<close>

definition walk_bind :: "('e + 'a) option \<Rightarrow> ('a \<Rightarrow> ('e + 'b) option) \<Rightarrow> ('e + 'b) option" where
  "walk_bind m f = (case m of None \<Rightarrow> None | Some (Inl e) \<Rightarrow> Some (Inl e) | Some (Inr x) \<Rightarrow> f x)"

definition exact_rename_conflicts ::
  "(oid \<Rightarrow> error + Tree) \<Rightarrow> oid \<Rightarrow> oid \<Rightarrow> oid \<Rightarrow> (error + ConflictPath list) option" where
  "exact_rename_conflicts get base ours theirs =
    walk_bind (tree_changes get base ours) (\<lambda>ours_changes.
    walk_bind (tree_changes get base theirs) (\<lambda>theirs_changes.
    let wanted = (identities (deleted ours_changes) \<inter> identities (added ours_changes)) \<union>
                 (identities (deleted theirs_changes) \<inter> identities (added theirs_changes)) in
    walk_bind (count_base_identities get base wanted) (\<lambda>base_counts.
    Some (Inr (List.map_filter
      (rename_conflict theirs_changes (infer_exact_renames ours_changes base_counts) (infer_exact_renames theirs_changes base_counts))
      (deleted ours_changes))))))"

section \<open>The three-way merge\<close>

definition matches_base :: "TreeEntry option \<Rightarrow> TreeEntry \<Rightarrow> bool" where
  "matches_base pg x = (case pg of Some g \<Rightarrow> same_entry g x | None \<Rightarrow> False)"

definition base_subtree :: "TreeEntry option \<Rightarrow> oid option" where
  "base_subtree pg = (case pg of Some g \<Rightarrow> if e_kind g = EntryKind.Tree then Some (e_id g) else None | None \<Rightarrow> None)"

text \<open>One name of the loop of \<open>merge_trees\<close>; \<open>recur\<close> is the recursive call.\<close>

definition merge_name ::
  "(string \<Rightarrow> oid option \<Rightarrow> oid \<Rightarrow> oid \<Rightarrow> ConflictPath list \<Rightarrow> (error, oid \<times> ConflictPath list, 'st) act) \<Rightarrow>
    string \<Rightarrow> TreeEntry option \<Rightarrow> TreeEntry option \<Rightarrow> TreeEntry option \<Rightarrow>
    TreeEntry list \<times> ConflictPath list \<Rightarrow> (error, TreeEntry list \<times> ConflictPath list, 'st) act" where
  "merge_name recur path pa pb pg acc st =
    (case acc of (out, conflicts) \<Rightarrow>
     case pa of
       None \<Rightarrow>
         (case pb of
            None \<Rightarrow> Some (Inr (out, conflicts), st)
          | Some x \<Rightarrow>
              if matches_base pg x then Some (Inr (out, conflicts), st)
              else if pg = None then Some (Inr (out @ [x], conflicts), st)
              else Some (Inr (out, conflicts @ [\<lparr>cp_path = path, cp_a = None, cp_b = Some (e_id x), cp_base = map_option e_id pg\<rparr>]), st))
     | Some x \<Rightarrow>
         (case pb of
            None \<Rightarrow>
              if matches_base pg x then Some (Inr (out, conflicts), st)
              else if pg = None then Some (Inr (out @ [x], conflicts), st)
              else Some (Inr (out, conflicts @ [\<lparr>cp_path = path, cp_a = Some (e_id x), cp_b = None, cp_base = map_option e_id pg\<rparr>]), st)
          | Some y \<Rightarrow>
              if same_entry x y then Some (Inr (out @ [x], conflicts), st)
              else if matches_base pg x then Some (Inr (out @ [y], conflicts), st)
              else if matches_base pg y then Some (Inr (out @ [x], conflicts), st)
              else if e_kind x = EntryKind.Tree \<and> e_kind y = EntryKind.Tree then
                act_bind (recur path (base_subtree pg) (e_id x) (e_id y) conflicts) (\<lambda>(merged, conflicts) st.
                  Some (Inr (out @ [x\<lparr>e_id := merged\<rparr>], conflicts), st)) st
              else Some (Inr (out @ [x],
                conflicts @ [\<lparr>cp_path = path, cp_a = Some (e_id x), cp_b = Some (e_id y), cp_base = map_option e_id pg\<rparr>]), st)))"

lemma act_bind_mono [partial_function_mono]:
  assumes "\<And>st. mono_option (\<lambda>f. m f st)" "\<And>x st. mono_option (\<lambda>f. k f x st)"
  shows "mono_option (\<lambda>f. act_bind (m f) (k f) st)"
proof -
  have "act_bind (m f) (k f) st =
      Option.bind (m f st) (\<lambda>rs. case fst rs of Inl e \<Rightarrow> Some (Inl e, snd rs) | Inr x \<Rightarrow> k f x (snd rs))" for f
    by (auto simp: act_bind_def split: option.split prod.split sum.split)
  moreover have "mono_option (\<lambda>f. case fst rs of Inl e \<Rightarrow> Some (Inl e, snd rs) | Inr x \<Rightarrow> k f x (snd rs))" for rs
    using assms(2) by (cases "fst rs") (simp_all add: option.const_mono)
  ultimately show ?thesis using assms(1) by (simp add: bind_mono)
qed

lemma act_fold_mono [partial_function_mono]:
  assumes "\<And>x a st. mono_option (\<lambda>f. b f x a st)"
  shows "mono_option (\<lambda>f. act_fold (b f) xs acc st)"
proof (induction xs arbitrary: acc st)
  case Nil
  then show ?case by (simp add: option.const_mono)
next
  case (Cons x xs)
  then show ?case using assms by (simp add: act_bind_mono)
qed

lemma merge_name_mono [partial_function_mono]:
  assumes "\<And>p b o' t cs st. mono_option (\<lambda>f. r f p b o' t cs st)"
  shows "mono_option (\<lambda>f. merge_name (r f) path pa pb pg acc st)"
proof -
  have rec: "mono_option (\<lambda>f. act_bind (r f p b o' t cs) k st)" for p b o' t cs k st
    by (rule act_bind_mono) (rule assms, rule option.const_mono)
  show ?thesis
    by (cases acc; cases pa; cases pb) (auto simp: merge_name_def intro!: rec option.const_mono if_mono)
qed

partial_function (option) merge_trees ::
  "(oid \<Rightarrow> 'st \<Rightarrow> error + Tree) \<Rightarrow> (Tree \<Rightarrow> 'st \<Rightarrow> (error + oid) \<times> 'st) \<Rightarrow>
    string \<Rightarrow> oid option \<Rightarrow> oid \<Rightarrow> oid \<Rightarrow> ConflictPath list \<Rightarrow> 'st \<Rightarrow> ((error + oid \<times> ConflictPath list) \<times> 'st) option" where
  "merge_trees get put pre base ours theirs conflicts st =
    (if ours = theirs then Some (Inr (ours, conflicts), st)
     else if Some ours = base then Some (Inr (theirs, conflicts), st)
     else if Some theirs = base then Some (Inr (ours, conflicts), st)
     else
       act_bind (act_of (get ours)) (\<lambda>a.
       act_bind (act_of (get theirs)) (\<lambda>b.
       act_bind (act_of (\<lambda>st. case base of Some i \<Rightarrow> get i st | None \<Rightarrow> Inr tree_default)) (\<lambda>g.
       act_bind (act_fold (\<lambda>name. merge_name (\<lambda>p b o' t cs st. merge_trees get put p b o' t cs st) (child_prefix pre name)
           (map_of (as_map a) name) (map_of (as_map b) name) (map_of (as_map g) name))
         (sorted_names (entries a @ entries b @ entries g)) ([], conflicts)) (\<lambda>r.
       act_bind (act_of (\<lambda>_. tree_new (fst r))) (\<lambda>t.
       act_bind (\<lambda>st. Some (put t st)) (\<lambda>i st. Some (Inr (i, snd r), st))))))) st)"

definition auto_merge_tree ::
  "(oid \<Rightarrow> 'st \<Rightarrow> error + Tree) \<Rightarrow> (Tree \<Rightarrow> 'st \<Rightarrow> (error + oid) \<times> 'st) \<Rightarrow>
    oid option \<Rightarrow> oid \<Rightarrow> oid \<Rightarrow> (error, oid \<times> ConflictPath list, 'st) act" where
  "auto_merge_tree get put base ours theirs =
    act_bind (\<lambda>st. map_option (\<lambda>r. (r, st))
        (case base of
           Some i \<Rightarrow>
             if ours \<noteq> theirs \<and> ours \<noteq> i \<and> theirs \<noteq> i then exact_rename_conflicts (\<lambda>j. get j st) i ours theirs
             else Some (Inr [])
         | None \<Rightarrow> Some (Inr []))) (\<lambda>paths.
    act_bind (merge_trees get put [] base ours theirs paths) (\<lambda>(tree, paths).
    act_ret (tree, sort_key cp_path paths)))"

definition three_way ::
  "(oid \<Rightarrow> 'st \<Rightarrow> error + Tree) \<Rightarrow> (Tree \<Rightarrow> 'st \<Rightarrow> (error + oid) \<times> 'st) \<Rightarrow>
    oid option \<Rightarrow> oid \<Rightarrow> oid \<Rightarrow> (error, MergeOutcome, 'st) act" where
  "three_way get put base ours theirs =
    act_bind (auto_merge_tree get put base ours theirs) (\<lambda>(tree, paths).
      act_ret (if paths = [] then MergedTree tree
        else MergeConflict \<lparr>k_bases = (case base of Some i \<Rightarrow> [i] | None \<Rightarrow> []), k_ours = ours, k_theirs = theirs,
               k_paths = paths, k_causal = []\<rparr>))"

section \<open>The scope of a resolution\<close>

definition changed_step :: "string \<Rightarrow> Tree \<Rightarrow> Tree \<Rightarrow> string \<Rightarrow> string list \<times> walk \<Rightarrow> string list \<times> walk" where
  "changed_step pre left_tree right_tree name = (\<lambda>(out, stack).
    let path = child_prefix pre name in
    case (map_of (as_map left_tree) name, map_of (as_map right_tree) name) of
      (Some a, Some b) \<Rightarrow>
        if same_entry a b then (out, stack)
        else if e_kind a = EntryKind.Tree \<and> e_kind b = EntryKind.Tree then (out, (path, e_id a, e_id b) # stack)
        else (path # out, stack)
    | _ \<Rightarrow> (path # out, stack))"

definition changed_item ::
  "(oid \<Rightarrow> error + Tree) \<Rightarrow> string \<times> oid \<times> oid \<Rightarrow> string list \<Rightarrow> error + string list \<times> walk" where
  "changed_item get = (\<lambda>(pre, left_id, right_id) out.
    if left_id = right_id then Inr (out, [])
    else and_then (read_pair get left_id right_id) (\<lambda>(left_tree, right_tree).
      Inr (fold (changed_step pre left_tree right_tree) (sorted_names (entries left_tree @ entries right_tree)) (out, []))))"

definition changed_paths :: "(oid \<Rightarrow> error + Tree) \<Rightarrow> oid \<Rightarrow> oid \<Rightarrow> (error + string list) option" where
  "changed_paths get left right = walk_loop (changed_item get) [([], left, right)] []"

definition path_in_conflict_scope :: "string \<Rightarrow> ConflictPath list \<Rightarrow> bool" where
  "path_in_conflict_scope path cs = list_ex (\<lambda>c. path = cp_path c \<or> prefix (cp_path c @ [slash]) path) cs"

end
