(* ===== verification/Merge_Laws.thy ===== *)
theory Merge_Laws
  imports Merge
begin

text \<open>
  The three-way merge of \<open>src/crates/forge-merge/src/lib.rs\<close> against its path-level meaning: outside the
  recorded conflicts the merged tree holds, at every path, what a three-way merge of the three files holds.
\<close>

section \<open>The meaning of a merge, file by file\<close>

text \<open>
  \<open>merges_to b x y m\<close>: the file contents \<open>x\<close> (ours) and \<open>y\<close> (theirs) with the common origin \<open>b\<close> merge
  to \<open>m\<close>. One of the sides agrees with the other or with the origin; an edit of one side wins.
\<close>

definition merges_to :: "'a \<Rightarrow> 'a \<Rightarrow> 'a \<Rightarrow> 'a \<Rightarrow> bool" where
  "merges_to b x y m \<longleftrightarrow> x = y \<and> m = x \<or> x = b \<and> m = y \<or> y = b \<and> m = x"

lemma merges_to_sym: "merges_to b x y m \<Longrightarrow> merges_to b y x m' \<Longrightarrow> m = m'"
  by (auto simp: merges_to_def)

lemma merges_to_refl [simp]:
  "merges_to b x x x" "merges_to b b y y" "merges_to b x b x"
  by (simp_all add: merges_to_def)

definition entry_file :: "(oid \<Rightarrow> 'st \<Rightarrow> error + Tree) \<Rightarrow> 'st \<Rightarrow> TreeEntry option \<Rightarrow> string list \<Rightarrow> staged" where
  "entry_file get st en qs =
    (case en of
       None \<Rightarrow> None
     | Some e \<Rightarrow>
         if qs = [] then (if e_kind e = EntryKind.Blob then Some (e_id e, e_exec e) else None)
         else if e_kind e = EntryKind.Tree then file_at get st (Some (e_id e)) qs else None)"

lemma file_at_Cons: "get i st = Inr t \<Longrightarrow> file_at get st (Some i) (n # qs) = entry_file get st (tree_get t n) qs"
  by (simp add: entry_file_def split: option.split)

lemma entry_file_None [simp]: "entry_file get st None qs = None"
  by (simp add: entry_file_def)

lemma entry_file_same: "same_entry a b \<Longrightarrow> entry_file get st (Some a) qs = entry_file get st (Some b) qs"
  by (simp add: entry_file_def same_entry_def)

lemma entry_file_matches: "matches_base pg x \<Longrightarrow> entry_file get st pg qs = entry_file get st (Some x) qs"
  by (auto simp: matches_base_def intro: entry_file_same split: option.splits)

lemma as_map_lookup:
  assumes "tree_ok t"
  shows "map_of (as_map t) n = tree_get t n"
proof -
  have "map_of (fold (\<lambda>e m. bt_insert (e_name e) e m) es acc) n =
      (case entry_lookup es n of Some e \<Rightarrow> Some e | None \<Rightarrow> map_of acc n)" if "distinct (map e_name es)" for es acc
    using that
  proof (induction es arbitrary: acc)
    case (Cons e es)
    have "entry_lookup es (e_name e) = None"
      using Cons.prems by (auto simp: entry_lookup_def map_of_eq_None_iff)
    with Cons show ?case by (auto simp: entry_lookup_def split: option.split)
  qed (simp add: entry_lookup_def)
  moreover have "distinct (map e_name (entries t))" using assms by (simp add: tree_ok_def strict_sorted_iff)
  ultimately show ?thesis by (simp add: as_map_def tree_get_lookup [OF assms] split: option.split)
qed

text \<open>A tree that can be read in full, with at most \<open>n\<close> levels.\<close>

fun complete_tree :: "(oid \<Rightarrow> 'st \<Rightarrow> error + Tree) \<Rightarrow> nat \<Rightarrow> oid \<Rightarrow> 'st \<Rightarrow> bool" where
  "complete_tree get 0 i st \<longleftrightarrow> False"
| "complete_tree get (Suc n) i st \<longleftrightarrow>
    (\<exists>t. get i st = Inr t \<and> (\<forall>e \<in> set (entries t). e_kind e = EntryKind.Tree \<longrightarrow> complete_tree get n (e_id e) st))"

section \<open>Conflict scopes\<close>

lemma scope_mono: "path_in_conflict_scope p cs \<Longrightarrow> set cs \<subseteq> set cs' \<Longrightarrow> path_in_conflict_scope p cs'"
  by (auto simp: path_in_conflict_scope_def list_ex_iff)

lemma scope_below:
  assumes "cp_path c = child_prefix pre n" "c \<in> set cs"
  shows "path_in_conflict_scope (child_prefix pre (join_with [slash] (n # qs))) cs"
proof (cases qs)
  case Nil
  then show ?thesis using assms by (auto simp: path_in_conflict_scope_def list_ex_iff intro!: bexI [of _ c])
next
  case (Cons q qs')
  then have "prefix (cp_path c @ [slash]) (child_prefix pre (join_with [slash] (n # qs)))"
    using assms(1) by (auto simp: child_prefix_def prefix_def)
  then show ?thesis using assms(2) by (auto simp: path_in_conflict_scope_def list_ex_iff)
qed

lemma child_prefix_deep:
  "n \<noteq> [] \<Longrightarrow> qs \<noteq> [] \<Longrightarrow>
    child_prefix (child_prefix pre n) (join_with [slash] qs) = child_prefix pre (join_with [slash] (n # qs))"
  by (cases qs) (auto simp: child_prefix_def)

section \<open>One name\<close>

text \<open>
  What one name of the loop does: at most one entry is added, it carries the name, the conflicts only
  grow, and outside them the entry is the merge of the three entries. \<open>C\<close> is the property of the three
  stores (before, after, at the time of reading) that the recursive calls rely on.
\<close>

definition name_ok ::
  "(oid \<Rightarrow> 'st \<Rightarrow> error + Tree) \<Rightarrow> string \<Rightarrow> (string \<Rightarrow> TreeEntry option) \<Rightarrow> (string \<Rightarrow> TreeEntry option) \<Rightarrow>
    (string \<Rightarrow> TreeEntry option) \<Rightarrow> ConflictPath list \<Rightarrow> 'st \<Rightarrow> string \<Rightarrow> TreeEntry option \<Rightarrow> bool" where
  "name_ok get pre pa pb pg cs st n re \<longleftrightarrow>
    (\<forall>qs. names_ok (n # qs) \<longrightarrow> \<not> path_in_conflict_scope (child_prefix pre (join_with [slash] (n # qs))) cs \<longrightarrow>
      merges_to (entry_file get st (pg n) qs) (entry_file get st (pa n) qs) (entry_file get st (pb n) qs) (entry_file get st re qs))"

definition opt_list :: "'a option \<Rightarrow> 'a list" where
  "opt_list x = (case x of None \<Rightarrow> [] | Some y \<Rightarrow> [y])"

lemma opt_list_simps [simp]: "opt_list None = []" "opt_list (Some x) = [x]"
  by (simp_all add: opt_list_def)

lemma set_opt_list [simp]: "set (opt_list x) = set_option x"
  by (cases x) (auto simp: opt_list_def)

lemma act_bind_Some:
  "act_bind m f st = Some (r, st') \<longleftrightarrow>
    (\<exists>e. m st = Some (Inl e, st') \<and> r = Inl e) \<or> (\<exists>x st1. m st = Some (Inr x, st1) \<and> f x st1 = Some (r, st'))"
  by (auto simp: act_bind_def split: option.splits prod.splits sum.splits)

lemma act_fold_state:
  assumes "act_fold f xs a st = Some (r, st')" "I st"
    and "\<And>x a st r st'. x \<in> set xs \<Longrightarrow> I st \<Longrightarrow> f x a st = Some (r, st') \<Longrightarrow> I st'"
  shows "I st'"
  using assms
proof (induction xs arbitrary: a st)
  case Nil
  then show ?case by simp
next
  case (Cons x xs)
  have tail: "I st2" if "y \<in> set xs" "I st1" "f y a st1 = Some (r, st2)" for y a st1 r st2
    using Cons.prems(3) [of y] that by simp
  from Cons.prems(1) consider
    e where "f x a st = Some (Inl e, st')" | y st1 where "f x a st = Some (Inr y, st1)" "act_fold f xs y st1 = Some (r, st')"
    by (auto simp: act_bind_Some)
  then show ?case
  proof cases
    case 1
    then show ?thesis using Cons.prems(3) [of x] Cons.prems(2) by simp
  next
    case 2
    have "I st1" using Cons.prems(3) [of x, OF _ Cons.prems(2) 2(1)] by simp
    then show ?thesis using Cons.IH [OF 2(2)] tail by blast
  qed
qed

lemma act_fold_returns:
  assumes "I st" "\<And>x a st. x \<in> set xs \<Longrightarrow> I st \<Longrightarrow> f x a st \<noteq> None"
    and "\<And>x a st r st'. x \<in> set xs \<Longrightarrow> I st \<Longrightarrow> f x a st = Some (r, st') \<Longrightarrow> I st'"
  shows "act_fold f xs a st \<noteq> None"
  using assms
proof (induction xs arbitrary: a st)
  case (Cons x xs)
  have "f x a st \<noteq> None" using Cons.prems(2) [of x st a] Cons.prems(1) by simp
  moreover have "act_fold f xs y st1 \<noteq> None" if "f x a st = Some (Inr y, st1)" for y st1
  proof (rule Cons.IH)
    show "I st1" using Cons.prems(3) [of x, OF _ Cons.prems(1) that] by simp
  qed (use Cons.prems(2,3) in \<open>meson list.set_intros(2)\<close>)+
  ultimately show ?case unfolding act_fold.simps act_bind_not_None by blast
qed simp

context tree_store
begin

lemma extends_put: "put_tree t st = (r, st') \<Longrightarrow> extends st st'"
  using put_keeps by (auto simp: extends_def)

lemma merge_name_extends:
  assumes "merge_name recur path pa pb pg acc st = Some (r, st')"
    and "\<And>p b x y cs st r st'. recur p b x y cs st = Some (r, st') \<Longrightarrow> extends st st'"
  shows "extends st st'"
  using assms(1) by (auto simp: merge_name_def act_bind_Some split: prod.splits option.splits if_split_asm dest: assms(2))

lemma merge_trees_extends:
  assumes "merge_trees get_tree put_tree pre base ours theirs cs st = Some (r, st')"
  shows "extends st st'"
proof -
  have "get = get_tree \<longrightarrow> put = put_tree \<longrightarrow> extends st (snd z)"
    if "merge_trees get put pre base ours theirs cs st = Some z" for get put pre base ours theirs cs st z
    using that
  proof (induction rule: merge_trees.raw_induct [rotated 1, consumes 1, case_names step])
    case (step rec get put pre base ours theirs cs st z)
    obtain r st' where z: "z = (r, st')" by (cases z)
    have fold: "extends st st2" if "act_fold (\<lambda>name. merge_name (rec get_tree put_tree) (child_prefix pre name) (A name) (B name) (G name)) ns acc st = Some (r2, st2)"
      for A B G ns acc r2 st2
    proof (rule act_fold_state [OF that])
      fix x a st1 r st3
      assume "extends st st1" and m: "merge_name (rec get_tree put_tree) (child_prefix pre x) (A x) (B x) (G x) a st1 = Some (r, st3)"
      moreover have "extends st1 st3" by (rule merge_name_extends [OF m]) (use step.IH in fastforce)
      ultimately show "extends st st3" using extends_trans by blast
    qed simp
    show ?case
    proof (intro impI)
      assume [simp]: "get = get_tree" "put = put_tree"
      from step.hyps show "extends st (snd z)"
        unfolding z
        by (auto simp: act_bind_Some split: if_split_asm dest!: fold extends_put intro: extends_trans)
    qed
  qed
  from this [OF assms] show ?thesis by simp
qed

text \<open>What a call of \<open>merge_trees\<close> promises about the tree it returns, in every later store.\<close>

definition merged_ok :: "string \<Rightarrow> oid option \<Rightarrow> oid \<Rightarrow> oid \<Rightarrow> ConflictPath list \<Rightarrow> oid \<Rightarrow> 'st \<Rightarrow> bool" where
  "merged_ok pre base ours theirs cs m st \<longleftrightarrow>
    (\<forall>st2 ps. extends st st2 \<longrightarrow> names_ok ps \<longrightarrow> \<not> path_in_conflict_scope (child_prefix pre (join_with [slash] ps)) cs \<longrightarrow>
      merges_to (file_at get_tree st2 base ps) (file_at get_tree st2 (Some ours) ps)
        (file_at get_tree st2 (Some theirs) ps) (file_at get_tree st2 (Some m) ps))"

definition promise :: "string \<Rightarrow> oid option \<Rightarrow> oid \<Rightarrow> oid \<Rightarrow> ConflictPath list \<Rightarrow> 'st \<Rightarrow> oid \<times> ConflictPath list \<Rightarrow> 'st \<Rightarrow> bool" where
  "promise pre base ours theirs cs st r st' \<longleftrightarrow>
    (good st' \<longrightarrow> good st \<and> set cs \<subseteq> set (snd r) \<and> merged_ok pre base ours theirs (snd r) (fst r) st')"

definition entry_ok ::
  "string \<Rightarrow> (string \<Rightarrow> TreeEntry option) \<Rightarrow> (string \<Rightarrow> TreeEntry option) \<Rightarrow> (string \<Rightarrow> TreeEntry option) \<Rightarrow>
    ConflictPath list \<Rightarrow> 'st \<Rightarrow> string \<Rightarrow> TreeEntry option \<Rightarrow> bool" where
  "entry_ok pre pa pb pg cs st n re \<longleftrightarrow> (\<forall>e. re = Some e \<longrightarrow> e_name e = n) \<and>
    (\<forall>st2. extends st st2 \<longrightarrow> name_ok get_tree pre pa pb pg cs st2 n re)"

lemma entry_ok_mono: "entry_ok pre pa pb pg cs st n re \<Longrightarrow> extends st st' \<Longrightarrow> set cs \<subseteq> set cs' \<Longrightarrow> entry_ok pre pa pb pg cs' st' n re"
  unfolding entry_ok_def name_ok_def by (meson extends_trans scope_mono)

text \<open>The entry of a name both of whose sides are directories, from the promise of the recursive call.\<close>

lemma entry_ok_subtree:
  assumes x: "pa n = Some x" "e_kind x = EntryKind.Tree" and y: "pb n = Some y" "e_kind y = EntryKind.Tree"
    and n: "n \<noteq> []" "e_name x = n"
    and sub: "merged_ok (child_prefix pre n) (base_subtree (pg n)) (e_id x) (e_id y) cs m st"
  shows "entry_ok pre pa pb pg cs st n (Some (x\<lparr>e_id := m\<rparr>))"
  unfolding entry_ok_def name_ok_def
proof (intro conjI allI impI)
  fix st2 qs
  assume ext: "extends st st2" and ok: "names_ok (n # qs)"
    and out: "\<not> path_in_conflict_scope (child_prefix pre (join_with [slash] (n # qs))) cs"
  show "merges_to (entry_file get_tree st2 (pg n) qs) (entry_file get_tree st2 (pa n) qs)
      (entry_file get_tree st2 (pb n) qs) (entry_file get_tree st2 (Some (x\<lparr>e_id := m\<rparr>)) qs)"
  proof (cases "qs = []")
    case True
    then show ?thesis using x y by (simp add: entry_file_def)
  next
    case False
    then have "names_ok qs" using ok by (simp add: names_ok_def)
    then have "merges_to (file_at get_tree st2 (base_subtree (pg n)) qs) (file_at get_tree st2 (Some (e_id x)) qs)
        (file_at get_tree st2 (Some (e_id y)) qs) (file_at get_tree st2 (Some m) qs)"
      using sub ext out child_prefix_deep [OF n(1) False, of pre] unfolding merged_ok_def by simp
    moreover have "file_at get_tree st2 (base_subtree (pg n)) qs = entry_file get_tree st2 (pg n) qs"
      using False by (auto simp: base_subtree_def entry_file_def split: option.split)
    ultimately show ?thesis using x y False by (simp add: entry_file_def)
  qed
qed (use n in simp)

lemma merge_name_ok:
  assumes run: "merge_name recur (child_prefix pre n) (pa n) (pb n) (pg n) (out, cs) st = Some (Inr (out', cs'), st')"
    and "good st'" and n: "n \<noteq> []" "\<And>e. pa n = Some e \<Longrightarrow> e_name e = n" "\<And>e. pb n = Some e \<Longrightarrow> e_name e = n"
    and rec: "\<And>b x y r st2. recur (child_prefix pre n) b x y cs st = Some (Inr r, st2) \<Longrightarrow> promise (child_prefix pre n) b x y cs st r st2"
  shows "good st \<and> set cs \<subseteq> set cs' \<and> (\<exists>re. out' = out @ opt_list re \<and> entry_ok pre pa pb pg cs' st' n re)"
proof -
  let ?ok = "\<lambda>cs re. entry_ok pre pa pb pg cs st n re"
  have none: "?ok cs None" if "pa n = None \<and> pb n = None"
    using that by (simp add: entry_ok_def name_ok_def)
  have conflict: "?ok (cs @ [c]) re" if "cp_path c = child_prefix pre n" "re = None \<or> re = pa n" for c re
    using scope_below [OF that(1), of "cs @ [c]"] that(2) n(2) by (auto simp: entry_ok_def name_ok_def)
  have keep_a: "?ok cs (pa n)" if "pb n = pa n \<or> pg n = pb n" using that n(2) by (auto simp: entry_ok_def name_ok_def)
  have base_b: "?ok cs (pa n)" if "matches_base (pg n) y" "pb n = Some y" for y
    using that n(2) entry_file_matches [OF that(1), of get_tree] by (auto simp: entry_ok_def name_ok_def)
  have base_a: "?ok cs (pb n)" if "matches_base (pg n) x" "pa n = Some x" for x
    using that n(3) entry_file_matches [OF that(1), of get_tree] by (auto simp: entry_ok_def name_ok_def)
  have same: "?ok cs (pa n)" if "same_entry x y" "pa n = Some x" "pb n = Some y" for x y
    using that n(2) entry_file_same [OF that(1), of get_tree] by (auto simp: entry_ok_def name_ok_def)
  have keep_b: "?ok cs (pb n)" if "pg n = pa n" using that n(3) by (auto simp: entry_ok_def name_ok_def)
  show ?thesis
  proof (cases "\<exists>x y. pa n = Some x \<and> pb n = Some y \<and> \<not> same_entry x y \<and> \<not> matches_base (pg n) x \<and> \<not> matches_base (pg n) y
      \<and> e_kind x = EntryKind.Tree \<and> e_kind y = EntryKind.Tree")
    case True
    then obtain x y where xy: "pa n = Some x" "pb n = Some y" "e_kind x = EntryKind.Tree" "e_kind y = EntryKind.Tree"
      and d: "\<not> same_entry x y" "\<not> matches_base (pg n) x" "\<not> matches_base (pg n) y" by blast
    then obtain m where r: "recur (child_prefix pre n) (base_subtree (pg n)) (e_id x) (e_id y) cs st = Some (Inr (m, cs'), st')"
      and out: "out' = out @ [x\<lparr>e_id := m\<rparr>]"
      using run by (auto simp: merge_name_def act_bind_Inr_iff)
    have "entry_ok pre pa pb pg cs' st' n (Some (x\<lparr>e_id := m\<rparr>))"
      using rec [OF r] \<open>good st'\<close> 
      by (intro entry_ok_subtree [where pa = pa and pb = pb and n = n, OF xy(1,3) xy(2,4) n(1) n(2) [OF xy(1)]]) (simp add: promise_def)
    then show ?thesis using rec [OF r] \<open>good st'\<close> out
      by (auto simp: promise_def opt_list_def intro!: exI [of _ "Some (x\<lparr>e_id := m\<rparr>)"])
  next
    case False
    then have st: "st' = st" and cs: "set cs \<subseteq> set cs'"
      using run by (auto simp: merge_name_def split: option.splits if_split_asm)
    have run': "merge_name recur (child_prefix pre n) (pa n) (pb n) (pg n) (out, cs) st = Some (Inr (out', cs'), st)"
      using run st by simp
    have "\<exists>re. out' = out @ opt_list re \<and> ?ok cs' re"
    proof (cases "pa n")
      case a: None
      show ?thesis
      proof (cases "pb n")
        case None
        then show ?thesis using run' a none by (intro exI [of _ None]) (simp add: merge_name_def)
      next
        case (Some x)
        consider "matches_base (pg n) x" | "\<not> matches_base (pg n) x" "pg n = None" | "\<not> matches_base (pg n) x" "pg n \<noteq> None" by blast
        then show ?thesis
        proof cases
          case 1
          then show ?thesis using run' a Some base_b [OF 1 Some] by (intro exI [of _ None]) (simp add: merge_name_def)
        next
          case 2
          then show ?thesis using run' a Some keep_b by (intro exI [of _ "Some x"]) (simp add: merge_name_def)
        next
          case 3
          then show ?thesis using run' a Some conflict [of _ None] by (intro exI [of _ None]) (auto simp: merge_name_def)
        qed
      qed
    next
      case a: (Some x)
      show ?thesis
      proof (cases "pb n")
        case None
        consider "matches_base (pg n) x" | "\<not> matches_base (pg n) x" "pg n = None" | "\<not> matches_base (pg n) x" "pg n \<noteq> None" by blast
        then show ?thesis
        proof cases
          case 1
          then show ?thesis using run' a None base_a [OF 1 a] by (intro exI [of _ None]) (simp add: merge_name_def)
        next
          case 2
          then show ?thesis using run' a None keep_a by (intro exI [of _ "Some x"]) (simp add: merge_name_def)
        next
          case 3
          then show ?thesis using run' a None conflict [of _ None] by (intro exI [of _ None]) (auto simp: merge_name_def)
        qed
      next
        case (Some y)
        consider "same_entry x y" | "\<not> same_entry x y" "matches_base (pg n) x"
          | "\<not> same_entry x y" "\<not> matches_base (pg n) x" "matches_base (pg n) y"
          | "\<not> same_entry x y" "\<not> matches_base (pg n) x" "\<not> matches_base (pg n) y" by blast
        then show ?thesis
        proof cases
          case 1
          then show ?thesis using run' a Some same [OF 1 a Some] by (intro exI [of _ "Some x"]) (simp add: merge_name_def)
        next
          case 2
          then show ?thesis using run' a Some base_a [OF 2(2) a] by (intro exI [of _ "Some y"]) (simp add: merge_name_def)
        next
          case 3
          then show ?thesis using run' a Some base_b [OF 3(3) Some] by (intro exI [of _ "Some x"]) (simp add: merge_name_def)
        next
          case 4
          then show ?thesis using run' a Some conflict [of _ "pa n"] False
            by (intro exI [of _ "Some x"]) (auto simp: merge_name_def split: if_split_asm)
        qed
      qed
    qed
    then show ?thesis using st cs \<open>good st'\<close> by simp
  qed
qed

text \<open>The loop over the names: one entry or none per name, each with its promise.\<close>

lemma merge_fold_ok:
  assumes "act_fold (\<lambda>n. merge_name recur (child_prefix pre n) (pa n) (pb n) (pg n)) ns (out, cs) st = Some (Inr (out', cs'), st')"
    and "good st'" "distinct ns" "\<And>n. n \<in> set ns \<Longrightarrow> n \<noteq> []"
    and "\<And>n e. pa n = Some e \<Longrightarrow> e_name e = n" "\<And>n e. pb n = Some e \<Longrightarrow> e_name e = n"
    and rec: "\<And>p b x y cs st r st2. recur p b x y cs st = Some (Inr r, st2) \<Longrightarrow> promise p b x y cs st r st2"
    and ext: "\<And>p b x y cs st r st2. recur p b x y cs st = Some (r, st2) \<Longrightarrow> extends st st2"
  shows "good st \<and> set cs \<subseteq> set cs' \<and>
    (\<exists>re. out' = out @ concat (map (\<lambda>n. opt_list (re n)) ns) \<and> (\<forall>n \<in> set ns. entry_ok pre pa pb pg cs' st' n (re n)))"
  using assms(1-4)
proof (induction ns arbitrary: out cs st)
  case Nil
  then show ?case by simp
next
  case (Cons n ns)
  from Cons.prems(1) obtain out1 cs1 st1 where
    one: "merge_name recur (child_prefix pre n) (pa n) (pb n) (pg n) (out, cs) st = Some (Inr (out1, cs1), st1)"
    and more: "act_fold (\<lambda>n. merge_name recur (child_prefix pre n) (pa n) (pb n) (pg n)) ns (out1, cs1) st1 = Some (Inr (out', cs'), st')"
    by (auto simp: act_bind_Inr_iff)
  obtain re where IH: "good st1" "set cs1 \<subseteq> set cs'" "out' = out1 @ concat (map (\<lambda>n. opt_list (re n)) ns)"
      "\<forall>n \<in> set ns. entry_ok pre pa pb pg cs' st' n (re n)"
    using Cons.IH [OF more] Cons.prems(2-4) by auto
  have n: "n \<noteq> []" "n \<notin> set ns" using Cons.prems(3,4) by auto
  obtain e where e: "good st" "set cs \<subseteq> set cs1" "out1 = out @ opt_list e" "entry_ok pre pa pb pg cs1 st1 n e"
    using merge_name_ok [where n = n and pa = pa and pb = pb and pg = pg, OF one IH(1) n(1) assms(5,6) rec] by blast
  have "extends st1 st'"
    by (rule act_fold_state [OF more]) (auto dest: merge_name_extends [OF _ ext] intro: extends_trans)
  then have "entry_ok pre pa pb pg cs' st' n e" using entry_ok_mono [OF e(4)] IH(2) by blast
  then have all: "\<forall>k \<in> set (n # ns). entry_ok pre pa pb pg cs' st' k ((re(n := e)) k)" using IH(4) by simp
  have "map (\<lambda>k. opt_list ((re(n := e)) k)) ns = map (\<lambda>k. opt_list (re k)) ns" using n(2) by (intro map_cong) auto
  then have "out' = out @ concat (map (\<lambda>k. opt_list ((re(n := e)) k)) (n # ns))"
    unfolding IH(3) e(3) list.map concat.simps by (simp only: append_assoc fun_upd_same)
  with all show ?case using IH(2) e(1,2) by blast
qed

lemma set_sorted_names [simp]: "set (sorted_names es) = e_name ` set es" "distinct (sorted_names es)"
  by (simp_all add: sorted_names_def)

text \<open>The new tree read back: under each name the entry the loop chose.\<close>

lemma merged_level:
  assumes new: "tree_new (concat (map (\<lambda>n. opt_list (re n)) ns)) = Inr t" and root: "get_tree m st = Inr t"
    and a: "get_tree ours st = Inr a" and b: "get_tree theirs st = Inr b"
    and g: "case base of Some i \<Rightarrow> get_tree i st = Inr g | None \<Rightarrow> g = tree_default"
    and ns: "set ns = e_name ` (set (entries a) \<union> set (entries b) \<union> set (entries g))"
    and re: "\<And>n. n \<in> set ns \<Longrightarrow> entry_ok pre (tree_get a) (tree_get b) (tree_get g) cs st n (re n)"
  shows "merged_ok pre base ours theirs cs m st"
  unfolding merged_ok_def
proof (intro allI impI)
  fix st2 ps
  assume ext: "extends st st2" and ok: "names_ok ps" and out: "\<not> path_in_conflict_scope (child_prefix pre (join_with [slash] ps)) cs"
  obtain n qs where ps: "ps = n # qs" using ok by (cases ps) (auto simp: names_ok_def)
  have tree: "tree_ok t" "set (entries t) = (\<Union>n \<in> set ns. set_option (re n))"
    using new by (auto simp: tree_new_iff)
  have ok3: "tree_ok a" "tree_ok b" "tree_ok g"
    using get_ok a b g by (auto simp: tree_ok_def tree_default_def split: option.splits)
  have outside: "tree_get u n = None" if "tree_ok u" "n \<notin> e_name ` set (entries u)" for u
    using tree_get_iff [OF that(1)] that(2) by (metis image_eqI not_None_eq)
  have named: "re n' = Some e \<Longrightarrow> e_name e = n'" if "n' \<in> set ns" for n' e using re [OF that] by (simp add: entry_ok_def)
  have look: "tree_get t n = (if n \<in> set ns then re n else None)"
  proof (cases "n \<in> set ns \<and> re n \<noteq> None")
    case True
    then obtain e where e: "re n = Some e" by blast
    then have "e \<in> set (entries t)" "e_name e = n" using True named [of n] by (auto simp: tree(2) intro!: bexI [of _ n])
    then show ?thesis using tree_get_iff [OF tree(1)] True e by auto
  next
    case False
    then have "n \<notin> e_name ` set (entries t)" using named by (auto simp: tree(2))
    then show ?thesis using outside [OF tree(1)] False by auto
  qed
  note at = file_at_Cons [where get = get_tree and n = n and qs = qs]
  have "file_at get_tree st2 base (n # qs) = entry_file get_tree st2 (tree_get g n) qs"
  proof (cases base)
    case None
    then show ?thesis using g by (simp add: tree_default_def tree_get_def)
  next
    case (Some i)
    then show ?thesis using g at [OF extends_get [OF ext]] by (simp del: file_at.simps)
  qed
  then have files: "file_at get_tree st2 base ps = entry_file get_tree st2 (tree_get g n) qs"
      "file_at get_tree st2 (Some ours) ps = entry_file get_tree st2 (tree_get a n) qs"
      "file_at get_tree st2 (Some theirs) ps = entry_file get_tree st2 (tree_get b n) qs"
      "file_at get_tree st2 (Some m) ps = entry_file get_tree st2 (tree_get t n) qs"
    using at [OF extends_get [OF ext]] a b root by (simp_all add: ps del: file_at.simps)
  show "merges_to (file_at get_tree st2 base ps) (file_at get_tree st2 (Some ours) ps)
      (file_at get_tree st2 (Some theirs) ps) (file_at get_tree st2 (Some m) ps)"
  proof (cases "n \<in> set ns")
    case True
    then show ?thesis using re [OF True] ext ok [unfolded ps] out [unfolded ps] look unfolding files entry_ok_def name_ok_def by simp
  next
    case False
    then have "tree_get a n = None" "tree_get b n = None" "tree_get t n = None"
      using outside ok3 look by (auto simp: ns)
    then show ?thesis unfolding files by simp
  qed
qed

text \<open>The promise of \<open>merge_trees\<close>, by induction on the recursion of a call that returns.\<close>

lemma merge_trees_ok:
  assumes "merge_trees get_tree put_tree pre base ours theirs cs st = Some (Inr r, st')"
  shows "promise pre base ours theirs cs st r st'"
proof -
  have "get = get_tree \<longrightarrow> put = put_tree \<longrightarrow> extends st (snd z) \<and>
      (\<forall>r. fst z = Inr r \<longrightarrow> promise pre base ours theirs cs st r (snd z))"
    if "merge_trees get put pre base ours theirs cs st = Some z" for get put pre base ours theirs cs st z
    using that
  proof (induction rule: merge_trees.raw_induct [rotated 1, consumes 1, case_names step])
    case (step rec get put pre base ours theirs cs st z)
    have IH: "promise p b x y cs st r st2" if "rec get_tree put_tree p b x y cs st = Some (Inr r, st2)" for p b x y cs st r st2
      using step.IH [OF that] by simp
    have ext: "extends st st2" if "rec get_tree put_tree p b x y cs st = Some (r, st2)" for p b x y cs st r st2
      using step.IH [OF that] by simp
    have trans: "extends st st2"
      if "act_fold (\<lambda>n. merge_name (rec get_tree put_tree) (child_prefix pre n) (A n) (B n) (G n)) ns acc st = Some (r, st2)"
      for A B G ns acc r st2
      by (rule act_fold_state [OF that]) (auto dest: merge_name_extends [OF _ ext] intro: extends_trans)
    show ?case
    proof (intro impI conjI allI)
      assume [simp]: "get = get_tree" "put = put_tree"
      obtain r st' where z: "z = (r, st')" by (cases z)
      from step.hyps show "extends st (snd z)"
        unfolding z by (auto simp: act_bind_Some split: if_split_asm dest!: trans extends_put intro: extends_trans)
    next
      fix r
      assume gp: "get = get_tree" "put = put_tree" and "fst z = Inr r"
      then obtain st' m cs' where z: "z = (Inr (m, cs'), st')" and r: "r = (m, cs')" by (cases z; cases r) auto
      have equal: "promise pre base ours theirs cs st (ours, cs) st" if "ours = theirs \<or> Some theirs = base"
        using that by (auto simp: promise_def merged_ok_def)
      have ours_base: "promise pre base ours theirs cs st (theirs, cs) st" if "Some ours = base"
        using that by (auto simp: promise_def merged_ok_def)
      show "promise pre base ours theirs cs st r (snd z)"
      proof (cases "ours = theirs \<or> Some ours = base \<or> Some theirs = base")
        case True
        then show ?thesis using step.hyps equal ours_base unfolding z r gp by (auto split: if_split_asm)
      next
        case False
        then obtain a b g out st1 t where
          reads: "get_tree ours st = Inr a" "get_tree theirs st = Inr b"
            "(case base of Some i \<Rightarrow> get_tree i st | None \<Rightarrow> Inr tree_default) = Inr g"
          and loop: "act_fold (\<lambda>n. merge_name (rec get_tree put_tree) (child_prefix pre n) (map_of (as_map a) n)
              (map_of (as_map b) n) (map_of (as_map g) n)) (sorted_names (entries a @ entries b @ entries g)) ([], cs) st = Some (Inr (out, cs'), st1)"
          and new: "tree_new out = Inr t" and put: "put_tree t st1 = (Inr m, st')"
          using step.hyps unfolding z gp by (auto simp: act_bind_Inr_iff)
        have oks: "tree_ok a" "tree_ok b" "tree_ok g"
          using reads get_ok by (auto simp: tree_ok_def tree_default_def split: option.splits)
        let ?ns = "sorted_names (entries a @ entries b @ entries g)"
        have loop': "act_fold (\<lambda>n. merge_name (rec get_tree put_tree) (child_prefix pre n) (tree_get a n) (tree_get b n) (tree_get g n))
            ?ns ([], cs) st = Some (Inr (out, cs'), st1)"
          using loop by (simp only: as_map_lookup [OF oks(1)] as_map_lookup [OF oks(2)] as_map_lookup [OF oks(3)])
        have names: "n \<noteq> []" if "n \<in> set ?ns" for n
          using that oks by (auto simp: tree_ok_def validate_name_def)
        show ?thesis unfolding promise_def z r fst_conv snd_conv
        proof
          assume good: "good st'"
          have good1: "good st1" using put_good [OF put good] .
          have got: "tree_get u n = Some e \<Longrightarrow> e_name e = n" if "tree_ok u" for u n e
            using tree_get_iff [OF that] by blast
          have all: "good st \<and> set cs \<subseteq> set cs' \<and> (\<exists>re. out = [] @ concat (map (\<lambda>n. opt_list (re n)) ?ns) \<and>
              (\<forall>n \<in> set ?ns. entry_ok pre (tree_get a) (tree_get b) (tree_get g) cs' st1 n (re n)))"
            by (rule merge_fold_ok [OF loop' good1 set_sorted_names(2) names got [OF oks(1)] got [OF oks(2)] IH]) (assumption | erule ext)+
          obtain re where f: "good st" "set cs \<subseteq> set cs'" "out = concat (map (\<lambda>n. opt_list (re n)) ?ns)"
            "\<forall>n \<in> set ?ns. entry_ok pre (tree_get a) (tree_get b) (tree_get g) cs' st1 n (re n)"
            using all by auto
          have root: "get_tree m st' = Inr t" using put_get [OF put _ good] new by (simp add: tree_new_iff)
          have e1: "extends st1 st'" and e: "extends st st'"
            using extends_put [OF put] trans [OF loop] extends_trans by blast+
          have "merged_ok pre base ours theirs cs' m st'"
          proof (rule merged_level [OF new [unfolded f(3)] root extends_get [OF e reads(1)] extends_get [OF e reads(2)]])
            show "case base of None \<Rightarrow> g = tree_default | Some i \<Rightarrow> get_tree i st' = Inr g"
              using reads(3) extends_get [OF e] by (auto split: option.splits)
            show "entry_ok pre (tree_get a) (tree_get b) (tree_get g) cs' st' n (re n)" if "n \<in> set ?ns" for n
              using entry_ok_mono [OF _ e1] f(4) that by blast
          qed auto
          then show "good st \<and> set cs \<subseteq> set cs' \<and> merged_ok pre base ours theirs cs' m st'" using f(1,2) by simp
        qed
      qed
    qed
  qed
  from this [OF assms] show ?thesis by simp
qed

lemma complete_extends: "complete_tree get_tree n i st \<Longrightarrow> extends st st' \<Longrightarrow> complete_tree get_tree n i st'"
  by (induction n arbitrary: i) (auto dest: extends_get)

lemma merge_trees_returns:
  "complete_tree get_tree n ours st \<Longrightarrow> merge_trees get_tree put_tree pre base ours theirs cs st \<noteq> None"
proof (induction n arbitrary: pre base ours theirs cs st)
  case 0
  then show ?case by simp
next
  case (Suc n)
  then obtain a where a: "get_tree ours st = Inr a" "\<forall>e \<in> set (entries a). e_kind e = EntryKind.Tree \<longrightarrow> complete_tree get_tree n (e_id e) st"
    by auto
  let ?rec = "\<lambda>p b x y cs st. merge_trees get_tree put_tree p b x y cs st"
  have ok: "tree_ok a" using get_ok a(1) .
  have one: "merge_name ?rec path (map_of (as_map a) k) pb pg acc st1 \<noteq> None" if "extends st st1" for path k pb pg acc st1
  proof -
    have "?rec p b (e_id x) y cs st1 \<noteq> None" if "map_of (as_map a) k = Some x" "e_kind x = EntryKind.Tree" for p b x y cs
      using that a(2) Suc.IH complete_extends [OF _ \<open>extends st st1\<close>] tree_get_iff [OF ok] unfolding as_map_lookup [OF ok] by blast
    then show ?thesis
      by (cases acc; cases "map_of (as_map a) k"; cases pb)
        (auto simp: merge_name_def act_bind_not_None simp del: not_None_eq split: prod.split)
  qed
  have fold: "act_fold (\<lambda>k. merge_name ?rec (child_prefix pre k) (map_of (as_map a) k) (B k) (G k)) ns acc st \<noteq> None" for B G ns acc
  proof (rule act_fold_returns [of "extends st"])
    fix k acc st1 r st2
    assume e: "extends st st1"
    show "merge_name ?rec (child_prefix pre k) (map_of (as_map a) k) (B k) (G k) acc st1 \<noteq> None" using one [OF e] .
    assume "merge_name ?rec (child_prefix pre k) (map_of (as_map a) k) (B k) (G k) acc st1 = Some (r, st2)"
    then have "extends st1 st2" by (rule merge_name_extends) (rule merge_trees_extends)
    then show "extends st st2" using extends_trans [OF e] by blast
  qed simp
  show ?case
    by (subst merge_trees.simps) (auto simp: a(1) act_bind_not_None simp del: not_None_eq intro!: fold)
qed

end

end
