(* ===== verification/Merge_Bases.thy ===== *)
theory Merge_Bases
  imports Merge
begin

text \<open>
  Ancestry and merge bases (\<open>ancestor_map\<close>, \<open>merge_bases\<close>, \<open>lca\<close> of \<open>src/crates/forge-merge/src/lib.rs\<close>):
  the walks compute exactly the ancestors and exactly the best common ancestors of the commit graph.
\<close>

section \<open>Reachability\<close>

definition reach :: "('a \<Rightarrow> 'a \<Rightarrow> bool) \<Rightarrow> 'a set \<Rightarrow> 'a set" where
  "reach E S = {y. \<exists>x \<in> S. E\<^sup>*\<^sup>* x y}"

lemma reach_Un: "reach E (S \<union> T) = reach E S \<union> reach E T"
  by (auto simp: reach_def)

lemma reach_empty [simp]: "reach E {} = {}"
  by (simp add: reach_def)

lemma reach_incl: "S \<subseteq> reach E S"
  by (auto simp: reach_def)

lemma reach_mono: "S \<subseteq> T \<Longrightarrow> reach E S \<subseteq> reach E T"
  by (auto simp: reach_def)

lemma reach_step: "reach E {x} = insert x (reach E {y. E x y})"
  by (auto simp: reach_def elim: converse_rtranclpE intro: converse_rtranclp_into_rtranclp)

lemma reach_seen:
  assumes "\<And>x y. x \<in> S \<Longrightarrow> E x y \<Longrightarrow> y \<in> S \<union> T"
  shows "reach E S \<subseteq> S \<union> reach E T"
proof
  fix y
  assume "y \<in> reach E S"
  then obtain x where x: "x \<in> S" "E\<^sup>*\<^sup>* x y" by (auto simp: reach_def)
  from x(2,1) show "y \<in> S \<union> reach E T"
  proof (induction rule: rtranclp_induct)
    case base
    then show ?case by simp
  next
    case (step y z)
    then have "y \<in> S \<or> y \<in> reach E T" by auto
    then show ?case
      using assms step.hyps(2) reach_incl [of T E] by (auto simp: reach_def intro: rtranclp.rtrancl_into_rtrancl)
  qed
qed

lemma reach_least:
  assumes "S \<subseteq> C" "\<And>x y. x \<in> C \<Longrightarrow> E x y \<Longrightarrow> y \<in> C"
  shows "reach E S \<subseteq> C"
  using reach_seen [of C E "{}"] assms by (force simp: reach_def)

lemma reach_cong:
  assumes "\<And>x y. x \<in> C \<Longrightarrow> E x y \<longleftrightarrow> F x y" "\<And>x y. x \<in> C \<Longrightarrow> E x y \<Longrightarrow> y \<in> C" "S \<subseteq> C"
  shows "reach E S = reach F S"
proof -
  have "E\<^sup>*\<^sup>* x y \<longleftrightarrow> F\<^sup>*\<^sup>* x y" if "x \<in> C" for x y
  proof
    show "E\<^sup>*\<^sup>* x y" if "F\<^sup>*\<^sup>* x y"
      using that \<open>x \<in> C\<close> assms(1,2)
      by (induction rule: converse_rtranclp_induct) (auto intro: converse_rtranclp_into_rtranclp)
    show "F\<^sup>*\<^sup>* x y" if "E\<^sup>*\<^sup>* x y"
      using that \<open>x \<in> C\<close> assms(1,2)
      by (induction rule: converse_rtranclp_induct) (auto intro: converse_rtranclp_into_rtranclp)
  qed
  then show ?thesis using assms(3) by (auto simp: reach_def)
qed

section \<open>Ancestors\<close>

definition parent_of :: "(oid \<Rightarrow> error + Commit) \<Rightarrow> oid \<Rightarrow> oid \<Rightarrow> bool" where
  "parent_of get c p \<longleftrightarrow> (\<exists>k. get c = Inr k \<and> p \<in> set (c_parents k))"

definition ancestors :: "(oid \<Rightarrow> error + Commit) \<Rightarrow> oid \<Rightarrow> oid set" where
  "ancestors get a = reach (parent_of get) {a}"

text \<open>An ancestry map in progress: every row is a commit's parent list, no id twice.\<close>

definition rows_ok :: "(oid \<Rightarrow> error + Commit) \<Rightarrow> ancestry \<Rightarrow> bool" where
  "rows_ok get out \<longleftrightarrow> distinct (map fst out) \<and> length out \<le> MAX_ANCESTRY_COMMITS \<and>
    (\<forall>i ps. (i, ps) \<in> set out \<longrightarrow> (\<exists>k. get i = Inr k \<and> ps = c_parents k))"

lemma rows_ok_Cons:
  "rows_ok get out \<Longrightarrow> map_of out i = None \<Longrightarrow> length out < MAX_ANCESTRY_COMMITS \<Longrightarrow> get i = Inr k \<Longrightarrow>
    rows_ok get ((i, c_parents k) # out)"
  by (auto simp: rows_ok_def map_of_eq_None_iff)

lemma rows_ok_parents:
  assumes "rows_ok get out" "map_of out i = Some ps"
  shows "parent_of get i p \<longleftrightarrow> p \<in> set ps"
  using assms map_of_SomeD by (fastforce simp: rows_ok_def parent_of_def)

lemma ancestor_loop_keys:
  assumes "ancestor_loop get stack out = Inr m" "rows_ok get out"
    and "\<And>x y. x \<in> fst ` set out \<Longrightarrow> parent_of get x y \<Longrightarrow> y \<in> fst ` set out \<union> set stack"
  shows "rows_ok get m \<and> fst ` set m = fst ` set out \<union> reach (parent_of get) (set stack)"
  using assms
proof (induction get stack out rule: ancestor_loop.induct)
  case (1 get out)
  then show ?case by (simp add: ancestor_loop.simps)
next
  case (2 get i stack out)
  let ?K = "fst ` set out" and ?R = "reach (parent_of get)"
  have set: "?R (set (i # stack)) = ?R {i} \<union> ?R (set stack)"
    using reach_Un [of _ "{i}" "set stack"] by simp
  show ?case
  proof (cases "map_of out i = None")
    case False
    then have i: "i \<in> ?K" by (metis domIff dom_map_of_conv_image_fst)
    have closed: "y \<in> ?K \<union> set stack" if "x \<in> ?K" "parent_of get x y" for x y
      using 2(5) [OF that] i by auto
    have "?R {i} \<subseteq> ?R ?K" using i by (intro reach_mono) simp
    also have "\<dots> \<subseteq> ?K \<union> ?R (set stack)" by (rule reach_seen) (rule closed)
    finally have sub: "?R {i} \<subseteq> ?K \<union> ?R (set stack)" .
    have "ancestor_loop get stack out = Inr m" using 2(3) False by (simp add: ancestor_loop.simps)
    then have "rows_ok get m \<and> fst ` set m = ?K \<union> ?R (set stack)"
      by (rule 2(1) [OF False _ 2(4)]) (rule closed)
    then show ?thesis using sub unfolding set by blast
  next
    case True
    then obtain k where k: "get i = Inr k" "length out < MAX_ANCESTRY_COMMITS"
      "ancestor_loop get (rev (c_parents k) @ stack) ((i, c_parents k) # out) = Inr m"
      using 2(3) by (auto simp: ancestor_loop.simps and_then_Inr_iff split: if_split_asm)
    have ps: "{y. parent_of get i y} = set (c_parents k)" using k(1) by (auto simp: parent_of_def)
    have inv: "y \<in> fst ` set ((i, c_parents k) # out) \<union> set (rev (c_parents k) @ stack)"
      if "x \<in> fst ` set ((i, c_parents k) # out)" "parent_of get x y" for x y
    proof (cases "x = i")
      case True
      then show ?thesis using that(2) ps by auto
    next
      case False
      then show ?thesis using 2(5) [of x y] that by auto
    qed
    have "rows_ok get m \<and> fst ` set m = fst ` set ((i, c_parents k) # out) \<union> ?R (set (rev (c_parents k) @ stack))"
      using 2(2) [OF _ _ k(1,3) rows_ok_Cons [OF 2(4) True k(2,1)] inv] True k(2) by simp
    then show ?thesis using set reach_step [of "parent_of get" i] reach_Un [of "parent_of get" "set (c_parents k)" "set stack"]
      by (auto simp: ps)
  qed
qed

lemma ancestor_loop_returns:
  assumes "rows_ok get out" "reach (parent_of get) (set stack) \<subseteq> {i. is_ok (get i)}"
    and "finite (fst ` set out \<union> reach (parent_of get) (set stack))"
    and "card (fst ` set out \<union> reach (parent_of get) (set stack)) \<le> MAX_ANCESTRY_COMMITS"
  shows "is_ok (ancestor_loop get stack out)"
  using assms
proof (induction get stack out rule: ancestor_loop.induct)
  case (1 get out)
  then show ?case by (simp add: ancestor_loop.simps)
next
  case (2 get i stack out)
  let ?R = "reach (parent_of get)"
  have set: "?R (set (i # stack)) = ?R {i} \<union> ?R (set stack)"
    using reach_Un [of _ "{i}" "set stack"] by simp
  show ?case
  proof (cases "map_of out i = None")
    case False
    have "card (fst ` set out \<union> ?R (set stack)) \<le> card (fst ` set out \<union> ?R (set (i # stack)))"
      using 2(5) set by (intro card_mono) auto
    then have "is_ok (ancestor_loop get stack out)"
      using 2(1) [OF False 2(3)] 2(4-6) set by (auto simp del: set_simps elim: finite_subset [rotated])
    then show ?thesis using False by (simp add: ancestor_loop.simps)
  next
    case True
    have i: "i \<in> ?R (set (i # stack))" using set reach_incl [of "{i}"] by blast
    then obtain k where k: "get i = Inr k" using 2(4) by (auto simp: is_ok_iff)
    have ps: "{y. parent_of get i y} = set (c_parents k)" using k by (auto simp: parent_of_def)
    have new: "fst ` set ((i, c_parents k) # out) \<union> ?R (set (rev (c_parents k) @ stack)) = fst ` set out \<union> ?R (set (i # stack))"
      using set reach_step [of "parent_of get" i] reach_Un [of "parent_of get" "set (c_parents k)" "set stack"] by (auto simp: ps)
    have "fst ` set out \<subset> fst ` set out \<union> ?R (set (i # stack))" using True i by (auto simp: map_of_eq_None_iff)
    then have "card (fst ` set out) < card (fst ` set out \<union> ?R (set (i # stack)))" using 2(5) by (rule psubset_card_mono [rotated])
    moreover have "card (fst ` set out) = length out"
      using 2(3) distinct_card [of "map fst out"] by (simp add: rows_ok_def)
    ultimately have len: "length out < MAX_ANCESTRY_COMMITS" using 2(6) by linarith
    have sub: "?R (set (rev (c_parents k) @ stack)) \<subseteq> {i. is_ok (get i)}" using 2(4) set reach_step [of "parent_of get" i]
      reach_Un [of "parent_of get" "set (c_parents k)" "set stack"] by (auto simp: ps)
    have "is_ok (ancestor_loop get (rev (c_parents k) @ stack) ((i, c_parents k) # out))"
      using 2(2) [OF _ _ k rows_ok_Cons [OF 2(3) True len k] sub] 2(5,6) True len unfolding new by auto
    then show ?thesis using True len k by (simp add: ancestor_loop.simps)
  qed
qed

lemma rows_ok_Nil [simp]: "rows_ok get []"
  by (simp add: rows_ok_def)

lemma ancestor_map_Inr:
  assumes "ancestor_map get a = Inr m"
  shows "rows_ok get m" "fst ` set m = ancestors get a"
  using ancestor_loop_keys [of get "[a]" "[]" m] assms by (simp_all add: ancestor_map_def ancestors_def)

text \<open>
  C32: The ancestry walk is total and bounded. It succeeds exactly when every ancestor can be read and there
  are at most a million of them; it then lists every ancestor exactly once with its parents. In every other
  case it returns an error instead of running on.
\<close>

theorem ancestor_map_exact:
  "is_ok (ancestor_map get a) \<longleftrightarrow>
    ancestors get a \<subseteq> {i. is_ok (get i)} \<and> finite (ancestors get a) \<and> card (ancestors get a) \<le> MAX_ANCESTRY_COMMITS"
proof
  assume "is_ok (ancestor_map get a)"
  then obtain m where m: "ancestor_map get a = Inr m" by (auto simp: is_ok_iff)
  note keys = ancestor_map_Inr(2) [OF m, symmetric] and rows = ancestor_map_Inr(1) [OF m]
  have "card (fst ` set m) \<le> length m" using card_length [of "map fst m"] by simp
  then show "ancestors get a \<subseteq> {i. is_ok (get i)} \<and> finite (ancestors get a) \<and> card (ancestors get a) \<le> MAX_ANCESTRY_COMMITS"
    using rows unfolding keys by (fastforce simp: rows_ok_def is_ok_iff)
next
  assume "ancestors get a \<subseteq> {i. is_ok (get i)} \<and> finite (ancestors get a) \<and> card (ancestors get a) \<le> MAX_ANCESTRY_COMMITS"
  then show "is_ok (ancestor_map get a)"
    using ancestor_loop_returns [of get "[]" "[a]"] by (simp add: ancestor_map_def ancestors_def)
qed

section \<open>Merge bases\<close>

lemma dominated_loop_reach:
  defines "E am x y \<equiv> y \<in> set (recorded_parents am x)"
  assumes "\<And>x y. x \<in> seen \<Longrightarrow> E am x y \<Longrightarrow> y \<in> seen \<union> set stack" "seen \<inter> set common \<subseteq> dominated"
  shows "dominated_loop am common stack seen dominated = dominated \<union> (set common \<inter> reach (E am) (set stack))"
  using assms(2,3)
proof (induction am common stack seen dominated rule: dominated_loop.induct)
  case (1 am common seen dominated)
  then show ?case by (simp add: dominated_loop.simps)
next
  case (2 am common i stack seen dominated)
  have set: "reach (E am) (set (i # stack)) = reach (E am) {i} \<union> reach (E am) (set stack)"
    using reach_Un [of _ "{i}" "set stack"] by simp
  show ?case
  proof (cases "i \<in> seen")
    case True
    then have "reach (E am) {i} \<subseteq> reach (E am) seen" by (intro reach_mono) simp
    also have "\<dots> \<subseteq> seen \<union> reach (E am) (set stack)"
      using reach_seen [of seen "E am" "set stack"] 2(3) True by auto
    finally have sub: "reach (E am) {i} \<subseteq> seen \<union> reach (E am) (set stack)" .
    have "y \<in> seen \<union> set stack" if "x \<in> seen" "E am x y" for x y using 2(3) that True by auto
    then have "dominated_loop am common stack seen dominated = dominated \<union> (set common \<inter> reach (E am) (set stack))"
      using 2(1) [OF True] 2(4) by blast
    then show ?thesis using sub True set 2(4) by (auto simp: dominated_loop.simps)
  next
    case False
    let ?d = "if i \<in> set common then insert i dominated else dominated"
    have "dominated_loop am common (recorded_parents am i @ stack) (insert i seen) ?d =
        ?d \<union> (set common \<inter> reach (E am) (set (recorded_parents am i @ stack)))"
      using 2(2) [OF False] 2(3,4) unfolding E_def by fastforce
    moreover have "reach (E am) (set (recorded_parents am i @ stack)) = reach (E am) {y. E am i y} \<union> reach (E am) (set stack)"
      using reach_Un [of "E am" "set (recorded_parents am i)" "set stack"] by (simp add: E_def)
    ultimately show ?thesis using False set reach_step [of "E am" i] by (auto simp: dominated_loop.simps)
  qed
qed

definition best_common :: "(oid \<Rightarrow> error + Commit) \<Rightarrow> oid \<Rightarrow> oid \<Rightarrow> oid set" where
  "best_common get a b =
    {c \<in> ancestors get a \<inter> ancestors get b. \<forall>d \<in> ancestors get a \<inter> ancestors get b. \<not> (parent_of get)\<^sup>+\<^sup>+ d c}"

lemma reach_parents: "reach (parent_of get) {y. parent_of get d y} = {c. (parent_of get)\<^sup>+\<^sup>+ d c}"
  by (auto simp: reach_def tranclp_unfold_left)

lemma dominated_by_Inr:
  assumes am: "ancestor_map get a = Inr am" and d: "d \<in> ancestors get a"
  shows "dominated_by am common d D = Inr (D \<union> (set common \<inter> {c. (parent_of get)\<^sup>+\<^sup>+ d c}))"
proof -
  let ?E = "\<lambda>x y. y \<in> set (recorded_parents am x)"
  note rows = ancestor_map_Inr(1) [OF am] and keys = ancestor_map_Inr(2) [OF am]
  have same: "?E x y \<longleftrightarrow> parent_of get x y" if "x \<in> ancestors get a" for x y
    using that rows_ok_parents [OF rows] unfolding keys [symmetric]
    by (cases "map_of am x") (auto simp: recorded_parents_def map_of_eq_None_iff)
  have closed: "y \<in> ancestors get a" if "x \<in> ancestors get a" "parent_of get x y" for x y
    using that by (auto simp: ancestors_def reach_def intro: rtranclp.rtrancl_into_rtrancl)
  obtain ps where ps: "map_of am d = Some ps"
    using d unfolding keys [symmetric] by (cases "map_of am d") (auto simp: map_of_eq_None_iff)
  then have p: "set ps = {y. parent_of get d y}" using rows_ok_parents [OF rows] by auto
  have "reach ?E (set ps) = reach (parent_of get) (set ps)"
    by (rule reach_cong [of "ancestors get a"]) (use same closed d p in auto)
  moreover have "dominated_loop am common (rev ps) {} D = D \<union> (set common \<inter> reach ?E (set (rev ps)))"
    by (rule dominated_loop_reach) auto
  ultimately show ?thesis using ps by (simp add: dominated_by_def p reach_parents)
qed

lemma dominated_fold:
  assumes "ancestor_map get a = Inr am" "set ds \<subseteq> ancestors get a"
  shows "try_fold (dominated_by am common) ds D = Inr (D \<union> (set common \<inter> {c. \<exists>d \<in> set ds. (parent_of get)\<^sup>+\<^sup>+ d c}))"
  using assms(2)
proof (induction ds arbitrary: D)
  case (Cons d ds)
  then show ?case by (auto simp: dominated_by_Inr [OF assms(1)])
qed simp

lemma best_common_self:
  assumes "\<not> (parent_of get)\<^sup>+\<^sup>+ a a"
  shows "best_common get a a = {a}"
proof -
  have "c = a \<or> (parent_of get)\<^sup>+\<^sup>+ a c" if "c \<in> ancestors get a" for c
    using that by (auto simp: ancestors_def reach_def dest: rtranclpD)
  moreover have "a \<in> ancestors get a" using reach_incl [of "{a}"] by (auto simp: ancestors_def)
  moreover have "\<not> (parent_of get)\<^sup>+\<^sup>+ d a" if "d \<in> ancestors get a" for d
    using that assms by (auto simp: ancestors_def reach_def dest: rtranclp_tranclp_tranclp)
  ultimately show ?thesis unfolding best_common_def by blast
qed

text \<open>
  C24: \<open>merge_bases\<close> returns exactly the best common ancestors: the common ancestors that no other common
  ancestor descends to, each once, in id order. A pair of unrelated commits has none. The only assumption
  is that the first commit is not its own ancestor.
\<close>

theorem merge_bases_exact:
  assumes "merge_bases get a b = Inr bases" and "\<not> (parent_of get)\<^sup>+\<^sup>+ a a"
  shows "set bases = best_common get a b \<and> distinct bases \<and> sorted (map oid_bytes bases)"
proof (cases "a = b")
  case True
  then show ?thesis using assms best_common_self by (auto simp: merge_bases_def and_then_Inr_iff)
next
  case False
  obtain am bm where m: "ancestor_map get a = Inr am" "ancestor_map get b = Inr bm"
    using assms(1) False by (auto simp: merge_bases_def and_then_Inr_iff)
  define common where "common = filter (\<lambda>i. map_of bm i \<noteq> None) (map fst am)"
  have set: "set common = ancestors get a \<inter> ancestors get b"
    using ancestor_map_Inr(2) [OF m(1)] ancestor_map_Inr(2) [OF m(2)] by (auto simp: common_def map_of_eq_None_iff)
  have dist: "distinct common" using ancestor_map_Inr(1) [OF m(1)] by (simp add: common_def rows_ok_def)
  let ?dom = "set common \<inter> {c. \<exists>d \<in> set common. (parent_of get)\<^sup>+\<^sup>+ d c}"
  have "bases = sort_key oid_bytes (filter (\<lambda>i. i \<notin> ?dom) common)"
  proof (cases "common = []")
    case True
    then show ?thesis using assms(1) False m unfolding merge_bases_def common_def by simp
  next
    case cne: False
    have "set common \<subseteq> ancestors get a" using set by simp
    from dominated_fold [OF m(1) this, of common "{}"]
    have "try_fold (dominated_by am common) common {} = Inr ?dom" by simp
    then have "merge_bases get a b = Inr (sort_key oid_bytes (filter (\<lambda>i. i \<notin> ?dom) common))"
      unfolding merge_bases_def m Let_def and_then_simps common_def [symmetric] if_not_P [OF False] if_not_P [OF cne]
      by simp
    then show ?thesis using assms(1) by simp
  qed
  then show ?thesis using dist unfolding best_common_def set [symmetric] by auto
qed

text \<open>A criss-cross history: both 4 and 5 have the parents 2 and 3, which share the root 1.\<close>

definition criss_cross :: "oid \<Rightarrow> error + Commit" where
  "criss_cross i =
    (let commit = (\<lambda>ps. Inr \<lparr>c_tree = 0, c_parents = ps, c_agent = [], c_msg = [], c_ts = 0, c_landmark = False, c_contrib = None\<rparr>) in
     if i = 1 then commit [] else if i = 2 \<or> i = 3 then commit [1] else if i = 4 \<or> i = 5 then commit [2, 3]
     else Inl (NotFound ''object''))"

lemma criss_cross_step: "parent_of criss_cross a b \<Longrightarrow> b < a"
  by (auto simp: parent_of_def criss_cross_def Let_def split: if_split_asm)

lemma criss_cross_older: "(parent_of criss_cross)\<^sup>+\<^sup>+ a b \<Longrightarrow> b < a"
  by (induction rule: tranclp_induct) (auto dest: criss_cross_step)

theorem merge_bases_exact_witness:
  "\<exists>bases. merge_bases criss_cross 4 5 = Inr bases \<and> set bases = {2, 3} \<and> best_common criss_cross 4 5 = {2, 3}"
proof -
  have "\<exists>bases. merge_bases criss_cross 4 5 = Inr bases \<and> set bases = {2, 3}"
    by (simp add: merge_bases_def ancestor_map_def ancestor_loop.simps criss_cross_def MAX_ANCESTRY_COMMITS_def
        dominated_by_def dominated_loop.simps recorded_parents_def Let_def) blast
  then obtain bases where b: "merge_bases criss_cross 4 5 = Inr bases" "set bases = {2, 3}" by blast
  have "\<not> (parent_of criss_cross)\<^sup>+\<^sup>+ 4 4" by (meson criss_cross_older less_irrefl)
  from merge_bases_exact [OF b(1) this] b show ?thesis by simp
qed

end
