(* ===== verification/Merge_Correct.thy ===== *)
theory Merge_Correct
  imports Merge_Laws Merge_Bases
begin

text \<open>
  The merge on a whole store: \<open>Store::put_tree\<close> and \<open>Store::get_tree\<close> (\<open>src/crates/forge-store/src/lib.rs\<close>)
  meet the tree store contract, and the laws of the merge hold of \<open>auto_merge_tree\<close> and \<open>three_way\<close>. The second
  half follows the walks over trees: they return, and \<open>changed_paths\<close> misses no file.
\<close>

section \<open>Trees in a store\<close>

text \<open>A store with the byte strings offered to it so far (a ghost, as in a publication).\<close>

record StoreLog =
  l_store :: MemoryObjectStore
  l_seen :: "bytes set"

definition store_get_tree :: "(bytes \<Rightarrow> oid) \<Rightarrow> oid \<Rightarrow> StoreLog \<Rightarrow> error + Tree" where
  "store_get_tree H i l = get_tree H i (l_store l)"

definition store_put_tree :: "(bytes \<Rightarrow> oid) \<Rightarrow> Tree \<Rightarrow> StoreLog \<Rightarrow> (error + oid) \<times> StoreLog" where
  "store_put_tree H t l =
    (case the (tree_encode t) of
       Inl e \<Rightarrow> (Inl e, l)
     | Inr bs \<Rightarrow>
         (case store_put H bs (l_store l) of (r, st) \<Rightarrow> (r, l\<lparr>l_store := st, l_seen := insert bs (l_seen l)\<rparr>)))"

definition log_good :: "(bytes \<Rightarrow> oid) \<Rightarrow> StoreLog \<Rightarrow> bool" where
  "log_good H l \<longleftrightarrow> inj_on H (ran (visible (l_store l)) \<union> l_seen l)"

text \<open>A put on the store is a publication of one object.\<close>

definition as_publication :: "StoreLog \<Rightarrow> Publication" where
  "as_publication l = \<lparr>p_store = l_store l, p_batch = begin_batch, p_seen = l_seen l\<rparr>"

lemma batch_finish_visible [simp]: "visible (batch_finish (st, b)) = visible st"
  by (simp add: batch_finish_def Let_def)

lemma store_put_tree_batch:
  assumes "store_put_tree H t l = (r, l')"
  shows "\<exists>p'. batch_put_tree H t (as_publication l) = (r, p') \<and> visible (p_store p') = visible (l_store l') \<and> p_seen p' = l_seen l'"
proof (cases "the (tree_encode t)")
  case (Inl e)
  then show ?thesis using assms by (simp add: store_put_tree_def batch_put_tree_def as_publication_def)
next
  case (Inr bs)
  then show ?thesis
    using assms
    by (auto simp: store_put_tree_def batch_put_tree_def as_publication_def store_put_def store_put_parts_def batch_put_def
        split: prod.splits sum.splits)
qed

lemma get_tree_visible: "visible (p_store p) = visible (l_store l) \<Longrightarrow> batch_get_tree H i p = store_get_tree H i l"
  by (simp add: batch_get_tree_def store_get_tree_def get_tree_def store_get_def)

lemma log_good_publication:
  "visible (p_store p) = visible (l_store l) \<Longrightarrow> p_seen p = l_seen l \<Longrightarrow> publication_good H p = log_good H l"
  by (simp add: publication_good_def log_good_def)

interpretation whole: tree_store "store_get_tree H" "store_put_tree H" "log_good H" for H
proof unfold_locales
  note pub = as_publication_def
  show "tree_ok t" if "store_get_tree H i l = Inr t" for i l t
    using mem.get_ok [of H i "as_publication l" t] get_tree_visible [of "as_publication l" l H i] that by (simp add: pub)
  show "log_good H l" if put: "store_put_tree H t l = (r, l')" and "log_good H l'" for t l r l'
  proof -
    obtain p' where p: "batch_put_tree H t (as_publication l) = (r, p')" "visible (p_store p') = visible (l_store l')" "p_seen p' = l_seen l'"
      using store_put_tree_batch [OF put] by blast
    then show ?thesis
      using mem.put_good [OF p(1)] log_good_publication [OF p(2,3), of H] that(2)
        log_good_publication [of "as_publication l" l H] by (simp add: pub)
  qed
  show "store_get_tree H i l' = Inr t" if put: "store_put_tree H t l = (Inr i, l')" and "tree_ok t" "log_good H l'" for t l i l'
  proof -
    obtain p' where p: "batch_put_tree H t (as_publication l) = (Inr i, p')" "visible (p_store p') = visible (l_store l')" "p_seen p' = l_seen l'"
      using store_put_tree_batch [OF put] by blast
    then show ?thesis
      using mem.put_get [OF p(1) that(2)] log_good_publication [OF p(2,3), of H] get_tree_visible [OF p(2)] that(3) by simp
  qed
  show "store_get_tree H j l' = Inr u" if put: "store_put_tree H t l = (r, l')" and "store_get_tree H j l = Inr u" for t l r l' j u
  proof -
    obtain p' where p: "batch_put_tree H t (as_publication l) = (r, p')" "visible (p_store p') = visible (l_store l')"
      using store_put_tree_batch [OF put] by blast
    then show ?thesis
      using mem.put_keeps [OF p(1), of j u] get_tree_visible [OF p(2)] that(2) get_tree_visible [of "as_publication l" l H j]
      by (simp add: pub)
  qed
qed

section \<open>The merge\<close>

lemma auto_merge_tree_Inr:
  assumes "auto_merge_tree get put base ours theirs st = Some (Inr (m, paths), st')"
  shows "\<exists>cs cs'. merge_trees get put [] base ours theirs cs st = Some (Inr (m, cs'), st') \<and> set paths = set cs'"
  using assms by (auto simp: auto_merge_tree_def act_bind_Inr_iff) blast

lemma scope_set: "set cs = set cs' \<Longrightarrow> path_in_conflict_scope p cs = path_in_conflict_scope p cs'"
  by (simp add: path_in_conflict_scope_def list_ex_iff)

lemma auto_merge_three_way:
  assumes "auto_merge_tree (store_get_tree H) (store_put_tree H) base ours theirs l = Some (Inr (m, paths), l')"
    and "log_good H l'" and "names_ok ps" and "\<not> path_in_conflict_scope (join_with [slash] ps) paths"
  shows "merges_to (file_at (store_get_tree H) l' base ps) (file_at (store_get_tree H) l' (Some ours) ps)
    (file_at (store_get_tree H) l' (Some theirs) ps) (file_at (store_get_tree H) l' (Some m) ps)"
proof -
  obtain cs cs' where m: "merge_trees (store_get_tree H) (store_put_tree H) [] base ours theirs cs l = Some (Inr (m, cs'), l')"
    and set: "set paths = set cs'" using auto_merge_tree_Inr [OF assms(1)] by blast
  have "whole.merged_ok H [] base ours theirs cs' m l'"
    using whole.merge_trees_ok [OF m] assms(2) by (simp add: whole.promise_def)
  then show ?thesis
    using assms(3,4) scope_set [OF set] by (simp add: whole.merged_ok_def child_prefix_def)
qed

text \<open>
  C2: The automatic merge is a three-way merge at every path it does not report. Outside the scope of the
  recorded conflicts one of the sides has left the path as it was in the base (or both sides agree), and the
  merged tree holds the other side's file; so a path that both sides changed differently is always reported.
\<close>

theorem merge_is_three_way:
  assumes "auto_merge_tree (store_get_tree H) (store_put_tree H) base ours theirs l = Some (Inr (m, paths), l')"
    and "log_good H l'" and "names_ok ps" and "\<not> path_in_conflict_scope (join_with [slash] ps) paths"
  shows "merges_to (file_at (store_get_tree H) l' base ps) (file_at (store_get_tree H) l' (Some ours) ps)
    (file_at (store_get_tree H) l' (Some theirs) ps) (file_at (store_get_tree H) l' (Some m) ps)"
  using assms by (rule auto_merge_three_way)

lemma three_way_clean:
  assumes "three_way (store_get_tree H) (store_put_tree H) base ours theirs l = Some (Inr (MergedTree m), l')" "log_good H l'"
  shows "log_good H l \<and> whole.extends H l l' \<and> (\<forall>l2 ps. whole.extends H l' l2 \<longrightarrow> names_ok ps \<longrightarrow>
    merges_to (file_at (store_get_tree H) l2 base ps) (file_at (store_get_tree H) l2 (Some ours) ps)
      (file_at (store_get_tree H) l2 (Some theirs) ps) (file_at (store_get_tree H) l2 (Some m) ps))"
proof -
  obtain cs cs' where m: "merge_trees (store_get_tree H) (store_put_tree H) [] base ours theirs cs l = Some (Inr (m, cs'), l')" "cs' = []"
    using assms(1) auto_merge_tree_Inr [of "store_get_tree H" "store_put_tree H" base ours theirs l m "[]" l']
    by (auto simp: three_way_def act_bind_Inr_iff split: if_split_asm)
  have "log_good H l" and "whole.merged_ok H [] base ours theirs [] m l'"
    using whole.merge_trees_ok [OF m(1)] assms(2) m(2) by (simp_all add: whole.promise_def)
  then show ?thesis
    using whole.merge_trees_extends [OF m(1)]
    by (simp add: whole.merged_ok_def path_in_conflict_scope_def)
qed

text \<open>
  A clean merge does not depend on which side is merged into which: if the merge of \<open>ours\<close> and
  \<open>theirs\<close> and the merge of \<open>theirs\<close> and \<open>ours\<close> are both clean, they have the same files.
\<close>

theorem clean_merge_symmetric:
  assumes "three_way (store_get_tree H) (store_put_tree H) base ours theirs l = Some (Inr (MergedTree m), l1)"
    and "three_way (store_get_tree H) (store_put_tree H) base theirs ours l1 = Some (Inr (MergedTree m'), l2)"
    and "log_good H l2" and "names_ok ps"
  shows "file_at (store_get_tree H) l2 (Some m) ps = file_at (store_get_tree H) l2 (Some m') ps"
proof -
  have l1: "log_good H l1" "whole.extends H l1 l2" using three_way_clean [OF assms(2,3)] by auto
  show ?thesis
    using three_way_clean [OF assms(1) l1(1)] three_way_clean [OF assms(2,3)] l1(2) assms(4)
    by (intro merges_to_sym [where b = "file_at (store_get_tree H) l2 base ps"]) auto
qed

section \<open>The walks return\<close>

lemma walk_loop_simps:
  "walk_loop step [] acc = Some (Inr acc)"
  "walk_loop step (x # xs) acc = (case step x acc of Inl e \<Rightarrow> Some (Inl e) | Inr r \<Rightarrow> walk_loop step (snd r @ xs) (fst r))"
  by (subst walk_loop.simps, simp)+

text \<open>A walk returns when every item it pushes has a smaller rank than the item it handles.\<close>

lemma walk_loop_returns:
  fixes W :: "nat \<Rightarrow> 'x \<Rightarrow> bool"
  assumes "\<And>x acc r n. W n x \<Longrightarrow> step x acc = Inr r \<Longrightarrow> \<exists>k < n. \<forall>y \<in> set (snd r). W k y"
    and "\<forall>x \<in> set xs. W n x"
  shows "walk_loop step xs acc \<noteq> None"
proof -
  have "walk_loop step (xs @ rest) acc \<noteq> None"
    if "\<forall>x \<in> set xs. W n x" "\<And>acc. walk_loop step rest acc \<noteq> None" for n xs rest acc
    using that
  proof (induction n arbitrary: xs rest acc rule: less_induct)
    case (less n)
    show ?case using less.prems
    proof (induction xs arbitrary: acc)
      case (Cons x xs)
      show ?case
      proof (cases "step x acc")
        case (Inr r)
        obtain k where k: "k < n" "\<forall>y \<in> set (snd r). W k y" using assms(1) [OF _ Inr, of n] Cons.prems(1) by auto
        have "walk_loop step (snd r @ (xs @ rest)) (fst r) \<noteq> None"
          by (rule less.IH [OF k]) (rule Cons.IH, use Cons.prems in auto)
        then show ?thesis using Inr by (simp add: walk_loop_simps del: not_None_eq)
      qed (simp add: walk_loop_simps)
    qed simp
  qed
  from this [of xs n "[]"] assms(2) show ?thesis by (simp add: walk_loop_simps)
qed

lemma change_step_pushes:
  assumes "tree_ok b"
  shows "set (snd (fold (change_step pre b s) ns (c, stack))) \<subseteq>
    set stack \<union> {y. \<exists>e \<in> set (entries b). e_kind e = EntryKind.Tree \<and> fst (snd y) = e_id e}"
proof (induction ns arbitrary: c stack)
  case (Cons n ns)
  have mem: "e \<in> set (entries b)" if "tree_get b n = Some e" for e using tree_get_iff [OF assms] that by blast
  obtain c' stack' where one: "change_step pre b s n (c, stack) = (c', stack')" by fastforce
  have "set stack' \<subseteq> set stack \<union> {y. \<exists>e \<in> set (entries b). e_kind e = EntryKind.Tree \<and> fst (snd y) = e_id e}"
    using one mem unfolding change_step_def as_map_lookup [OF assms]
    by (auto simp: Let_def split: option.splits if_split_asm)
  then show ?case using Cons.IH [of c' stack'] one by auto
qed simp

lemma count_step_pushes:
  "set (snd (fold (count_step wanted) es (c, stack))) \<subseteq> set stack \<union> e_id ` {e \<in> set es. e_kind e = EntryKind.Tree}"
proof (induction es arbitrary: c stack)
  case (Cons e es)
  obtain c' stack' where one: "count_step wanted e (c, stack) = (c', stack')" by fastforce
  then have "set stack' \<subseteq> set stack \<union> (if e_kind e = EntryKind.Tree then {e_id e} else {})"
    by (auto simp: count_step_def Let_def)
  then show ?case using Cons.IH [of c' stack'] one by (auto split: if_splits)
qed simp

lemma read_pair_Inr: "read_pair get i j = Inr (l, r) \<longleftrightarrow> get i = Inr l \<and> get j = Inr r"
  by (auto simp: read_pair_def and_then_Inr_iff)

lemma tree_changes_returns:
  assumes "complete_tree (store_get_tree H) n base l"
  shows "tree_changes (\<lambda>i. store_get_tree H i l) base side \<noteq> None"
  unfolding tree_changes_def
proof (rule walk_loop_returns [where W = "\<lambda>n y. complete_tree (store_get_tree H) n (fst (snd y)) l" and n = n])
  fix x acc r and n :: nat
  assume c: "complete_tree (store_get_tree H) n (fst (snd x)) l" and step: "change_item (\<lambda>i. store_get_tree H i l) x acc = Inr r"
  obtain k where k: "n = Suc k" using c by (cases n) auto
  obtain pre i j where x: "x = (pre, i, j)" by (cases x)
  show "\<exists>k<n. \<forall>y\<in>set (snd r). complete_tree (store_get_tree H) k (fst (snd y)) l"
  proof (cases "i = j")
    case True
    then show ?thesis using step k by (auto simp: change_item_def x)
  next
    case False
    then obtain b s where b: "store_get_tree H i l = Inr b"
      and r: "r = fold (change_step pre b s) (sorted_names (entries b @ entries s)) (acc, [])"
      using step by (auto simp: change_item_def x and_then_Inr_iff read_pair_Inr)
    have "\<forall>e \<in> set (entries b). e_kind e = EntryKind.Tree \<longrightarrow> complete_tree (store_get_tree H) k (e_id e) l"
      using c b by (auto simp: x k)
    then show ?thesis
      using change_step_pushes [OF whole.get_ok [OF b], of pre s "sorted_names (entries b @ entries s)" acc "[]"] k
      unfolding r by (intro exI [of _ k]) fastforce
  qed
qed (use assms in simp)

lemma count_returns:
  assumes "complete_tree (store_get_tree H) n base l"
  shows "count_base_identities (\<lambda>i. store_get_tree H i l) base wanted \<noteq> None"
proof -
  have "walk_loop (count_item (\<lambda>i. store_get_tree H i l) wanted) [base] Map.empty \<noteq> None"
  proof (rule walk_loop_returns [where W = "\<lambda>n i. complete_tree (store_get_tree H) n i l" and n = n])
    fix x acc r and n :: nat
    assume c: "complete_tree (store_get_tree H) n x l" and step: "count_item (\<lambda>i. store_get_tree H i l) wanted x acc = Inr r"
    obtain k where k: "n = Suc k" using c by (cases n) auto
    obtain t where t: "store_get_tree H x l = Inr t" "r = fold (count_step wanted) (entries t) (acc, [])"
      using step by (auto simp: count_item_def and_then_Inr_iff)
    have "\<forall>e \<in> set (entries t). e_kind e = EntryKind.Tree \<longrightarrow> complete_tree (store_get_tree H) k (e_id e) l"
      using c t by (auto simp: k)
    then show "\<exists>k<n. \<forall>y\<in>set (snd r). complete_tree (store_get_tree H) k y l"
      using count_step_pushes [of wanted "entries t" acc "[]"] k unfolding t(2) by (intro exI [of _ k]) fastforce
  qed (use assms in simp)
  then show ?thesis by (simp add: count_base_identities_def)
qed

lemma walk_bind_not_None: "m \<noteq> None \<Longrightarrow> (\<And>x. f x \<noteq> None) \<Longrightarrow> walk_bind m f \<noteq> None"
  by (auto simp: walk_bind_def split: option.splits sum.splits)

lemma exact_rename_returns:
  assumes "complete_tree (store_get_tree H) n base l"
  shows "exact_rename_conflicts (\<lambda>i. store_get_tree H i l) base ours theirs \<noteq> None"
  unfolding exact_rename_conflicts_def Let_def
  by (intro walk_bind_not_None tree_changes_returns [OF assms] count_returns [OF assms]) simp

text \<open>
  C33: A merge returns. If the base (where there is one) and our tree can be read in full, with at most
  \<open>n\<close> levels, then \<open>three_way\<close> returns an outcome or an error: the rename walks and the recursive merge all end.
\<close>

theorem three_way_terminates:
  assumes "complete_tree (store_get_tree H) n ours l"
    and "case base of None \<Rightarrow> True | Some i \<Rightarrow> complete_tree (store_get_tree H) n i l"
  shows "\<exists>r. three_way (store_get_tree H) (store_put_tree H) base ours theirs l = Some r"
proof -
  let ?paths = "case base of
      Some i \<Rightarrow>
        if ours \<noteq> theirs \<and> ours \<noteq> i \<and> theirs \<noteq> i then exact_rename_conflicts (\<lambda>j. store_get_tree H j l) i ours theirs
        else Some (Inr [])
    | None \<Rightarrow> Some (Inr [])"
  have "?paths \<noteq> None"
    using assms(2) exact_rename_returns by (cases base) (auto simp del: not_None_eq)
  moreover have "merge_trees (store_get_tree H) (store_put_tree H) [] base ours theirs cs l \<noteq> None" for cs
    by (rule whole.merge_trees_returns [OF assms(1)])
  ultimately have "auto_merge_tree (store_get_tree H) (store_put_tree H) base ours theirs l \<noteq> None"
    unfolding auto_merge_tree_def act_bind_not_None by (auto simp del: not_None_eq split: prod.splits)
  then have "three_way (store_get_tree H) (store_put_tree H) base ours theirs l \<noteq> None"
    unfolding three_way_def act_bind_not_None by (auto simp del: not_None_eq split: prod.splits)
  then show ?thesis by blast
qed

end
