(* ===== verification/Merge_Scope.thy ===== *)
theory Merge_Scope
  imports Merge_Correct
begin

text \<open>
  Scoped resolution of a conflict: \<open>changed_paths\<close> (\<open>src/crates/forge-merge/src/lib.rs\<close>) and the choice of the
  resolved tree in \<open>Forge::resolve\<close> (\<open>src/crates/forge-api/src/integration.rs\<close>). A tree supplied by the
  resolver may differ from the automatic merge only where the conflict says so. At the end, a worked example.
\<close>

section \<open>The choice of the resolved tree\<close>

datatype ResolveChoice = Ours | Theirs | ChosenTree oid

definition resolve_tree :: "(bytes \<Rightarrow> oid) \<Rightarrow> Conflict \<Rightarrow> ResolveChoice \<Rightarrow> (error, oid, StoreLog) act" where
  "resolve_tree H conflict choice =
    (case choice of
       Ours \<Rightarrow> act_ret (k_ours conflict)
     | Theirs \<Rightarrow> act_ret (k_theirs conflict)
     | ChosenTree i \<Rightarrow>
         act_bind (act_of (\<lambda>l. object_type H i (l_store l))) (\<lambda>ty.
           if ty \<noteq> ObjectType.Tree then act_of (\<lambda>_. Inl (Invalid ''resolve --tree is not a tree''))
           else if k_paths conflict = [] then
             if i \<noteq> k_ours conflict \<and> i \<noteq> k_theirs conflict
             then act_of (\<lambda>_. Inl (Invalid ''multi-base conflict resolution accepts only --ours or --theirs''))
             else act_ret i
           else
             act_bind (act_of (\<lambda>_. case k_bases conflict of [] \<Rightarrow> Inr None | [one] \<Rightarrow> Inr (Some one)
                 | _ \<Rightarrow> Inl (Invalid ''conflict with multiple bases cannot take a scoped --tree''))) (\<lambda>base.
             act_bind (auto_merge_tree (store_get_tree H) (store_put_tree H) base (k_ours conflict) (k_theirs conflict)) (\<lambda>(auto, _).
             act_bind (\<lambda>l. map_option (\<lambda>r. (r, l)) (changed_paths (\<lambda>j. store_get_tree H j l) auto i)) (\<lambda>changed.
               if list_ex (\<lambda>p. \<not> path_in_conflict_scope p (k_paths conflict)) changed
               then act_of (\<lambda>_. Inl (Invalid ''resolve --tree escapes conflict scope''))
               else act_ret i)))))"

section \<open>What \<open>changed_paths\<close> covers\<close>

definition covered :: "string \<Rightarrow> string set \<Rightarrow> bool" where
  "covered p S \<longleftrightarrow> (\<exists>c \<in> S. p = c \<or> prefix (c @ [slash]) p)"

lemma covered_below: "child_prefix pre n \<in> S \<Longrightarrow> covered (child_prefix pre (join_with [slash] (n # qs))) S"
  by (cases qs) (auto simp: covered_def child_prefix_def prefix_def intro!: bexI [of _ "child_prefix pre n"])

lemma walk_loop_invariant:
  assumes "walk_loop step xs acc = Some (Inr r)" "I xs acc"
    and "\<And>x xs acc s. I (x # xs) acc \<Longrightarrow> step x acc = Inr s \<Longrightarrow> I (snd s @ xs) (fst s)"
  shows "I [] r"
proof -
  have "f = step \<longrightarrow> I xs acc \<longrightarrow> (\<forall>r. z = Inr r \<longrightarrow> I [] r)" if "walk_loop f xs acc = Some z" for f xs acc z
    using that
  proof (induction rule: walk_loop.raw_induct [rotated 1, consumes 1, case_names step])
    case (step rec f xs acc z)
    then show ?case
      using assms(3) by (auto split: list.splits sum.splits)
  qed
  from this [OF assms(1)] assms(2) show ?thesis by simp
qed

lemma changed_step_adds:
  "changed_step pre l r n (out, stack) =
    (fst (changed_step pre l r n ([], [])) @ out, snd (changed_step pre l r n ([], [])) @ stack)"
  by (auto simp: changed_step_def Let_def split: option.split)

lemma changed_fold:
  "set out \<subseteq> set (fst (fold (changed_step pre l r) ns (out, stack))) \<and> set stack \<subseteq> set (snd (fold (changed_step pre l r) ns (out, stack))) \<and>
    (\<forall>n \<in> set ns. set (fst (changed_step pre l r n ([], []))) \<subseteq> set (fst (fold (changed_step pre l r) ns (out, stack))) \<and>
      set (snd (changed_step pre l r n ([], []))) \<subseteq> set (snd (fold (changed_step pre l r) ns (out, stack))))"
proof (induction ns arbitrary: out stack)
  case (Cons n ns)
  let ?o = "fst (changed_step pre l r n ([], []))" and ?s = "snd (changed_step pre l r n ([], []))"
  have "fold (changed_step pre l r) (n # ns) (out, stack) = fold (changed_step pre l r) ns (?o @ out, ?s @ stack)"
    using changed_step_adds [of pre l r n out stack] by simp
  then show ?case using Cons.IH [of "?o @ out" "?s @ stack"] by auto
qed simp

text \<open>A file that differs in two directories shows in what the walk records or pushes for its first name.\<close>

lemma changed_step_file:
  assumes ok: "tree_ok l" "tree_ok r" and d: "entry_file get st (tree_get l n) qs \<noteq> entry_file get st (tree_get r n) qs"
  shows "child_prefix pre n \<in> set (fst (changed_step pre l r n ([], []))) \<or>
    (\<exists>i j. (child_prefix pre n, i, j) \<in> set (snd (changed_step pre l r n ([], []))) \<and> qs \<noteq> [] \<and>
      file_at get st (Some i) qs \<noteq> file_at get st (Some j) qs)"
proof (cases "\<exists>a b. tree_get l n = Some a \<and> tree_get r n = Some b")
  case True
  then obtain a b where ab: "tree_get l n = Some a" "tree_get r n = Some b" by blast
  have "\<not> same_entry a b" using d entry_file_same [of a b get st qs] ab by auto
  then show ?thesis
    using d by (auto simp: changed_step_def as_map_lookup ok ab entry_file_def Let_def split: if_splits)
next
  case False
  then show ?thesis by (auto simp: changed_step_def as_map_lookup ok Let_def split: option.splits)
qed

text \<open>The walk still owes a look at the path \<open>p\<close>.\<close>

definition pending :: "(oid \<Rightarrow> string list \<Rightarrow> staged) \<Rightarrow> string \<Rightarrow> walk \<Rightarrow> bool" where
  "pending F p stack \<longleftrightarrow> (\<exists>(pre, i, j) \<in> set stack. \<exists>qs. names_ok qs \<and> child_prefix pre (join_with [slash] qs) = p \<and> F i qs \<noteq> F j qs)"

lemma pending_append: "pending F p (xs @ ys) \<longleftrightarrow> pending F p xs \<or> pending F p ys"
  unfolding pending_def set_append bex_Un ..

lemma covered_mono: "covered p S \<Longrightarrow> S \<subseteq> T \<Longrightarrow> covered p T"
  by (auto simp: covered_def)

lemma changed_item_keeps:
  fixes H l
  defines "F \<equiv> \<lambda>i. file_at (store_get_tree H) l (Some i)"
  assumes step: "changed_item (\<lambda>i. store_get_tree H i l) (pre, i, j) acc = Inr s"
    and qs: "names_ok qs" "F i qs \<noteq> F j qs"
  shows "covered (child_prefix pre (join_with [slash] qs)) (set (fst s)) \<or> pending F (child_prefix pre (join_with [slash] qs)) (snd s)"
proof -
  have "i \<noteq> j" using qs(2) by auto
  then obtain lt rt where t: "store_get_tree H i l = Inr lt" "store_get_tree H j l = Inr rt"
    and s: "s = fold (changed_step pre lt rt) (sorted_names (entries lt @ entries rt)) (acc, [])"
    using step by (auto simp: changed_item_def and_then_Inr_iff read_pair_Inr)
  note ok = whole.get_ok [OF t(1)] whole.get_ok [OF t(2)]
  note fold = changed_fold [of acc pre lt rt "sorted_names (entries lt @ entries rt)" "[]", folded s]
  obtain n rs where n: "qs = n # rs" "n \<noteq> []" using qs(1) by (cases qs) (auto simp: names_ok_def)
  have d: "entry_file (store_get_tree H) l (tree_get lt n) rs \<noteq> entry_file (store_get_tree H) l (tree_get rt n) rs"
    using qs(2) file_at_Cons [of "store_get_tree H" i l lt n rs] file_at_Cons [of "store_get_tree H" j l rt n rs] t n
    by (simp add: F_def)
  have "tree_get lt n \<noteq> None \<or> tree_get rt n \<noteq> None" using d by (metis entry_file_None)
  then have mem: "n \<in> set (sorted_names (entries lt @ entries rt))"
    using tree_get_iff [OF ok(1), of n] tree_get_iff [OF ok(2), of n] by force
  from changed_step_file [OF ok d, of pre] show ?thesis
  proof
    assume "child_prefix pre n \<in> set (fst (changed_step pre lt rt n ([], [])))"
    then have "child_prefix pre n \<in> set (fst s)" using fold mem by blast
    then show ?thesis using covered_below [of pre n "set (fst s)" rs] unfolding n(1) by blast
  next
    assume "\<exists>i j. (child_prefix pre n, i, j) \<in> set (snd (changed_step pre lt rt n ([], []))) \<and> rs \<noteq> [] \<and>
        file_at (store_get_tree H) l (Some i) rs \<noteq> file_at (store_get_tree H) l (Some j) rs"
    then obtain i' j' where p: "(child_prefix pre n, i', j') \<in> set (snd s)" "rs \<noteq> []" "F i' rs \<noteq> F j' rs"
      using fold mem unfolding F_def by blast
    have "names_ok rs" using qs(1) p(2) by (simp add: n names_ok_def)
    then show ?thesis
      using p child_prefix_deep [OF n(2) p(2), of pre] unfolding pending_def n(1) by blast
  qed
qed

lemma changed_item_grows: "changed_item get x acc = Inr s \<Longrightarrow> set acc \<subseteq> set (fst s)"
proof -
  assume step: "changed_item get x acc = Inr s"
  obtain pre i j where x: "x = (pre, i, j)" by (cases x)
  show ?thesis
  proof (cases "i = j")
    case True
    then show ?thesis using step by (auto simp: changed_item_def x)
  next
    case False
    then obtain lt rt where "s = fold (changed_step pre lt rt) (sorted_names (entries lt @ entries rt)) (acc, [])"
      using step by (auto simp: changed_item_def x and_then_Inr_iff)
    then show ?thesis using changed_fold [of acc pre lt rt _ "[]"] by simp
  qed
qed

lemma changed_paths_covers:
  assumes "changed_paths (\<lambda>i. store_get_tree H i l) left right = Some (Inr out)" and "names_ok ps"
    and "file_at (store_get_tree H) l (Some left) ps \<noteq> file_at (store_get_tree H) l (Some right) ps"
  shows "covered (join_with [slash] ps) (set out)"
proof -
  let ?F = "\<lambda>i. file_at (store_get_tree H) l (Some i)" and ?p = "join_with [slash] ps"
  have "covered ?p (set out) \<or> pending ?F ?p []"
  proof (rule walk_loop_invariant [where I = "\<lambda>stack out. covered ?p (set out) \<or> pending ?F ?p stack",
        OF assms(1) [unfolded changed_paths_def]])
    show "covered ?p (set []) \<or> pending ?F ?p [([], left, right)]"
      using assms(2,3) by (auto simp: pending_def child_prefix_def)
    fix x xs acc s
    assume inv: "covered ?p (set acc) \<or> pending ?F ?p (x # xs)"
      and step: "changed_item (\<lambda>i. store_get_tree H i l) x acc = Inr s"
    obtain pre i j where x: "x = (pre, i, j)" by (cases x)
    consider "covered ?p (set acc)" | "pending ?F ?p xs"
      | qs where "names_ok qs" "?F i qs \<noteq> ?F j qs" "child_prefix pre (join_with [slash] qs) = ?p"
      using inv by (auto simp: pending_def x)
    then show "covered ?p (set (fst s)) \<or> pending ?F ?p (snd s @ xs)"
    proof cases
      case 1
      then show ?thesis using covered_mono changed_item_grows [OF step] by blast
    next
      case 2
      then show ?thesis by (simp add: pending_append)
    next
      case 3
      then show ?thesis using changed_item_keeps [OF step [unfolded x] 3(1,2)] unfolding pending_append by auto
    qed
  qed
  then show ?thesis by (simp add: pending_def)
qed

text \<open>
  \<open>changed_paths\<close> misses nothing: a file that differs between two trees, or is in only one of them, is at or
  below one of the paths it lists.
\<close>

theorem changed_paths_complete:
  assumes "changed_paths (\<lambda>i. store_get_tree H i l) left right = Some (Inr out)" and "names_ok ps"
    and "file_at (store_get_tree H) l (Some left) ps \<noteq> file_at (store_get_tree H) l (Some right) ps"
  shows "covered (join_with [slash] ps) (set out)"
  using assms by (rule changed_paths_covers)

lemma scope_covered:
  assumes "covered p S" "\<And>c. c \<in> S \<Longrightarrow> path_in_conflict_scope c cs"
  shows "path_in_conflict_scope p cs"
proof -
  obtain c where c: "c \<in> S" "p = c \<or> prefix (c @ [slash]) p" using assms(1) by (auto simp: covered_def)
  obtain k where k: "k \<in> set cs" "c = cp_path k \<or> prefix (cp_path k @ [slash]) c"
    using assms(2) [OF c(1)] by (auto simp: path_in_conflict_scope_def list_ex_iff)
  have "p = cp_path k \<or> prefix (cp_path k @ [slash]) p"
    using c(2) k(2) by (auto simp: prefix_def)
  then show ?thesis using k(1) by (auto simp: path_in_conflict_scope_def list_ex_iff)
qed

text \<open>
  C23: A conflict with paths is resolved within its scope. When \<open>resolve --tree\<close> accepts a tree, that tree holds
  the files of the automatic merge at every path outside the recorded conflict paths; so at a path that neither
  the conflict nor the automatic merge reports, the resolution is still the three-way merge.
\<close>

theorem resolution_stays_in_scope:
  assumes "resolve_tree H conflict (ChosenTree i) l = Some (Inr t, l')" and "log_good H l'"
    and "k_paths conflict \<noteq> []" and "names_ok ps" and "\<not> path_in_conflict_scope (join_with [slash] ps) (k_paths conflict)"
  shows "\<exists>base auto paths. t = i \<and>
    auto_merge_tree (store_get_tree H) (store_put_tree H) base (k_ours conflict) (k_theirs conflict) l = Some (Inr (auto, paths), l') \<and>
    file_at (store_get_tree H) l' (Some t) ps = file_at (store_get_tree H) l' (Some auto) ps \<and>
    (path_in_conflict_scope (join_with [slash] ps) paths \<or>
     merges_to (file_at (store_get_tree H) l' base ps) (file_at (store_get_tree H) l' (Some (k_ours conflict)) ps)
       (file_at (store_get_tree H) l' (Some (k_theirs conflict)) ps) (file_at (store_get_tree H) l' (Some t) ps))"
proof -
  obtain base auto paths changed where t: "t = i"
    and m: "auto_merge_tree (store_get_tree H) (store_put_tree H) base (k_ours conflict) (k_theirs conflict) l = Some (Inr (auto, paths), l')"
    and c: "changed_paths (\<lambda>j. store_get_tree H j l') auto i = Some (Inr changed)"
      "list_all (\<lambda>p. path_in_conflict_scope p (k_paths conflict)) changed"
    using assms(1,3) by (auto simp: resolve_tree_def act_bind_Inr_iff list_ex_iff list_all_iff split: if_split_asm)
  have same: "file_at (store_get_tree H) l' (Some auto) ps = file_at (store_get_tree H) l' (Some i) ps"
  proof (rule ccontr)
    assume "\<not> ?thesis"
    then have "covered (join_with [slash] ps) (set changed)" by (rule changed_paths_covers [OF c(1) assms(4)])
    then show False using scope_covered assms(5) c(2) by (auto simp: list_all_iff)
  qed
  show ?thesis
    using t m same auto_merge_three_way [OF m assms(2,4)] by (intro exI [of _ base] exI [of _ auto] exI [of _ paths]) auto
qed

end
