(* ===== verification/Capability.thy ===== *)
theory Capability
  imports Types
begin

text \<open>
  The crate \<open>forge-cap\<close> (\<open>src/crates/forge-cap/src/lib.rs\<close>): macaroon-style capabilities. A
  capability is a chain of caveats under an HMAC; its authority is what the caveats parse to.

  HMAC-SHA256 (crates \<open>hmac\<close>, \<open>sha2\<close>) is the argument \<open>H\<close> of the definitions that sign or
  verify, a function from key and data to the tag. \<open>HashSet<Op>\<close> is a set, \<open>HashMap<Op, _>\<close> a map.
\<close>

section \<open>Operations\<close>

datatype Op = Read | Write | Branch | Merge | Grant | Seal

fun op_str :: "Op \<Rightarrow> string" where
  "op_str Read = ''read''"
| "op_str Write = ''write''"
| "op_str Branch = ''branch''"
| "op_str Merge = ''merge''"
| "op_str Grant = ''grant''"
| "op_str Seal = ''seal''"

definition all_ops :: "Op list" where
  "all_ops = [Read, Write, Branch, Merge, Grant, Seal]"

definition parse_op :: "string \<Rightarrow> error + Op" where
  "parse_op s =
    (if s = ''read'' then Inr Read
     else if s = ''write'' then Inr Write
     else if s = ''branch'' then Inr Branch
     else if s = ''merge'' then Inr Merge
     else if s = ''grant'' then Inr Grant
     else if s = ''seal'' then Inr Seal
     else Inl (Cap ''unknown op''))"

definition MAX_TOKEN_BYTES :: nat where "MAX_TOKEN_BYTES = 65536"

definition MAX_CAVEATS :: nat where "MAX_CAVEATS = 256"

definition MAX_FIELD_BYTES :: nat where "MAX_FIELD_BYTES = 65535"

record ParsedCaveats =
  p_ops :: "Op set"
  p_ref_sets :: "string list list"
  p_op_ref_sets :: "Op \<rightharpoonup> string list list"
  p_ref_not :: "string list"
  p_time_le :: "u64 option"
  p_agent :: "string option"
  p_agent_conflict :: bool

record Capability = ParsedCaveats +
  cap_loc :: string
  cap_id :: string
  cap_caveats :: "string list"
  cap_sig :: bytes

section \<open>Caveats\<close>

definition checked_u16_len :: "string \<Rightarrow> error + nat" where
  "checked_u16_len s = (if length s > MAX_FIELD_BYTES then Inl (Cap ''too large'') else Inr (length s))"

definition parse_ref_set :: "string \<Rightarrow> error + string list" where
  "parse_ref_set rest =
    (let set = filter (\<lambda>s. s \<noteq> []) (map trim (split_on CHR '','' rest)) in
     if set = [] then Inl (Cap ''empty caveat'') else Inr set)"

text \<open>\<open>str::parse::<u64>\<close>: an optional plus sign, then decimal digits, without overflow.\<close>

definition digit_val :: "char \<Rightarrow> nat option" where
  "digit_val c = (if CHR ''0'' \<le> c \<and> c \<le> CHR ''9'' then Some (of_char c - 48) else None)"

fun digits :: "string \<Rightarrow> nat \<Rightarrow> nat option" where
  "digits [] acc = Some acc"
| "digits (c # s) acc =
    (case digit_val c of
       None \<Rightarrow> None
     | Some d \<Rightarrow> if 10 * acc + d < 2 ^ 64 then digits s (10 * acc + d) else None)"

definition parse_u64 :: "string \<Rightarrow> u64 option" where
  "parse_u64 s =
    (let t = (case s of c # r \<Rightarrow> if c = CHR ''+'' then r else s | [] \<Rightarrow> s) in
     if t = [] then None else map_option of_nat (digits t 0))"

text \<open>The loop state of \<open>parse_caveats\<close>: the operations are \<open>None\<close> until an \<open>ops=\<close> caveat.\<close>

record CaveatVars =
  v_ops :: "Op set option"
  v_ref_sets :: "string list list"
  v_op_ref_sets :: "Op \<rightharpoonup> string list list"
  v_nots :: "string list"
  v_time_le :: "u64 option"
  v_agent :: "string option"
  v_agent_conflict :: bool

definition caveat_vars0 :: CaveatVars where
  "caveat_vars0 = \<lparr>v_ops = None, v_ref_sets = [], v_op_ref_sets = Map.empty, v_nots = [], v_time_le = None,
     v_agent = None, v_agent_conflict = False\<rparr>"

definition parse_op_part :: "string \<Rightarrow> Op set \<Rightarrow> error + Op set" where
  "parse_op_part part S =
    (let p = trim part in if p = [] then Inr S else and_then (parse_op p) (\<lambda>op. Inr (insert op S)))"

definition caveat_ops :: "string \<Rightarrow> CaveatVars \<Rightarrow> error + CaveatVars" where
  "caveat_ops rest v =
    and_then (try_fold parse_op_part (split_on CHR '','' rest) {}) (\<lambda>S.
      Inr (v\<lparr>v_ops := Some (case v_ops v of None \<Rightarrow> S | Some prev \<Rightarrow> prev \<inter> S)\<rparr>))"

definition caveat_allow :: "string \<Rightarrow> CaveatVars \<Rightarrow> error + CaveatVars" where
  "caveat_allow rest v =
    (case split_once CHR '':'' rest of
       None \<Rightarrow> Inl (Cap ''allow caveat needs allow=<op>:<refs>'')
     | Some (op_s, rs) \<Rightarrow>
         and_then (parse_op (trim op_s)) (\<lambda>op.
           and_then (parse_ref_set rs) (\<lambda>S.
             Inr (v\<lparr>v_op_ref_sets := (v_op_ref_sets v)
                      (op \<mapsto> (case v_op_ref_sets v op of None \<Rightarrow> [] | Some sets \<Rightarrow> sets) @ [S])\<rparr>))))"

definition caveat_time :: "string \<Rightarrow> CaveatVars \<Rightarrow> error + CaveatVars" where
  "caveat_time rest v =
    (case parse_u64 rest of
       None \<Rightarrow> Inl (Cap ''bad time<='')
     | Some t \<Rightarrow> Inr (v\<lparr>v_time_le := Some (case v_time_le v of None \<Rightarrow> t | Some prev \<Rightarrow> min prev t)\<rparr>))"

definition caveat_agent :: "string \<Rightarrow> CaveatVars \<Rightarrow> error + CaveatVars" where
  "caveat_agent rest v =
    (if rest = [] then Inl (Cap ''empty agent caveat'')
     else Inr (case v_agent v of
                 None \<Rightarrow> v\<lparr>v_agent := Some rest\<rparr>
               | Some prev \<Rightarrow> if prev = rest then v else v\<lparr>v_agent_conflict := True\<rparr>))"

definition parse_caveat :: "string \<Rightarrow> CaveatVars \<Rightarrow> error + CaveatVars" where
  "parse_caveat c v =
    and_then (checked_u16_len c) (\<lambda>_.
      case strip_prefix ''ops='' c of Some rest \<Rightarrow> caveat_ops rest v
      | None \<Rightarrow> (case strip_prefix ''allow='' c of Some rest \<Rightarrow> caveat_allow rest v
      | None \<Rightarrow> (case strip_prefix ''ref!='' c of
          Some rest \<Rightarrow> and_then (parse_ref_set rest) (\<lambda>S. Inr (v\<lparr>v_nots := v_nots v @ S\<rparr>))
      | None \<Rightarrow> (case strip_prefix ''ref='' c of
          Some rest \<Rightarrow> and_then (parse_ref_set rest) (\<lambda>S. Inr (v\<lparr>v_ref_sets := v_ref_sets v @ [S]\<rparr>))
      | None \<Rightarrow> (case strip_prefix ''time<='' c of Some rest \<Rightarrow> caveat_time rest v
      | None \<Rightarrow> (case strip_prefix ''agent='' c of Some rest \<Rightarrow> caveat_agent rest v
      | None \<Rightarrow> Inl (Cap ''unknown caveat'')))))))"

definition parsed_of_vars :: "CaveatVars \<Rightarrow> ParsedCaveats" where
  "parsed_of_vars v = \<lparr>p_ops = (case v_ops v of None \<Rightarrow> {} | Some S \<Rightarrow> S), p_ref_sets = v_ref_sets v,
     p_op_ref_sets = v_op_ref_sets v, p_ref_not = v_nots v, p_time_le = v_time_le v, p_agent = v_agent v,
     p_agent_conflict = v_agent_conflict v\<rparr>"

definition parse_caveats :: "string list \<Rightarrow> error + ParsedCaveats" where
  "parse_caveats caveats =
    (if length caveats > MAX_CAVEATS then Inl (Cap ''too many caveats'')
     else and_then (try_fold parse_caveat caveats caveat_vars0) (\<lambda>v. Inr (parsed_of_vars v)))"

section \<open>Authority\<close>

definition ref_matches :: "string \<Rightarrow> string \<Rightarrow> bool" where
  "ref_matches glob name =
    (if glob \<noteq> [] \<and> last glob = CHR ''*'' then prefix (butlast glob) name else glob = name)"

definition matches_any :: "string list \<Rightarrow> string \<Rightarrow> bool" where
  "matches_any globs name = list_ex (\<lambda>g. ref_matches g name) globs"

definition allows :: "'a ParsedCaveats_scheme \<Rightarrow> Op \<Rightarrow> string option \<Rightarrow> u64 \<Rightarrow> error + unit" where
  "allows c op ref_name now_ms =
    (if p_agent_conflict c then Inl (Denied ''cap has conflicting agent caveats'')
     else if op \<notin> p_ops c then Inl (Denied ''cap missing op'')
     else if (case p_time_le c of Some t \<Rightarrow> now_ms > t | None \<Rightarrow> False) then Inl (Denied ''cap expired'')
     else case ref_name of
            None \<Rightarrow> Inr ()
          | Some name \<Rightarrow>
              if list_ex (\<lambda>n. ref_matches n name) (p_ref_not c) then Inl (Denied ''cap excludes ref'')
              else if list_ex (\<lambda>S. \<not> matches_any S name) (p_ref_sets c) then Inl (Denied ''cap does not cover ref'')
              else if (case p_op_ref_sets c op of
                         Some scoped \<Rightarrow> list_ex (\<lambda>S. \<not> matches_any S name) scoped | None \<Rightarrow> False)
              then Inl (Denied ''cap does not allow op on ref'')
              else Inr ())"

definition agent_id :: "'a ParsedCaveats_scheme \<Rightarrow> string" where
  "agent_id c = (case p_agent c of Some a \<Rightarrow> a | None \<Rightarrow> ''anon'')"

definition has_unrestricted_ref_scope :: "'a ParsedCaveats_scheme \<Rightarrow> bool" where
  "has_unrestricted_ref_scope c \<longleftrightarrow>
     p_ref_sets c = [] \<and> list_all (\<lambda>op. p_op_ref_sets c op = None) all_ops \<and> p_ref_not c = []"

section \<open>Signatures\<close>

definition u16_be :: "nat \<Rightarrow> bytes" where
  "u16_be n = be_bytes 2 (of_nat n :: 16 word)"

definition prefix_bytes :: "string \<Rightarrow> string \<Rightarrow> bytes" where
  "prefix_bytes loc i =
     as_bytes ''FMAC'' @ [1] @ u16_be (length loc) @ as_bytes loc @ u16_be (length i) @ as_bytes i"

definition append_caveat_bytes :: "bytes \<Rightarrow> string \<Rightarrow> bytes" where
  "append_caveat_bytes v c = v @ u16_be (length c) @ as_bytes c"

definition caveat_mac_input :: "string \<Rightarrow> bytes" where
  "caveat_mac_input c = append_caveat_bytes [] c"

type_synonym hmac = "bytes \<Rightarrow> bytes \<Rightarrow> bytes"

definition sign_chain :: "hmac \<Rightarrow> bytes \<Rightarrow> string \<Rightarrow> string \<Rightarrow> string list \<Rightarrow> bytes" where
  "sign_chain H key loc i caveats =
    (if caveats = [] then H key (prefix_bytes loc i)
     else
       (let s = foldl (\<lambda>s c. H s (caveat_mac_input c)) (H key (prefix_bytes loc i)) (butlast caveats)
        in H s (caveat_mac_input (last caveats))))"

definition cap_from_parts :: "string \<Rightarrow> string \<Rightarrow> string list \<Rightarrow> bytes \<Rightarrow> error + Capability" where
  "cap_from_parts loc i caveats s =
    and_then (parse_caveats caveats) (\<lambda>p.
      Inr \<lparr>p_ops = p_ops p, p_ref_sets = p_ref_sets p, p_op_ref_sets = p_op_ref_sets p, p_ref_not = p_ref_not p,
           p_time_le = p_time_le p, p_agent = p_agent p, p_agent_conflict = p_agent_conflict p,
           cap_loc = loc, cap_id = i, cap_caveats = caveats, cap_sig = s\<rparr>)"

definition verify :: "hmac \<Rightarrow> bytes \<Rightarrow> Capability \<Rightarrow> error + unit" where
  "verify H key c =
    (if sign_chain H key (cap_loc c) (cap_id c) (cap_caveats c) = cap_sig c then Inr ()
     else Inl (Cap ''bad signature''))"

definition mint :: "hmac \<Rightarrow> bytes \<Rightarrow> string \<Rightarrow> string \<Rightarrow> string list \<Rightarrow> error + Capability" where
  "mint H key loc i caveats =
    and_then (checked_u16_len loc) (\<lambda>_.
    and_then (checked_u16_len i) (\<lambda>_.
    and_then (parse_caveats caveats) (\<lambda>_.
      cap_from_parts loc i caveats (sign_chain H key loc i caveats))))"

definition attenuate_step :: "hmac \<Rightarrow> string \<Rightarrow> bytes \<times> string list \<Rightarrow> error + bytes \<times> string list" where
  "attenuate_step H c = (\<lambda>(s, cs).
     and_then (checked_u16_len c) (\<lambda>_. Inr (H s (caveat_mac_input c), cs @ [c])))"

definition attenuate_holder :: "hmac \<Rightarrow> Capability \<Rightarrow> string list \<Rightarrow> error + Capability" where
  "attenuate_holder H c extra =
    (if length (cap_caveats c) + length extra > MAX_CAVEATS then Inl (Cap ''too many caveats'')
     else and_then (try_fold (attenuate_step H) extra (cap_sig c, cap_caveats c)) (\<lambda>(s, cs).
       cap_from_parts (cap_loc c) (cap_id c) cs s))"

definition attenuate :: "hmac \<Rightarrow> bytes \<Rightarrow> Capability \<Rightarrow> string list \<Rightarrow> error + Capability" where
  "attenuate H key c extra = attenuate_holder H c extra"

definition mint_root :: "hmac \<Rightarrow> bytes \<Rightarrow> error + Capability" where
  "mint_root H key = mint H key ''forge'' ''root'' [''ops=read,write,branch,merge,grant,seal'']"

definition mint_integrator :: "hmac \<Rightarrow> bytes \<Rightarrow> error + Capability" where
  "mint_integrator H key = mint H key ''forge'' ''integrator''
     [''ops=read,merge,seal,grant'', ''allow=read:main,heads/agents/*,forks/*,tags/*,conflicts/*'',
      ''allow=merge:main'', ''allow=seal:main,tags/*'']"

section \<open>Tokens\<close>

definition cap_encode :: "Capability \<Rightarrow> bytes" where
  "cap_encode c = foldl append_caveat_bytes (prefix_bytes (cap_loc c) (cap_id c)) (cap_caveats c) @ cap_sig c"

definition to_token :: "Capability \<Rightarrow> string" where
  "to_token c = ''fmac1_'' @ hex_encode (cap_encode c)"

definition slice :: "bytes \<Rightarrow> nat \<Rightarrow> nat \<Rightarrow> bytes" where
  "slice raw i n = take n (drop i raw)"

definition from_utf8 :: "bytes \<Rightarrow> error + string" where
  "from_utf8 bs = (if utf8 bs then Inr (str_of_bytes bs) else Inl (Cap ''utf8''))"

function decode_caveats :: "bytes \<Rightarrow> nat \<Rightarrow> string list \<Rightarrow> error + nat \<times> string list" where
  "decode_caveats raw i caveats =
    (if i + 32 < length raw then
       if length caveats \<ge> MAX_CAVEATS \<or> i + 2 > length raw - 32 then Inl (Cap ''bad caveat framing'')
       else
         (let n = be_val (slice raw i 2); i = i + 2 in
          if i + n + 32 > length raw then Inl (Cap ''cap caveat'')
          else and_then (from_utf8 (slice raw i n)) (\<lambda>c. decode_caveats raw (i + n) (caveats @ [c])))
     else Inr (i, caveats))"
  by pat_completeness auto
termination
  by (relation "measure (\<lambda>(raw, i, _). length raw - i)") auto

declare decode_caveats.simps [simp del]

definition decode_cap :: "bytes \<Rightarrow> error + Capability" where
  "decode_cap raw =
    (if length raw > MAX_TOKEN_BYTES then Inl (Cap ''cap too large'')
     else if length raw < 4 + 1 + 2 + 2 + 32 then Inl (Cap ''cap truncated'')
     else if slice raw 0 4 \<noteq> as_bytes ''FMAC'' \<or> raw ! 4 \<noteq> 1 then Inl (Cap ''bad cap header'')
     else
       (let loc_len = be_val (slice raw 5 2); i = 7 in
        if i + loc_len + 2 + 32 > length raw then Inl (Cap ''cap loc'')
        else and_then (from_utf8 (slice raw i loc_len)) (\<lambda>loc.
          let i = i + loc_len; id_len = be_val (slice raw i 2); i = i + 2 in
          if i + id_len + 32 > length raw then Inl (Cap ''cap id'')
          else and_then (from_utf8 (slice raw i id_len)) (\<lambda>cid.
            and_then (decode_caveats raw (i + id_len) []) (\<lambda>(i, caveats).
              if i + 32 \<noteq> length raw then Inl (Cap ''cap trailing'')
              else cap_from_parts loc cid caveats (drop i raw))))))"

definition from_token :: "string \<Rightarrow> error + Capability" where
  "from_token s =
    (let raw_hex = (case strip_prefix ''fmac1_'' s of Some r \<Rightarrow> r | None \<Rightarrow> s) in
     if length raw_hex > MAX_TOKEN_BYTES * 2 then Inl (Cap ''cap too large'')
     else and_then (hex_decode raw_hex) decode_cap)"

end
