(* ===== verification/Capability_Laws.thy ===== *)
theory Capability_Laws
  imports Capability
begin

text \<open>
  What holds of capabilities: attenuation extends the signature chain without the root key, only
  shrinks authority and never changes the agent; tokens read back exactly; the integrator's
  authority is what its caveats say.
\<close>

section \<open>The signature chain\<close>

lemma sign_chain_foldl:
  "sign_chain H key loc i cs = foldl (\<lambda>s c. H s (caveat_mac_input c)) (H key (prefix_bytes loc i)) cs"
  by (cases cs rule: rev_cases) (simp_all add: sign_chain_def Let_def)

lemma sign_chain_append:
  "sign_chain H key loc i (cs @ extra) = foldl (\<lambda>s c. H s (caveat_mac_input c)) (sign_chain H key loc i cs) extra"
  by (simp add: sign_chain_foldl)

lemma attenuate_step_Inr [simp]:
  "attenuate_step H c (s, cs) = Inr r \<longleftrightarrow> length c \<le> MAX_FIELD_BYTES \<and> r = (H s (caveat_mac_input c), cs @ [c])"
  by (auto simp: attenuate_step_def checked_u16_len_def)

lemma attenuate_steps:
  "try_fold (attenuate_step H) extra (s, cs) = Inr (s', cs') \<Longrightarrow>
    s' = foldl (\<lambda>s c. H s (caveat_mac_input c)) s extra \<and> cs' = cs @ extra"
proof (induction extra arbitrary: s cs)
  case (Cons c extra)
  have "try_fold (attenuate_step H) extra (H s (caveat_mac_input c), cs @ [c]) = Inr (s', cs')"
    using Cons.prems by (simp add: and_then_Inr_iff)
  then show ?case using Cons.IH by fastforce
qed simp

lemma cap_from_parts_Inr:
  assumes "cap_from_parts loc i cs s = Inr c"
  shows "cap_loc c = loc" "cap_id c = i" "cap_caveats c = cs" "cap_sig c = s"
    and "\<exists>p. parse_caveats cs = Inr p \<and> ParsedCaveats.truncate c = p"
  using assms by (auto simp: cap_from_parts_def and_then_Inr_iff ParsedCaveats.defs)

lemma attenuate_holder_Inr:
  assumes "attenuate_holder H c extra = Inr c'"
  shows "cap_loc c' = cap_loc c" "cap_id c' = cap_id c" "cap_caveats c' = cap_caveats c @ extra"
    and "cap_sig c' = foldl (\<lambda>s c. H s (caveat_mac_input c)) (cap_sig c) extra"
    and "cap_from_parts (cap_loc c) (cap_id c) (cap_caveats c @ extra) (cap_sig c') = Inr c'"
  using assms cap_from_parts_Inr
  by (auto simp: attenuate_holder_def and_then_Inr_iff dest!: attenuate_steps)

lemma verify_attenuate:
  assumes "verify H key c = Inr ()" "attenuate_holder H c extra = Inr c'"
  shows "verify H key c' = Inr ()"
  using assms(1) attenuate_holder_Inr [OF assms(2)] by (simp add: verify_def sign_chain_append split: if_split_asm)

text \<open>
  A holder who appends caveats with the current signature, and without the root key, gets a
  capability that verifies under the root key if the original does.
\<close>

theorem attenuation_keeps_signature:
  assumes "verify H key c = Inr ()" "attenuate_holder H c extra = Inr c'"
  shows "verify H key c' = Inr () \<and> cap_caveats c' = cap_caveats c @ extra"
  using verify_attenuate [OF assms] attenuate_holder_Inr(3) [OF assms(2)] by blast

section \<open>Authority only shrinks\<close>

definition narrower :: "CaveatVars \<Rightarrow> CaveatVars \<Rightarrow> bool" where
  "narrower v' v \<longleftrightarrow>
     (\<forall>A. v_ops v = Some A \<longrightarrow> (\<exists>B. v_ops v' = Some B \<and> B \<subseteq> A))
   \<and> set (v_ref_sets v) \<subseteq> set (v_ref_sets v')
   \<and> (\<forall>op S. v_op_ref_sets v op = Some S \<longrightarrow> (\<exists>S'. v_op_ref_sets v' op = Some S' \<and> set S \<subseteq> set S'))
   \<and> set (v_nots v) \<subseteq> set (v_nots v')
   \<and> (\<forall>t. v_time_le v = Some t \<longrightarrow> (\<exists>t'. v_time_le v' = Some t' \<and> t' \<le> t))
   \<and> (v_agent_conflict v \<longrightarrow> v_agent_conflict v')
   \<and> (\<forall>a. v_agent v = Some a \<longrightarrow> v_agent v' = Some a)"

lemma narrower_refl: "narrower v v"
  by (auto simp: narrower_def)

lemma narrower_trans:
  assumes "narrower v2 v1" "narrower v1 v0"
  shows "narrower v2 v0"
  unfolding narrower_def
proof (intro conjI allI impI)
  fix A assume "v_ops v0 = Some A"
  then show "\<exists>B. v_ops v2 = Some B \<and> B \<subseteq> A" using assms unfolding narrower_def by (metis order_trans)
next
  fix op S assume "v_op_ref_sets v0 op = Some S"
  then show "\<exists>S'. v_op_ref_sets v2 op = Some S' \<and> set S \<subseteq> set S'"
    using assms unfolding narrower_def by (metis order_trans)
next
  fix t assume "v_time_le v0 = Some t"
  then show "\<exists>t'. v_time_le v2 = Some t' \<and> t' \<le> t" using assms unfolding narrower_def by (metis order_trans)
qed (use assms in \<open>auto simp: narrower_def\<close>)

lemma narrower_branches:
  shows "caveat_ops rest v = Inr v' \<Longrightarrow> narrower v' v"
    and "caveat_allow rest v = Inr v' \<Longrightarrow> narrower v' v"
    and "caveat_time rest v = Inr v' \<Longrightarrow> narrower v' v"
    and "caveat_agent rest v = Inr v' \<Longrightarrow> narrower v' v"
    and "narrower (v\<lparr>v_nots := v_nots v @ S\<rparr>) v" "narrower (v\<lparr>v_ref_sets := v_ref_sets v @ [T]\<rparr>) v"
proof -
  show "caveat_ops rest v = Inr v' \<Longrightarrow> narrower v' v"
    by (auto simp: caveat_ops_def and_then_Inr_iff narrower_def)
  show "caveat_allow rest v = Inr v' \<Longrightarrow> narrower v' v"
  proof -
    assume ok: "caveat_allow rest v = Inr v'"
    obtain a b where "split_once CHR '':'' rest = Some (a, b)"
      using ok by (cases "split_once CHR '':'' rest") (auto simp: caveat_allow_def)
    with ok obtain op S where "v' = v\<lparr>v_op_ref_sets := (v_op_ref_sets v)
        (op \<mapsto> (case v_op_ref_sets v op of None \<Rightarrow> [] | Some sets \<Rightarrow> sets) @ [S])\<rparr>"
      by (auto simp: caveat_allow_def and_then_Inr_iff)
    then show ?thesis by (auto simp: narrower_def)
  qed
  show "caveat_time rest v = Inr v' \<Longrightarrow> narrower v' v"
    by (auto simp: caveat_time_def narrower_def split: option.splits)
  show "caveat_agent rest v = Inr v' \<Longrightarrow> narrower v' v"
    by (auto simp: caveat_agent_def narrower_def split: option.splits if_split_asm)
qed (auto simp: narrower_def)

lemma narrower_parse_caveat: "parse_caveat c v = Inr v' \<Longrightarrow> narrower v' v"
  unfolding parse_caveat_def
  by (auto simp: and_then_Inr_iff intro: narrower_branches split: option.splits)

lemma narrower_fold: "try_fold parse_caveat cs v = Inr v' \<Longrightarrow> narrower v' v"
  by (rule try_fold_invariant [where I = "\<lambda>u. narrower u v"])
     (auto intro: narrower_refl narrower_trans narrower_parse_caveat)

lemma allows_iff:
  "allows c op r now = Inr () \<longleftrightarrow> \<not> p_agent_conflict c \<and> op \<in> p_ops c \<and> (\<forall>t. p_time_le c = Some t \<longrightarrow> now \<le> t)
   \<and> (\<forall>n. r = Some n \<longrightarrow> (\<forall>g \<in> set (p_ref_not c). \<not> ref_matches g n) \<and> (\<forall>S \<in> set (p_ref_sets c). matches_any S n)
        \<and> (\<forall>T. p_op_ref_sets c op = Some T \<longrightarrow> (\<forall>S \<in> set T. matches_any S n)))"
  by (auto simp: allows_def list_ex_iff not_less split: option.splits)

lemma allows_narrower:
  assumes "narrower v' v" "v_ops v \<noteq> None" "allows (parsed_of_vars v') op r now = Inr ()"
  shows "allows (parsed_of_vars v) op r now = Inr ()"
proof -
  obtain A B where ops: "v_ops v = Some A" "v_ops v' = Some B" "B \<subseteq> A"
    using assms(1,2) by (auto simp: narrower_def)
  have "now \<le> t" if t: "v_time_le v = Some t" for t
  proof -
    obtain t' where "v_time_le v' = Some t'" "t' \<le> t" using assms(1) t by (auto simp: narrower_def)
    then show ?thesis using assms(3) by (auto simp: allows_iff parsed_of_vars_def)
  qed
  moreover have "matches_any S n" if r: "r = Some n" and T: "v_op_ref_sets v op = Some T" "S \<in> set T" for n T S
  proof -
    obtain T' where "v_op_ref_sets v' op = Some T'" "set T \<subseteq> set T'" using assms(1) T(1) unfolding narrower_def by blast
    then show ?thesis using assms(3) r T(2) by (auto simp: allows_iff parsed_of_vars_def)
  qed
  ultimately show ?thesis
    using assms(1,3) ops by (auto simp: allows_iff parsed_of_vars_def narrower_def)
qed

text \<open>A \<open>Cap\<close> value: its fields are private, so they are what its caveats parse to.\<close>

definition cap_ok :: "Capability \<Rightarrow> bool" where
  "cap_ok c \<longleftrightarrow> cap_from_parts (cap_loc c) (cap_id c) (cap_caveats c) (cap_sig c) = Inr c"

lemma cap_from_parts_ok: "cap_from_parts loc i cs s = Inr c \<Longrightarrow> cap_ok c"
  by (simp add: cap_ok_def cap_from_parts_Inr)

definition cap_vars :: "Capability \<Rightarrow> CaveatVars" where
  "cap_vars c = (case try_fold parse_caveat (cap_caveats c) caveat_vars0 of Inr v \<Rightarrow> v | Inl _ \<Rightarrow> caveat_vars0)"

lemma allows_truncate: "allows (ParsedCaveats.truncate c) op r now = allows c op r now"
  unfolding allows_def ParsedCaveats.defs ParsedCaveats.select_convs by (rule refl)

lemma cap_ok_vars:
  assumes "cap_ok c"
  shows "try_fold parse_caveat (cap_caveats c) caveat_vars0 = Inr (cap_vars c)"
    and "allows c op r now = allows (parsed_of_vars (cap_vars c)) op r now" "p_agent c = v_agent (cap_vars c)"
proof -
  obtain p where p: "parse_caveats (cap_caveats c) = Inr p" "ParsedCaveats.truncate c = p"
    using cap_from_parts_Inr(5) assms unfolding cap_ok_def by blast
  then obtain v where v: "try_fold parse_caveat (cap_caveats c) caveat_vars0 = Inr v" "p = parsed_of_vars v"
    by (auto simp: parse_caveats_def and_then_Inr_iff)
  then show "try_fold parse_caveat (cap_caveats c) caveat_vars0 = Inr (cap_vars c)" by (simp add: cap_vars_def)
  have "parsed_of_vars (cap_vars c) = ParsedCaveats.truncate c" using p v by (simp add: cap_vars_def)
  then show "allows c op r now = allows (parsed_of_vars (cap_vars c)) op r now" "p_agent c = v_agent (cap_vars c)"
    using allows_truncate [of c] arg_cong [of _ _ p_agent] by (auto simp: parsed_of_vars_def ParsedCaveats.defs)
qed

lemma v_ops_parse_caveat:
  "parse_caveat c v = Inr v' \<Longrightarrow> v_ops v' \<noteq> None \<longleftrightarrow> v_ops v \<noteq> None \<or> prefix ''ops='' c"
  unfolding parse_caveat_def caveat_ops_def caveat_allow_def caveat_time_def caveat_agent_def
  by (auto simp: and_then_Inr_iff strip_prefix_def split: option.splits if_split_asm)

lemma v_ops_fold:
  "try_fold parse_caveat cs v = Inr v' \<Longrightarrow> v_ops v' \<noteq> None \<longleftrightarrow> v_ops v \<noteq> None \<or> list_ex (prefix ''ops='') cs"
proof (induction cs arbitrary: v)
  case (Cons c cs)
  then obtain v1 where "parse_caveat c v = Inr v1" "try_fold parse_caveat cs v1 = Inr v'"
    by (auto simp: and_then_Inr_iff)
  then show ?case using Cons.IH [of v1] v_ops_parse_caveat [of c v v1] by auto
qed auto

lemma attenuate_vars:
  assumes "cap_ok c" "attenuate_holder H c extra = Inr c'"
  shows "cap_ok c'" "narrower (cap_vars c') (cap_vars c)"
proof -
  show ok: "cap_ok c'" using attenuate_holder_Inr [OF assms(2)] by (simp add: cap_ok_def)
  have "try_fold parse_caveat (cap_caveats c @ extra) caveat_vars0 = Inr (cap_vars c')"
    using cap_ok_vars(1) [OF ok] attenuate_holder_Inr(3) [OF assms(2)] by simp
  then have "try_fold parse_caveat extra (cap_vars c) = Inr (cap_vars c')"
    using cap_ok_vars(1) [OF assms(1)] by (simp add: try_fold_append)
  then show "narrower (cap_vars c') (cap_vars c)" by (rule narrower_fold)
qed

text \<open>
  C12: Attenuation only shrinks authority. If a capability that has an \<open>ops=\<close> caveat is attenuated by
  any further caveats, whatever the result allows, at any time and on any ref, the original allows
  too; and an agent once named stays the agent.
\<close>

theorem attenuation_is_monotone:
  assumes "cap_ok c" "attenuate_holder H c extra = Inr c'" "list_ex (prefix ''ops='') (cap_caveats c)"
  shows "(allows c' op r now = Inr () \<longrightarrow> allows c op r now = Inr ()) \<and> (\<forall>a. p_agent c = Some a \<longrightarrow> p_agent c' = Some a)"
proof -
  note v = attenuate_vars [OF assms(1,2)]
  have "v_ops (cap_vars c) \<noteq> None"
    using v_ops_fold [OF cap_ok_vars(1) [OF assms(1)]] assms(3) by simp
  then show ?thesis
    using allows_narrower [OF v(2)] cap_ok_vars(2,3) [OF assms(1)] cap_ok_vars(2,3) [OF v(1)] v(2)
    by (auto simp: narrower_def)
qed

text \<open>A catalogue of concrete caveats, parsed once.\<close>

lemma parse_agent_caveat: "try_fold parse_caveat [''agent=a''] caveat_vars0 = Inr (caveat_vars0\<lparr>v_agent := Some ''a''\<rparr>)"
  by (simp add: parse_caveat_def checked_u16_len_def MAX_FIELD_BYTES_def strip_prefix_def caveat_agent_def caveat_vars0_def)

lemma parse_ops_read: "parse_caveat ''ops=read'' v = Inr (v\<lparr>v_ops := Some (case v_ops v of None \<Rightarrow> {Read} | Some S \<Rightarrow> S \<inter> {Read})\<rparr>)"
proof -
  have "try_fold parse_op_part (split_on CHR '','' ''read'') {} = Inr {Read}" by code_simp
  then show ?thesis
    by (simp add: parse_caveat_def checked_u16_len_def MAX_FIELD_BYTES_def strip_prefix_def caveat_ops_def)
qed

text \<open>
  C36: Without an \<open>ops=\<close> caveat attenuation widens: a capability minted with no operations allows
  nothing, yet its holder can append \<open>ops=read\<close>, which verifies under the root key and allows
  reading.
\<close>

theorem attenuation_widens_without_ops:
  "\<exists>c c'. mint H key ''forge'' ''x'' [''agent=a''] = Inr c \<and> attenuate_holder H c [''ops=read''] = Inr c'
     \<and> verify H key c' = Inr () \<and> (\<forall>op. allows c op None 0 \<noteq> Inr ()) \<and> allows c' Read None 0 = Inr ()"
proof -
  have p: "parse_caveats [''agent=a''] = Inr (parsed_of_vars (caveat_vars0\<lparr>v_agent := Some ''a''\<rparr>))"
    unfolding parse_caveats_def parse_agent_caveat by (simp add: MAX_CAVEATS_def)
  have "try_fold parse_caveat ([''agent=a''] @ [''ops=read'']) caveat_vars0 =
      Inr (caveat_vars0\<lparr>v_agent := Some ''a'', v_ops := Some {Read}\<rparr>)"
    unfolding try_fold_append parse_agent_caveat by (simp add: parse_ops_read caveat_vars0_def)
  then have q: "parse_caveats ([''agent=a''] @ [''ops=read'']) = Inr (parsed_of_vars (caveat_vars0\<lparr>v_agent := Some ''a'', v_ops := Some {Read}\<rparr>))"
    unfolding parse_caveats_def by (simp add: MAX_CAVEATS_def)
  obtain c where c: "mint H key ''forge'' ''x'' [''agent=a''] = Inr c" "cap_from_parts ''forge'' ''x'' [''agent=a''] (sign_chain H key ''forge'' ''x'' [''agent=a'']) = Inr c"
    using p by (simp add: mint_def checked_u16_len_def MAX_FIELD_BYTES_def cap_from_parts_def)
  note f = cap_from_parts_Inr [OF c(2)]
  obtain c' where c': "attenuate_holder H c [''ops=read''] = Inr c'"
    using q by (simp add: attenuate_holder_def f MAX_CAVEATS_def attenuate_step_def checked_u16_len_def MAX_FIELD_BYTES_def cap_from_parts_def)
  have "verify H key c = Inr ()" by (simp add: verify_def f)
  then have v: "verify H key c' = Inr ()" using c' by (rule verify_attenuate)
  have t: "ParsedCaveats.truncate c = parsed_of_vars (caveat_vars0\<lparr>v_agent := Some ''a''\<rparr>)" using f(5) p by auto
  have t': "ParsedCaveats.truncate c' = parsed_of_vars (caveat_vars0\<lparr>v_agent := Some ''a'', v_ops := Some {Read}\<rparr>)"
    using cap_from_parts_Inr(5) [OF attenuate_holder_Inr(5) [OF c']] q f by auto
  have "allows c op None 0 \<noteq> Inr ()" for op
    unfolding allows_truncate [symmetric, of c] t by (simp add: allows_iff parsed_of_vars_def caveat_vars0_def)
  moreover have "allows c' Read None 0 = Inr ()"
    unfolding allows_truncate [symmetric, of c'] t' by (simp add: allows_iff parsed_of_vars_def caveat_vars0_def)
  ultimately show ?thesis using c c' v by blast
qed

section \<open>The minted capabilities\<close>

lemma field_lengths [simp]: "length c \<le> 200 \<Longrightarrow> checked_u16_len c = Inr (length c)"
  by (simp add: checked_u16_len_def MAX_FIELD_BYTES_def)

text \<open>No word of the minted caveats has white space to trim.\<close>

lemma trim_words [simp]:
  "trim ''read'' = ''read''"
  "trim ''write'' = ''write''"
  "trim ''branch'' = ''branch''"
  "trim ''merge'' = ''merge''"
  "trim ''grant'' = ''grant''"
  "trim ''seal'' = ''seal''"
  "trim ''main'' = ''main''"
  "trim ''heads/agents/*'' = ''heads/agents/*''"
  "trim ''forks/*'' = ''forks/*''"
  "trim ''tags/*'' = ''tags/*''"
  "trim ''conflicts/*'' = ''conflicts/*''"
  by (rule trim_printable, code_simp)+

lemma parse_root_caveats:
  "parse_caveat ''ops=read,write,branch,merge,grant,seal'' caveat_vars0 =
    Inr (caveat_vars0\<lparr>v_ops := Some {Read, Write, Branch, Merge, Grant, Seal}\<rparr>)"
proof -
  have "split_on CHR '','' ''read,write,branch,merge,grant,seal'' =
      [''read'', ''write'', ''branch'', ''merge'', ''grant'', ''seal'']" by simp
  then have "try_fold parse_op_part (split_on CHR '','' ''read,write,branch,merge,grant,seal'') {} =
      Inr {Seal, Grant, Merge, Branch, Write, Read}" by (simp add: parse_op_part_def parse_op_def)
  moreover have "{Seal, Grant, Merge, Branch, Write, Read} = {Read, Write, Branch, Merge, Grant, Seal}" by blast
  ultimately show ?thesis
    by (simp add: parse_caveat_def strip_prefix_def caveat_ops_def caveat_vars0_def)
qed

lemma integrator_sets:
  "try_fold parse_op_part (split_on CHR '','' ''read,merge,seal,grant'') {} = Inr {Grant, Seal, Merge, Read}"
  "split_once CHR '':'' ''read:main,heads/agents/*,forks/*,tags/*,conflicts/*'' = Some (''read'', ''main,heads/agents/*,forks/*,tags/*,conflicts/*'')"
  "parse_ref_set ''main,heads/agents/*,forks/*,tags/*,conflicts/*'' = Inr [''main'', ''heads/agents/*'', ''forks/*'', ''tags/*'', ''conflicts/*'']"
  "split_once CHR '':'' ''merge:main'' = Some (''merge'', ''main'')"
  "parse_ref_set ''main'' = Inr [''main'']"
  "split_once CHR '':'' ''seal:main,tags/*'' = Some (''seal'', ''main,tags/*'')"
  "parse_ref_set ''main,tags/*'' = Inr [''main'', ''tags/*'']"
  "parse_op ''read'' = Inr Read" "parse_op ''merge'' = Inr Merge" "parse_op ''seal'' = Inr Seal"
  by (simp_all add: parse_op_part_def parse_op_def parse_ref_set_def)

lemma integrator_caveats:
  "try_fold parse_caveat
     [''ops=read,merge,seal,grant'', ''allow=read:main,heads/agents/*,forks/*,tags/*,conflicts/*'',
      ''allow=merge:main'', ''allow=seal:main,tags/*''] caveat_vars0 =
   Inr (caveat_vars0\<lparr>v_ops := Some {Grant, Seal, Merge, Read},
     v_op_ref_sets := [Read \<mapsto> [[''main'', ''heads/agents/*'', ''forks/*'', ''tags/*'', ''conflicts/*'']],
       Merge \<mapsto> [[''main'']], Seal \<mapsto> [[''main'', ''tags/*'']]]\<rparr>)"
  by (simp add: parse_caveat_def strip_prefix_def caveat_ops_def caveat_allow_def integrator_sets caveat_vars0_def
      parse_op_part_def parse_op_def parse_ref_set_def)

lemma mint_exists:
  assumes "length loc \<le> 200" "length i \<le> 200" "length cs \<le> 200" "try_fold parse_caveat cs caveat_vars0 = Inr v"
  shows "\<exists>c. mint H key loc i cs = Inr c \<and> cap_ok c \<and> cap_caveats c = cs \<and> verify H key c = Inr ()
    \<and> (\<forall>op r now. allows c op r now = allows (parsed_of_vars v) op r now)"
proof -
  have p: "parse_caveats cs = Inr (parsed_of_vars v)"
    using assms(3,4) by (simp add: parse_caveats_def MAX_CAVEATS_def)
  obtain c where c: "mint H key loc i cs = Inr c" "cap_from_parts loc i cs (sign_chain H key loc i cs) = Inr c"
    using p assms(1,2) by (simp add: mint_def cap_from_parts_def)
  note f = cap_from_parts_Inr [OF c(2)]
  have "ParsedCaveats.truncate c = parsed_of_vars v" using f(5) p by auto
  then have "allows c op r now = allows (parsed_of_vars v) op r now" for op r now
    using allows_truncate [of c] by metis
  then show ?thesis using c cap_from_parts_ok [OF c(2)] f by (simp add: verify_def)
qed

text \<open>
  The integrator's capability can be minted under any key, verifies, and has exactly this
  authority over refs: it reads \<open>main\<close>, agent heads, forks, tags and conflicts, merges into \<open>main\<close>
  only, seals \<open>main\<close> and tags only, may grant, and never writes or branches.
\<close>

theorem integrator_authority:
  "\<exists>c. mint_integrator H key = Inr c \<and> verify H key c = Inr () \<and> (\<forall>op n now. allows c op (Some n) now = Inr () \<longleftrightarrow>
     op = Grant
   \<or> op = Merge \<and> n = ''main''
   \<or> op = Seal \<and> (n = ''main'' \<or> prefix ''tags/'' n)
   \<or> op = Read \<and> (n = ''main'' \<or> prefix ''heads/agents/'' n \<or> prefix ''forks/'' n \<or> prefix ''tags/'' n
        \<or> prefix ''conflicts/'' n))"
proof -
  obtain c where c: "mint_integrator H key = Inr c" "verify H key c = Inr ()"
    and al: "\<And>op r now. allows c op r now = allows (parsed_of_vars (caveat_vars0\<lparr>v_ops := Some {Grant, Seal, Merge, Read},
     v_op_ref_sets := [Read \<mapsto> [[''main'', ''heads/agents/*'', ''forks/*'', ''tags/*'', ''conflicts/*'']],
       Merge \<mapsto> [[''main'']], Seal \<mapsto> [[''main'', ''tags/*'']]]\<rparr>)) op r now"
    using mint_exists [OF _ _ _ integrator_caveats, of "''forge''" "''integrator''" H key]
    unfolding mint_integrator_def by auto
  have globs: "matches_any [''main''] n \<longleftrightarrow> n = ''main''"
    "matches_any [''main'', ''tags/*''] n \<longleftrightarrow> n = ''main'' \<or> prefix ''tags/'' n"
    "matches_any [''main'', ''heads/agents/*'', ''forks/*'', ''tags/*'', ''conflicts/*''] n \<longleftrightarrow>
       n = ''main'' \<or> prefix ''heads/agents/'' n \<or> prefix ''forks/'' n \<or> prefix ''tags/'' n \<or> prefix ''conflicts/'' n" for n
    by (auto simp: matches_any_def ref_matches_def)
  have "allows c op (Some n) now = Inr () \<longleftrightarrow> op = Grant \<or> op = Merge \<and> n = ''main''
      \<or> op = Seal \<and> (n = ''main'' \<or> prefix ''tags/'' n)
      \<or> op = Read \<and> (n = ''main'' \<or> prefix ''heads/agents/'' n \<or> prefix ''forks/'' n \<or> prefix ''tags/'' n
        \<or> prefix ''conflicts/'' n)" for op n now
    unfolding al allows_iff by (cases op) (simp_all add: parsed_of_vars_def caveat_vars0_def globs)
  then show ?thesis using c by blast
qed

text \<open>The root capability attenuated to reading, as a concrete instance.\<close>

lemma root_attenuated:
  obtains c c' where "mint_root H key = Inr c" "cap_ok c" "verify H key c = Inr ()"
    "list_ex (prefix ''ops='') (cap_caveats c)" "attenuate_holder H c [''ops=read''] = Inr c'"
proof -
  let ?cs = "[''ops=read,write,branch,merge,grant,seal'']"
  let ?v = "caveat_vars0\<lparr>v_ops := Some {Read, Write, Branch, Merge, Grant, Seal}\<rparr>"
  have f: "try_fold parse_caveat ?cs caveat_vars0 = Inr ?v" by (simp add: parse_root_caveats)
  obtain c where c: "mint_root H key = Inr c" "cap_ok c" "cap_caveats c = ?cs" "verify H key c = Inr ()"
    using mint_exists [OF _ _ _ f, of "''forge''" "''root''" H key] unfolding mint_root_def by auto
  have "is_ok (parse_caveats (?cs @ [''ops=read'']))"
    by (simp add: parse_caveats_def MAX_CAVEATS_def parse_root_caveats parse_ops_read)
  then obtain c' where "attenuate_holder H c [''ops=read''] = Inr c'"
    by (auto simp: is_ok_iff attenuate_holder_def c(3) MAX_CAVEATS_def attenuate_step_def cap_from_parts_def)
  then show thesis using that c by simp
qed

theorem attenuation_keeps_signature_witness:
  "\<exists>c c'. mint_root (\<lambda>k d. k @ d) [] = Inr c \<and> attenuate_holder (\<lambda>k d. k @ d) c [''ops=read''] = Inr c'
     \<and> verify (\<lambda>k d. k @ d) [] c' = Inr ()"
  using root_attenuated [of "\<lambda>k d. k @ d" "[]"] attenuation_keeps_signature by metis

theorem attenuation_is_monotone_witness:
  "\<exists>c c'. mint_root (\<lambda>k d. k @ d) [] = Inr c \<and> attenuate_holder (\<lambda>k d. k @ d) c [''ops=read''] = Inr c'
     \<and> (\<forall>op r now. allows c' op r now = Inr () \<longrightarrow> allows c op r now = Inr ())"
  using root_attenuated [of "\<lambda>k d. k @ d" "[]"] attenuation_is_monotone by metis

end
