(* ===== verification/Capability_Tokens.thy ===== *)
theory Capability_Tokens
  imports Capability_Laws
begin

text \<open>
  Capability tokens (\<open>Cap::encode\<close>, \<open>decode_cap\<close>, \<open>to_token\<close>, \<open>from_token\<close> in
  \<open>src/crates/forge-cap/src/lib.rs\<close>): the decoder accepts exactly the encodings.
\<close>

definition caveat_frame :: "string \<Rightarrow> bytes" where
  "caveat_frame c = u16_be (length c) @ as_bytes c"

definition field_ok :: "string \<Rightarrow> bool" where
  "field_ok s \<longleftrightarrow> valid_str s \<and> length s \<le> MAX_FIELD_BYTES"

lemma foldl_append_caveats:
  "foldl append_caveat_bytes v cs = v @ concat (map caveat_frame cs)"
  by (induction cs arbitrary: v) (simp_all add: append_caveat_bytes_def caveat_frame_def)

lemma length_u16_be [simp]: "length (u16_be n) = 2"
  by (simp add: u16_be_def)

lemma be_val_u16: "n \<le> MAX_FIELD_BYTES \<Longrightarrow> be_val (u16_be n) = n"
proof -
  assume "n \<le> MAX_FIELD_BYTES"
  then have "n < 2 ^ 16" by (simp add: MAX_FIELD_BYTES_def)
  then show ?thesis by (simp add: u16_be_def be_val_be_bytes unat_of_nat take_bit_eq_mod)
qed

lemma u16_of_be_val: "length bs = 2 \<Longrightarrow> u16_be (be_val bs) = bs \<and> be_val bs \<le> MAX_FIELD_BYTES"
proof -
  assume len: "length bs = 2"
  then have less: "be_val bs < 2 ^ 16" using be_val_less [of bs] by simp
  then have "unat (of_nat (be_val bs) :: 16 word) = be_val bs" by (simp add: unat_of_nat take_bit_eq_mod)
  then show ?thesis using be_bytes_inverse [of _ bs] len less by (simp add: u16_be_def MAX_FIELD_BYTES_def)
qed

lemma from_utf8_Inr: "from_utf8 bs = Inr s \<longleftrightarrow> bs = as_bytes s \<and> valid_str s"
  by (auto simp: from_utf8_def valid_str_def)

lemma slice_append [simp]: "slice (p @ x) (length p) n = take n x"
  by (simp add: slice_def)

lemma drop_slice: "drop i raw = slice raw i n @ drop (i + n) raw"
proof -
  have "drop (i + n) raw = drop n (drop i raw)" by (simp add: add.commute)
  then show ?thesis unfolding slice_def by (simp only: append_take_drop_id)
qed

lemma length_slice: "i + n \<le> length raw \<Longrightarrow> length (slice raw i n) = n"
  by (simp add: slice_def)

lemma length_caveat_frame [simp]: "length (caveat_frame c) = length c + 2"
  by (simp add: caveat_frame_def)

lemma field_read:
  assumes "raw = pre @ caveat_frame c @ rest" "i = length pre" "field_ok c"
  shows "be_val (slice raw i 2) = length c" "slice raw (i + 2) (length c) = as_bytes c"
    "from_utf8 (slice raw (i + 2) (length c)) = Inr c"
proof -
  show "be_val (slice raw i 2) = length c"
    using assms be_val_u16 [of "length c"] by (simp add: caveat_frame_def field_ok_def slice_def)
  show *: "slice raw (i + 2) (length c) = as_bytes c"
    using assms by (simp add: caveat_frame_def slice_def)
  show "from_utf8 (slice raw (i + 2) (length c)) = Inr c"
    using assms(3) * by (simp add: from_utf8_Inr field_ok_def)
qed

lemma field_written:
  assumes "from_utf8 (slice raw (i + 2) (be_val (slice raw i 2))) = Inr c"
    and "i + 2 + be_val (slice raw i 2) \<le> length raw"
  shows "drop i raw = caveat_frame c @ drop (i + 2 + be_val (slice raw i 2)) raw" "field_ok c"
    "length c = be_val (slice raw i 2)"
proof -
  let ?n = "be_val (slice raw i 2)"
  have c: "slice raw (i + 2) ?n = as_bytes c" "valid_str c" using assms(1) by (auto simp: from_utf8_Inr)
  have two: "length (slice raw i 2) = 2" and n: "length (slice raw (i + 2) ?n) = ?n"
    using assms(2) by (auto intro!: length_slice)
  show len: "length c = ?n" using n c(1) by simp
  have frame: "u16_be (length c) = slice raw i 2" "length c \<le> MAX_FIELD_BYTES"
    using u16_of_be_val [OF two] len by simp_all
  show "field_ok c" using c(2) frame by (simp add: field_ok_def)
  have "drop i raw = slice raw i 2 @ slice raw (i + 2) ?n @ drop (i + 2 + ?n) raw"
    using drop_slice [of i raw 2] drop_slice [of "i + 2" raw ?n] by simp
  then show "drop i raw = caveat_frame c @ drop (i + 2 + ?n) raw"
    using frame c(1) by (simp add: caveat_frame_def)
qed

section \<open>The caveat loop\<close>

lemma decode_caveats_encode:
  assumes "list_all field_ok cs" "length acc + length cs \<le> MAX_CAVEATS" "length sg = 32"
    and "raw = pre @ concat (map caveat_frame cs) @ sg" "i = length pre"
  shows "decode_caveats raw i acc = Inr (length raw - 32, acc @ cs)"
  using assms
proof (induction cs arbitrary: pre acc i)
  case Nil
  then show ?case by (subst decode_caveats.simps) simp
next
  case (Cons c cs)
  have raw: "raw = pre @ caveat_frame c @ concat (map caveat_frame cs) @ sg"
    using Cons.prems(4) by simp
  note read = field_read [OF raw Cons.prems(5)]
  have "decode_caveats raw (i + 2 + length c) (acc @ [c]) = Inr (length raw - 32, (acc @ [c]) @ cs)"
    by (rule Cons.IH [of _ "pre @ caveat_frame c"]) (use Cons.prems raw in auto)
  moreover have "i + 32 < length raw" "i + 2 \<le> length raw - 32" "i + 2 + length c + 32 \<le> length raw" "length acc < MAX_CAVEATS"
    using Cons.prems raw by auto
  ultimately show ?case
    using read Cons.prems(1) by (subst decode_caveats.simps) (simp add: Let_def)
qed

lemma decode_caveats_sound:
  assumes "decode_caveats raw i acc = Inr (j, cs')" "i + 32 \<le> length raw"
  shows "\<exists>cs. cs' = acc @ cs \<and> list_all field_ok cs \<and> drop i raw = concat (map caveat_frame cs) @ drop j raw"
  using assms
proof (induction raw i acc rule: decode_caveats.induct)
  case (1 raw i acc)
  show ?case
  proof (cases "i + 32 < length raw")
    case False
    then show ?thesis using 1(2) by (subst (asm) decode_caveats.simps) simp
  next
    case True
    let ?n = "be_val (slice raw i 2)"
    have g: "length acc < MAX_CAVEATS" "i + 2 \<le> length raw - 32" "i + 2 + ?n + 32 \<le> length raw"
      and rec: "and_then (from_utf8 (slice raw (i + 2) ?n)) (\<lambda>c. decode_caveats raw (i + 2 + ?n) (acc @ [c])) = Inr (j, cs')"
      using 1(2) True by (subst (asm) decode_caveats.simps, simp add: Let_def split: if_split_asm)+
    then obtain c where fu: "from_utf8 (slice raw (i + 2) ?n) = Inr c"
      and d: "decode_caveats raw (i + 2 + ?n) (acc @ [c]) = Inr (j, cs')"
      by (auto simp: and_then_Inr_iff)
    obtain cs where cs: "cs' = (acc @ [c]) @ cs" "list_all field_ok cs"
        "drop (i + 2 + ?n) raw = concat (map caveat_frame cs) @ drop j raw"
      using 1(1) [OF True _ refl refl _ fu d] g by auto
    have "drop i raw = caveat_frame c @ drop (i + 2 + ?n) raw" "field_ok c"
      using field_written [OF fu] g(3) by auto
    then show ?thesis using cs by (intro exI [of _ "c # cs"]) simp
  qed
qed

section \<open>Tokens\<close>

definition token_ok :: "Capability \<Rightarrow> bool" where
  "token_ok c \<longleftrightarrow> cap_ok c \<and> field_ok (cap_loc c) \<and> field_ok (cap_id c) \<and> list_all valid_str (cap_caveats c)
     \<and> length (cap_sig c) = 32 \<and> length (cap_encode c) \<le> MAX_TOKEN_BYTES"

lemma cap_encode_frames:
  "cap_encode c = as_bytes ''FMAC'' @ [1] @ caveat_frame (cap_loc c) @ caveat_frame (cap_id c)
     @ concat (map caveat_frame (cap_caveats c)) @ cap_sig c"
  by (simp add: cap_encode_def foldl_append_caveats prefix_bytes_def caveat_frame_def [of "cap_loc c"]
      caveat_frame_def [of "cap_id c"])

lemma parse_caveat_len: "parse_caveat c v = Inr v' \<Longrightarrow> length c \<le> MAX_FIELD_BYTES"
  by (auto simp: parse_caveat_def checked_u16_len_def and_then_Inr_iff split: if_split_asm)

lemma fold_parse_len: "try_fold parse_caveat cs v = Inr v' \<Longrightarrow> list_all (\<lambda>c. length c \<le> MAX_FIELD_BYTES) cs"
  by (induction cs arbitrary: v) (auto simp: and_then_Inr_iff dest: parse_caveat_len)

lemma token_ok_caveats:
  assumes "token_ok c"
  shows "list_all field_ok (cap_caveats c)" "length (cap_caveats c) \<le> MAX_CAVEATS"
proof -
  have ok: "cap_ok c" and v: "list_all valid_str (cap_caveats c)" using assms by (auto simp: token_ok_def)
  show "list_all field_ok (cap_caveats c)"
    using v fold_parse_len [OF cap_ok_vars(1) [OF ok]] by (auto simp: list_all_iff field_ok_def)
  show "length (cap_caveats c) \<le> MAX_CAVEATS"
    using ok by (auto simp: cap_ok_def cap_from_parts_def parse_caveats_def and_then_Inr_iff split: if_split_asm)
qed

lemma decode_cap_encode:
  assumes "token_ok c"
  shows "decode_cap (cap_encode c) = Inr c"
proof -
  let ?raw = "cap_encode c" and ?loc = "cap_loc c" and ?id = "cap_id c"
  let ?cs = "concat (map caveat_frame (cap_caveats c))"
  note raw = cap_encode_frames [of c]
  have f: "field_ok ?loc" "field_ok ?id" "length (cap_sig c) = 32" "length ?raw \<le> MAX_TOKEN_BYTES" "cap_ok c"
    using assms by (auto simp: token_ok_def)
  have head: "slice ?raw 0 4 = as_bytes ''FMAC''" "?raw ! 4 = 1" "length ?raw \<ge> 9 + length ?loc + length ?id + 32"
    using f(3) by (simp_all add: raw slice_def numeral_eq_Suc)
  note loc = field_read [of ?raw "as_bytes ''FMAC'' @ [1]" ?loc _ 5, OF _ _ f(1)]
  note cid = field_read [of ?raw "as_bytes ''FMAC'' @ [1] @ caveat_frame ?loc" ?id _ "7 + length ?loc", OF _ _ f(2)]
  have l: "be_val (slice ?raw 5 2) = length ?loc" "from_utf8 (slice ?raw 7 (length ?loc)) = Inr ?loc"
    using loc(1,3) raw by simp_all
  have i: "be_val (slice ?raw (7 + length ?loc) 2) = length ?id"
    "from_utf8 (slice ?raw (9 + length ?loc) (length ?id)) = Inr ?id"
    using cid(1,3) raw by (simp_all add: add.commute)
  have d: "decode_caveats ?raw (9 + length ?loc + length ?id) [] = Inr (length ?raw - 32, cap_caveats c)"
    using decode_caveats_encode [where acc = "[]" and raw = ?raw and i = "9 + length ?loc + length ?id"
        and pre = "as_bytes ''FMAC'' @ [1] @ caveat_frame ?loc @ caveat_frame ?id", OF token_ok_caveats(1) [OF assms] _ f(3)]
      token_ok_caveats(2) [OF assms] raw by simp
  obtain pre where "?raw = pre @ cap_sig c" unfolding raw append_assoc [symmetric] by blast
  then have s: "drop (length ?raw - 32) ?raw = cap_sig c" "32 \<le> length ?raw" using f(3) by simp_all
  show ?thesis
    using head f(4,5) l i d s by (simp add: decode_cap_def Let_def cap_ok_def)
qed

lemma decode_cap_sound:
  assumes "decode_cap raw = Inr c"
  shows "token_ok c \<and> raw = cap_encode c"
proof -
  let ?n = "be_val (slice raw 5 2)"
  let ?m = "be_val (slice raw (7 + ?n) 2)"
  obtain loc cid j cs where len: "length raw \<le> MAX_TOKEN_BYTES" "slice raw 0 4 = as_bytes ''FMAC''" "raw ! 4 = 1"
    and n: "7 + ?n + 2 + 32 \<le> length raw" "from_utf8 (slice raw 7 ?n) = Inr loc"
    and m: "7 + ?n + 2 + ?m + 32 \<le> length raw" "from_utf8 (slice raw (7 + ?n + 2) ?m) = Inr cid"
    and d: "decode_caveats raw (7 + ?n + 2 + ?m) [] = Inr (j, cs)" "j + 32 = length raw"
    and c: "cap_from_parts loc cid cs (drop j raw) = Inr c"
    using assms by (auto simp: decode_cap_def Let_def and_then_Inr_iff split: if_split_asm)
  have "raw = slice raw 0 4 @ slice raw 4 1 @ drop 5 raw"
    using drop_slice [of 0 raw 4] drop_slice [of 4 raw 1] by simp
  moreover have "slice raw 4 1 = [1]" using len(3) n(1) by (simp add: slice_def take_Suc hd_drop_conv_nth)
  ultimately have h: "raw = as_bytes ''FMAC'' @ [1] @ drop 5 raw" using len(2) by simp
  have l: "drop 5 raw = caveat_frame loc @ drop (7 + ?n) raw" "field_ok loc"
    using field_written [of raw 5 loc] n by simp_all
  have k: "drop (7 + ?n) raw = caveat_frame cid @ drop (7 + ?n + 2 + ?m) raw" "field_ok cid"
    using field_written [of raw "7 + ?n" cid] m by simp_all
  have cs: "drop (7 + ?n + 2 + ?m) raw = concat (map caveat_frame cs) @ drop j raw" "list_all field_ok cs"
    using decode_caveats_sound [OF d(1)] m(1) by auto
  note parts = cap_from_parts_Inr(1-4) [OF c]
  have raw: "raw = cap_encode c"
    unfolding cap_encode_frames parts using h l(1) k(1) cs(1) by simp
  have "length (drop j raw) = 32" using d(2) by simp
  then show ?thesis
    using raw len(1) l(2) k(2) cs(2) cap_from_parts_ok [OF c] parts
    by (auto simp: token_ok_def field_ok_def list_all_iff)
qed

text \<open>The token decoder accepts exactly the encodings of well-formed capabilities: \<open>decode_cap\<close>
  returns \<open>c\<close> on \<open>raw\<close> exactly when \<open>raw\<close> is the encoding of \<open>c\<close>, the fields of \<open>c\<close> are what its caveats
  parse to, every field is valid UTF-8 of at most 65535 bytes, there are 32 signature bytes, and the whole fits
  in the size limit. Nothing is left over, truncated or read twice.\<close>

theorem cap_codec_exact:
  "decode_cap raw = Inr c \<longleftrightarrow> token_ok c \<and> raw = cap_encode c"
  using decode_cap_encode decode_cap_sound by blast

text \<open>A capability a token can carry survives printing and parsing, and the copy grants and verifies
  the same.\<close>

theorem cap_token_roundtrip:
  assumes "token_ok c"
  shows "from_token (to_token c) = Inr c"
proof -
  have "strip_prefix ''fmac1_'' (to_token c) = Some (hex_encode (cap_encode c))"
    by (simp add: to_token_def strip_prefix_def)
  moreover have "length (hex_encode (cap_encode c)) \<le> MAX_TOKEN_BYTES * 2"
    using assms by (simp add: token_ok_def)
  ultimately show ?thesis using decode_cap_encode [OF assms] by (simp add: from_token_def)
qed

lemma ascii_field: "list_all ascii_char s \<Longrightarrow> length s \<le> 200 \<Longrightarrow> field_ok s"
  by (simp add: field_ok_def valid_str_ascii MAX_FIELD_BYTES_def)

theorem cap_token_roundtrip_witness:
  "\<exists>c. mint_root (\<lambda>_ _. replicate 32 0) [7] = Inr c \<and> token_ok c \<and> from_token (to_token c) = Inr c"
proof -
  obtain c where c: "mint_root (\<lambda>_ _. replicate 32 0) [7] = Inr c"
    using root_attenuated by blast
  have parts: "cap_loc c = ''forge''" "cap_id c = ''root''" "cap_caveats c = [''ops=read,write,branch,merge,grant,seal'']"
    and sig: "length (cap_sig c) = 32" and ok: "cap_ok c"
    using c by (auto simp: mint_root_def mint_def sign_chain_def and_then_Inr_iff dest: cap_from_parts_Inr cap_from_parts_ok)
  have "length (cap_encode c) \<le> MAX_TOKEN_BYTES"
    unfolding cap_encode_frames parts by (simp add: sig MAX_TOKEN_BYTES_def)
  then have "token_ok c"
    using ok sig unfolding token_ok_def parts by (auto intro!: ascii_field valid_str_ascii simp: ascii_char_def)
  then show ?thesis using c cap_token_roundtrip [of c] by blast
qed

end
