(* ===== verification/Api.thy ===== *)
theory Api
  imports Namespace Merge_Scope Capability_Tokens
begin

text \<open>
  The repository handle \<open>Forge\<close> (\<open>src/crates/forge-api/src/lib.rs\<close>), the checks every verb makes
  (\<open>authority.rs\<close>) and the verbs on refs, inboxes and receipts (\<open>refs.rs\<close>). A verb is an action on the handle; the
  clock it reads (\<open>now\<close>) and the ULID it mints (\<open>ulid\<close>) are arguments, and so are the hash of an object
  file and the HMAC.
\<close>

section \<open>The handle\<close>

record Env =
  env_hash :: "bytes \<Rightarrow> oid"
  env_hmac :: hmac

record ApiCounters =
  ct_stale_observation :: u64
  ct_merge_conflict :: u64
  ct_sessions_opened :: u64
  ct_merge_applied :: u64
  ct_renames :: u64

record Forge =
  f_store :: StoreLog
  f_meta :: Catalog
  f_hmac_key :: bytes
  f_stats :: ApiCounters

type_synonym 'a verb = "(error, 'a, Forge) act"

abbreviation objects :: "Forge \<Rightarrow> MemoryObjectStore" where
  "objects w \<equiv> l_store (f_store w)"

definition meta :: "'a tx \<Rightarrow> 'a verb" where
  "meta f w = Some (case f (f_meta w) of Inl e \<Rightarrow> (Inl e, w) | Inr (x, c) \<Rightarrow> (Inr x, w\<lparr>f_meta := c\<rparr>))"

definition counted :: "(ApiCounters \<Rightarrow> ApiCounters) \<Rightarrow> unit verb" where
  "counted f w = Some (Inr (), w\<lparr>f_stats := f (f_stats w)\<rparr>)"

definition stored :: "(error, 'a, StoreLog) act \<Rightarrow> 'a verb" where
  "stored f w = map_option (\<lambda>(r, l). (r, w\<lparr>f_store := l\<rparr>)) (f (f_store w))"

definition fail :: "error \<Rightarrow> 'a verb" where
  "fail e = act_of (\<lambda>_. Inl e)"

text \<open>A put through the store, with the bytes it offers recorded.\<close>

definition put_bytes :: "(bytes \<Rightarrow> oid) \<Rightarrow> bytes \<Rightarrow> (error, oid, StoreLog) act" where
  "put_bytes H bs l = (case store_put H bs (l_store l) of (r, st) \<Rightarrow>
    Some (r, l\<lparr>l_store := st, l_seen := insert bs (l_seen l)\<rparr>))"

definition get_contribution :: "(bytes \<Rightarrow> oid) \<Rightarrow> oid \<Rightarrow> MemoryObjectStore \<Rightarrow> (error + Contribution) option" where
  "get_contribution H i st =
    (case store_get H i st of Inl e \<Rightarrow> Some (Inl e) | Inr bs \<Rightarrow> contribution_decode bs)"

section \<open>Authority\<close>

definition load_cap :: "Env \<Rightarrow> string \<Rightarrow> Forge \<Rightarrow> error + Capability" where
  "load_cap E token w =
    and_then (from_token (trim token)) (\<lambda>cap.
    and_then (verify (env_hmac E) (f_hmac_key w) cap) (\<lambda>_. Inr cap))"

definition check :: "Env \<Rightarrow> u64 \<Rightarrow> Capability \<Rightarrow> Op \<Rightarrow> string option \<Rightarrow> Forge \<Rightarrow> error + unit" where
  "check E now cap op r w = and_then (verify (env_hmac E) (f_hmac_key w) cap) (\<lambda>_. allows cap op r now)"

definition require_ns :: "Capability \<Rightarrow> string \<Rightarrow> Forge \<Rightarrow> error + NsRow" where
  "require_ns cap ns w =
    and_then (get_namespace (f_meta w) ns) (\<lambda>row.
      if ns_agent_id row = agent_id cap then Inr row else Inl (Denied ''namespace is owned by another agent''))"

definition check_spec_read :: "Env \<Rightarrow> u64 \<Rightarrow> Capability \<Rightarrow> string \<Rightarrow> Forge \<Rightarrow> error + unit" where
  "check_spec_read E now cap spec w =
    and_then (parse_spec spec) (\<lambda>s. case s of
       SpecRef n \<Rightarrow> check E now cap Op.Read (Some n) w
     | SpecOid _ \<Rightarrow>
         if has_unrestricted_ref_scope cap then check E now cap Op.Read None w
         else Inl (Denied ''ref-scoped caps cannot address raw object ids''))"

definition grant :: "Env \<Rightarrow> u64 \<Rightarrow> Capability \<Rightarrow> string list \<Rightarrow> Forge \<Rightarrow> error + Capability" where
  "grant E now cap extra w =
    and_then (check E now cap Op.Grant None w) (\<lambda>_. attenuate (env_hmac E) (f_hmac_key w) cap extra)"

section \<open>Refs\<close>

definition resolve_spec_oid :: "string \<Rightarrow> Forge \<Rightarrow> error + oid" where
  "resolve_spec_oid spec w =
    and_then (parse_spec spec) (\<lambda>s. case s of
       SpecOid i \<Rightarrow> Inr i
     | SpecRef name \<Rightarrow>
         and_then (ok_or (NotFound (''ref '' @ name)) (get_ref (f_meta w) name)) (\<lambda>r. Inr (row_oid r)))"

definition peel_commit :: "Env \<Rightarrow> string \<Rightarrow> Forge \<Rightarrow> error + oid \<times> Commit" where
  "peel_commit E spec w =
    and_then (resolve_spec_oid spec w) (\<lambda>i.
    and_then (object_type (env_hash E) i (objects w)) (\<lambda>ty. case ty of
       ObjectType.Commit \<Rightarrow> and_then (get_commit (env_hash E) i (objects w)) (\<lambda>c. Inr (i, c))
     | ObjectType.Snapshot \<Rightarrow>
         and_then (get_snapshot (env_hash E) i (objects w)) (\<lambda>s.
         and_then (get_commit (env_hash E) (s_commit s) (objects w)) (\<lambda>c. Inr (s_commit s, c)))
     | _ \<Rightarrow> Inl (Invalid ''not a commit'')))"

definition refs_with_suppressed :: "Env \<Rightarrow> u64 \<Rightarrow> Capability \<Rightarrow> Forge \<Rightarrow> error + RefRow list \<times> nat" where
  "refs_with_suppressed E now cap w =
    and_then (check E now cap Op.Read None w) (\<lambda>_.
      Inr (fold (\<lambda>r (out, suppressed).
             if is_ok (allows cap Op.Read (Some (row_name r)) now) then (out @ [r], suppressed) else (out, suppressed + 1))
           (list_refs (f_meta w)) ([], 0)))"

definition forge_refs :: "Env \<Rightarrow> u64 \<Rightarrow> Capability \<Rightarrow> Forge \<Rightarrow> error + RefRow list" where
  "forge_refs E now cap w = and_then (refs_with_suppressed E now cap w) (\<lambda>(rows, _). Inr rows)"

definition inbox_push :: "Env \<Rightarrow> u64 \<Rightarrow> string \<Rightarrow> string \<Rightarrow> Capability \<Rightarrow> string \<Rightarrow> string \<Rightarrow> string option \<Rightarrow> CasResult verb" where
  "inbox_push E now ulid fork_ulid cap to snapshot task =
    (let recipient = sanitize_agent to in
     if recipient \<noteq> to \<or> recipient = ''anon'' then fail (Invalid ''invalid inbox recipient'')
     else
       act_bind (act_of (\<lambda>w.
         and_then (check_spec_read E now cap snapshot w) (\<lambda>_.
         and_then (resolve_spec_oid snapshot w) (\<lambda>i.
         and_then (object_type (env_hash E) i (objects w)) (\<lambda>ty.
           if ty \<noteq> ObjectType.Snapshot then Inl (Invalid ''inbox payload must be a sealed snapshot'')
           else and_then (case task of Some t \<Rightarrow> validate_inbox_task t | None \<Rightarrow> Inr ulid) (\<lambda>leaf.
             let name = ''inbox/'' @ recipient @ ''/'' @ leaf in
             and_then (check E now cap Op.Write (Some name) w) (\<lambda>_. Inr (i, name)))))))) (\<lambda>(i, name).
       meta (cas_ref name oid_zero i ''snapshot'' (agent_id cap) (agent_id cap) False fork_ulid (uint now))))"

definition inbox_list :: "Env \<Rightarrow> u64 \<Rightarrow> Capability \<Rightarrow> Forge \<Rightarrow> error + RefRow list" where
  "inbox_list E now cap w =
    and_then (check E now cap Op.Read None w) (\<lambda>_.
      let agent = agent_id cap in
      if sanitize_agent agent \<noteq> agent \<or> agent = ''anon'' then Inl (Invalid ''invalid inbox agent'')
      else Inr (filter (\<lambda>row. prefix (''inbox/'' @ agent @ ''/'') (row_name row)
                               \<and> is_ok (allows cap Op.Read (Some (row_name row)) now)) (list_refs (f_meta w))))"

definition inbox_get :: "Env \<Rightarrow> u64 \<Rightarrow> Capability \<Rightarrow> string \<Rightarrow> Forge \<Rightarrow> error + RefRow" where
  "inbox_get E now cap task w =
    and_then (validate_inbox_task task) (\<lambda>task.
      let agent = agent_id cap in
      if sanitize_agent agent \<noteq> agent \<or> agent = ''anon'' then Inl (Invalid ''invalid inbox agent'')
      else
        let name = ''inbox/'' @ agent @ ''/'' @ task in
        and_then (check E now cap Op.Read (Some name) w) (\<lambda>_.
          ok_or (NotFound (''ref '' @ name)) (get_ref (f_meta w) name)))"

definition branch :: "Env \<Rightarrow> u64 \<Rightarrow> Capability \<Rightarrow> string \<Rightarrow> string \<Rightarrow> oid verb" where
  "branch E now cap from name =
    act_bind (act_of (\<lambda>w.
      and_then (check E now cap Op.Branch (Some name) w) (\<lambda>_.
      and_then (check_spec_read E now cap from w) (\<lambda>_. peel_commit E from w)))) (\<lambda>(i, _).
    act_bind (meta (insert_ref name i ''commit'' False False (agent_id cap) ''branch'' (uint now))) (\<lambda>_.
    act_ret i))"

fun landmark_kind :: "ObjectType \<Rightarrow> string" where
  "landmark_kind ObjectType.Blob = ''blob''"
| "landmark_kind ObjectType.Tree = ''tree''"
| "landmark_kind ObjectType.Commit = ''commit''"
| "landmark_kind ObjectType.Conflict = ''conflict''"
| "landmark_kind ObjectType.Snapshot = ''snapshot''"
| "landmark_kind ObjectType.Contribution = ''contribution''"

definition forge_landmark :: "Env \<Rightarrow> u64 \<Rightarrow> Capability \<Rightarrow> oid \<Rightarrow> unit verb" where
  "forge_landmark E now cap i =
    act_bind (act_of (\<lambda>w.
      if \<not> has_unrestricted_ref_scope cap then Inl (Denied ''ref-scoped caps cannot address raw object ids'')
      else and_then (check E now cap Op.Write None w) (\<lambda>_. object_type (env_hash E) i (objects w)))) (\<lambda>ty.
    meta (landmark i (landmark_kind ty) ''explicit'' (uint now)))"

definition forge_log :: "Env \<Rightarrow> u64 \<Rightarrow> Capability \<Rightarrow> string \<Rightarrow> nat \<Rightarrow> Forge \<Rightarrow> error + (oid \<times> string \<times> string) list" where
  "forge_log E now cap name n w =
    and_then (check E now cap Op.Read (Some name) w) (\<lambda>_.
      if get_ref (f_meta w) name = None then Inl (NotFound (''ref '' @ name))
      else Inr (map (\<lambda>(_, new, agent, reason). (new, agent, reason)) (reflog (f_meta w) name n)))"

section \<open>Receipts\<close>

record Receipt =
  rc_receipt :: oid
  rc_result :: "oid option"
  rc_agent :: string
  rc_base :: oid
  rc_tree :: oid
  rc_parents :: "oid list"
  rc_reads :: "(string \<times> oid) list"
  rc_writes :: "string list"
  rc_ts :: u64

definition verified_edges :: "Receipt \<Rightarrow> nat" where
  "verified_edges r = 3 + length (rc_parents r) + length (rc_reads r)"

text \<open>Absence of an object that a receipt names is corruption.\<close>

definition durable_bytes :: "Env \<Rightarrow> oid \<Rightarrow> Forge \<Rightarrow> error + bytes" where
  "durable_bytes E i w = map_err (\<lambda>e. case e of NotFound _ \<Rightarrow> Corrupt ''not present in durable storage'' | other \<Rightarrow> other)
    (store_get (env_hash E) i (objects w))"

definition require_durable_type :: "Env \<Rightarrow> oid \<Rightarrow> ObjectType \<Rightarrow> Forge \<Rightarrow> error + unit" where
  "require_durable_type E i want w =
    and_then (durable_bytes E i w) (\<lambda>bs.
    and_then (decode_object_type bs) (\<lambda>found.
      if found \<noteq> want then Inl (Corrupt ''receipt names an object of another type'') else Inr ()))"

definition receipt_disagrees :: "Commit \<Rightarrow> Contribution \<Rightarrow> bool" where
  "receipt_disagrees commit c \<longleftrightarrow>
    c_tree commit \<noteq> co_tree c \<or> c_parents commit \<noteq> co_parents c \<or> c_agent commit \<noteq> co_agent c"

definition verified_receipt :: "Env \<Rightarrow> (oid \<times> Commit) option \<Rightarrow> oid \<Rightarrow> Receipt verb" where
  "verified_receipt E result receipt_oid =
    act_bind (act_of (durable_bytes E receipt_oid)) (\<lambda>bs.
    act_bind (\<lambda>w. map_option (\<lambda>r. (map_err (\<lambda>_. Corrupt ''receipt does not decode'') r, w)) (contribution_decode bs)) (\<lambda>c.
    act_of (\<lambda>w.
      and_then (require_durable_type E (co_base c) ObjectType.Commit w) (\<lambda>_.
      and_then (require_durable_type E (co_tree c) ObjectType.Tree w) (\<lambda>_.
      and_then (try_fold (\<lambda>p _. require_durable_type E p ObjectType.Commit w) (co_parents c) ()) (\<lambda>_.
      and_then (try_fold (\<lambda>r _. require_durable_type E (cr_id r) ObjectType.Blob w) (co_reads c) ()) (\<lambda>_.
        if (case result of Some (_, commit) \<Rightarrow> receipt_disagrees commit c | None \<Rightarrow> False)
        then Inl (Corrupt ''commit disagrees with the receipt it names'')
        else Inr \<lparr>rc_receipt = receipt_oid, rc_result = map_option fst result, rc_agent = co_agent c, rc_base = co_base c,
               rc_tree = co_tree c, rc_parents = co_parents c, rc_reads = map (\<lambda>r. (cr_path r, cr_id r)) (co_reads c),
               rc_writes = co_writes c, rc_ts = co_ts c\<rparr>)))))))"

definition receipt :: "Env \<Rightarrow> u64 \<Rightarrow> Capability \<Rightarrow> string \<Rightarrow> Receipt verb" where
  "receipt E now cap spec =
    act_bind (act_of (\<lambda>w.
      and_then (check_spec_read E now cap spec w) (\<lambda>_.
      and_then (resolve_spec_oid spec w) (\<lambda>named.
      and_then (store_get (env_hash E) named (objects w)) (\<lambda>bs.
      and_then (decode_object_type bs) (\<lambda>ty.
        if ty = ObjectType.Contribution then Inr (None, named)
        else if ty = ObjectType.Commit \<or> ty = ObjectType.Snapshot then
          and_then (peel_commit E spec w) (\<lambda>(commit_oid, commit).
          and_then (ok_or (NotFound ''commit carries no contribution receipt'') (c_contrib commit)) (\<lambda>contrib.
            Inr (Some (commit_oid, commit), contrib)))
        else Inl (Invalid ''neither a receipt nor a commit that names one''))))))) (\<lambda>(result, receipt_oid).
    verified_receipt E result receipt_oid)"

end
