(* ===== verification/Provenance.thy ===== *)
theory Provenance
  imports Merge_Correct
begin

text \<open>
  Who introduced which object: the walk of \<open>src/crates/forge-store/src/lib.rs\<close> over the objects a new tree has and
  the old one does not (\<open>collect_intros\<close>).
\<close>

definition edge_type :: "EntryKind \<Rightarrow> ObjectType" where
  "edge_type k = (case k of EntryKind.Blob \<Rightarrow> ObjectType.Blob | EntryKind.Tree \<Rightarrow> ObjectType.Tree)"

text \<open>The previous entries at this level, by name.\<close>

definition old_entries :: "(bytes \<Rightarrow> oid) \<Rightarrow> oid option \<Rightarrow> MemoryObjectStore \<Rightarrow> error + (string, TreeEntry) btree" where
  "old_entries H old st =
    (case old of
       None \<Rightarrow> Inr []
     | Some i \<Rightarrow>
         and_then (store_get H i st) (\<lambda>bs.
         and_then (decode_object_type bs) (\<lambda>ty.
           if ty = ObjectType.Tree then and_then (tree_decode bs) (\<lambda>t. Inr (as_map t))
           else Inl (Corrupt ''unexpected type in previous tree edge''))))"

definition old_id :: "(string, TreeEntry) btree \<Rightarrow> TreeEntry \<Rightarrow> oid option" where
  "old_id old_map e =
    (case map_of old_map (e_name e) of
       Some old_e \<Rightarrow> if e_kind old_e = e_kind e then Some (e_id old_e) else None
     | None \<Rightarrow> None)"

text \<open>One object that is not a blob edge: its type is checked, and the edges below it are the result.\<close>

definition intro_node :: "(bytes \<Rightarrow> oid) \<Rightarrow> oid option \<Rightarrow> oid \<Rightarrow> ObjectType \<Rightarrow> MemoryObjectStore \<Rightarrow> error + (TreeEntry \<times> oid option) list" where
  "intro_node H old new expected st =
    and_then (store_get H new st) (\<lambda>bs.
    and_then (decode_object_type bs) (\<lambda>actual.
      if actual \<noteq> expected then Inl (Corrupt ''typed edge expected another type'')
      else case actual of
        ObjectType.Blob \<Rightarrow> and_then (blob_decode bs) (\<lambda>_. Inr [])
      | ObjectType.Tree \<Rightarrow>
          and_then (tree_decode bs) (\<lambda>new_tree.
          and_then (old_entries H old st) (\<lambda>old_map.
            Inr (map (\<lambda>e. (e, old_id old_map e)) (entries new_tree))))
      | _ \<Rightarrow> Inl (Corrupt ''unexpected type in provenance tree'')))"

partial_function (option) intro_walk ::
  "(bytes \<Rightarrow> oid) \<Rightarrow> oid option \<Rightarrow> oid \<Rightarrow> ObjectType \<Rightarrow> oid list \<Rightarrow> MemoryObjectStore \<Rightarrow> ((error + oid list) \<times> MemoryObjectStore) option" where
  "intro_walk H old new expected oids st =
    (if old = Some new then Some (Inr oids, st)
     else if expected = ObjectType.Blob then act_bind (act_of (verify_blob H new)) (\<lambda>_. act_ret (oids @ [new])) st
     else
       act_bind (act_of (intro_node H old new expected)) (\<lambda>edges.
         act_fold (\<lambda>x oids st. intro_walk H (snd x) (e_id (fst x)) (edge_type (e_kind (fst x))) oids st) edges (oids @ [new])) st)"

declare intro_walk.simps [code]

definition collect_intros :: "(bytes \<Rightarrow> oid) \<Rightarrow> oid option \<Rightarrow> oid \<Rightarrow> (error, oid list, MemoryObjectStore) act" where
  "collect_intros H old new = intro_walk H old new ObjectType.Tree []"

end
