(* ===== verification/Workspace.thy ===== *)
theory Workspace
  imports Api Provenance "HOL-Library.Multiset"
begin

text \<open>
  Sessions: \<open>src/crates/forge-api/src/workspace.rs\<close>. A session stages writes in an overlay per mount, reads through it,
  records what it read, and publishes one mount with a checkin.
\<close>

section \<open>What a mount shows\<close>

abbreviation tree_reader :: "Env \<Rightarrow> Forge \<Rightarrow> oid \<Rightarrow> error + Tree" where
  "tree_reader E w \<equiv> \<lambda>i. get_tree (env_hash E) i (objects w)"

definition session_mounts :: "string \<Rightarrow> Forge \<Rightarrow> Mount list" where
  "session_mounts ns w = map mount_of_row (list_mounts (f_meta w) ns)"

definition tree_of :: "Env \<Rightarrow> oid \<Rightarrow> Forge \<Rightarrow> error + oid" where
  "tree_of E i w =
    and_then (object_type (env_hash E) i (objects w)) (\<lambda>ty. case ty of
       ObjectType.Commit \<Rightarrow> and_then (get_commit (env_hash E) i (objects w)) (\<lambda>c. Inr (c_tree c))
     | ObjectType.Snapshot \<Rightarrow> and_then (get_snapshot (env_hash E) i (objects w)) (\<lambda>s. Inr (s_tree s))
     | ObjectType.Tree \<Rightarrow> Inr i
     | _ \<Rightarrow> Inl (Invalid ''cannot mount''))"

definition mount_tree :: "Env \<Rightarrow> string \<Rightarrow> Forge \<Rightarrow> error + oid" where
  "mount_tree E spec w = and_then (resolve_spec_oid spec w) (\<lambda>i. tree_of E i w)"

definition session_mount_tree :: "Env \<Rightarrow> Mount \<Rightarrow> Forge \<Rightarrow> error + oid" where
  "session_mount_tree E m w =
    (case (mnt_mode m, mnt_base_oid m) of
       (Rw, Some base) \<Rightarrow> tree_of E base w
     | _ \<Rightarrow> mount_tree E (mnt_spec m) w)"

section \<open>Observations\<close>

text \<open>\<open>rfind('/')\<close> and the slice before it.\<close>

definition cut_last :: "string \<Rightarrow> string option" where
  "cut_last s = (if slash \<in> set s then Some (rev (tl (dropWhile (\<lambda>c. c \<noteq> slash) (rev s)))) else None)"

lemma cut_last_shorter: "cut_last s = Some p \<Longrightarrow> length p < length s"
proof -
  assume "cut_last s = Some p"
  then have m: "slash \<in> set (rev s)" and p: "length p = length (tl (dropWhile (\<lambda>c. c \<noteq> slash) (rev s)))"
    by (auto simp: cut_last_def split: if_split_asm)
  have "dropWhile (\<lambda>c. c \<noteq> slash) (rev s) \<noteq> []" using m unfolding dropWhile_eq_Nil_conv by blast
  then have "length p < length (dropWhile (\<lambda>c. c \<noteq> slash) (rev s))" using p by simp
  also have "\<dots> \<le> length s" using length_dropWhile_le [of _ "rev s"] by simp
  finally show ?thesis .
qed

function shadow_loop :: "Overlay \<Rightarrow> string \<Rightarrow> bool" where
  "shadow_loop ov pre = (case cut_last pre of None \<Rightarrow> False | Some p \<Rightarrow> map_of ov p \<noteq> None \<or> shadow_loop ov p)"
  by pat_completeness auto
termination by (relation "measure (\<lambda>(_, p). length p)") (auto dest: cut_last_shorter)

declare shadow_loop.simps [simp del]

definition overlay_shadows :: "Overlay \<Rightarrow> string \<Rightarrow> bool" where
  "overlay_shadows ov rel \<longleftrightarrow> map_of ov rel \<noteq> None \<or> shadow_loop ov rel"

fun entry_walk :: "(oid \<Rightarrow> error + Tree) \<Rightarrow> string list \<Rightarrow> oid \<Rightarrow> error + (EntryKind \<times> oid) option" where
  "entry_walk get [] cur = Inr None"
| "entry_walk get (part # parts) cur =
    and_then (get cur) (\<lambda>t. case tree_get t part of
       None \<Rightarrow> Inr None
     | Some ent \<Rightarrow>
         if parts = [] then Inr (Some (e_kind ent, e_id ent))
         else if e_kind ent \<noteq> EntryKind.Tree then Inr None
         else entry_walk get parts (e_id ent))"

definition entry_at :: "(oid \<Rightarrow> error + Tree) \<Rightarrow> oid \<Rightarrow> string \<Rightarrow> error + (EntryKind \<times> oid) option" where
  "entry_at get tree rel = and_then (split_path rel) (\<lambda>parts. entry_walk get parts tree)"

definition current_at :: "(oid \<Rightarrow> error + Tree) \<Rightarrow> oid \<Rightarrow> string \<Rightarrow> error + Observed" where
  "current_at get tree rel =
    (if rel = [] then Inr (SeenTree tree)
     else and_then (entry_at get tree rel) (\<lambda>e. Inr (case e of
       Some (EntryKind.Blob, i) \<Rightarrow> SeenBlob i
     | Some (EntryKind.Tree, i) \<Rightarrow> SeenTree i
     | None \<Rightarrow> SeenAbsent)))"

definition observed_at :: "(oid \<Rightarrow> error + Tree) \<Rightarrow> Overlay \<Rightarrow> oid \<Rightarrow> string \<Rightarrow> error + Observed" where
  "observed_at get ov tree rel =
    (if rel \<noteq> [] \<and> overlay_shadows ov rel
     then Inr (case map_of ov rel of Some (Some (i, _)) \<Rightarrow> SeenBlob i | _ \<Rightarrow> SeenAbsent)
     else current_at get tree rel)"

section \<open>Sessions and mounts\<close>

definition session_open :: "Env \<Rightarrow> u64 \<Rightarrow> string \<Rightarrow> Capability \<Rightarrow> string \<Rightarrow> string verb" where
  "session_open E now ulid cap from =
    act_bind (act_of (\<lambda>w. and_then (check_spec_read E now cap from w) (\<lambda>_. peel_commit E from w))) (\<lambda>(cid, _).
      let live = ''heads/agents/'' @ sanitize_agent (agent_id cap) @ ''/'' @ ulid in
      act_bind (act_of (check E now cap Op.Branch (Some live))) (\<lambda>_.
      let mount_main = is_ok (allows cap Op.Read (Some ''main'') now) in
      act_bind (meta (create_session ulid (agent_id cap) cid live mount_main (uint now))) (\<lambda>_.
      act_bind (counted (\<lambda>s. s\<lparr>ct_sessions_opened := ct_sessions_opened s + 1\<rparr>)) (\<lambda>_.
      act_ret ulid))))"

definition refuse_rw_mount_of_protected_ref :: "string \<Rightarrow> Forge \<Rightarrow> error + unit" where
  "refuse_rw_mount_of_protected_ref name w =
    (case get_ref (f_meta w) name of
       None \<Rightarrow> Inr ()
     | Some row \<Rightarrow> if \<not> row_protected row then Inr () else Inl (Denied ''cannot mount a protected ref read-write''))"

definition refuse_retargeting_staged_work :: "string \<Rightarrow> string \<Rightarrow> string \<Rightarrow> bool \<Rightarrow> Forge \<Rightarrow> error + unit" where
  "refuse_retargeting_staged_work ns path spec rw w =
    (case get_mount (f_meta w) ns path of
       None \<Rightarrow> Inr ()
     | Some existing \<Rightarrow>
         let retarget = mt_spec existing \<noteq> spec;
             demote = mt_mode existing = ''rw'' \<and> \<not> rw in
         if \<not> retarget \<and> \<not> demote then Inr ()
         else if overlay_list (f_meta w) ns path = [] then Inr ()
         else Inl (Invalid ''mount holds staged entries''))"

definition forge_mount :: "Env \<Rightarrow> u64 \<Rightarrow> Capability \<Rightarrow> string \<Rightarrow> string \<Rightarrow> string \<Rightarrow> bool \<Rightarrow> unit verb" where
  "forge_mount E now cap ns path spec rw =
    act_bind (act_of (\<lambda>w.
      and_then (require_ns cap ns w) (\<lambda>_.
      and_then (normalize_abs path) (\<lambda>path.
      and_then
        (if rw then
           and_then (parse_spec spec) (\<lambda>s. case s of
             SpecRef n \<Rightarrow> and_then (check E now cap Op.Write (Some n) w) (\<lambda>_. refuse_rw_mount_of_protected_ref n w)
           | SpecOid _ \<Rightarrow> Inl (Denied ''cannot mount an oid: spec read-write''))
         else check_spec_read E now cap spec w) (\<lambda>_.
      and_then (resolve_spec_oid spec w) (\<lambda>i.
      and_then (object_type (env_hash E) i (objects w)) (\<lambda>ty.
        if rw \<and> ty \<noteq> ObjectType.Commit then Inl (Denied ''only a commit ref can be advanced by checkin'')
        else and_then (refuse_retargeting_staged_work ns path spec rw w) (\<lambda>_. Inr (path, i)))))))))
    (\<lambda>(path, i). meta (insert_mount ns path spec (if rw then ''rw'' else ''ro'') (if rw then Some i else None)))"

section \<open>Reading\<close>

text \<open>The lookup every read makes first: who may read, through which mount, at which relative path.\<close>

definition open_read :: "Env \<Rightarrow> u64 \<Rightarrow> Capability \<Rightarrow> string \<Rightarrow> string \<Rightarrow> Forge \<Rightarrow> error + Mount \<times> string \<times> oid" where
  "open_read E now cap ns path w =
    and_then (require_ns cap ns w) (\<lambda>_.
    and_then (longest_mount (session_mounts ns w) path) (\<lambda>m.
    and_then (check_spec_read E now cap (mnt_spec m) w) (\<lambda>_.
    and_then (rel_of (mnt_path m) path) (\<lambda>rel.
    and_then (session_mount_tree E m w) (\<lambda>tree. Inr (m, rel, tree))))))"

definition record_observation :: "Env \<Rightarrow> string \<Rightarrow> Mount \<Rightarrow> string \<Rightarrow> oid \<Rightarrow> unit verb" where
  "record_observation E ns m rel tree =
    act_bind (act_of (\<lambda>w. observed_at (tree_reader E w) (overlay_map (overlay_list (f_meta w) ns (mnt_path m))) tree rel)) (\<lambda>seen.
    meta (observe ns (mnt_path m) rel seen))"

definition forge_ls :: "Env \<Rightarrow> u64 \<Rightarrow> Capability \<Rightarrow> string \<Rightarrow> string \<Rightarrow> (string \<times> string \<times> string \<times> bool) list verb" where
  "forge_ls E now cap ns path =
    act_bind (act_of (open_read E now cap ns path)) (\<lambda>(m, rel, tree).
    act_bind (record_observation E ns m rel tree) (\<lambda>_.
    act_bind (act_of (\<lambda>w. ns_ls (tree_reader E w) (overlay_list (f_meta w) ns (mnt_path m)) tree rel)) (\<lambda>ents.
    act_ret (map (\<lambda>e. (e_name e, (case e_kind e of EntryKind.Blob \<Rightarrow> ''blob'' | EntryKind.Tree \<Rightarrow> ''tree''), hex (e_id e), e_exec e)) ents))))"

definition forge_read :: "Env \<Rightarrow> u64 \<Rightarrow> Capability \<Rightarrow> string \<Rightarrow> string \<Rightarrow> bytes verb" where
  "forge_read E now cap ns path =
    act_bind (act_of (open_read E now cap ns path)) (\<lambda>(m, rel, tree).
    act_bind (record_observation E ns m rel tree) (\<lambda>_.
    act_of (\<lambda>w.
      and_then (resolve (tree_reader E w) (session_mounts ns w) (overlay_list (f_meta w) ns (mnt_path m)) tree path) (\<lambda>r. case r of
         ResolvedBlob i _ \<Rightarrow> get_blob_data (env_hash E) i (objects w)
       | ResolvedTree _ \<Rightarrow> Inl (Invalid ''read of directory'')))))"

section \<open>Staging\<close>

definition check_mount_write :: "Env \<Rightarrow> u64 \<Rightarrow> Capability \<Rightarrow> Mount \<Rightarrow> Forge \<Rightarrow> error + unit" where
  "check_mount_write E now cap m w =
    and_then (parse_spec (mnt_spec m)) (\<lambda>s. case s of
       SpecRef n \<Rightarrow> check E now cap Op.Write (Some n) w
     | SpecOid _ \<Rightarrow> check E now cap Op.Write None w)"

definition open_write :: "Env \<Rightarrow> u64 \<Rightarrow> Capability \<Rightarrow> string \<Rightarrow> string \<Rightarrow> Forge \<Rightarrow> error + Mount" where
  "open_write E now cap ns path w =
    and_then (require_ns cap ns w) (\<lambda>_.
    and_then (longest_mount (session_mounts ns w) path) (\<lambda>m.
      if mnt_mode m \<noteq> Rw then Inl (Denied ''mount is read-only'')
      else and_then (check_mount_write E now cap m w) (\<lambda>_. Inr m)))"

definition put_blob :: "Env \<Rightarrow> bytes \<Rightarrow> (error, oid, StoreLog) act" where
  "put_blob E d l =
    Option.bind (blob_frame_prefix (of_nat (length d))) (\<lambda>p.
      case store_put_parts (env_hash E) [p, d] (l_store l) of (r, st) \<Rightarrow>
        Some (r, l\<lparr>l_store := st, l_seen := insert (p @ d) (l_seen l)\<rparr>))"

definition forge_write :: "Env \<Rightarrow> u64 \<Rightarrow> Capability \<Rightarrow> string \<Rightarrow> string \<Rightarrow> bytes \<Rightarrow> bool \<Rightarrow> oid verb" where
  "forge_write E now cap ns path d exec =
    act_bind (act_of (open_write E now cap ns path)) (\<lambda>m.
    act_bind (stored (put_blob E d)) (\<lambda>i.
    act_bind (act_of (\<lambda>_. and_then (rel_of (mnt_path m) path) (\<lambda>rel.
      if rel = [] then Inl (Invalid ''cannot write mount root'') else Inr rel))) (\<lambda>rel.
    act_bind (meta (overlay_upsert ns (mnt_path m) rel (Some i) exec)) (\<lambda>_.
    act_ret i))))"

definition forge_delete :: "Env \<Rightarrow> u64 \<Rightarrow> Capability \<Rightarrow> string \<Rightarrow> string \<Rightarrow> unit verb" where
  "forge_delete E now cap ns path =
    act_bind (act_of (open_write E now cap ns path)) (\<lambda>m.
    act_bind (act_of (\<lambda>_. and_then (rel_of (mnt_path m) path) (\<lambda>rel.
      if rel = [] then Inl (Invalid ''cannot delete mount root'') else Inr rel))) (\<lambda>rel.
    meta (overlay_upsert ns (mnt_path m) rel None False)))"

section \<open>Moving\<close>

definition is_under :: "string \<Rightarrow> string \<Rightarrow> bool" where
  "is_under path ancestor \<longleftrightarrow> path = ancestor \<or> (case strip_prefix ancestor path of Some rest \<Rightarrow> prefix ''/'' rest | None \<Rightarrow> False)"

definition MAX_MOVED_PATH_BYTES :: nat where
  "MAX_MOVED_PATH_BYTES = 4096"

type_synonym moved = "(string, oid \<times> bool) btree"

definition collect_entry :: "string \<Rightarrow> TreeEntry \<Rightarrow> (oid \<times> string) list \<times> moved \<Rightarrow> error + (oid \<times> string) list \<times> moved" where
  "collect_entry at e = (\<lambda>(stack, out).
    let path = (if at = [] then e_name e else at @ [slash] @ e_name e) in
    if MAX_MOVED_PATH_BYTES < length path then Inl (Corrupt ''tree path exceeds the bound under the moved directory'')
    else and_then (split_path path) (\<lambda>_. Inr (case e_kind e of
       EntryKind.Blob \<Rightarrow> (stack, bt_insert path (e_id e, e_exec e) out)
     | EntryKind.Tree \<Rightarrow> ((e_id e, path) # stack, out))))"

lemma collect_pushes:
  assumes "try_fold (collect_entry at) es (stack, out) = Inr (stack', out')" "\<forall>e \<in> set es. e_name e \<noteq> []"
  shows "\<exists>new. stack' = new @ stack \<and> (\<forall>(_, p) \<in> set new. length at < length p \<and> length p \<le> MAX_MOVED_PATH_BYTES)"
  using assms
proof (induction es arbitrary: stack out)
  case (Cons e es)
  obtain p1 o1 where s: "collect_entry at e (stack, out) = Inr (p1, o1)" "try_fold (collect_entry at) es (p1, o1) = Inr (stack', out')"
    using Cons.prems(1) by (auto simp: and_then_Inr_iff)
  obtain new where new: "stack' = new @ p1" "\<forall>(_, p) \<in> set new. length at < length p \<and> length p \<le> MAX_MOVED_PATH_BYTES"
    using Cons.IH [OF s(2)] Cons.prems(2) by auto
  have "\<exists>one. p1 = one @ stack \<and> (\<forall>(_, p) \<in> set one. length at < length p \<and> length p \<le> MAX_MOVED_PATH_BYTES)"
    using s(1) Cons.prems(2)
    by (cases "e_kind e") (auto simp: collect_entry_def Let_def and_then_Inr_iff split: if_split_asm)
  then obtain one where "p1 = one @ stack" "\<forall>(_, p) \<in> set one. length at < length p \<and> length p \<le> MAX_MOVED_PATH_BYTES"
    by blast
  then show ?case using new by (intro exI [of _ "new @ one"]) auto
qed simp

function collect_blobs :: "(bytes \<Rightarrow> oid) \<Rightarrow> MemoryObjectStore \<Rightarrow> (oid \<times> string) list \<Rightarrow> moved \<Rightarrow> error + moved" where
  "collect_blobs H st [] out = Inr out"
| "collect_blobs H st ((i, at) # stack) out =
    and_then (get_tree H i st) (\<lambda>t.
    and_then (try_fold (collect_entry at) (entries t) (stack, out)) (\<lambda>s.
      collect_blobs H st (fst s) (snd s)))"
  by pat_completeness auto
termination
proof (relation "inv_image (mult less_than) (\<lambda>(H, st, stack, out). mset (map (\<lambda>p. MAX_MOVED_PATH_BYTES - length (snd p)) stack))")
  show "wf (inv_image (mult less_than) (\<lambda>(H :: bytes \<Rightarrow> oid, st :: MemoryObjectStore, stack :: (oid \<times> string) list, out :: moved).
      mset (map (\<lambda>p. MAX_MOVED_PATH_BYTES - length (snd p)) stack)))"
    by (intro wf_inv_image wf_mult wf_less_than)
next
  fix H st i at stack and out :: moved and t s
  assume t: "get_tree H i st = Inr t" and s: "try_fold (collect_entry at) (entries t) (stack, out) = Inr s"
  have "\<forall>e \<in> set (entries t). e_name e \<noteq> []"
    using whole.get_ok [of H i "\<lparr>l_store = st, l_seen = {}\<rparr>" t] t
    by (auto simp: store_get_tree_def tree_ok_def list_all_iff validate_name_def split: if_split_asm)
  then obtain new where new: "fst s = new @ stack"
      "\<forall>(_, p) \<in> set new. length at < length p \<and> length p \<le> MAX_MOVED_PATH_BYTES"
    using collect_pushes [of at "entries t" stack out "fst s" "snd s"] s by auto
  let ?m = "\<lambda>p. MAX_MOVED_PATH_BYTES - length (snd p)"
  have "(mset (map ?m stack) + mset (map ?m new), mset (map ?m stack) + {# ?m (i, at) #}) \<in> mult less_than"
    using new(2) by (intro one_step_implies_mult) fastforce+
  then show "((H, st, fst s, snd s), (H, st, (i, at) # stack, out))
      \<in> inv_image (mult less_than) (\<lambda>(H, st, stack, out). mset (map ?m stack))"
    by (simp add: new(1) ac_simps)
qed

text \<open>The overlay's rows under the moved directory, applied to the files of the stored tree.\<close>

definition moved_row :: "string \<Rightarrow> string \<times> staged \<Rightarrow> moved \<Rightarrow> moved" where
  "moved_row rel_from = (\<lambda>(path, op) files.
    case strip_prefix (rel_from @ [slash]) path of
      None \<Rightarrow> files
    | Some rest \<Rightarrow>
        (case op of
           Some (i, exec) \<Rightarrow> bt_insert rest (i, exec) files
         | None \<Rightarrow> filter (\<lambda>(p, _). \<not> prefix (rest @ [slash]) p) (bt_remove rest files)))"

record Renamed =
  rn_from :: string
  rn_to :: string
  rn_kind :: string
  rn_source :: oid
  rn_entries :: u64

text \<open>The guards of a move, and the endpoints it acts on.\<close>

definition open_rename :: "Env \<Rightarrow> u64 \<Rightarrow> Capability \<Rightarrow> string \<Rightarrow> string \<Rightarrow> string \<Rightarrow> Forge \<Rightarrow>
    error + (string \<times> string) \<times> Mount \<times> (string \<times> string) \<times> oid" where
  "open_rename E now cap ns from to w =
    and_then (require_ns cap ns w) (\<lambda>_.
    and_then (normalize_abs from) (\<lambda>from_abs.
    and_then (normalize_abs to) (\<lambda>to_abs.
    and_then (longest_mount (session_mounts ns w) from_abs) (\<lambda>m.
    and_then (longest_mount (session_mounts ns w) to_abs) (\<lambda>dest_mount.
      if mnt_path m \<noteq> mnt_path dest_mount then Inl (Invalid ''rename crosses mounts'')
      else if mnt_mode m \<noteq> Rw then Inl (Denied ''mount is read-only'')
      else
        and_then (check_spec_read E now cap (mnt_spec m) w) (\<lambda>_.
        and_then (check_mount_write E now cap m w) (\<lambda>_.
        and_then (rel_of (mnt_path m) from_abs) (\<lambda>rel_from.
        and_then (rel_of (mnt_path m) to_abs) (\<lambda>rel_to.
          if rel_from = [] \<or> rel_to = [] then Inl (Invalid ''cannot rename a mount root'')
          else if rel_from = rel_to then Inl (Invalid ''rename source and destination are the same path'')
          else if is_under rel_to rel_from then Inl (Invalid ''cannot move a path into itself'')
          else if is_under rel_from rel_to then Inl (Invalid ''cannot move a path onto its own ancestor'')
          else and_then (session_mount_tree E m w) (\<lambda>tree. Inr ((from_abs, to_abs), m, (rel_from, rel_to), tree)))))))))))"

definition moved_rows :: "Env \<Rightarrow> string \<Rightarrow> Mount \<Rightarrow> string \<Rightarrow> string \<times> string \<Rightarrow> oid \<Rightarrow> Forge \<Rightarrow>
    error + string \<times> oid \<times> (string \<times> oid \<times> bool) list" where
  "moved_rows E ns m from_abs = (\<lambda>(rel_from, rel_to) tree w.
    let rows = overlay_list (f_meta w) ns (mnt_path m) in
    and_then (resolve (tree_reader E w) (session_mounts ns w) rows tree from_abs) (\<lambda>r. case r of
       ResolvedBlob i exec \<Rightarrow> Inr (''blob'', i, [(rel_to, i, exec)])
     | ResolvedTree i \<Rightarrow>
         and_then (collect_blobs (env_hash E) (objects w) [(i, [])] []) (\<lambda>files.
           Inr (''tree'', i, map (\<lambda>(rest, j, exec). (rel_to @ [slash] @ rest, j, exec))
             (fold (moved_row rel_from) (overlay_map rows) files)))))"

definition forge_rename :: "Env \<Rightarrow> u64 \<Rightarrow> Capability \<Rightarrow> string \<Rightarrow> string \<Rightarrow> string \<Rightarrow> oid option \<Rightarrow> Renamed verb" where
  "forge_rename E now cap ns from to expect =
    act_bind (act_of (open_rename E now cap ns from to)) (\<lambda>((from_abs, to_abs), m, (rel_from, rel_to), tree).
    act_bind (record_observation E ns m rel_from tree) (\<lambda>_.
    act_bind (act_of (moved_rows E ns m from_abs (rel_from, rel_to) tree)) (\<lambda>(kind, source, dest).
      if expect \<noteq> None \<and> expect \<noteq> Some source
      then fail (StaleObservation from_abs (hex (the expect)) (hex source))
      else
        act_bind (meta (overlay_rename ns (mnt_path m) rel_from rel_to dest)) (\<lambda>_.
        act_bind (counted (\<lambda>s. s\<lparr>ct_renames := ct_renames s + 1\<rparr>)) (\<lambda>_.
        act_ret \<lparr>rn_from = from_abs, rn_to = to_abs, rn_kind = kind, rn_source = source, rn_entries = of_nat (length dest)\<rparr>)))))"

section \<open>Checkin\<close>

definition named_mount :: "Mount list \<Rightarrow> string \<Rightarrow> error + Mount" where
  "named_mount ms requested =
    and_then (normalize_abs requested) (\<lambda>want.
      ok_or (NotFound ''session has no such mount'')
        (List.find (\<lambda>m. mnt_path m = want \<or> normalize_abs (mnt_path m) = Inr want) ms))"

definition contribution_path :: "string \<Rightarrow> string \<Rightarrow> string" where
  "contribution_path mount rel =
    (if rel = [] then mount
     else if mount = ''/'' then slash # rel
     else rev (dropWhile (\<lambda>c. c = slash) (rev mount)) @ [slash] @ rel)"

text \<open>One recorded observation against the tree its mount shows now; \<open>cache\<close> holds the overlays loaded so far.\<close>

definition check_observation :: "Env \<Rightarrow> string \<Rightarrow> Mount list \<Rightarrow> string \<times> string \<times> Observed \<Rightarrow> (string, Overlay) btree
    \<Rightarrow> (string, Overlay) btree verb" where
  "check_observation E ns ms = (\<lambda>(mount, path, seen) cache.
    case List.find (\<lambda>m. mnt_path m = mount) ms of
      None \<Rightarrow> act_ret cache
    | Some om \<Rightarrow>
        act_bind (act_of (\<lambda>w. Inr (case map_of cache (mnt_path om) of
            Some ov \<Rightarrow> (ov, cache)
          | None \<Rightarrow> (let ov = overlay_map (overlay_list (f_meta w) ns (mnt_path om)) in (ov, bt_insert (mnt_path om) ov cache))))) (\<lambda>(ov, cache).
        if overlay_shadows ov path then act_ret cache
        else
          act_bind (act_of (\<lambda>w. and_then (session_mount_tree E om w) (\<lambda>tree. current_at (tree_reader E w) tree path))) (\<lambda>current.
          if current \<noteq> seen then
            act_bind (counted (\<lambda>s. s\<lparr>ct_stale_observation := ct_stale_observation s + 1\<rparr>)) (\<lambda>_.
            fail (StaleObservation (mount @ '':/'' @ path) (observed_describe seen) (observed_describe current)))
          else act_ret cache)))"

definition check_observations :: "Env \<Rightarrow> string \<Rightarrow> Mount list \<Rightarrow> unit verb" where
  "check_observations E ns ms w =
    act_bind (act_fold (check_observation E ns ms) (observations (f_meta w) ns) []) (\<lambda>_. act_ret ()) w"

text \<open>A step of the publication batch; after an error the batch is dropped and the objects it put stay.\<close>

definition batched :: "MemoryBatch \<Rightarrow> (error, 'a, Publication) act \<Rightarrow> ('a \<times> MemoryBatch) verb" where
  "batched b f w =
    map_option (\<lambda>(r, p). (map_sum id (\<lambda>x. (x, p_batch p)) r, w\<lparr>f_store := \<lparr>l_store = p_store p, l_seen = p_seen p\<rparr>\<rparr>))
      (f \<lparr>p_store = objects w, p_batch = b, p_seen = l_seen (f_store w)\<rparr>)"

definition batch_put_bytes :: "(bytes \<Rightarrow> oid) \<Rightarrow> bytes \<Rightarrow> (error, oid, Publication) act" where
  "batch_put_bytes H bs p =
    (case batch_put H bs (p_store p, p_batch p) of (r, (st, b)) \<Rightarrow>
      Some (r, p\<lparr>p_store := st, p_batch := b, p_seen := insert bs (p_seen p)\<rparr>))"

definition batch_put_contribution :: "(bytes \<Rightarrow> oid) \<Rightarrow> Contribution \<Rightarrow> (error, oid, Publication) act" where
  "batch_put_contribution H c p =
    Option.bind (contribution_encode c) (\<lambda>r. case r of Inl e \<Rightarrow> Some (Inl e, p) | Inr bs \<Rightarrow> batch_put_bytes H bs p)"

definition batch_put_commit :: "(bytes \<Rightarrow> oid) \<Rightarrow> Commit \<Rightarrow> (error, oid, Publication) act" where
  "batch_put_commit H c p = Option.bind (commit_encode c) (\<lambda>bs. batch_put_bytes H bs p)"

definition finish_batch :: "MemoryBatch \<Rightarrow> unit verb" where
  "finish_batch b w = Some (Inr (), w\<lparr>f_store := (f_store w)\<lparr>l_store := batch_finish (objects w, b)\<rparr>\<rparr>)"

definition fold_overlay :: "Env \<Rightarrow> oid \<Rightarrow> Overlay \<Rightarrow> (error, oid, Publication) act" where
  "fold_overlay E base ov = apply_overlay (batch_get_tree (env_hash E)) (batch_put_tree (env_hash E)) (Some base) ov"

text \<open>Does the overlay staged under another mount fold to anything but that mount's own base?\<close>

definition mount_overlay_changes_its_base :: "Env \<Rightarrow> string \<Rightarrow> string \<Rightarrow> Mount list \<Rightarrow> MemoryBatch \<Rightarrow> (bool \<times> MemoryBatch) verb" where
  "mount_overlay_changes_its_base E ns path ms b =
    (case Option.bind (List.find (\<lambda>m. mnt_path m = path) ms) mnt_base_oid of
       None \<Rightarrow> act_ret (True, b)
     | Some base \<Rightarrow>
         act_bind (act_of (\<lambda>w.
           let rows = overlay_list (f_meta w) ns path in
           if rows = [] then Inr None
           else and_then (get_commit (env_hash E) base (objects w)) (\<lambda>c. Inr (Some (c_tree c, overlay_map rows))))) (\<lambda>work.
         case work of
           None \<Rightarrow> act_ret (False, b)
         | Some (base_tree, ov) \<Rightarrow>
             act_bind (batched b (fold_overlay E base_tree ov)) (\<lambda>(folded, b). act_ret (folded \<noteq> base_tree, b))))"

definition stranded_step :: "Env \<Rightarrow> string \<Rightarrow> Mount list \<Rightarrow> string \<times> nat \<Rightarrow> (string \<times> nat) list \<times> MemoryBatch
    \<Rightarrow> ((string \<times> nat) list \<times> MemoryBatch) verb" where
  "stranded_step E ns ms = (\<lambda>(other, count) (stranded, b).
    act_bind (mount_overlay_changes_its_base E ns other ms b) (\<lambda>(real, b).
    act_ret (if real then stranded @ [(other, count)] else stranded, b)))"

definition open_checkin :: "Env \<Rightarrow> u64 \<Rightarrow> Capability \<Rightarrow> string \<Rightarrow> string \<Rightarrow> Forge \<Rightarrow>
    error + Mount \<times> string \<times> oid \<times> RefRow \<times> Commit" where
  "open_checkin E now cap ns mount w =
    and_then (require_ns cap ns w) (\<lambda>_.
    and_then (named_mount (session_mounts ns w) mount) (\<lambda>m.
      if mnt_mode m \<noteq> Rw then Inl (Denied ''checkin on ro mount'')
      else
        and_then (parse_spec (mnt_spec m)) (\<lambda>s. case s of
           SpecOid _ \<Rightarrow> Inl (Invalid ''cannot checkin an oid mount'')
         | SpecRef ref_name \<Rightarrow>
             and_then (check E now cap Op.Write (Some ref_name) w) (\<lambda>_.
             and_then (ok_or InvalidBase (mnt_base_oid m)) (\<lambda>pin.
             and_then (ok_or (NotFound ref_name) (get_ref (f_meta w) ref_name)) (\<lambda>row.
             and_then (get_commit (env_hash E) pin (objects w)) (\<lambda>base_commit.
               Inr (m, ref_name, pin, row, base_commit))))))))"

definition checkin_reads :: "(string \<times> string \<times> Observed) list \<Rightarrow> ContributionRead list" where
  "checkin_reads obs = sort_key cr_path (List.map_filter (\<lambda>(mount, path, seen). case seen of
      SeenBlob i \<Rightarrow> Some \<lparr>cr_path = contribution_path mount path, cr_id = i\<rparr>
    | _ \<Rightarrow> None) obs)"

definition checkin_writes :: "string \<Rightarrow> (string \<times> oid option \<times> bool) list \<Rightarrow> string list" where
  "checkin_writes mount rows = remdups_adj (sort (map (\<lambda>(path, _). contribution_path mount path) rows))"

definition checkin_noop :: "Env \<Rightarrow> string \<Rightarrow> Mount list \<Rightarrow> Mount \<Rightarrow> string \<Rightarrow> oid \<Rightarrow> RefRow \<Rightarrow> MemoryBatch \<Rightarrow> CasResult verb" where
  "checkin_noop E ns ms m ref_name pin row b =
    act_bind (act_of (\<lambda>w. Inr (overlay_mounts_outside (f_meta w) ns (mnt_path m)))) (\<lambda>others.
    act_bind (act_fold (stranded_step E ns ms) others ([], b)) (\<lambda>(stranded, b).
      if stranded \<noteq> [] then fail (Invalid ''session holds staged work under mounts this checkin does not publish'')
      else
        act_bind (finish_batch b) (\<lambda>_.
        act_bind (meta (complete_noop_session ns (mnt_path m) pin)) (\<lambda>_.
        act_ret (Noop ref_name (row_oid row))))))"

definition checkin_publish :: "Env \<Rightarrow> u64 \<Rightarrow> string \<Rightarrow> Capability \<Rightarrow> string \<Rightarrow> Mount \<Rightarrow> string \<Rightarrow> oid \<Rightarrow> oid \<Rightarrow> oid \<Rightarrow> string
    \<Rightarrow> (string \<times> oid option \<times> bool) list \<Rightarrow> (string \<times> string \<times> Observed) list \<Rightarrow> MemoryBatch \<Rightarrow> CasResult verb" where
  "checkin_publish E now ulid cap ns m ref_name pin base_tree new_tree msg rows obs b =
    (let reads = checkin_reads obs in
     if \<not> successively (\<noteq>) (map cr_path reads) then fail (Invalid ''ambiguous contribution read path'')
     else
       let c = \<lparr>co_base = pin, co_tree = new_tree, co_parents = [pin], co_reads = reads,
                co_writes = checkin_writes (mnt_path m) rows, co_agent = agent_id cap, co_ts = now\<rparr> in
       act_bind (batched b (batch_put_contribution (env_hash E) c)) (\<lambda>(contribution_oid, b).
       let commit = \<lparr>c_tree = new_tree, c_parents = [pin], c_agent = agent_id cap, c_msg = msg, c_ts = now,
                     c_landmark = False, c_contrib = Some contribution_oid\<rparr> in
       act_bind (batched b (batch_put_commit (env_hash E) commit)) (\<lambda>(cid, b).
       act_bind (finish_batch b) (\<lambda>_.
       act_bind (\<lambda>w. map_option (\<lambda>(r, _). (r, w)) (collect_intros (env_hash E) (Some base_tree) new_tree (objects w))) (\<lambda>intro_oids.
       meta (cas_ref_session ref_name pin cid (agent_id cap) (agent_id cap) ns (mnt_path m) intro_oids ulid (uint now)))))))"

definition forge_checkin :: "Env \<Rightarrow> u64 \<Rightarrow> string \<Rightarrow> Capability \<Rightarrow> string \<Rightarrow> string \<Rightarrow> string \<Rightarrow> CasResult verb" where
  "forge_checkin E now ulid cap ns mount msg =
    act_bind (act_of (\<lambda>w. and_then (open_checkin E now cap ns mount w) (\<lambda>(m, ref_name, pin, row, base_commit).
      Inr (session_mounts ns w, m, ref_name, pin, row, c_tree base_commit,
        overlay_list (f_meta w) ns (mnt_path m), observations (f_meta w) ns)))) (\<lambda>(ms, m, ref_name, pin, row, base_tree, rows, obs).
    act_bind (check_observations E ns ms) (\<lambda>_.
    act_bind (batched begin_batch (fold_overlay E base_tree (overlay_map rows))) (\<lambda>(new_tree, b).
      if new_tree = base_tree \<and> pin = row_oid row then checkin_noop E ns ms m ref_name pin row b
      else checkin_publish E now ulid cap ns m ref_name pin base_tree new_tree msg rows obs b)))"

end
