(* ===== verification/Namespace_Laws.thy ===== *)
theory Namespace_Laws
  imports Namespace
begin

text \<open>
  Path resolution (\<open>src/crates/forge-ns/src/lib.rs\<close>) against its meaning: a session reads, through its overlay,
  exactly the files that folding the overlay onto the tree would publish.
\<close>

section \<open>Normalized paths\<close>

lemma pop_slashes_rev_last: "pop_slashes_rev p = [] \<longleftrightarrow> p = []"
  "pop_slashes_rev p = q # r \<Longrightarrow> r \<noteq> [] \<Longrightarrow> q \<noteq> slash"
  by (induction p rule: pop_slashes_rev.induct) (auto split: if_split_asm)

lemma pop_slashes_suffix: "\<exists>k. p = pop_slashes p @ replicate k slash"
proof -
  have "\<exists>k. q = replicate k slash @ pop_slashes_rev q" for q
  proof (induction q rule: pop_slashes_rev.induct)
    case (1 c d p)
    show ?case
    proof (cases "c = slash")
      case True
      with 1 obtain k where "d # p = replicate k slash @ pop_slashes_rev (d # p)" by blast
      then show ?thesis using True by (intro exI [of _ "Suc k"]) simp
    qed (auto intro: exI [of _ 0])
  qed (auto intro: exI [of _ 0])
  then obtain k where "rev p = replicate k slash @ pop_slashes_rev (rev p)" by blast
  then have "p = rev (replicate k slash @ pop_slashes_rev (rev p))" by (metis rev_rev_ident)
  then show ?thesis by (intro exI [of _ k]) (simp add: pop_slashes_def)
qed

lemma pop_slashes_last: "pop_slashes p \<noteq> [slash] \<Longrightarrow> pop_slashes p \<noteq> [] \<Longrightarrow> last (pop_slashes p) \<noteq> slash"
proof -
  assume a: "pop_slashes p \<noteq> [slash]" "pop_slashes p \<noteq> []"
  obtain q r where qr: "pop_slashes_rev (rev p) = q # r"
    using a(2) by (cases "pop_slashes_rev (rev p)") (auto simp: pop_slashes_def)
  have "q \<noteq> slash" using pop_slashes_rev_last(2) [OF qr] a(1) qr by (cases r) (auto simp: pop_slashes_def)
  then show ?thesis using qr by (simp add: pop_slashes_def)
qed

lemma split_on_append: "split_on c (s @ c # t) = split_on c s @ split_on c t"
  by (induction s) (auto split: list.split)

lemma split_path_Inr:
  "split_path p = Inr ps \<longleftrightarrow>
    (let q = dropWhile (\<lambda>c. c = slash) p in
     if q = [] then ps = [] else ps = split_on slash q \<and> list_all (\<lambda>n. validate_name n = Inr ()) ps)"
proof -
  have "try_fold (\<lambda>p parts. and_then (validate_name p) (\<lambda>_. Inr (parts @ [p]))) xs acc = Inr ps \<longleftrightarrow>
      ps = acc @ xs \<and> list_all (\<lambda>n. validate_name n = Inr ()) xs" for xs acc
    by (induction xs arbitrary: acc) (auto simp: and_then_Inr_iff)
  then show ?thesis by (auto simp: split_path_def Let_def)
qed

lemma valid_name: "validate_name n = Inr () \<Longrightarrow> n \<noteq> [] \<and> slash \<notin> set n"
  by (auto simp: validate_name_def split: if_split_asm)

lemma valid_names_ok: "ps \<noteq> [] \<Longrightarrow> list_all (\<lambda>n. validate_name n = Inr ()) ps \<Longrightarrow> names_ok ps"
  by (auto simp: names_ok_def list_all_iff dest: valid_name)

lemma normalize_abs_Inr:
  assumes "normalize_abs path = Inr p"
  shows "p = ''/'' \<or> (\<exists>ps. split_path p = Inr ps \<and> ps \<noteq> [] \<and> dropWhile (\<lambda>c. c = slash) p = join_with [slash] ps \<and> last p \<noteq> slash)"
proof (cases "p = ''/''")
  case False
  define s where "s = (if prefix ''/'' path then path else slash # path)"
  have s: "s \<noteq> []" "hd s = slash" by (auto simp: s_def prefix_def)
  have "path \<noteq> []" using assms False by (auto simp: normalize_abs_def)
  then have "(if pop_slashes s \<noteq> ''/'' then and_then (split_path (pop_slashes s)) (\<lambda>_. Inr (pop_slashes s)) else Inr (pop_slashes s)) = Inr p"
    using assms unfolding normalize_abs_def s_def [symmetric] Let_def by simp
  then obtain ps where p: "p = pop_slashes s" "split_path p = Inr ps"
    using False by (cases "pop_slashes s = ''/''") (auto simp: and_then_Inr_iff)
  have ne: "p \<noteq> []" using s pop_slashes_rev_last(1) [of "rev s"] by (simp add: p pop_slashes_def)
  have l: "last p \<noteq> slash" using pop_slashes_last [of s] False ne unfolding p(1) by blast
  have "dropWhile (\<lambda>c. c = slash) p \<noteq> []"
    using l last_in_set [OF ne] unfolding dropWhile_eq_Nil_conv by blast
  then have "ps \<noteq> [] \<and> dropWhile (\<lambda>c. c = slash) p = join_with [slash] ps"
    using p(2) join_split_on [of slash] unfolding split_path_Inr Let_def by (metis split_on_not_Nil)
  then show ?thesis using p(2) l by blast
qed simp

text \<open>The relative path of a resolved path is the join of valid names.\<close>

lemma rel_of_parts:
  assumes "rel_of mp path = Inr rel" "rel \<noteq> []"
  shows "\<exists>ps. split_path rel = Inr ps \<and> names_ok ps \<and> join_with [slash] ps = rel"
proof -
  obtain m p where m: "normalize_abs mp = Inr m" "normalize_abs path = Inr p"
    and r: "(if m = ''/'' then Inr (dropWhile (\<lambda>c. c = slash) p) else if p = m then Inr []
        else ok_or (Invalid ''not under the mount'') (strip_prefix (m @ [slash]) p)) = Inr rel"
    using assms(1) by (auto simp: rel_of_def and_then_Inr_iff)
  have rel: "if m = ''/'' then rel = dropWhile (\<lambda>c. c = slash) p else p \<noteq> m \<and> p = m @ slash # rel"
    using r assms(2) by (auto simp: ok_or_Inr_iff strip_prefix_def prefix_def split: if_split_asm)
  have parts: "\<exists>ps. split_path r = Inr ps \<and> names_ok ps \<and> join_with [slash] ps = r"
    if "r \<noteq> []" "hd r \<noteq> slash" "list_all (\<lambda>n. validate_name n = Inr ()) (split_on slash r)" for r
  proof -
    have "dropWhile (\<lambda>c. c = slash) r = r" using that by (cases r) auto
    then show ?thesis using that valid_names_ok join_split_on [of slash r] by (auto simp: split_path_Inr Let_def)
  qed
  have "m \<noteq> []" using normalize_abs_Inr [OF m(1)] by (auto simp: split_path_Inr)
  then have "p \<noteq> ''/''" using rel assms(2) by (cases "m = ''/''") (auto simp: append_eq_Cons_conv)
  then obtain ps where ps: "split_path p = Inr ps" "ps \<noteq> []" "dropWhile (\<lambda>c. c = slash) p = join_with [slash] ps" "last p \<noteq> slash"
    using normalize_abs_Inr [OF m(2)] by blast
  define q where "q = dropWhile (\<lambda>c. c = slash) p"
  have q: "q \<noteq> []" "list_all (\<lambda>n. validate_name n = Inr ()) (split_on slash q)"
    using ps(1,2) by (auto simp: split_path_Inr Let_def q_def split: if_split_asm)
  have hd: "hd q \<noteq> slash" using hd_dropWhile [of "\<lambda>c. c = slash" p] q(1) by (simp add: q_def)
  show ?thesis
  proof (cases "m = ''/''")
    case True
    then show ?thesis using rel parts [OF q(1) hd q(2)] by (simp add: q_def)
  next
    case False
    then obtain ms where ms: "split_path m = Inr ms" "ms \<noteq> []" using normalize_abs_Inr [OF m(1)] by blast
    then have "dropWhile (\<lambda>c. c = slash) m \<noteq> []" unfolding split_path_Inr Let_def by metis
    moreover have p: "p = m @ slash # rel" using rel False by simp
    ultimately have "q = dropWhile (\<lambda>c. c = slash) m @ slash # rel"
      unfolding q_def p dropWhile_eq_Nil_conv using dropWhile_append1 [of _ m "\<lambda>c. c = slash" "slash # rel"] by blast
    then have "list_all (\<lambda>n. validate_name n = Inr ()) (split_on slash rel)"
      using q(2) by (simp add: split_on_append)
    moreover from this have "hd rel \<noteq> slash"
      using assms(2) by (cases rel) (auto dest!: valid_name split: if_split_asm)
    ultimately show ?thesis using parts [OF assms(2)] by blast
  qed
qed

section \<open>Reading through the overlay\<close>

lemma join_snoc:
  "join_with [slash] (xs @ [x]) = (if xs = [] then x else join_with [slash] xs @ slash # x)"
  by (induction xs rule: induct_list012) auto

lemma join_empty: "names_ok ps \<Longrightarrow> join_with [slash] ps \<noteq> []"
  by (cases ps rule: remdups_adj.cases) (auto simp: names_ok_def)

text \<open>The walk reads a file where no component on the way is staged and the stored trees have it.\<close>

lemma resolve_walk_blob:
  assumes "names_ok parts" "before = [] \<or> join_with [slash] before \<noteq> []"
    and "map_of ov (child_prefix (join_with [slash] before) (join_with [slash] parts)) = None"
  shows "resolve_walk get ov before parts cur = Inr (ResolvedBlob i x) \<longleftrightarrow>
    \<not> staged_above (\<lambda>r. map_of ov (child_prefix (join_with [slash] before) r)) parts \<and>
    file_at (\<lambda>i _. get i) () (Some cur) parts = Some (i, x)"
  using assms
proof (induction parts arbitrary: before cur)
  case Nil
  then show ?case by (simp add: names_ok_def)
next
  case (Cons n ps)
  let ?M = "\<lambda>r. map_of ov (child_prefix (join_with [slash] before) r)"
  have n: "n \<noteq> []" "ps \<noteq> [] \<longrightarrow> names_ok ps" using Cons.prems(1) by (auto simp: names_ok_def)
  have so_far: "(if join_with [slash] before = [] then n else join_with [slash] before @ [slash] @ n)
      = child_prefix (join_with [slash] before) n"
    by (simp add: child_prefix_def)
  have next_before: "join_with [slash] (before @ [n]) = child_prefix (join_with [slash] before) n"
    using Cons.prems(2) by (auto simp: join_snoc child_prefix_def)
  show ?case
  proof (cases ps)
    case Nil
    then have "?M n = None" using Cons.prems(3) by simp
    then show ?thesis
      unfolding Nil resolve_walk.simps Let_def so_far
      by (auto simp: and_then_Inr_iff ok_or_Inr_iff staged_above_def split: option.splits sum.splits EntryKind.splits)
  next
    case (Cons m qs)
    have ne: "child_prefix (join_with [slash] before) n \<noteq> []" using n(1) by (simp add: child_prefix_def)
    have below: "child_prefix (join_with [slash] (before @ [n])) r = child_prefix (join_with [slash] before) (n @ slash # r)" for r
      unfolding next_before by (rule child_prefix_nested [OF ne])
    have IH: "resolve_walk get ov (before @ [n]) ps c = Inr (ResolvedBlob i x) \<longleftrightarrow>
        \<not> staged_above (\<lambda>r. ?M (n @ slash # r)) ps \<and> file_at (\<lambda>i _. get i) () (Some c) ps = Some (i, x)" for c
      by (rule Cons.IH [of "before @ [n]", unfolded below]) (use n Cons Cons.prems(3) ne next_before in simp_all)
    show ?thesis
    proof (cases "?M n")
      case None
      then have above: "staged_above ?M (n # ps) = staged_above (\<lambda>r. ?M (n @ slash # r)) ps"
        using staged_above_Cons [of ?M n m qs] by (simp add: Cons)
      have "ps \<noteq> []" by (simp add: Cons)
      then show ?thesis
        unfolding resolve_walk.simps(2) file_at.simps(3) Let_def so_far None option.case above
        by (auto simp: and_then_Inr_iff ok_or_Inr_iff IH split: option.splits sum.splits)
    next
      case (Some op)
      then have "staged_above ?M (n # ps)" using staged_above_Cons [of ?M n m qs] by (simp add: Cons)
      then show ?thesis
        unfolding resolve_walk.simps(2) Let_def so_far Some option.case by (auto simp: Cons split: option.splits)
    qed
  qed
qed

text \<open>
  The files a session sees. Where no row is staged strictly below the path, \<open>resolve\<close> answers with a file
  exactly when the overlay's effect on the tree has that file there, and with the same blob and executable bit.
\<close>

lemma overlay_map_ok: "bt_ok (overlay_map rows)"
proof -
  have "bt_ok acc \<Longrightarrow> bt_ok (fold (\<lambda>(path, blob, exec) m. bt_insert path (map_option (\<lambda>i. (i, exec)) blob) m) rows acc)" for acc
    by (induction rows arbitrary: acc) auto
  then show ?thesis by (simp add: overlay_map_def)
qed

lemma resolve_reads_overlay:
  assumes "longest_mount ms path = Inr m" "rel_of (mnt_path m) path = Inr rel"
    and "split_path rel = Inr ps" "rel \<noteq> []"
    and "\<not> staged_below (map_of (overlay_map rows)) ps"
  shows "resolve get ms rows root path = Inr (ResolvedBlob i x) \<longleftrightarrow>
    overlay_spec (map_of (overlay_map rows)) (file_at (\<lambda>i _. get i) () (Some root)) ps = Some (i, x)"
proof -
  let ?M = "map_of (overlay_map rows)"
  have ps: "names_ok ps" "join_with [slash] ps = rel" using rel_of_parts [OF assms(2,4)] assms(3) by auto
  have start: "resolve get ms rows root path =
      (if ?M rel \<noteq> None then (case ?M rel of Some (Some (i, exec)) \<Rightarrow> Inr (ResolvedBlob i exec) | _ \<Rightarrow> Inl (NotFound rel))
       else resolve_walk get (overlay_map rows) [] ps root)"
    using assms(1-4) by (simp add: resolve_def Let_def)
  show ?thesis
  proof (cases "?M rel")
    case None
    then show ?thesis
      using resolve_walk_blob [OF ps(1), of "[]" "overlay_map rows" get root i x] ps(2) assms(5)
      by (simp add: start overlay_spec_def child_prefix_def)
  next
    case (Some op)
    then show ?thesis using assms(5) ps(2) by (auto simp: start overlay_spec_def split: option.splits)
  qed
qed

section \<open>Choosing the mount\<close>

lemma longest_fold:
  assumes "try_fold (longest_step p) ms (best, n) = Inr (best', n')"
    and "case best of None \<Rightarrow> n = 0 | Some b \<Rightarrow> \<exists>mp. normalize_abs (mnt_path b) = Inr mp \<and> mount_covers mp p \<and> n = length mp"
  shows "(case best' of None \<Rightarrow> n' = 0 | Some b \<Rightarrow> \<exists>mp. normalize_abs (mnt_path b) = Inr mp \<and> mount_covers mp p \<and> n' = length mp) \<and>
    (best' = best \<or> best' \<in> Some ` set ms) \<and> n \<le> n' \<and>
    (\<forall>m \<in> set ms. \<exists>mp. normalize_abs (mnt_path m) = Inr mp \<and> (mount_covers mp p \<longrightarrow> length mp \<le> n' \<and> best' \<noteq> None))"
  using assms
proof (induction ms arbitrary: best n)
  case (Cons m ms)
  obtain b1 n1 where s1: "longest_step p m (best, n) = Inr (b1, n1)" "try_fold (longest_step p) ms (b1, n1) = Inr (best', n')"
    using Cons.prems(1) by (auto simp: and_then_Inr_iff)
  obtain mp where mp: "normalize_abs (mnt_path m) = Inr mp"
      "(b1, n1) = (if mount_covers mp p \<and> n \<le> length mp then (Some m, length mp) else (best, n))"
    using s1(1) by (auto simp: longest_step_def and_then_Inr_iff split: if_split_asm)
  have inv: "case b1 of None \<Rightarrow> n1 = 0 | Some b \<Rightarrow> \<exists>mp. normalize_abs (mnt_path b) = Inr mp \<and> mount_covers mp p \<and> n1 = length mp"
    using mp Cons.prems(2) by (auto split: if_split_asm)
  note IH = Cons.IH [OF s1(2) inv]
  have n1: "n \<le> n1" "b1 = best \<or> b1 = Some m" "mount_covers mp p \<longrightarrow> length mp \<le> n1 \<and> b1 \<noteq> None"
    using mp(2) Cons.prems(2) by (auto split: if_split_asm option.splits)
  have some: "b1 \<noteq> None \<longrightarrow> best' \<noteq> None" using IH by auto
  have "n \<le> n'" using IH n1(1) by linarith
  moreover have "best' = best \<or> best' \<in> Some ` set (m # ms)" using IH n1(2) by auto
  moreover have "mount_covers mp p \<longrightarrow> length mp \<le> n' \<and> best' \<noteq> None" using IH n1(3) some by linarith
  ultimately show ?case using IH mp(1) by simp
qed auto

lemma longest_mount_best:
  assumes "longest_mount ms path = Inr m"
  shows "m \<in> set ms \<and> (\<exists>p mp. normalize_abs path = Inr p \<and> normalize_abs (mnt_path m) = Inr mp \<and> mount_covers mp p \<and>
    (\<forall>m' \<in> set ms. \<exists>mp'. normalize_abs (mnt_path m') = Inr mp' \<and> (mount_covers mp' p \<longrightarrow> length mp' \<le> length mp)))"
proof -
  obtain p n where p: "normalize_abs path = Inr p" "try_fold (longest_step p) ms (None, 0) = Inr (Some m, n)"
    using assms by (auto simp: longest_mount_def and_then_Inr_iff ok_or_Inr_iff)
  have "(\<exists>mp. normalize_abs (mnt_path m) = Inr mp \<and> mount_covers mp p \<and> n = length mp) \<and> m \<in> set ms \<and>
      (\<forall>m' \<in> set ms. \<exists>mp'. normalize_abs (mnt_path m') = Inr mp' \<and> (mount_covers mp' p \<longrightarrow> length mp' \<le> n))"
    using longest_fold [OF p(2)] by (auto 0 3)
  then show ?thesis using p(1) by blast
qed

text \<open>
  A path is served by the mount with the longest path that covers it, and the rest of the path is then always
  defined: no mount on the way is skipped and no sibling whose name merely starts the same is chosen.
\<close>

theorem longest_mount_covers:
  assumes "longest_mount ms path = Inr m"
  shows "m \<in> set ms \<and> (\<exists>p mp rel. normalize_abs path = Inr p \<and> normalize_abs (mnt_path m) = Inr mp \<and>
    rel_of (mnt_path m) path = Inr rel \<and> (if mp = ''/'' then rel = dropWhile (\<lambda>c. c = slash) p else p = mp \<and> rel = [] \<or> p = mp @ slash # rel) \<and>
    (\<forall>m' \<in> set ms. \<exists>mp'. normalize_abs (mnt_path m') = Inr mp' \<and>
      (mp' = ''/'' \<or> p = mp' \<or> prefix (mp' @ [slash]) p \<longrightarrow> length mp' \<le> length mp)))"
proof -
  obtain p mp where p: "normalize_abs path = Inr p" "normalize_abs (mnt_path m) = Inr mp" "mount_covers mp p"
    and best: "m \<in> set ms" "\<forall>m' \<in> set ms. \<exists>mp'. normalize_abs (mnt_path m') = Inr mp' \<and> (mount_covers mp' p \<longrightarrow> length mp' \<le> length mp)"
    using longest_mount_best [OF assms] by blast
  have "\<exists>rel. rel_of (mnt_path m) path = Inr rel \<and>
      (if mp = ''/'' then rel = dropWhile (\<lambda>c. c = slash) p else p = mp \<and> rel = [] \<or> p = mp @ slash # rel)"
    using p by (auto simp: rel_of_def mount_covers_def strip_prefix_def ok_or_def prefix_def)
  then show ?thesis using p(1,2) best unfolding mount_covers_def by blast
qed

section \<open>A checkin publishes what the session reads\<close>

lemma file_at_state: "file_at (\<lambda>i _. g i st) () r = file_at g st r"
proof
  show "file_at (\<lambda>i _. g i st) () r ps = file_at g st r ps" for ps
    by (induction g st r ps rule: file_at.induct) (auto split: sum.splits option.splits)
qed

lemma staged_below_empty [simp]: "\<not> staged_below (map_of (overlay_map [])) ps"
  by (simp add: overlay_map_def staged_below_def)

text \<open>
  C22: After a checkin the session's overlay is cleared and its mount is moved to the published tree. At every path
  below which the overlay stages nothing, a file the session could read before, through the overlay over the old tree, it
  reads afterwards from the new tree alone, with the same blob and executable bit, and it reads no file there that it did
  not read before. At a path with staged rows below it the two differ: over a base file \<open>a\<close>, a write of \<open>a/b\<close> leaves \<open>a\<close>
  readable until the checkin, which makes it a directory.
\<close>

theorem checkin_publishes_what_was_read:
  assumes "apply_overlay (batch_get_tree H) (batch_put_tree H) (Some base) (overlay_map rows) p = Some (Inr root, p')"
    and "\<And>r. map_of (overlay_map rows) (slash # r) = None" and "publication_good H p'"
    and "longest_mount ms path = Inr m" "rel_of (mnt_path m) path = Inr rel" "rel \<noteq> []"
    and "\<not> staged_below (map_of (overlay_map rows)) (split_on slash rel)"
  shows "resolve (\<lambda>i. batch_get_tree H i p') ms rows base path = Inr (ResolvedBlob i x) \<longleftrightarrow>
    resolve (\<lambda>i. batch_get_tree H i p') ms [] root path = Inr (ResolvedBlob i x)"
proof -
  obtain ps where ps: "split_path rel = Inr ps" "names_ok ps" "join_with [slash] ps = rel"
    using rel_of_parts [OF assms(5,6)] by blast
  have parts: "split_on slash rel = ps"
    using ps(2,3) split_on_join [of ps slash] by (auto simp: names_ok_def)
  have "file_at (batch_get_tree H) p' (Some root) ps = overlay_spec (map_of (overlay_map rows)) (file_at (batch_get_tree H) p' (Some base)) ps"
    using mem.apply_overlay_ok [OF assms(1) overlay_map_ok assms(3) _ ps(2)] assms(2) by blast
  moreover have "overlay_spec (map_of (overlay_map [])) f ps = f ps" for f
    by (simp add: overlay_spec_def overlay_map_def staged_below_def staged_above_def)
  moreover note resolve_reads_overlay [OF assms(4,5) ps(1) assms(6), of rows "\<lambda>i. batch_get_tree H i p'" base i x]
    resolve_reads_overlay [OF assms(4,5) ps(1) assms(6), of "[]" "\<lambda>i. batch_get_tree H i p'" root i x]
  ultimately show ?thesis using assms(7) by (simp add: file_at_state parts)
qed

definition example_mounts :: "Mount list" where
  "example_mounts = [\<lparr>mnt_path = ''/'', mnt_spec = ''ref:heads/a'', mnt_mode = Rw, mnt_base_oid = None\<rparr>,
     \<lparr>mnt_path = ''/main'', mnt_spec = ''ref:main'', mnt_mode = Ro, mnt_base_oid = None\<rparr>]"

theorem longest_mount_covers_witness:
  "rel_of ''/main'' ''/main/src/a.rs'' = Inr ''src/a.rs'' \<and>
   (\<exists>m \<in> set example_mounts. longest_mount example_mounts ''/main/src/a.rs'' = Inr m \<and> mnt_path m = ''/main'')"
proof -
  let ?m = "\<lparr>mnt_path = ''/main'', mnt_spec = ''ref:main'', mnt_mode = Ro, mnt_base_oid = None\<rparr>"
  have l: "longest_mount example_mounts ''/main/src/a.rs'' = Inr ?m" by code_simp
  have "rel_of ''/main'' ''/main/src/a.rs'' = Inr ''src/a.rs''" by code_simp
  then show ?thesis using longest_mount_covers [OF l] l by auto
qed

lemma fold_new_file_example:
  "\<exists>H p p'. apply_overlay (batch_get_tree H) (batch_put_tree H) (Some 2) [(''a'', Some (7, False))] p = Some (Inr 1, p') \<and>
    publication_good H p'"
proof -
  let ?e = "\<lparr>e_name = ''a'', e_kind = EntryKind.Blob, e_id = 7, e_exec = False\<rparr>"
  let ?tE = "\<lparr>entries = []\<rparr> :: Tree" and ?tA = "\<lparr>entries = [?e]\<rparr> :: Tree"
  have ok: "tree_ok ?tE" "tree_ok ?tA" by (simp_all add: tree_ok_def validate_name_def utf8_ascii)
  obtain bE bA where enc: "tree_encode ?tE = Some (Inr bE)" "tree_encode ?tA = Some (Inr bA)"
    using tree_encodes ok by (metis length_Cons list.size(3) le0 max_tree_entries_def numeral_One one_le_numeral One_nat_def Tree.select_convs(1))
  then have dec: "tree_decode bE = Inr ?tE" "tree_decode bA = Inr ?tA" using ok by (simp_all add: tree_decode_iff)
  then have ne: "bA \<noteq> bE" by auto
  define H where "H = (\<lambda>bs. if bs = bE then 2 else 1 :: oid)"
  have hash: "H bE = 2" "H bA = 1" using ne by (simp_all add: H_def)
  define p where "p = \<lparr>p_store = (memory_store_new False)\<lparr>visible := [2 \<mapsto> bE]\<rparr>, p_batch = begin_batch, p_seen = {}\<rparr>"
  let ?st1 = "(p_store p)\<lparr>visible := [2 \<mapsto> bE, 1 \<mapsto> bA], stats := file_barrier (stats (p_store p))\<rparr>"
  let ?p1 = "p\<lparr>p_store := ?st1, p_batch := begin_batch\<lparr>owed := {1}, new_puts := 1\<rparr>, p_seen := {bA}\<rparr>"
  have put: "batch_put_tree H ?tA p = (Inr 1, ?p1)"
    by (simp add: batch_put_tree_def enc batch_put_def put_parts_def hash_parts_def hash p_def memory_store_new_def begin_batch_def Let_def)
  have get: "batch_get_tree H 2 p = Inr ?tE"
    by (simp add: batch_get_tree_def get_tree_def store_get_def hash dec p_def)
  have "overlay_fuel [(''a'', Some (7, False))] = Suc (Suc 0)" by (simp add: overlay_fuel_def)
  moreover have "from_canonical [?e] = Inr ?tA" using ok(2) by (simp add: from_canonical_iff)
  ultimately have "apply_overlay (batch_get_tree H) (batch_put_tree H) (Some 2) [(''a'', Some (7, False))] p = Some (Inr 1, ?p1)"
    using get put
    by (simp add: apply_overlay_def act_bind_def act_of_def act_ret_def split_level_def split_step_def
        strip_path_prefix_def file_edits_def file_edit_def child_base_def child_prefix_def child_edit_def tree_is_empty_def
        tree_default_def max_tree_entries_def Let_def prefix_def)
  moreover have "publication_good H ?p1"
    using ne by (auto simp: publication_good_def p_def H_def inj_on_def ran_def)
  ultimately show ?thesis by blast
qed

theorem checkin_publishes_what_was_read_witness:
  "\<exists>H p'. resolve (\<lambda>i. batch_get_tree H i p') example_mounts [(''a'', Some 7, False)] 2 ''/a'' = Inr (ResolvedBlob 7 False) \<and>
    resolve (\<lambda>i. batch_get_tree H i p') example_mounts [] 1 ''/a'' = Inr (ResolvedBlob 7 False)"
proof -
  obtain H p p' where f: "apply_overlay (batch_get_tree H) (batch_put_tree H) (Some 2) (overlay_map [(''a'', Some 7, False)]) p = Some (Inr 1, p')"
    "publication_good H p'" using fold_new_file_example by (auto simp: overlay_map_def)
  let ?m = "\<lparr>mnt_path = ''/'', mnt_spec = ''ref:heads/a'', mnt_mode = Rw, mnt_base_oid = None\<rparr>"
  have m: "longest_mount example_mounts ''/a'' = Inr ?m" "rel_of (mnt_path ?m) ''/a'' = Inr ''a''" by code_simp+
  have r: "resolve (\<lambda>i. batch_get_tree H i p') example_mounts [(''a'', Some 7, False)] 2 ''/a'' = Inr (ResolvedBlob 7 False)"
    using m by (simp add: resolve_def overlay_map_def)
  show ?thesis
    using r checkin_publishes_what_was_read [OF f(1) _ f(2) m, of 7 False] by (auto simp: overlay_map_def staged_below_def)
qed

end
