(* ===== verification/Catalog_Audit.thy ===== *)
theory Catalog_Audit
  imports Catalog
begin

text \<open>
  The catalog audit of \<open>fsck\<close> (\<open>Meta::audit_catalog\<close> in \<open>src/crates/forge-store/src/meta.rs\<close>): one
  definition per pass over a table, in the order of the source, and \<open>audit_catalog\<close>, which runs
  them all. A pass yields findings and reachability roots.

  The tables of the model are typed, so the checks on SQLite storage classes
  (\<open>audit_table_shape\<close>), on the 32-byte length of an id (\<open>CatalogAudit::oid\<close>), of the migration
  ledger and of \<open>PRAGMA integrity_check\<close> have nothing to look at here. A finding's detail is the
  fixed text of the source's message.
\<close>

section \<open>Findings and roots\<close>

record CatalogFinding =
  cf_code :: string
  cf_resource :: string
  cf_detail :: string

datatype CatalogObjectExpectation = AnyObject | Exact ObjectType | TreeEntryObject

record CatalogObjectRoot =
  cr_oid :: oid
  cr_expected :: CatalogObjectExpectation
  cr_resource :: string

definition finding :: "string \<Rightarrow> string \<Rightarrow> string \<Rightarrow> CatalogFinding" where
  "finding cd resource detail = \<lparr>cf_code = cd, cf_resource = resource, cf_detail = detail\<rparr>"

definition root :: "oid \<Rightarrow> CatalogObjectExpectation \<Rightarrow> string \<Rightarrow> CatalogObjectRoot" where
  "root i expected resource = \<lparr>cr_oid = i, cr_expected = expected, cr_resource = resource\<rparr>"

text \<open>Decimal digits of a reflog id.\<close>

fun show_nat :: "nat \<Rightarrow> string" where
  "show_nat n = (if n < 10 then [char_of (48 + n)] else show_nat (n div 10) @ [char_of (48 + n mod 10)])"

declare show_nat.simps [simp del]

section \<open>Refs and reflog\<close>

definition audit_ref :: "string \<Rightarrow> RefRec \<Rightarrow> CatalogFinding list" where
  "audit_ref name r =
    (let resource = ''catalog:ref:'' @ name in
     (case validate_ref_kind name (r_kind r) of
        Inl e \<Rightarrow> [finding ''REF_KIND'' resource (error_string e)] | Inr _ \<Rightarrow> [])
     @ (case catalog_ref_type (r_kind r) of
          None \<Rightarrow> [finding ''REF_KIND'' resource ''unknown ref kind''] | Some _ \<Rightarrow> [])
     @ (if starts_with ''tags/'' name \<and> (\<not> r_protected r \<or> \<not> r_sealed r \<or> r_kind r \<noteq> ''snapshot'')
        then [finding ''TAG_FLAGS'' resource ''tag refs must be protected+sealed snapshots''] else []))"

definition ref_root :: "string \<Rightarrow> RefRec \<Rightarrow> CatalogObjectRoot" where
  "ref_root name r =
    root (r_oid r)
      (case catalog_ref_type (r_kind r) of Some t \<Rightarrow> Exact t | None \<Rightarrow> AnyObject)
      (''ref:'' @ name)"

definition audit_refs :: "Catalog \<Rightarrow> CatalogFinding list \<times> CatalogObjectRoot list" where
  "audit_refs c =
    (concat (map (\<lambda>(name, r). audit_ref name r) (refs c)), map (\<lambda>(name, r). ref_root name r) (refs c))"

fun reflog_chain :: "(nat \<times> ReflogRec) list \<Rightarrow> (string \<rightharpoonup> oid) \<Rightarrow> CatalogFinding list" where
  "reflog_chain [] previous = []"
| "reflog_chain ((i, r) # rows) previous =
    (let resource = ''catalog:reflog:'' @ l_name r @ '':'' @ show_nat i in
     (case previous (l_name r) of
        Some p \<Rightarrow>
          if l_old_oid r \<noteq> Some p
          then [finding ''REFLOG_CHAIN'' resource ''old_oid does not equal previous new_oid''] else []
      | None \<Rightarrow>
          if l_old_oid r \<noteq> None \<and> l_reason r \<noteq> ''fork''
          then [finding ''REFLOG_CHAIN'' resource ''first reflog row may have old_oid only when it creates a fork'']
          else []))
    @ reflog_chain rows (previous(l_name r \<mapsto> l_new_oid r))"

text \<open>\<open>ORDER BY name, id\<close>: a stable sort by name of the rows in id order.\<close>

definition sorted_reflog :: "Catalog \<Rightarrow> (nat \<times> ReflogRec) list" where
  "sorted_reflog c = sort_key (\<lambda>(_, r). l_name r) (enumerate 1 (reflog_rows c))"

definition terminal_reflog :: "(nat \<times> ReflogRec) list \<Rightarrow> string \<rightharpoonup> oid \<times> string" where
  "terminal_reflog rows = fold (\<lambda>(_, r) t. t(l_name r \<mapsto> (l_new_oid r, l_reason r))) rows Map.empty"

definition audit_reflog :: "Catalog \<Rightarrow> CatalogFinding list" where
  "audit_reflog c =
    (let rows = sorted_reflog c; terminal = terminal_reflog rows in
     reflog_chain rows Map.empty
     @ concat (map (\<lambda>(name, r).
         (case terminal name of
            None \<Rightarrow> [finding ''REFLOG_MISSING'' (''catalog:ref:'' @ name) ''current ref has no reflog entry'']
          | Some (log_oid, _) \<Rightarrow>
              if log_oid \<noteq> r_oid r
              then [finding ''REFLOG_TERMINAL'' (''catalog:ref:'' @ name) ''current ref is not the terminal reflog new_oid'']
              else [])) (refs c))
     @ concat (map (\<lambda>name.
         (if \<not> has_row name (refs c) \<and> map_option snd (terminal name) \<noteq> Some ''abandon''
          then [finding ''REFLOG_ORPHAN'' (''catalog:reflog:'' @ name) ''reflog name has no current ref''] else []))
         (remdups_adj (map (\<lambda>(_, r). l_name r) rows))))"

section \<open>Sessions\<close>

definition audit_namespace :: "Catalog \<Rightarrow> string \<Rightarrow> NsRec \<Rightarrow> CatalogFinding list" where
  "audit_namespace c ns n =
    (let resource = ''catalog:namespace:'' @ ns in
     (case n_pinned_oid n of
        Some _ \<Rightarrow> [] | None \<Rightarrow> [finding ''NS_PIN'' resource ''namespace has no pinned commit''])
     @ (case n_live_ref n of
          None \<Rightarrow> []
        | Some live \<Rightarrow>
            (case map_of (refs c) live of
               Some r \<Rightarrow>
                 if r_kind r = ''commit'' then []
                 else [finding ''NS_LIVE_TYPE'' resource ''live ref is not commit'']
             | None \<Rightarrow> [finding ''NS_LIVE_REF'' resource ''missing live ref''])))"

definition audit_namespaces :: "Catalog \<Rightarrow> CatalogFinding list \<times> CatalogObjectRoot list" where
  "audit_namespaces c =
    (concat (map (\<lambda>(ns, n). audit_namespace c ns n) (namespaces c)),
     List.map_filter (\<lambda>(ns, n).
       map_option (\<lambda>i. root i (Exact ObjectType.Commit) (''namespace:'' @ ns @ '':pin'')) (n_pinned_oid n))
       (namespaces c))"

definition audit_mounts :: "Catalog \<Rightarrow> CatalogFinding list \<times> CatalogObjectRoot list" where
  "audit_mounts c =
    (concat (map (\<lambda>((ns, path), _).
       (if \<not> has_row ns (namespaces c)
        then [finding ''MOUNT_NAMESPACE'' (''catalog:mount:'' @ ns @ '':'' @ path)
               ''mount refers to a missing namespace'']
        else [])) (mounts c)),
     List.map_filter (\<lambda>((ns, path), m).
       map_option (\<lambda>i. root i AnyObject (''namespace:'' @ ns @ '':mount:'' @ path @ '':base'')) (m_base_oid m))
       (mounts c))"

text \<open>The relation of an observation or overlay row to its namespace and mount.\<close>

definition audit_session_row ::
  "Catalog \<Rightarrow> string \<Rightarrow> string \<Rightarrow> string \<Rightarrow> string \<Rightarrow> string \<Rightarrow> CatalogFinding list" where
  "audit_session_row c ns mount resource ns_code mount_code =
    (if \<not> has_row ns (namespaces c) then [finding ns_code resource ''row refers to a missing namespace'']
     else if \<not> has_row (ns, mount) (mounts c) then [finding mount_code resource ''row refers to a missing mount'']
     else [])"

definition audit_observations :: "Catalog \<Rightarrow> CatalogFinding list \<times> CatalogObjectRoot list" where
  "audit_observations c =
    (concat (map (\<lambda>((ns, mount, path), _).
       audit_session_row c ns mount (''catalog:observation:'' @ ns @ '':'' @ mount @ '':'' @ path)
         ''OBSERVATION_NAMESPACE'' ''OBSERVATION_MOUNT'') (observation_rows c)),
     List.map_filter (\<lambda>((ns, mount, path), seen).
       (let label = ''namespace:'' @ ns @ '':observation:'' @ mount @ '':'' @ path in
        case seen of
          SeenBlob i \<Rightarrow> Some (root i (Exact ObjectType.Blob) label)
        | SeenTree i \<Rightarrow> Some (root i (Exact ObjectType.Tree) label)
        | SeenAbsent \<Rightarrow> None)) (observation_rows c))"

definition audit_overlay :: "Catalog \<Rightarrow> CatalogFinding list \<times> CatalogObjectRoot list" where
  "audit_overlay c =
    (concat (map (\<lambda>((ns, mount, path), _).
       audit_session_row c ns mount (''catalog:overlay:'' @ ns @ '':'' @ mount @ '':'' @ path)
         ''OVERLAY_NAMESPACE'' ''OVERLAY_MOUNT'') (overlay c)),
     List.map_filter (\<lambda>((ns, mount, path), r).
       map_option (\<lambda>i. root i (Exact ObjectType.Blob)
         (''namespace:'' @ ns @ '':mount:'' @ mount @ '':overlay:'' @ path)) (o_blob_oid r)) (overlay c))"

section \<open>Seals, landmarks, introductions\<close>

definition audit_seal :: "Catalog \<Rightarrow> string \<Rightarrow> SealRec \<Rightarrow> CatalogFinding list" where
  "audit_seal c tag s =
    (let resource = ''catalog:seal:'' @ tag in
     case map_of (refs c) (''tags/'' @ tag) of
       None \<Rightarrow> [finding ''SEAL_TAG_REF'' resource ''missing sealed ref'']
     | Some r \<Rightarrow>
         if r_oid r \<noteq> s_snap_oid s \<or> r_kind r \<noteq> ''snapshot'' \<or> \<not> r_protected r \<or> \<not> r_sealed r
         then [finding ''SEAL_TAG_REF'' resource ''tag ref must be protected+sealed snapshot''] else [])"

definition seal_roots :: "string \<Rightarrow> SealRec \<Rightarrow> CatalogObjectRoot list" where
  "seal_roots tag s =
    (let resource = ''catalog:seal:'' @ tag in
     [root (s_snap_oid s) (Exact ObjectType.Snapshot) (resource @ '':snapshot''),
      root (s_commit_oid s) (Exact ObjectType.Commit) (resource @ '':commit''),
      root (s_tree_oid s) (Exact ObjectType.Tree) (resource @ '':tree'')])"

text \<open>\<open>str::trim_start_matches\<close> removes the prefix as often as it occurs.\<close>

function trim_start_matches :: "string \<Rightarrow> string \<Rightarrow> string" where
  "trim_start_matches p s =
    (if p \<noteq> [] \<and> prefix p s then trim_start_matches p (drop (length p) s) else s)"
  by pat_completeness auto
termination
  by (relation "measure (\<lambda>(p, s). length s)") (auto simp: prefix_def)

declare trim_start_matches.simps [simp del]

definition audit_seals :: "Catalog \<Rightarrow> CatalogFinding list \<times> CatalogObjectRoot list" where
  "audit_seals c =
    (concat (map (\<lambda>(tag, s). audit_seal c tag s) (seals c))
     @ concat (map (\<lambda>(name, _).
         (if starts_with ''tags/'' name \<and> \<not> has_row (trim_start_matches ''tags/'' name) (seals c)
          then [finding ''SEAL_ROW'' (''catalog:ref:'' @ name) ''sealed tag ref has no seals row''] else []))
         (refs c)),
     concat (map (\<lambda>(tag, s). seal_roots tag s) (seals c)))"

definition audit_landmarks :: "Catalog \<Rightarrow> CatalogFinding list \<times> CatalogObjectRoot list" where
  "audit_landmarks c =
    (concat (map (\<lambda>(i, k).
       (case catalog_object_type (k_kind k) of
          Some _ \<Rightarrow> []
        | None \<Rightarrow> [finding ''LANDMARK_KIND'' (''catalog:landmark:'' @ hex i) ''unknown landmark kind'']))
       (landmarks c))
     @ concat (map (\<lambda>(tag, s).
         (if map_option k_kind (map_of (landmarks c) (s_snap_oid s)) \<noteq> Some ''snapshot''
             \<or> map_option k_kind (map_of (landmarks c) (s_commit_oid s)) \<noteq> Some ''commit''
          then [finding ''SEAL_LANDMARK'' (''catalog:seal:'' @ tag) ''missing or mistyped landmark''] else []))
         (seals c)),
     map (\<lambda>(i, k). root i
       (case catalog_object_type (k_kind k) of Some t \<Rightarrow> Exact t | None \<Rightarrow> AnyObject)
       (''catalog:landmark:'' @ hex i)) (landmarks c))"

definition audit_intros :: "Catalog \<Rightarrow> CatalogObjectRoot list" where
  "audit_intros c =
    concat (map (\<lambda>(i, r).
      (let resource = ''catalog:object_intro:'' @ hex i in
       [root i TreeEntryObject resource,
        root (i_commit_oid r) (Exact ObjectType.Commit) (resource @ '':commit'')])) (object_intro c))"

section \<open>The whole audit\<close>

record CatalogAudit =
  findings :: "CatalogFinding list"
  roots :: "CatalogObjectRoot list"
  seal_rows :: "(string \<times> oid \<times> oid \<times> oid) list"
  ref_rows :: "RefRow list"
  refs_complete :: bool
  namespace_rows :: "(string \<times> oid option \<times> string option) list"
  mount_rows :: "((string \<times> string) \<times> MountRec) list"

definition audit_finish :: "CatalogAudit \<Rightarrow> CatalogAudit" where
  "audit_finish a = a\<lparr>
     findings := remdups_adj (sort_key (\<lambda>f. (cf_code f, cf_resource f, cf_detail f)) (findings a)),
     roots := sort_key cr_resource (roots a),
     seal_rows := sort_key fst (seal_rows a),
     ref_rows := sort_key row_name (ref_rows a),
     namespace_rows := sort_key fst (namespace_rows a),
     mount_rows := sort_key fst (mount_rows a)\<rparr>"

definition audit_catalog :: "Catalog \<Rightarrow> CatalogAudit" where
  "audit_catalog c = audit_finish \<lparr>
     findings = fst (audit_refs c) @ audit_reflog c @ fst (audit_namespaces c) @ fst (audit_mounts c)
       @ fst (audit_observations c) @ fst (audit_overlay c) @ fst (audit_seals c)
       @ fst (audit_landmarks c),
     roots = snd (audit_refs c) @ snd (audit_namespaces c) @ snd (audit_mounts c)
       @ snd (audit_observations c) @ snd (audit_overlay c) @ snd (audit_seals c)
       @ snd (audit_landmarks c) @ audit_intros c,
     seal_rows = list_seals c,
     ref_rows = list_refs c,
     refs_complete = True,
     namespace_rows = map (\<lambda>(ns, n). (ns, n_pinned_oid n, n_live_ref n)) (namespaces c),
     mount_rows = mounts c\<rparr>"

end
