(* ===== verification/Catalog_History.thy ===== *)
theory Catalog_History
  imports Catalog_Audit
begin

text \<open>
  The history of the catalog: a step relation over every operation of \<open>meta.rs\<close> that writes, the
  invariant each step keeps, and what follows for the life of a ref, for seals, for the audit of
  \<open>fsck\<close> and for sessions.

  The relation is labelled with the authority of the step (whether it may advance a protected
  ref). Its side conditions are what the callers in \<open>forge-api\<close> guarantee: a minted ULID is new, so
  a name built from it has no history; a reflog reason is one of the callers' literals, none of
  which is the tombstone \<open>abandon\<close>; and a tag has no slash (\<open>Forge::seal\<close>).
\<close>

section \<open>Tables\<close>

lemma map_of_update_row [simp]:
  "map_of (update_row k f t) j = (if j = k then map_option f (map_of t j) else map_of t j)"
  by (induction t) (auto simp: update_row_def)

lemma map_of_delete_rows [simp]: "map_of (delete_rows P t) j = (if P j then None else map_of t j)"
  by (induction t) (auto simp: delete_rows_def)

lemma keys_update_row [simp]: "map fst (update_row k f t) = map fst t"
  by (induction t) (auto simp: update_row_def)

lemma bt_ok_update_row [simp]: "bt_ok (update_row k f t) \<longleftrightarrow> bt_ok t"
  by (simp add: bt_ok_def)

lemma bt_ok_delete_rows [simp]: "bt_ok t \<Longrightarrow> bt_ok (delete_rows P t)"
  by (auto simp: bt_ok_def delete_rows_def sorted_wrt_map intro: sorted_wrt_filter)

lemma insert_row_Inr [simp]: "insert_row k v t = Inr t' \<longleftrightarrow> \<not> has_row k t \<and> t' = bt_insert k v t"
  by (auto simp: insert_row_def)

lemma has_row_simps [simp]:
  "has_row k (bt_insert j v t) \<longleftrightarrow> k = j \<or> has_row k t"
  "has_row k (update_row j f t) \<longleftrightarrow> has_row k t"
  "has_row k (delete_rows P t) \<longleftrightarrow> has_row k t \<and> \<not> P k"
  by (auto simp: has_row_def)

lemma has_row_Some: "map_of t k = Some v \<Longrightarrow> has_row k t"
  by (simp add: has_row_def)

lemma bt_ok_mem: "bt_ok t \<Longrightarrow> (k, v) \<in> set t \<longleftrightarrow> map_of t k = Some v"
  by (simp add: bt_ok_distinct map_of_eq_Some_iff)

section \<open>Histories\<close>

definition log_of :: "string \<Rightarrow> Catalog \<Rightarrow> ReflogRec list" where
  "log_of n c = filter (\<lambda>r. l_name r = n) (reflog_rows c)"

lemma find_rev_last: "find P (rev xs) = (if filter P xs = [] then None else Some (last (filter P xs)))"
  by (induction xs rule: rev_induct) auto

lemma last_reflog_log_of: "last_reflog n c = (if log_of n c = [] then None else Some (last (log_of n c)))"
  by (simp add: last_reflog_def log_of_def find_rev_last)

lemma ref_retired_iff: "ref_retired c n \<longleftrightarrow> log_of n c \<noteq> [] \<and> l_reason (last (log_of n c)) = ''abandon''"
  by (simp add: ref_retired_def last_reflog_log_of)

text \<open>One ref's rows: each starts where the one before it ended; only a fork starts elsewhere.\<close>

fun chain :: "oid option \<Rightarrow> ReflogRec list \<Rightarrow> bool" where
  "chain p [] \<longleftrightarrow> True"
| "chain p (r # rs) \<longleftrightarrow>
    (case p of Some i \<Rightarrow> l_old_oid r = Some i | None \<Rightarrow> l_old_oid r = None \<or> l_reason r = ''fork'')
    \<and> chain (Some (l_new_oid r)) rs"

lemma chain_snoc:
  "chain p (rs @ [r]) \<longleftrightarrow> chain p rs \<and>
    (case (if rs = [] then p else Some (l_new_oid (last rs))) of
       Some i \<Rightarrow> l_old_oid r = Some i | None \<Rightarrow> l_old_oid r = None \<or> l_reason r = ''fork'')"
  by (induction p rs rule: chain.induct) auto

definition ref_ok :: "string \<Rightarrow> RefRec \<Rightarrow> bool" where
  "ref_ok n r \<longleftrightarrow>
     validate_ref_kind n (r_kind r) = Inr () \<and> r_kind r \<in> set ref_kinds
     \<and> (starts_with ''tags/'' n \<longrightarrow> r_protected r \<and> r_sealed r \<and> r_kind r = ''snapshot'')"

definition history_ok :: "string \<Rightarrow> RefRec option \<Rightarrow> ReflogRec list \<Rightarrow> bool" where
  "history_ok n row log \<longleftrightarrow> chain None log \<and>
    (case row of
       Some r \<Rightarrow> ref_ok n r \<and> log \<noteq> [] \<and> l_new_oid (last log) = r_oid r \<and> l_reason (last log) \<noteq> ''abandon''
     | None \<Rightarrow> log \<noteq> [] \<longrightarrow> l_reason (last log) = ''abandon'' \<and> \<not> starts_with ''tags/'' n)"

definition refs_ok :: "Catalog \<Rightarrow> bool" where
  "refs_ok c \<longleftrightarrow> bt_ok (refs c) \<and> (\<forall>n. history_ok n (map_of (refs c) n) (log_of n c))"

definition ns_ok :: "Catalog \<Rightarrow> bool" where
  "ns_ok c \<longleftrightarrow> bt_ok (namespaces c) \<and> (\<forall>ns r. map_of (namespaces c) ns = Some r \<longrightarrow>
     n_pinned_oid r \<noteq> None \<and>
     (\<forall>live. n_live_ref r = Some live \<longrightarrow> (\<exists>row. map_of (refs c) live = Some row \<and> r_kind row = ''commit'')))"

definition seals_ok :: "Catalog \<Rightarrow> bool" where
  "seals_ok c \<longleftrightarrow> bt_ok (seals c) \<and>
     (\<forall>tag s. map_of (seals c) tag = Some s \<longrightarrow>
        (\<exists>row. map_of (refs c) (''tags/'' @ tag) = Some row \<and> r_oid row = s_snap_oid s
               \<and> r_kind row = ''snapshot'' \<and> r_protected row \<and> r_sealed row)) \<and>
     (\<forall>tag. has_row (''tags/'' @ tag) (refs c) \<longrightarrow> has_row tag (seals c) \<and> CHR ''/'' \<notin> set tag)"

definition cat_ok :: "Catalog \<Rightarrow> bool" where
  "cat_ok c \<longleftrightarrow> refs_ok c \<and> ns_ok c \<and> seals_ok c"

lemma cat_ok_empty: "cat_ok empty_catalog"
  by (simp add: cat_ok_def refs_ok_def ns_ok_def seals_ok_def history_ok_def log_of_def empty_catalog_def
      has_row_def)

section \<open>The three ways a ref changes\<close>

definition new_ref ::
  "string \<Rightarrow> oid option \<Rightarrow> RefRec \<Rightarrow> string \<Rightarrow> string \<Rightarrow> int \<Rightarrow> Catalog \<Rightarrow> Catalog" where
  "new_ref n old row agent reason ts c =
    push_reflog n old (r_oid row) agent reason ts (c\<lparr>refs := bt_insert n row (refs c)\<rparr>)"

definition move_ref ::
  "string \<Rightarrow> oid \<Rightarrow> oid \<Rightarrow> string \<Rightarrow> string \<Rightarrow> string \<Rightarrow> int \<Rightarrow> Catalog \<Rightarrow> Catalog" where
  "move_ref n old new kind agent reason ts c =
    push_reflog n (Some old) new agent reason ts (set_ref_oid n new kind ts c)"

definition retire_ref :: "string \<Rightarrow> oid \<Rightarrow> string \<Rightarrow> int \<Rightarrow> Catalog \<Rightarrow> Catalog" where
  "retire_ref n i agent ts c = delete_ref n (push_reflog n (Some i) i agent ''abandon'' ts c)"

lemma log_of_push_reflog:
  "log_of m (push_reflog n old new agent reason ts c) =
    log_of m c @ (if m = n then [\<lparr>l_name = n, l_old_oid = old, l_new_oid = new, l_agent_id = agent,
                                  l_reason = reason, l_ts_ms = ts\<rparr>] else [])"
  by (simp add: log_of_def push_reflog_def)

lemma log_of_cong: "reflog_rows c' = reflog_rows c \<Longrightarrow> log_of n c' = log_of n c"
  by (simp add: log_of_def)

lemma push_reflog_sel [simp]:
  "refs (push_reflog n old new agent reason ts c) = refs c"
  "namespaces (push_reflog n old new agent reason ts c) = namespaces c"
  "seals (push_reflog n old new agent reason ts c) = seals c"
  "mounts (push_reflog n old new agent reason ts c) = mounts c"
  "overlay (push_reflog n old new agent reason ts c) = overlay c"
  "observation_rows (push_reflog n old new agent reason ts c) = observation_rows c"
  "landmarks (push_reflog n old new agent reason ts c) = landmarks c"
  by (simp_all add: push_reflog_def)

lemma refs_change [simp]:
  "refs (new_ref n old row a r ts c) = bt_insert n row (refs c)"
  "refs (move_ref n i new kind a r ts c) =
     update_row n (\<lambda>r. r\<lparr>r_oid := new, r_kind := kind, r_updated_ms := ts\<rparr>) (refs c)"
  "refs (retire_ref n i a ts c) = delete_rows (\<lambda>m. m = n) (refs c)"
  by (simp_all add: new_ref_def move_ref_def retire_ref_def set_ref_oid_def delete_ref_def)

lemma refs_change_frame [simp]:
  "namespaces (new_ref n old row a r ts c) = namespaces c"
  "namespaces (move_ref n i new kind a r ts c) = namespaces c"
  "namespaces (retire_ref n i a ts c) = namespaces c"
  "seals (new_ref n old row a r ts c) = seals c"
  "seals (move_ref n i new kind a r ts c) = seals c"
  "seals (retire_ref n i a ts c) = seals c"
  by (simp_all add: new_ref_def move_ref_def retire_ref_def set_ref_oid_def delete_ref_def)

lemma log_of_change [simp]:
  "log_of m (new_ref n old row a r ts c) = log_of m c @
     (if m = n then [\<lparr>l_name = n, l_old_oid = old, l_new_oid = r_oid row, l_agent_id = a, l_reason = r, l_ts_ms = ts\<rparr>] else [])"
  "log_of m (move_ref n i new kind a r ts c) = log_of m c @
     (if m = n then [\<lparr>l_name = n, l_old_oid = Some i, l_new_oid = new, l_agent_id = a, l_reason = r, l_ts_ms = ts\<rparr>] else [])"
  "log_of m (retire_ref n i a ts c) = log_of m c @
     (if m = n then [\<lparr>l_name = n, l_old_oid = Some i, l_new_oid = i, l_agent_id = a, l_reason = ''abandon'', l_ts_ms = ts\<rparr>] else [])"
  by (simp_all add: new_ref_def move_ref_def retire_ref_def set_ref_oid_def delete_ref_def log_of_def push_reflog_def)

subsection \<open>They keep the invariant\<close>

lemma refs_ok_history: "refs_ok c \<Longrightarrow> history_ok n (map_of (refs c) n) (log_of n c)"
  by (simp add: refs_ok_def)

lemma unborn:
  assumes "refs_ok c" "\<not> has_row n (refs c)" "\<not> ref_retired c n"
  shows "log_of n c = []"
  using assms(2,3) refs_ok_history [OF assms(1), of n] by (auto simp: history_ok_def has_row_def ref_retired_iff)

lemma unborn_tag:
  assumes "refs_ok c" "\<not> has_row (''tags/'' @ tag) (refs c)"
  shows "log_of (''tags/'' @ tag) c = []"
  using assms(2) refs_ok_history [OF assms(1), of "''tags/'' @ tag"]
  by (auto simp: history_ok_def has_row_def starts_with_def)

lemma no_history_no_row: "refs_ok c \<Longrightarrow> log_of n c = [] \<Longrightarrow> map_of (refs c) n = None"
  using refs_ok_history [of c n] by (auto simp: history_ok_def split: option.splits)

lemma refs_ok_change:
  assumes "refs_ok c" "bt_ok (refs c')" "history_ok n (map_of (refs c') n) (log_of n c')"
    and "\<And>m. m \<noteq> n \<Longrightarrow> map_of (refs c') m = map_of (refs c) m \<and> log_of m c' = log_of m c"
  shows "refs_ok c'"
proof -
  have "history_ok m (map_of (refs c') m) (log_of m c')" for m
    using assms(3,4) refs_ok_history [OF assms(1), of m] by (cases "m = n") simp_all
  then show ?thesis using assms(2) by (simp add: refs_ok_def)
qed

lemma refs_ok_row: "refs_ok c \<Longrightarrow> map_of (refs c) n = Some r \<Longrightarrow> ref_ok n r"
  using refs_ok_history [of c n] by (simp add: history_ok_def)

lemma refs_ok_bt: "refs_ok c \<Longrightarrow> bt_ok (refs c)"
  by (simp add: refs_ok_def)

lemma refs_ok_new_ref:
  assumes "refs_ok c" "log_of n c = []" "ref_ok n row" "old = None \<or> reason = ''fork''" "reason \<noteq> ''abandon''"
  shows "refs_ok (new_ref n old row agent reason ts c)"
  by (rule refs_ok_change [of c _ n]) (use assms in \<open>auto simp: history_ok_def refs_ok_bt\<close>)

lemma refs_ok_move_ref:
  assumes "refs_ok c" and "map_of (refs c) n = Some row"
    and "r_oid row = old" "kind = r_kind row" "\<not> r_sealed row" "reason \<noteq> ''abandon''"
  shows "refs_ok (move_ref n old new kind agent reason ts c)"
  by (rule refs_ok_change [of c _ n])
     (use assms refs_ok_history [of c n] in \<open>auto simp: history_ok_def refs_ok_bt chain_snoc ref_ok_def\<close>)

lemma refs_ok_retire_ref:
  assumes "refs_ok c" and "map_of (refs c) n = Some row" and "r_oid row = i" "\<not> r_sealed row"
  shows "refs_ok (retire_ref n i agent ts c)"
  by (rule refs_ok_change [of c _ n])
     (use assms refs_ok_history [of c n] in \<open>auto simp: history_ok_def refs_ok_bt chain_snoc ref_ok_def\<close>)

text \<open>The namespaces and seals rest on rows that no step removes or changes in kind.\<close>

lemma ns_okD:
  assumes "ns_ok c" "map_of (namespaces c) ns = Some r"
  shows "n_pinned_oid r \<noteq> None"
    and "n_live_ref r = Some live \<Longrightarrow> \<exists>row. map_of (refs c) live = Some row \<and> r_kind row = ''commit''"
  using assms unfolding ns_ok_def by blast+

lemma seals_okD:
  assumes "seals_ok c"
  shows "map_of (seals c) tag = Some s \<Longrightarrow>
      \<exists>row. map_of (refs c) (''tags/'' @ tag) = Some row \<and> r_oid row = s_snap_oid s
               \<and> r_kind row = ''snapshot'' \<and> r_protected row \<and> r_sealed row"
    and "has_row (''tags/'' @ tag) (refs c) \<Longrightarrow> has_row tag (seals c) \<and> CHR ''/'' \<notin> set tag"
  using assms unfolding seals_ok_def by blast+

lemma ns_ok_mono:
  assumes "ns_ok c" "namespaces c' = namespaces c"
    and "\<And>n r. map_of (refs c) n = Some r \<Longrightarrow> live_head c n \<Longrightarrow> \<exists>r'. map_of (refs c') n = Some r' \<and> r_kind r' = r_kind r"
  shows "ns_ok c'"
  unfolding ns_ok_def
proof (intro conjI allI impI)
  show "bt_ok (namespaces c')" using assms(1,2) by (simp add: ns_ok_def)
  fix ns r
  assume ns: "map_of (namespaces c') ns = Some r"
  then show "n_pinned_oid r \<noteq> None" using assms(1,2) by (simp add: ns_ok_def)
  fix live assume live: "n_live_ref r = Some live"
  then obtain row where "map_of (refs c) live = Some row" "r_kind row = ''commit''"
    using ns_okD(2) [OF assms(1) ns [unfolded assms(2)]] by blast
  moreover have "live_head c live"
    using ns live assms(2) by (auto simp: live_head_def list_ex_iff dest: map_of_SomeD)
  ultimately show "\<exists>row. map_of (refs c') live = Some row \<and> r_kind row = ''commit''"
    using assms(3) by metis
qed

lemma seals_ok_mono:
  assumes "seals_ok c" "seals c' = seals c"
    and "\<And>n r. map_of (refs c) n = Some r \<Longrightarrow> r_sealed r \<Longrightarrow> map_of (refs c') n = Some r"
    and "\<And>tag. has_row (''tags/'' @ tag) (refs c') \<Longrightarrow> has_row (''tags/'' @ tag) (refs c)"
  shows "seals_ok c'"
  unfolding seals_ok_def
proof (intro conjI allI impI)
  show "bt_ok (seals c')" using assms(1,2) by (simp add: seals_ok_def)
  fix tag
  show "\<exists>row. map_of (refs c') (''tags/'' @ tag) = Some row \<and> r_oid row = s_snap_oid s
      \<and> r_kind row = ''snapshot'' \<and> r_protected row \<and> r_sealed row" if "map_of (seals c') tag = Some s" for s
    using seals_okD(1) [OF assms(1)] assms(2,3) that by metis
  assume "has_row (''tags/'' @ tag) (refs c')"
  then show "has_row tag (seals c')" "CHR ''/'' \<notin> set tag"
    using seals_okD(2) [OF assms(1)] assms(2,4) by simp_all
qed

lemma cat_ok_new_ref:
  assumes "cat_ok c" "log_of n c = []" "ref_ok n row" "old = None \<or> reason = ''fork''" "reason \<noteq> ''abandon''"
    and "\<not> starts_with ''tags/'' n"
  shows "cat_ok (new_ref n old row agent reason ts c)"
proof -
  have none: "map_of (refs c) n = None"
    using assms(1,2) no_history_no_row by (simp add: cat_ok_def)
  have "ns_ok (new_ref n old row agent reason ts c)"
    by (rule ns_ok_mono [of c]) (use assms(1) none in \<open>auto simp: cat_ok_def\<close>)
  moreover have "seals_ok (new_ref n old row agent reason ts c)"
    by (rule seals_ok_mono [of c]) (use assms none in \<open>auto simp: cat_ok_def starts_with_def\<close>)
  ultimately show ?thesis using refs_ok_new_ref assms by (simp add: cat_ok_def)
qed

lemma cat_ok_move_ref:
  assumes "cat_ok c" "map_of (refs c) n = Some row"
    and "r_oid row = old" "kind = r_kind row" "\<not> r_sealed row" "reason \<noteq> ''abandon''"
  shows "cat_ok (move_ref n old new kind agent reason ts c)"
proof -
  have "ns_ok (move_ref n old new kind agent reason ts c)"
    by (rule ns_ok_mono [of c]) (use assms in \<open>auto simp: cat_ok_def\<close>)
  moreover have "seals_ok (move_ref n old new kind agent reason ts c)"
    by (rule seals_ok_mono [of c]) (use assms in \<open>auto simp: cat_ok_def\<close>)
  ultimately show ?thesis using refs_ok_move_ref assms by (simp add: cat_ok_def)
qed

lemma cat_ok_retire_ref:
  assumes "cat_ok c" "map_of (refs c) n = Some row" "r_oid row = i" "\<not> r_sealed row" "\<not> live_head c n"
  shows "cat_ok (retire_ref n i agent ts c)"
proof -
  have "ns_ok (retire_ref n i agent ts c)"
    by (rule ns_ok_mono [of c]) (use assms in \<open>auto simp: cat_ok_def\<close>)
  moreover have "seals_ok (retire_ref n i agent ts c)"
    by (rule seals_ok_mono [of c]) (use assms in \<open>auto simp: cat_ok_def\<close>)
  ultimately show ?thesis using refs_ok_retire_ref assms by (simp add: cat_ok_def)
qed

lemma cat_ok_frame:
  assumes "cat_ok c" "refs c' = refs c" "reflog_rows c' = reflog_rows c" "namespaces c' = namespaces c"
    "seals c' = seals c"
  shows "cat_ok c'"
  using assms log_of_cong [OF assms(3)]
  by (auto simp: cat_ok_def refs_ok_def ns_ok_def seals_ok_def)

section \<open>What a successful operation did\<close>

abbreviation ref_row :: "oid \<Rightarrow> string \<Rightarrow> bool \<Rightarrow> bool \<Rightarrow> int \<Rightarrow> RefRec" where
  "ref_row i kind protected sealed ts \<equiv>
     \<lparr>r_oid = i, r_kind = kind, r_protected = protected, r_sealed = sealed, r_updated_ms = ts\<rparr>"

lemma begin_tx_Inr [simp]: "begin_tx body c = Inr x \<longleftrightarrow> \<not> read_only c \<and> body c = Inr x"
  by (simp add: begin_tx_def)

lemma deny_retired_Inr [simp]: "deny_retired c n = Inr u \<longleftrightarrow> \<not> ref_retired c n"
  by (simp add: deny_retired_def)

lemma insert_ref_row_Inr [simp]:
  "insert_ref_row n i kind p s ts c = Inr c' \<longleftrightarrow>
     kind \<in> set ref_kinds \<and> \<not> has_row n (refs c) \<and> c' = c\<lparr>refs := bt_insert n (ref_row i kind p s ts) (refs c)\<rparr>"
  by (auto simp: insert_ref_row_def and_then_Inr_iff)

lemma fold_new_ref [simp]:
  "push_reflog n old i agent reason ts (c\<lparr>refs := bt_insert n (ref_row i kind p s t) (refs c)\<rparr>) =
   new_ref n old (ref_row i kind p s t) agent reason ts c"
  by (simp add: new_ref_def)

lemma insert_ref_Inr:
  assumes "insert_ref n i kind p s agent reason ts c = Inr (u, c')"
  shows "\<not> read_only c \<and> validate_ref_kind n kind = Inr () \<and> \<not> starts_with ''tags/'' n \<and> kind \<in> set ref_kinds
    \<and> \<not> has_row n (refs c) \<and> \<not> ref_retired c n \<and> c' = new_ref n None (ref_row i kind p s ts) agent reason ts c"
  using assms by (simp add: insert_ref_def and_then_Inr_iff)

lemma insert_ref_with_intros_Inr:
  assumes "insert_ref_with_intros n i kind p s agent reason oids ts c = Inr (u, c')"
  shows "\<not> read_only c \<and> validate_ref_kind n kind = Inr () \<and> \<not> starts_with ''tags/'' n \<and> kind \<in> set ref_kinds
    \<and> \<not> has_row n (refs c) \<and> \<not> ref_retired c n
    \<and> c' = insert_intros oids i agent ts (new_ref n None (ref_row i kind p s ts) agent reason ts c)"
  using assms by (simp add: insert_ref_with_intros_def and_then_Inr_iff)

text \<open>The three outcomes of a compare-and-swap.\<close>

definition cas_created where
  "cas_created name new kind agent ts c r c' \<longleftrightarrow>
     map_of (refs c) name = None \<and> \<not> ref_retired c name \<and> kind \<in> set ref_kinds \<and> r = Updated name new
     \<and> c' = new_ref name None (ref_row new kind False False ts) agent ''cas'' ts c"

definition cas_advanced where
  "cas_advanced name expected new kind agent allow ts c r c' \<longleftrightarrow>
     (\<exists>row. map_of (refs c) name = Some row \<and> r_kind row = kind \<and> \<not> r_sealed row
        \<and> (r_protected row \<longrightarrow> allow) \<and> r_oid row = expected) \<and> r = Updated name new
     \<and> c' = move_ref name expected new kind agent ''cas'' ts c"

definition cas_forked where
  "cas_forked name expected new kind agent fork allow ts c r c' \<longleftrightarrow>
     (\<exists>row. map_of (refs c) name = Some row \<and> r_kind row = kind \<and> \<not> r_sealed row
        \<and> (r_protected row \<longrightarrow> allow) \<and> r_oid row \<noteq> expected
        \<and> validate_ref_kind fork kind = Inr () \<and> kind \<in> set ref_kinds \<and> \<not> has_row fork (refs c)
        \<and> r = Forked name fork new (r_oid row)
        \<and> c' = new_ref fork (Some (r_oid row)) (ref_row new kind False False ts) agent ''fork'' ts c)"

lemma cas_ref_Inr:
  assumes "cas_ref name expected new kind agent fork_agent allow ulid ts c = Inr (r, c')"
  shows "\<not> read_only c" "validate_ref_kind name kind = Inr ()" "\<not> starts_with ''tags/'' name"
    and "cas_created name new kind agent ts c r c' \<or> cas_advanced name expected new kind agent allow ts c r c'
      \<or> cas_forked name expected new kind agent (fork_name name fork_agent ulid) allow ts c r c'"
  using assms unfolding cas_ref_def cas_created_def cas_advanced_def cas_forked_def
  by (auto simp: and_then_Inr_iff Let_def has_row_def move_ref_def split: option.splits if_split_asm)

lemma cas_ref_with_intros_eq:
  "cas_ref_with_intros name expected new kind agent fork_agent allow oids ulid ts c =
     and_then (cas_ref name expected new kind agent fork_agent allow ulid ts c)
       (\<lambda>(r, c'). Inr (r, insert_intros oids new agent ts c'))"
  unfolding cas_ref_with_intros_def cas_ref_def begin_tx_def Let_def
  by (auto simp: and_then_assoc intro!: and_then_cong split: option.split)

lemma close_epoch_Inr:
  assumes "close_epoch ns mount new c = Inr c'"
  shows "has_row (ns, mount) (mounts c)"
    and "c' = clear_observations ns mount
       ((if mount = ''/'' then pin_ns ns new else (\<lambda>c. c))
         (clear_overlay ns mount c\<lparr>mounts := update_row (ns, mount) (\<lambda>m. m\<lparr>m_base_oid := Some new\<rparr>) (mounts c)\<rparr>))"
  using assms by (auto simp: close_epoch_def repin_mount_tx_def and_then_Inr_iff clear_overlay_def)

lemma cas_ref_session_Inr:
  assumes "cas_ref_session name expected new agent fork_agent ns mount oids ulid ts c = Inr (r, c')"
  obtains c1 c2 where "validate_ref_kind name ''commit'' = Inr ()"
    and "cas_advanced name expected new ''commit'' agent False ts c r c1 \<and> c2 = c1
      \<or> cas_forked name expected new ''commit'' agent (session_fork_name name fork_agent ulid) False ts c r c1
        \<and> c2 = set_mount_spec ns mount (''ref:'' @ session_fork_name name fork_agent ulid) c1"
    and "is_ok (close_epoch ns mount new c2)"
    and "\<And>c3. close_epoch ns mount new c2 = Inr c3 \<Longrightarrow> c' = insert_intros oids new agent ts c3"
  using assms unfolding cas_ref_session_def
  apply (auto simp: and_then_Inr_iff Let_def has_row_def is_ok_iff split: option.splits if_split_asm)
  subgoal premises prems for row c3
    by (rule prems(1) [of "move_ref name expected new ''commit'' agent ''cas'' ts c"])
       (use prems(2-) in \<open>auto simp: cas_advanced_def move_ref_def\<close>)
  subgoal premises prems for row c3
    by (rule prems(1) [of "new_ref (session_fork_name name fork_agent ulid) (Some (r_oid row))
           (ref_row new ''commit'' False False ts) agent ''fork'' ts c"])
       (use prems(2-) in \<open>auto simp: cas_forked_def ref_kinds_def has_row_def\<close>)
  done

lemma abandon_ref_Inr:
  assumes "abandon_ref n agent ts c = Inr (rr, c')"
  obtains row where "is_fork_ref n" "map_of (refs c) n = Some row" "\<not> r_sealed row" "\<not> r_protected row"
    "\<not> live_head c n" "\<not> still_mounted c n" "rr_oid rr = r_oid row" "c' = retire_ref n (r_oid row) agent ts c"
  using assms unfolding abandon_ref_def
  by (auto simp: and_then_Inr_iff retire_ref_def split: option.splits if_split_asm)

lemma publish_resolution_Inr:
  assumes "publish_resolution into expected commit con con_oid res agent allow oids ts c = Inr (pr, c')"
  obtains row con_row where "validate_ref_kind into ''commit'' = Inr ()" "validate_ref_kind res ''commit'' = Inr ()"
    "starts_with ''conflicts/'' con" "starts_with ''resolutions/'' res"
    "map_of (refs c) into = Some row" "r_kind row = ''commit''" "\<not> r_sealed row" "r_protected row \<longrightarrow> allow"
    "r_oid row = expected"
    "map_of (refs c) con = Some con_row" "r_kind con_row = ''conflict''" "\<not> r_sealed con_row" "\<not> r_protected con_row"
    "r_oid con_row = con_oid" "\<not> live_head c con" "\<not> still_mounted c con" "\<not> has_row res (refs c)"
    "\<not> ref_retired c res"
    "c' = insert_intros oids commit agent ts (retire_ref con con_oid agent ts
       (new_ref res None (ref_row commit ''commit'' False False ts) agent ''resolve'' ts
         (move_ref into expected commit ''commit'' agent ''resolve'' ts c)))"
proof -
  note u = assms [unfolded publish_resolution_def Let_def]
  obtain row con_row where rows: "map_of (refs c) into = Some row" "map_of (refs c) con = Some con_row"
    using u by (auto simp: and_then_Inr_iff split: option.splits if_split_asm)
  have "c' = insert_intros oids commit agent ts (retire_ref con con_oid agent ts
       (new_ref res None (ref_row commit ''commit'' False False ts) agent ''resolve'' ts
         (move_ref into expected commit ''commit'' agent ''resolve'' ts c)))"
    using u rows by (simp add: and_then_Inr_iff move_ref_def retire_ref_def new_ref_def)
  moreover note rows u
  ultimately show thesis
    by (intro that [of row con_row]) (simp_all add: and_then_Inr_iff ref_exists_def)
qed

lemma check_expect_ref_Inr [simp]:
  "check_expect_ref c e = Inr u \<longleftrightarrow>
    (case e of None \<Rightarrow> True | Some (n, i) \<Rightarrow> \<exists>row. map_of (refs c) n = Some row \<and> r_oid row = i)"
  by (auto simp: check_expect_ref_def split: option.splits)

lemma commit_seal_Inr:
  assumes "commit_seal tag snap commit tree agent e ts c = Inr (u, c')"
  shows "validate_ref_kind (''tags/'' @ tag) ''snapshot'' = Inr ()" "\<not> has_row (''tags/'' @ tag) (refs c)"
    and "check_expect_ref c e = Inr ()" "\<not> has_row tag (seals c)"
    and "c' = add_landmark commit ''commit'' ''seal'' ts (add_landmark snap ''snapshot'' ''seal'' ts
       (new_ref (''tags/'' @ tag) None (ref_row snap ''snapshot'' True True ts) agent ''seal'' ts c
         \<lparr>seals := bt_insert tag \<lparr>s_snap_oid = snap, s_commit_oid = commit, s_tree_oid = tree, s_ts_ms = ts\<rparr> (seals c)\<rparr>))"
  using assms unfolding commit_seal_def
  by (auto simp: and_then_Inr_iff ref_exists_def insert_seal_row_def Let_def simp del: check_expect_ref_Inr
      split: if_split_asm)

lemma create_session_Inr:
  assumes "create_session ns agent pinned live main ts c = Inr (u, c')"
  obtains ms where "validate_ref_kind live ''commit'' = Inr ()" "\<not> has_row ns (namespaces c)" "\<not> has_row live (refs c)"
    "c' = new_ref live None (ref_row pinned ''commit'' False False ts) agent ''session'' ts
      (c\<lparr>namespaces := bt_insert ns \<lparr>n_agent_id = agent, n_created_ms = ts, n_pinned_oid = Some pinned,
           n_live_ref = Some live\<rparr> (namespaces c)\<rparr>)\<lparr>mounts := ms\<rparr>"
  using assms unfolding create_session_def insert_ns_row_def insert_mount_row_def
  apply (auto simp: and_then_Inr_iff Let_def split: if_split_asm)
   apply (auto simp: new_ref_def push_reflog_def intro: that)
  done

end
