(* ===== verification/Catalog_Steps.thy ===== *)
theory Catalog_Steps
  imports Catalog_History
begin

text \<open>
  The step relation of the catalog and the properties of every reachable catalog: the life of a
  ref (\<open>Unborn\<close>, \<open>Live\<close>, \<open>Retired\<close>) as an abstract machine that every operation of \<open>meta.rs\<close>
  refines, and an audit that finds nothing wrong with refs, reflog, sessions and seals.
\<close>

section \<open>Steps\<close>

text \<open>
  Every operation of \<open>meta.rs\<close> that writes is a step, under the conditions its callers meet and the store does not
  check: a fork name and a live ref name carry a fresh ULID, a tag is one path component, only \<open>abandon_ref\<close> writes the
  reason \<open>abandon\<close>, and \<open>insert_namespace\<close> names a live ref that is a commit ref (\<open>create_session\<close> makes
  the ref itself). \<open>allow\<close> is the authority over protected refs.
\<close>

inductive catalog_step :: "bool \<Rightarrow> Catalog \<Rightarrow> Catalog \<Rightarrow> bool" for auth where
  step_insert_ref:
  "insert_ref n i kind p s agent reason ts c = Inr ((), c') \<Longrightarrow> reason \<noteq> ''abandon'' \<Longrightarrow> catalog_step auth c c'"
| step_insert_ref_with_intros:
  "insert_ref_with_intros n i kind p s agent reason oids ts c = Inr ((), c') \<Longrightarrow> reason \<noteq> ''abandon''
   \<Longrightarrow> catalog_step auth c c'"
| step_cas_ref:
  "cas_ref n expected new kind agent fork_agent allow ulid ts c = Inr (r, c') \<Longrightarrow> (allow \<longrightarrow> auth)
   \<Longrightarrow> log_of (fork_name n fork_agent ulid) c = [] \<Longrightarrow> catalog_step auth c c'"
| step_cas_ref_with_intros:
  "cas_ref_with_intros n expected new kind agent fork_agent allow oids ulid ts c = Inr (r, c') \<Longrightarrow> (allow \<longrightarrow> auth)
   \<Longrightarrow> log_of (fork_name n fork_agent ulid) c = [] \<Longrightarrow> catalog_step auth c c'"
| step_cas_ref_session:
  "cas_ref_session n expected new agent fork_agent ns mount oids ulid ts c = Inr (r, c')
   \<Longrightarrow> log_of (session_fork_name n fork_agent ulid) c = [] \<Longrightarrow> catalog_step auth c c'"
| step_publish_resolution:
  "publish_resolution into expected commit con con_oid res agent allow oids ts c = Inr (pr, c') \<Longrightarrow> (allow \<longrightarrow> auth)
   \<Longrightarrow> catalog_step auth c c'"
| step_abandon_ref: "abandon_ref n agent ts c = Inr (rr, c') \<Longrightarrow> catalog_step auth c c'"
| step_commit_seal:
  "commit_seal tag snap commit tree agent e ts c = Inr ((), c') \<Longrightarrow> CHR ''/'' \<notin> set tag \<Longrightarrow> catalog_step auth c c'"
| step_create_session:
  "create_session ns agent pinned live main ts c = Inr ((), c') \<Longrightarrow> log_of live c = [] \<Longrightarrow> catalog_step auth c c'"
| step_insert_namespace:
  "insert_namespace ns agent pinned live ts c = Inr ((), c') \<Longrightarrow> map_of (refs c) live = Some row \<Longrightarrow> r_kind row = ''commit''
   \<Longrightarrow> catalog_step auth c c'"
| step_abandon_session: "abandon_session ns discard c = Inr (a, c') \<Longrightarrow> catalog_step auth c c'"
| step_complete_noop: "complete_noop_session ns mount pinned c = Inr ((), c') \<Longrightarrow> catalog_step auth c c'"
| step_set_pin: "set_pin ns i c = Inr ((), c') \<Longrightarrow> catalog_step auth c c'"
| step_insert_mount: "insert_mount ns path spec mode base c = Inr ((), c') \<Longrightarrow> catalog_step auth c c'"
| step_update_mount_spec: "update_mount_spec ns path spec c = Inr ((), c') \<Longrightarrow> catalog_step auth c c'"
| step_observe: "observe ns mount path seen c = Inr ((), c') \<Longrightarrow> catalog_step auth c c'"
| step_observations_clear: "observations_clear ns c = Inr ((), c') \<Longrightarrow> catalog_step auth c c'"
| step_overlay_upsert: "overlay_upsert ns mount path blob exec c = Inr ((), c') \<Longrightarrow> catalog_step auth c c'"
| step_overlay_rename: "overlay_rename ns mount from to dest c = Inr ((), c') \<Longrightarrow> catalog_step auth c c'"
| step_overlay_clear: "overlay_clear ns mount c = Inr ((), c') \<Longrightarrow> catalog_step auth c c'"
| step_landmark: "landmark i kind reason ts c = Inr ((), c') \<Longrightarrow> catalog_step auth c c'"
| step_intro_insert: "intro_insert i commit agent ts c = Inr ((), c') \<Longrightarrow> catalog_step auth c c'"
| step_intro_insert_many: "intro_insert_many oids commit agent ts c = Inr ((), c') \<Longrightarrow> catalog_step auth c c'"
| step_forget_object: "\<not> read_only c \<Longrightarrow> catalog_step auth c (snd (forget_object i c))"

inductive reachable :: "Catalog \<Rightarrow> bool" where
  init: "reachable empty_catalog"
| step: "reachable c \<Longrightarrow> catalog_step auth c c' \<Longrightarrow> reachable c'"

section \<open>The life of a ref\<close>

datatype ref_life = Unborn | Live RefRec | Retired

definition life :: "Catalog \<Rightarrow> string \<Rightarrow> ref_life" where
  "life c n =
    (case map_of (refs c) n of
       Some r \<Rightarrow> Live r
     | None \<Rightarrow> if log_of n c = [] then Unborn else Retired)"

text \<open>The abstract machine: what may happen to one name in one step.\<close>

inductive ref_step :: "bool \<Rightarrow> ref_life \<Rightarrow> ref_life \<Rightarrow> bool" for auth where
  stay: "ref_step auth s s"
| born: "ref_step auth Unborn (Live r)"
| moved: "\<not> r_sealed r \<Longrightarrow> (r_protected r \<longrightarrow> auth) \<Longrightarrow> r_kind r' = r_kind r \<Longrightarrow> r_protected r' = r_protected r
   \<Longrightarrow> r_sealed r' = r_sealed r \<Longrightarrow> ref_step auth (Live r) (Live r')"
| retired: "\<not> r_sealed r \<Longrightarrow> \<not> r_protected r \<Longrightarrow> ref_step auth (Live r) Retired"

inductive_simps ref_step_Retired [simp]: "ref_step auth Retired s"
inductive_simps ref_step_Live: "ref_step auth (Live r) s"

lemma life_cong: "refs c' = refs c \<Longrightarrow> reflog_rows c' = reflog_rows c \<Longrightarrow> life c' n = life c n"
  by (simp add: life_def log_of_def)

lemma life_change [simp]:
  "life (new_ref n old row a r ts c) m = (if m = n then Live row else life c m)"
  "life (retire_ref n i a ts c) m = (if m = n then Retired else life c m)"
  by (simp_all add: life_def)

lemma life_move [simp]:
  "map_of (refs c) n = Some row \<Longrightarrow>
   life (move_ref n i new kind a r ts c) m =
     (if m = n then Live (row\<lparr>r_oid := new, r_kind := kind, r_updated_ms := ts\<rparr>) else life c m)"
  by (simp add: life_def)

lemma life_Live: "map_of (refs c) n = Some r \<Longrightarrow> life c n = Live r"
  by (simp add: life_def)

lemma life_Unborn: "refs_ok c \<Longrightarrow> log_of n c = [] \<Longrightarrow> life c n = Unborn"
  using no_history_no_row [of c n] by (simp add: life_def)

text \<open>What every step keeps, and what it does to every name.\<close>

definition good_step :: "bool \<Rightarrow> Catalog \<Rightarrow> Catalog \<Rightarrow> bool" where
  "good_step auth c c' \<longleftrightarrow> (cat_ok c \<longrightarrow> cat_ok c' \<and> (\<forall>n. ref_step auth (life c n) (life c' n)))"

lemma good_stepI:
  assumes "cat_ok c \<Longrightarrow> cat_ok c'" "\<And>n. cat_ok c \<Longrightarrow> ref_step auth (life c n) (life c' n)"
  shows "good_step auth c c'"
  using assms by (simp add: good_step_def)

lemma good_step_frame:
  assumes "good_step auth c c1"
    and "refs c' = refs c1" "reflog_rows c' = reflog_rows c1" "namespaces c' = namespaces c1" "seals c' = seals c1"
  shows "good_step auth c c'"
  using assms cat_ok_frame [OF _ assms(2-5)] life_cong [OF assms(2,3)] by (simp add: good_step_def)

lemma good_step_refl: "good_step auth c c"
  by (simp add: good_step_def stay)

lemma good_new_ref:
  assumes "cat_ok c \<Longrightarrow> log_of n c = []" "ref_ok n row" "old = None \<or> reason = ''fork''" "reason \<noteq> ''abandon''"
    and "\<not> starts_with ''tags/'' n"
  shows "good_step auth c (new_ref n old row agent reason ts c)"
proof (rule good_stepI)
  show "cat_ok c \<Longrightarrow> cat_ok (new_ref n old row agent reason ts c)"
    using assms by (intro cat_ok_new_ref)
  show "ref_step auth (life c m) (life (new_ref n old row agent reason ts c) m)" if "cat_ok c" for m
    using life_Unborn [of c n] assms(1) [OF that] that by (auto simp: cat_ok_def intro: stay born)
qed

lemma good_move_ref:
  assumes "map_of (refs c) n = Some row" "r_oid row = old" "r_kind row = kind" "\<not> r_sealed row"
    and "r_protected row \<longrightarrow> auth" "reason \<noteq> ''abandon''"
  shows "good_step auth c (move_ref n old new kind agent reason ts c)"
proof (rule good_stepI)
  show "cat_ok c \<Longrightarrow> cat_ok (move_ref n old new kind agent reason ts c)"
    using assms by (intro cat_ok_move_ref) auto
  show "ref_step auth (life c m) (life (move_ref n old new kind agent reason ts c) m)" for m
    using assms by (auto simp: life_Live intro: stay moved)
qed

lemma good_retire_ref:
  assumes "map_of (refs c) n = Some row" "r_oid row = i" "\<not> r_sealed row" "\<not> r_protected row" "\<not> live_head c n"
  shows "good_step auth c (retire_ref n i agent ts c)"
proof (rule good_stepI)
  show "cat_ok c \<Longrightarrow> cat_ok (retire_ref n i agent ts c)"
    using assms by (intro cat_ok_retire_ref) auto
  show "ref_step auth (life c m) (life (retire_ref n i agent ts c) m)" for m
    using assms by (auto simp: life_Live intro: stay retired)
qed

section \<open>Every operation\<close>

lemma insert_intros_sel [simp]:
  "refs (insert_intros oids i a ts c) = refs c" "reflog_rows (insert_intros oids i a ts c) = reflog_rows c"
  "namespaces (insert_intros oids i a ts c) = namespaces c" "seals (insert_intros oids i a ts c) = seals c"
  "mounts (insert_intros oids i a ts c) = mounts c" "overlay (insert_intros oids i a ts c) = overlay c"
  "observation_rows (insert_intros oids i a ts c) = observation_rows c"
  by (simp_all add: insert_intros_def)

lemma good_step_intros: "good_step auth c c1 \<Longrightarrow> good_step auth c (insert_intros oids i a ts c1)"
  by (rule good_step_frame) simp_all

lemma ref_ok_row: "validate_ref_kind n kind = Inr () \<Longrightarrow> kind \<in> set ref_kinds \<Longrightarrow> \<not> starts_with ''tags/'' n
    \<Longrightarrow> ref_ok n (ref_row i kind p s ts)"
  by (simp add: ref_ok_def)

lemma good_insert_ref:
  assumes "insert_ref n i kind p s agent reason ts c = Inr ((), c')" "reason \<noteq> ''abandon''"
  shows "good_step auth c c'"
  using insert_ref_Inr [OF assms(1)] assms(2) unborn [of c n]
  by (auto simp: cat_ok_def intro!: good_new_ref ref_ok_row)

lemma good_insert_ref_with_intros:
  assumes "insert_ref_with_intros n i kind p s agent reason oids ts c = Inr ((), c')" "reason \<noteq> ''abandon''"
  shows "good_step auth c c'"
  using insert_ref_with_intros_Inr [OF assms(1)] assms(2) unborn [of c n]
  by (auto simp: cat_ok_def intro!: good_step_intros good_new_ref ref_ok_row)

lemma not_tag_fork: "\<not> starts_with ''tags/'' (fork_name n a u)" "\<not> starts_with ''tags/'' (session_fork_name n a u)"
  by (simp_all add: starts_with_def fork_name_def session_fork_name_def)

lemma good_cas_outcome:
  assumes "cas_advanced name expected new kind agent allow ts c r c'
    \<or> cas_forked name expected new kind agent fork allow ts c r c'"
    and "allow \<longrightarrow> auth" "log_of fork c = []" "\<not> starts_with ''tags/'' fork"
  shows "good_step auth c c'"
  using assms(1)
proof
  assume "cas_advanced name expected new kind agent allow ts c r c'"
  then show ?thesis using assms(2) by (auto simp: cas_advanced_def intro!: good_move_ref)
next
  assume "cas_forked name expected new kind agent fork allow ts c r c'"
  then show ?thesis using assms(3,4) by (auto simp: cas_forked_def intro!: good_new_ref ref_ok_row)
qed

lemma good_cas_ref:
  assumes "cas_ref n expected new kind agent fork_agent allow ulid ts c = Inr (r, c')" "allow \<longrightarrow> auth"
    and "log_of (fork_name n fork_agent ulid) c = []"
  shows "good_step auth c c'"
proof (cases "cas_created n new kind agent ts c r c'")
  case True
  then have "c' = new_ref n None (ref_row new kind False False ts) agent ''cas'' ts c"
    by (simp add: cas_created_def)
  moreover have "good_step auth c (new_ref n None (ref_row new kind False False ts) agent ''cas'' ts c)"
    by (rule good_new_ref)
       (use True cas_ref_Inr(2,3) [OF assms(1)] unborn [of c n] in
         \<open>auto simp: cas_created_def cat_ok_def has_row_def ref_ok_row\<close>)
  ultimately show ?thesis by simp
next
  case False
  then show ?thesis using good_cas_outcome [OF _ assms(2,3) not_tag_fork(1)] cas_ref_Inr(4) [OF assms(1)] by blast
qed

lemma good_cas_ref_with_intros:
  assumes "cas_ref_with_intros n expected new kind agent fork_agent allow oids ulid ts c = Inr (r, c')" "allow \<longrightarrow> auth"
    and "log_of (fork_name n fork_agent ulid) c = []"
  shows "good_step auth c c'"
  using assms(1) good_cas_ref [OF _ assms(2,3)]
  by (auto simp: cas_ref_with_intros_eq and_then_Inr_iff intro: good_step_intros)

lemma good_step_ns:
  assumes "good_step auth c c1"
    and "refs c' = refs c1" "reflog_rows c' = reflog_rows c1" "seals c' = seals c1" "ns_ok c1 \<Longrightarrow> ns_ok c'"
  shows "good_step auth c c'"
proof -
  have "cat_ok c1 \<Longrightarrow> cat_ok c'"
    using assms(2-5) log_of_cong [OF assms(3)] by (auto simp: cat_ok_def refs_ok_def seals_ok_def)
  then show ?thesis using assms(1) life_cong [OF assms(2,3)] by (simp add: good_step_def)
qed

lemma ns_ok_pin: "ns_ok c \<Longrightarrow> ns_ok (pin_ns ns i c)"
  by (auto simp: ns_ok_def pin_ns_def split: if_split_asm)

lemma pin_ns_sel [simp]:
  "refs (pin_ns ns i c) = refs c" "reflog_rows (pin_ns ns i c) = reflog_rows c" "seals (pin_ns ns i c) = seals c"
  "overlay (pin_ns ns i c) = overlay c" "mounts (pin_ns ns i c) = mounts c"
  "observation_rows (pin_ns ns i c) = observation_rows c"
  by (simp_all add: pin_ns_def)

lemma good_close_epoch:
  assumes "good_step auth c c1" "close_epoch ns mount new c1 = Inr c'"
  shows "good_step auth c c'"
proof (rule good_step_ns [OF assms(1)])
  note eq = close_epoch_Inr(2) [OF assms(2)]
  show "refs c' = refs c1" "reflog_rows c' = reflog_rows c1" "seals c' = seals c1"
    unfolding eq by (simp_all add: clear_observations_def clear_overlay_def)
  assume "ns_ok c1"
  then show "ns_ok c'" unfolding eq
    by (auto simp: ns_ok_def clear_observations_def clear_overlay_def pin_ns_def split: if_split_asm)
qed

lemma good_cas_ref_session:
  assumes "cas_ref_session n expected new agent fork_agent ns mount oids ulid ts c = Inr (r, c')"
    and "log_of (session_fork_name n fork_agent ulid) c = []"
  shows "good_step auth c c'"
  using assms(1)
proof (rule cas_ref_session_Inr)
  fix c1 c2
  let ?fork = "session_fork_name n fork_agent ulid"
  assume c1: "cas_advanced n expected new ''commit'' agent False ts c r c1 \<and> c2 = c1
      \<or> cas_forked n expected new ''commit'' agent ?fork False ts c r c1
        \<and> c2 = set_mount_spec ns mount (''ref:'' @ ?fork) c1"
    and ok: "is_ok (close_epoch ns mount new c2)"
    and eq: "\<And>c3. close_epoch ns mount new c2 = Inr c3 \<Longrightarrow> c' = insert_intros oids new agent ts c3"
  have "good_step auth c c1"
    using c1 good_cas_outcome [OF _ _ assms(2) not_tag_fork(2)] by blast
  then have "good_step auth c c2"
    by (rule good_step_frame) (use c1 in \<open>auto simp: set_mount_spec_def\<close>)
  then show ?thesis
    using ok eq good_close_epoch good_step_intros unfolding is_ok_iff by metis
qed

lemma required_kind_ok: "validate_ref_kind n k = Inr () \<Longrightarrow> required_kind n = Some k' \<Longrightarrow> k = k'"
  by (auto simp: validate_ref_kind_def and_then_Inr_iff split: if_split_asm option.splits)

lemma required_kind_conflict: "starts_with ''conflicts/'' n \<Longrightarrow> required_kind n = Some ''conflict''"
  by (auto simp: required_kind_def starts_with_def prefix_def)

lemma good_publish_resolution:
  assumes "publish_resolution into expected commit con con_oid res agent allow oids ts c = Inr (pr, c')" "allow \<longrightarrow> auth"
  shows "good_step auth c c'"
  using assms(1)
proof (rule publish_resolution_Inr)
  fix row con_row
  let ?c1 = "move_ref into expected commit ''commit'' agent ''resolve'' ts c"
  let ?c2 = "new_ref res None (ref_row commit ''commit'' False False ts) agent ''resolve'' ts ?c1"
  let ?c3 = "retire_ref con con_oid agent ts ?c2"
  assume v: "validate_ref_kind into ''commit'' = Inr ()" "validate_ref_kind res ''commit'' = Inr ()"
    "starts_with ''conflicts/'' con" "starts_with ''resolutions/'' res"
    and into: "map_of (refs c) into = Some row" "r_kind row = ''commit''" "\<not> r_sealed row" "r_protected row \<longrightarrow> allow"
    "r_oid row = expected"
    and con: "map_of (refs c) con = Some con_row" "r_kind con_row = ''conflict''" "\<not> r_sealed con_row"
      "\<not> r_protected con_row" "r_oid con_row = con_oid" "\<not> live_head c con"
    and res: "\<not> has_row res (refs c)" "\<not> ref_retired c res"
    and eq: "c' = insert_intros oids commit agent ts ?c3"
  have ne: "into \<noteq> con" "res \<noteq> con" "res \<noteq> into"
    using into con res by (auto simp: has_row_def)
  have ok: "cat_ok ?c1 \<and> cat_ok ?c2 \<and> cat_ok ?c3" if c: "cat_ok c"
  proof (intro conjI)
    show 1: "cat_ok ?c1" using c into by (intro cat_ok_move_ref) auto
    show 2: "cat_ok ?c2"
      by (rule cat_ok_new_ref [OF 1])
         (use c v res ne unborn [of c res] in
           \<open>auto simp: cat_ok_def starts_with_def prefix_def ref_kinds_def intro!: ref_ok_row\<close>)
    show "cat_ok ?c3"
      by (rule cat_ok_retire_ref [OF 2, of _ con_row])
         (use con ne in \<open>auto simp: live_head_def\<close>)
  qed
  have "good_step auth c ?c3"
  proof (rule good_stepI)
    show "cat_ok c \<Longrightarrow> cat_ok ?c3" using ok by blast
    fix m assume c: "cat_ok c"
    have "life c res = Unborn" using c unborn [of c res] res life_Unborn by (simp add: cat_ok_def)
    then show "ref_step auth (life c m) (life ?c3 m)"
      using into con ne assms(2) by (auto simp: life_Live intro: stay born moved retired)
  qed
  then show ?thesis unfolding eq by (rule good_step_intros)
qed

lemma good_abandon_ref: "abandon_ref n agent ts c = Inr (rr, c') \<Longrightarrow> good_step auth c c'"
  by (erule abandon_ref_Inr) (auto intro: good_retire_ref)

lemma good_commit_seal:
  assumes "commit_seal tag snap commit tree agent e ts c = Inr ((), c')" "CHR ''/'' \<notin> set tag"
  shows "good_step auth c c'"
proof -
  let ?tag = "''tags/'' @ tag" and ?row = "ref_row snap ''snapshot'' True True ts"
  let ?c1 = "new_ref ?tag None ?row agent ''seal'' ts c"
  let ?c2 = "?c1\<lparr>seals := bt_insert tag \<lparr>s_snap_oid = snap, s_commit_oid = commit, s_tree_oid = tree, s_ts_ms = ts\<rparr> (seals c)\<rparr>"
  note seal = commit_seal_Inr [OF assms(1)]
  have log: "log_of ?tag c = []" if "cat_ok c"
    using unborn_tag that seal(2) by (simp add: cat_ok_def)
  have row: "ref_ok ?tag ?row"
    using seal(1) by (simp add: ref_ok_def ref_kinds_def)
  have refs2: "refs ?c2 = bt_insert ?tag ?row (refs c)" by simp
  have "good_step auth c ?c2"
  proof (rule good_stepI)
    assume c: "cat_ok c"
    have none: "map_of (refs c) ?tag = None" using seal(2) by (simp add: has_row_def)
    have "refs_ok ?c1" using c log row by (intro refs_ok_new_ref) (auto simp: cat_ok_def)
    then have "refs_ok ?c2" using log_of_cong [of ?c2 ?c1] by (simp add: refs_ok_def)
    moreover have "ns_ok ?c2"
      by (rule ns_ok_mono [of c]) (use c none in \<open>auto simp: cat_ok_def\<close>)
    moreover have "seals_ok ?c2"
      unfolding seals_ok_def refs2
    proof (intro conjI allI impI)
      show "bt_ok (seals ?c2)" using c by (simp add: cat_ok_def seals_ok_def)
      fix t
      show "\<exists>row. map_of (bt_insert ?tag ?row (refs c)) (''tags/'' @ t) = Some row \<and> r_oid row = s_snap_oid s
          \<and> r_kind row = ''snapshot'' \<and> r_protected row \<and> r_sealed row" if "map_of (seals ?c2) t = Some s" for s
        using that c seals_okD(1) [of c t s] by (cases "t = tag") (auto simp: cat_ok_def)
      assume "has_row (''tags/'' @ t) (bt_insert ?tag ?row (refs c))"
      then show "has_row t (seals ?c2)" "CHR ''/'' \<notin> set t"
        using c assms(2) seals_okD(2) [of c t] by (auto simp: cat_ok_def)
    qed
    ultimately show "cat_ok ?c2" by (simp add: cat_ok_def)
  next
    fix m assume c: "cat_ok c"
    have "life ?c2 m = life ?c1 m" by (rule life_cong) simp_all
    moreover have "life c ?tag = Unborn" using c log life_Unborn by (simp add: cat_ok_def)
    ultimately show "ref_step auth (life c m) (life ?c2 m)" by (auto intro: stay born)
  qed
  then show ?thesis
    unfolding seal(5) by (rule good_step_frame) (simp_all add: add_landmark_def)
qed

lemma not_tag_commit: "validate_ref_kind n ''commit'' = Inr () \<Longrightarrow> \<not> starts_with ''tags/'' n"
  by (rule notI) (drule required_kind_ok [of _ _ "''snapshot''"], auto simp: required_kind_def starts_with_def prefix_def)

lemma good_create_session:
  assumes "create_session ns agent pinned live main ts c = Inr ((), c')" "log_of live c = []"
  shows "good_step auth c c'"
  using assms(1)
proof (rule create_session_Inr)
  fix ms
  let ?n = "\<lparr>n_agent_id = agent, n_created_ms = ts, n_pinned_oid = Some pinned, n_live_ref = Some live\<rparr>"
  let ?row = "ref_row pinned ''commit'' False False ts"
  let ?c1 = "new_ref live None ?row agent ''session'' ts c"
  assume v: "validate_ref_kind live ''commit'' = Inr ()" and fresh: "\<not> has_row ns (namespaces c)"
    and c': "c' = new_ref live None ?row agent ''session'' ts (c\<lparr>namespaces := bt_insert ns ?n (namespaces c)\<rparr>)\<lparr>mounts := ms\<rparr>"
  have "good_step auth c ?c1"
    using v assms(2) not_tag_commit by (intro good_new_ref ref_ok_row) (auto simp: ref_kinds_def)
  then show ?thesis
  proof (rule good_step_ns)
    show "refs c' = refs ?c1" "reflog_rows c' = reflog_rows ?c1" "seals c' = seals ?c1"
      unfolding c' by (simp_all add: new_ref_def push_reflog_def)
    have ns': "namespaces c' = bt_insert ns ?n (namespaces c)" and refs': "refs c' = bt_insert live ?row (refs c)"
      unfolding c' by simp_all
    assume ok: "ns_ok ?c1"
    show "ns_ok c'" unfolding ns_ok_def ns' refs'
    proof (intro conjI allI impI)
      show "bt_ok (bt_insert ns ?n (namespaces c))" using ok by (simp add: ns_ok_def)
      fix m r l
      assume m: "map_of (bt_insert ns ?n (namespaces c)) m = Some r"
      show "n_pinned_oid r \<noteq> None"
        using m ns_okD(1) [OF ok, of m r] by (cases "m = ns") auto
      assume "n_live_ref r = Some l"
      then show "\<exists>row. map_of (bt_insert live ?row (refs c)) l = Some row \<and> r_kind row = ''commit''"
        using m ns_okD(2) [OF ok, of m r l] by (cases "m = ns") (auto split: if_split_asm)
    qed
  qed
qed

lemma good_insert_namespace:
  assumes "insert_namespace ns agent pinned live ts c = Inr ((), c')" "map_of (refs c) live = Some row" "r_kind row = ''commit''"
  shows "good_step auth c c'"
proof (rule good_step_ns [OF good_step_refl])
  let ?n = "\<lparr>n_agent_id = agent, n_created_ms = ts, n_pinned_oid = Some pinned, n_live_ref = Some live\<rparr>"
  have c': "c' = c\<lparr>namespaces := bt_insert ns ?n (namespaces c)\<rparr>"
    using assms(1) by (auto simp: insert_namespace_def insert_ns_row_def insert_row_def and_then_Inr_iff split: if_split_asm)
  show "refs c' = refs c" "reflog_rows c' = reflog_rows c" "seals c' = seals c" by (simp_all add: c')
  assume ok: "ns_ok c"
  then show "ns_ok c'"
    using assms(2,3) ns_okD [OF ok] by (auto simp: c' ns_ok_def split: if_split_asm)
qed

lemma good_abandon_session:
  assumes "abandon_session ns discard c = Inr (a, c')"
  shows "good_step auth c c'"
  by (rule good_step_ns [OF good_step_refl])
     (use assms in \<open>auto simp: abandon_session_def Let_def ns_ok_def split: if_split_asm\<close>)

lemma good_set_pin: "set_pin ns i c = Inr ((), c') \<Longrightarrow> good_step auth c c'"
  by (rule good_step_ns [OF good_step_refl]) (auto simp: set_pin_def ns_ok_pin)

lemma good_complete_noop: "complete_noop_session ns mount pinned c = Inr ((), c') \<Longrightarrow> good_step auth c c'"
  by (auto simp: complete_noop_session_def and_then_Inr_iff intro: good_close_epoch good_step_refl)

lemma stage_sel [simp]:
  "refs (stage ns m p b x c) = refs c" "reflog_rows (stage ns m p b x c) = reflog_rows c"
  "namespaces (stage ns m p b x c) = namespaces c" "seals (stage ns m p b x c) = seals c"
  "mounts (stage ns m p b x c) = mounts c" "observation_rows (stage ns m p b x c) = observation_rows c"
  by (simp_all add: stage_def)

lemma fold_stage_sel [simp]:
  "refs (fold (\<lambda>(p, i, x). stage ns m p (Some i) x) ds c) = refs c"
  "reflog_rows (fold (\<lambda>(p, i, x). stage ns m p (Some i) x) ds c) = reflog_rows c"
  "namespaces (fold (\<lambda>(p, i, x). stage ns m p (Some i) x) ds c) = namespaces c"
  "seals (fold (\<lambda>(p, i, x). stage ns m p (Some i) x) ds c) = seals c"
  by (induction ds arbitrary: c; auto)+

text \<open>The operations that touch neither refs, reflog, namespaces nor seals.\<close>

lemma good_side_steps:
  shows "insert_mount ns path spec mode base c = Inr ((), c') \<Longrightarrow> good_step auth c c'"
    and "update_mount_spec ns path spec c = Inr ((), c') \<Longrightarrow> good_step auth c c'"
    and "observe ns mount path seen c = Inr ((), c') \<Longrightarrow> good_step auth c c'"
    and "observations_clear ns c = Inr ((), c') \<Longrightarrow> good_step auth c c'"
    and "overlay_upsert ns mount path blob exec c = Inr ((), c') \<Longrightarrow> good_step auth c c'"
    and "overlay_rename ns mount from to dest c = Inr ((), c') \<Longrightarrow> good_step auth c c'"
    and "overlay_clear ns mount c = Inr ((), c') \<Longrightarrow> good_step auth c c'"
    and "landmark i kind reason ts c = Inr ((), c') \<Longrightarrow> good_step auth c c'"
    and "intro_insert i commit agent ts c = Inr ((), c') \<Longrightarrow> good_step auth c c'"
    and "intro_insert_many oids commit agent ts c = Inr ((), c') \<Longrightarrow> good_step auth c c'"
    and "good_step auth c (snd (forget_object i c))"
  by (rule good_step_frame [OF good_step_refl];
      auto simp: insert_mount_def update_mount_spec_def set_mount_spec_def observe_def observations_clear_def
        overlay_upsert_def overlay_rename_def overlay_clear_def clear_overlay_def supersede_def landmark_def
        add_landmark_def intro_insert_def intro_insert_many_def forget_object_def Let_def split: if_split_asm)+

lemma catalog_step_good: "catalog_step auth c c' \<Longrightarrow> good_step auth c c'"
  by (induction rule: catalog_step.induct)
     (blast intro: good_insert_ref good_insert_ref_with_intros good_cas_ref good_cas_ref_with_intros
       good_cas_ref_session good_publish_resolution good_abandon_ref good_commit_seal good_create_session
       good_insert_namespace good_abandon_session good_complete_noop good_set_pin good_side_steps)+

lemma reachable_cat_ok: "reachable c \<Longrightarrow> cat_ok c"
  by (induction rule: reachable.induct) (use catalog_step_good in \<open>auto simp: good_step_def cat_ok_empty\<close>)

end
