(* ===== verification/Catalog_Life.thy ===== *)
theory Catalog_Life
  imports Catalog_Steps
begin

text \<open>
  What holds of every reachable catalog and along every run: the abstract life of a ref, sealed and
  protected refs, retired names, the audit, and the outcome of a compare-and-swap.
\<close>

section \<open>Runs\<close>

abbreviation run :: "bool \<Rightarrow> Catalog \<Rightarrow> Catalog \<Rightarrow> bool" where
  "run auth \<equiv> (catalog_step auth)\<^sup>*\<^sup>*"

lemma step_mono: "catalog_step auth c c' \<Longrightarrow> catalog_step True c c'"
  by (induction rule: catalog_step.induct) (blast intro: catalog_step.intros)+

lemma reachable_run: "run auth c c' \<Longrightarrow> reachable c \<Longrightarrow> reachable c'"
  by (induction rule: rtranclp_induct) (auto intro: reachable.step)

lemma life_step: "reachable c \<Longrightarrow> catalog_step auth c c' \<Longrightarrow> ref_step auth (life c n) (life c' n)"
  using catalog_step_good [of auth c c'] reachable_cat_ok [of c] by (simp add: good_step_def)

text \<open>A state of a name that the abstract machine never leaves is never left by the catalog.\<close>

lemma stuck_run:
  assumes "run auth c c'" "reachable c" "life c n = s" "\<And>s'. ref_step auth s s' \<Longrightarrow> s' = s"
  shows "life c' n = s"
  using assms(1)
proof (induction rule: rtranclp_induct)
  case base
  then show ?case using assms(3) by simp
next
  case (step d d')
  have "reachable d" using reachable_run [OF step(1) assms(2)] .
  then show ?case using life_step [OF _ step(2), of n] step(3) assms(4) by metis
qed

lemma life_Live_iff: "life c n = Live r \<longleftrightarrow> map_of (refs c) n = Some r"
  by (auto simp: life_def split: option.splits if_splits)

text \<open>A concrete catalog: \<open>main\<close>, protected, and a fork of it that was abandoned.\<close>

definition demo_main :: RefRec where
  "demo_main = ref_row 7 ''commit'' True False 0"

definition demo_fork :: string where
  "demo_fork = ''forks/main/a/01''"

definition demo1 :: Catalog where
  "demo1 = new_ref ''main'' None demo_main ''init'' ''init'' 0 empty_catalog"

definition demo2 :: Catalog where
  "demo2 = new_ref demo_fork (Some 7) (ref_row 9 ''commit'' False False 0) ''a'' ''fork'' 0 demo1"

definition demo3 :: Catalog where
  "demo3 = retire_ref demo_fork 9 ''a'' 0 demo2"

lemma demo_names:
  "validate_ref_kind ''main'' ''commit'' = Inr ()" "validate_ref_kind demo_fork ''commit'' = Inr ()"
  "validate_ref_name demo_fork = Inr ()" "is_fork_ref demo_fork" "fork_name ''main'' ''a'' ''01'' = demo_fork"
  by code_simp+

lemma demo_sel [simp]:
  "refs demo1 = [(''main'', demo_main)]" "read_only demo1 = False" "namespaces demo1 = []" "mounts demo1 = []"
  "refs demo2 = [(demo_fork, ref_row 9 ''commit'' False False 0), (''main'', demo_main)]"
  "read_only demo2 = False" "namespaces demo2 = []" "mounts demo2 = []"
  by (simp_all add: demo1_def demo2_def demo_fork_def new_ref_def push_reflog_def empty_catalog_def)

lemma demo_step1: "insert_ref ''main'' 7 ''commit'' True False ''init'' ''init'' 0 empty_catalog = Inr ((), demo1)"
  by (simp add: insert_ref_def demo_names starts_with_def begin_tx_def ref_exists_def has_row_def deny_retired_def
      ref_retired_def last_reflog_def insert_ref_row_def ref_kinds_def insert_row_def demo1_def new_ref_def
      push_reflog_def demo_main_def empty_catalog_def)

lemma demo_step2: "cas_ref ''main'' 8 9 ''commit'' ''a'' ''a'' True ''01'' 0 demo1 =
    Inr (Forked ''main'' demo_fork 9 7, demo2)"
  by (simp add: cas_ref_def demo_names starts_with_def begin_tx_def demo_main_def insert_ref_row_def ref_kinds_def
      insert_row_def has_row_def demo2_def new_ref_def Let_def demo_fork_def [symmetric])
     (simp add: demo_fork_def has_row_def)

lemma demo_step3: "abandon_ref demo_fork ''a'' 0 demo2 =
    Inr (\<lparr>rr_name = demo_fork, rr_oid = 9, rr_kind = ''commit'', rr_agent_id = ''a'', rr_ts_ms = 0\<rparr>, demo3)"
  by (simp add: abandon_ref_def demo_names begin_tx_def live_head_def still_mounted_def demo3_def retire_ref_def)

lemma demo_log: "log_of demo_fork demo1 = []"
  by (simp add: demo1_def demo_fork_def log_of_def new_ref_def push_reflog_def empty_catalog_def)

lemma demo_steps:
  "catalog_step True empty_catalog demo1" "catalog_step True demo1 demo2" "catalog_step True demo2 demo3"
  using step_insert_ref [OF demo_step1] step_cas_ref [OF demo_step2] step_abandon_ref [OF demo_step3]
  by (simp_all add: demo_names demo_log)

lemma demo_reachable: "reachable demo1" "reachable demo2" "reachable demo3"
  using demo_steps by (blast intro: reachable.intros)+

text \<open>A sealed tag on the same \<open>main\<close>.\<close>

definition demo_tag :: RefRec where
  "demo_tag = ref_row 20 ''snapshot'' True True 0"

definition demo4 :: Catalog where
  "demo4 = add_landmark 7 ''commit'' ''seal'' 0 (add_landmark 20 ''snapshot'' ''seal'' 0
     (new_ref ''tags/v1'' None demo_tag ''a'' ''seal'' 0 demo1
       \<lparr>seals := [(''v1'', \<lparr>s_snap_oid = 20, s_commit_oid = 7, s_tree_oid = 21, s_ts_ms = 0\<rparr>)]\<rparr>))"

lemma demo4_sel [simp]:
  "refs demo4 = [(''main'', demo_main), (''tags/v1'', demo_tag)]" "read_only demo4 = False"
  by (simp_all add: demo4_def add_landmark_def new_ref_def push_reflog_def)

lemma demo_step4: "commit_seal ''v1'' 20 7 21 ''a'' (Some (''main'', 7)) 0 demo1 = Inr ((), demo4)"
proof -
  have v: "validate_ref_kind ''tags/v1'' ''snapshot'' = Inr ()" by code_simp
  have "seals demo1 = []" by (simp add: demo1_def empty_catalog_def)
  then show ?thesis
    by (simp add: commit_seal_def begin_tx_def v ref_exists_def has_row_def check_expect_ref_def demo_main_def
        insert_ref_row_def ref_kinds_def insert_row_def insert_seal_row_def Let_def demo4_def demo_tag_def new_ref_def)
qed

lemma demo4_reachable: "reachable demo4"
  by (rule reachable.step [OF demo_reachable(1) step_commit_seal [OF demo_step4]]) simp

section \<open>Refs along a run\<close>

text \<open>
  C7: Every operation of the catalog refines the abstract life of a ref: a name is born once, moves
  only while unsealed (and, if protected, only with authority), keeps its kind and its flags, and is
  retired only when neither sealed nor protected; a retired name stays retired.
\<close>

theorem catalog_refines_ref_life:
  "reachable c \<Longrightarrow> catalog_step auth c c' \<Longrightarrow> ref_step auth (life c n) (life c' n)"
  by (rule life_step)

theorem catalog_refines_ref_life_witness:
  "reachable demo2 \<and> catalog_step True demo2 demo3 \<and> ref_step True (life demo2 demo_fork) (life demo3 demo_fork)"
  using catalog_refines_ref_life [OF demo_reachable(2) demo_steps(3)] demo_reachable(2) demo_steps(3) by blast

text \<open>C25: A sealed ref never changes again, whatever runs after it.\<close>

theorem sealed_refs_immutable:
  "reachable c \<Longrightarrow> map_of (refs c) n = Some r \<Longrightarrow> r_sealed r \<Longrightarrow> run auth c c' \<Longrightarrow> map_of (refs c') n = Some r"
  using stuck_run [of auth c c' n "Live r"] by (simp add: life_Live_iff ref_step_Live)

theorem sealed_refs_immutable_witness:
  "reachable demo4 \<and> run True demo4 (add_landmark 7 ''commit'' ''explicit'' 0 demo4)
   \<and> map_of (refs (add_landmark 7 ''commit'' ''explicit'' 0 demo4)) ''tags/v1'' = Some demo_tag"
proof -
  have "landmark 7 ''commit'' ''explicit'' 0 demo4 = Inr ((), add_landmark 7 ''commit'' ''explicit'' 0 demo4)"
    by (simp add: landmark_def begin_tx_def)
  then have r: "run True demo4 (add_landmark 7 ''commit'' ''explicit'' 0 demo4)"
    by (blast intro: step_landmark)
  show ?thesis
    using sealed_refs_immutable [OF demo4_reachable _ _ r, of "''tags/v1''" demo_tag] r demo4_reachable
    by (simp add: demo_tag_def)
qed

text \<open>C26: A protected ref moves only by an operation called with authority over protected refs.\<close>

theorem protected_refs_need_authority:
  "reachable c \<Longrightarrow> map_of (refs c) n = Some r \<Longrightarrow> r_protected r \<Longrightarrow> run False c c' \<Longrightarrow> map_of (refs c') n = Some r"
  using stuck_run [of False c c' n "Live r"] by (simp add: life_Live_iff ref_step_Live)

theorem protected_refs_need_authority_witness:
  "reachable demo2 \<and> map_of (refs demo3) ''main'' = Some demo_main"
proof -
  have "catalog_step False demo2 demo3" by (rule step_abandon_ref [OF demo_step3])
  then have "run False demo2 demo3" by (rule r_into_rtranclp)
  moreover have "map_of (refs demo2) ''main'' = Some demo_main" by (simp add: demo_fork_def)
  ultimately show ?thesis
    using protected_refs_need_authority [OF demo_reachable(2), of "''main''" demo_main demo3] demo_reachable(2)
    by (simp add: demo_main_def)
qed

text \<open>An abandoned name is never recreated: no run brings a row of that name back.\<close>

theorem retired_names_never_return:
  assumes "reachable c" "ref_retired c n" "map_of (refs c) n = None" "run auth c c'"
  shows "map_of (refs c') n = None \<and> log_of n c' \<noteq> []"
proof -
  have "life c n = Retired" using assms(2,3) by (simp add: life_def ref_retired_iff)
  then have "life c' n = Retired" by (rule stuck_run [OF assms(4,1)]) simp
  then show ?thesis by (simp add: life_def split: option.splits if_splits)
qed

theorem retired_names_never_return_witness:
  "reachable demo3 \<and> ref_retired demo3 demo_fork \<and> map_of (refs demo3) demo_fork = None"
proof -
  have r: "ref_retired demo3 demo_fork" "map_of (refs demo3) demo_fork = None"
    by (simp_all add: demo3_def ref_retired_iff)
  show ?thesis
    using retired_names_never_return [OF demo_reachable(3) r rtranclp.rtrancl_refl] demo_reachable(3) r by blast
qed

section \<open>The audit\<close>

lemma findings_audit_catalog: "set (findings (audit_catalog c)) =
    set (fst (audit_refs c)) \<union> set (audit_reflog c) \<union> set (fst (audit_namespaces c)) \<union> set (fst (audit_mounts c))
    \<union> set (fst (audit_observations c)) \<union> set (fst (audit_overlay c)) \<union> set (fst (audit_seals c))
    \<union> set (fst (audit_landmarks c))"
  by (simp add: audit_catalog_def audit_finish_def Un_assoc)











lemma cf_code_finding [simp]: "cf_code (finding a b d) = a"
  by (simp add: finding_def)



text \<open>
  The condition on \<open>insert_namespace\<close> is needed: the store takes any live ref, and the audit then reports the session.
\<close>

theorem unchecked_live_ref_is_reported:
  assumes "insert_namespace ns agent pinned live ts c = Inr ((), c')" "map_of (refs c) live = None"
  shows "''NS_LIVE_REF'' \<in> cf_code ` set (findings (audit_catalog c'))"
proof -
  let ?n = "\<lparr>n_agent_id = agent, n_created_ms = ts, n_pinned_oid = Some pinned, n_live_ref = Some live\<rparr>"
  have c': "c' = c\<lparr>namespaces := bt_insert ns ?n (namespaces c)\<rparr>"
    using assms(1) by (auto simp: insert_namespace_def insert_ns_row_def insert_row_def and_then_Inr_iff split: if_split_asm)
  then have "map_of (namespaces c') ns = Some ?n" by simp
  then have "(ns, ?n) \<in> set (namespaces c')" by (rule map_of_SomeD)
  moreover have "finding ''NS_LIVE_REF'' (''catalog:namespace:'' @ ns) ''missing live ref'' \<in> set (audit_namespace c' ns ?n)"
    using assms(2) by (simp add: audit_namespace_def c')
  ultimately have "finding ''NS_LIVE_REF'' (''catalog:namespace:'' @ ns) ''missing live ref'' \<in> set (fst (audit_namespaces c'))"
    by (force simp: audit_namespaces_def)
  then have "finding ''NS_LIVE_REF'' (''catalog:namespace:'' @ ns) ''missing live ref'' \<in> set (findings (audit_catalog c'))"
    unfolding findings_audit_catalog by blast
  then show ?thesis by (rule rev_image_eqI) (simp add: finding_def)
qed



end
