(* ===== verification/Catalog_Session.thy ===== *)
theory Catalog_Session
  imports Catalog_Life
begin

text \<open>
  Sessions: the outcome of a compare-and-swap, the checkin transaction of one mount, the overlay
  and its prefix rule, atomic moves, abandonment, fork names, group commit and the reclamation
  roots (\<open>src/crates/forge-store/src/meta.rs\<close>).
\<close>

section \<open>Compare-and-swap\<close>

definition tip :: "Catalog \<Rightarrow> string \<Rightarrow> oid option" where
  "tip c n = map_option r_oid (map_of (refs c) n)"

lemma tip_change [simp]:
  "tip (new_ref n old row a r ts c) m = (if m = n then Some (r_oid row) else tip c m)"
  "has_row n (refs c) \<Longrightarrow> tip (move_ref n i new kind a r ts c) m = (if m = n then Some new else tip c m)"
  by (auto simp: tip_def has_row_def)

lemma tip_insert_intros [simp]: "tip (insert_intros oids i a ts c) n = tip c n"
  by (simp add: tip_def)

text \<open>
  What every outcome guarantees: the winner's commit is the tip, or the loser's commit is kept at a
  fork and the tip is untouched; no other ref changes.
\<close>

definition cas_keeps_work ::
  "string \<Rightarrow> oid \<Rightarrow> oid \<Rightarrow> string \<Rightarrow> Catalog \<Rightarrow> CasResult \<Rightarrow> Catalog \<Rightarrow> bool" where
  "cas_keeps_work n expected new fork c r c' \<longleftrightarrow>
     (r = Updated n new \<and> tip c n \<in> {None, Some expected} \<and> tip c' n = Some new
       \<and> (\<forall>m. m \<noteq> n \<longrightarrow> tip c' m = tip c m))
   \<or> (\<exists>theirs. r = Forked n fork new theirs \<and> tip c n = Some theirs \<and> theirs \<noteq> expected \<and> tip c fork = None
       \<and> tip c' fork = Some new \<and> (\<forall>m. m \<noteq> fork \<longrightarrow> tip c' m = tip c m))"

lemma cas_outcome_keeps_work:
  shows "cas_created n new kind a ts c r c' \<Longrightarrow> cas_keeps_work n expected new fork c r c'"
    and "cas_advanced n expected new kind a allow ts c r c' \<Longrightarrow> cas_keeps_work n expected new fork c r c'"
    and "cas_forked n expected new kind a fork allow ts c r c' \<Longrightarrow> cas_keeps_work n expected new fork c r c'"
  by (auto simp: cas_created_def cas_advanced_def cas_forked_def cas_keeps_work_def has_row_def tip_def)

text \<open>
  C11: A compare-and-swap never loses work: if the ref was absent or held the expected commit, it now
  holds the new one; otherwise the new commit is the tip of a fresh fork, the ref keeps what the
  winner put there, and in either case no third ref changes.
\<close>

theorem cas_ref_never_loses_work:
  "cas_ref n expected new kind a fork_agent allow ulid ts c = Inr (r, c')
   \<Longrightarrow> cas_keeps_work n expected new (fork_name n fork_agent ulid) c r c'"
  by (drule cas_ref_Inr(4)) (elim disjE; rule cas_outcome_keeps_work; assumption)

theorem cas_ref_never_loses_work_witness:
  "cas_keeps_work ''main'' 8 9 demo_fork demo1 (Forked ''main'' demo_fork 9 7) demo2"
  using cas_ref_never_loses_work [OF demo_step2] by (simp add: demo_names)

text \<open>\<open>cas_ref_with_intros\<close> is \<open>cas_ref\<close> followed, on success, by recording the introductions.\<close>

theorem cas_ref_with_intros_is_cas_ref:
  "cas_ref_with_intros name expected new kind agent fork_agent allow oids ulid ts c =
     and_then (cas_ref name expected new kind agent fork_agent allow ulid ts c)
       (\<lambda>(r, c'). Inr (r, insert_intros oids new agent ts c'))"
  by (rule cas_ref_with_intros_eq)

section \<open>Checkin publishes one mount\<close>

text \<open>The mount of a session after its checkin: its overlay and observations are gone, its pin is the
  published commit, and nothing of any other mount moved.\<close>

definition epoch_closed :: "string \<Rightarrow> string \<Rightarrow> oid \<Rightarrow> Catalog \<Rightarrow> Catalog \<Rightarrow> bool" where
  "epoch_closed ns mount new c c' \<longleftrightarrow>
     (\<forall>n m p. map_of (overlay c') (n, m, p) = (if n = ns \<and> m = mount then None else map_of (overlay c) (n, m, p)))
   \<and> (\<forall>n m p. map_of (observation_rows c') (n, m, p) =
         (if n = ns \<and> m = mount then None else map_of (observation_rows c) (n, m, p)))
   \<and> (\<forall>k. k \<noteq> (ns, mount) \<longrightarrow> map_of (mounts c') k = map_of (mounts c) k)
   \<and> map_option m_base_oid (map_of (mounts c') (ns, mount)) = Some (Some new)
   \<and> (\<forall>n. map_of (namespaces c') n =
         (if n = ns \<and> mount = ''/'' then map_option (\<lambda>r. r\<lparr>n_pinned_oid := Some new\<rparr>) (map_of (namespaces c) n)
          else map_of (namespaces c) n))"

lemma close_epoch_closed:
  assumes "close_epoch ns mount new c = Inr c'"
  shows "epoch_closed ns mount new c c'"
proof -
  obtain m where m: "map_of (mounts c) (ns, mount) = Some m"
    using close_epoch_Inr(1) [OF assms] by (auto simp: has_row_def)
  show ?thesis
    unfolding close_epoch_Inr(2) [OF assms] epoch_closed_def using m
    by (auto simp: clear_observations_def clear_overlay_def pin_ns_def)
qed

lemma close_epoch_tip: "close_epoch ns mount new c = Inr c' \<Longrightarrow> tip c' n = tip c n"
  using close_epoch_Inr(2) [of ns mount new c c'] by (simp add: tip_def clear_observations_def clear_overlay_def)

lemma close_epoch_spec:
  "close_epoch ns mount new c = Inr c' \<Longrightarrow> map_option m_spec (map_of (mounts c') k) = map_option m_spec (map_of (mounts c) k)"
  using close_epoch_Inr(2) [of ns mount new c c']
  by (auto simp: clear_observations_def clear_overlay_def option.map_comp comp_def)

lemma change_sel [simp]:
  "mounts (new_ref n old row a r ts c) = mounts c" "mounts (move_ref n i new kind a r ts c) = mounts c"
  "overlay (new_ref n old row a r ts c) = overlay c" "overlay (move_ref n i new kind a r ts c) = overlay c"
  "observation_rows (new_ref n old row a r ts c) = observation_rows c"
  "observation_rows (move_ref n i new kind a r ts c) = observation_rows c"
  by (simp_all add: new_ref_def move_ref_def set_ref_oid_def)

lemma cas_outcome_frame:
  assumes "cas_advanced n e new kind a allow ts c r c1 \<or> cas_forked n e new kind a fork allow ts c r c1"
  shows "mounts c1 = mounts c" "overlay c1 = overlay c" "observation_rows c1 = observation_rows c"
    "namespaces c1 = namespaces c"
  using assms by (auto simp: cas_advanced_def cas_forked_def)

definition checkin_spec ::
  "string \<Rightarrow> oid \<Rightarrow> oid \<Rightarrow> string \<Rightarrow> string \<Rightarrow> string \<Rightarrow> Catalog \<Rightarrow> CasResult \<Rightarrow> Catalog \<Rightarrow> bool" where
  "checkin_spec n expected new ns mount fork c r c' \<longleftrightarrow>
     cas_keeps_work n expected new fork c r c'
   \<and> epoch_closed ns mount new c c'
   \<and> map_option m_spec (map_of (mounts c') (ns, mount)) =
       (case r of Forked _ _ _ _ \<Rightarrow> Some (''ref:'' @ fork) | _ \<Rightarrow> map_option m_spec (map_of (mounts c) (ns, mount)))"

lemma cas_keeps_work_tip:
  "cas_keeps_work n e new fork c r c1 \<Longrightarrow> (\<And>m. tip c' m = tip c1 m) \<Longrightarrow> cas_keeps_work n e new fork c r c'"
  by (simp add: cas_keeps_work_def)

lemma session_checkin_spec:
  assumes "cas_ref_session n expected new a fork_agent ns mount oids ulid ts c = Inr (r, c')"
  shows "checkin_spec n expected new ns mount (session_fork_name n fork_agent ulid) c r c'"
  using assms
proof (rule cas_ref_session_Inr)
  fix c1 c2
  let ?fork = "session_fork_name n fork_agent ulid"
  assume cas: "cas_advanced n expected new ''commit'' a False ts c r c1 \<and> c2 = c1
      \<or> cas_forked n expected new ''commit'' a ?fork False ts c r c1
        \<and> c2 = set_mount_spec ns mount (''ref:'' @ ?fork) c1"
    and ok: "is_ok (close_epoch ns mount new c2)"
    and eq: "\<And>c3. close_epoch ns mount new c2 = Inr c3 \<Longrightarrow> c' = insert_intros oids new a ts c3"
  obtain c3 where c3: "close_epoch ns mount new c2 = Inr c3" and c': "c' = insert_intros oids new a ts c3"
    using ok eq by (auto simp: is_ok_iff)
  have "cas_advanced n expected new ''commit'' a False ts c r c1 \<or> cas_forked n expected new ''commit'' a ?fork False ts c r c1"
    using cas by blast
  note frame = cas_outcome_frame [OF this]
  have "cas_keeps_work n expected new ?fork c r c1"
    using cas by (elim disjE conjE) (rule cas_outcome_keeps_work; assumption)+
  then have "cas_keeps_work n expected new ?fork c r c'"
    by (rule cas_keeps_work_tip) (use cas close_epoch_tip [OF c3] in \<open>auto simp: c' tip_def set_mount_spec_def\<close>)
  moreover have "epoch_closed ns mount new c c'"
  proof -
    have "epoch_closed ns mount new c2 c3" by (rule close_epoch_closed [OF c3])
    moreover have "map_of (mounts c2) k = map_of (mounts c) k" if "k \<noteq> (ns, mount)" for k
      using cas frame that by (auto simp: set_mount_spec_def)
    moreover have "overlay c2 = overlay c" "observation_rows c2 = observation_rows c" "namespaces c2 = namespaces c"
      using cas frame by (auto simp: set_mount_spec_def)
    ultimately show ?thesis by (simp add: epoch_closed_def c')
  qed
  moreover have "map_option m_spec (map_of (mounts c') (ns, mount)) =
      (case r of Forked _ _ _ _ \<Rightarrow> Some (''ref:'' @ ?fork) | _ \<Rightarrow> map_option m_spec (map_of (mounts c) (ns, mount)))"
    using cas frame close_epoch_spec [OF c3] close_epoch_Inr(1) [OF c3]
    by (auto simp: c' set_mount_spec_def cas_advanced_def cas_forked_def has_row_def)
  ultimately show ?thesis by (simp add: checkin_spec_def)
qed

text \<open>
  A session checkin publishes exactly one mount. The compare-and-swap keeps all work; the
  published mount's overlay and observations are cleared and its pin becomes the new commit; on a
  lost race the mount is retargeted at the fork; and every other mount, with its overlay, its reads
  and its pin, is untouched (the session pin follows the root mount only).
\<close>

theorem checkin_publishes_one_mount:
  assumes "cas_ref_session n expected new a fork_agent ns mount oids ulid ts c = Inr (r, c')"
  shows "checkin_spec n expected new ns mount (session_fork_name n fork_agent ulid) c r c'"
  by (rule session_checkin_spec [OF assms])

text \<open>A session \<open>s1\<close> on its own head, with one staged file.\<close>

definition demo_head :: string where
  "demo_head = ''heads/agents/a/01''"

definition demo5 :: Catalog where
  "demo5 = demo1\<lparr>refs := [(demo_head, ref_row 7 ''commit'' False False 0), (''main'', demo_main)],
     namespaces := [(''s1'', \<lparr>n_agent_id = ''a'', n_created_ms = 0, n_pinned_oid = Some 7, n_live_ref = Some demo_head\<rparr>)],
     mounts := [((''s1'', ''/''), \<lparr>m_spec = ''ref:'' @ demo_head, m_mode = ''rw'', m_base_oid = Some 7\<rparr>)],
     overlay := [((''s1'', ''/'', ''f''), \<lparr>o_blob_oid = Some 30, o_exec = False\<rparr>)]\<rparr>"

lemma demo_head_ok: "validate_ref_kind demo_head ''commit'' = Inr ()"
  by code_simp

lemma demo5_checkin:
  "\<exists>c'. cas_ref_session demo_head 7 9 ''a'' ''a'' ''s1'' ''/'' [] ''02'' 0 demo5 = Inr (Updated demo_head 9, c')"
  by (simp add: cas_ref_session_def demo_head_ok begin_tx_def demo5_def close_epoch_def repin_mount_tx_def has_row_def
      clear_overlay_def set_ref_oid_def)

theorem checkin_publishes_one_mount_witness:
  "\<exists>c'. cas_ref_session demo_head 7 9 ''a'' ''a'' ''s1'' ''/'' [] ''02'' 0 demo5 = Inr (Updated demo_head 9, c')
     \<and> checkin_spec demo_head 7 9 ''s1'' ''/'' (session_fork_name demo_head ''a'' ''02'') demo5 (Updated demo_head 9) c'"
  using demo5_checkin checkin_publishes_one_mount by blast

section \<open>The overlay\<close>

text \<open>No staged path lies below another one of the same mount.\<close>

definition overlay_ok :: "Catalog \<Rightarrow> bool" where
  "overlay_ok c \<longleftrightarrow> (\<forall>ns m p q. has_row (ns, m, p) (overlay c) \<longrightarrow> has_row (ns, m, q) (overlay c) \<longrightarrow> \<not> below p q)"

lemma below_irrefl [simp]: "\<not> below p p"
  by (auto simp: below_def prefix_def)

lemma below_trans: "below p q \<Longrightarrow> below q r \<Longrightarrow> below p r"
  by (auto simp: below_def prefix_def)

lemma below_cases: "below p r \<Longrightarrow> below q r \<Longrightarrow> p = q \<or> below p q \<or> below q p"
  using prefix_same_cases [of "p @ ''/''" r "q @ ''/''"] by (auto simp: below_def)

lemma has_row_mem: "has_row k t \<longleftrightarrow> (\<exists>v. (k, v) \<in> set t)"
  by (force simp: has_row_def map_of_eq_None_iff)

lemma overlay_conflict_iff:
  "overlay_conflict c ns mount path \<longleftrightarrow> (\<exists>p. has_row (ns, mount, p) (overlay c) \<and> (below p path \<or> below path p))"
proof
  assume "overlay_conflict c ns mount path"
  then obtain p v where "((ns, mount, p), v) \<in> set (overlay c)" "below p path \<or> below path p"
    by (auto simp: overlay_conflict_def list_ex_iff)
  then show "\<exists>p. has_row (ns, mount, p) (overlay c) \<and> (below p path \<or> below path p)"
    unfolding has_row_mem by blast
next
  assume "\<exists>p. has_row (ns, mount, p) (overlay c) \<and> (below p path \<or> below path p)"
  then obtain p v where "((ns, mount, p), v) \<in> set (overlay c)" "below p path \<or> below path p" "p \<noteq> path"
    unfolding has_row_mem by (metis below_irrefl)
  then show "overlay_conflict c ns mount path" unfolding overlay_conflict_def list_ex_iff by (intro bexI) auto
qed

lemma overlay_ancestor_iff:
  "overlay_ancestor c ns mount path \<longleftrightarrow> (\<exists>p. has_row (ns, mount, p) (overlay c) \<and> below p path)"
proof
  assume "overlay_ancestor c ns mount path"
  then obtain p v where "((ns, mount, p), v) \<in> set (overlay c)" "below p path"
    by (auto simp: overlay_ancestor_def list_ex_iff)
  then show "\<exists>p. has_row (ns, mount, p) (overlay c) \<and> below p path"
    unfolding has_row_mem by blast
next
  assume "\<exists>p. has_row (ns, mount, p) (overlay c) \<and> below p path"
  then obtain p v where "((ns, mount, p), v) \<in> set (overlay c)" "below p path"
    unfolding has_row_mem by blast
  then show "overlay_ancestor c ns mount path" unfolding overlay_ancestor_def list_ex_iff by (intro bexI) auto
qed

lemma overlay_stage [simp]:
  "overlay (stage ns m p b x c) = bt_insert (ns, m, p) \<lparr>o_blob_oid = b, o_exec = x\<rparr> (overlay c)"
  by (simp add: stage_def)

lemma overlay_ok_stage:
  assumes "overlay_ok c" "\<not> overlay_conflict c ns m p"
  shows "overlay_ok (stage ns m p b x c)"
  using assms by (auto simp: overlay_ok_def overlay_conflict_iff)

text \<open>
  Staging a path keeps the overlay prefix-free, replaces at most that path, and is refused,
  leaving the catalog as it was, exactly when a staged path of the mount lies above or below it.
\<close>

theorem overlay_upsert_prefix_free:
  assumes "overlay_ok c" "\<not> read_only c"
  shows "case overlay_upsert ns mount path blob exec c of
      Inl e \<Rightarrow> e = Invalid ''overlay path conflict''
        \<and> (\<exists>p. has_row (ns, mount, p) (overlay c) \<and> (below p path \<or> below path p))
    | Inr (_, c') \<Rightarrow> overlay_ok c'
        \<and> map_of (overlay c') = (map_of (overlay c))((ns, mount, path) \<mapsto> \<lparr>o_blob_oid = blob, o_exec = exec\<rparr>)"
  using assms overlay_ok_stage [OF assms(1), of ns mount path blob exec]
  by (auto simp: overlay_upsert_def begin_tx_def overlay_conflict_iff)

theorem overlay_upsert_prefix_free_witness:
  "overlay_upsert ''s1'' ''/'' ''f/g'' (Some 31) False demo5 = Inl (Invalid ''overlay path conflict'')
   \<and> overlay_ok demo5"
proof -
  have ok: "overlay_ok demo5"
    by (auto simp: overlay_ok_def demo5_def has_row_def below_def split: if_split_asm)
  have "overlay_conflict demo5 ''s1'' ''/'' ''f/g''"
    by (simp add: overlay_conflict_def demo5_def below_def)
  then show ?thesis
    using overlay_upsert_prefix_free [OF ok, of "''s1''" "''/''" "''f/g''" "Some 31" False] ok
    by (simp add: overlay_upsert_def begin_tx_def demo5_def)
qed

section \<open>Moves\<close>

text \<open>What \<open>Forge::rename\<close> checks of the endpoints, and what it must pass as the destination rows.\<close>

definition rename_args :: "string \<Rightarrow> string \<Rightarrow> (string \<times> oid \<times> bool) list \<Rightarrow> bool" where
  "rename_args from to dest \<longleftrightarrow>
     from \<noteq> to \<and> \<not> below from to \<and> \<not> below to from
   \<and> (\<forall>q \<in> fst ` set dest. q = to \<or> below to q)
   \<and> (\<forall>p \<in> fst ` set dest. \<forall>q \<in> fst ` set dest. \<not> below p q)"

definition dest_rows :: "string \<Rightarrow> string \<Rightarrow> (string \<times> oid \<times> bool) list \<Rightarrow> ((string \<times> string \<times> string) \<times> OverlayRec) list" where
  "dest_rows ns mount dest =
     rev (map (\<lambda>(p, i, x). ((ns, mount, p), \<lparr>o_blob_oid = Some i, o_exec = x\<rparr>)) dest)"

lemma overlay_fold_stage:
  "map_of (overlay (fold (\<lambda>(p, i, x). stage ns mount p (Some i) x) dest c)) =
    map_of (overlay c) ++ map_of (dest_rows ns mount dest)"
proof (induction dest arbitrary: c)
  case (Cons d dest)
  obtain p i x where d: "d = (p, i, x)" by (cases d)
  show ?case unfolding fold_simps comp_apply Cons.IH d
    by (simp add: dest_rows_def fun_eq_iff map_add_def split: option.splits)
qed (simp add: dest_rows_def)

lemma dest_rows_dom: "map_of (dest_rows ns mount dest) (n, m, q) \<noteq> None \<longleftrightarrow> n = ns \<and> m = mount \<and> q \<in> fst ` set dest"
  by (force simp: dest_rows_def map_of_eq_None_iff)

lemma overlay_supersede [simp]:
  "map_of (overlay (supersede ns mount path c)) (n, m, q) =
    (if n = ns \<and> m = mount \<and> (q = path \<or> below path q) then None else map_of (overlay c) (n, m, q))"
  by (simp add: supersede_def)

definition renamed_row ::
  "string \<Rightarrow> string \<Rightarrow> string \<Rightarrow> string \<Rightarrow> (string \<times> oid \<times> bool) list \<Rightarrow> Catalog \<Rightarrow> string \<times> string \<times> string \<rightharpoonup> OverlayRec" where
  "renamed_row ns mount from to dest c = (\<lambda>(n, m, q).
     if n \<noteq> ns \<or> m \<noteq> mount then map_of (overlay c) (n, m, q)
     else if q = from then Some \<lparr>o_blob_oid = None, o_exec = False\<rparr>
     else if q \<in> fst ` set dest then map_of (dest_rows ns mount dest) (ns, mount, q)
     else if q = to \<or> below to q \<or> below from q then None
     else map_of (overlay c) (ns, mount, q))"

lemma overlay_rename_rows:
  assumes "overlay_rename ns mount from to dest c = Inr ((), c')"
  shows "map_of (overlay c') = renamed_row ns mount from to dest c"
    and "\<And>q. has_row (ns, mount, q) (overlay c) \<Longrightarrow> q \<noteq> to \<Longrightarrow> q \<noteq> from \<Longrightarrow> \<not> below to q \<Longrightarrow> \<not> below from q
      \<Longrightarrow> \<not> below q from \<and> \<not> below q to"
proof -
  let ?c = "supersede ns mount to (supersede ns mount from c)"
  have anc: "\<not> overlay_ancestor ?c ns mount from" "\<not> overlay_ancestor ?c ns mount to"
    and c': "c' = stage ns mount from None False (fold (\<lambda>(p, i, x). stage ns mount p (Some i) x) dest ?c)"
    using assms by (auto simp: overlay_rename_def Let_def split: if_split_asm)
  show "map_of (overlay c') = renamed_row ns mount from to dest c"
  proof (rule ext, clarify)
    fix n m q
    show "map_of (overlay c') (n, m, q) = renamed_row ns mount from to dest c (n, m, q)"
    proof (cases "map_of (dest_rows ns mount dest) (n, m, q)")
      case None
      then have "\<not> (n = ns \<and> m = mount \<and> q \<in> fst ` set dest)" using dest_rows_dom by blast
      then show ?thesis using None
        by (cases "n = ns"; cases "m = mount"; cases "q = to"; cases "q = from")
           (simp_all add: c' overlay_fold_stage renamed_row_def map_add_def)
    next
      case (Some r)
      then have "n = ns \<and> m = mount \<and> q \<in> fst ` set dest" using dest_rows_dom by blast
      then show ?thesis using Some by (simp add: c' overlay_fold_stage renamed_row_def map_add_def)
    qed
  qed
  fix q assume "has_row (ns, mount, q) (overlay c)" "q \<noteq> to" "q \<noteq> from" "\<not> below to q" "\<not> below from q"
  then have "has_row (ns, mount, q) (overlay ?c)" by (simp add: has_row_def)
  then show "\<not> below q from \<and> \<not> below q to" using anc unfolding overlay_ancestor_iff by blast
qed

lemma has_row_eq: "has_row k (overlay c) \<longleftrightarrow> map_of (overlay c) k \<noteq> None"
  by (simp add: has_row_def)

lemma overlay_ok_rename:
  assumes ok: "overlay_ok c" and args: "rename_args from to dest"
    and eq: "overlay_rename ns mount from to dest c = Inr ((), c')"
  shows "overlay_ok c'"
  unfolding overlay_ok_def
proof (intro allI impI)
  note rows = overlay_rename_rows [OF eq]
  fix n m p q assume p: "has_row (n, m, p) (overlay c')" and q: "has_row (n, m, q) (overlay c')"
  have cls: "r = from \<or> r \<in> fst ` set dest
      \<or> has_row (ns, mount, r) (overlay c) \<and> r \<noteq> to \<and> \<not> below to r \<and> \<not> below from r"
    if "has_row (ns, mount, r) (overlay c')" for r
    using that unfolding has_row_eq rows(1) by (auto simp: renamed_row_def split: if_split_asm)
  have dest: "r = to \<or> below to r" if "r \<in> fst ` set dest" for r
    using args that by (auto simp: rename_args_def)
  show "\<not> below p q"
  proof (cases "n = ns \<and> m = mount")
    case False
    then show ?thesis using ok p q unfolding has_row_eq rows(1)
      by (auto simp: renamed_row_def overlay_ok_def has_row_eq)
  next
    case True
    then have cp: "p = from \<or> p \<in> fst ` set dest
        \<or> has_row (ns, mount, p) (overlay c) \<and> p \<noteq> to \<and> p \<noteq> from \<and> \<not> below to p \<and> \<not> below from p"
      and cq: "q = from \<or> q \<in> fst ` set dest
        \<or> has_row (ns, mount, q) (overlay c) \<and> q \<noteq> to \<and> q \<noteq> from \<and> \<not> below to q \<and> \<not> below from q"
      using cls p q by blast+
    have ends: "from \<noteq> to" "\<not> below from to" "\<not> below to from" using args by (auto simp: rename_args_def)
    show ?thesis
    proof
      assume b: "below p q"
      consider "p = from" | "p \<in> fst ` set dest" | "has_row (ns, mount, p) (overlay c)" "p \<noteq> to" "p \<noteq> from" "\<not> below to p" "\<not> below from p"
        using cp by blast
      then show False
      proof cases
        case 1
        then show False using b cq ends dest below_cases [of "from" q to] below_irrefl by metis
      next
        case 2
        then have "p = to \<or> below to p" by (rule dest)
        then have "below to q" using b below_trans by blast
        then show False using cq ends 2 b args by (auto simp: rename_args_def)
      next
        case 3
        then have "\<not> below p from \<and> \<not> below p to" using rows(2) by blast
        then show False using b cq dest 3 ok below_cases [of p q to] unfolding overlay_ok_def by metis
      qed
    qed
  qed
qed

text \<open>
  A move is one transaction: afterwards the source is a tombstone, the destination subtree holds
  exactly the destination rows, nothing else staged at or below either endpoint survives, every
  other row is untouched, and the overlay is still prefix-free, provided the destination rows lie
  at or below the destination and none below another.
\<close>

theorem overlay_rename_atomic:
  assumes "overlay_ok c" "rename_args from to dest" "overlay_rename ns mount from to dest c = Inr ((), c')"
  shows "overlay_ok c' \<and> map_of (overlay c') = renamed_row ns mount from to dest c"
  using overlay_ok_rename [OF assms] overlay_rename_rows(1) [OF assms(3)] by blast

theorem overlay_rename_atomic_witness:
  "\<exists>c'. overlay_rename ''s1'' ''/'' ''f'' ''g'' [(''g'', 30, False)] demo5 = Inr ((), c') \<and> overlay_ok c'
     \<and> map_of (overlay c') (''s1'', ''/'', ''g'') = Some \<lparr>o_blob_oid = Some 30, o_exec = False\<rparr>"
proof -
  let ?d = "[(''g'', 30, False)]"
  have ok: "overlay_ok demo5"
    by (auto simp: overlay_ok_def demo5_def has_row_def below_def split: if_split_asm)
  have args: "rename_args ''f'' ''g'' ?d" by (simp add: rename_args_def below_def)
  obtain c' where c': "overlay_rename ''s1'' ''/'' ''f'' ''g'' ?d demo5 = Inr ((), c')"
    by (simp add: overlay_rename_def begin_tx_def demo5_def Let_def overlay_ancestor_def supersede_def delete_rows_def)
  show ?thesis using overlay_rename_atomic [OF ok args c'] c' by (auto simp: renamed_row_def dest_rows_def)
qed

text \<open>
  Without that proviso the move breaks the prefix rule. \<open>Forge::rename\<close> of a directory builds the
  destination rows from the base tree and the overlay together, so a base file \<open>d/a\<close> with a staged
  \<open>d/a/b\<close> gives the rows \<open>e/a\<close> and \<open>e/a/b\<close>, which \<open>overlay_rename\<close> stages side by side.
\<close>

theorem overlay_rename_can_break_prefix_rule:
  "\<exists>c'. overlay_rename ''s1'' ''/'' ''d'' ''e'' [(''e/a'', 30, False), (''e/a/b'', 31, False)] demo5 = Inr ((), c')
     \<and> overlay_ok demo5 \<and> \<not> overlay_ok c'"
proof -
  let ?d = "[(''e/a'', 30, False), (''e/a/b'', 31, False)]"
  have ok: "overlay_ok demo5"
    by (auto simp: overlay_ok_def demo5_def has_row_def below_def split: if_split_asm)
  obtain c' where c': "overlay_rename ''s1'' ''/'' ''d'' ''e'' ?d demo5 = Inr ((), c')"
    by (simp add: overlay_rename_def begin_tx_def demo5_def Let_def overlay_ancestor_def supersede_def delete_rows_def below_def)
  have "has_row (''s1'', ''/'', ''e/a'') (overlay c')" "has_row (''s1'', ''/'', ''e/a/b'') (overlay c')"
    unfolding has_row_eq overlay_rename_rows(1) [OF c'] by (simp_all add: renamed_row_def dest_rows_def)
  moreover have "below ''e/a'' ''e/a/b''" by (simp add: below_def)
  ultimately have "\<not> overlay_ok c'" unfolding overlay_ok_def by blast
  then show ?thesis using ok c' by blast
qed

end
