(* ===== verification/Workspace_Laws.thy ===== *)
theory Workspace_Laws
  imports Workspace Namespace_Laws Catalog_Session
begin

text \<open>
  What the staging verbs of a session do: who may stage, what a staged write shows to the session's next read, and
  what a mount may name.
\<close>

section \<open>Verbs\<close>

lemma meta_Some: "meta f w = Some (r, w') \<longleftrightarrow>
    (case f (f_meta w) of Inl e \<Rightarrow> r = Inl e \<and> w' = w | Inr (x, c) \<Rightarrow> r = Inr x \<and> w' = w\<lparr>f_meta := c\<rparr>)"
  by (auto simp: meta_def split: sum.splits prod.splits)

lemma meta_Inr: "meta f w = Some (Inr x, w') \<longleftrightarrow> (\<exists>c. f (f_meta w) = Inr (x, c) \<and> w' = w\<lparr>f_meta := c\<rparr>)"
  by (auto simp: meta_Some split: sum.splits prod.splits)

lemma meta_Inl: "meta f w = Some (Inl e, w') \<longleftrightarrow> f (f_meta w) = Inl e \<and> w' = w"
  by (auto simp: meta_Some split: sum.splits prod.splits)

lemma stored_Some: "stored f w = Some (r, w') \<longleftrightarrow> (\<exists>l. f (f_store w) = Some (r, l) \<and> w' = w\<lparr>f_store := l\<rparr>)"
  by (auto simp: stored_def)

lemma counted_Some [simp]: "counted f w = Some (r, w') \<longleftrightarrow> r = Inr () \<and> w' = w\<lparr>f_stats := f (f_stats w)\<rparr>"
  by (auto simp: counted_def)

lemma fail_Some [simp]: "fail e w = Some (r, w') \<longleftrightarrow> r = Inl e \<and> w' = w"
  by (auto simp: fail_def)

lemmas verb_Inr = act_bind_Inr_iff meta_Inr stored_Some and_then_Inr_iff

section \<open>Overlay rows\<close>

lemma overlay_map_lookup:
  assumes "distinct (map fst rows)"
  shows "map_of (overlay_map rows) p = map_option (\<lambda>(blob, exec). map_option (\<lambda>i. (i, exec)) blob) (map_of rows p)"
proof -
  have "map_of (fold (\<lambda>(path, blob, exec) m. bt_insert path (map_option (\<lambda>i. (i, exec)) blob) m) rows acc) p =
      (case map_of rows p of Some (blob, exec) \<Rightarrow> Some (map_option (\<lambda>i. (i, exec)) blob) | None \<Rightarrow> map_of acc p)" for acc
    using assms
  proof (induction rows arbitrary: acc)
    case (Cons r rows)
    obtain q b x where r: "r = (q, b, x)" by (cases r)
    have "map_of rows q = None" using Cons.prems by (auto simp: r map_of_eq_None_iff)
    then show ?case using Cons by (auto simp: r split: option.splits)
  qed simp
  then show ?thesis by (auto simp: overlay_map_def split: option.splits)
qed

lemma overlay_list_lookup:
  assumes "bt_ok (overlay c)"
  shows "map_of (overlay_map (overlay_list c ns mount)) p =
    map_option (\<lambda>r. map_option (\<lambda>i. (i, o_exec r)) (o_blob_oid r)) (map_of (overlay c) (ns, mount, p))"
proof -
  have d: "distinct (map fst (overlay c))" by (rule bt_ok_distinct [OF assms])
  have rows: "distinct (map fst (overlay_list c ns mount)) \<and>
      map_of (overlay_list c ns mount) p = map_option (\<lambda>r. (o_blob_oid r, o_exec r)) (map_of (overlay c) (ns, mount, p))"
    using d unfolding overlay_list_def
  proof (induction "overlay c" arbitrary: c)
    case (Cons x xs)
    obtain n m q r where x: "x = ((n, m, q), r)" by (cases x) auto
    have xs: "xs = overlay (c\<lparr>overlay := xs\<rparr>)" by simp
    note IH = Cons.hyps(1) [OF xs]
    have tl: "distinct (map fst xs)" "(n, m, q) \<notin> fst ` set xs" using Cons.prems Cons.hyps(2) [symmetric] by (auto simp: x)
    then show ?case using IH unfolding Cons.hyps(2) [symmetric] by (auto simp: x image_iff split: prod.splits)
  qed simp
  then show ?thesis using overlay_map_lookup by (auto simp: option.map_comp comp_def intro!: option.map_cong0)
qed

section \<open>Objects stay\<close>

text \<open>A larger store answers every read the smaller one answered.\<close>

definition store_grows :: "MemoryObjectStore \<Rightarrow> MemoryObjectStore \<Rightarrow> bool" where
  "store_grows st st' \<longleftrightarrow> (\<forall>i bs. visible st i = Some bs \<longrightarrow> visible st' i = Some bs)"

lemma store_grows_refl [simp]: "store_grows st st"
  by (simp add: store_grows_def)

lemma store_grows_trans: "store_grows a b \<Longrightarrow> store_grows b c \<Longrightarrow> store_grows a c"
  by (simp add: store_grows_def)

lemma grown_get: "store_grows st st' \<Longrightarrow> store_get H i st = Inr bs \<Longrightarrow> store_get H i st' = Inr bs"
  by (auto simp: store_grows_def store_get_Inr)

lemma grown_typed:
  assumes "store_grows st st'"
  shows "object_type H i st = Inr ty \<Longrightarrow> object_type H i st' = Inr ty"
    "get_commit H i st = Inr c \<Longrightarrow> get_commit H i st' = Inr c"
    "get_snapshot H i st = Inr s \<Longrightarrow> get_snapshot H i st' = Inr s"
    "get_tree H i st = Inr t \<Longrightarrow> get_tree H i st' = Inr t"
    "get_blob_data H i st = Inr d \<Longrightarrow> get_blob_data H i st' = Inr d"
  using grown_get [OF assms, of H i]
  by (auto simp: object_type_def get_commit_def get_snapshot_def get_tree_def get_blob_data_def and_then_Inr_iff)

lemma store_put_parts_grows: "store_put_parts H parts st = (r, st') \<Longrightarrow> store_grows st st'"
  using put_parts_keeps [of H parts st begin_batch]
  by (auto simp: store_put_parts_def store_grows_def batch_finish_def Let_def split: prod.splits sum.splits)

lemma put_blob_Some:
  "put_blob E d l = Some (r, l') \<longleftrightarrow>
    (\<exists>p st. blob_frame_prefix (of_nat (length d)) = Some p \<and> store_put_parts (env_hash E) [p, d] (l_store l) = (r, st) \<and>
      l' = l\<lparr>l_store := st, l_seen := insert (p @ d) (l_seen l)\<rparr>)"
  unfolding put_blob_def Option.bind_eq_Some_conv case_prod_beta
  by (metis Pair_inject option.inject prod.collapse)

lemma put_blob_grows: "put_blob E d l = Some (r, l') \<Longrightarrow> store_grows (l_store l) (l_store l')"
  by (auto simp: put_blob_Some dest: store_put_parts_grows)

text \<open>A blob that was put reads back, if no two of the byte strings seen so far share a hash.\<close>

lemma put_blob_reads:
  assumes "put_blob E d l = Some (Inr i, l')" "log_good (env_hash E) l'" "length d < 2 ^ 64"
  shows "get_blob_data (env_hash E) i (l_store l') = Inr d"
proof -
  obtain p st where p: "blob_frame_prefix (of_nat (length d)) = Some p" "store_put_parts (env_hash E) [p, d] (l_store l) = (Inr i, st)"
    "l' = l\<lparr>l_store := st, l_seen := insert (p @ d) (l_seen l)\<rparr>"
    using assms(1) by (auto simp: put_blob_Some)
  obtain st1 b where st1: "put_parts (env_hash E) [p, d] (l_store l, begin_batch) = (Inr i, (st1, b))" "visible st = visible st1"
    using p(2) by (auto simp: store_put_parts_def split: prod.splits sum.splits)
  obtain bs where bs: "i = env_hash E (p @ d)" "visible st i = Some bs" "env_hash E bs = i"
    using put_parts_Inr [OF st1(1)] st1(2) by auto
  have "bs \<in> ran (visible st)" using bs(2) by (auto simp: ran_def)
  then have "bs = p @ d"
    using inj_onD [OF assms(2) [unfolded log_good_def], of bs "p @ d"] bs(1,3) by (simp add: p(3))
  moreover have "blob_decode (p @ d) = Inr \<lparr>data = d\<rparr>"
    using p(1) assms(3) by (simp add: blob_decode_iff blob_encode_def)
  ultimately show ?thesis using bs by (simp add: get_blob_data_def store_get_def p(3))
qed

section \<open>Reading back a write\<close>

lemma stage_keeps [simp]:
  "namespaces (stage ns m p b x c) = namespaces c" "mounts (stage ns m p b x c) = mounts c" "refs (stage ns m p b x c) = refs c"
  "Catalog.read_only (stage ns m p b x c) = Catalog.read_only c" "observation_rows (stage ns m p b x c) = observation_rows c"
  by (simp_all add: stage_def)

lemma overlay_upsert_Inr:
  "overlay_upsert ns mount path blob exec c = Inr (u, c') \<longleftrightarrow>
    \<not> Catalog.read_only c \<and> \<not> overlay_conflict c ns mount path \<and> c' = stage ns mount path blob exec c"
  by (auto simp: overlay_upsert_def begin_tx_def)

lemma forge_write_Inr:
  "forge_write E now cap ns path d exec w = Some (Inr i, w') \<longleftrightarrow>
    (\<exists>m l rel. open_write E now cap ns path w = Inr m \<and> put_blob E d (f_store w) = Some (Inr i, l) \<and>
      rel_of (mnt_path m) path = Inr rel \<and> rel \<noteq> [] \<and>
      \<not> Catalog.read_only (f_meta w) \<and> \<not> overlay_conflict (f_meta w) ns (mnt_path m) rel \<and>
      w' = w\<lparr>f_store := l, f_meta := stage ns (mnt_path m) rel (Some i) exec (f_meta w)\<rparr>)"
  unfolding forge_write_def by (auto simp: verb_Inr overlay_upsert_Inr)

text \<open>What reading depends on: the session's rows, the refs, and the stored objects.\<close>

definition reads_alike :: "Forge \<Rightarrow> Forge \<Rightarrow> bool" where
  "reads_alike w w' \<longleftrightarrow> store_grows (objects w) (objects w') \<and> namespaces (f_meta w') = namespaces (f_meta w) \<and>
    mounts (f_meta w') = mounts (f_meta w) \<and> refs (f_meta w') = refs (f_meta w) \<and> f_hmac_key w' = f_hmac_key w"

lemma reads_alike_pure:
  assumes "reads_alike w w'"
  shows "require_ns cap ns w' = require_ns cap ns w" "session_mounts ns w' = session_mounts ns w"
    "check E now cap op r w' = check E now cap op r w" "check_spec_read E now cap spec w' = check_spec_read E now cap spec w"
    "resolve_spec_oid spec w' = resolve_spec_oid spec w" "check_mount_write E now cap m w' = check_mount_write E now cap m w"
  using assms
  by (simp_all add: reads_alike_def require_ns_def get_namespace_def session_mounts_def list_mounts_def check_def
      check_spec_read_def resolve_spec_oid_def get_ref_def check_mount_write_def cong: if_cong Spec.case_cong)

lemma reads_alike_tree:
  assumes "reads_alike w w'"
  shows "tree_of E i w = Inr t \<Longrightarrow> tree_of E i w' = Inr t"
    "session_mount_tree E m w = Inr t \<Longrightarrow> session_mount_tree E m w' = Inr t"
proof -
  have g: "store_grows (objects w) (objects w')" using assms by (simp add: reads_alike_def)
  show t: "tree_of E i w' = Inr t" if "tree_of E i w = Inr t" for i
    using that grown_typed(1-3) [OF g]
    by (auto simp: tree_of_def and_then_Inr_iff split: ObjectType.splits)
  show "session_mount_tree E m w = Inr t \<Longrightarrow> session_mount_tree E m w' = Inr t"
    using t reads_alike_pure(5) [OF assms]
    by (auto simp: session_mount_tree_def mount_tree_def and_then_Inr_iff split: Mode.splits option.splits)
qed

lemma reads_alike_open:
  assumes "reads_alike w w'" "open_read E now cap ns path w = Inr r"
  shows "open_read E now cap ns path w' = Inr r"
  using assms(2) reads_alike_tree(2) [OF assms(1)]
  by (auto simp: open_read_def and_then_Inr_iff reads_alike_pure [OF assms(1)])

lemma resolve_staged:
  assumes "longest_mount ms path = Inr m" "rel_of (mnt_path m) path = Inr rel" "rel \<noteq> []"
    and "map_of (overlay_map rows) rel = Some (Some (i, exec))"
  shows "resolve get ms rows base path = Inr (ResolvedBlob i exec)"
  using assms by (simp add: resolve_def)

lemma observe_Inr:
  assumes "\<not> Catalog.read_only c"
  shows "\<exists>c'. observe ns mount path seen c = Inr ((), c') \<and> overlay c' = overlay c \<and> mounts c' = mounts c \<and>
    namespaces c' = namespaces c \<and> refs c' = refs c"
  using assms by (auto simp: observe_def begin_tx_def)

lemma read_back:
  assumes "forge_write E now cap ns path d exec w = Some (Inr i, w')"
    and "open_read E now cap ns path w = Inr r"
    and "log_good (env_hash E) (f_store w')" and "bt_ok (overlay (f_meta w))" and "length d < 2 ^ 64"
  shows "\<exists>w''. forge_read E now cap ns path w' = Some (Inr d, w'')"
proof -
  obtain m l rel where wr: "open_write E now cap ns path w = Inr m" "put_blob E d (f_store w) = Some (Inr i, l)"
      "rel_of (mnt_path m) path = Inr rel" "rel \<noteq> []" "\<not> Catalog.read_only (f_meta w)"
    and w': "w' = w\<lparr>f_store := l, f_meta := stage ns (mnt_path m) rel (Some i) exec (f_meta w)\<rparr>"
    using assms(1) by (auto simp: forge_write_Inr)
  have m: "longest_mount (session_mounts ns w) path = Inr m"
    using wr(1) by (auto simp: open_write_def and_then_Inr_iff)
  obtain tree where r: "r = (m, rel, tree)"
    using assms(2) m wr(3) by (auto simp: open_read_def and_then_Inr_iff)
  have alike: "reads_alike w w'" using put_blob_grows [OF wr(2)] by (simp add: reads_alike_def w')
  have op: "open_read E now cap ns path w' = Inr (m, rel, tree)" using reads_alike_open [OF alike assms(2)] r by simp
  have row: "map_of (overlay_map (overlay_list (f_meta w') ns (mnt_path m))) rel = Some (Some (i, exec))"
    using overlay_list_lookup [of "f_meta w'" ns "mnt_path m" rel] assms(4) by (simp add: w' stage_def)
  then have seen: "observed_at (tree_reader E w') (overlay_map (overlay_list (f_meta w') ns (mnt_path m))) tree rel = Inr (SeenBlob i)"
    using wr(4) by (simp add: observed_at_def overlay_shadows_def)
  obtain c' where c': "observe ns (mnt_path m) rel (SeenBlob i) (f_meta w') = Inr ((), c')" "overlay c' = overlay (f_meta w')" "mounts c' = mounts (f_meta w')"
    using observe_Inr [of "f_meta w'" ns "mnt_path m" rel "SeenBlob i"] wr(5) by (auto simp: w')
  let ?w2 = "w'\<lparr>f_meta := c'\<rparr>"
  have rec: "record_observation E ns m rel tree w' = Some (Inr (), ?w2)"
    using seen c'(1) by (simp add: record_observation_def act_bind_Inr_iff meta_Inr)
  have ms: "session_mounts ns ?w2 = session_mounts ns w"
    using c'(3) by (simp add: session_mounts_def list_mounts_def w')
  have rows: "overlay_list (f_meta ?w2) ns (mnt_path m) = overlay_list (f_meta w') ns (mnt_path m)"
    using c'(2) by (simp add: overlay_list_def)
  have "resolve (tree_reader E ?w2) (session_mounts ns ?w2) (overlay_list (f_meta ?w2) ns (mnt_path m)) tree path = Inr (ResolvedBlob i exec)"
    by (rule resolve_staged) (use m wr(3,4) row ms rows in simp_all)
  moreover have "get_blob_data (env_hash E) i (objects ?w2) = Inr d"
    using put_blob_reads [OF wr(2)] assms(3,5) by (simp add: w')
  ultimately have "forge_read E now cap ns path w' = Some (Inr d, ?w2)"
    using op rec by (simp add: forge_read_def act_bind_Inr_iff)
  then show ?thesis ..
qed

text \<open>
  C13: A session reads its own writes. Once a write through a mount has succeeded, a read of the same path by the same
  capability returns the bytes written, provided the read is authorised and the mount resolves (\<open>open_read\<close>), and no two
  byte strings offered to the store share a hash.
\<close>

theorem write_then_read:
  assumes "forge_write E now cap ns path d exec w = Some (Inr i, w')"
    and "open_read E now cap ns path w = Inr r"
    and "log_good (env_hash E) (f_store w')" and "bt_ok (overlay (f_meta w))" and "length d < 2 ^ 64"
  shows "\<exists>w''. forge_read E now cap ns path w' = Some (Inr d, w'')"
  by (rule read_back [OF assms])

section \<open>Who may stage, and where\<close>

text \<open>The change a staging verb may make to the catalog: rows of one mount's overlay and of its observations.\<close>

definition staged_only :: "string \<Rightarrow> string \<Rightarrow> Catalog \<Rightarrow> Catalog \<Rightarrow> bool" where
  "staged_only ns mount c c' \<longleftrightarrow>
    c'\<lparr>overlay := overlay c, observation_rows := observation_rows c\<rparr> = c \<and>
    (\<forall>n m p. (n, m) \<noteq> (ns, mount) \<longrightarrow> map_of (overlay c') (n, m, p) = map_of (overlay c) (n, m, p) \<and>
      map_of (observation_rows c') (n, m, p) = map_of (observation_rows c) (n, m, p))"

definition may_stage :: "Env \<Rightarrow> u64 \<Rightarrow> Capability \<Rightarrow> string \<Rightarrow> Mount \<Rightarrow> Forge \<Rightarrow> bool" where
  "may_stage E now cap ns m w \<longleftrightarrow>
    (\<exists>row. get_namespace (f_meta w) ns = Inr row \<and> ns_agent_id row = agent_id cap) \<and>
    m \<in> set (session_mounts ns w) \<and> mnt_mode m = Rw \<and> check_mount_write E now cap m w = Inr ()"

lemma staged_only_refl [simp]: "staged_only ns mount c c"
  by (simp add: staged_only_def)

lemma staged_only_trans:
  assumes "staged_only ns mount a b" "staged_only ns mount b c"
  shows "staged_only ns mount a c"
proof -
  have "c\<lparr>overlay := overlay a, observation_rows := observation_rows a\<rparr> =
      c\<lparr>overlay := overlay b, observation_rows := observation_rows b\<rparr>\<lparr>overlay := overlay a, observation_rows := observation_rows a\<rparr>"
    by simp
  then show ?thesis using assms unfolding staged_only_def by metis
qed

lemma staged_only_overlay:
  assumes "\<And>n m p. (n, m) \<noteq> (ns, mount) \<Longrightarrow> map_of ov (n, m, p) = map_of (overlay c) (n, m, p)"
  shows "staged_only ns mount c (c\<lparr>overlay := ov\<rparr>)"
  using assms by (simp add: staged_only_def)

lemma staged_only_stage: "staged_only ns mount c (stage ns mount path blob exec c)"
  unfolding stage_def by (rule staged_only_overlay) auto

lemma staged_only_upsert:
  "overlay_upsert ns mount path blob exec c = Inr (u, c') \<Longrightarrow> staged_only ns mount c c'"
  by (simp add: overlay_upsert_Inr staged_only_stage)

lemma staged_only_observe:
  assumes "observe ns mount path seen c = Inr (u, c')"
  shows "staged_only ns mount c c'"
proof -
  have "c' = c \<or> c' = c\<lparr>observation_rows := bt_insert (ns, mount, path) seen (observation_rows c)\<rparr>"
    using assms by (auto simp: observe_def begin_tx_def split: if_split_asm)
  then show ?thesis by (auto simp: staged_only_def)
qed

lemma staged_only_rename:
  assumes "overlay_rename ns mount from to dest c = Inr (u, c')"
  shows "staged_only ns mount c c'"
proof -
  have sup: "staged_only ns mount c (supersede ns mount p c)" for p c
    unfolding supersede_def by (rule staged_only_overlay) auto
  have fold: "staged_only ns mount c (fold (\<lambda>(path, i, exec). stage ns mount path (Some i) exec) dest c)" for c
    by (induction dest arbitrary: c) (auto intro: staged_only_trans staged_only_stage)
  have "c' = stage ns mount from None False
      (fold (\<lambda>(path, i, exec). stage ns mount path (Some i) exec) dest (supersede ns mount to (supersede ns mount from c)))"
    using assms by (auto simp: overlay_rename_def begin_tx_def Let_def split: if_split_asm)
  then show ?thesis
    by (simp only:) (rule staged_only_trans [OF staged_only_trans [OF staged_only_trans [OF sup sup] fold] staged_only_stage])
qed

text \<open>One staging verb of a session, with any outcome.\<close>

inductive staging_step :: "Env \<Rightarrow> u64 \<Rightarrow> Capability \<Rightarrow> string \<Rightarrow> Forge \<Rightarrow> Forge \<Rightarrow> bool" for E now cap ns where
  "forge_write E now cap ns path d exec w = Some (r, w') \<Longrightarrow> staging_step E now cap ns w w'"
| "forge_delete E now cap ns path w = Some (r', w') \<Longrightarrow> staging_step E now cap ns w w'"
| "forge_rename E now cap ns from to expect w = Some (r'', w') \<Longrightarrow> staging_step E now cap ns w w'"

lemma act_bind_pure:
  "act_bind (act_of f) k w = Some (r, w') \<longleftrightarrow> (case f w of Inl e \<Rightarrow> r = Inl e \<and> w' = w | Inr x \<Rightarrow> k x w = Some (r, w'))"
  by (auto simp: act_bind_def act_of_def split: sum.splits)

lemma open_write_may:
  assumes "open_write E now cap ns path w = Inr m"
  shows "may_stage E now cap ns m w"
proof -
  have l: "longest_mount (session_mounts ns w) path = Inr m" "mnt_mode m = Rw" "check_mount_write E now cap m w = Inr ()"
    and r: "\<exists>row. get_namespace (f_meta w) ns = Inr row \<and> ns_agent_id row = agent_id cap"
    using assms by (auto simp: open_write_def require_ns_def and_then_Inr_iff)
  show ?thesis using longest_mount_best [OF l(1)] l(2,3) r unfolding may_stage_def by blast
qed

lemma open_rename_may:
  assumes "open_rename E now cap ns from to w = Inr (ends, m, rels, tree)"
  shows "may_stage E now cap ns m w"
proof -
  obtain p where l: "longest_mount (session_mounts ns w) p = Inr m" "mnt_mode m = Rw" "check_mount_write E now cap m w = Inr ()"
    and r: "\<exists>row. get_namespace (f_meta w) ns = Inr row \<and> ns_agent_id row = agent_id cap"
    using assms unfolding open_rename_def require_ns_def by (fastforce simp: and_then_Inr_iff split: if_split_asm)
  show ?thesis using longest_mount_best [OF l(1)] l(2,3) r unfolding may_stage_def by blast
qed

lemma meta_staged:
  assumes "meta f w = Some (r, w')" "\<And>x c'. f (f_meta w) = Inr (x, c') \<Longrightarrow> staged_only ns mount (f_meta w) c'"
  shows "staged_only ns mount (f_meta w) (f_meta w')"
  using assms by (auto simp: meta_Some split: sum.splits prod.splits)

lemma upsert_verb_staged:
  "meta (overlay_upsert ns mount p b x) w = Some (r, w') \<Longrightarrow> staged_only ns mount (f_meta w) (f_meta w')"
  by (rule meta_staged) (auto intro: staged_only_upsert)

lemma rename_verb_staged:
  "meta (overlay_rename ns mount p q dest) w = Some (r, w') \<Longrightarrow> staged_only ns mount (f_meta w) (f_meta w')"
  by (rule meta_staged) (auto intro: staged_only_rename)

lemma record_observation_staged:
  "record_observation E ns m rel tree w = Some (r, w') \<Longrightarrow> staged_only ns (mnt_path m) (f_meta w) (f_meta w')"
  by (auto simp: record_observation_def act_bind_pure split: sum.splits intro: meta_staged staged_only_observe)

text \<open>
  C9: Staging needs ownership and write authority, and touches one mount only. Whatever the outcome of a write, a delete
  or a move, either the catalog is as it was, or the capability's agent owns the session, the mount is
  read-write and the capability may write the ref it names; and then nothing but that mount's overlay and observations
  has changed: no ref, no other mount and no other session.
\<close>

theorem staging_needs_authority:
  assumes "staging_step E now cap ns w w'"
  shows "f_meta w' = f_meta w \<or> (\<exists>m. may_stage E now cap ns m w \<and> staged_only ns (mnt_path m) (f_meta w) (f_meta w'))"
  using assms
proof cases
  case (1 path d exec r)
  show ?thesis
  proof (cases "open_write E now cap ns path w")
    case (Inr m)
    have "staged_only ns (mnt_path m) (f_meta w) (f_meta w')"
      using 1 unfolding forge_write_def
      by (auto simp: act_bind_pure Inr act_bind_Some stored_Some dest!: upsert_verb_staged split: sum.splits)
    then show ?thesis using open_write_may [OF Inr] by blast
  qed (use 1 in \<open>simp add: forge_write_def act_bind_pure\<close>)
next
  case (2 path r)
  show ?thesis
  proof (cases "open_write E now cap ns path w")
    case (Inr m)
    have "staged_only ns (mnt_path m) (f_meta w) (f_meta w')"
      using 2 unfolding forge_delete_def
      by (auto simp: act_bind_pure Inr dest!: upsert_verb_staged split: sum.splits)
    then show ?thesis using open_write_may [OF Inr] by blast
  qed (use 2 in \<open>simp add: forge_delete_def act_bind_pure\<close>)
next
  case (3 src dst expect r)
  show ?thesis
  proof (cases "open_rename E now cap ns src dst w")
    case (Inr x)
    obtain f t m rf rt tree where x: "x = ((f, t), m, (rf, rt), tree)" by (cases x) auto
    have "staged_only ns (mnt_path m) (f_meta w) (f_meta w')"
      using 3 unfolding forge_rename_def act_bind_pure Inr x
      by (auto simp: act_bind_pure act_bind_Some split: sum.splits if_split_asm
          dest!: record_observation_staged rename_verb_staged intro: staged_only_trans)
    then show ?thesis using open_rename_may [of E now cap ns src dst w] Inr x by blast
  qed (use 3 in \<open>simp add: forge_rename_def act_bind_pure\<close>)
qed

end
