(* ===== verification/Workspace_Reads.thy ===== *)
theory Workspace_Reads
  imports Workspace_Laws
begin

text \<open>
  Mounts and observations: what a mount may name, that taking a mount again moves its pin, that the reads of a
  session do not block its own checkin, and the move that does.
\<close>

section \<open>Taking a mount\<close>

lemma forge_mount_Inr:
  assumes "forge_mount E now cap ns path spec rw w = Some (Inr u, w')"
  shows "\<exists>p i. normalize_abs path = Inr p \<and> resolve_spec_oid spec w = Inr i \<and> is_ok (require_ns cap ns w) \<and>
    w' = w\<lparr>f_meta := (f_meta w)\<lparr>mounts := bt_insert (ns, p)
      \<lparr>m_spec = spec, m_mode = (if rw then ''rw'' else ''ro''), m_base_oid = (if rw then Some i else None)\<rparr> (mounts (f_meta w))\<rparr>\<rparr> \<and>
    (if rw then object_type (env_hash E) i (objects w) = Inr ObjectType.Commit \<and>
       (\<exists>n. parse_spec spec = Inr (SpecRef n) \<and> check E now cap Op.Write (Some n) w = Inr () \<and> refuse_rw_mount_of_protected_ref n w = Inr ())
     else check_spec_read E now cap spec w = Inr ()) \<and>
    refuse_retargeting_staged_work ns p spec rw w = Inr ()"
proof -
  obtain r p i ty where g: "require_ns cap ns w = Inr r" "normalize_abs path = Inr p"
    "(if rw then and_then (parse_spec spec) (\<lambda>s. case s of
             SpecRef n \<Rightarrow> and_then (check E now cap Op.Write (Some n) w) (\<lambda>_. refuse_rw_mount_of_protected_ref n w)
           | SpecOid _ \<Rightarrow> Inl (Denied ''cannot mount an oid: spec read-write''))
         else check_spec_read E now cap spec w) = Inr ()"
    "resolve_spec_oid spec w = Inr i" "object_type (env_hash E) i (objects w) = Inr ty" "\<not> (rw \<and> ty \<noteq> ObjectType.Commit)"
    "refuse_retargeting_staged_work ns p spec rw w = Inr ()"
    and ins: "meta (insert_mount ns p spec (if rw then ''rw'' else ''ro'') (if rw then Some i else None)) w = Some (Inr u, w')"
    using assms unfolding forge_mount_def act_bind_Inr_iff act_of_Some and_then_Inr_iff
    by (auto simp: and_then_Inr_iff split: if_split_asm)
  have "w' = w\<lparr>f_meta := (f_meta w)\<lparr>mounts := bt_insert (ns, p)
      \<lparr>m_spec = spec, m_mode = (if rw then ''rw'' else ''ro''), m_base_oid = (if rw then Some i else None)\<rparr> (mounts (f_meta w))\<rparr>\<rparr>"
    using ins by (auto simp: meta_Inr insert_mount_def begin_tx_def mount_modes_def split: if_split_asm)
  moreover have "if rw then object_type (env_hash E) i (objects w) = Inr ObjectType.Commit \<and>
       (\<exists>n. parse_spec spec = Inr (SpecRef n) \<and> check E now cap Op.Write (Some n) w = Inr () \<and> refuse_rw_mount_of_protected_ref n w = Inr ())
     else check_spec_read E now cap spec w = Inr ()"
  proof (cases rw)
    case True
    then obtain s where s: "parse_spec spec = Inr s" using g(3) by (auto simp: and_then_Inr_iff)
    then show ?thesis using g(3,5,6) True by (cases s) (auto simp: and_then_Inr_iff)
  qed (use g(3) in simp)
  ultimately show ?thesis using g(1,2,4,7) by (auto simp: is_ok_def)
qed

text \<open>
  A read-write mount always has a way to publish. It names a ref by name, the ref is unprotected and holds a commit,
  the capability may write it, and the mount is pinned to that commit. A mount over staged work keeps its ref
  and its mode, and the staged work stays.
\<close>

theorem rw_mount_is_publishable:
  assumes "forge_mount E now cap ns path spec True w = Some (Inr u, w')"
  shows "\<exists>p n row. normalize_abs path = Inr p \<and> parse_spec spec = Inr (SpecRef n) \<and> get_ref (f_meta w) n = Some row \<and>
    \<not> row_protected row \<and> object_type (env_hash E) (row_oid row) (objects w) = Inr ObjectType.Commit \<and>
    check E now cap Op.Write (Some n) w = Inr () \<and>
    get_mount (f_meta w') ns p = Some \<lparr>mt_path = p, mt_spec = spec, mt_mode = ''rw'', mt_base_oid = Some (row_oid row)\<rparr> \<and>
    overlay (f_meta w') = overlay (f_meta w) \<and>
    (\<forall>old. get_mount (f_meta w) ns p = Some old \<longrightarrow> overlay_list (f_meta w) ns p \<noteq> [] \<longrightarrow> mt_spec old = spec)"
proof -
  obtain p i n where g: "normalize_abs path = Inr p" "resolve_spec_oid spec w = Inr i" "parse_spec spec = Inr (SpecRef n)"
    "object_type (env_hash E) i (objects w) = Inr ObjectType.Commit" "check E now cap Op.Write (Some n) w = Inr ()"
    "refuse_rw_mount_of_protected_ref n w = Inr ()" "refuse_retargeting_staged_work ns p spec True w = Inr ()"
    and w': "w' = w\<lparr>f_meta := (f_meta w)\<lparr>mounts := bt_insert (ns, p)
      \<lparr>m_spec = spec, m_mode = ''rw'', m_base_oid = Some i\<rparr> (mounts (f_meta w))\<rparr>\<rparr>"
    using forge_mount_Inr [OF assms] by auto
  obtain row where row: "get_ref (f_meta w) n = Some row" "row_oid row = i"
    using g(2,3) by (auto simp: resolve_spec_oid_def and_then_Inr_iff ok_or_Inr_iff)
  have "\<not> row_protected row" using g(6) row(1) by (auto simp: refuse_rw_mount_of_protected_ref_def)
  moreover have "mt_spec old = spec" if "get_mount (f_meta w) ns p = Some old" "overlay_list (f_meta w) ns p \<noteq> []" for old
    using g(7) that by (auto simp: refuse_retargeting_staged_work_def Let_def split: if_split_asm)
  moreover have "get_mount (f_meta w') ns p = Some \<lparr>mt_path = p, mt_spec = spec, mt_mode = ''rw'', mt_base_oid = Some i\<rparr>"
    by (simp add: w' get_mount_def mount_row_def)
  moreover have "overlay (f_meta w') = overlay (f_meta w)" by (simp add: w')
  ultimately show ?thesis using g row by blast
qed

text \<open>
  C37: Taking the same read-write mount again is not idempotent: when the ref has moved, the mount's pin moves with it while
  the staged overlay stays, so the next checkin folds work staged over the old commit onto the new one and advances the
  ref, where it would have forked.
\<close>

theorem remount_moves_pin_under_staged_work:
  assumes "forge_mount E now cap ns path spec True w = Some (Inr u, w')"
    and "normalize_abs path = Inr p" "parse_spec spec = Inr (SpecRef n)" "get_ref (f_meta w) n = Some row"
    and "get_mount (f_meta w) ns p = Some \<lparr>mt_path = p, mt_spec = spec, mt_mode = ''rw'', mt_base_oid = Some old_pin\<rparr>"
    and "row_oid row \<noteq> old_pin"
  shows "get_mount (f_meta w') ns p = Some \<lparr>mt_path = p, mt_spec = spec, mt_mode = ''rw'', mt_base_oid = Some (row_oid row)\<rparr> \<and>
    overlay_list (f_meta w') ns p = overlay_list (f_meta w) ns p"
proof -
  obtain i where "resolve_spec_oid spec w = Inr i" and w': "w' = w\<lparr>f_meta := (f_meta w)\<lparr>mounts := bt_insert (ns, p)
      \<lparr>m_spec = spec, m_mode = ''rw'', m_base_oid = Some i\<rparr> (mounts (f_meta w))\<rparr>\<rparr>"
    using forge_mount_Inr [OF assms(1)] assms(2) by auto
  moreover from this have "i = row_oid row" using assms(3,4) by (simp add: resolve_spec_oid_def ok_or_def)
  ultimately show ?thesis by (simp add: get_mount_def mount_row_def overlay_list_def)
qed

section \<open>Observations\<close>

lemma observed_eq: "observed_kind a = observed_kind b \<Longrightarrow> observed_oid a = observed_oid b \<Longrightarrow> a = b"
  by (cases a; cases b) simp_all

lemma observe_rows:
  assumes "observe ns mount path seen c = Inr (u, c')"
  shows "map_of (observation_rows c') k = (if k = (ns, mount, path) then Some seen else map_of (observation_rows c) k)"
    "overlay c' = overlay c" "mounts c' = mounts c"
proof -
  consider "observation_is_current c ns mount path seen" "c' = c"
    | "c' = c\<lparr>observation_rows := bt_insert (ns, mount, path) seen (observation_rows c)\<rparr>"
    using assms by (auto simp: observe_def begin_tx_def split: if_split_asm)
  then have "map_of (observation_rows c') k = (if k = (ns, mount, path) then Some seen else map_of (observation_rows c) k) \<and>
      overlay c' = overlay c \<and> mounts c' = mounts c"
  proof cases
    case 1
    then show ?thesis by (auto simp: observation_is_current_def split: option.splits dest: observed_eq)
  qed auto
  then show "map_of (observation_rows c') k = (if k = (ns, mount, path) then Some seen else map_of (observation_rows c) k)"
    "overlay c' = overlay c" "mounts c' = mounts c" by blast+
qed

text \<open>An overlay decides a path exactly when it has a row at the path or above it.\<close>

lemma cut_last_Some:
  assumes "cut_last s = Some p"
  shows "\<exists>t. s = p @ slash # t \<and> slash \<notin> set t"
proof -
  let ?d = "dropWhile (\<lambda>c. c \<noteq> slash) (rev s)" and ?t = "takeWhile (\<lambda>c. c \<noteq> slash) (rev s)"
  have p: "slash \<in> set s" "p = rev (tl ?d)" using assms by (auto simp: cut_last_def split: if_split_asm)
  then have "?d \<noteq> []" by (auto simp: dropWhile_eq_Nil_conv)
  then have "?d = slash # tl ?d" using hd_dropWhile [of "\<lambda>c. c \<noteq> slash" "rev s"] by (cases ?d) auto
  then have "rev s = ?t @ slash # tl ?d" using takeWhile_dropWhile_id [of "\<lambda>c. c \<noteq> slash" "rev s"] by simp
  then have "s = rev (?t @ slash # tl ?d)" by (metis rev_rev_ident)
  then have "s = p @ slash # rev ?t" using p(2) by simp
  moreover have "slash \<notin> set (rev ?t)" by (auto dest: set_takeWhileD)
  ultimately show ?thesis by blast
qed

lemma below_cut_last: "below q rel \<longleftrightarrow> (\<exists>p. cut_last rel = Some p \<and> (q = p \<or> below q p))"
proof
  assume "below q rel"
  then obtain r where r: "rel = q @ slash # r" by (auto simp: below_def prefix_def)
  then obtain p where p: "cut_last rel = Some p" by (auto simp: cut_last_def)
  then obtain t where t: "q @ slash # r = p @ slash # t" "slash \<notin> set t" using cut_last_Some r by metis
  then consider us where "q = p @ us" "us @ slash # r = slash # t" | us where "q @ us = p" "slash # r = us @ slash # t"
    by (auto simp: append_eq_append_conv2)
  then have "q = p \<or> below q p"
  proof cases
    case 1
    then have "us = []" using t(2) by (cases us) auto
    then show ?thesis using 1 by simp
  next
    case 2
    then show ?thesis by (cases us) (auto simp: below_def)
  qed
  then show "\<exists>p. cut_last rel = Some p \<and> (q = p \<or> below q p)" using p by blast
next
  assume "\<exists>p. cut_last rel = Some p \<and> (q = p \<or> below q p)"
  then obtain p where p: "cut_last rel = Some p" "q = p \<or> below q p" by blast
  then obtain t where "rel = p @ slash # t" using cut_last_Some by blast
  then have "below p rel" by (simp add: below_def)
  then show "below q rel" using p(2) below_trans by blast
qed

lemma overlay_shadows_iff: "overlay_shadows ov rel \<longleftrightarrow> (\<exists>q. map_of ov q \<noteq> None \<and> (q = rel \<or> below q rel))"
proof -
  have "shadow_loop ov rel \<longleftrightarrow> (\<exists>q. map_of ov q \<noteq> None \<and> below q rel)"
  proof (induction rel rule: measure_induct_rule [of length])
    case (less rel)
    show ?case
    proof (cases "cut_last rel")
      case None
      then show ?thesis by (simp add: shadow_loop.simps [of ov rel] below_cut_last [of _ rel])
    next
      case (Some p)
      then show ?thesis
        using less.IH [OF cut_last_shorter [OF Some]] below_cut_last [of _ rel] by (auto simp: shadow_loop.simps [of ov rel])
    qed
  qed
  then show ?thesis by (auto simp: overlay_shadows_def)
qed

definition shadowed :: "string \<Rightarrow> string \<Rightarrow> string \<Rightarrow> Catalog \<Rightarrow> bool" where
  "shadowed ns mount path c \<longleftrightarrow> overlay_shadows (overlay_map (overlay_list c ns mount)) path"

lemma shadowed_iff:
  assumes "bt_ok (overlay c)"
  shows "shadowed ns mount path c \<longleftrightarrow> (\<exists>q. map_of (overlay c) (ns, mount, q) \<noteq> None \<and> (q = path \<or> below q path))"
  by (simp add: shadowed_def overlay_shadows_iff overlay_list_lookup [OF assms])

lemma current_at_mono:
  assumes "\<And>i t. get i = Inr t \<Longrightarrow> get' i = Inr t" "current_at get tree rel = Inr seen"
  shows "current_at get' tree rel = Inr seen"
proof -
  have "entry_walk get ps cur = Inr r \<Longrightarrow> entry_walk get' ps cur = Inr r" for ps cur r
  proof (induction ps arbitrary: cur)
    case (Cons p ps)
    then obtain t where "get cur = Inr t" by (auto simp: and_then_Inr_iff)
    then show ?case using Cons assms(1) [of cur t] by (auto split: option.splits if_split_asm)
  qed simp
  then show ?thesis using assms(2) by (auto simp: current_at_def entry_at_def and_then_Inr_iff split: if_split_asm)
qed

text \<open>A read records one observation, of what the mount shows under the session's overlay.\<close>

definition records :: "Env \<Rightarrow> string \<Rightarrow> Forge \<Rightarrow> Forge \<Rightarrow> bool" where
  "records E ns w w' \<longleftrightarrow> (\<exists>m rel tree seen c'. m \<in> set (session_mounts ns w) \<and> session_mount_tree E m w = Inr tree \<and>
    observed_at (tree_reader E w) (overlay_map (overlay_list (f_meta w) ns (mnt_path m))) tree rel = Inr seen \<and>
    observe ns (mnt_path m) rel seen (f_meta w) = Inr ((), c') \<and> w' = w\<lparr>f_meta := c'\<rparr>)"

lemma record_observation_records:
  assumes "open_read E now cap ns path w = Inr (m, rel, tree)" "record_observation E ns m rel tree w = Some (r, w')"
  shows "w' = w \<or> records E ns w w'"
proof -
  have "longest_mount (session_mounts ns w) path = Inr m" "session_mount_tree E m w = Inr tree"
    using assms(1) by (auto simp: open_read_def and_then_Inr_iff)
  then have m: "m \<in> set (session_mounts ns w)" "session_mount_tree E m w = Inr tree" using longest_mount_best by blast+
  show ?thesis
    using assms(2) m
    by (auto simp: record_observation_def act_bind_pure meta_Some records_def split: sum.splits prod.splits) blast
qed

lemma forge_read_records:
  assumes "forge_read E now cap ns path w = Some (r, w')"
  shows "w' = w \<or> records E ns w w'"
proof (cases "open_read E now cap ns path w")
  case (Inr x)
  obtain m rel tree where x: "x = (m, rel, tree)" by (cases x)
  obtain q where "record_observation E ns m rel tree w = Some (q, w')"
    using assms by (auto simp: forge_read_def act_bind_pure Inr x act_bind_Some)
  then show ?thesis using record_observation_records Inr x by blast
qed (use assms in \<open>simp add: forge_read_def act_bind_pure\<close>)

lemma forge_ls_records:
  assumes "forge_ls E now cap ns path w = Some (r, w')"
  shows "w' = w \<or> records E ns w w'"
proof (cases "open_read E now cap ns path w")
  case (Inr x)
  obtain m rel tree where x: "x = (m, rel, tree)" by (cases x)
  obtain q where "record_observation E ns m rel tree w = Some (q, w')"
    using assms by (auto simp: forge_ls_def act_bind_pure Inr x act_bind_Some)
  then show ?thesis using record_observation_records Inr x by blast
qed (use assms in \<open>simp add: forge_ls_def act_bind_pure\<close>)

section \<open>A session among others\<close>

text \<open>
  What the rest of the system may do between two verbs of a session: publish objects, move any ref and change any
  row that is not the session's.
\<close>

definition others_move :: "string \<Rightarrow> Forge \<Rightarrow> Forge \<Rightarrow> bool" where
  "others_move ns w w' \<longleftrightarrow> store_grows (objects w) (objects w') \<and> session_mounts ns w' = session_mounts ns w \<and>
    (\<forall>k. fst k = ns \<longrightarrow> map_of (overlay (f_meta w')) k = map_of (overlay (f_meta w)) k \<and>
      map_of (observation_rows (f_meta w')) k = map_of (observation_rows (f_meta w)) k) \<and>
    bt_ok (overlay (f_meta w')) \<and> bt_ok (observation_rows (f_meta w')) \<and> bt_ok (mounts (f_meta w'))"

text \<open>
  A move to \<open>dst\<close> supersedes the session's staged rows at and below its destination. It uncovers the session's reads
  when there are such rows and the session has an observation there too.
\<close>

definition uncovers :: "string \<Rightarrow> string \<Rightarrow> Forge \<Rightarrow> bool" where
  "uncovers ns dst w \<longleftrightarrow> (\<exists>to_abs m rel p q. normalize_abs dst = Inr to_abs \<and> longest_mount (session_mounts ns w) to_abs = Inr m \<and>
    rel_of (mnt_path m) to_abs = Inr rel \<and>
    map_of (overlay (f_meta w)) (ns, mnt_path m, p) \<noteq> None \<and> (p = rel \<or> below rel p) \<and>
    map_of (observation_rows (f_meta w)) (ns, mnt_path m, q) \<noteq> None \<and> (q = rel \<or> below rel q))"

text \<open>
  The verbs of a session between two checkins, failed ones included, with everyone else's steps in between. Two of them
  have a side condition. A move of a directory must not uncover the session's reads, and a mount must not replace a mount
  the session has: \<open>rename_can_block_checkin\<close> and \<open>remount_moves_pin_under_staged_work\<close> say what happens otherwise.
\<close>

inductive session_step :: "Env \<Rightarrow> Capability \<Rightarrow> string \<Rightarrow> Forge \<Rightarrow> Forge \<Rightarrow> bool" for E cap ns where
  session_read: "forge_read E now cap ns path w = Some (r, w') \<Longrightarrow> session_step E cap ns w w'"
| session_ls: "forge_ls E now cap ns path w = Some (l, w') \<Longrightarrow> session_step E cap ns w w'"
| session_write: "forge_write E now cap ns path d exec w = Some (i, w') \<Longrightarrow> session_step E cap ns w w'"
| session_delete: "forge_delete E now cap ns path w = Some (u, w') \<Longrightarrow> session_step E cap ns w w'"
| session_rename: "forge_rename E now cap ns src dst expect w = Some (x, w') \<Longrightarrow>
    (\<And>moved. x = Inr moved \<Longrightarrow> rn_kind moved = ''blob'' \<or> \<not> uncovers ns dst w) \<Longrightarrow> session_step E cap ns w w'"
| session_mount: "forge_mount E now cap ns path spec rw w = Some (u, w') \<Longrightarrow>
    set (session_mounts ns w) \<subseteq> set (session_mounts ns w') \<Longrightarrow> session_step E cap ns w w'"
| session_others: "others_move ns w w' \<Longrightarrow> session_step E cap ns w w'"

definition pinned :: "Mount \<Rightarrow> bool" where
  "pinned m \<longleftrightarrow> mnt_mode m = Rw \<and> mnt_base_oid m \<noteq> None"

text \<open>What the session saw through a pinned mount is what a later check sees, or its own overlay decides the path.\<close>

definition seen_ok :: "Env \<Rightarrow> string \<Rightarrow> Forge \<Rightarrow> Mount \<Rightarrow> string \<Rightarrow> Observed \<Rightarrow> bool" where
  "seen_ok E ns w m path seen \<longleftrightarrow> shadowed ns (mnt_path m) path (f_meta w) \<or>
    (\<exists>t. session_mount_tree E m w = Inr t \<and> current_at (tree_reader E w) t path = Inr seen)"

definition obs_inv :: "Env \<Rightarrow> string \<Rightarrow> Forge \<Rightarrow> bool" where
  "obs_inv E ns w \<longleftrightarrow> bt_ok (overlay (f_meta w)) \<and> bt_ok (observation_rows (f_meta w)) \<and> bt_ok (mounts (f_meta w)) \<and>
    (\<forall>mount path seen. map_of (observation_rows (f_meta w)) (ns, mount, path) = Some seen \<longrightarrow>
      (\<exists>m \<in> set (session_mounts ns w). mnt_path m = mount \<and> (pinned m \<longrightarrow> seen_ok E ns w m path seen)))"

lemma obs_invD:
  assumes "obs_inv E ns w"
  shows "bt_ok (overlay (f_meta w))" "bt_ok (observation_rows (f_meta w))" "bt_ok (mounts (f_meta w))"
  using assms by (simp_all add: obs_inv_def)

lemma session_mounts_distinct:
  assumes "bt_ok (mounts (f_meta w))"
  shows "distinct (map mnt_path (session_mounts ns w))"
proof -
  have d: "distinct (map fst (mounts (f_meta w)))" by (rule bt_ok_distinct [OF assms])
  have "map mnt_path (session_mounts ns w) = map snd (map fst (filter (\<lambda>((n, _), _). n = ns) (mounts (f_meta w))))"
    by (simp add: session_mounts_def list_mounts_def mount_of_row_def mount_row_def split_def)
  moreover have "inj_on snd (fst ` set (filter (\<lambda>((n, _), _). n = ns) (mounts (f_meta w))))" by (auto simp: inj_on_def)
  ultimately show ?thesis
    using distinct_map_filter [OF d, of "\<lambda>((n, _), _). n = ns"] by (simp add: distinct_map comp_inj_on)
qed

lemma same_mount:
  assumes "bt_ok (mounts (f_meta w))" "m \<in> set (session_mounts ns w)" "n \<in> set (session_mounts ns w)" "mnt_path m = mnt_path n"
  shows "m = n"
  using session_mounts_distinct [OF assms(1), of ns] assms(2-4) by (auto simp: distinct_map inj_on_def)

lemma seen_ok_mono:
  assumes "seen_ok E ns w m path seen" "pinned m" "store_grows (objects w) (objects w')"
    and "shadowed ns (mnt_path m) path (f_meta w) \<Longrightarrow> shadowed ns (mnt_path m) path (f_meta w')"
  shows "seen_ok E ns w' m path seen"
  using assms(1) unfolding seen_ok_def
proof
  assume "\<exists>t. session_mount_tree E m w = Inr t \<and> current_at (tree_reader E w) t path = Inr seen"
  then obtain t where t: "session_mount_tree E m w = Inr t" "current_at (tree_reader E w) t path = Inr seen" by blast
  obtain base where base: "mnt_mode m = Rw" "mnt_base_oid m = Some base" using assms(2) by (auto simp: pinned_def)
  have "session_mount_tree E m w' = Inr t"
    using t(1) base grown_typed(1-3) [OF assms(3)]
    by (auto simp: session_mount_tree_def tree_of_def and_then_Inr_iff split: ObjectType.splits)
  moreover have "current_at (tree_reader E w') t path = Inr seen"
    by (rule current_at_mono [OF grown_typed(4) [OF assms(3)] t(2)])
  ultimately show "shadowed ns (mnt_path m) path (f_meta w') \<or>
    (\<exists>t. session_mount_tree E m w' = Inr t \<and> current_at (tree_reader E w') t path = Inr seen)" by blast
qed (use assms(4) in blast)

text \<open>A step that keeps the mounts and the observations and leaves no observed path uncovered keeps the invariant.\<close>

lemma obs_inv_frame:
  assumes "obs_inv E ns w" "store_grows (objects w) (objects w')" "set (session_mounts ns w) \<subseteq> set (session_mounts ns w')"
    and "bt_ok (overlay (f_meta w'))" "bt_ok (observation_rows (f_meta w'))" "bt_ok (mounts (f_meta w'))"
    and "\<And>m p. map_of (observation_rows (f_meta w')) (ns, m, p) = map_of (observation_rows (f_meta w)) (ns, m, p)"
    and "\<And>m p. map_of (observation_rows (f_meta w)) (ns, m, p) \<noteq> None \<Longrightarrow> shadowed ns m p (f_meta w) \<Longrightarrow> shadowed ns m p (f_meta w')"
  shows "obs_inv E ns w'"
proof -
  have "\<exists>m \<in> set (session_mounts ns w'). mnt_path m = mount \<and> (pinned m \<longrightarrow> seen_ok E ns w' m path seen)"
    if o: "map_of (observation_rows (f_meta w)) (ns, mount, path) = Some seen" for mount path seen
  proof -
    obtain m where m: "m \<in> set (session_mounts ns w)" "mnt_path m = mount" "pinned m \<longrightarrow> seen_ok E ns w m path seen"
      using assms(1) o unfolding obs_inv_def by blast
    then show ?thesis using assms(3) seen_ok_mono [OF _ _ assms(2) assms(8)] o by blast
  qed
  then show ?thesis using assms(4-6) unfolding obs_inv_def assms(7) by blast
qed

lemma obs_inv_rows_stay:
  assumes "obs_inv E ns w" "store_grows (objects w) (objects w')" "mounts (f_meta w') = mounts (f_meta w)"
    and "bt_ok (overlay (f_meta w'))" "observation_rows (f_meta w') = observation_rows (f_meta w)"
    and "\<And>m p. map_of (overlay (f_meta w)) (ns, m, p) \<noteq> None \<Longrightarrow> map_of (overlay (f_meta w')) (ns, m, p) \<noteq> None"
  shows "obs_inv E ns w'"
proof (rule obs_inv_frame [OF assms(1,2)])
  fix m p assume "shadowed ns m p (f_meta w)"
  then show "shadowed ns m p (f_meta w')"
    using assms(6) unfolding shadowed_iff [OF assms(4)] shadowed_iff [OF obs_invD(1) [OF assms(1)]] by blast
qed (use assms(3-5) obs_invD [OF assms(1)] in \<open>simp_all add: session_mounts_def list_mounts_def\<close>)

lemma tree_of_meta [simp]: "tree_of E i (w\<lparr>f_meta := c\<rparr>) = tree_of E i w"
  by (simp add: tree_of_def cong: ObjectType.case_cong)

lemma tree_of_stats [simp]: "tree_of E i (w\<lparr>f_stats := s\<rparr>) = tree_of E i w"
  by (simp add: tree_of_def cong: ObjectType.case_cong)

lemma obs_inv_records:
  assumes "obs_inv E ns w" "records E ns w w'"
  shows "obs_inv E ns w'"
proof -
  obtain m rel tree seen c' where m: "m \<in> set (session_mounts ns w)" "session_mount_tree E m w = Inr tree"
    and seen: "observed_at (tree_reader E w) (overlay_map (overlay_list (f_meta w) ns (mnt_path m))) tree rel = Inr seen"
    and c': "observe ns (mnt_path m) rel seen (f_meta w) = Inr ((), c')" and w': "w' = w\<lparr>f_meta := c'\<rparr>"
    using assms(2) by (auto simp: records_def)
  note rows = observe_rows [OF c']
  have same: "seen_ok E ns w' n p s = seen_ok E ns w n p s" if "pinned n" for n p s
  proof -
    have "session_mount_tree E n w' = session_mount_tree E n w"
      using that by (auto simp: session_mount_tree_def pinned_def w')
    then show ?thesis using rows(2) by (simp add: seen_ok_def w' shadowed_def overlay_list_def)
  qed
  have ms: "session_mounts ns w' = session_mounts ns w" using rows(3) by (simp add: session_mounts_def list_mounts_def w')
  have new: "seen_ok E ns w m rel seen"
    using seen m(2) by (auto simp: seen_ok_def shadowed_def observed_at_def split: if_split_asm)
  have "\<exists>n \<in> set (session_mounts ns w). mnt_path n = mount \<and> (pinned n \<longrightarrow> seen_ok E ns w n p s)"
    if s: "map_of (observation_rows c') (ns, mount, p) = Some s" for mount p s
  proof (cases "mount = mnt_path m \<and> p = rel")
    case True
    then have "s = seen" using s rows(1) [of "(ns, mount, p)"] by simp
    then show ?thesis using m(1) True new by blast
  next
    case False
    then have "map_of (observation_rows (f_meta w)) (ns, mount, p) = Some s"
      using s rows(1) [of "(ns, mount, p)"] by (auto split: if_split_asm)
    then show ?thesis using assms(1) unfolding obs_inv_def by blast
  qed
  moreover have "bt_ok (observation_rows c')" "bt_ok (overlay c')"
    using assms(1) c' by (auto simp: obs_inv_def observe_def begin_tx_def split: if_split_asm)
  ultimately show ?thesis using assms(1) same rows(3) unfolding obs_inv_def ms by (simp add: w')
qed

lemma recorded_inv:
  assumes "obs_inv E ns w" "m \<in> set (session_mounts ns w)" "session_mount_tree E m w = Inr tree"
    and "record_observation E ns m rel tree w = Some (r, w')"
  shows "obs_inv E ns w'"
    "\<And>mount p. (mount, p) \<noteq> (mnt_path m, rel) \<Longrightarrow>
      map_of (observation_rows (f_meta w')) (ns, mount, p) = map_of (observation_rows (f_meta w)) (ns, mount, p)"
    "overlay (f_meta w') = overlay (f_meta w)"
proof -
  consider "w' = w" | seen c' where "observe ns (mnt_path m) rel seen (f_meta w) = Inr ((), c')" "w' = w\<lparr>f_meta := c'\<rparr>" "records E ns w w'"
    using assms(2-4) by (auto simp: record_observation_def act_bind_pure meta_Some records_def split: sum.splits prod.splits) blast
  then have "obs_inv E ns w' \<and> (\<forall>mount p. (mount, p) \<noteq> (mnt_path m, rel) \<longrightarrow>
      map_of (observation_rows (f_meta w')) (ns, mount, p) = map_of (observation_rows (f_meta w)) (ns, mount, p)) \<and>
      overlay (f_meta w') = overlay (f_meta w)"
  proof cases
    case (2 seen c')
    then show ?thesis using obs_inv_records [OF assms(1)] observe_rows(1,2) [OF 2(1)] by auto
  qed (use assms(1) in simp)
  then show "obs_inv E ns w'" "\<And>mount p. (mount, p) \<noteq> (mnt_path m, rel) \<Longrightarrow>
      map_of (observation_rows (f_meta w')) (ns, mount, p) = map_of (observation_rows (f_meta w)) (ns, mount, p)"
    "overlay (f_meta w') = overlay (f_meta w)" by blast+
qed

lemma staged_rows_stay:
  assumes "f_meta w' = stage ns (mnt_path m) rel b x (f_meta w)" "obs_inv E ns w" "store_grows (objects w) (objects w')"
  shows "obs_inv E ns w'"
  by (rule obs_inv_rows_stay [OF assms(2,3)]) (use assms(1,2) in \<open>auto simp: obs_inv_def stage_def\<close>)

lemma obs_inv_upsert:
  assumes "meta (overlay_upsert ns (mnt_path m) rel b x) v = Some (r, w')" "f_meta v = f_meta w"
    and "store_grows (objects w) (objects v)" "obs_inv E ns w"
  shows "obs_inv E ns w'"
proof -
  have v: "obs_inv E ns v"
    by (rule obs_inv_rows_stay [OF assms(4,3)]) (use assms(2,4) in \<open>auto simp: obs_inv_def\<close>)
  then show ?thesis
    using assms(1) by (cases r) (auto simp: meta_Some overlay_upsert_Inr split: sum.splits prod.splits intro: staged_rows_stay [of _ ns m rel b x v])
qed

lemma obs_inv_store:
  assumes "obs_inv E ns w" "store_grows (objects w) (objects w')" "f_meta w' = f_meta w"
  shows "obs_inv E ns w'"
  by (rule obs_inv_rows_stay [OF assms(1,2)]) (use assms(1,3) in \<open>auto simp: obs_inv_def\<close>)

lemma is_under_below: "is_under p q \<longleftrightarrow> p = q \<or> below q p"
  by (auto simp: is_under_def below_def strip_prefix_def prefix_def split: if_split_asm)

lemma open_rename_ends:
  assumes "open_rename E now cap ns src dst w = Inr ((f, t), m, (rel_from, rel_to), tree)"
  shows "m \<in> set (session_mounts ns w)" "session_mount_tree E m w = Inr tree" "normalize_abs dst = Inr t"
    "\<exists>m'. longest_mount (session_mounts ns w) t = Inr m' \<and> mnt_path m' = mnt_path m" "rel_of (mnt_path m) t = Inr rel_to"
    "\<not> below rel_from rel_to" "\<not> below rel_to rel_from" "rel_from \<noteq> rel_to"
proof -
  obtain m' where o: "longest_mount (session_mounts ns w) f = Inr m" "longest_mount (session_mounts ns w) t = Inr m'"
      "mnt_path m = mnt_path m'" "normalize_abs dst = Inr t" "rel_of (mnt_path m) t = Inr rel_to" "rel_from \<noteq> rel_to"
      "\<not> is_under rel_to rel_from" "\<not> is_under rel_from rel_to" "session_mount_tree E m w = Inr tree"
    using assms unfolding open_rename_def by (fastforce simp: and_then_Inr_iff split: if_split_asm)
  then show "m \<in> set (session_mounts ns w)" "session_mount_tree E m w = Inr tree" "normalize_abs dst = Inr t"
    "\<exists>m'. longest_mount (session_mounts ns w) t = Inr m' \<and> mnt_path m' = mnt_path m" "rel_of (mnt_path m) t = Inr rel_to"
    "\<not> below rel_from rel_to" "\<not> below rel_to rel_from" "rel_from \<noteq> rel_to"
    using longest_mount_best by (auto simp: is_under_below)
qed

lemma forge_rename_Inr:
  assumes "forge_rename E now cap ns src dst expect w = Some (Inr moved, w')"
  obtains f t m rel_from rel_to tree w1 dest c' s where
    "open_rename E now cap ns src dst w = Inr ((f, t), m, (rel_from, rel_to), tree)"
    "record_observation E ns m rel_from tree w = Some (Inr (), w1)"
    "moved_rows E ns m f (rel_from, rel_to) tree w1 = Inr (rn_kind moved, rn_source moved, dest)"
    "overlay_rename ns (mnt_path m) rel_from rel_to dest (f_meta w1) = Inr ((), c')"
    "w' = w1\<lparr>f_meta := c', f_stats := s\<rparr>"
  using assms unfolding forge_rename_def
  by (auto simp: act_bind_Inr_iff meta_Inr split: if_split_asm prod.splits)

lemma bt_ok_fold_stage: "bt_ok (overlay c) \<Longrightarrow> bt_ok (overlay (fold (\<lambda>(p, i, x). stage ns m p (Some i) x) ds c))"
  by (induction ds arbitrary: c) (auto simp: stage_def)

lemma overlay_rename_keeps:
  assumes "overlay_rename ns mount from to dest c = Inr (u, c')"
  shows "mounts c' = mounts c" "observation_rows c' = observation_rows c" "bt_ok (overlay c) \<Longrightarrow> bt_ok (overlay c')"
proof -
  have c': "c' = stage ns mount from None False (fold (\<lambda>(p, i, x). stage ns mount p (Some i) x) dest
      (supersede ns mount to (supersede ns mount from c)))"
    using assms by (auto simp: overlay_rename_def Let_def split: if_split_asm)
  have f: "mounts (fold (\<lambda>(p, i, x). stage ns mount p (Some i) x) dest k) = mounts k \<and>
      observation_rows (fold (\<lambda>(p, i, x). stage ns mount p (Some i) x) dest k) = observation_rows k" for k
    by (induction dest arbitrary: k) (auto simp: stage_def)
  show "mounts c' = mounts c" "observation_rows c' = observation_rows c"
    using f by (simp_all add: c' stage_def supersede_def)
  assume "bt_ok (overlay c)"
  then have "bt_ok (overlay (supersede ns mount to (supersede ns mount from c)))" by (simp add: supersede_def)
  from bt_ok_fold_stage [OF this] show "bt_ok (overlay c')" by (simp add: c' stage_def)
qed

text \<open>
  What a move leaves covered. Its source stays covered by the tombstone, its destination when the destination itself is
  staged; anything else loses no row.
\<close>

lemma rename_shadows:
  assumes "overlay_rename ns mount from to dest c = Inr ((), c')" "bt_ok (overlay c)" "shadowed ns m p c"
    and "m = mount \<Longrightarrow> p = to \<or> below to p \<Longrightarrow> to \<in> fst ` set dest \<or> (\<forall>q. map_of (overlay c) (ns, mount, q) \<noteq> None \<longrightarrow> q \<noteq> to \<and> \<not> below to q)"
  shows "shadowed ns m p c'"
proof -
  note rows = overlay_rename_rows(1) [OF assms(1)]
  have c': "shadowed ns m p c' \<longleftrightarrow> (\<exists>q. renamed_row ns mount from to dest c (ns, m, q) \<noteq> None \<and> (q = p \<or> below q p))"
    using shadowed_iff [OF overlay_rename_keeps(3) [OF assms(1,2)]] by (simp add: rows)
  obtain q where q: "map_of (overlay c) (ns, m, q) \<noteq> None" "q = p \<or> below q p"
    using assms(3) shadowed_iff [OF assms(2)] by blast
  have dest: "renamed_row ns mount from to dest c (ns, mount, r) \<noteq> None" if "r \<in> fst ` set dest" for r
    using that dest_rows_dom [of ns mount dest ns mount r] by (auto simp: renamed_row_def)
  have tomb: "renamed_row ns mount from to dest c (ns, mount, from) \<noteq> None" by (simp add: renamed_row_def)
  consider "m \<noteq> mount" | "m = mount" "q = from \<or> below from q" | "m = mount" "q = to \<or> below to q"
    | "m = mount" "q \<noteq> from" "\<not> below from q" "q \<noteq> to" "\<not> below to q" by blast
  then show ?thesis
  proof cases
    case 1
    then show ?thesis using q unfolding c' renamed_row_def by auto
  next
    case 2
    then have "from = p \<or> below from p" using q(2) below_trans by blast
    then show ?thesis using 2 tomb unfolding c' by blast
  next
    case 3
    then have p: "p = to \<or> below to p" using q(2) below_trans by blast
    then have "to \<in> fst ` set dest" using assms(4) 3 q(1) by blast
    then show ?thesis using 3(1) p dest unfolding c' by blast
  next
    case 4
    then have "renamed_row ns mount from to dest c (ns, m, q) \<noteq> None" using q(1) dest [of q] by (auto simp: renamed_row_def)
    then show ?thesis using q(2) unfolding c' by blast
  qed
qed

lemma obs_inv_stats:
  assumes "obs_inv E ns w"
  shows "obs_inv E ns (w\<lparr>f_stats := s\<rparr>)"
  by (rule obs_inv_rows_stay [OF assms]) (simp_all add: obs_invD [OF assms])

lemma act_bind_Inl: "act_bind a k w = Some (Inl e, w') \<longleftrightarrow>
    a w = Some (Inl e, w') \<or> (\<exists>x w1. a w = Some (Inr x, w1) \<and> k x w1 = Some (Inl e, w'))"
  by (auto simp: act_bind_Some split: sum.splits)

lemma failed_rename_records:
  assumes "forge_rename E now cap ns src dst expect w = Some (Inl e, w')"
  shows "w' = w \<or> (\<exists>f t m rel_from rel_to tree r. open_rename E now cap ns src dst w = Inr ((f, t), m, (rel_from, rel_to), tree) \<and>
    record_observation E ns m rel_from tree w = Some (r, w'))"
proof (cases "open_rename E now cap ns src dst w")
  case (Inr ends)
  then obtain f t m rf rt tree where o: "open_rename E now cap ns src dst w = Inr ((f, t), m, (rf, rt), tree)" by (cases ends) auto
  have "\<exists>r. record_observation E ns m rf tree w = Some (r, w')"
    using assms unfolding forge_rename_def
    by (auto simp: act_bind_Inl o meta_Inl split: if_split_asm prod.splits)
  then show ?thesis using o by blast
qed (use assms in \<open>simp add: forge_rename_def act_bind_pure\<close>)

lemma moved_blob_lands:
  assumes "moved_rows E ns m f (rel_from, rel_to) tree w = Inr (kind, source, dest)" "kind = ''blob''"
  shows "rel_to \<in> fst ` set dest"
proof -
  obtain r where "(case r of ResolvedBlob i exec \<Rightarrow> Inr (''blob'', i, [(rel_to, i, exec)])
     | ResolvedTree i \<Rightarrow> and_then (collect_blobs (env_hash E) (objects w) [(i, [])] []) (\<lambda>files.
           Inr (''tree'', i, map (\<lambda>(rest, j, exec). (rel_to @ [slash] @ rest, j, exec))
             (fold (moved_row rel_from) (overlay_map (overlay_list (f_meta w) ns (mnt_path m))) files)))) = Inr (kind, source, dest)"
    using assms(1) unfolding moved_rows_def prod.case Let_def and_then_Inr_iff by blast
  then show ?thesis using assms(2) by (cases r) (auto simp: and_then_Inr_iff)
qed

lemma obs_inv_rename:
  assumes "forge_rename E now cap ns src dst expect w = Some (x, w')" "obs_inv E ns w"
    and "\<And>moved. x = Inr moved \<Longrightarrow> rn_kind moved = ''blob'' \<or> \<not> uncovers ns dst w"
  shows "obs_inv E ns w'"
proof (cases x)
  case (Inl e)
  then show ?thesis
    using failed_rename_records assms(1,2) recorded_inv(1) [OF assms(2) open_rename_ends(1,2)] by metis
next
  case (Inr moved)
  obtain f t m rf rt tree w1 dest c' s where o: "open_rename E now cap ns src dst w = Inr ((f, t), m, (rf, rt), tree)"
    and r: "record_observation E ns m rf tree w = Some (Inr (), w1)"
    and d: "moved_rows E ns m f (rf, rt) tree w1 = Inr (rn_kind moved, rn_source moved, dest)"
      "overlay_rename ns (mnt_path m) rf rt dest (f_meta w1) = Inr ((), c')"
    and w': "w' = w1\<lparr>f_meta := c', f_stats := s\<rparr>"
    by (rule forge_rename_Inr [OF assms(1) [unfolded Inr]]) blast
  note ends = open_rename_ends [OF o] and rec = recorded_inv [OF assms(2) open_rename_ends(1,2) [OF o] r]
  have blob: "rt \<in> fst ` set dest" if "rn_kind moved = ''blob''" by (rule moved_blob_lands [OF d(1) that])
  have "obs_inv E ns (w1\<lparr>f_meta := c'\<rparr>)"
  proof (rule obs_inv_frame [OF rec(1)])
    fix n p assume seen: "map_of (observation_rows (f_meta w1)) (ns, n, p) \<noteq> None" and cov: "shadowed ns n p (f_meta w1)"
    have "shadowed ns n p c'"
    proof (rule rename_shadows [OF d(2) obs_invD(1) [OF rec(1)] cov])
      assume n: "n = mnt_path m" "p = rt \<or> below rt p"
      then have "p \<noteq> rf" using ends(7,8) by blast
      then have "map_of (observation_rows (f_meta w)) (ns, mnt_path m, p) \<noteq> None" using seen n(1) rec(2) by auto
      then have "\<not> uncovers ns dst w \<Longrightarrow> map_of (overlay (f_meta w)) (ns, mnt_path m, q) \<noteq> None \<Longrightarrow> q \<noteq> rt \<and> \<not> below rt q" for q
        using n(2) ends(3-5) unfolding uncovers_def by metis
      then show "rt \<in> fst ` set dest \<or> (\<forall>q. map_of (overlay (f_meta w1)) (ns, mnt_path m, q) \<noteq> None \<longrightarrow> q \<noteq> rt \<and> \<not> below rt q)"
        using blob assms(3) [OF Inr] rec(3) by auto
    qed
    then show "shadowed ns n p (f_meta (w1\<lparr>f_meta := c'\<rparr>))" by simp
  qed (use overlay_rename_keeps [OF d(2)] obs_invD [OF rec(1)] in \<open>simp_all add: session_mounts_def list_mounts_def\<close>)
  then show ?thesis using obs_inv_stats [of E ns "w1\<lparr>f_meta := c'\<rparr>" s] by (simp add: w')
qed

lemma obs_inv_mount:
  assumes "forge_mount E now cap ns path spec rw w = Some (u, w')" "obs_inv E ns w"
    and "set (session_mounts ns w) \<subseteq> set (session_mounts ns w')"
  shows "obs_inv E ns w'"
proof (cases u)
  case (Inl e)
  then have "w' = w"
    using assms(1)
    by (auto simp: forge_mount_def act_bind_pure meta_Some insert_mount_def begin_tx_def mount_modes_def split: sum.splits if_split_asm)
  then show ?thesis using assms(2) by simp
next
  case (Inr x)
  then obtain p i where w': "w' = w\<lparr>f_meta := (f_meta w)\<lparr>mounts := bt_insert (ns, p)
      \<lparr>m_spec = spec, m_mode = (if rw then ''rw'' else ''ro''), m_base_oid = (if rw then Some i else None)\<rparr> (mounts (f_meta w))\<rparr>\<rparr>"
    using forge_mount_Inr assms(1) by blast
  show ?thesis
    by (rule obs_inv_frame [OF assms(2) _ assms(3)]) (use obs_invD [OF assms(2)] in \<open>auto simp: w' shadowed_def overlay_list_def\<close>)
qed

lemma obs_inv_step:
  assumes "session_step E cap ns w w'" "obs_inv E ns w"
  shows "obs_inv E ns w'"
  using assms(1)
proof cases
  case (session_read now path r)
  then show ?thesis using forge_read_records obs_inv_records assms(2) by blast
next
  case (session_ls now path l)
  then show ?thesis using forge_ls_records obs_inv_records assms(2) by blast
next
  case (session_write now path d exec i)
  then show ?thesis
    using assms(2) unfolding forge_write_def
    by (auto simp: act_bind_pure act_bind_Some stored_Some split: sum.splits dest!: put_blob_grows
        intro: obs_inv_store obs_inv_upsert [of ns _ _ _ _ _ _ _ w])
next
  case (session_delete now path u)
  then show ?thesis
    using assms(2) unfolding forge_delete_def
    by (auto simp: act_bind_pure split: sum.splits intro: obs_inv_upsert)
next
  case (session_rename now src dst expect x)
  then show ?thesis using obs_inv_rename assms(2) by blast
next
  case (session_mount now path spec rw u)
  then show ?thesis using obs_inv_mount assms(2) by blast
next
  case session_others
  then have o: "others_move ns w w'" .
  show ?thesis
  proof (rule obs_inv_frame [OF assms(2)])
    fix m p assume "shadowed ns m p (f_meta w)"
    moreover have "bt_ok (overlay (f_meta w'))" using o by (simp add: others_move_def)
    ultimately show "shadowed ns m p (f_meta w')"
      using o by (auto simp: shadowed_iff obs_invD(1) [OF assms(2)] others_move_def)
  qed (use o in \<open>auto simp: others_move_def\<close>)
qed

section \<open>The check before a checkin\<close>

text \<open>The cache of overlays holds what the catalog has; loading one more keeps it so.\<close>

definition cached :: "string \<Rightarrow> Forge \<Rightarrow> (string, Overlay) btree \<Rightarrow> bool" where
  "cached ns w cache \<longleftrightarrow> (\<forall>k ov. map_of cache k = Some ov \<longrightarrow> ov = overlay_map (overlay_list (f_meta w) ns k))"

lemma load_overlay:
  assumes "cached ns w cache"
  shows "\<exists>cache'. (case map_of cache k of Some ov \<Rightarrow> (ov, cache)
      | None \<Rightarrow> (let ov = overlay_map (overlay_list (f_meta w) ns k) in (ov, bt_insert k ov cache))) =
        (overlay_map (overlay_list (f_meta w) ns k), cache') \<and> cached ns w cache'"
  using assms by (auto simp: cached_def Let_def split: option.splits)

lemma check_observation_ok:
  assumes "List.find (\<lambda>m. mnt_path m = mount) ms = Some m" "seen_ok E ns w m path seen" "cached ns w cache"
  shows "\<exists>cache'. check_observation E ns ms (mount, path, seen) cache w = Some (Inr cache', w) \<and> cached ns w cache'"
proof -
  obtain cache' where load: "(case map_of cache (mnt_path m) of Some ov \<Rightarrow> (ov, cache)
      | None \<Rightarrow> (let ov = overlay_map (overlay_list (f_meta w) ns (mnt_path m)) in (ov, bt_insert (mnt_path m) ov cache))) =
        (overlay_map (overlay_list (f_meta w) ns (mnt_path m)), cache')" "cached ns w cache'"
    using load_overlay [OF assms(3)] by blast
  have "check_observation E ns ms (mount, path, seen) cache w = Some (Inr cache', w)"
    using assms(2) unfolding check_observation_def assms(1) prod.case option.case act_bind_Inr_iff act_of_Some load(1)
    by (auto simp: seen_ok_def shadowed_def act_bind_Inr_iff)
  then show ?thesis using load(2) by blast
qed

lemma check_observations_ok:
  assumes "\<And>mount path seen. (mount, path, seen) \<in> set obs \<Longrightarrow>
      \<exists>m. List.find (\<lambda>m. mnt_path m = mount) ms = Some m \<and> seen_ok E ns w m path seen"
    and "cached ns w cache"
  shows "\<exists>cache'. act_fold (check_observation E ns ms) obs cache w = Some (Inr cache', w)"
  using assms
proof (induction obs arbitrary: cache)
  case (Cons x obs)
  obtain mount path seen where x: "x = (mount, path, seen)" by (cases x)
  obtain m where m: "List.find (\<lambda>m. mnt_path m = mount) ms = Some m" "seen_ok E ns w m path seen"
    using Cons.prems(1) [of mount path seen] x by auto
  obtain c1 where c1: "check_observation E ns ms x cache w = Some (Inr c1, w)" "cached ns w c1"
    using check_observation_ok [OF m Cons.prems(2)] x by blast
  obtain c2 where "act_fold (check_observation E ns ms) obs c1 w = Some (Inr c2, w)"
    using Cons.IH [of c1] Cons.prems(1) c1(2) by auto
  then show ?case using c1(1) by (auto simp: act_bind_Inr_iff)
qed simp

lemma find_path: "distinct (map mnt_path ms) \<Longrightarrow> m \<in> set ms \<Longrightarrow> List.find (\<lambda>x. mnt_path x = mnt_path m) ms = Some m"
  by (induction ms) (auto simp: image_iff)

lemma observations_mem:
  assumes "bt_ok (observation_rows c)"
  shows "(mount, path, seen) \<in> set (observations c ns) \<longleftrightarrow> map_of (observation_rows c) (ns, mount, path) = Some seen"
  using map_of_eq_Some_iff [OF bt_ok_distinct [OF assms]] by (force simp: observations_def)

text \<open>
  C15: The reads of a session never block its own checkin. Start from a session with no observations and let it read,
  list, write, delete, move and mount any number of times, with every other agent publishing objects and moving refs in
  between, where a directory is not moved over staged work the session has observed something in, and no mount
  is replaced. If what it read was read through pinned mounts, the check of observations before a checkin succeeds.
\<close>

theorem reads_never_block_checkin:
  assumes "(session_step E cap ns)\<^sup>*\<^sup>* w w'"
    and "bt_ok (overlay (f_meta w))" "bt_ok (observation_rows (f_meta w))" "bt_ok (mounts (f_meta w))"
    and "\<And>m p. map_of (observation_rows (f_meta w)) (ns, m, p) = None"
    and "\<And>mount path seen. (mount, path, seen) \<in> set (observations (f_meta w') ns) \<Longrightarrow>
      \<exists>m \<in> set (session_mounts ns w'). mnt_path m = mount \<and> pinned m"
  shows "check_observations E ns (session_mounts ns w') w' = Some (Inr (), w')"
proof -
  have "obs_inv E ns w" using assms(2-5) by (simp add: obs_inv_def)
  with assms(1) have inv: "obs_inv E ns w'" by (induction rule: rtranclp_induct) (auto intro: obs_inv_step)
  note ms = session_mounts_distinct [OF obs_invD(3) [OF inv], of ns]
  have ok: "\<exists>m. List.find (\<lambda>m. mnt_path m = mount) (session_mounts ns w') = Some m \<and> seen_ok E ns w' m path seen"
    if o: "(mount, path, seen) \<in> set (observations (f_meta w') ns)" for mount path seen
  proof -
    obtain m where m: "m \<in> set (session_mounts ns w')" "mnt_path m = mount" "pinned m" using assms(6) [OF o] by blast
    have "map_of (observation_rows (f_meta w')) (ns, mount, path) = Some seen"
      using o observations_mem obs_invD(2) [OF inv] by blast
    then obtain n where n: "n \<in> set (session_mounts ns w')" "mnt_path n = mount" "pinned n \<longrightarrow> seen_ok E ns w' n path seen"
      using inv unfolding obs_inv_def by blast
    have "n = m" using same_mount [OF obs_invD(3) [OF inv] n(1) m(1)] n(2) m(2) by simp
    then show ?thesis using find_path [OF ms m(1)] m(2,3) n(3) by auto
  qed
  obtain cache' where "act_fold (check_observation E ns (session_mounts ns w')) (observations (f_meta w') ns) [] w' = Some (Inr cache', w')"
    using check_observations_ok [of "observations (f_meta w') ns" "session_mounts ns w'" E ns w' "[]", OF ok] by (auto simp: cached_def)
  then show ?thesis by (simp add: check_observations_def act_bind_Inr_iff)
qed

section \<open>A move over the session's own staged work\<close>

text \<open>A check of one observation returns, leaves the repository alone when it passes, and keeps the cache right.\<close>

lemma check_observation_total:
  assumes "cached ns w cache"
  shows "(\<exists>e w''. check_observation E ns ms x cache w = Some (Inl e, w'')) \<or>
    (\<exists>cache'. check_observation E ns ms x cache w = Some (Inr cache', w) \<and> cached ns w cache')"
proof -
  obtain mount path seen where x: "x = (mount, path, seen)" by (cases x)
  show ?thesis
  proof (cases "List.find (\<lambda>m. mnt_path m = mount) ms")
    case None
    then show ?thesis using assms by (simp add: x check_observation_def act_ret_def)
  next
    case (Some m)
    then show ?thesis
      using load_overlay [OF assms, of "mnt_path m"]
      by (auto simp: x check_observation_def act_bind_def act_of_def act_ret_def counted_def fail_def split: sum.splits)
  qed
qed

lemma check_observation_stale:
  assumes "List.find (\<lambda>m. mnt_path m = mount) ms = Some m" "\<not> shadowed ns (mnt_path m) path (f_meta w)"
    and "session_mount_tree E m w = Inr t" "current_at (tree_reader E w) t path = Inr cur" "cur \<noteq> seen" "cached ns w cache"
  shows "\<exists>e w''. check_observation E ns ms (mount, path, seen) cache w = Some (Inl e, w'')"
  using assms(1-5) load_overlay [OF assms(6), of "mnt_path m"]
  by (auto simp: check_observation_def act_bind_def act_of_def counted_def fail_def shadowed_def)

lemma check_observations_stale:
  assumes "x \<in> set obs" "\<And>cache. cached ns w cache \<Longrightarrow> \<exists>e w''. check_observation E ns ms x cache w = Some (Inl e, w'')"
    and "cached ns w cache"
  shows "\<exists>e w''. act_fold (check_observation E ns ms) obs cache w = Some (Inl e, w'')"
  using assms(1,3)
proof (induction obs arbitrary: cache)
  case (Cons y obs)
  from check_observation_total [where E = E and ms = ms and x = y, OF Cons.prems(2)]
  show ?case
  proof (elim disjE exE conjE)
    fix e w'' assume "check_observation E ns ms y cache w = Some (Inl e, w'')"
    then show ?case by (auto simp: act_bind_Inl)
  next
    fix cache' assume c: "check_observation E ns ms y cache w = Some (Inr cache', w)" "cached ns w cache'"
    then have "y \<noteq> x" using assms(2) [OF Cons.prems(2)] by auto
    then have "\<exists>e w''. act_fold (check_observation E ns ms) obs cache' w = Some (Inl e, w'')"
      using Cons.prems(1) c(2) by (intro Cons.IH) auto
    then show ?case using c(1) by (auto simp: act_bind_Inl)
  qed
qed simp

lemma renamed_uncovered:
  assumes "overlay_rename ns mount from to dest c = Inr ((), c')" "bt_ok (overlay c)"
    and "q = to \<or> below to q" "\<not> below from to" "\<not> below to from" "from \<noteq> to"
    and "\<And>r. r \<in> fst ` set dest \<Longrightarrow> r \<noteq> q \<and> \<not> below r q"
  shows "\<not> shadowed ns mount q c'"
proof
  assume "shadowed ns mount q c'"
  then obtain r where r: "renamed_row ns mount from to dest c (ns, mount, r) \<noteq> None" "r = q \<or> below r q"
    using shadowed_iff [OF overlay_rename_keeps(3) [OF assms(1,2)]] by (auto simp: overlay_rename_rows(1) [OF assms(1)])
  have rt: "r = to \<or> below r to \<or> below to r" using r(2) assms(3) below_cases by blast
  then have "r \<noteq> from" using assms(4-6) by blast
  then have k: "has_row (ns, mount, r) (overlay c)" "r \<noteq> to" "\<not> below to r" "\<not> below from r"
    using r assms(7) by (auto simp: renamed_row_def has_row_def split: if_split_asm)
  then show False using overlay_rename_rows(2) [OF assms(1) k(1,2) \<open>r \<noteq> from\<close> k(3,4)] rt by blast
qed

text \<open>
  C40: A move can block the session's own checkin. When a directory is moved over a path the session has observed, no moved file
  covers that path, and the pinned tree does not show there what the session saw (because the session saw its own
  staged work), the check of observations fails after the move, though no one else has done anything.
\<close>

theorem rename_can_block_checkin:
  assumes "forge_rename E now cap ns src dst expect w = Some (Inr moved, w')"
    and "open_rename E now cap ns src dst w = Inr ((from_abs, to_abs), m, (rel_from, rel_to), tree)"
    and "moved_rows E ns m from_abs (rel_from, rel_to) tree w = Inr (kind, source, dest)"
    and "map_of (observation_rows (f_meta w)) (ns, mnt_path m, q) = Some seen" "q = rel_to \<or> below rel_to q"
    and "\<And>r. r \<in> fst ` set dest \<Longrightarrow> r \<noteq> q \<and> \<not> below r q"
    and "pinned m" "current_at (tree_reader E w) tree q = Inr cur" "cur \<noteq> seen"
    and "bt_ok (overlay (f_meta w))" "bt_ok (observation_rows (f_meta w))" "bt_ok (mounts (f_meta w))"
  shows "\<exists>e w''. check_observations E ns (session_mounts ns w') w' = Some (Inl e, w'')"
proof -
  obtain w1 dest' c' s where r: "record_observation E ns m rel_from tree w = Some (Inr (), w1)"
    and d: "moved_rows E ns m from_abs (rel_from, rel_to) tree w1 = Inr (rn_kind moved, rn_source moved, dest')"
      "overlay_rename ns (mnt_path m) rel_from rel_to dest' (f_meta w1) = Inr ((), c')"
    and w': "w' = w1\<lparr>f_meta := c', f_stats := s\<rparr>"
    by (rule forge_rename_Inr [OF assms(1)]) (use assms(2) in auto)
  note ends = open_rename_ends [OF assms(2)]
  obtain c1 seen1 where c1: "observe ns (mnt_path m) rel_from seen1 (f_meta w) = Inr ((), c1)" "w1 = w\<lparr>f_meta := c1\<rparr>"
    using r by (auto simp: record_observation_def act_bind_Inr_iff meta_Inr)
  note rows = observe_rows [OF c1(1)] and keeps = overlay_rename_keeps [OF d(2)]
  have ms: "session_mounts ns w' = session_mounts ns w" "session_mounts ns w1 = session_mounts ns w"
    using rows(3) keeps(1) by (simp_all add: session_mounts_def list_mounts_def w' c1(2))
  have "moved_rows E ns m from_abs (rel_from, rel_to) tree w1 = moved_rows E ns m from_abs (rel_from, rel_to) tree w"
    using ms(2) rows(2) by (simp add: moved_rows_def c1(2) overlay_list_def)
  then have dest: "dest' = dest" using d(1) assms(3) by simp
  have "\<not> shadowed ns (mnt_path m) q c'"
    using renamed_uncovered [OF d(2) _ assms(5) ends(6-8)] assms(6,10) rows(2) by (simp add: c1(2) dest)
  then have sh: "\<not> shadowed ns (mnt_path m) q (f_meta w')" by (simp add: w')
  have tree: "session_mount_tree E m w' = Inr tree"
    using ends(2) assms(7) by (auto simp: session_mount_tree_def pinned_def w' c1(2))
  have cur: "current_at (tree_reader E w') tree q = Inr cur" using assms(8) by (simp add: w' c1(2))
  have "q \<noteq> rel_from" using assms(5) ends(7,8) by blast
  then have "map_of (observation_rows (f_meta w')) (ns, mnt_path m, q) = Some seen"
    using assms(4) rows(1) keeps(2) by (simp add: w' c1(2))
  moreover have "bt_ok (observation_rows (f_meta w'))"
    using assms(11) c1(1) keeps(2) by (auto simp: w' c1(2) observe_def begin_tx_def split: if_split_asm)
  ultimately have mem: "(mnt_path m, q, seen) \<in> set (observations (f_meta w') ns)" by (simp add: observations_mem)
  have "List.find (\<lambda>x. mnt_path x = mnt_path m) (session_mounts ns w') = Some m"
    using find_path session_mounts_distinct [OF assms(12)] ends(1) ms(1) by metis
  from check_observation_stale [OF this sh tree cur assms(9)]
  have "\<exists>e w''. act_fold (check_observation E ns (session_mounts ns w')) (observations (f_meta w') ns) [] w' = Some (Inl e, w'')"
    by (intro check_observations_stale [OF mem]) (auto simp: cached_def)
  then show ?thesis by (auto simp: check_observations_def act_bind_Inl)
qed

end
