(* ===== verification/Checkin.thy ===== *)
theory Checkin
  imports Workspace_Reads
begin

text \<open>
  The checkin verb: what it publishes is the session's overlay folded onto the mount's pin, the ref it advances is the
  one the mount names, and it answers \<open>Noop\<close> only when no mount of the session holds work.
\<close>

section \<open>Growth of the store\<close>

definition act_keeps :: "('st \<Rightarrow> 'st \<Rightarrow> bool) \<Rightarrow> ('e, 'a, 'st) act \<Rightarrow> bool" where
  "act_keeps R m \<longleftrightarrow> (\<forall>st r st'. m st = Some (r, st') \<longrightarrow> R st st')"

lemma act_keeps_pure: "reflp R \<Longrightarrow> act_keeps R (act_of f)" "reflp R \<Longrightarrow> act_keeps R (act_ret x)"
  by (auto simp: act_keeps_def reflp_def)

lemma act_keeps_bind:
  assumes "transp R" "act_keeps R m" "\<And>x. act_keeps R (f x)"
  shows "act_keeps R (act_bind m f)"
  using assms unfolding act_keeps_def act_bind_Some transp_def by blast

lemma act_keeps_fold:
  assumes "reflp R" "transp R" "\<And>x a. x \<in> set xs \<Longrightarrow> act_keeps R (f x a)"
  shows "act_keeps R (act_fold f xs a)"
  using assms(3)
proof (induction xs arbitrary: a)
  case Nil
  then show ?case using assms(1) by (simp add: act_keeps_pure)
next
  case (Cons x xs)
  then show ?case using assms(2) by (auto intro!: act_keeps_bind)
qed

lemma apply_level_keeps:
  assumes "reflp R" "transp R" "\<And>t st r st'. put t st = (r, st') \<Longrightarrow> R st st'"
  shows "act_keeps R (apply_level get put fuel base pre ov)"
proof (induction fuel arbitrary: base pre ov)
  case 0
  then show ?case by (simp add: act_keeps_def)
next
  case (Suc fuel)
  have put: "act_keeps R (\<lambda>st. Some (put t st))" for t using assms(3) by (auto simp: act_keeps_def)
  show ?case
    unfolding apply_level.simps Let_def
    by (auto split: prod.split intro!: act_keeps_bind [OF assms(2)] act_keeps_fold [OF assms(1,2)] act_keeps_pure [OF assms(1)] Suc put)
qed

definition pub_grows :: "Publication \<Rightarrow> Publication \<Rightarrow> bool" where
  "pub_grows p p' \<longleftrightarrow> store_grows (p_store p) (p_store p') \<and> p_seen p \<subseteq> p_seen p'"

lemma pub_grows_order: "reflp pub_grows" "transp pub_grows"
  unfolding pub_grows_def by (auto simp: reflp_def transp_def intro: store_grows_trans)

lemma batch_put_grows:
  assumes "batch_put H bs (p_store p, p_batch p) = (r, (st, b))"
  shows "pub_grows p (p\<lparr>p_store := st, p_batch := b, p_seen := insert bs (p_seen p)\<rparr>)"
  using put_parts_keeps [OF assms [unfolded batch_put_def]] by (auto simp: pub_grows_def store_grows_def)

lemma batch_put_tree_grows: "batch_put_tree H t p = (r, p') \<Longrightarrow> pub_grows p p'"
  using batch_put_grows pub_grows_order(1)
  by (auto simp: batch_put_tree_def reflp_def split: sum.splits prod.splits)

lemma batch_put_bytes_grows: "act_keeps pub_grows (batch_put_bytes H bs)"
  using batch_put_grows by (auto simp: act_keeps_def batch_put_bytes_def split: prod.splits)

lemma fold_overlay_grows: "act_keeps pub_grows (fold_overlay E base ov)"
  unfolding fold_overlay_def apply_overlay_def
  by (rule apply_level_keeps [OF pub_grows_order]) (rule batch_put_tree_grows)

definition forge_grows :: "Forge \<Rightarrow> Forge \<Rightarrow> bool" where
  "forge_grows w w' \<longleftrightarrow> store_grows (objects w) (objects w') \<and> l_seen (f_store w) \<subseteq> l_seen (f_store w')"

lemma forge_grows_order: "reflp forge_grows" "transp forge_grows"
  unfolding forge_grows_def by (auto simp: reflp_def transp_def intro: store_grows_trans)

lemma forge_grows_refl [simp]: "forge_grows w w"
  using forge_grows_order(1) by (simp add: reflp_def)

lemma forge_grows_trans: "forge_grows a b \<Longrightarrow> forge_grows b c \<Longrightarrow> forge_grows a c"
  using forge_grows_order(2) by (blast dest: transpD)

lemma log_good_before: "forge_grows w w' \<Longrightarrow> log_good H (f_store w') \<Longrightarrow> log_good H (f_store w)"
  unfolding log_good_def forge_grows_def store_grows_def ran_def by (erule inj_on_subset) auto

lemma batched_Some:
  "batched b f w = Some (Inr (x, b'), w') \<longleftrightarrow>
    (\<exists>p. f \<lparr>p_store = objects w, p_batch = b, p_seen = l_seen (f_store w)\<rparr> = Some (Inr x, p) \<and> b' = p_batch p \<and>
      w' = w\<lparr>f_store := \<lparr>l_store = p_store p, l_seen = p_seen p\<rparr>\<rparr>)"
proof -
  have "map_sum id (\<lambda>x. (x, p_batch p)) r = Inr (x, b') \<longleftrightarrow> r = Inr x \<and> b' = p_batch p" for r :: "error + 'a" and p
    by (cases r) auto
  then show ?thesis by (auto simp: batched_def)
qed

lemma batched_grows: "act_keeps pub_grows f \<Longrightarrow> batched b f w = Some (Inr (x, b'), w') \<Longrightarrow> forge_grows w w' \<and> f_meta w' = f_meta w"
  by (fastforce simp: batched_Some act_keeps_def pub_grows_def forge_grows_def)

section \<open>The steps of a checkin\<close>

lemma check_observation_state:
  assumes "check_observation E ns ms x cache w = Some (Inr cache', w')"
  shows "w' = w"
  using assms by (auto simp: check_observation_def act_bind_Inr_iff split: prod.splits option.splits if_split_asm)

lemma act_fold_unchanged:
  assumes "\<And>x a a' w w'. f x a w = Some (Inr a', w') \<Longrightarrow> w' = w" "act_fold f xs a w = Some (Inr a', w')"
  shows "w' = w"
  using assms(2)
proof (induction xs arbitrary: a w)
  case (Cons x xs)
  then obtain a1 w1 where "f x a w = Some (Inr a1, w1)" "act_fold f xs a1 w1 = Some (Inr a', w')" by (auto simp: act_bind_Inr_iff)
  then show ?case using Cons.IH assms(1) by blast
qed simp

lemma check_observations_state: "check_observations E ns ms w = Some (Inr u, w') \<Longrightarrow> w' = w"
  unfolding check_observations_def act_bind_Inr_iff
  using act_fold_unchanged [of "check_observation E ns ms", OF check_observation_state] by fastforce

lemma open_checkin_Inr:
  assumes "open_checkin E now cap ns mount w = Inr (m, n, pin, row, base)"
  shows "m \<in> set (session_mounts ns w) \<and> mnt_mode m = Rw \<and> parse_spec (mnt_spec m) = Inr (SpecRef n) \<and> mnt_base_oid m = Some pin \<and>
    get_ref (f_meta w) n = Some row \<and> get_commit (env_hash E) pin (objects w) = Inr base \<and>
    check E now cap Op.Write (Some n) w = Inr () \<and> is_ok (require_ns cap ns w)"
proof -
  obtain r m' s where r: "require_ns cap ns w = Inr r" "named_mount (session_mounts ns w) mount = Inr m'" "mnt_mode m' = Rw"
      "parse_spec (mnt_spec m') = Inr s"
    using assms by (auto simp: open_checkin_def and_then_Inr_iff)
  have "m' \<in> set (session_mounts ns w)"
    using r(2) by (auto simp: named_mount_def and_then_Inr_iff ok_or_Inr_iff find_Some_iff)
  then show ?thesis
    using assms r by (cases s) (auto simp: open_checkin_def and_then_Inr_iff ok_or_Inr_iff is_ok_def)
qed

text \<open>The tree a checkin folds, and the state in which it goes on.\<close>

lemma forge_checkin_Inr:
  assumes "forge_checkin E now ulid cap ns mount msg w = Some (Inr res, w')"
  obtains m n pin row base new_tree b w1 where
    "open_checkin E now cap ns mount w = Inr (m, n, pin, row, base)"
    "batched begin_batch (fold_overlay E (c_tree base) (overlay_map (overlay_list (f_meta w) ns (mnt_path m)))) w = Some (Inr (new_tree, b), w1)"
    "if new_tree = c_tree base \<and> pin = row_oid row
     then checkin_noop E ns (session_mounts ns w) m n pin row b w1 = Some (Inr res, w')
     else checkin_publish E now ulid cap ns m n pin (c_tree base) new_tree msg
       (overlay_list (f_meta w) ns (mnt_path m)) (observations (f_meta w) ns) b w1 = Some (Inr res, w')"
proof -
  obtain m n pin row base where o: "open_checkin E now cap ns mount w = Inr (m, n, pin, row, base)"
    using assms by (auto simp: forge_checkin_def act_bind_Inr_iff and_then_Inr_iff)
  obtain u w0 where c: "check_observations E ns (session_mounts ns w) w = Some (Inr u, w0)"
    "act_bind (batched begin_batch (fold_overlay E (c_tree base) (overlay_map (overlay_list (f_meta w) ns (mnt_path m))))) (\<lambda>(new_tree, b).
      if new_tree = c_tree base \<and> pin = row_oid row then checkin_noop E ns (session_mounts ns w) m n pin row b
      else checkin_publish E now ulid cap ns m n pin (c_tree base) new_tree msg
        (overlay_list (f_meta w) ns (mnt_path m)) (observations (f_meta w) ns) b) w0 = Some (Inr res, w')"
    using assms o by (auto simp: forge_checkin_def act_bind_Inr_iff)
  have "w0 = w" by (rule check_observations_state [OF c(1)])
  with c(2) obtain new_tree b w1 where
    "batched begin_batch (fold_overlay E (c_tree base) (overlay_map (overlay_list (f_meta w) ns (mnt_path m)))) w = Some (Inr (new_tree, b), w1)"
    "(if new_tree = c_tree base \<and> pin = row_oid row then checkin_noop E ns (session_mounts ns w) m n pin row b
      else checkin_publish E now ulid cap ns m n pin (c_tree base) new_tree msg
        (overlay_list (f_meta w) ns (mnt_path m)) (observations (f_meta w) ns) b) w1 = Some (Inr res, w')"
    by (auto simp: act_bind_Inr_iff)
  then show ?thesis using that [OF o] by (auto split: if_split_asm)
qed

section \<open>What was folded\<close>

lemma file_at_alike:
  assumes "\<And>i. g i s = h i t"
  shows "file_at g s r ps = file_at h t r ps"
  using assms by (induction g s r ps rule: file_at.induct) (auto split: sum.splits option.splits)

lemma file_at_batch: "file_at (batch_get_tree H) p r ps = file_at (get_tree H) (p_store p) r ps"
  by (rule file_at_alike) (simp add: batch_get_tree_def)

text \<open>The folded tree, read in any later store.\<close>

lemma folded_files:
  assumes "batched b (fold_overlay E base ov) w = Some (Inr (new_tree, b'), w1)"
    and "forge_grows w1 w'" "log_good (env_hash E) (f_store w')"
    and "bt_ok ov" "\<And>r. map_of ov (slash # r) = None" "names_ok ps"
  shows "file_at (get_tree (env_hash E)) (objects w') (Some new_tree) ps =
    overlay_spec (map_of ov) (file_at (get_tree (env_hash E)) (objects w') (Some base)) ps"
proof -
  let ?H = "env_hash E"
  obtain p where p: "fold_overlay E base ov \<lparr>p_store = objects w, p_batch = b, p_seen = l_seen (f_store w)\<rparr> = Some (Inr new_tree, p)"
    and w1: "w1 = w\<lparr>f_store := \<lparr>l_store = p_store p, l_seen = p_seen p\<rparr>\<rparr>"
    using assms(1) by (auto simp: batched_Some)
  have "log_good ?H (f_store w1)" by (rule log_good_before [OF assms(2,3)])
  then have good: "publication_good ?H p" by (simp add: w1 log_good_def publication_good_def)
  let ?p' = "\<lparr>p_store = objects w', p_batch = b, p_seen = {}\<rparr>"
  have "store_grows (p_store p) (objects w')" using assms(2) by (simp add: w1 forge_grows_def)
  then have "mem.extends ?H p ?p'"
    unfolding mem.extends_def batch_get_tree_def by (auto intro: grown_typed(4))
  then have "file_at (batch_get_tree ?H) ?p' (Some new_tree) ps = overlay_spec (map_of ov) (file_at (batch_get_tree ?H) ?p' (Some base)) ps"
    using mem.apply_level_ok [OF p [unfolded fold_overlay_def apply_overlay_def] assms(4) good] assms(5,6)
    by (auto simp: mem.level_ok_def child_prefix_def)
  then show ?thesis by (simp add: file_at_batch cong: overlay_spec_cong)
qed

section \<open>What is published\<close>

lemma batched_put_reads:
  assumes "batched b (batch_put_bytes (env_hash E) bs) w = Some (Inr (i, b'), w1)"
    and "forge_grows w1 w'" "log_good (env_hash E) (f_store w')"
  shows "store_get (env_hash E) i (objects w') = Inr bs"
proof -
  let ?p = "\<lparr>p_store = objects w, p_batch = b, p_seen = l_seen (f_store w)\<rparr>"
  obtain st b1 where put: "put_parts (env_hash E) [bs] (objects w, b) = (Inr i, (st, b1))"
    and w1: "w1 = w\<lparr>f_store := \<lparr>l_store = st, l_seen = insert bs (l_seen (f_store w))\<rparr>\<rparr>"
    using assms(1) by (auto simp: batched_Some batch_put_bytes_def batch_put_def split: prod.splits)
  obtain x where x: "i = env_hash E bs" "visible st i = Some x" "env_hash E x = i" using put_parts_Inr [OF put] by auto
  have good: "log_good (env_hash E) (f_store w1)" by (rule log_good_before [OF assms(2,3)])
  have "x \<in> ran (visible st)" using x(2) by (auto simp: ran_def)
  then have "x = bs" using inj_onD [OF good [unfolded log_good_def], of x bs] x(1,3) by (simp add: w1)
  then show ?thesis using x assms(2) by (auto simp: store_get_Inr forge_grows_def store_grows_def w1)
qed

lemma batch_put_contribution_grows: "act_keeps pub_grows (batch_put_contribution H c)"
  using batch_put_bytes_grows pub_grows_order(1)
  by (cases "contribution_encode c"; cases "the (contribution_encode c)")
     (auto simp: act_keeps_def batch_put_contribution_def reflp_def)

lemma batch_put_commit_bytes:
  assumes "batched b (batch_put_commit H c) w = Some (r, w')"
  obtains bs where "commit_encode c = Some bs" "batched b (batch_put_bytes H bs) w = Some (r, w')"
  using assms by (cases "commit_encode c") (auto simp: batched_def batch_put_commit_def)

lemma finish_batch_grows: "finish_batch b w = Some (r, w') \<Longrightarrow> forge_grows w w' \<and> f_meta w' = f_meta w"
  by (auto simp: finish_batch_def forge_grows_def store_grows_def)

lemma checkin_publish_Inr:
  assumes "checkin_publish E now ulid cap ns m n pin base_tree new_tree msg rows obs b w = Some (Inr res, w')"
  obtains contrib cid bs b1 b2 w1 w2 oids where
    "commit_encode \<lparr>c_tree = new_tree, c_parents = [pin], c_agent = agent_id cap, c_msg = msg, c_ts = now,
       c_landmark = False, c_contrib = Some contrib\<rparr> = Some bs"
    "batched b1 (batch_put_bytes (env_hash E) bs) w1 = Some (Inr (cid, b2), w2)"
    "forge_grows w w1" "forge_grows w2 w'"
    "cas_ref_session n pin cid (agent_id cap) (agent_id cap) ns (mnt_path m) oids ulid (uint now) (f_meta w) = Inr (res, f_meta w')"
proof -
  let ?c = "\<lparr>co_base = pin, co_tree = new_tree, co_parents = [pin], co_reads = checkin_reads obs,
    co_writes = checkin_writes (mnt_path m) rows, co_agent = agent_id cap, co_ts = now\<rparr>"
  let ?k = "\<lambda>contrib. \<lparr>c_tree = new_tree, c_parents = [pin], c_agent = agent_id cap, c_msg = msg, c_ts = now,
    c_landmark = False, c_contrib = Some contrib\<rparr>"
  obtain contrib b1 w1 cid b2 w2 w3 oids c' where
    put1: "batched b (batch_put_contribution (env_hash E) ?c) w = Some (Inr (contrib, b1), w1)"
    and put2: "batched b1 (batch_put_commit (env_hash E) (?k contrib)) w1 = Some (Inr (cid, b2), w2)"
    and fin: "finish_batch b2 w2 = Some (Inr (), w3)"
    and cas: "cas_ref_session n pin cid (agent_id cap) (agent_id cap) ns (mnt_path m) oids ulid (uint now) (f_meta w3) = Inr (res, c')"
      "w' = w3\<lparr>f_meta := c'\<rparr>"
    using assms
    by (auto simp: checkin_publish_def Let_def act_bind_Inr_iff meta_Inr split: if_split_asm)
  obtain bs where bs: "commit_encode (?k contrib) = Some bs" "batched b1 (batch_put_bytes (env_hash E) bs) w1 = Some (Inr (cid, b2), w2)"
    using batch_put_commit_bytes [OF put2] .
  have g: "forge_grows w w1" "f_meta w1 = f_meta w" "forge_grows w1 w2" "f_meta w2 = f_meta w1" "forge_grows w2 w3" "f_meta w3 = f_meta w2"
    using batched_grows [OF batch_put_contribution_grows put1] batched_grows [OF batch_put_bytes_grows bs(2)] finish_batch_grows [OF fin]
    by blast+
  have "forge_grows w3 w'" by (simp add: cas(2) forge_grows_def)
  then have "forge_grows w2 w'" using g forge_grows_trans by blast
  then show ?thesis using that [OF bs] g cas by simp
qed

text \<open>
  C1: A checkin publishes exactly the staged work of the mount it names. When it does not answer \<open>Noop\<close>, the new commit is
  stored, its only parent is the mount's pin, and each of its files is the staged one where the overlay stages
  it and the pinned tree's elsewhere; the ref the mount names is advanced to it only from the pin, a lost race puts it on
  a fork, and no other mount, session or ref is touched.
\<close>

theorem checkin_publishes_staged_work:
  assumes "forge_checkin E now ulid cap ns mount msg w = Some (Inr res, w')"
    and "log_good (env_hash E) (f_store w')" and "valid_str msg" "valid_str (agent_id cap)"
    and "\<And>k r. map_of (overlay_map (overlay_list (f_meta w) ns k)) (slash # r) = None"
  shows "\<exists>m n pin row base. open_checkin E now cap ns mount w = Inr (m, n, pin, row, base) \<and>
    (res = Noop n pin \<or>
     (\<exists>cid commit. get_commit (env_hash E) cid (objects w') = Inr commit \<and> c_parents commit = [pin] \<and> c_agent commit = agent_id cap \<and>
       checkin_spec n pin cid ns (mnt_path m) (session_fork_name n (agent_id cap) ulid) (f_meta w) res (f_meta w') \<and>
       (\<forall>ps. names_ok ps \<longrightarrow>
         file_at (get_tree (env_hash E)) (objects w') (Some (c_tree commit)) ps =
         overlay_spec (map_of (overlay_map (overlay_list (f_meta w) ns (mnt_path m))))
           (file_at (get_tree (env_hash E)) (objects w') (Some (c_tree base))) ps)))"
proof -
  obtain m n pin row base new_tree b w1 where o: "open_checkin E now cap ns mount w = Inr (m, n, pin, row, base)"
    and f: "batched begin_batch (fold_overlay E (c_tree base) (overlay_map (overlay_list (f_meta w) ns (mnt_path m)))) w = Some (Inr (new_tree, b), w1)"
    and k: "if new_tree = c_tree base \<and> pin = row_oid row
     then checkin_noop E ns (session_mounts ns w) m n pin row b w1 = Some (Inr res, w')
     else checkin_publish E now ulid cap ns m n pin (c_tree base) new_tree msg
       (overlay_list (f_meta w) ns (mnt_path m)) (observations (f_meta w) ns) b w1 = Some (Inr res, w')"
    using forge_checkin_Inr [OF assms(1)] by metis
  have meta: "f_meta w1 = f_meta w" using batched_grows [OF fold_overlay_grows f] by blast
  show ?thesis
  proof (cases "new_tree = c_tree base \<and> pin = row_oid row")
    case True
    then have "res = Noop n pin"
      using k by (auto simp: checkin_noop_def act_bind_Inr_iff split: if_split_asm)
    then show ?thesis using o by blast
  next
    case False
    then have "checkin_publish E now ulid cap ns m n pin (c_tree base) new_tree msg
       (overlay_list (f_meta w) ns (mnt_path m)) (observations (f_meta w) ns) b w1 = Some (Inr res, w')" using k by simp
    then obtain contrib cid bs b1 b2 w2 w3 oids where
      bs: "commit_encode \<lparr>c_tree = new_tree, c_parents = [pin], c_agent = agent_id cap, c_msg = msg, c_ts = now,
         c_landmark = False, c_contrib = Some contrib\<rparr> = Some bs"
      and put: "batched b1 (batch_put_bytes (env_hash E) bs) w2 = Some (Inr (cid, b2), w3)"
      and g: "forge_grows w1 w2" "forge_grows w3 w'"
      and cas: "cas_ref_session n pin cid (agent_id cap) (agent_id cap) ns (mnt_path m) oids ulid (uint now) (f_meta w1) = Inr (res, f_meta w')"
      by (rule checkin_publish_Inr)
    let ?commit = "\<lparr>c_tree = new_tree, c_parents = [pin], c_agent = agent_id cap, c_msg = msg, c_ts = now,
       c_landmark = False, c_contrib = Some contrib\<rparr>"
    have "commit_decode bs = Inr ?commit" using bs assms(3,4) by (simp add: commit_decode_iff commit_ok_def max_commit_parents_def)
    then have c: "get_commit (env_hash E) cid (objects w') = Inr ?commit"
      using batched_put_reads [OF put g(2) assms(2)] by (simp add: get_commit_def)
    have "forge_grows w1 w'"
      using forge_grows_trans [OF g(1) forge_grows_trans [OF _ g(2)]] batched_grows [OF batch_put_bytes_grows put] by blast
    note files = folded_files [OF f this assms(2) overlay_map_ok assms(5)]
    show ?thesis using o c files session_checkin_spec [OF cas] unfolding meta by (intro exI conjI disjI2) (auto simp: o)
  qed
qed

section \<open>Noop\<close>

lemma group_count_keys: "fst ` set (group_count xs) = set xs"
proof (induction xs)
  case (Cons x xs)
  show ?case
  proof (cases "group_count xs")
    case Nil
    then show ?thesis using Cons by simp
  next
    case (Cons y ys)
    then show ?thesis using Cons.IH by (cases y) auto
  qed
qed simp

lemma staged_outside:
  assumes "map_of (overlay c) (ns, k, p) \<noteq> None" "k \<noteq> except"
  shows "\<exists>cnt. (k, cnt) \<in> set (overlay_mounts_outside c ns except)"
proof -
  obtain v where "((ns, k, p), v) \<in> set (overlay c)" using assms(1) by (auto dest: map_of_SomeD)
  then have "k \<in> set (map (\<lambda>((_, m, _), _). m) (filter (\<lambda>((n, m, _), _). n = ns \<and> m \<noteq> except) (overlay c)))"
    using assms(2) by force
  then have "k \<in> fst ` set (overlay_mounts_outside c ns except)" by (simp only: overlay_mounts_outside_def group_count_keys)
  then show ?thesis by (auto simp: image_iff)
qed

lemma mount_changes_meta:
  assumes "mount_overlay_changes_its_base E ns k ms b v = Some (Inr (real, b'), v')"
  shows "forge_grows v v' \<and> f_meta v' = f_meta v"
  using assms batched_grows [OF fold_overlay_grows]
  by (auto simp: mount_overlay_changes_its_base_def act_bind_Inr_iff split: option.splits)

text \<open>Every other mount was asked, in a state the answer still sees.\<close>

lemma stranded_none:
  assumes "act_fold (stranded_step E ns ms) others (found, b) v = Some (Inr ([], b'), v')"
  shows "found = [] \<and> forge_grows v v' \<and> f_meta v' = f_meta v \<and> (\<forall>(k, cnt) \<in> set others.
    \<exists>b1 b2 v1 v2. mount_overlay_changes_its_base E ns k ms b1 v1 = Some (Inr (False, b2), v2) \<and> f_meta v1 = f_meta v \<and>
      forge_grows v2 v')"
  using assms
proof (induction others arbitrary: found b v)
  case (Cons x others)
  obtain k cnt where x: "x = (k, cnt)" by (cases x)
  obtain real b1 v1 where one: "mount_overlay_changes_its_base E ns k ms b v = Some (Inr (real, b1), v1)"
    and rest: "act_fold (stranded_step E ns ms) others (if real then found @ [(k, cnt)] else found, b1) v1 = Some (Inr ([], b'), v')"
    using Cons.prems by (auto simp: act_bind_Inr_iff stranded_step_def x)
  note IH = Cons.IH [OF rest]
  have "\<not> real" "found = []" using IH by (auto split: if_split_asm)
  moreover have "forge_grows v v1" "f_meta v1 = f_meta v" using mount_changes_meta [OF one] by auto
  ultimately show ?case using IH one x forge_grows_trans [of v v1 v'] by auto
qed simp

text \<open>A mount whose staged rows change no file of its pinned commit.\<close>

definition holds_no_work :: "Env \<Rightarrow> string \<Rightarrow> Forge \<Rightarrow> Forge \<Rightarrow> string \<Rightarrow> bool" where
  "holds_no_work E ns w w' k \<longleftrightarrow> (\<exists>m base c. m \<in> set (session_mounts ns w) \<and> mnt_path m = k \<and> mnt_base_oid m = Some base \<and>
    get_commit (env_hash E) base (objects w') = Inr c \<and>
    (\<forall>ps. names_ok ps \<longrightarrow>
      overlay_spec (map_of (overlay_map (overlay_list (f_meta w) ns k))) (file_at (get_tree (env_hash E)) (objects w') (Some (c_tree c))) ps =
      file_at (get_tree (env_hash E)) (objects w') (Some (c_tree c)) ps))"

lemma unchanged_holds_no_work:
  assumes "mount_overlay_changes_its_base E ns k (session_mounts ns w) b v = Some (Inr (False, b'), v')" "f_meta v = f_meta w"
    and "forge_grows v' w'" "log_good (env_hash E) (f_store w')"
    and "\<And>r. map_of (overlay_map (overlay_list (f_meta w) ns k)) (slash # r) = None" "overlay_list (f_meta w) ns k \<noteq> []"
  shows "holds_no_work E ns w w' k"
proof -
  obtain m base where m: "List.find (\<lambda>m. mnt_path m = k) (session_mounts ns w) = Some m" "mnt_base_oid m = Some base"
    using assms(1) by (auto simp: mount_overlay_changes_its_base_def Option.bind_eq_Some_conv split: option.splits)
  have mem: "m \<in> set (session_mounts ns w)" "mnt_path m = k" using m(1) by (auto simp: find_Some_iff)
  obtain c where c: "get_commit (env_hash E) base (objects v) = Inr c"
      "batched b (fold_overlay E (c_tree c) (overlay_map (overlay_list (f_meta w) ns k))) v = Some (Inr (c_tree c, b'), v')"
    using assms(1,2,6) m by (auto simp: mount_overlay_changes_its_base_def act_bind_Inr_iff and_then_Inr_iff)
  have "forge_grows v w'" using batched_grows [OF fold_overlay_grows c(2)] forge_grows_trans assms(3) by blast
  then have "get_commit (env_hash E) base (objects w') = Inr c" using grown_typed(2) c(1) by (auto simp: forge_grows_def)
  then show ?thesis
    using mem m(2) folded_files [OF c(2) assms(3,4) overlay_map_ok assms(5)] unfolding holds_no_work_def by metis
qed

lemma cas_never_noop: "cas_ref_session n pin cid a b ns mount oids ulid ts c \<noteq> Inr (Noop n' i, c')"
proof
  assume "cas_ref_session n pin cid a b ns mount oids ulid ts c = Inr (Noop n' i, c')"
  then have "checkin_spec n pin cid ns mount (session_fork_name n b ulid) c (Noop n' i) c'" by (rule session_checkin_spec)
  then show False by (auto simp: checkin_spec_def cas_keeps_work_def)
qed

text \<open>What a checkin that answers \<open>Noop\<close> has run: the fold of its own mount, which gave the base tree back, the fold of
  every other mount, which found no work, and the end of the session's epoch.\<close>

lemma noop_run:
  assumes "forge_checkin E now ulid cap ns mount msg w = Some (Inr (Noop n i), w')"
  obtains m n' pin row base b w1 b2 w2 where "open_checkin E now cap ns mount w = Inr (m, n', pin, row, base)"
    and "batched begin_batch (fold_overlay E (c_tree base) (overlay_map (overlay_list (f_meta w) ns (mnt_path m)))) w =
      Some (Inr (c_tree base, b), w1)"
    and "act_fold (stranded_step E ns (session_mounts ns w)) (overlay_mounts_outside (f_meta w) ns (mnt_path m)) ([], b) w1 =
      Some (Inr ([], b2), w2)"
    and "forge_grows w w1" "f_meta w1 = f_meta w" "forge_grows w2 w'" "refs (f_meta w') = refs (f_meta w)"
proof -
  obtain m n' pin row base new_tree b w1 where o: "open_checkin E now cap ns mount w = Inr (m, n', pin, row, base)"
    and f: "batched begin_batch (fold_overlay E (c_tree base) (overlay_map (overlay_list (f_meta w) ns (mnt_path m)))) w = Some (Inr (new_tree, b), w1)"
    and k: "if new_tree = c_tree base \<and> pin = row_oid row
     then checkin_noop E ns (session_mounts ns w) m n' pin row b w1 = Some (Inr (Noop n i), w')
     else checkin_publish E now ulid cap ns m n' pin (c_tree base) new_tree msg
       (overlay_list (f_meta w) ns (mnt_path m)) (observations (f_meta w) ns) b w1 = Some (Inr (Noop n i), w')"
    using forge_checkin_Inr [OF assms(1)] by metis
  have g1: "forge_grows w w1" "f_meta w1 = f_meta w" using batched_grows [OF fold_overlay_grows f] by auto
  have "new_tree = c_tree base \<and> pin = row_oid row"
    using k cas_never_noop by (auto elim!: checkin_publish_Inr split: if_split_asm)
  then have same: "new_tree = c_tree base" and noop: "checkin_noop E ns (session_mounts ns w) m n' pin row b w1 = Some (Inr (Noop n i), w')"
    using k by auto
  obtain b2 w2 w3 c' where str: "act_fold (stranded_step E ns (session_mounts ns w)) (overlay_mounts_outside (f_meta w) ns (mnt_path m)) ([], b) w1 = Some (Inr ([], b2), w2)"
    and fin: "finish_batch b2 w2 = Some (Inr (), w3)"
    and c': "complete_noop_session ns (mnt_path m) pin (f_meta w3) = Inr ((), c')" "w' = w3\<lparr>f_meta := c'\<rparr>"
    using noop by (auto simp: checkin_noop_def act_bind_Inr_iff meta_Inr g1(2) split: if_split_asm)
  have g: "forge_grows w2 w'" "f_meta w3 = f_meta w"
    using finish_batch_grows [OF fin] stranded_none [OF str] g1 by (auto simp: c'(2) forge_grows_def)
  moreover have "refs (f_meta w') = refs (f_meta w)"
    using c' g(2) by (auto simp: complete_noop_session_def begin_tx_def and_then_Inr_iff clear_observations_def clear_overlay_def
        pin_ns_def split: if_split_asm dest!: close_epoch_Inr(2))
  ultimately show ?thesis using o f str g1 unfolding same by (intro that)
qed

text \<open>
  C8: \<open>Noop\<close> is only answered when there is nothing to do. It leaves every ref alone, and every mount of the session with
  staged rows, the named one and all others, holds rows that change no file of the commit the mount is pinned to.
\<close>

theorem noop_only_without_work:
  assumes "forge_checkin E now ulid cap ns mount msg w = Some (Inr (Noop n i), w')"
    and "log_good (env_hash E) (f_store w')"
    and "\<And>k r. map_of (overlay_map (overlay_list (f_meta w) ns k)) (slash # r) = None"
  shows "refs (f_meta w') = refs (f_meta w) \<and>
    (\<forall>k p. map_of (overlay (f_meta w)) (ns, k, p) \<noteq> None \<longrightarrow> holds_no_work E ns w w' k)"
  using assms(1)
proof (rule noop_run)
  fix m n' pin row base b w1 b2 w2
  assume o: "open_checkin E now cap ns mount w = Inr (m, n', pin, row, base)"
    and f: "batched begin_batch (fold_overlay E (c_tree base) (overlay_map (overlay_list (f_meta w) ns (mnt_path m)))) w =
      Some (Inr (c_tree base, b), w1)"
    and str: "act_fold (stranded_step E ns (session_mounts ns w)) (overlay_mounts_outside (f_meta w) ns (mnt_path m)) ([], b) w1 =
      Some (Inr ([], b2), w2)"
    and g: "forge_grows w w1" "f_meta w1 = f_meta w" "forge_grows w2 w'" and refs: "refs (f_meta w') = refs (f_meta w)"
  note none = stranded_none [OF str]
  have "holds_no_work E ns w w' k" if staged: "map_of (overlay (f_meta w)) (ns, k, p) \<noteq> None" for k p
  proof (cases "k = mnt_path m")
    case True
    have m: "m \<in> set (session_mounts ns w)" "mnt_base_oid m = Some pin" "get_commit (env_hash E) pin (objects w) = Inr base"
      using open_checkin_Inr [OF o] by auto
    have g': "forge_grows w1 w'" using none g(3) forge_grows_trans by blast
    have "get_commit (env_hash E) pin (objects w') = Inr base"
      using grown_typed(2) [OF _ m(3)] forge_grows_trans [OF g(1) g'] by (simp add: forge_grows_def)
    then show ?thesis
      using True m(1,2) folded_files [OF f g' assms(2) overlay_map_ok assms(3)] unfolding holds_no_work_def by metis
  next
    case False
    then obtain cnt where "(k, cnt) \<in> set (overlay_mounts_outside (f_meta w) ns (mnt_path m))" using staged_outside [OF staged] by blast
    then obtain b1 b3 v1 v2 where v: "mount_overlay_changes_its_base E ns k (session_mounts ns w) b1 v1 = Some (Inr (False, b3), v2)"
        "f_meta v1 = f_meta w" "forge_grows v2 w'"
      using none g(2,3) forge_grows_trans by (fastforce split: prod.splits)
    have "overlay_list (f_meta w) ns k \<noteq> []"
      using staged by (force simp: overlay_list_def filter_empty_conv dest: map_of_SomeD)
    then show ?thesis using unchanged_holds_no_work [OF v assms(2,3)] by blast
  qed
  then show ?thesis using refs by blast
qed

end
