(* ===== verification/Merge_Example.thy ===== *)
theory Merge_Example
  imports Merge_Scope
begin

text \<open>
  A worked merge on a concrete store, as the witness of the merge theorems: the base has a file \<open>a\<close>, our side
  changes it and adds \<open>b\<close>, their side removes it.
\<close>

section \<open>Stores that hold given trees\<close>

definition tree_bytes :: "Tree \<Rightarrow> bytes" where
  "tree_bytes t = projr (the (tree_encode t))"

definition small_tree :: "Tree \<Rightarrow> bool" where
  "small_tree t \<longleftrightarrow> tree_ok t \<and> length (entries t) \<le> max_tree_entries"

lemma tree_bytes: "small_tree t \<Longrightarrow> tree_encode t = Some (Inr (tree_bytes t)) \<and> tree_decode (tree_bytes t) = Inr t"
  using tree_encodes [of t] by (auto simp: small_tree_def tree_bytes_def tree_decode_iff)

text \<open>A hash function that gives each of the trees \<open>T i\<close> the id \<open>i\<close>.\<close>

definition names_trees :: "(bytes \<Rightarrow> oid) \<Rightarrow> (oid \<Rightarrow> Tree) \<Rightarrow> oid set \<Rightarrow> bool" where
  "names_trees H T E \<longleftrightarrow> (\<forall>i \<in> E. small_tree (T i) \<and> H (tree_bytes (T i)) = i)"

lemma names_trees_exists:
  assumes "\<And>i. i \<in> E \<Longrightarrow> small_tree (T i)" "inj_on T E"
  shows "\<exists>H. names_trees H T E"
proof -
  have "inj_on (\<lambda>i. tree_bytes (T i)) E"
    using assms tree_bytes by (intro inj_onI) (metis inj_onD sum.inject(2))
  then have "inv_into E (\<lambda>i. tree_bytes (T i)) (tree_bytes (T i)) = i" if "i \<in> E" for i
    using that inv_into_f_f [of "\<lambda>i. tree_bytes (T i)" E i] by simp
  then show ?thesis
    using assms(1) unfolding names_trees_def by (intro exI [of _ "inv_into E (\<lambda>i. tree_bytes (T i))"]) simp
qed

text \<open>The stores that arise: exactly the trees \<open>D\<close> are visible, and nothing else was offered.\<close>

definition holds_trees :: "(oid \<Rightarrow> Tree) \<Rightarrow> oid set \<Rightarrow> oid set \<Rightarrow> StoreLog \<Rightarrow> bool" where
  "holds_trees T E D l \<longleftrightarrow> D \<subseteq> E \<and> \<not> read_only (l_store l) \<and> l_seen l \<subseteq> (\<lambda>i. tree_bytes (T i)) ` E \<and>
    visible (l_store l) = (\<lambda>i. if i \<in> D then Some (tree_bytes (T i)) else None)"

definition store_of_trees :: "(oid \<Rightarrow> Tree) \<Rightarrow> oid set \<Rightarrow> StoreLog" where
  "store_of_trees T D = \<lparr>l_store = (memory_store_new False)\<lparr>visible := (\<lambda>i. if i \<in> D then Some (tree_bytes (T i)) else None)\<rparr>, l_seen = {}\<rparr>"

lemma holds_store_of_trees: "D \<subseteq> E \<Longrightarrow> holds_trees T E D (store_of_trees T D)"
  by (simp add: holds_trees_def store_of_trees_def memory_store_new_def)

lemma holds_get:
  assumes "names_trees H T E" "holds_trees T E D l" "i \<in> D"
  shows "store_get_tree H i l = Inr (T i)" "store_get H i (l_store l) = Inr (tree_bytes (T i))"
  using assms tree_bytes [of "T i"]
  by (auto simp: names_trees_def holds_trees_def store_get_tree_def get_tree_def store_get_def)

lemma holds_good:
  assumes "names_trees H T E" "holds_trees T E D l"
  shows "log_good H l"
proof -
  have "ran (visible (l_store l)) \<union> l_seen l \<subseteq> (\<lambda>i. tree_bytes (T i)) ` E"
    using assms(2) by (auto simp: holds_trees_def ran_def split: if_split_asm)
  moreover have "inj_on H ((\<lambda>i. tree_bytes (T i)) ` E)"
    using assms(1) by (auto simp: names_trees_def intro!: inj_onI)
  ultimately show ?thesis unfolding log_good_def by (meson inj_on_subset)
qed

lemma holds_put:
  assumes H: "names_trees H T E" and l: "holds_trees T E D l" and i: "i \<in> E"
  shows "\<exists>l'. store_put_tree H (T i) l = (Inr i, l') \<and> holds_trees T E (insert i D) l'"
proof -
  have t: "tree_encode (T i) = Some (Inr (tree_bytes (T i)))" "H (tree_bytes (T i)) = i"
    using H i tree_bytes by (auto simp: names_trees_def)
  show ?thesis
  proof (cases "i \<in> D")
    case True
    then show ?thesis
      using l t i by (auto simp: store_put_tree_def store_put_def store_put_parts_def put_parts_def hash_parts_def
          holds_trees_def begin_batch_def batch_finish_def Let_def insert_absorb)
  next
    case False
    then show ?thesis
      using l t i by (auto simp: store_put_tree_def store_put_def store_put_parts_def put_parts_def hash_parts_def
          holds_trees_def begin_batch_def batch_finish_def Let_def fun_eq_iff)
  qed
qed

section \<open>The example\<close>

definition ex_file :: "string \<Rightarrow> oid \<Rightarrow> TreeEntry" where
  "ex_file n i = \<lparr>e_name = n, e_kind = EntryKind.Blob, e_id = i, e_exec = False\<rparr>"

definition ex_tree :: "oid \<Rightarrow> Tree" where
  "ex_tree i =
    (if i = 1 then \<lparr>entries = [ex_file ''a'' 7]\<rparr>
     else if i = 2 then \<lparr>entries = [ex_file ''a'' 8, ex_file ''b'' 9]\<rparr>
     else if i = 3 then \<lparr>entries = []\<rparr>
     else if i = 4 then \<lparr>entries = [ex_file ''b'' 9]\<rparr>
     else \<lparr>entries = [ex_file ''a'' 7, ex_file ''b'' 9]\<rparr>)"

definition ex_ids :: "oid set" where
  "ex_ids = {1, 2, 3, 4, 5}"

lemma ex_trees [simp]:
  "ex_tree 1 = \<lparr>entries = [ex_file ''a'' 7]\<rparr>" "ex_tree 2 = \<lparr>entries = [ex_file ''a'' 8, ex_file ''b'' 9]\<rparr>"
  "ex_tree 3 = \<lparr>entries = []\<rparr>" "ex_tree 4 = \<lparr>entries = [ex_file ''b'' 9]\<rparr>"
  "ex_tree 5 = \<lparr>entries = [ex_file ''a'' 7, ex_file ''b'' 9]\<rparr>"
  by (simp_all add: ex_tree_def)

lemma ex_small: "i \<in> ex_ids \<Longrightarrow> small_tree (ex_tree i)"
  by (auto simp: ex_ids_def small_tree_def tree_ok_def max_tree_entries_def ex_file_def validate_name_def utf8_ascii)

lemma ex_hash: "\<exists>H. names_trees H ex_tree ex_ids"
  by (rule names_trees_exists) (auto simp: ex_small, auto simp: inj_on_def ex_ids_def ex_file_def)

lemma ex_map [simp]:
  "as_map (ex_tree 1) = [(''a'', ex_file ''a'' 7)]" "as_map (ex_tree 2) = [(''a'', ex_file ''a'' 8), (''b'', ex_file ''b'' 9)]"
  "as_map (ex_tree 3) = []" "as_map (ex_tree 4) = [(''b'', ex_file ''b'' 9)]"
  by (simp_all add: as_map_def ex_file_def)

lemma ex_new [simp]:
  "tree_new [ex_file ''b'' 9] = Inr (ex_tree 4)"
  "tree_new [ex_file ''a'' 7, ex_file ''b'' 9] = Inr (ex_tree 5)"
  using ex_small [of 4] ex_small [of 5] unfolding tree_new_iff
  by (simp_all add: ex_ids_def small_tree_def ex_file_def)

text \<open>The automatic merge of the example: \<open>a\<close> is in conflict, \<open>b\<close> is kept.\<close>

definition ex_conflict :: ConflictPath where
  "ex_conflict = \<lparr>cp_path = ''a'', cp_a = Some 8, cp_b = None, cp_base = Some 7\<rparr>"

lemma ex_renames:
  assumes "names_trees H ex_tree ex_ids" "holds_trees ex_tree ex_ids D l" "{1, 2, 3} \<subseteq> D"
  shows "exact_rename_conflicts (\<lambda>i. store_get_tree H i l) 1 2 3 = Some (Inr [])"
proof -
  have g: "store_get_tree H 1 l = Inr (ex_tree 1)" "store_get_tree H 2 l = Inr (ex_tree 2)" "store_get_tree H 3 l = Inr (ex_tree 3)"
    using holds_get(1) [OF assms(1,2)] assms(3) by auto
  note eval = tree_changes_def walk_loop_simps change_item_def read_pair_def g change_step_def sorted_names_def
    no_changes_def same_entry_def child_prefix_def Let_def as_map_def ex_file_def
  have "tree_changes (\<lambda>i. store_get_tree H i l) 1 2 = Some (Inr \<lparr>deleted = [], added = [(''b'', ex_file ''b'' 9)]\<rparr>)"
    by (simp add: eval)
  moreover have "tree_changes (\<lambda>i. store_get_tree H i l) 1 3 = Some (Inr \<lparr>deleted = [(''a'', ex_file ''a'' 7)], added = []\<rparr>)"
    by (simp add: eval)
  ultimately show ?thesis
    by (simp add: exact_rename_conflicts_def walk_bind_def identities_def count_base_identities_def
        infer_exact_renames_def List.map_filter_simps)
qed

lemma ex_auto_merge:
  assumes "names_trees H ex_tree ex_ids" "holds_trees ex_tree ex_ids {1, 2, 3} l"
  shows "\<exists>l'. auto_merge_tree (store_get_tree H) (store_put_tree H) (Some 1) 2 3 l = Some (Inr (4, [ex_conflict]), l') \<and>
    holds_trees ex_tree ex_ids {1, 2, 3, 4} l'"
proof -
  have g: "store_get_tree H 1 l = Inr (ex_tree 1)" "store_get_tree H 2 l = Inr (ex_tree 2)" "store_get_tree H 3 l = Inr (ex_tree 3)"
    using holds_get(1) [OF assms(1,2)] by auto
  obtain l' where put: "store_put_tree H (ex_tree 4) l = (Inr 4, l')" "holds_trees ex_tree ex_ids {1, 2, 3, 4} l'"
    using holds_put [OF assms, of 4] by (auto simp: ex_ids_def insert_commute)
  have "merge_trees (store_get_tree H) (store_put_tree H) [] (Some 1) 2 3 [] l = Some (Inr (4, [ex_conflict]), l')"
    using put(1)
    by (subst merge_trees.simps)
       (simp add: act_bind_def act_of_def g sorted_names_def as_map_def merge_name_def matches_base_def same_entry_def
        child_prefix_def act_ret_def ex_conflict_def ex_file_def ex_new [unfolded ex_file_def] del: ex_map)
  then show ?thesis
    using put(2) ex_renames [OF assms] by (auto simp: auto_merge_tree_def act_bind_def act_ret_def)
qed

lemma parse_file_type: "parse_file bs = Inr (ty, h, p) \<Longrightarrow> decode_object_type bs = Inr ty"
  by (auto simp: parse_file_def decode_object_type_def and_then_Inr_iff Let_def split: if_split_asm)

lemma tree_decode_type: "tree_decode bs = Inr t \<Longrightarrow> decode_object_type bs = Inr ObjectType.Tree"
  by (auto simp: tree_decode_def and_then_Inr_iff dest: parse_file_type split: if_split_asm)

lemma ex_get [simp]:
  "tree_get (ex_tree 1) ''a'' = Some (ex_file ''a'' 7)" "tree_get (ex_tree 2) ''a'' = Some (ex_file ''a'' 8)"
  "tree_get (ex_tree 4) ''a'' = None" "tree_get (ex_tree 2) ''b'' = Some (ex_file ''b'' 9)"
  "tree_get (ex_tree 4) ''b'' = Some (ex_file ''b'' 9)" "tree_get (ex_tree 3) n = None"
  by (simp_all add: tree_get_def bsearch.simps ex_file_def Let_def)

lemma ex_run:
  "\<exists>H l l'. names_trees H ex_tree ex_ids \<and> holds_trees ex_tree ex_ids {1, 2, 3} l \<and> holds_trees ex_tree ex_ids {1, 2, 3, 4} l' \<and>
    auto_merge_tree (store_get_tree H) (store_put_tree H) (Some 1) 2 3 l = Some (Inr (4, [ex_conflict]), l')"
proof -
  obtain H where H: "names_trees H ex_tree ex_ids" using ex_hash by blast
  have l: "holds_trees ex_tree ex_ids {1, 2, 3} (store_of_trees ex_tree {1, 2, 3})"
    by (rule holds_store_of_trees) (simp add: ex_ids_def)
  show ?thesis using ex_auto_merge [OF H l] H l by blast
qed

lemma ex_files:
  assumes "names_trees H ex_tree ex_ids" "holds_trees ex_tree ex_ids {1, 2, 3, 4} l"
  shows "file_at (store_get_tree H) l (Some 2) [''a''] = Some (8, False)" "file_at (store_get_tree H) l (Some 4) [''a''] = None"
    "file_at (store_get_tree H) l (Some 2) [''b''] = Some (9, False)"
proof -
  have g: "store_get_tree H 2 l = Inr (ex_tree 2)" "store_get_tree H 4 l = Inr (ex_tree 4)"
    using holds_get(1) [OF assms] by auto
  show "file_at (store_get_tree H) l (Some 2) [''a''] = Some (8, False)" "file_at (store_get_tree H) l (Some 4) [''a''] = None"
    "file_at (store_get_tree H) l (Some 2) [''b''] = Some (9, False)"
    using g ex_get(2,3,4) by (simp_all add: ex_file_def del: ex_trees)
qed

theorem merge_is_three_way_witness:
  "\<exists>H l l'. auto_merge_tree (store_get_tree H) (store_put_tree H) (Some 1) 2 3 l = Some (Inr (4, [ex_conflict]), l') \<and>
    merges_to (file_at (store_get_tree H) l' (Some 1) [''b'']) (file_at (store_get_tree H) l' (Some 2) [''b''])
      (file_at (store_get_tree H) l' (Some 3) [''b'']) (file_at (store_get_tree H) l' (Some 4) [''b''])"
proof -
  obtain H l l' where r: "names_trees H ex_tree ex_ids" "holds_trees ex_tree ex_ids {1, 2, 3, 4} l'"
    "auto_merge_tree (store_get_tree H) (store_put_tree H) (Some 1) 2 3 l = Some (Inr (4, [ex_conflict]), l')"
    using ex_run by blast
  have "merges_to (file_at (store_get_tree H) l' (Some 1) [''b'']) (file_at (store_get_tree H) l' (Some 2) [''b''])
      (file_at (store_get_tree H) l' (Some 3) [''b'']) (file_at (store_get_tree H) l' (Some 4) [''b''])"
    by (rule merge_is_three_way [OF r(3) holds_good [OF r(1,2)]]) (simp_all add: names_ok_def path_in_conflict_scope_def ex_conflict_def)
  then show ?thesis using r(3) by blast
qed

text \<open>
  The tree of a conflicting merge is not \<open>ours\<close> on every unresolved leaf: where our side modified a file
  that their side deleted, the path is reported as a conflict and the merged tree has no file there, although our
  side has one.
\<close>

theorem modify_delete_drops_ours:
  "\<exists>H l l'. auto_merge_tree (store_get_tree H) (store_put_tree H) (Some 1) 2 3 l = Some (Inr (4, [ex_conflict]), l') \<and>
    log_good H l' \<and> path_in_conflict_scope ''a'' [ex_conflict] \<and>
    file_at (store_get_tree H) l' (Some 2) [''a''] = Some (8, False) \<and> file_at (store_get_tree H) l' (Some 4) [''a''] = None"
proof -
  obtain H l l' where r: "names_trees H ex_tree ex_ids" "holds_trees ex_tree ex_ids {1, 2, 3, 4} l'"
    "auto_merge_tree (store_get_tree H) (store_put_tree H) (Some 1) 2 3 l = Some (Inr (4, [ex_conflict]), l')"
    using ex_run by blast
  have "path_in_conflict_scope ''a'' [ex_conflict]" by (simp add: path_in_conflict_scope_def ex_conflict_def)
  then show ?thesis using r holds_good [OF r(1,2)] ex_files [OF r(1,2)] by blast
qed

theorem three_way_terminates_witness:
  "\<exists>H l r. complete_tree (store_get_tree H) 1 1 l \<and> three_way (store_get_tree H) (store_put_tree H) (Some 1) 2 3 l = Some r"
proof -
  obtain H l where r: "names_trees H ex_tree ex_ids" "holds_trees ex_tree ex_ids {1, 2, 3} l" using ex_run by blast
  have g: "store_get_tree H 1 l = Inr (ex_tree 1)" "store_get_tree H 2 l = Inr (ex_tree 2)"
    using holds_get(1) [OF r] by auto
  have c: "complete_tree (store_get_tree H) 1 1 l" "complete_tree (store_get_tree H) 1 2 l"
    using g by (simp_all add: ex_file_def)
  show ?thesis using three_way_terminates [of H 1 2 l "Some 1" 3] c by auto
qed

lemma ex_changed:
  assumes "names_trees H ex_tree ex_ids" "holds_trees ex_tree ex_ids {1, 2, 3, 4} l"
  shows "changed_paths (\<lambda>i. store_get_tree H i l) 4 2 = Some (Inr [''a''])"
proof -
  have "store_get_tree H 2 l = Inr (ex_tree 2)" "store_get_tree H 4 l = Inr (ex_tree 4)"
    using holds_get(1) [OF assms] by auto
  then show ?thesis
    by (simp add: changed_paths_def walk_loop_simps changed_item_def read_pair_def changed_step_def sorted_names_def
        same_entry_def child_prefix_def Let_def as_map_def ex_file_def del: ex_map)
qed

theorem changed_paths_complete_witness:
  "\<exists>H l out. changed_paths (\<lambda>i. store_get_tree H i l) 4 2 = Some (Inr out) \<and> covered ''a'' (set out)"
proof -
  obtain H l where r: "names_trees H ex_tree ex_ids" "holds_trees ex_tree ex_ids {1, 2, 3, 4} l" using ex_run by blast
  have "covered (join_with [slash] [''a'']) (set [''a''])"
    by (rule changed_paths_complete [OF ex_changed [OF r]]) (use ex_files [OF r] in \<open>simp_all add: names_ok_def del: file_at.simps\<close>)
  then show ?thesis using ex_changed [OF r] by (intro exI [of _ H] exI [of _ l] exI [of _ "[''a'']"]) simp
qed

theorem resolution_stays_in_scope_witness:
  "\<exists>H conflict l l'. resolve_tree H conflict (ChosenTree 2) l = Some (Inr 2, l') \<and>
    file_at (store_get_tree H) l' (Some 2) [''b''] = Some (9, False) \<and>
    (\<exists>auto. file_at (store_get_tree H) l' (Some 2) [''b''] = file_at (store_get_tree H) l' (Some auto) [''b''])"
proof -
  let ?c = "\<lparr>k_bases = [1], k_ours = 2, k_theirs = 3, k_paths = [ex_conflict], k_causal = []\<rparr>"
  obtain H l l' where r: "names_trees H ex_tree ex_ids" "holds_trees ex_tree ex_ids {1, 2, 3, 4} l'" "holds_trees ex_tree ex_ids {1, 2, 3} l"
    "auto_merge_tree (store_get_tree H) (store_put_tree H) (Some 1) 2 3 l = Some (Inr (4, [ex_conflict]), l')"
    using ex_run by blast
  have "tree_decode (tree_bytes (ex_tree 2)) = Inr (ex_tree 2)"
    using tree_bytes ex_small [of 2] by (simp add: ex_ids_def del: ex_trees)
  then have "object_type H 2 (l_store l) = Inr ObjectType.Tree"
    using holds_get(2) [OF r(1,3), of 2] by (simp add: object_type_def tree_decode_type del: ex_trees)
  then have run: "resolve_tree H ?c (ChosenTree 2) l = Some (Inr 2, l')"
    using r(4) ex_changed [OF r(1,2)]
    by (simp add: resolve_tree_def act_bind_def act_of_def act_ret_def path_in_conflict_scope_def ex_conflict_def)
  have "\<exists>auto. file_at (store_get_tree H) l' (Some 2) [''b''] = file_at (store_get_tree H) l' (Some auto) [''b'']"
    using resolution_stays_in_scope [OF run holds_good [OF r(1,2)], of "[''b'']"]
    by (auto simp: names_ok_def path_in_conflict_scope_def ex_conflict_def)
  then show ?thesis using run ex_files [OF r(1,2)] by blast
qed

text \<open>Two sides that each add a file to the empty tree, merged both ways round.\<close>

lemma ex_clean:
  assumes "names_trees H ex_tree ex_ids" "holds_trees ex_tree ex_ids D l" "{1, 3, 4} \<subseteq> D" "(x, y) = (1, 4) \<or> (x, y) = (4, 1)"
  shows "\<exists>l'. three_way (store_get_tree H) (store_put_tree H) (Some 3) x y l = Some (Inr (MergedTree 5), l') \<and>
    holds_trees ex_tree ex_ids (insert 5 D) l'"
proof -
  have g: "store_get_tree H 1 l = Inr (ex_tree 1)" "store_get_tree H 3 l = Inr (ex_tree 3)" "store_get_tree H 4 l = Inr (ex_tree 4)"
    using holds_get(1) [OF assms(1,2)] assms(3) by auto
  obtain l' where put: "store_put_tree H (ex_tree 5) l = (Inr 5, l')" "holds_trees ex_tree ex_ids (insert 5 D) l'"
    using holds_put [OF assms(1,2), of 5] by (auto simp: ex_ids_def)
  note eval = tree_changes_def walk_loop_simps change_item_def read_pair_def g change_step_def sorted_names_def
    no_changes_def same_entry_def child_prefix_def Let_def as_map_def ex_file_def
  have "tree_changes (\<lambda>i. store_get_tree H i l) 3 1 = Some (Inr \<lparr>deleted = [], added = [(''a'', ex_file ''a'' 7)]\<rparr>)"
    "tree_changes (\<lambda>i. store_get_tree H i l) 3 4 = Some (Inr \<lparr>deleted = [], added = [(''b'', ex_file ''b'' 9)]\<rparr>)"
    by (simp_all add: eval)
  then have ren: "exact_rename_conflicts (\<lambda>i. store_get_tree H i l) 3 x y = Some (Inr [])"
    using assms(4) by (auto simp: exact_rename_conflicts_def walk_bind_def identities_def count_base_identities_def
        infer_exact_renames_def List.map_filter_simps)
  have "merge_trees (store_get_tree H) (store_put_tree H) [] (Some 3) x y [] l = Some (Inr (5, []), l')"
    using put(1) assms(4)
    by (subst merge_trees.simps)
       (auto simp add: act_bind_def act_of_def g sorted_names_def as_map_def merge_name_def matches_base_def same_entry_def
        child_prefix_def act_ret_def ex_conflict_def ex_file_def ex_new [unfolded ex_file_def] simp del: ex_map)
  then show ?thesis
    using put(2) ren assms(4) by (auto simp: three_way_def auto_merge_tree_def act_bind_def act_ret_def)
qed

theorem clean_merge_symmetric_witness:
  "\<exists>H l l1 l2. three_way (store_get_tree H) (store_put_tree H) (Some 3) 1 4 l = Some (Inr (MergedTree 5), l1) \<and>
    three_way (store_get_tree H) (store_put_tree H) (Some 3) 4 1 l1 = Some (Inr (MergedTree 5), l2) \<and>
    file_at (store_get_tree H) l2 (Some 5) [''b''] = file_at (store_get_tree H) l2 (Some 5) [''b'']"
proof -
  obtain H where H: "names_trees H ex_tree ex_ids" using ex_hash by blast
  have l: "holds_trees ex_tree ex_ids {1, 3, 4} (store_of_trees ex_tree {1, 3, 4})"
    by (rule holds_store_of_trees) (simp add: ex_ids_def)
  obtain l1 where l1: "three_way (store_get_tree H) (store_put_tree H) (Some 3) 1 4 (store_of_trees ex_tree {1, 3, 4}) = Some (Inr (MergedTree 5), l1)"
      "holds_trees ex_tree ex_ids (insert 5 {1, 3, 4}) l1" using ex_clean [OF H l, of 1 4] by auto
  obtain l2 where l2: "three_way (store_get_tree H) (store_put_tree H) (Some 3) 4 1 l1 = Some (Inr (MergedTree 5), l2)"
      "holds_trees ex_tree ex_ids (insert 5 (insert 5 {1, 3, 4})) l2" using ex_clean [OF H l1(2), of 4 1] by auto
  have "file_at (store_get_tree H) l2 (Some 5) [''b''] = file_at (store_get_tree H) l2 (Some 5) [''b'']"
    by (rule clean_merge_symmetric [OF l1(1) l2(1) holds_good [OF H l2(2)]]) (simp add: names_ok_def)
  then show ?thesis using l1(1) l2(1) by blast
qed

end
