(* ===== verification/Workspace_Example.thy ===== *)
theory Workspace_Example
  imports Checkin Merge_Example
begin

text \<open>
  One session on a small repository, as the witness of the workspace theorems: an empty tree, a commit of it under an
  agent's own head, and a session of that agent with the head mounted read-write.
\<close>

section \<open>Objects\<close>

lemma length_oids: "length (concat (map (\<lambda>p. encode_bytes (oid_bytes p)) ps)) \<le> 41 * length ps"
proof (induction ps)
  case (Cons p ps)
  then show ?case using length_encode_item(6) [of p] by (simp add: encode_oid_def)
qed simp

lemma commit_encodes:
  assumes "length (c_agent c) \<le> 1024" "length (c_msg c) \<le> 1024" "length (c_parents c) \<le> 1024"
  shows "\<exists>bs. commit_encode c = Some bs"
proof -
  define fields where "fields =
       [(text_key ''agent'', encode_text (c_agent c)),
        (text_key ''lm'', encode_bool (c_landmark c)),
        (text_key ''msg'', encode_text (c_msg c)),
        (text_key ''parents'', encode_array_header (of_nat (length (c_parents c)))
           @ concat (map (\<lambda>p. encode_bytes (oid_bytes p)) (c_parents c))),
        (text_key ''tree'', encode_bytes (oid_bytes (c_tree c))),
        (text_key ''ts'', encode_u64 (c_ts c))]
       @ (case c_contrib c of
            Some contrib \<Rightarrow> [(text_key ''contrib'', encode_bytes (oid_bytes contrib))]
          | None \<Rightarrow> [])"
  have "sum_list (map (\<lambda>(k, v). length k + length v) fields) \<le> 100000"
    using assms length_oids [of "c_parents c"] length_encode_item(3) [of "''agent''"] length_encode_item(3) [of "''lm''"]
      length_encode_item(3) [of "''msg''"] length_encode_item(3) [of "''parents''"] length_encode_item(3) [of "''tree''"]
      length_encode_item(3) [of "''ts''"] length_encode_item(3) [of "''contrib''"] length_encode_item(2) [of "c_agent c"]
      length_encode_item(5) [of "c_landmark c"] length_encode_item(2) [of "c_msg c"]
      length_encode_item(7) [of "of_nat (length (c_parents c))"] length_encode_item(6) [of "c_tree c"]
      length_encode_item(4) [of "c_ts c"] length_encode_item(6) [of "the (c_contrib c)"]
    by (cases "c_contrib c") (simp_all add: fields_def encode_oid_def)
  then have "length (encode_map_sorted fields) < 2 ^ 32" using length_encode_map_sorted [of fields] by simp
  then show ?thesis by (simp add: commit_encode_def fields_def Let_def encode_file_def u32_try_from_def)
qed

definition demo_base :: Commit where
  "demo_base = \<lparr>c_tree = 2, c_parents = [], c_agent = ''a'', c_msg = [], c_ts = 0, c_landmark = False, c_contrib = None\<rparr>"

definition demo_next :: Commit where
  "demo_next = \<lparr>c_tree = 1, c_parents = [5], c_agent = ''a'', c_msg = [], c_ts = 0, c_landmark = False, c_contrib = Some 3\<rparr>"

definition demo_receipt :: Contribution where
  "demo_receipt = \<lparr>co_base = 5, co_tree = 1, co_parents = [5], co_reads = [], co_writes = [''/a''], co_agent = ''a'', co_ts = 0\<rparr>"

definition empty_tree :: Tree where
  "empty_tree = \<lparr>entries = []\<rparr>"

definition one_tree :: Tree where
  "one_tree = \<lparr>entries = [ex_file ''a'' 7]\<rparr>"

definition commit_bytes :: "Commit \<Rightarrow> bytes" where
  "commit_bytes c = the (commit_encode c)"

definition receipt_bytes :: bytes where
  "receipt_bytes = projr (the (contribution_encode demo_receipt))"

definition blob_bytes :: bytes where
  "blob_bytes = the (blob_encode \<lparr>data = []\<rparr>)"

lemma demo_commits: "commit_encode demo_base = Some (commit_bytes demo_base)" "commit_encode demo_next = Some (commit_bytes demo_next)"
  using commit_encodes [of demo_base] commit_encodes [of demo_next]
  by (auto simp: demo_base_def demo_next_def commit_bytes_def)

lemma demo_trees: "small_tree empty_tree" "small_tree one_tree"
  by (simp_all add: empty_tree_def one_tree_def small_tree_def tree_ok_def max_tree_entries_def ex_file_def validate_name_def utf8_ascii)

lemma demo_receipt_encodes: "contribution_encode demo_receipt = Some (Inr receipt_bytes)"
proof -
  have v: "contribution_validate demo_receipt = Inr ()"
    by (simp add: contribution_validate_def demo_receipt_def max_parents_def max_items_def max_agent_bytes_def checked_add_def
        saturating_mul_def saturating_add_def size_step_def max_serialized_header_bytes_def validate_sorted_unique_def
        validate_path_def max_path_bytes_def)
  have "length (contribution_header demo_receipt) \<le> 1000"
    using length_encode_map_sorted [of "
    [(text_key ''agent'', encode_text ''a''), (text_key ''base'', encode_bytes (oid_bytes 5)),
     (text_key ''parents'', encode_array_header 1 @ encode_bytes (oid_bytes 5)), (text_key ''reads'', encode_array_header 0),
     (text_key ''tree'', encode_bytes (oid_bytes 1)), (text_key ''ts'', encode_u64 0),
     (text_key ''writes'', encode_array_header 1 @ encode_text ''/a'')]"]
      length_encode_item(3) [of "''agent''"] length_encode_item(3) [of "''base''"] length_encode_item(3) [of "''parents''"]
      length_encode_item(3) [of "''reads''"] length_encode_item(3) [of "''tree''"] length_encode_item(3) [of "''ts''"]
      length_encode_item(3) [of "''writes''"] length_encode_item(2) [of "''a''"] length_encode_item(2) [of "''/a''"]
      length_encode_item(6) [of 5] length_encode_item(6) [of 1] length_encode_item(7) [of 0] length_encode_item(7) [of 1]
      length_encode_item(4) [of 0]
    by (simp add: contribution_header_def demo_receipt_def encode_oid_def)
  then show ?thesis
    using v by (simp add: contribution_encode_def receipt_bytes_def max_serialized_header_bytes_def encode_file_def u32_try_from_def Let_def)
qed

lemma demo_blob_encodes: "blob_frame_prefix 0 = Some blob_bytes" "blob_decode blob_bytes = Inr \<lparr>data = []\<rparr>"
proof -
  have "length (encode_map_sorted [(text_key ''size'', encode_u64 0)]) < 2 ^ 32"
    using length_encode_map_sorted [of "[(text_key ''size'', encode_u64 0)]"] length_encode_item(3) [of "''size''"]
      length_encode_item(4) [of 0] by simp
  then obtain p where "blob_frame_prefix 0 = Some p" by (simp add: blob_frame_prefix_def u32_try_from_def Let_def)
  then show p: "blob_frame_prefix 0 = Some blob_bytes" by (simp add: blob_bytes_def blob_encode_def)
  then show "blob_decode blob_bytes = Inr \<lparr>data = []\<rparr>" by (simp add: blob_decode_iff blob_encode_def)
qed

lemma encoded_type: "encode_file ty h p = Some bs \<Longrightarrow> decode_object_type bs = Inr ty"
  by (auto simp: encode_file_Some decode_object_type_def)

lemma demo_types:
  "decode_object_type (tree_bytes empty_tree) = Inr ObjectType.Tree" "decode_object_type (tree_bytes one_tree) = Inr ObjectType.Tree"
  "decode_object_type (commit_bytes demo_base) = Inr ObjectType.Commit" "decode_object_type (commit_bytes demo_next) = Inr ObjectType.Commit"
  "decode_object_type receipt_bytes = Inr ObjectType.Contribution" "decode_object_type blob_bytes = Inr ObjectType.Blob"
proof -
  have t: "decode_object_type (tree_bytes t) = Inr ObjectType.Tree" if "small_tree t" for t
    using tree_bytes [OF that] by (auto simp: tree_encode_def split: if_split_asm sum.splits intro: encoded_type)
  show "decode_object_type (tree_bytes empty_tree) = Inr ObjectType.Tree" "decode_object_type (tree_bytes one_tree) = Inr ObjectType.Tree"
    using t demo_trees by blast+
  show "decode_object_type (commit_bytes demo_base) = Inr ObjectType.Commit" "decode_object_type (commit_bytes demo_next) = Inr ObjectType.Commit"
    using demo_commits by (auto simp: commit_encode_record intro: encoded_type)
  show "decode_object_type receipt_bytes = Inr ObjectType.Contribution"
    using demo_receipt_encodes by (auto simp: contribution_encode_def Let_def split: sum.splits if_split_asm intro: encoded_type)
  show "decode_object_type blob_bytes = Inr ObjectType.Blob"
    using demo_blob_encodes(2) blob_decode_iff [of blob_bytes "\<lparr>data = []\<rparr>"] by (auto simp: blob_encode_Some intro: encoded_type)
qed

lemma demo_decodes:
  "tree_decode (tree_bytes empty_tree) = Inr empty_tree" "tree_decode (tree_bytes one_tree) = Inr one_tree"
  "commit_decode (commit_bytes demo_base) = Inr demo_base" "commit_decode (commit_bytes demo_next) = Inr demo_next"
  using tree_bytes demo_trees demo_commits
  by (auto simp: commit_decode_iff commit_ok_def demo_base_def demo_next_def max_commit_parents_def valid_str_ascii ascii_char_def valid_str_def)

lemma demo_distinct:
  "distinct [tree_bytes empty_tree, tree_bytes one_tree, commit_bytes demo_base, commit_bytes demo_next, receipt_bytes, blob_bytes]"
proof -
  have "tree_bytes empty_tree \<noteq> tree_bytes one_tree" using demo_decodes(1,2) by (auto simp: empty_tree_def one_tree_def)
  moreover have "commit_bytes demo_base \<noteq> commit_bytes demo_next" using demo_decodes(3,4) by (auto simp: demo_base_def demo_next_def)
  ultimately show ?thesis using demo_types by auto
qed

definition demo_hash :: "bytes \<Rightarrow> oid" where
  "demo_hash bs =
    (if bs = tree_bytes empty_tree then 2 else if bs = tree_bytes one_tree then 1 else if bs = commit_bytes demo_base then 5
     else if bs = commit_bytes demo_next then 6 else if bs = receipt_bytes then 3 else if bs = blob_bytes then 7 else 0)"

lemma demo_ids [simp]:
  "demo_hash (tree_bytes empty_tree) = 2" "demo_hash (tree_bytes one_tree) = 1" "demo_hash (commit_bytes demo_base) = 5"
  "demo_hash (commit_bytes demo_next) = 6" "demo_hash receipt_bytes = 3" "demo_hash blob_bytes = 7"
  using demo_distinct by (auto simp: demo_hash_def)

definition demo_bytes :: "bytes set" where
  "demo_bytes = {tree_bytes empty_tree, tree_bytes one_tree, commit_bytes demo_base, commit_bytes demo_next, receipt_bytes, blob_bytes}"

lemma demo_hash_inj: "inj_on demo_hash demo_bytes"
  by (auto simp: demo_bytes_def inj_on_def)

lemma demo_good: "ran (visible (l_store l)) \<union> l_seen l \<subseteq> demo_bytes \<Longrightarrow> log_good demo_hash l"
  unfolding log_good_def by (rule inj_on_subset [OF demo_hash_inj])

section \<open>The session\<close>

definition demo_env :: Env where
  "demo_env = \<lparr>env_hash = demo_hash, env_hmac = \<lambda>_ _. []\<rparr>"

definition demo_cap :: Capability where
  "demo_cap = \<lparr>p_ops = {Op.Read, Op.Write}, p_ref_sets = [], p_op_ref_sets = Map.empty, p_ref_not = [], p_time_le = None,
     p_agent = Some ''a'', p_agent_conflict = False, cap_loc = ''forge'', cap_id = ''demo'',
     cap_caveats = [''ops=read,write'', ''agent=a''], cap_sig = []\<rparr>"

definition demo_store :: MemoryObjectStore where
  "demo_store = (memory_store_new False)\<lparr>visible := [2 \<mapsto> tree_bytes empty_tree, 5 \<mapsto> commit_bytes demo_base, 7 \<mapsto> blob_bytes]\<rparr>"

text \<open>The session's rows: \<open>staged\<close> is its overlay, \<open>tip\<close> where its head is now.\<close>

definition demo_catalog :: "((string \<times> string \<times> string) \<times> OverlayRec) list \<Rightarrow> oid \<Rightarrow> Catalog" where
  "demo_catalog rows head_oid = empty_catalog\<lparr>refs := [(demo_head, ref_row head_oid ''commit'' False False 0)],
     namespaces := [(''s1'', \<lparr>n_agent_id = ''a'', n_created_ms = 0, n_pinned_oid = Some 5, n_live_ref = Some demo_head\<rparr>)],
     mounts := [((''s1'', ''/''), \<lparr>m_spec = ''ref:'' @ demo_head, m_mode = ''rw'', m_base_oid = Some 5\<rparr>)],
     overlay := rows\<rparr>"

definition demo_forge :: "((string \<times> string \<times> string) \<times> OverlayRec) list \<Rightarrow> oid \<Rightarrow> Forge" where
  "demo_forge rows head_oid = \<lparr>f_store = \<lparr>l_store = demo_store, l_seen = {}\<rparr>, f_meta = demo_catalog rows head_oid, f_hmac_key = [],
     f_stats = \<lparr>ct_stale_observation = 0, ct_merge_conflict = 0, ct_sessions_opened = 0, ct_merge_applied = 0, ct_renames = 0\<rparr>\<rparr>"

definition demo_mount :: Mount where
  "demo_mount = \<lparr>mnt_path = ''/'', mnt_spec = ''ref:'' @ demo_head, mnt_mode = Rw, mnt_base_oid = Some 5\<rparr>"

lemma demo_session:
  "session_mounts ''s1'' (demo_forge rows i) = [demo_mount]"
  "require_ns demo_cap ''s1'' (demo_forge rows i) = Inr \<lparr>ns_id = ''s1'', ns_agent_id = ''a'', ns_pinned_oid = Some 5, ns_live_ref = Some demo_head\<rparr>"
  by (simp_all add: session_mounts_def list_mounts_def demo_forge_def demo_catalog_def mount_of_row_def mount_row_def parse_mode_def
      demo_mount_def require_ns_def get_namespace_def ok_or_def ns_row_def agent_id_def demo_cap_def)

lemma demo_check:
  "op \<in> {Op.Read, Op.Write} \<Longrightarrow> check demo_env now demo_cap op r (demo_forge rows i) = Inr ()"
  by (cases r) (auto simp: check_def verify_def sign_chain_def demo_env_def demo_cap_def allows_def Let_def)

lemma demo_spec: "parse_spec (mnt_spec demo_mount) = Inr (SpecRef demo_head)"
  by (simp add: parse_spec_def demo_mount_def strip_prefix_def)

lemma demo_paths:
  "longest_mount [demo_mount] ''/a'' = Inr demo_mount" "rel_of (mnt_path demo_mount) ''/a'' = Inr ''a''"
  "named_mount [demo_mount] ''/'' = Inr demo_mount"
  by code_simp+

lemma demo_gets:
  "store_get demo_hash 5 demo_store = Inr (commit_bytes demo_base)" "store_get demo_hash 2 demo_store = Inr (tree_bytes empty_tree)"
  "store_get demo_hash 7 demo_store = Inr blob_bytes"
  by (simp_all add: store_get_def ok_or_def demo_store_def)

lemma demo_selects [simp]:
  "objects (demo_forge rows i) = demo_store" "f_meta (demo_forge rows i) = demo_catalog rows i" "env_hash demo_env = demo_hash"
  "l_seen (f_store (demo_forge rows i)) = {}" "c_tree demo_base = 2"
  by (simp_all add: demo_forge_def demo_env_def demo_base_def)

lemma demo_open:
  "open_write demo_env now demo_cap ''s1'' ''/a'' (demo_forge rows i) = Inr demo_mount"
  "open_read demo_env now demo_cap ''s1'' ''/a'' (demo_forge rows i) = Inr (demo_mount, ''a'', 2)"
proof -
  have "tree_of demo_env 5 (demo_forge rows i) = Inr 2"
    by (simp add: tree_of_def object_type_def get_commit_def demo_gets demo_types demo_decodes)
  moreover have "mnt_mode demo_mount = Rw" "mnt_base_oid demo_mount = Some 5" by (simp_all add: demo_mount_def)
  ultimately show "open_write demo_env now demo_cap ''s1'' ''/a'' (demo_forge rows i) = Inr demo_mount"
    "open_read demo_env now demo_cap ''s1'' ''/a'' (demo_forge rows i) = Inr (demo_mount, ''a'', 2)"
    by (simp_all add: open_write_def open_read_def demo_session demo_paths check_mount_write_def check_spec_read_def demo_spec
        demo_check session_mount_tree_def)
qed

section \<open>Staging and reading\<close>

definition staged_a :: "((string \<times> string \<times> string) \<times> OverlayRec) list" where
  "staged_a = [((''s1'', ''/'', ''a''), \<lparr>o_blob_oid = Some 7, o_exec = False\<rparr>)]"

lemma demo_put: "\<exists>l. put_blob demo_env [] (f_store (demo_forge rows i)) = Some (Inr 7, l) \<and> visible (l_store l) = visible demo_store \<and>
    l_seen l = {blob_bytes}"
  by (simp add: put_blob_Some demo_blob_encodes store_put_parts_def put_parts_def hash_parts_def demo_store_def memory_store_new_def
      Let_def batch_finish_def begin_batch_def demo_forge_def)

lemma demo_write:
  "\<exists>w'. forge_write demo_env 0 demo_cap ''s1'' ''/a'' [] False (demo_forge [] 5) = Some (Inr 7, w') \<and> log_good demo_hash (f_store w')"
proof -
  obtain l where l: "put_blob demo_env [] (f_store (demo_forge [] 5)) = Some (Inr 7, l)" "visible (l_store l) = visible demo_store"
      "l_seen l = {blob_bytes}"
    using demo_put by blast
  have "log_good demo_hash l" by (rule demo_good) (auto simp: l(2,3) demo_store_def demo_bytes_def ran_def split: if_split_asm)
  then show ?thesis
    using l(1) demo_open(1) [of 0 "[]" 5] demo_paths(2)
    by (simp add: forge_write_Inr demo_catalog_def empty_catalog_def overlay_conflict_def)
qed

theorem write_then_read_witness:
  "\<exists>w' w''. forge_write demo_env 0 demo_cap ''s1'' ''/a'' [] False (demo_forge [] 5) = Some (Inr 7, w') \<and>
    forge_read demo_env 0 demo_cap ''s1'' ''/a'' w' = Some (Inr [], w'')"
proof -
  obtain w' where w': "forge_write demo_env 0 demo_cap ''s1'' ''/a'' [] False (demo_forge [] 5) = Some (Inr 7, w')" "log_good demo_hash (f_store w')"
    using demo_write by blast
  have "\<exists>w''. forge_read demo_env 0 demo_cap ''s1'' ''/a'' w' = Some (Inr [], w'')"
    by (rule write_then_read [OF w'(1) demo_open(2)]) (use w'(2) in \<open>simp_all add: demo_catalog_def\<close>)
  then show ?thesis using w'(1) by blast
qed

theorem staging_needs_authority_witness:
  "\<exists>w'. staging_step demo_env 0 demo_cap ''s1'' (demo_forge [] 5) w' \<and> f_meta w' \<noteq> f_meta (demo_forge [] 5) \<and>
    (\<exists>m. may_stage demo_env 0 demo_cap ''s1'' m (demo_forge [] 5) \<and> staged_only ''s1'' (mnt_path m) (f_meta (demo_forge [] 5)) (f_meta w'))"
proof -
  obtain w' where w': "forge_write demo_env 0 demo_cap ''s1'' ''/a'' [] False (demo_forge [] 5) = Some (Inr 7, w')"
    using demo_write by blast
  then have step: "staging_step demo_env 0 demo_cap ''s1'' (demo_forge [] 5) w'" by (rule staging_step.intros)
  have "overlay (f_meta w') \<noteq> overlay (f_meta (demo_forge [] 5))"
    using w' by (auto simp: forge_write_Inr demo_catalog_def stage_def)
  then have "f_meta w' \<noteq> f_meta (demo_forge [] 5)" by metis
  then show ?thesis using staging_needs_authority [OF step] step by blast
qed

theorem reads_never_block_checkin_witness:
  "\<exists>w' w''. forge_write demo_env 0 demo_cap ''s1'' ''/a'' [] False (demo_forge [] 5) = Some (Inr 7, w') \<and>
    forge_read demo_env 0 demo_cap ''s1'' ''/a'' w' = Some (Inr [], w'') \<and>
    check_observations demo_env ''s1'' (session_mounts ''s1'' w'') w'' = Some (Inr (), w'')"
proof -
  let ?w = "demo_forge [] 5"
  obtain w' where w': "forge_write demo_env 0 demo_cap ''s1'' ''/a'' [] False ?w = Some (Inr 7, w')" "log_good demo_hash (f_store w')"
    using demo_write by blast
  obtain w'' where w'': "forge_read demo_env 0 demo_cap ''s1'' ''/a'' w' = Some (Inr [], w'')"
    using read_back [OF w'(1) demo_open(2)] w'(2) by (auto simp: demo_catalog_def)
  have ms: "session_mounts ''s1'' w' = [demo_mount]" and none: "observation_rows (f_meta w') = []"
    using w'(1) demo_session(1) [of "[]" 5]
    by (auto simp: forge_write_Inr session_mounts_def list_mounts_def demo_catalog_def empty_catalog_def)
  have "w'' = w' \<or> records demo_env ''s1'' w' w''" by (rule forge_read_records [OF w''])
  then have obs: "session_mounts ''s1'' w'' = [demo_mount] \<and> (\<forall>k seen. (k, seen) \<in> set (observation_rows (f_meta w'')) \<longrightarrow> fst (snd k) = ''/'')"
  proof
    assume "records demo_env ''s1'' w' w''"
    then obtain m rel seen c' where m: "m \<in> set [demo_mount]"
      and c: "observe ''s1'' (mnt_path m) rel seen (f_meta w') = Inr ((), c')" "w'' = w'\<lparr>f_meta := c'\<rparr>"
      unfolding records_def ms by blast
    have "mnt_path m = ''/''" using m by (simp add: demo_mount_def)
    note c' = c [unfolded this]
    then have "observation_rows c' = [((''s1'', ''/'', rel), seen)]"
      by (auto simp: observe_def begin_tx_def none observation_is_current_def split: if_split_asm)
    then show ?thesis using ms observe_rows(3) [OF c'(1)] by (simp add: c'(2) session_mounts_def list_mounts_def)
  qed (use ms none in simp)
  have steps: "(session_step demo_env demo_cap ''s1'')\<^sup>*\<^sup>* ?w w''"
    by (rule converse_rtranclp_into_rtranclp, rule session_write [OF w'(1)], rule r_into_rtranclp, rule session_read [OF w''])
  have "check_observations demo_env ''s1'' (session_mounts ''s1'' w'') w'' = Some (Inr (), w'')"
  proof (rule reads_never_block_checkin [OF steps])
    fix mount path seen
    assume "(mount, path, seen) \<in> set (observations (f_meta w'') ''s1'')"
    then have "mount = ''/''" using obs by (force simp: observations_def)
    then show "\<exists>m \<in> set (session_mounts ''s1'' w''). mnt_path m = mount \<and> pinned m"
      using obs by (simp add: pinned_def demo_mount_def)
  qed (simp_all add: demo_session demo_catalog_def empty_catalog_def)
  then show ?thesis using w'(1) w'' by blast
qed

section \<open>Taking the mount again\<close>

definition moved_forge :: Forge where
  "moved_forge = (demo_forge staged_a 6)\<lparr>f_store := \<lparr>l_store = demo_store\<lparr>visible := (visible demo_store)(6 \<mapsto> commit_bytes demo_next)\<rparr>, l_seen = {}\<rparr>\<rparr>"

lemma moved_mount: "\<exists>w'. forge_mount demo_env 0 demo_cap ''s1'' ''/'' (mnt_spec demo_mount) True moved_forge = Some (Inr (), w')"
proof -
  have n: "normalize_abs ''/'' = Inr ''/''" by code_simp
  have "get_ref (f_meta moved_forge) demo_head =
      Some \<lparr>row_name = demo_head, row_oid = 6, row_kind = ''commit'', row_protected = False, row_sealed = False\<rparr>"
    by (simp add: moved_forge_def demo_forge_def demo_catalog_def get_ref_def)
  moreover have "require_ns demo_cap ''s1'' moved_forge = require_ns demo_cap ''s1'' (demo_forge staged_a 6)"
    "check demo_env 0 demo_cap Op.Write (Some demo_head) moved_forge = check demo_env 0 demo_cap Op.Write (Some demo_head) (demo_forge staged_a 6)"
    by (simp_all add: moved_forge_def require_ns_def check_def)
  moreover have "object_type demo_hash 6 (objects moved_forge) = Inr ObjectType.Commit"
    by (simp add: moved_forge_def object_type_def store_get_def ok_or_def demo_types)
  moreover have "get_mount (f_meta moved_forge) ''s1'' ''/'' = Some \<lparr>mt_path = ''/'', mt_spec = mnt_spec demo_mount, mt_mode = ''rw'', mt_base_oid = Some 5\<rparr>"
    by (simp add: moved_forge_def demo_forge_def demo_catalog_def get_mount_def mount_row_def demo_mount_def)
  ultimately show ?thesis
    by (simp add: forge_mount_def act_bind_Inr_iff n demo_session demo_spec demo_check refuse_rw_mount_of_protected_ref_def
        resolve_spec_oid_def ok_or_def refuse_retargeting_staged_work_def meta_Inr insert_mount_def begin_tx_def mount_modes_def)
       (simp add: moved_forge_def demo_forge_def demo_catalog_def empty_catalog_def)
qed

theorem rw_mount_is_publishable_witness:
  "\<exists>w' row. forge_mount demo_env 0 demo_cap ''s1'' ''/'' (mnt_spec demo_mount) True moved_forge = Some (Inr (), w') \<and>
    get_ref (f_meta moved_forge) demo_head = Some row \<and> \<not> row_protected row \<and>
    get_mount (f_meta w') ''s1'' ''/'' = Some \<lparr>mt_path = ''/'', mt_spec = mnt_spec demo_mount, mt_mode = ''rw'', mt_base_oid = Some (row_oid row)\<rparr>"
proof -
  obtain w' where w': "forge_mount demo_env 0 demo_cap ''s1'' ''/'' (mnt_spec demo_mount) True moved_forge = Some (Inr (), w')"
    using moved_mount by blast
  have "normalize_abs ''/'' = Inr ''/''" by code_simp
  then show ?thesis using rw_mount_is_publishable [OF w'] w' demo_spec by auto
qed

theorem remount_moves_pin_under_staged_work_witness:
  "\<exists>w'. forge_mount demo_env 0 demo_cap ''s1'' ''/'' (mnt_spec demo_mount) True moved_forge = Some (Inr (), w') \<and>
    mt_base_oid (the (get_mount (f_meta moved_forge) ''s1'' ''/'')) = Some 5 \<and>
    mt_base_oid (the (get_mount (f_meta w') ''s1'' ''/'')) = Some 6 \<and>
    overlay_list (f_meta w') ''s1'' ''/'' = [(''a'', Some 7, False)]"
proof -
  obtain w' where w': "forge_mount demo_env 0 demo_cap ''s1'' ''/'' (mnt_spec demo_mount) True moved_forge = Some (Inr (), w')"
    using moved_mount by blast
  have n: "normalize_abs ''/'' = Inr ''/''" by code_simp
  let ?row = "\<lparr>row_name = demo_head, row_oid = 6, row_kind = ''commit'', row_protected = False, row_sealed = False\<rparr>"
  have r: "get_ref (f_meta moved_forge) demo_head = Some ?row"
    by (simp add: moved_forge_def demo_forge_def demo_catalog_def get_ref_def)
  have old: "get_mount (f_meta moved_forge) ''s1'' ''/'' = Some \<lparr>mt_path = ''/'', mt_spec = mnt_spec demo_mount, mt_mode = ''rw'', mt_base_oid = Some 5\<rparr>"
    by (simp add: moved_forge_def demo_forge_def demo_catalog_def get_mount_def mount_row_def demo_mount_def)
  have rows: "overlay_list (f_meta moved_forge) ''s1'' ''/'' = [(''a'', Some 7, False)]"
    by (simp add: moved_forge_def demo_forge_def demo_catalog_def overlay_list_def staged_a_def)
  show ?thesis using remount_moves_pin_under_staged_work [OF w' n demo_spec r old] w' old rows by auto
qed

section \<open>Checking in\<close>

text \<open>A store that holds some of the example's objects.\<close>

definition demo_world :: "(oid \<Rightarrow> bytes option) \<Rightarrow> Catalog \<Rightarrow> Forge \<Rightarrow> bool" where
  "demo_world V c w \<longleftrightarrow> visible (objects w) = V \<and> \<not> Object_Store.read_only (objects w) \<and> l_seen (f_store w) \<subseteq> demo_bytes \<and>
    ran V \<subseteq> demo_bytes \<and> f_meta w = c"

definition demo_visible :: "oid \<Rightarrow> bytes option" where
  "demo_visible = [2 \<mapsto> tree_bytes empty_tree, 5 \<mapsto> commit_bytes demo_base, 7 \<mapsto> blob_bytes]"

lemma demo_world_init: "demo_world demo_visible (demo_catalog rows i) (demo_forge rows i)"
  by (auto simp: demo_world_def demo_visible_def demo_store_def memory_store_new_def ran_def demo_bytes_def demo_forge_def split: if_split_asm)

lemma demo_world_good: "demo_world V c w \<Longrightarrow> log_good demo_hash (f_store w)"
  by (rule demo_good) (auto simp: demo_world_def)

lemma demo_world_get: "demo_world V c w \<Longrightarrow> V (demo_hash bs) = Some bs \<Longrightarrow> store_get demo_hash (demo_hash bs) (objects w) = Inr bs"
  by (simp add: demo_world_def store_get_def ok_or_def)

lemma demo_batch_put:
  assumes "visible (p_store p) = V" "\<not> Object_Store.read_only (p_store p)" "V (demo_hash bs) \<in> {None, Some bs}"
  shows "\<exists>p'. batch_put_bytes demo_hash bs p = Some (Inr (demo_hash bs), p') \<and> visible (p_store p') = V(demo_hash bs \<mapsto> bs) \<and>
    \<not> Object_Store.read_only (p_store p') \<and> p_seen p' = insert bs (p_seen p)"
  using assms by (auto simp: batch_put_bytes_def batch_put_def put_parts_def hash_parts_def Let_def fun_upd_idem)

lemma demo_batched_put:
  assumes "demo_world V c w" "bs \<in> demo_bytes" "V (demo_hash bs) \<in> {None, Some bs}"
  shows "\<exists>b' w'. batched b (batch_put_bytes demo_hash bs) w = Some (Inr (demo_hash bs, b'), w') \<and> demo_world (V(demo_hash bs \<mapsto> bs)) c w'"
proof -
  have r: "ran (V(demo_hash bs \<mapsto> bs)) \<subseteq> demo_bytes" using assms(1,2) by (auto simp: demo_world_def ran_def)
  show ?thesis
    using demo_batch_put [of "\<lparr>p_store = objects w, p_batch = b, p_seen = l_seen (f_store w)\<rparr>" V bs] assms r
    by (auto simp: batched_Some demo_world_def)
qed

lemma demo_tree_put:
  assumes "small_tree t" "visible (p_store p) = V" "\<not> Object_Store.read_only (p_store p)" "V (demo_hash (tree_bytes t)) \<in> {None, Some (tree_bytes t)}"
  shows "\<exists>p'. batch_put_tree demo_hash t p = (Inr (demo_hash (tree_bytes t)), p') \<and> visible (p_store p') = V(demo_hash (tree_bytes t) \<mapsto> tree_bytes t) \<and>
    \<not> Object_Store.read_only (p_store p') \<and> p_seen p' = insert (tree_bytes t) (p_seen p)"
  using demo_batch_put [OF assms(2-4)] tree_bytes [OF assms(1)]
  by (auto simp: batch_put_bytes_def batch_put_tree_def split: prod.splits)

text \<open>Folding the staged file, or the removal of a file that is not there, onto the empty tree.\<close>

lemma demo_fold:
  assumes "demo_world V c w" "V 2 = Some (tree_bytes empty_tree)" "V 1 = None"
  shows "\<exists>b w1. batched begin_batch (fold_overlay demo_env 2 [(''a'', Some (7, False))]) w = Some (Inr (1, b), w1) \<and>
      demo_world (V(1 \<mapsto> tree_bytes one_tree)) c w1"
    "\<exists>b w1. batched begin_batch (fold_overlay demo_env 2 [(''a'', None)]) w = Some (Inr (2, b), w1) \<and> demo_world V c w1"
proof -
  let ?p = "\<lparr>p_store = objects w, p_batch = begin_batch, p_seen = l_seen (f_store w)\<rparr>"
  have get: "batch_get_tree demo_hash 2 ?p = Inr empty_tree"
    using demo_world_get [OF assms(1), of "tree_bytes empty_tree"] assms(2)
    by (simp add: batch_get_tree_def get_tree_def demo_decodes)
  have w: "visible (p_store ?p) = V" "\<not> Object_Store.read_only (p_store ?p)" using assms(1) by (simp_all add: demo_world_def)
  have defs: "from_canonical [ex_file ''a'' 7] = Inr one_tree" "from_canonical [] = Inr empty_tree"
    using demo_trees by (simp_all add: from_canonical_iff one_tree_def empty_tree_def small_tree_def)
  have fuel: "overlay_fuel [(''a'', Some (7, False))] = Suc (Suc 0)" "overlay_fuel [(''a'', None)] = Suc (Suc 0)" by (simp_all add: overlay_fuel_def)
  obtain p1 where p1: "batch_put_tree demo_hash one_tree ?p = (Inr 1, p1)" "visible (p_store p1) = V(1 \<mapsto> tree_bytes one_tree)"
    "\<not> Object_Store.read_only (p_store p1)" "p_seen p1 = insert (tree_bytes one_tree) (l_seen (f_store w))"
    using demo_tree_put [OF demo_trees(2) w] assms(3) by auto
  obtain p2 where p2: "batch_put_tree demo_hash empty_tree ?p = (Inr 2, p2)" "visible (p_store p2) = V"
    "\<not> Object_Store.read_only (p_store p2)" "p_seen p2 = insert (tree_bytes empty_tree) (l_seen (f_store w))"
    using demo_tree_put [OF demo_trees(1) w] assms(2) by (auto simp: fun_upd_idem)
  have f1: "fold_overlay demo_env 2 [(''a'', Some (7, False))] ?p = Some (Inr 1, p1)"
    using get p1(1) defs
    by (simp add: fold_overlay_def apply_overlay_def fuel act_bind_def act_of_def act_ret_def split_level_def split_step_def
        strip_path_prefix_def file_edits_def file_edit_def max_tree_entries_def Let_def empty_tree_def ex_file_def)
  have f2: "fold_overlay demo_env 2 [(''a'', None)] ?p = Some (Inr 2, p2)"
    using get p2(1) defs
    by (simp add: fold_overlay_def apply_overlay_def fuel act_bind_def act_of_def act_ret_def split_level_def split_step_def
        strip_path_prefix_def file_edits_def file_edit_def max_tree_entries_def Let_def empty_tree_def)
  have in_bytes: "tree_bytes one_tree \<in> demo_bytes" "tree_bytes empty_tree \<in> demo_bytes" by (simp_all add: demo_bytes_def)
  have "ran (V(1 \<mapsto> tree_bytes one_tree)) \<subseteq> demo_bytes"
    using assms(1) in_bytes(1) by (auto simp: demo_world_def ran_def)
  then show "\<exists>b w1. batched begin_batch (fold_overlay demo_env 2 [(''a'', Some (7, False))]) w = Some (Inr (1, b), w1) \<and>
      demo_world (V(1 \<mapsto> tree_bytes one_tree)) c w1"
    using f1 p1 assms(1) in_bytes by (auto simp: batched_Some demo_world_def)
  show "\<exists>b w1. batched begin_batch (fold_overlay demo_env 2 [(''a'', None)]) w = Some (Inr (2, b), w1) \<and> demo_world V c w1"
    using f2 p2 assms(1) in_bytes by (auto simp: batched_Some demo_world_def)
qed

definition staged_gone :: "((string \<times> string \<times> string) \<times> OverlayRec) list" where
  "staged_gone = [((''s1'', ''/'', ''a''), \<lparr>o_blob_oid = None, o_exec = False\<rparr>)]"

definition demo_row :: RefRow where
  "demo_row = \<lparr>row_name = demo_head, row_oid = 5, row_kind = ''commit'', row_protected = False, row_sealed = False\<rparr>"

lemma demo_open_checkin:
  "open_checkin demo_env 0 demo_cap ''s1'' ''/'' (demo_forge rows 5) = Inr (demo_mount, demo_head, 5, demo_row, demo_base)"
proof -
  have "get_ref (demo_catalog rows 5) demo_head = Some demo_row" by (simp add: demo_catalog_def get_ref_def demo_row_def)
  moreover have "get_commit demo_hash 5 demo_store = Inr demo_base" by (simp add: get_commit_def demo_gets demo_decodes)
  moreover have "mnt_mode demo_mount = Rw" "mnt_base_oid demo_mount = Some 5" by (simp_all add: demo_mount_def)
  ultimately show ?thesis
    by (simp add: open_checkin_def demo_session demo_paths demo_spec demo_check ok_or_def)
qed

lemma demo_checkin_start:
  "forge_checkin demo_env 0 ''02'' demo_cap ''s1'' ''/'' [] (demo_forge rows 5) =
    act_bind (batched begin_batch (fold_overlay demo_env 2 (overlay_map (overlay_list (demo_catalog rows 5) ''s1'' ''/'')))) (\<lambda>(new_tree, b).
      if new_tree = 2 then checkin_noop demo_env ''s1'' [demo_mount] demo_mount demo_head 5 demo_row b
      else checkin_publish demo_env 0 ''02'' demo_cap ''s1'' demo_mount demo_head 5 2 new_tree []
        (overlay_list (demo_catalog rows 5) ''s1'' ''/'') [] b) (demo_forge rows 5)"
proof -
  have "observations (demo_catalog rows 5) ''s1'' = []" "mnt_path demo_mount = ''/''" "row_oid demo_row = 5"
    by (simp_all add: observations_def demo_catalog_def empty_catalog_def demo_mount_def demo_row_def)
  moreover from this have "check_observations demo_env ''s1'' ms (demo_forge rows 5) = Some (Inr (), demo_forge rows 5)" for ms
    by (simp add: check_observations_def act_bind_Inr_iff)
  ultimately show ?thesis
    by (simp add: forge_checkin_def act_bind_def act_of_def demo_open_checkin demo_session)
qed

lemma demo_noop:
  "\<exists>w'. forge_checkin demo_env 0 ''02'' demo_cap ''s1'' ''/'' [] (demo_forge staged_gone 5) = Some (Inr (Noop demo_head 5), w') \<and>
    log_good demo_hash (f_store w')"
proof -
  have rows: "overlay_map (overlay_list (demo_catalog staged_gone 5) ''s1'' ''/'') = [(''a'', None)]"
    by (simp add: overlay_map_def overlay_list_def demo_catalog_def staged_gone_def)
  have v: "demo_visible 2 = Some (tree_bytes empty_tree)" "demo_visible 1 = None" by (simp_all add: demo_visible_def)
  obtain b w1 where f: "batched begin_batch (fold_overlay demo_env 2 [(''a'', None)]) (demo_forge staged_gone 5) = Some (Inr (2, b), w1)"
      "demo_world demo_visible (demo_catalog staged_gone 5) w1"
    using demo_fold(2) [OF demo_world_init v] by blast
  have c: "f_meta w1 = demo_catalog staged_gone 5" using f(2) by (simp add: demo_world_def)
  have out: "overlay_mounts_outside (demo_catalog staged_gone 5) ''s1'' (mnt_path demo_mount) = []"
    by (simp add: overlay_mounts_outside_def demo_catalog_def staged_gone_def demo_mount_def)
  obtain c' where c': "complete_noop_session ''s1'' (mnt_path demo_mount) 5 (demo_catalog staged_gone 5) = Inr ((), c')"
    by (simp add: complete_noop_session_def begin_tx_def demo_catalog_def empty_catalog_def close_epoch_def repin_mount_tx_def
        has_row_def clear_overlay_def demo_mount_def)
  let ?w2 = "w1\<lparr>f_store := (f_store w1)\<lparr>l_store := batch_finish (objects w1, b)\<rparr>\<rparr>"
  have "checkin_noop demo_env ''s1'' [demo_mount] demo_mount demo_head 5 demo_row b w1 = Some (Inr (Noop demo_head 5), ?w2\<lparr>f_meta := c'\<rparr>)"
    using c' by (simp add: checkin_noop_def act_bind_Inr_iff c out finish_batch_def meta_Inr demo_row_def)
  then have "forge_checkin demo_env 0 ''02'' demo_cap ''s1'' ''/'' [] (demo_forge staged_gone 5) = Some (Inr (Noop demo_head 5), ?w2\<lparr>f_meta := c'\<rparr>)"
    unfolding demo_checkin_start rows using f(1) by (simp add: act_bind_Inr_iff)
  moreover have "log_good demo_hash (f_store (?w2\<lparr>f_meta := c'\<rparr>))"
    using demo_world_good [OF f(2)] by (simp add: log_good_def)
  ultimately show ?thesis by blast
qed

theorem noop_only_without_work_witness:
  "\<exists>w'. forge_checkin demo_env 0 ''02'' demo_cap ''s1'' ''/'' [] (demo_forge staged_gone 5) = Some (Inr (Noop demo_head 5), w') \<and>
    holds_no_work demo_env ''s1'' (demo_forge staged_gone 5) w' ''/''"
proof -
  obtain w' where w': "forge_checkin demo_env 0 ''02'' demo_cap ''s1'' ''/'' [] (demo_forge staged_gone 5) = Some (Inr (Noop demo_head 5), w')"
      "log_good demo_hash (f_store w')" using demo_noop by blast
  have rows: "map_of (overlay_map (overlay_list (f_meta (demo_forge staged_gone 5)) ''s1'' k)) (slash # r) = None" for k r
    by (simp add: overlay_map_def overlay_list_def demo_catalog_def staged_gone_def)
  have "map_of (overlay (f_meta (demo_forge staged_gone 5))) (''s1'', ''/'', ''a'') \<noteq> None"
    by (simp add: demo_catalog_def staged_gone_def)
  then have "holds_no_work demo_env ''s1'' (demo_forge staged_gone 5) w' ''/''"
    using noop_only_without_work [OF w'(1) _ rows] w'(2) by (metis demo_selects(3))
  then show ?thesis using w'(1) by blast
qed

lemma one_file_intros:
  assumes g: "store_get H 2 st = Inr (tree_bytes empty_tree)" "store_get H 1 st = Inr (tree_bytes one_tree)" "store_get H 7 st = Inr blob_bytes"
  shows "collect_intros H (Some 2) 1 st = Some (Inr [1, 7], st)"
proof -
  have node: "intro_node H (Some 2) 1 ObjectType.Tree st = Inr [(ex_file ''a'' 7, None)]"
  proof -
    have "as_map empty_tree = []" "entries one_tree = [ex_file ''a'' 7]" by (simp_all add: empty_tree_def one_tree_def as_map_def)
    then show ?thesis using g by (simp add: intro_node_def old_entries_def demo_types demo_decodes old_id_def)
  qed
  have blob: "intro_walk H None 7 ObjectType.Blob oids st = Some (Inr (oids @ [7]), st)" for oids
    using g(3) by (subst intro_walk.simps) (simp add: act_bind_Inr_iff verify_blob_def demo_blob_encodes)
  show ?thesis
    unfolding collect_intros_def
    by (subst intro_walk.simps) (simp add: act_bind_Inr_iff node ex_file_def edge_type_def blob)
qed

lemma demo_intros:
  assumes "demo_world V c w" "V 2 = Some (tree_bytes empty_tree)" "V 1 = Some (tree_bytes one_tree)" "V 7 = Some blob_bytes"
  shows "collect_intros demo_hash (Some 2) 1 (objects w) = Some (Inr [1, 7], objects w)"
  using demo_world_get [OF assms(1), of "tree_bytes empty_tree"] demo_world_get [OF assms(1), of "tree_bytes one_tree"]
    demo_world_get [OF assms(1), of blob_bytes] assms(2-4) by (intro one_file_intros) simp_all

lemma demo_update:
  "\<exists>w'. forge_checkin demo_env 0 ''02'' demo_cap ''s1'' ''/'' [] (demo_forge staged_a 5) = Some (Inr (Updated demo_head 6), w') \<and>
    log_good demo_hash (f_store w')"
proof -
  let ?c = "demo_catalog staged_a 5"
  have rows: "overlay_list ?c ''s1'' ''/'' = [(''a'', Some 7, False)]"
    by (simp add: overlay_list_def demo_catalog_def staged_a_def)
  have ov: "overlay_map [(''a'', Some 7, False)] = [(''a'', Some (7, False))]" by (simp add: overlay_map_def)
  have v: "demo_visible 2 = Some (tree_bytes empty_tree)" "demo_visible 1 = None" by (simp_all add: demo_visible_def)
  let ?V1 = "demo_visible(1 \<mapsto> tree_bytes one_tree)"
  obtain b w1 where f: "batched begin_batch (fold_overlay demo_env 2 [(''a'', Some (7, False))]) (demo_forge staged_a 5) = Some (Inr (1, b), w1)"
      "demo_world ?V1 ?c w1"
    using demo_fold(1) [OF demo_world_init v] by blast
  have mem: "receipt_bytes \<in> demo_bytes" "commit_bytes demo_next \<in> demo_bytes" by (simp_all add: demo_bytes_def)
  obtain b2 w2 where p2: "batched b (batch_put_bytes demo_hash receipt_bytes) w1 = Some (Inr (3, b2), w2)"
      "demo_world (?V1(3 \<mapsto> receipt_bytes)) ?c w2"
    using demo_batched_put [OF f(2) mem(1), of b] by (auto simp: demo_visible_def)
  obtain b3 w3 where p3: "batched b2 (batch_put_bytes demo_hash (commit_bytes demo_next)) w2 = Some (Inr (6, b3), w3)"
      "demo_world (?V1(3 \<mapsto> receipt_bytes, 6 \<mapsto> commit_bytes demo_next)) ?c w3"
    using demo_batched_put [OF p2(2) mem(2), of b2] by (auto simp: demo_visible_def)
  let ?w4 = "w3\<lparr>f_store := (f_store w3)\<lparr>l_store := batch_finish (objects w3, b3)\<rparr>\<rparr>"
  have w4: "demo_world (?V1(3 \<mapsto> receipt_bytes, 6 \<mapsto> commit_bytes demo_next)) ?c ?w4"
    using p3(2) by (simp add: demo_world_def batch_finish_def Let_def)
  have c: "f_meta ?w4 = ?c" using w4 by (simp add: demo_world_def)
  have intros: "collect_intros demo_hash (Some 2) 1 (objects ?w4) = Some (Inr [1, 7], objects ?w4)"
    by (rule demo_intros [OF w4]) (simp_all add: demo_visible_def)
  obtain c' where cas: "cas_ref_session demo_head 5 6 ''a'' ''a'' ''s1'' ''/'' [1, 7] ''02'' (uint (0 :: u64)) ?c = Inr (Updated demo_head 6, c')"
    by (simp add: cas_ref_session_def demo_head_ok begin_tx_def demo_catalog_def empty_catalog_def close_epoch_def repin_mount_tx_def
        has_row_def clear_overlay_def set_ref_oid_def)
  have receipt: "batched b (batch_put_contribution demo_hash demo_receipt) w1 = Some (Inr (3, b2), w2)"
    using p2(1) by (simp add: batched_def batch_put_contribution_def demo_receipt_encodes)
  have commit: "batched b2 (batch_put_commit demo_hash demo_next) w2 = Some (Inr (6, b3), w3)"
    using p3(1) by (simp add: batched_def batch_put_commit_def demo_commits)
  have "checkin_publish demo_env 0 ''02'' demo_cap ''s1'' demo_mount demo_head 5 2 1 [] [(''a'', Some 7, False)] [] b w1 =
      Some (Inr (Updated demo_head 6), ?w4\<lparr>f_meta := c'\<rparr>)"
  proof -
    have a: "agent_id demo_cap = ''a''" "mnt_path demo_mount = ''/''" by (simp_all add: agent_id_def demo_cap_def demo_mount_def)
    have r: "checkin_reads [] = []" "checkin_writes ''/'' [(''a'', Some 7, False)] = [''/a'']"
      by (simp_all add: checkin_reads_def checkin_writes_def contribution_path_def)
    have next_commit: "\<lparr>c_tree = 1, c_parents = [5], c_agent = ''a'', c_msg = [], c_ts = 0, c_landmark = False, c_contrib = Some 3\<rparr> = demo_next"
      by (simp add: demo_next_def)
    show ?thesis
      using receipt commit intros cas c
      by (simp add: checkin_publish_def r a Let_def demo_receipt_def [symmetric] next_commit act_bind_Inr_iff finish_batch_def meta_Inr)
  qed
  then have "forge_checkin demo_env 0 ''02'' demo_cap ''s1'' ''/'' [] (demo_forge staged_a 5) = Some (Inr (Updated demo_head 6), ?w4\<lparr>f_meta := c'\<rparr>)"
    unfolding demo_checkin_start rows ov using f(1) by (simp add: act_bind_Inr_iff)
  moreover have "log_good demo_hash (f_store (?w4\<lparr>f_meta := c'\<rparr>))" using demo_world_good [OF w4] by simp
  ultimately show ?thesis by blast
qed

theorem checkin_publishes_staged_work_witness:
  "\<exists>w' commit. forge_checkin demo_env 0 ''02'' demo_cap ''s1'' ''/'' [] (demo_forge staged_a 5) = Some (Inr (Updated demo_head 6), w') \<and>
    get_commit demo_hash 6 (objects w') = Inr commit \<and> c_parents commit = [5] \<and>
    file_at (get_tree demo_hash) (objects w') (Some (c_tree commit)) [''a''] = Some (7, False)"
proof -
  let ?w = "demo_forge staged_a 5"
  obtain w' where w': "forge_checkin demo_env 0 ''02'' demo_cap ''s1'' ''/'' [] ?w = Some (Inr (Updated demo_head 6), w')"
      "log_good demo_hash (f_store w')" using demo_update by blast
  have rows: "map_of (overlay_map (overlay_list (f_meta ?w) ''s1'' k)) (slash # r) = None" for k r
    by (simp add: overlay_map_def overlay_list_def demo_catalog_def staged_a_def)
  have ov: "map_of (overlay_map (overlay_list (f_meta ?w) ''s1'' (mnt_path demo_mount))) = [''a'' \<mapsto> Some (7, False)]"
    by (simp add: overlay_map_def overlay_list_def demo_catalog_def staged_a_def demo_mount_def)
  have v: "valid_str []" "valid_str (agent_id demo_cap)" by (simp_all add: agent_id_def demo_cap_def valid_str_def as_bytes_def)
  have "\<exists>m n pin row base. open_checkin demo_env 0 demo_cap ''s1'' ''/'' ?w = Inr (m, n, pin, row, base) \<and>
    (Updated demo_head 6 = Noop n pin \<or>
     (\<exists>cid commit. get_commit (env_hash demo_env) cid (objects w') = Inr commit \<and> c_parents commit = [pin] \<and> c_agent commit = agent_id demo_cap \<and>
       checkin_spec n pin cid ''s1'' (mnt_path m) (session_fork_name n (agent_id demo_cap) ''02'') (f_meta ?w) (Updated demo_head 6) (f_meta w') \<and>
       (\<forall>ps. names_ok ps \<longrightarrow>
         file_at (get_tree (env_hash demo_env)) (objects w') (Some (c_tree commit)) ps =
         overlay_spec (map_of (overlay_map (overlay_list (f_meta ?w) ''s1'' (mnt_path m))))
           (file_at (get_tree (env_hash demo_env)) (objects w') (Some (c_tree base))) ps)))"
    by (rule checkin_publishes_staged_work [OF w'(1) _ v rows]) (use w'(2) in simp)
  then obtain cid commit where c: "get_commit demo_hash cid (objects w') = Inr commit" "c_parents commit = [5]"
      "checkin_spec demo_head 5 cid ''s1'' (mnt_path demo_mount) (session_fork_name demo_head (agent_id demo_cap) ''02'') (f_meta ?w) (Updated demo_head 6) (f_meta w')"
      "\<And>ps. names_ok ps \<Longrightarrow> file_at (get_tree demo_hash) (objects w') (Some (c_tree commit)) ps =
         overlay_spec [''a'' \<mapsto> Some (7, False)] (file_at (get_tree demo_hash) (objects w') (Some 2)) ps"
    unfolding demo_open_checkin using ov by auto
  have "cid = 6" using c(3) by (auto simp: checkin_spec_def cas_keeps_work_def)
  moreover have "file_at (get_tree demo_hash) (objects w') (Some (c_tree commit)) [''a''] = Some (7, False)"
    using c(4) [of "[''a'']"] by (simp add: names_ok_def overlay_spec_def staged_below_def)
  ultimately show ?thesis using w'(1) c(1,2) by blast
qed

section \<open>A move over staged work\<close>

text \<open>The pinned tree has a directory \<open>a\<close>; the session has written \<open>/d/x\<close> and read it back.\<close>

definition move_root :: Tree where
  "move_root = \<lparr>entries = [\<lparr>e_name = ''a'', e_kind = EntryKind.Tree, e_id = 1, e_exec = False\<rparr>]\<rparr>"

definition move_base :: Commit where
  "move_base = demo_base\<lparr>c_tree := 4\<rparr>"

definition move_hash :: "bytes \<Rightarrow> oid" where
  "move_hash bs = (if bs = tree_bytes move_root then 4 else if bs = commit_bytes move_base then 8 else demo_hash bs)"

definition move_env :: Env where
  "move_env = demo_env\<lparr>env_hash := move_hash\<rparr>"

definition move_store :: MemoryObjectStore where
  "move_store = (memory_store_new False)\<lparr>visible := [4 \<mapsto> tree_bytes move_root, 1 \<mapsto> tree_bytes one_tree,
     8 \<mapsto> commit_bytes move_base, 7 \<mapsto> blob_bytes]\<rparr>"

definition move_forge :: Forge where
  "move_forge = \<lparr>f_store = \<lparr>l_store = move_store, l_seen = {}\<rparr>,
     f_meta = (demo_catalog [((''s1'', ''/'', ''d/x''), \<lparr>o_blob_oid = Some 7, o_exec = False\<rparr>)] 8)
       \<lparr>mounts := [((''s1'', ''/''), \<lparr>m_spec = ''ref:'' @ demo_head, m_mode = ''rw'', m_base_oid = Some 8\<rparr>)],
        observation_rows := [((''s1'', ''/'', ''d/x''), SeenBlob 7)]\<rparr>, f_hmac_key = [],
     f_stats = \<lparr>ct_stale_observation = 0, ct_merge_conflict = 0, ct_sessions_opened = 0, ct_merge_applied = 0, ct_renames = 0\<rparr>\<rparr>"

definition move_mount :: Mount where
  "move_mount = demo_mount\<lparr>mnt_base_oid := Some 8\<rparr>"

lemma move_objects:
  "small_tree move_root" "commit_encode move_base = Some (commit_bytes move_base)"
  "decode_object_type (tree_bytes move_root) = Inr ObjectType.Tree" "decode_object_type (commit_bytes move_base) = Inr ObjectType.Commit"
  "tree_decode (tree_bytes move_root) = Inr move_root" "commit_decode (commit_bytes move_base) = Inr move_base"
proof -
  show t: "small_tree move_root"
    by (simp add: move_root_def small_tree_def tree_ok_def max_tree_entries_def validate_name_def utf8_ascii)
  show c: "commit_encode move_base = Some (commit_bytes move_base)"
    using commit_encodes [of move_base] by (auto simp: move_base_def demo_base_def commit_bytes_def)
  show "tree_decode (tree_bytes move_root) = Inr move_root" using tree_bytes [OF t] by blast
  show "decode_object_type (tree_bytes move_root) = Inr ObjectType.Tree"
    using tree_bytes [OF t] by (auto simp: tree_encode_def split: if_split_asm sum.splits intro: encoded_type)
  show "decode_object_type (commit_bytes move_base) = Inr ObjectType.Commit" using c by (auto simp: commit_encode_record intro: encoded_type)
  show "commit_decode (commit_bytes move_base) = Inr move_base"
    using c by (auto simp: commit_decode_iff commit_ok_def move_base_def demo_base_def max_commit_parents_def valid_str_ascii ascii_char_def valid_str_def)
qed

lemma move_ids [simp]:
  "move_hash (tree_bytes move_root) = 4" "move_hash (commit_bytes move_base) = 8" "move_hash (tree_bytes one_tree) = 1"
  "env_hash move_env = move_hash" "objects move_forge = move_store"
proof -
  have "tree_bytes move_root \<noteq> commit_bytes move_base" using move_objects(3,4) by auto
  moreover have "tree_bytes one_tree \<noteq> tree_bytes move_root"
    using demo_decodes(2) move_objects(5) by (auto simp: move_root_def one_tree_def ex_file_def)
  moreover have "tree_bytes one_tree \<noteq> commit_bytes move_base" using demo_types(2) move_objects(4) by auto
  ultimately show "move_hash (tree_bytes move_root) = 4" "move_hash (commit_bytes move_base) = 8" "move_hash (tree_bytes one_tree) = 1"
    by (simp_all add: move_hash_def)
qed (simp_all add: move_env_def move_forge_def)

lemma move_reads:
  "get_tree move_hash 4 move_store = Inr move_root" "get_tree move_hash 1 move_store = Inr one_tree"
  "get_commit move_hash 8 move_store = Inr move_base" "object_type move_hash 8 move_store = Inr ObjectType.Commit"
  by (simp_all add: get_tree_def get_commit_def object_type_def store_get_def ok_or_def move_store_def move_objects demo_decodes)

lemma move_session:
  "session_mounts ''s1'' move_forge = [move_mount]" "is_ok (require_ns demo_cap ''s1'' move_forge)"
  "op \<in> {Op.Read, Op.Write} \<Longrightarrow> check move_env now demo_cap op r move_forge = Inr ()"
  "parse_spec (mnt_spec move_mount) = Inr (SpecRef demo_head)" "session_mount_tree move_env move_mount move_forge = Inr 4"
proof -
  show "session_mounts ''s1'' move_forge = [move_mount]" "is_ok (require_ns demo_cap ''s1'' move_forge)"
    by (simp_all add: session_mounts_def list_mounts_def move_forge_def demo_catalog_def mount_of_row_def mount_row_def parse_mode_def
        move_mount_def demo_mount_def require_ns_def get_namespace_def ok_or_def ns_row_def agent_id_def demo_cap_def)
  show "check move_env now demo_cap op r move_forge = Inr ()" if "op \<in> {Op.Read, Op.Write}"
    using that by (cases r) (auto simp: check_def verify_def sign_chain_def move_env_def demo_env_def demo_cap_def allows_def Let_def move_forge_def)
  show "parse_spec (mnt_spec move_mount) = Inr (SpecRef demo_head)" using demo_spec by (simp add: move_mount_def)
  show "session_mount_tree move_env move_mount move_forge = Inr 4"
    by (simp add: session_mount_tree_def move_mount_def demo_mount_def tree_of_def move_reads) (simp add: move_base_def)
qed

lemma move_paths:
  "normalize_abs ''/a'' = Inr ''/a''" "normalize_abs ''/d'' = Inr ''/d''"
  "longest_mount [move_mount] ''/a'' = Inr move_mount" "longest_mount [move_mount] ''/d'' = Inr move_mount"
  "rel_of (mnt_path move_mount) ''/a'' = Inr ''a''" "rel_of (mnt_path move_mount) ''/d'' = Inr ''d''"
  "is_under ''d'' ''a'' = False" "is_under ''a'' ''d'' = False" "split_path ''a'' = Inr [''a'']" "split_path ''d/x'' = Inr [''d'', ''x'']"
  by code_simp+

lemma move_entries: "tree_get move_root ''a'' = Some \<lparr>e_name = ''a'', e_kind = EntryKind.Tree, e_id = 1, e_exec = False\<rparr>"
  "tree_get move_root ''d'' = None"
  by code_simp+

lemma move_opened: "open_rename move_env 0 demo_cap ''s1'' ''/a'' ''/d'' move_forge = Inr ((''/a'', ''/d''), move_mount, (''a'', ''d''), 4)"
proof -
  obtain row where "require_ns demo_cap ''s1'' move_forge = Inr row" using move_session(2) by (auto simp: is_ok_iff)
  moreover have "mnt_mode move_mount = Rw" by (simp add: move_mount_def demo_mount_def)
  ultimately show ?thesis
    by (simp add: open_rename_def move_session move_paths check_spec_read_def check_mount_write_def)
qed

lemma move_rows: "moved_rows move_env ''s1'' move_mount ''/a'' (''a'', ''d'') 4 move_forge = Inr (''tree'', 1, [(''d/a'', 7, False)])"
proof -
  have ov: "overlay_list (f_meta move_forge) ''s1'' (mnt_path move_mount) = [(''d/x'', Some 7, False)]"
    by (simp add: overlay_list_def move_forge_def demo_catalog_def move_mount_def demo_mount_def)
  have om: "overlay_map [(''d/x'', Some 7, False)] = [(''d/x'', Some (7, False))]" by (simp add: overlay_map_def)
  have "resolve (tree_reader move_env move_forge) [move_mount] [(''d/x'', Some 7, False)] 4 ''/a'' = Inr (ResolvedTree 1)"
    by (simp add: resolve_def move_paths om Let_def move_reads move_entries ok_or_def)
  moreover have "collect_blobs move_hash move_store [(1, [])] [] = Inr [(''a'', 7, False)]"
    by (simp add: move_reads one_tree_def ex_file_def collect_entry_def Let_def MAX_MOVED_PATH_BYTES_def move_paths)
  ultimately show ?thesis
    by (simp add: moved_rows_def ov om move_session(1) Let_def moved_row_def strip_prefix_def)
qed

lemma move_seen:
  "observed_at (tree_reader move_env move_forge) (overlay_map (overlay_list (f_meta move_forge) ''s1'' (mnt_path move_mount))) 4 ''a'' = Inr (SeenTree 1)"
  "current_at (tree_reader move_env move_forge) 4 ''d/x'' = Inr SeenAbsent"
proof -
  have "overlay_map (overlay_list (f_meta move_forge) ''s1'' (mnt_path move_mount)) = [(''d/x'', Some (7, False))]"
    by (simp add: overlay_map_def overlay_list_def move_forge_def demo_catalog_def move_mount_def demo_mount_def)
  then show "observed_at (tree_reader move_env move_forge) (overlay_map (overlay_list (f_meta move_forge) ''s1'' (mnt_path move_mount))) 4 ''a'' = Inr (SeenTree 1)"
    by (simp add: observed_at_def overlay_shadows_iff below_def current_at_def entry_at_def move_paths move_reads move_entries)
  show "current_at (tree_reader move_env move_forge) 4 ''d/x'' = Inr SeenAbsent"
    by (simp add: current_at_def entry_at_def move_paths move_reads move_entries)
qed

lemma move_runs: "\<exists>moved w'. forge_rename move_env 0 demo_cap ''s1'' ''/a'' ''/d'' None move_forge = Some (Inr moved, w')"
proof -
  let ?c = "(f_meta move_forge)\<lparr>observation_rows := bt_insert (''s1'', ''/'', ''a'') (SeenTree 1) (observation_rows (f_meta move_forge))\<rparr>"
  have obs: "observe ''s1'' (mnt_path move_mount) ''a'' (SeenTree 1) (f_meta move_forge) = Inr ((), ?c)"
    by (simp add: observe_def begin_tx_def observation_is_current_def move_forge_def demo_catalog_def empty_catalog_def move_mount_def demo_mount_def)
  have rows: "moved_rows move_env ''s1'' move_mount ''/a'' (''a'', ''d'') 4 (move_forge\<lparr>f_meta := ?c\<rparr>) = Inr (''tree'', 1, [(''d/a'', 7, False)])"
    using move_rows by (simp add: moved_rows_def session_mounts_def list_mounts_def overlay_list_def)
  have "\<exists>c'. overlay_rename ''s1'' (mnt_path move_mount) ''a'' ''d'' [(''d/a'', 7, False)] ?c = Inr ((), c')"
    by (simp add: overlay_rename_def begin_tx_def Let_def overlay_ancestor_def supersede_def delete_rows_def below_def move_forge_def
        demo_catalog_def empty_catalog_def move_mount_def demo_mount_def)
  then show ?thesis
    using move_opened move_seen(1) obs rows
    by (simp add: forge_rename_def record_observation_def act_bind_Inr_iff meta_Inr)
qed

theorem rename_can_block_checkin_witness:
  "\<exists>moved w' e w''. check_observations move_env ''s1'' (session_mounts ''s1'' move_forge) move_forge = Some (Inr (), move_forge) \<and>
    forge_rename move_env 0 demo_cap ''s1'' ''/a'' ''/d'' None move_forge = Some (Inr moved, w') \<and>
    check_observations move_env ''s1'' (session_mounts ''s1'' w') w' = Some (Inl e, w'')"
proof -
  obtain moved w' where w': "forge_rename move_env 0 demo_cap ''s1'' ''/a'' ''/d'' None move_forge = Some (Inr moved, w')"
    using move_runs by blast
  have seen: "map_of (observation_rows (f_meta move_forge)) (''s1'', mnt_path move_mount, ''d/x'') = Some (SeenBlob 7)" "pinned move_mount"
      "bt_ok (overlay (f_meta move_forge))" "bt_ok (observation_rows (f_meta move_forge))" "bt_ok (mounts (f_meta move_forge))"
    by (simp_all add: move_forge_def demo_catalog_def move_mount_def demo_mount_def pinned_def)
  have "\<exists>e w''. check_observations move_env ''s1'' (session_mounts ''s1'' w') w' = Some (Inl e, w'')"
    by (rule rename_can_block_checkin [OF w' move_opened move_rows seen(1) _ _ seen(2) move_seen(2) _ seen(3-5)])
       (simp_all add: below_def)
  note after = this
  have "observations (f_meta move_forge) ''s1'' = [(''/'', ''d/x'', SeenBlob 7)]"
    by (simp add: observations_def move_forge_def)
  moreover have "overlay_shadows (overlay_map (overlay_list (f_meta move_forge) ''s1'' ''/'')) ''d/x''"
    by (simp add: overlay_map_def overlay_list_def move_forge_def demo_catalog_def overlay_shadows_def)
  ultimately have "check_observations move_env ''s1'' (session_mounts ''s1'' move_forge) move_forge = Some (Inr (), move_forge)"
    by (simp add: check_observations_def check_observation_def act_bind_Inr_iff move_session(1) Let_def move_mount_def demo_mount_def)
  then show ?thesis using w' after by blast
qed

end
