(* ===== verification/Receipts.thy ===== *)
theory Receipts
  imports Workspace_Example
begin

text \<open>
  Receipts (\<open>receipt\<close> of \<open>src/crates/forge-api/src/refs.rs\<close>): a receipt that is reported has been checked, and the
  inbox verbs give an agent its own inbox only.
\<close>

lemma try_fold_unit: "try_fold (\<lambda>x _. f x) xs () = Inr () \<longleftrightarrow> (\<forall>x \<in> set xs. f x = Inr ())"
  by (induction xs) (auto simp: and_then_Inr_iff)

lemma map_err_Inr [simp]: "map_err f r = Inr x \<longleftrightarrow> r = Inr x"
  by (cases r) (auto simp: map_err_def)

lemma durable_bytes_Inr: "durable_bytes E i w = Inr bs \<longleftrightarrow> store_get (env_hash E) i (objects w) = Inr bs"
  by (simp add: durable_bytes_def)

lemma require_durable_type_Inr:
  "require_durable_type E i ty w = Inr u \<longleftrightarrow> object_type (env_hash E) i (objects w) = Inr ty"
  by (auto simp: require_durable_type_def durable_bytes_Inr object_type_def and_then_Inr_iff)

text \<open>Every object a receipt names is stored under the type the receipt claims.\<close>

definition edges_hold :: "Env \<Rightarrow> Receipt \<Rightarrow> Forge \<Rightarrow> bool" where
  "edges_hold E r w \<longleftrightarrow>
    object_type (env_hash E) (rc_base r) (objects w) = Inr ObjectType.Commit \<and>
    object_type (env_hash E) (rc_tree r) (objects w) = Inr ObjectType.Tree \<and>
    (\<forall>p \<in> set (rc_parents r). object_type (env_hash E) p (objects w) = Inr ObjectType.Commit) \<and>
    (\<forall>(_, i) \<in> set (rc_reads r). object_type (env_hash E) i (objects w) = Inr ObjectType.Blob)"

lemma verified_receipt_Inr:
  assumes "verified_receipt E result i w = Some (Inr r, w')"
  shows "w' = w \<and> rc_receipt r = i \<and> edges_hold E r w \<and> rc_result r = map_option fst result \<and>
    (\<exists>bs c. store_get (env_hash E) i (objects w) = Inr bs \<and> contribution_decode bs = Some (Inr c) \<and>
      rc_tree r = co_tree c \<and> rc_parents r = co_parents c \<and> rc_agent r = co_agent c \<and>
      (\<forall>j commit. result = Some (j, commit) \<longrightarrow> \<not> receipt_disagrees commit c))"
proof -
  obtain bs c where bs: "store_get (env_hash E) i (objects w) = Inr bs" "contribution_decode bs = Some (Inr c)"
    and rest: "and_then (require_durable_type E (co_base c) ObjectType.Commit w) (\<lambda>_.
      and_then (require_durable_type E (co_tree c) ObjectType.Tree w) (\<lambda>_.
      and_then (try_fold (\<lambda>p _. require_durable_type E p ObjectType.Commit w) (co_parents c) ()) (\<lambda>_.
      and_then (try_fold (\<lambda>r _. require_durable_type E (cr_id r) ObjectType.Blob w) (co_reads c) ()) (\<lambda>_.
        if (case result of Some (_, commit) \<Rightarrow> receipt_disagrees commit c | None \<Rightarrow> False)
        then Inl (Corrupt ''commit disagrees with the receipt it names'')
        else Inr \<lparr>rc_receipt = i, rc_result = map_option fst result, rc_agent = co_agent c, rc_base = co_base c,
               rc_tree = co_tree c, rc_parents = co_parents c, rc_reads = map (\<lambda>r. (cr_path r, cr_id r)) (co_reads c),
               rc_writes = co_writes c, rc_ts = co_ts c\<rparr>)))) = Inr r" "w' = w"
    using assms by (auto simp: verified_receipt_def act_bind_Inr_iff durable_bytes_Inr)
  have "require_durable_type E (co_base c) ObjectType.Commit w = Inr ()" "require_durable_type E (co_tree c) ObjectType.Tree w = Inr ()"
    "\<forall>p \<in> set (co_parents c). require_durable_type E p ObjectType.Commit w = Inr ()"
    "\<forall>x \<in> set (co_reads c). require_durable_type E (cr_id x) ObjectType.Blob w = Inr ()"
    and agree: "\<not> (case result of Some (_, commit) \<Rightarrow> receipt_disagrees commit c | None \<Rightarrow> False)"
    and r: "r = \<lparr>rc_receipt = i, rc_result = map_option fst result, rc_agent = co_agent c, rc_base = co_base c,
               rc_tree = co_tree c, rc_parents = co_parents c, rc_reads = map (\<lambda>r. (cr_path r, cr_id r)) (co_reads c),
               rc_writes = co_writes c, rc_ts = co_ts c\<rparr>"
    using rest(1) by (auto simp: and_then_Inr_iff try_fold_unit)
  then have "edges_hold E r w" by (auto simp: edges_hold_def require_durable_type_Inr)
  moreover have "\<forall>j commit. result = Some (j, commit) \<longrightarrow> \<not> receipt_disagrees commit c" using agree by auto
  ultimately show ?thesis using bs rest(2) by (simp add: r)
qed

text \<open>
  C28: A reported receipt has been checked. The receipt is the stored contribution, every object it names is stored
  and of the type it claims, and if it was reached through a commit, that commit names this receipt and agrees with it on
  tree, parents and agent. Reporting changes nothing.
\<close>

theorem receipt_is_verified:
  assumes "receipt E now cap spec w = Some (Inr r, w')"
  shows "w' = w \<and> check_spec_read E now cap spec w = Inr () \<and> edges_hold E r w \<and>
    (\<exists>bs c. store_get (env_hash E) (rc_receipt r) (objects w) = Inr bs \<and> contribution_decode bs = Some (Inr c) \<and>
      (\<forall>j. rc_result r = Some j \<longrightarrow> (\<exists>commit. get_commit (env_hash E) j (objects w) = Inr commit \<and> c_contrib commit = Some (rc_receipt r) \<and>
        c_tree commit = co_tree c \<and> c_parents commit = co_parents c \<and> c_agent commit = co_agent c)))"
proof -
  obtain result i where v: "verified_receipt E result i w = Some (Inr r, w')" and cap: "check_spec_read E now cap spec w = Inr ()"
    and named: "result = None \<or> (\<exists>j commit. peel_commit E spec w = Inr (j, commit) \<and> c_contrib commit = Some i \<and> result = Some (j, commit))"
    using assms by (auto simp: receipt_def act_bind_Inr_iff and_then_Inr_iff ok_or_Inr_iff split: if_split_asm)
  have peel: "get_commit (env_hash E) j (objects w) = Inr commit" if p: "peel_commit E spec w = Inr (j, commit)" for j commit
  proof -
    obtain i ty where "resolve_spec_oid spec w = Inr i" "object_type (env_hash E) i (objects w) = Inr ty"
      using p unfolding peel_commit_def and_then_Inr_iff by blast
    then show ?thesis using p by (cases ty) (auto simp: peel_commit_def and_then_Inr_iff)
  qed
  obtain bs c where c: "store_get (env_hash E) i (objects w) = Inr bs" "contribution_decode bs = Some (Inr c)"
      "\<forall>j commit. result = Some (j, commit) \<longrightarrow> \<not> receipt_disagrees commit c"
    and vr: "w' = w" "rc_receipt r = i" "edges_hold E r w" "rc_result r = map_option fst result"
    using verified_receipt_Inr [OF v] by blast
  have "\<exists>commit. get_commit (env_hash E) j (objects w) = Inr commit \<and> c_contrib commit = Some i \<and>
        c_tree commit = co_tree c \<and> c_parents commit = co_parents c \<and> c_agent commit = co_agent c" if "rc_result r = Some j" for j
    using that named vr(4) c(3) peel by (auto simp: receipt_disagrees_def)
  then show ?thesis using vr c cap by blast
qed

section \<open>A receipt\<close>

definition published_forge :: Forge where
  "published_forge = (demo_forge [] 6)\<lparr>f_store := \<lparr>l_store = demo_store\<lparr>visible :=
     demo_visible(1 \<mapsto> tree_bytes one_tree, 3 \<mapsto> receipt_bytes, 6 \<mapsto> commit_bytes demo_next)\<rparr>, l_seen = {}\<rparr>\<rparr>"

lemma published_receipt:
  "\<exists>r. receipt demo_env 0 demo_cap (mnt_spec demo_mount) published_forge = Some (Inr r, published_forge) \<and> rc_result r = Some 6"
proof -
  let ?w = published_forge
  have g: "store_get demo_hash 5 (objects ?w) = Inr (commit_bytes demo_base)" "store_get demo_hash 1 (objects ?w) = Inr (tree_bytes one_tree)"
    "store_get demo_hash 3 (objects ?w) = Inr receipt_bytes" "store_get demo_hash 6 (objects ?w) = Inr (commit_bytes demo_next)"
    by (simp_all add: published_forge_def store_get_def ok_or_def demo_visible_def)
  have "contribution_decode receipt_bytes = Some (Inr demo_receipt)"
    using demo_receipt_encodes by (simp add: contribution_decode_iff contribution_strs_def) (simp add: demo_receipt_def valid_str_def as_bytes_def)
  moreover have "resolve_spec_oid (mnt_spec demo_mount) ?w = Inr 6"
    by (simp add: resolve_spec_oid_def demo_spec ok_or_def published_forge_def demo_forge_def demo_catalog_def get_ref_def)
  moreover have "check_spec_read demo_env 0 demo_cap (mnt_spec demo_mount) ?w = Inr ()"
    using demo_check [of Op.Read 0 "Some demo_head" "[]" 6] by (simp add: check_spec_read_def demo_spec check_def published_forge_def)
  moreover have "receipt_disagrees demo_next demo_receipt = False" "c_contrib demo_next = Some 3"
    by (simp_all add: receipt_disagrees_def demo_next_def demo_receipt_def)
  moreover have "co_base demo_receipt = 5" "co_tree demo_receipt = 1" "co_parents demo_receipt = [5]" "co_reads demo_receipt = []"
    by (simp_all add: demo_receipt_def)
  ultimately show ?thesis
    using g
    by (simp add: receipt_def act_bind_Inr_iff demo_types ok_or_def peel_commit_def object_type_def get_commit_def demo_decodes
        verified_receipt_def durable_bytes_Inr require_durable_type_Inr and_then_Inr_iff)
qed

theorem receipt_is_verified_witness:
  "\<exists>r commit. receipt demo_env 0 demo_cap (mnt_spec demo_mount) published_forge = Some (Inr r, published_forge) \<and>
    edges_hold demo_env r published_forge \<and> rc_result r = Some 6 \<and>
    get_commit demo_hash 6 (objects published_forge) = Inr commit \<and> c_contrib commit = Some (rc_receipt r)"
proof -
  obtain r where r: "receipt demo_env 0 demo_cap (mnt_spec demo_mount) published_forge = Some (Inr r, published_forge)" "rc_result r = Some 6"
    using published_receipt by blast
  then show ?thesis using receipt_is_verified [OF r(1)] by auto
qed

end
