(* ===== verification/Graph.thy ===== *)
theory Graph
  imports Merge_Bases Capability
begin

text \<open>
  The typed object graph (\<open>src/crates/forge-store/src/graph.rs\<close>): the outbound edges of every object kind, the bounded
  work queue, and the walk that rehashes and decodes everything reachable from a root. The ceiling of a walk is an
  argument, read from the environment by \<open>max_graph_objects\<close>.
\<close>

section \<open>Edges and what they expect\<close>

definition DEFAULT_MAX_GRAPH_OBJECTS :: nat where
  "DEFAULT_MAX_GRAPH_OBJECTS = 1000000"

definition max_graph_objects :: "string option \<Rightarrow> nat" where
  "max_graph_objects raw =
    (case Option.bind raw (\<lambda>s. parse_u64 (trim s)) of
       Some n \<Rightarrow> if n > 0 then unat n else DEFAULT_MAX_GRAPH_OBJECTS
     | None \<Rightarrow> DEFAULT_MAX_GRAPH_OBJECTS)"

definition walk_limit_exceeded :: error where
  "walk_limit_exceeded = Invalid ''object graph walk reached the ceiling of this build''"

datatype GraphExpectation = ExpectAny | ExpectExact ObjectType | ExpectTreeEntry

fun accepts :: "GraphExpectation \<Rightarrow> ObjectType \<Rightarrow> bool" where
  "accepts ExpectAny actual = True"
| "accepts (ExpectExact expected) actual = (actual = expected)"
| "accepts ExpectTreeEntry actual = (actual = ObjectType.Blob \<or> actual = ObjectType.Tree)"

fun expectation_description :: "GraphExpectation \<Rightarrow> string" where
  "expectation_description ExpectAny = ''any object''"
| "expectation_description (ExpectExact expected) = object_type_str expected"
| "expectation_description ExpectTreeEntry = ''blob or tree''"

record GraphEdge =
  ge_id :: oid
  ge_expected :: GraphExpectation
  ge_resource :: string

definition expectation_verify :: "GraphEdge \<Rightarrow> ObjectType \<Rightarrow> error + unit" where
  "expectation_verify edge actual =
    (if accepts (ge_expected edge) actual then Inr ()
     else Inl (Corrupt (''typed edge '' @ ge_resource edge @ '' expected '' @ expectation_description (ge_expected edge) @
       '', found '' @ object_type_str actual @ '' at '' @ hex (ge_id edge))))"

record DecodedGraphObject =
  dg_object_type :: ObjectType
  dg_edges :: "GraphEdge list"

record VerifiedGraphObject =
  vg_id :: oid
  vg_object_type :: ObjectType

definition exact_edge :: "oid \<Rightarrow> ObjectType \<Rightarrow> string \<Rightarrow> GraphEdge" where
  "exact_edge i expected resource = \<lparr>ge_id = i, ge_expected = ExpectExact expected, ge_resource = resource\<rparr>"

definition any_edge :: "oid \<Rightarrow> string \<Rightarrow> GraphEdge" where
  "any_edge i resource = \<lparr>ge_id = i, ge_expected = ExpectAny, ge_resource = resource\<rparr>"

fun expectation_key :: "GraphExpectation \<Rightarrow> u8" where
  "expectation_key ExpectAny = 0"
| "expectation_key (ExpectExact ty) = object_type_byte ty"
| "expectation_key ExpectTreeEntry = 255"

section \<open>The work queue\<close>

record GraphWorkQueue =
  q_queue :: "GraphEdge list"
  q_scheduled :: "(oid \<times> u8) set"
  q_scheduled_ids :: "oid set"
  q_limit :: nat

definition with_limit :: "nat \<Rightarrow> GraphWorkQueue" where
  "with_limit limit = \<lparr>q_queue = [], q_scheduled = {}, q_scheduled_ids = {}, q_limit = limit\<rparr>"

definition schedule :: "GraphEdge \<Rightarrow> GraphWorkQueue \<Rightarrow> error + GraphWorkQueue" where
  "schedule edge q =
    (if (ge_id edge, expectation_key (ge_expected edge)) \<in> q_scheduled q then Inr q
     else if ge_id edge \<notin> q_scheduled_ids q \<and> q_limit q \<le> card (q_scheduled_ids q) then Inl walk_limit_exceeded
     else Inr (q\<lparr>q_queue := q_queue q @ [edge],
                 q_scheduled := insert (ge_id edge, expectation_key (ge_expected edge)) (q_scheduled q),
                 q_scheduled_ids := insert (ge_id edge) (q_scheduled_ids q)\<rparr>))"

section \<open>The edges of an object\<close>

definition tree_edges :: "oid \<Rightarrow> Tree \<Rightarrow> GraphEdge list" where
  "tree_edges i t = map (\<lambda>e. exact_edge (e_id e)
      (case e_kind e of EntryKind.Blob \<Rightarrow> ObjectType.Blob | EntryKind.Tree \<Rightarrow> ObjectType.Tree)
      (''tree:'' @ hex i @ '':'' @ e_name e)) (entries t)"

definition commit_edges :: "oid \<Rightarrow> Commit \<Rightarrow> GraphEdge list" where
  "commit_edges i c =
    exact_edge (c_tree c) ObjectType.Tree (''commit:'' @ hex i @ '':tree'') #
    map (\<lambda>p. exact_edge p ObjectType.Commit (''commit:'' @ hex i @ '':parent'')) (c_parents c) @
    (case c_contrib c of None \<Rightarrow> []
     | Some r \<Rightarrow> [exact_edge r ObjectType.Contribution (''commit:'' @ hex i @ '':contribution'')])"

definition conflict_edges :: "oid \<Rightarrow> Conflict \<Rightarrow> GraphEdge list" where
  "conflict_edges i k =
    map (\<lambda>b. exact_edge b ObjectType.Tree (''conflict:'' @ hex i @ '':base'')) (k_bases k) @
    exact_edge (k_ours k) ObjectType.Tree (''conflict:'' @ hex i @ '':ours'') #
    exact_edge (k_theirs k) ObjectType.Tree (''conflict:'' @ hex i @ '':theirs'') #
    map (\<lambda>c. exact_edge c ObjectType.Commit (''conflict:'' @ hex i @ '':causal'')) (k_causal k) @
    concat (map (\<lambda>p. map (\<lambda>j. any_edge j (''conflict:'' @ hex i @ '':path:'' @ cp_path p))
      (List.map_filter id [cp_a p, cp_b p, cp_base p])) (k_paths k))"

definition snapshot_edges :: "oid \<Rightarrow> Snapshot \<Rightarrow> GraphEdge list" where
  "snapshot_edges i s =
    [exact_edge (s_tree s) ObjectType.Tree (''snapshot:'' @ hex i @ '':tree''),
     exact_edge (s_commit s) ObjectType.Commit (''snapshot:'' @ hex i @ '':commit''),
     exact_edge (s_prov s) ObjectType.Blob (''snapshot:'' @ hex i @ '':provenance'')]"

definition contribution_edges :: "oid \<Rightarrow> Contribution \<Rightarrow> GraphEdge list" where
  "contribution_edges i c =
    exact_edge (co_base c) ObjectType.Commit (''contribution:'' @ hex i @ '':base'') #
    exact_edge (co_tree c) ObjectType.Tree (''contribution:'' @ hex i @ '':tree'') #
    map (\<lambda>p. exact_edge p ObjectType.Commit (''contribution:'' @ hex i @ '':parent'')) (co_parents c) @
    map (\<lambda>r. exact_edge (cr_id r) ObjectType.Blob (''contribution:'' @ hex i @ '':read:'' @ cr_path r)) (co_reads c)"

definition decode_graph_object :: "oid \<Rightarrow> bytes \<Rightarrow> (error + DecodedGraphObject) option" where
  "decode_graph_object i bs =
    (case decode_object_type bs of
       Inl e \<Rightarrow> Some (Inl e)
     | Inr ty \<Rightarrow> map_option (map_sum id (\<lambda>es. \<lparr>dg_object_type = ty, dg_edges = es\<rparr>))
         (case ty of
            ObjectType.Blob \<Rightarrow> Some (map_sum id (\<lambda>_. []) (blob_decode bs))
          | ObjectType.Tree \<Rightarrow> Some (map_sum id (tree_edges i) (tree_decode bs))
          | ObjectType.Commit \<Rightarrow> Some (map_sum id (commit_edges i) (commit_decode bs))
          | ObjectType.Conflict \<Rightarrow> Some (map_sum id (conflict_edges i) (conflict_decode bs))
          | ObjectType.Snapshot \<Rightarrow> Some (map_sum id (snapshot_edges i) (snapshot_decode bs))
          | ObjectType.Contribution \<Rightarrow> map_option (map_sum id (contribution_edges i)) (contribution_decode bs)))"

section \<open>The walk\<close>

definition load_graph_object :: "(bytes \<Rightarrow> oid) \<Rightarrow> MemoryObjectStore \<Rightarrow> oid \<Rightarrow> (error + DecodedGraphObject) option" where
  "load_graph_object H st i = (case store_get H i st of Inl e \<Rightarrow> Some (Inl e) | Inr bs \<Rightarrow> decode_graph_object i bs)"

type_synonym verified = "(oid \<times> ObjectType) list"

text \<open>One edge taken from the queue, with the rest of the queue and what has been verified so far.\<close>

definition graph_visit :: "(oid \<Rightarrow> (error + DecodedGraphObject) option) \<Rightarrow> GraphEdge \<Rightarrow> GraphWorkQueue \<Rightarrow> verified
    \<Rightarrow> (error + GraphWorkQueue \<times> verified) option" where
  "graph_visit load edge q verified =
    (case map_of verified (ge_id edge) of
       Some actual \<Rightarrow> Some (and_then (expectation_verify edge actual) (\<lambda>_. Inr (q, verified)))
     | None \<Rightarrow>
         if q_limit q \<le> length verified then Some (Inl walk_limit_exceeded)
         else map_option (\<lambda>r.
           and_then r (\<lambda>decoded.
           and_then (expectation_verify edge (dg_object_type decoded)) (\<lambda>_.
           and_then (try_fold schedule (dg_edges decoded) q) (\<lambda>q.
             Inr (q, (ge_id edge, dg_object_type decoded) # verified)))))
           (load (ge_id edge)))"

partial_function (option) graph_loop :: "(oid \<Rightarrow> (error + DecodedGraphObject) option) \<Rightarrow> GraphWorkQueue \<Rightarrow> verified
    \<Rightarrow> (error + verified) option" where
  "graph_loop load q verified =
    (case q_queue q of
       [] \<Rightarrow> Some (Inr verified)
     | edge # rest \<Rightarrow>
         Option.bind (graph_visit load edge (q\<lparr>q_queue := rest\<rparr>) verified) (\<lambda>r. case r of
           Inl e \<Rightarrow> Some (Inl e)
         | Inr s \<Rightarrow> graph_loop load (fst s) (snd s)))"

definition reachable_graph_verified :: "(bytes \<Rightarrow> oid) \<Rightarrow> nat \<Rightarrow> oid \<Rightarrow> ObjectType \<Rightarrow> MemoryObjectStore
    \<Rightarrow> (error + VerifiedGraphObject list) option" where
  "reachable_graph_verified H limit i expected st =
    (case schedule (exact_edge i expected (''root:'' @ hex i)) (with_limit limit) of
       Inl e \<Rightarrow> Some (Inl e)
     | Inr q \<Rightarrow>
         map_option (map_sum id (\<lambda>verified.
           sort_key vg_id (map (\<lambda>(j, ty). \<lparr>vg_id = j, vg_object_type = ty\<rparr>) verified)))
           (graph_loop (load_graph_object H st) q []))"

definition reachable_oids_verified :: "(bytes \<Rightarrow> oid) \<Rightarrow> nat \<Rightarrow> oid \<Rightarrow> MemoryObjectStore \<Rightarrow> (error + oid list) option" where
  "reachable_oids_verified H limit tree st =
    map_option (map_sum id (map vg_id)) (reachable_graph_verified H limit tree ObjectType.Tree st)"

end
