(* ===== verification/Collector.thy ===== *)
theory Collector
  imports Workspace Graph
begin

text \<open>
  Explicit retirement and reclamation (\<open>src/crates/forge-api/src/gc.rs\<close>): \<open>abandon_fork\<close>, \<open>abandon_session\<close>, the plan
  \<open>gc\<close> and the sweep \<open>gc_collect\<close>, with the scan of the object directory, the root walk that fails closed and the lenient
  walk out of what survives. The directory, the clock, what the file system answers to an unlink and what other processes do
  between the unlocked pass and the write transaction are arguments.
\<close>

definition DEFAULT_MIN_AGE_SECS :: nat where
  "DEFAULT_MIN_AGE_SECS = 86400"

definition GC_COLLECT_MIN_AGE_FLOOR :: nat where
  "GC_COLLECT_MIN_AGE_FLOOR = 60"

definition GC_COLLECT_BATCH_LIMIT :: nat where
  "GC_COLLECT_BATCH_LIMIT = 4096"

definition GC_SAMPLE_LIMIT :: nat where
  "GC_SAMPLE_LIMIT = 256"

record GcRootCounts =
  gk_refs :: nat
  gk_unresolved_forks :: nat
  gk_session_pins :: nat
  gk_session_live_refs :: nat
  gk_mounts :: nat
  gk_mount_pins :: nat
  gk_overlay_blobs :: nat
  gk_observations :: nat
  gk_landmarks :: nat
  gk_seals :: nat

definition no_counts :: GcRootCounts where
  "no_counts = \<lparr>gk_refs = 0, gk_unresolved_forks = 0, gk_session_pins = 0, gk_session_live_refs = 0, gk_mounts = 0, gk_mount_pins = 0,
     gk_overlay_blobs = 0, gk_observations = 0, gk_landmarks = 0, gk_seals = 0\<rparr>"

record GcReport =
  gr_dry_run :: bool
  gr_min_age_secs :: nat
  gr_roots :: GcRootCounts
  gr_reachable_objects :: nat
  gr_scanned_objects :: nat
  gr_collectable_objects :: nat
  gr_collectable_bytes :: nat
  gr_withheld_young_objects :: nat
  gr_withheld_young_bytes :: nat
  gr_unnamed_files :: nat
  gr_deleted_objects :: nat
  gr_collectable_sample :: "string list"
  gr_sample_truncated :: bool
  gr_batch_limited :: bool

section \<open>The object directory\<close>

text \<open>A directory entry with its length and modification time, in nanoseconds; \<open>None\<close> is a time that cannot be read.\<close>

datatype FsNode = FsDir nat "nat option" "(string \<times> FsNode) list" | FsFile nat "nat option" | FsOther nat "nat option"

type_synonym listing = "(string \<times> FsNode) list"

fun fs_metadata :: "string list \<Rightarrow> listing \<Rightarrow> (nat \<times> nat option) option" where
  "fs_metadata [] dir = None"
| "fs_metadata (n # p) dir =
    (case map_of dir n of
       None \<Rightarrow> None
     | Some (FsDir len t sub) \<Rightarrow> if p = [] then Some (len, t) else fs_metadata p sub
     | Some (FsFile len t) \<Rightarrow> if p = [] then Some (len, t) else None
     | Some (FsOther len t) \<Rightarrow> if p = [] then Some (len, t) else None)"

fun fs_remove :: "string list \<Rightarrow> listing \<Rightarrow> listing" where
  "fs_remove [] dir = dir"
| "fs_remove (n # p) dir =
    (if p = [] then filter (\<lambda>(m, _). m \<noteq> n) dir
     else map (\<lambda>(m, x). (m, if m = n then (case x of FsDir len t sub \<Rightarrow> FsDir len t (fs_remove p sub) | _ \<Rightarrow> x) else x)) dir)"

record ScannedObject =
  so_id :: oid
  so_path :: "string list"
  so_size :: nat
  so_age :: nat

text \<open>An unreadable or future modification time is age zero.\<close>

definition file_age :: "nat \<Rightarrow> nat option \<Rightarrow> nat" where
  "file_age now t = (case t of Some m \<Rightarrow> if m \<le> now then now - m else 0 | None \<Rightarrow> 0)"

definition scan_file :: "nat \<Rightarrow> string \<Rightarrow> string \<Rightarrow> string \<times> FsNode \<Rightarrow> nat \<times> ScannedObject list \<Rightarrow> nat \<times> ScannedObject list" where
  "scan_file now a b = (\<lambda>(name, node) (unnamed, out).
    case node of
      FsFile len t \<Rightarrow> (case from_hex name of
          Inl _ \<Rightarrow> (unnamed + 1, out)
        | Inr i \<Rightarrow> (unnamed, out @ [\<lparr>so_id = i, so_path = [a, b, name], so_size = len, so_age = file_age now t\<rparr>]))
    | _ \<Rightarrow> (unnamed + 1, out))"

definition scan_shard :: "nat \<Rightarrow> string \<Rightarrow> string \<times> FsNode \<Rightarrow> nat \<times> ScannedObject list \<Rightarrow> nat \<times> ScannedObject list" where
  "scan_shard now a = (\<lambda>(b, node) s.
    case node of FsDir _ _ sub \<Rightarrow> fold (scan_file now a b) sub s | _ \<Rightarrow> (fst s + 1, snd s))"

definition scan_objects :: "nat \<Rightarrow> listing \<Rightarrow> nat \<times> ScannedObject list" where
  "scan_objects now dir =
    fold (\<lambda>(a, node) s. case node of FsDir _ _ sub \<Rightarrow> fold (scan_shard now a) sub s | _ \<Rightarrow> (fst s + 1, snd s)) dir (0, [])"

section \<open>The root set\<close>

definition schedule_root :: "oid \<Rightarrow> GraphExpectation \<Rightarrow> string \<Rightarrow> GraphWorkQueue \<Rightarrow> error + GraphWorkQueue" where
  "schedule_root i expected resource q = schedule \<lparr>ge_id = i, ge_expected = expected, ge_resource = resource\<rparr> q"

type_synonym rooting = "GcRootCounts \<times> GraphWorkQueue"

definition root_ref :: "string \<times> string \<times> oid \<Rightarrow> rooting \<Rightarrow> error + rooting" where
  "root_ref = (\<lambda>(name, _, i) (k, q).
    let k = k\<lparr>gk_refs := gk_refs k + 1\<rparr>;
        k = (if is_fork_ref name then k\<lparr>gk_unresolved_forks := gk_unresolved_forks k + 1\<rparr> else k) in
    and_then (schedule_root i ExpectAny (''ref:'' @ name) q) (\<lambda>q. Inr (k, q)))"

definition root_pin :: "string \<times> oid \<Rightarrow> rooting \<Rightarrow> error + rooting" where
  "root_pin = (\<lambda>(ns, i) (k, q).
    and_then (schedule_root i (ExpectExact ObjectType.Commit) (''namespace:'' @ ns @ '':pin'') q) (\<lambda>q.
      Inr (k\<lparr>gk_session_pins := gk_session_pins k + 1\<rparr>, q)))"

definition root_mount :: "string \<times> string \<times> string \<times> oid option \<Rightarrow> rooting \<Rightarrow> error + rooting" where
  "root_mount = (\<lambda>(ns, path, spec, base) (k, q).
    let k = k\<lparr>gk_mounts := gk_mounts k + 1\<rparr> in
    and_then (case parse_spec spec of
        Inr (SpecOid i) \<Rightarrow> schedule_root i ExpectAny (''namespace:'' @ ns @ '':mount:'' @ path) q
      | _ \<Rightarrow> Inr q) (\<lambda>q.
    case base of
      None \<Rightarrow> Inr (k, q)
    | Some i \<Rightarrow>
        and_then (schedule_root i ExpectAny (''namespace:'' @ ns @ '':mount:'' @ path @ '':base'') q) (\<lambda>q.
          Inr (k\<lparr>gk_mount_pins := gk_mount_pins k + 1\<rparr>, q))))"

definition root_overlay :: "string \<times> string \<times> oid \<Rightarrow> rooting \<Rightarrow> error + rooting" where
  "root_overlay = (\<lambda>(ns, path, i) (k, q).
    and_then (schedule_root i (ExpectExact ObjectType.Blob) (''namespace:'' @ ns @ '':overlay:'' @ path) q) (\<lambda>q.
      Inr (k\<lparr>gk_overlay_blobs := gk_overlay_blobs k + 1\<rparr>, q)))"

definition root_observation :: "string \<times> string \<times> string \<times> oid \<Rightarrow> rooting \<Rightarrow> error + rooting" where
  "root_observation = (\<lambda>(ns, path, kind, i) (k, q).
    and_then (if kind = ''blob'' then Inr ObjectType.Blob else if kind = ''tree'' then Inr ObjectType.Tree
        else Inl (Corrupt ''observation names an object under unusable kind'')) (\<lambda>expected.
    and_then (schedule_root i (ExpectExact expected) (''namespace:'' @ ns @ '':observation:'' @ path) q) (\<lambda>q.
      Inr (k\<lparr>gk_observations := gk_observations k + 1\<rparr>, q))))"

definition root_landmark :: "oid \<times> string \<Rightarrow> rooting \<Rightarrow> error + rooting" where
  "root_landmark = (\<lambda>(i, _) (k, q).
    and_then (schedule_root i ExpectAny (''landmark:'' @ hex i) q) (\<lambda>q. Inr (k\<lparr>gk_landmarks := gk_landmarks k + 1\<rparr>, q)))"

definition root_seal :: "string \<times> oid \<times> oid \<times> oid \<Rightarrow> rooting \<Rightarrow> error + rooting" where
  "root_seal = (\<lambda>(tag, snap, commit, tree) (k, q).
    and_then (schedule_root snap (ExpectExact ObjectType.Snapshot) (''seal:'' @ tag @ '':snapshot'') q) (\<lambda>q.
    and_then (schedule_root commit (ExpectExact ObjectType.Commit) (''seal:'' @ tag @ '':commit'') q) (\<lambda>q.
    and_then (schedule_root tree (ExpectExact ObjectType.Tree) (''seal:'' @ tag @ '':tree'') q) (\<lambda>q.
      Inr (k\<lparr>gk_seals := gk_seals k + 1\<rparr>, q)))))"

definition schedule_catalog_roots :: "GcCatalogRoots \<Rightarrow> rooting \<Rightarrow> error + rooting" where
  "schedule_catalog_roots g s =
    and_then (try_fold root_ref (g_refs g) s) (\<lambda>s.
    and_then (try_fold root_pin (g_pins g) s) (\<lambda>(k, q).
    let k = k\<lparr>gk_session_live_refs := gk_session_live_refs k + g_live_refs g\<rparr> in
    and_then (try_fold root_mount (g_mounts g) (k, q)) (\<lambda>s.
    and_then (try_fold root_overlay (g_overlay g) s) (\<lambda>s.
    and_then (try_fold root_observation (g_observations g) s) (\<lambda>s.
    and_then (try_fold root_landmark (g_landmarks g) s) (\<lambda>s.
    try_fold root_seal (g_seals g) s))))))"

section \<open>The walks\<close>

type_synonym graph_loader = "oid \<Rightarrow> (error + DecodedGraphObject) option"

partial_function (option) gc_walk :: "graph_loader \<Rightarrow> GraphWorkQueue \<Rightarrow> oid set \<Rightarrow> (error + oid set) option" where
  "gc_walk load q reachable =
    (case q_queue q of
       [] \<Rightarrow> Some (Inr reachable)
     | edge # rest \<Rightarrow>
         if ge_id edge \<in> reachable then gc_walk load (q\<lparr>q_queue := rest\<rparr>) reachable
         else Option.bind (load (ge_id edge)) (\<lambda>r. case r of
             Inl e \<Rightarrow> Some (Inl (Corrupt (''gc cannot prove reachability: '' @ hex (ge_id edge) @ '' ('' @ ge_resource edge @ '')'')))
           | Inr d \<Rightarrow> (case try_fold schedule (dg_edges d) (q\<lparr>q_queue := rest\<rparr>) of
               Inl e \<Rightarrow> Some (Inl e)
             | Inr q \<Rightarrow> gc_walk load q (insert (ge_id edge) reachable))))"

definition reachable_closure :: "graph_loader \<Rightarrow> nat \<Rightarrow> GcCatalogRoots \<Rightarrow> oid set \<Rightarrow> (error + GcRootCounts \<times> oid set) option" where
  "reachable_closure load limit g reachable =
    (case schedule_catalog_roots g (no_counts, with_limit limit) of
       Inl e \<Rightarrow> Some (Inl e)
     | Inr (k, q) \<Rightarrow> map_option (map_sum id (Pair k)) (gc_walk load q reachable))"

text \<open>The edges of one object that were not seen before, pushed in order; the top of the stack is the head of the list.\<close>

definition push_edge :: "GraphEdge \<Rightarrow> oid list \<times> oid set \<Rightarrow> oid list \<times> oid set" where
  "push_edge e = (\<lambda>(stack, seen). if ge_id e \<in> seen then (stack, seen) else (ge_id e # stack, insert (ge_id e) seen))"

partial_function (option) protect_loop :: "graph_loader \<Rightarrow> oid list \<Rightarrow> oid set \<Rightarrow> oid set \<Rightarrow> oid set option" where
  "protect_loop load stack seen reachable =
    (case stack of
       [] \<Rightarrow> Some reachable
     | i # stack \<Rightarrow>
         Option.bind (load i) (\<lambda>r. case r of
             Inl _ \<Rightarrow> protect_loop load stack seen (insert i reachable)
           | Inr d \<Rightarrow> protect_loop load (fst (fold push_edge (dg_edges d) (stack, seen)))
               (snd (fold push_edge (dg_edges d) (stack, seen))) (insert i reachable)))"

definition protect_from_survivors :: "graph_loader \<Rightarrow> ScannedObject list \<Rightarrow> oid set \<Rightarrow> oid set option" where
  "protect_from_survivors load survivors reachable =
    (let stack = map so_id (filter (\<lambda>s. so_id s \<notin> reachable) survivors) in
     protect_loop load (rev stack) (set stack) reachable)"

section \<open>Retirement\<close>

definition forge_abandon_fork :: "Env \<Rightarrow> u64 \<Rightarrow> Capability \<Rightarrow> string \<Rightarrow> RetiredRef verb" where
  "forge_abandon_fork E now cap name =
    act_bind (act_of (check E now cap Op.Write (Some name))) (\<lambda>_. meta (abandon_ref name (agent_id cap) (uint now)))"

definition forge_abandon_session :: "Capability \<Rightarrow> string \<Rightarrow> bool \<Rightarrow> AbandonedSession verb" where
  "forge_abandon_session cap ns discard_staged =
    act_bind (act_of (require_ns cap ns)) (\<lambda>_. meta (abandon_session ns discard_staged))"

section \<open>The plan\<close>

record GcCounters =
  gn_runs :: nat
  gn_objects_deleted :: nat
  gn_bytes_deleted :: nat

record GcWorld =
  gw_forge :: Forge
  gw_dir :: listing
  gw_stats :: GcCounters

definition count_gc :: "GcReport \<Rightarrow> GcWorld \<Rightarrow> GcWorld" where
  "count_gc r g =
    (let s = (gw_stats g)\<lparr>gn_runs := gn_runs (gw_stats g) + 1, gn_objects_deleted := gn_objects_deleted (gw_stats g) + gr_deleted_objects r\<rparr> in
     g\<lparr>gw_stats := if gr_dry_run r then s else s\<lparr>gn_bytes_deleted := gn_bytes_deleted s + gr_collectable_bytes r\<rparr>\<rparr>)"

definition new_report :: "bool \<Rightarrow> nat \<Rightarrow> GcRootCounts \<Rightarrow> oid set \<Rightarrow> nat \<times> ScannedObject list \<Rightarrow> GcReport" where
  "new_report dry_run min_age_secs k reachable scan =
    \<lparr>gr_dry_run = dry_run, gr_min_age_secs = min_age_secs, gr_roots = k, gr_reachable_objects = card reachable,
     gr_scanned_objects = length (snd scan), gr_collectable_objects = 0, gr_collectable_bytes = 0, gr_withheld_young_objects = 0,
     gr_withheld_young_bytes = 0, gr_unnamed_files = fst scan, gr_deleted_objects = 0, gr_collectable_sample = [],
     gr_sample_truncated = False, gr_batch_limited = False\<rparr>"

definition with_sample :: "string list \<Rightarrow> GcReport \<Rightarrow> GcReport" where
  "with_sample sample r =
    r\<lparr>gr_sample_truncated := GC_SAMPLE_LIMIT < length sample, gr_collectable_sample := take GC_SAMPLE_LIMIT (sort sample)\<rparr>"

definition nanos :: "nat \<Rightarrow> nat" where
  "nanos secs = secs * 10 ^ 9"

definition withheld :: "nat \<Rightarrow> GcReport \<Rightarrow> GcReport" where
  "withheld len r = r\<lparr>gr_withheld_young_objects := gr_withheld_young_objects r + 1,
     gr_withheld_young_bytes := saturating_add (gr_withheld_young_bytes r) len\<rparr>"

definition plan_step :: "nat \<Rightarrow> oid set \<Rightarrow> ScannedObject \<Rightarrow> GcReport \<times> string list \<Rightarrow> GcReport \<times> string list" where
  "plan_step min_age reachable s = (\<lambda>(r, sample).
    if so_id s \<in> reachable then (r, sample)
    else if so_age s < min_age then (withheld (so_size s) r, sample)
    else (r\<lparr>gr_collectable_objects := gr_collectable_objects r + 1,
            gr_collectable_bytes := saturating_add (gr_collectable_bytes r) (so_size s)\<rparr>, sample @ [hex (so_id s)]))"

definition gc_authority :: "Env \<Rightarrow> u64 \<Rightarrow> Capability \<Rightarrow> Op list \<Rightarrow> Forge \<Rightarrow> error + unit" where
  "gc_authority E now cap ops w =
    and_then (try_fold (\<lambda>op _. check E now cap op None w) ops ()) (\<lambda>_.
      if has_unrestricted_ref_scope cap then Inr ()
      else Inl (Denied ''gc requires unrestricted read authority; a filtered ref view is not a root set''))"

definition forge_gc :: "Env \<Rightarrow> nat \<Rightarrow> u64 \<Rightarrow> nat \<Rightarrow> Capability \<Rightarrow> bool \<Rightarrow> nat \<Rightarrow> (error, GcReport, GcWorld) act" where
  "forge_gc E limit now t cap dry_run min_age_secs =
    act_bind (act_of (\<lambda>g. gc_authority E now cap [Op.Read] (gw_forge g))) (\<lambda>_.
      if \<not> dry_run then act_of (\<lambda>_. Inl (Invalid ''gc needs a mode: --dry-run to plan, or --collect to reclaim''))
      else
        act_bind (act_of (\<lambda>g. Inr (scan_objects t (gw_dir g)))) (\<lambda>scan.
        act_bind (\<lambda>g. map_option (\<lambda>r. (r, g))
            (reachable_closure (load_graph_object (env_hash E) (objects (gw_forge g))) limit (gc_roots (f_meta (gw_forge g))) {})) (\<lambda>(k, reachable) g.
        let (r, sample) = fold (plan_step (nanos min_age_secs) reachable) (snd scan) (new_report True min_age_secs k reachable scan, []);
            r = with_sample sample r in
        Some (Inr r, count_gc r g))))"

section \<open>The sweep\<close>

text \<open>What surrounds one sweep: the instants of the scan and of the age checks, an error of the object lock, the unlinks that
  the file system refuses, an error of the catalog's commit after the unlinks, and what other processes do between the unlocked pass and the write transaction.\<close>

record SweepEnv =
  sw_scan_time :: nat
  sw_sweep_time :: nat
  sw_lock :: "error option"
  sw_refuses :: "string list \<Rightarrow> bool"
  sw_commit :: "error option"
  sw_others :: "GcWorld \<Rightarrow> GcWorld"

record Choice =
  ch_report :: GcReport
  ch_doomed :: "(ScannedObject \<times> nat) list"
  ch_spared :: "ScannedObject list"

definition choose_step :: "nat \<Rightarrow> nat \<Rightarrow> listing \<Rightarrow> oid set \<Rightarrow> ScannedObject \<Rightarrow> Choice \<Rightarrow> Choice" where
  "choose_step min_age t dir reachable s c =
    (if so_id s \<in> reachable then c
     else case fs_metadata (so_path s) dir of
       None \<Rightarrow> c
     | Some (len, modified) \<Rightarrow>
         let age = file_age t modified in
         if age < min_age \<or> GC_COLLECT_BATCH_LIMIT \<le> length (ch_doomed c) then
           c\<lparr>ch_report := if age < min_age then withheld len (ch_report c) else (ch_report c)\<lparr>gr_batch_limited := True\<rparr>,
             ch_spared := ch_spared c @ [s]\<rparr>
         else c\<lparr>ch_doomed := ch_doomed c @ [(s, len)]\<rparr>)"

definition object_path :: "oid \<Rightarrow> string list" where
  "object_path i = [fst (shard_dirs i), snd (shard_dirs i), hex i]"

text \<open>The object leaves the directory, and with it the store when the file is the one the store reads.\<close>

definition unlink_object :: "ScannedObject \<Rightarrow> GcWorld \<Rightarrow> GcWorld" where
  "unlink_object s g =
    (let w = gw_forge g; l = f_store w; st = l_store l in
     g\<lparr>gw_dir := fs_remove (so_path s) (gw_dir g),
       gw_forge := w\<lparr>f_store := l\<lparr>l_store := st\<lparr>visible :=
         if so_path s = object_path (so_id s) then (visible st)(so_id s := None) else visible st\<rparr>\<rparr>\<rparr>\<rparr>)"

definition sweep_step :: "SweepEnv \<Rightarrow> oid set \<Rightarrow> ScannedObject \<times> nat \<Rightarrow> GcReport \<times> string list \<Rightarrow> (error, GcReport \<times> string list, GcWorld) act" where
  "sweep_step S protected = (\<lambda>(s, size) (r, sample) g.
    if so_id s \<in> protected then Some (Inr (r, sample), g)
    else
      let w = gw_forge g; g = g\<lparr>gw_forge := w\<lparr>f_meta := snd (forget_object (so_id s) (f_meta w))\<rparr>\<rparr> in
      if sw_refuses S (so_path s) then Some (Inl (Io ''gc could not unlink''), g)
      else Some (Inr (r\<lparr>gr_deleted_objects := gr_deleted_objects r + 1, gr_collectable_objects := gr_collectable_objects r + 1,
                        gr_collectable_bytes := saturating_add (gr_collectable_bytes r) size\<rparr>, sample @ [hex (so_id s)]), unlink_object s g))"

definition sweep_body :: "Env \<Rightarrow> nat \<Rightarrow> SweepEnv \<Rightarrow> nat \<Rightarrow> nat \<times> ScannedObject list \<Rightarrow> oid set \<Rightarrow> (error, GcReport, GcWorld) act" where
  "sweep_body E limit S min_age_secs scan reached =
    act_bind (\<lambda>g. map_option (\<lambda>r. (r, g))
        (reachable_closure (load_graph_object (env_hash E) (objects (gw_forge g))) limit (read_gc_roots (f_meta (gw_forge g))) reached)) (\<lambda>(k, reachable).
    act_bind (act_of (\<lambda>_. case sw_lock S of Some e \<Rightarrow> Inl e | None \<Rightarrow> Inr ())) (\<lambda>_.
    act_bind (act_of (\<lambda>g. Inr (fold (choose_step (nanos min_age_secs) (sw_sweep_time S) (gw_dir g) reachable)
        (filter (\<lambda>s. so_id s \<notin> reached) (snd scan))
        \<lparr>ch_report = new_report False min_age_secs k reachable scan, ch_doomed = [], ch_spared = []\<rparr>))) (\<lambda>c.
    act_bind (\<lambda>g. map_option (\<lambda>p. (Inr p, g))
        (protect_from_survivors (load_graph_object (env_hash E) (objects (gw_forge g))) (ch_spared c) reachable)) (\<lambda>protected.
    act_bind (act_fold (sweep_step S protected) (ch_doomed c) (ch_report c, [])) (\<lambda>(r, sample).
    act_ret (with_sample sample r))))))"

text \<open>The catalog half of a sweep commits with its result, or rolls back when the body or the commit fails; bytes that are
  gone stay gone.\<close>

definition sweep_txn :: "error option \<Rightarrow> (error, 'a, GcWorld) act \<Rightarrow> (error, 'a, GcWorld) act" where
  "sweep_txn commit body g =
    (if Catalog.read_only (f_meta (gw_forge g))
     then Some (Inl (Denied ''repository is open read-only; collection may not unlink objects''), g)
     else map_option (\<lambda>(r, g').
        let r = and_then r (\<lambda>x. case commit of Some e \<Rightarrow> Inl e | None \<Rightarrow> Inr x) in
        (r, case r of Inr _ \<Rightarrow> g'
        | Inl _ \<Rightarrow> g'\<lparr>gw_forge := (gw_forge g')\<lparr>f_meta := f_meta (gw_forge g)\<rparr>\<rparr>)) (body g))"

definition forge_gc_collect :: "Env \<Rightarrow> nat \<Rightarrow> SweepEnv \<Rightarrow> u64 \<Rightarrow> Capability \<Rightarrow> nat \<Rightarrow> (error, GcReport, GcWorld) act" where
  "forge_gc_collect E limit S now cap min_age_secs =
    act_bind (act_of (\<lambda>g. gc_authority E now cap [Op.Read, Op.Write] (gw_forge g))) (\<lambda>_.
      if min_age_secs < GC_COLLECT_MIN_AGE_FLOOR then act_of (\<lambda>_. Inl (Invalid ''gc --collect requires a larger --min-age-secs''))
      else
        act_bind (act_of (\<lambda>g. Inr (scan_objects (sw_scan_time S) (gw_dir g)))) (\<lambda>scan.
        act_bind (\<lambda>g. map_option (\<lambda>r. (r, g))
            (reachable_closure (load_graph_object (env_hash E) (objects (gw_forge g))) limit (gc_roots (f_meta (gw_forge g))) {})) (\<lambda>(_, reached).
        act_bind (\<lambda>g. Some (Inr (), sw_others S g)) (\<lambda>_.
        act_bind (sweep_txn (sw_commit S) (sweep_body E limit S min_age_secs scan reached)) (\<lambda>r g.
        Some (Inr r, count_gc r g))))))"

end
