(* ===== verification/Manifest.thy ===== *)
theory Manifest
  imports Overlay
begin

text \<open>
  The provenance manifest in the blob a snapshot names (\<open>src/crates/forge-core/src/provenance.rs\<close>): the versioned and the
  legacy encoding, their size limits, and the decoder, which accepts exactly the canonical encodings.
\<close>

section \<open>Limits and sizes\<close>

definition CURRENT_VERSION :: u64 where
  "CURRENT_VERSION = 1"

definition MAX_ENTRIES :: nat where
  "MAX_ENTRIES = 1000000"

definition MAX_LABEL_BYTES :: nat where
  "MAX_LABEL_BYTES = 1024"

definition MAX_SERIALIZED_BYTES :: nat where
  "MAX_SERIALIZED_BYTES = 64 * 1024 * 1024"

datatype ProvenanceEncoding = Legacy | Version1

type_synonym Entries = "(oid, string) btree"

definition cbor_header_len :: "nat \<Rightarrow> nat" where
  "cbor_header_len v =
    (if v \<le> 23 then 1 else if v \<le> 0xff then 2 else if v \<le> 0xffff then 3 else if v \<le> 0xffffffff then 5 else 9)"

definition add_size :: "nat \<Rightarrow> nat \<Rightarrow> error + nat" where
  "add_size a b = (if a + b < 2 ^ 64 then Inr (a + b) else Inl (Invalid ''provenance size overflow''))"

definition encoded_text_len :: "nat \<Rightarrow> error + nat" where
  "encoded_text_len n = add_size (cbor_header_len n) n"

definition entry_len_step :: "nat \<Rightarrow> oid \<times> string \<Rightarrow> nat \<Rightarrow> error + nat" where
  "entry_len_step key_len = (\<lambda>(_, label) serialized.
    if MAX_LABEL_BYTES < length label then Inl (Invalid ''provenance attribution label limit'')
    else and_then (encoded_text_len (length label)) (\<lambda>label_len.
      and_then (add_size serialized key_len) (\<lambda>size. add_size size label_len)))"

definition entries_encoded_len :: "Entries \<Rightarrow> error + nat" where
  "entries_encoded_len es =
    (if MAX_ENTRIES < length es then Inl (Invalid ''provenance entry limit'')
     else and_then (encoded_text_len 64) (\<lambda>key_len. try_fold (entry_len_step key_len) es (cbor_header_len (length es))))"

definition manifest_encoded_len :: "Entries \<Rightarrow> ProvenanceEncoding \<Rightarrow> error + nat" where
  "manifest_encoded_len es encoding =
    and_then (entries_encoded_len es) (\<lambda>entries_len. case encoding of
       Legacy \<Rightarrow> Inr entries_len
     | Version1 \<Rightarrow>
         and_then (encoded_text_len (length ''entries'')) (\<lambda>entries_key_len.
         and_then (encoded_text_len (length ''version'')) (\<lambda>version_key_len.
         and_then (add_size (cbor_header_len 2) entries_key_len) (\<lambda>size.
         and_then (add_size size entries_len) (\<lambda>size.
         and_then (add_size size version_key_len) (\<lambda>size.
         add_size size (cbor_header_len (unat CURRENT_VERSION))))))))"

definition validate_manifest :: "Entries \<Rightarrow> ProvenanceEncoding \<Rightarrow> nat \<Rightarrow> error + unit" where
  "validate_manifest es encoding max_bytes =
    and_then (manifest_encoded_len es encoding) (\<lambda>n.
      if max_bytes < n then Inl (Invalid ''provenance serialized size limit'') else Inr ())"

section \<open>Encoding and decoding\<close>

definition encode_entries :: "Entries \<Rightarrow> bytes" where
  "encode_entries es = encode_map_sorted (map (\<lambda>(i, agent). (encode_text (hex i), encode_text agent)) es)"

fun decode_entry_loop :: "nat \<Rightarrow> Reader \<Rightarrow> bytes option \<Rightarrow> Entries \<Rightarrow> error + (Entries \<times> Reader)" where
  "decode_entry_loop 0 r lst es = Inr (es, r)"
| "decode_entry_loop (Suc n) r lst es =
    and_then (text_map_key_bounded r lst 64) (\<lambda>(encoded_id, lst, r).
      if length encoded_id \<noteq> 64 then Inl (Corrupt ''provenance object id length'')
      else and_then (map_err (\<lambda>e. Corrupt (''provenance object id: '' @ error_string e)) (from_hex encoded_id)) (\<lambda>i.
        if hex i \<noteq> encoded_id then Inl (Corrupt ''provenance object ids must be lowercase hex'')
        else and_then (text_bounded r MAX_LABEL_BYTES) (\<lambda>(agent, r).
          if map_of es i \<noteq> None then Inl (Corrupt ''duplicate provenance object id'')
          else decode_entry_loop n r lst (bt_insert i agent es))))"

definition decode_entries :: "Reader \<Rightarrow> error + (Entries \<times> Reader)" where
  "decode_entries r =
    and_then (rd_map r) (\<lambda>(count, r).
      if MAX_ENTRIES < unat count then Inl (Corrupt ''provenance entry limit'')
      else decode_entry_loop (unat count) r None [])"

definition looks_legacy :: "bytes \<Rightarrow> error + bool" where
  "looks_legacy bs =
    and_then (rd_map (new_reader bs)) (\<lambda>(count, r).
      if count = 0 then Inr True
      else and_then (text_map_key_bounded r None 64) (\<lambda>(fst_key, _, _).
        if length fst_key \<noteq> 64 then Inr False
        else case from_hex fst_key of Inl _ \<Rightarrow> Inr False | Inr i \<Rightarrow> Inr (hex i = fst_key)))"

record ProvenanceManifest =
  pm_entries :: Entries
  pm_encoding :: ProvenanceEncoding

definition manifest_new :: "Entries \<Rightarrow> error + ProvenanceManifest" where
  "manifest_new es =
    and_then (validate_manifest es Version1 MAX_SERIALIZED_BYTES) (\<lambda>_. Inr \<lparr>pm_entries = es, pm_encoding = Version1\<rparr>)"

definition is_legacy :: "ProvenanceManifest \<Rightarrow> bool" where
  "is_legacy m \<longleftrightarrow> pm_encoding m = Legacy"

definition manifest_encode :: "ProvenanceManifest \<Rightarrow> bytes" where
  "manifest_encode m =
    (case pm_encoding m of
       Legacy \<Rightarrow> encode_entries (pm_entries m)
     | Version1 \<Rightarrow> encode_map_sorted
         [(text_key ''entries'', encode_entries (pm_entries m)), (text_key ''version'', encode_u64 CURRENT_VERSION)])"

fun envelope_loop :: "nat \<Rightarrow> Reader \<Rightarrow> bytes option \<Rightarrow> Entries option \<times> u64 option
    \<Rightarrow> error + ((Entries option \<times> u64 option) \<times> Reader)" where
  "envelope_loop 0 r lst s = Inr (s, r)"
| "envelope_loop (Suc n) r lst s =
    and_then (text_map_key_bounded r lst 32) (\<lambda>(key, lst, r).
      if key = ''entries'' then and_then (decode_entries r) (\<lambda>(es, r). envelope_loop n r lst (Some es, snd s))
      else if key = ''version'' then and_then (rd_u64 r) (\<lambda>(v, r). envelope_loop n r lst (fst s, Some v))
      else Inl (Corrupt ''unknown provenance envelope key''))"

definition decode_legacy :: "bytes \<Rightarrow> error + ProvenanceManifest" where
  "decode_legacy bs =
    and_then (decode_entries (new_reader bs)) (\<lambda>(es, r).
      if \<not> at_end r then Inl (Corrupt ''provenance trailing bytes'')
      else Inr \<lparr>pm_entries = es, pm_encoding = Legacy\<rparr>)"

definition decode_envelope :: "bytes \<Rightarrow> error + ProvenanceManifest" where
  "decode_envelope bs =
    and_then (rd_map (new_reader bs)) (\<lambda>(fields, r).
    and_then (envelope_loop (unat fields) r None (None, None)) (\<lambda>((es, version), r).
      if \<not> at_end r then Inl (Corrupt ''provenance trailing bytes'')
      else and_then (ok_or (Corrupt ''provenance version'') version) (\<lambda>version.
        if version \<noteq> CURRENT_VERSION then Inl (Corrupt ''unsupported provenance version'')
        else and_then (ok_or (Corrupt ''provenance entries'') es) (\<lambda>es.
          Inr \<lparr>pm_entries = es, pm_encoding = Version1\<rparr>))))"

definition decode_with_limit :: "bytes \<Rightarrow> nat \<Rightarrow> error + ProvenanceManifest" where
  "decode_with_limit bs max_bytes =
    (if max_bytes < length bs then Inl (Corrupt ''provenance serialized size limit'')
     else and_then (looks_legacy bs) (\<lambda>legacy.
       and_then (if legacy then decode_legacy bs else decode_envelope bs) (\<lambda>m.
       and_then (map_err (\<lambda>e. Corrupt (error_string e)) (validate_manifest (pm_entries m) (pm_encoding m) max_bytes)) (\<lambda>_.
         if manifest_encode m \<noteq> bs then Inl (Corrupt ''non-canonical provenance encoding'') else Inr m))))"

definition manifest_decode :: "bytes \<Rightarrow> error + ProvenanceManifest" where
  "manifest_decode bs = decode_with_limit bs MAX_SERIALIZED_BYTES"

section \<open>Sizes are exact\<close>

lemma cbor_header_len_exact: "n < 2 ^ 64 \<Longrightarrow> length (push_uint m (of_nat n)) = cbor_header_len n"
  by (auto simp: push_uint_eq uint_tail_def cbor_header_len_def u8_len_def word_le_nat_alt word_less_nat_alt unat_of_nat take_bit_eq_mod)

lemma length_text_exact: "length s < 2 ^ 64 \<Longrightarrow> length (encode_text s) = cbor_header_len (length s) + length s"
  by (simp add: encode_text_def cbor_header_len_exact)

lemma add_size_Inr: "add_size a b = Inr n \<longleftrightarrow> n = a + b \<and> a + b < 2 ^ 64"
  by (auto simp: add_size_def)

definition labels_ok :: "Entries \<Rightarrow> bool" where
  "labels_ok es \<longleftrightarrow> (\<forall>i a. map_of es i = Some a \<longrightarrow> valid_str a \<and> length a \<le> MAX_LABEL_BYTES)"

definition entry_bytes :: "oid \<times> string \<Rightarrow> bytes" where
  "entry_bytes e = encode_text (hex (fst e)) @ encode_text (snd e)"

definition entry_key :: "oid \<times> string \<Rightarrow> bytes" where
  "entry_key e = encode_text (hex (fst e))"

lemma encode_entries_sorted:
  "encode_entries es = encode_map_header (of_nat (length es)) @ concat (map entry_bytes (sort_key entry_key es))"
proof -
  have *: "(\<lambda>(i, agent). (encode_text (hex i), encode_text agent)) = (\<lambda>e. (entry_key e, encode_text (snd e)))"
    by (auto simp: entry_key_def)
  show ?thesis
    unfolding encode_entries_def encode_map_sorted_def * sort_key_map Let_def
    by (simp add: comp_def entry_bytes_def [abs_def] entry_key_def [symmetric])
qed

lemma entry_steps:
  assumes "try_fold (entry_len_step k) es n = Inr m" "k = cbor_header_len 64 + 64"
  shows "m = n + sum_list (map (length \<circ> entry_bytes) es) \<and> (\<forall>e \<in> set es. length (snd e) \<le> MAX_LABEL_BYTES)"
  using assms(1)
proof (induction es arbitrary: n)
  case (Cons e es)
  then obtain n1 where n1: "entry_len_step k e n = Inr n1" "try_fold (entry_len_step k) es n1 = Inr m" by (auto simp: and_then_Inr_iff)
  have "n1 = n + length (entry_bytes e)" "length (snd e) \<le> MAX_LABEL_BYTES"
    using n1(1) by (auto simp: entry_len_step_def and_then_Inr_iff add_size_Inr encoded_text_len_def entry_bytes_def length_text_exact assms(2)
        MAX_LABEL_BYTES_def split: prod.splits if_split_asm)
  then show ?case using Cons.IH [OF n1(2)] by auto
qed simp

lemma entries_len_exact:
  assumes "entries_encoded_len es = Inr n"
  shows "n = length (encode_entries es) \<and> length es \<le> MAX_ENTRIES \<and> (\<forall>e \<in> set es. length (snd e) \<le> MAX_LABEL_BYTES)"
proof -
  have l: "length es \<le> MAX_ENTRIES" "try_fold (entry_len_step (cbor_header_len 64 + 64)) es (cbor_header_len (length es)) = Inr n"
    using assms by (auto simp: entries_encoded_len_def and_then_Inr_iff encoded_text_len_def add_size_Inr split: if_split_asm)
  have "length (encode_map_header (of_nat (length es))) = cbor_header_len (length es)"
    using l(1) by (simp add: encode_map_header_def cbor_header_len_exact MAX_ENTRIES_def)
  then show ?thesis
    using entry_steps [OF l(2)] l(1) by (simp add: encode_entries_sorted length_concat sum_list_sort_key comp_def)
qed

lemma envelope_bytes:
  "manifest_encode \<lparr>pm_entries = es, pm_encoding = Version1\<rparr> =
    encode_map_header 2 @ text_key ''entries'' @ encode_entries es @ text_key ''version'' @ encode_u64 CURRENT_VERSION"
proof -
  have "text_key ''entries'' \<le> text_key ''version''" by code_simp
  then show ?thesis by (simp add: manifest_encode_def encode_map_sorted_def Let_def)
qed

lemma manifest_len_exact:
  assumes "validate_manifest (pm_entries m) (pm_encoding m) mx = Inr u"
  shows "length (manifest_encode m) \<le> mx \<and> length (pm_entries m) \<le> MAX_ENTRIES \<and>
    (\<forall>e \<in> set (pm_entries m). length (snd e) \<le> MAX_LABEL_BYTES)"
proof -
  obtain n k where n: "entries_encoded_len (pm_entries m) = Inr n" "manifest_encoded_len (pm_entries m) (pm_encoding m) = Inr k" "k \<le> mx"
    using assms by (auto simp: validate_manifest_def manifest_encoded_len_def and_then_Inr_iff split: if_split_asm)
  have h: "length (encode_map_header 2) = 1" "length (text_key ''entries'') = 8" "length (text_key ''version'') = 8"
      "length (encode_u64 CURRENT_VERSION) = 1"
    by code_simp+
  have "length (manifest_encode m) = k"
  proof (cases "pm_encoding m")
    case Legacy
    then show ?thesis using n entries_len_exact [OF n(1)] by (simp add: manifest_encoded_len_def manifest_encode_def)
  next
    case Version1
    then have "m = \<lparr>pm_entries = pm_entries m, pm_encoding = Version1\<rparr>" by simp
    then have len: "length (manifest_encode m) = 18 + length (encode_entries (pm_entries m))"
      using envelope_bytes [of "pm_entries m"] h by simp
    have "k = 18 + n"
      using n(1,2) Version1
      by (auto simp: manifest_encoded_len_def and_then_Inr_iff add_size_Inr encoded_text_len_def cbor_header_len_def CURRENT_VERSION_def)
    then show ?thesis using len entries_len_exact [OF n(1)] by simp
  qed
  then show ?thesis using n(3) entries_len_exact [OF n(1)] by simp
qed

section \<open>Reading back\<close>

lemma valid_str_hex [simp]: "valid_str (hex i)"
proof -
  have "list_all printable (hex i)" using printable_hex_encode by (simp add: hex_def)
  then show ?thesis by (intro valid_str_ascii) (auto simp: list_all_iff printable_def ascii_char_def)
qed

lemma text_map_key_bounded_iff:
  assumes "rd_ok r"
  shows "text_map_key_bounded r lst mx = Inr (k, lst', r') \<longleftrightarrow>
    valid_str k \<and> length k \<le> mx \<and> at_bytes r (text_key k) \<and> r' = adv r (length (text_key k)) \<and>
    lst' = Some (text_key k) \<and> (\<forall>prev. lst = Some prev \<longrightarrow> prev < text_key k)"
proof -
  have "take (pos (adv r (length xs)) - pos r) (drop (pos r) (buf (adv r (length xs)))) = xs" if "at_bytes r xs" for xs
    using that by (simp add: at_bytes_def)
  then show ?thesis
    using assms by (auto simp: text_map_key_bounded_def and_then_Inr_iff Let_def text_key_def text_bounded_iff split: option.splits)
qed

lemma entry_key_inject: "entry_key a = entry_key b \<longleftrightarrow> fst a = fst b"
proof
  assume "entry_key a = entry_key b"
  then have "text_key (hex (fst a)) = text_key (hex (fst b))" by (simp add: entry_key_def text_key_def)
  then show "fst a = fst b" using text_key_inject [of "hex (fst a)" "hex (fst b)"] length_encode_item(3) [of "hex (fst a)"] by simp
qed (simp add: entry_key_def)

lemma entry_loop_complete:
  assumes "rd_ok r" "sorted_wrt (<) (map entry_key kvs)" "\<forall>p. lst = Some p \<longrightarrow> (\<forall>e \<in> set kvs. p < entry_key e)"
    and "at_bytes r (concat (map entry_bytes kvs))" "\<forall>e \<in> set kvs. valid_str (snd e) \<and> length (snd e) \<le> MAX_LABEL_BYTES"
    and "\<forall>e \<in> set kvs. map_of es (fst e) = None"
  shows "decode_entry_loop (length kvs) r lst es =
    Inr (fold (\<lambda>e. bt_insert (fst e) (snd e)) kvs es, adv r (length (concat (map entry_bytes kvs))))"
  using assms
proof (induction kvs arbitrary: r lst es)
  case (Cons e kvs)
  let ?k = "text_key (hex (fst e))" and ?v = "encode_text (snd e)"
  have at: "at_bytes r ?k" "at_bytes (adv r (length ?k)) ?v" "at_bytes (adv r (length ?k + length ?v)) (concat (map entry_bytes kvs))"
    using Cons.prems(4) by (auto simp: entry_bytes_def [of e] text_key_def)
  have key: "text_map_key_bounded r lst 64 = Inr (hex (fst e), Some ?k, adv r (length ?k))"
    using Cons.prems(1,3) at(1) by (auto simp: text_map_key_bounded_iff entry_key_def text_key_def)
  have val: "text_bounded (adv r (length ?k)) MAX_LABEL_BYTES = Inr (snd e, adv r (length ?k + length ?v))"
    using Cons.prems(1,5) at(2) by (simp add: text_bounded_iff)
  have lst: "\<forall>p. Some ?k = Some p \<longrightarrow> (\<forall>e \<in> set kvs. p < entry_key e)"
    using Cons.prems(2) by (auto simp: entry_key_def text_key_def)
  have new: "map_of (bt_insert (fst e) (snd e) es) (fst e') = None" if "e' \<in> set kvs" for e'
  proof -
    have "entry_key e < entry_key e'" using Cons.prems(2) that by simp
    then have "fst e \<noteq> fst e'" using entry_key_inject [of e e'] by auto
    then show ?thesis using Cons.prems(6) that by simp
  qed
  have "decode_entry_loop (length kvs) (adv r (length ?k + length ?v)) (Some ?k) (bt_insert (fst e) (snd e) es) =
      Inr (fold (\<lambda>e. bt_insert (fst e) (snd e)) kvs (bt_insert (fst e) (snd e) es),
        adv r (length ?k + length ?v + length (concat (map entry_bytes kvs))))"
    using Cons.IH [OF _ _ lst at(3)] Cons.prems new by simp
  then show ?case using key val Cons.prems(6) by (simp add: from_hex_hex entry_bytes_def [of e] text_key_def add.assoc)
qed simp

lemma entry_loop_sound:
  assumes "decode_entry_loop n r lst es = Inr (es', r')" "rd_ok r" "bt_ok es" "labels_ok es"
  shows "bt_ok es' \<and> labels_ok es' \<and> rd_ok r'"
  using assms
proof (induction n arbitrary: r lst es)
  case (Suc n)
  then obtain k lst' i a where k: "text_map_key_bounded r lst 64 = Inr (k, lst', adv r (length (text_key k)))"
      "text_bounded (adv r (length (text_key k))) MAX_LABEL_BYTES = Inr (a, adv r (length (text_key k) + length (encode_text a)))"
      "decode_entry_loop n (adv r (length (text_key k) + length (encode_text a))) lst' (bt_insert i a es) = Inr (es', r')"
      "valid_str a" "length a \<le> MAX_LABEL_BYTES"
    by (auto simp: and_then_Inr_iff text_map_key_bounded_iff text_bounded_iff split: if_split_asm)
  have "labels_ok (bt_insert i a es)" using Suc.prems(4) k(4,5) by (auto simp: labels_ok_def split: if_split_asm)
  then show ?case using Suc.IH [OF k(3)] Suc.prems by simp
qed simp

text \<open>A manifest as \<open>new\<close> makes it: a map from ids to labels within every limit.\<close>

definition manifest_ok :: "ProvenanceManifest \<Rightarrow> bool" where
  "manifest_ok m \<longleftrightarrow> bt_ok (pm_entries m) \<and> labels_ok (pm_entries m) \<and>
    validate_manifest (pm_entries m) (pm_encoding m) MAX_SERIALIZED_BYTES = Inr ()"

lemma sorted_entries:
  assumes "bt_ok es"
  shows "sorted_wrt (<) (map entry_key (sort_key entry_key es))" "map_of (sort_key entry_key es) = map_of es"
    "distinct (map fst (sort_key entry_key es))"
proof -
  have d: "distinct (map fst es)" using assms by (rule bt_ok_distinct)
  have "distinct (map entry_key es)" using d by (auto simp: distinct_map inj_on_def entry_key_inject)
  then show "sorted_wrt (<) (map entry_key (sort_key entry_key es))"
    by (simp add: strict_sorted_iff distinct_map)
  show "distinct (map fst (sort_key entry_key es))" using d by (simp add: distinct_map)
  then show "map_of (sort_key entry_key es) = map_of es" using d by (metis map_of_inject_set set_sort)
qed

lemma length_entry_bytes: "2 * length kvs \<le> length (concat (map entry_bytes kvs))"
proof (induction kvs)
  case (Cons e kvs)
  have "2 \<le> length (entry_bytes e)"
    using encode_nonempty(4) [of "hex (fst e)"] encode_nonempty(4) [of "snd e"]
    by (cases "encode_text (hex (fst e))"; cases "encode_text (snd e)") (auto simp: entry_bytes_def)
  then show ?case using Cons by simp
qed simp

lemma entries_header:
  assumes "rd_ok r" "at_bytes r (encode_entries es)" "length es \<le> MAX_ENTRIES"
  shows "rd_map r = Inr (of_nat (length es), adv r (length (encode_map_header (of_nat (length es)))))"
    "unat (of_nat (length es) :: u64) = length es"
proof -
  let ?h = "encode_map_header (of_nat (length es))"
  have at: "at_bytes r (?h @ concat (map entry_bytes (sort_key entry_key es)))" using assms(2) by (simp add: encode_entries_sorted)
  show u: "unat (of_nat (length es) :: u64) = length es" using assms(3) by (simp add: unat_of_nat take_bit_eq_mod MAX_ENTRIES_def)
  have "2 * length es \<le> length (remaining (adv r (length ?h)))"
    using remaining_adv_at [OF at] length_entry_bytes [of "sort_key entry_key es"] by simp
  then show "rd_map r = Inr (of_nat (length es), adv r (length ?h))" using at assms(1) u by (simp add: rd_map_iff)
qed

lemma decode_entries_complete:
  assumes "rd_ok r" "bt_ok es" "labels_ok es" "length es \<le> MAX_ENTRIES" "at_bytes r (encode_entries es)"
  shows "decode_entries r = Inr (es, adv r (length (encode_entries es)))"
proof -
  let ?s = "sort_key entry_key es" and ?h = "encode_map_header (of_nat (length es))"
  note s = sorted_entries [OF assms(2)]
  have at: "at_bytes (adv r (length ?h)) (concat (map entry_bytes ?s))" using assms(5) by (simp add: encode_entries_sorted)
  have lab: "valid_str (snd e) \<and> length (snd e) \<le> MAX_LABEL_BYTES" if "e \<in> set ?s" for e
  proof -
    have "e \<in> set es" using that by simp
    then have "map_of es (fst e) = Some (snd e)" using bt_ok_distinct [OF assms(2)] by simp
    then show ?thesis using assms(3) by (simp add: labels_ok_def)
  qed
  have "decode_entry_loop (length ?s) (adv r (length ?h)) None [] =
      Inr (fold (\<lambda>e. bt_insert (fst e) (snd e)) ?s [], adv (adv r (length ?h)) (length (concat (map entry_bytes ?s))))"
    using entry_loop_complete [OF _ s(1) _ at, of None "[]"] assms(1) lab by simp
  moreover have "fold (\<lambda>e. bt_insert (fst e) (snd e)) ?s [] = es"
  proof (rule bt_ok_ext)
    show "map_of (fold (\<lambda>e. bt_insert (fst e) (snd e)) ?s []) = map_of es"
      using map_of_fold_insert [OF s(3), of snd "[]"] s(2) by (auto simp: fun_eq_iff split: option.splits)
  qed (use assms(2) in \<open>simp_all add: bt_ok_fold_insert\<close>)
  ultimately show ?thesis
    using entries_header [OF assms(1,5,4)] assms(4) by (simp add: decode_entries_def encode_entries_sorted)
qed

lemma legacy_complete:
  assumes "rd_ok (new_reader (encode_entries es))" "bt_ok es" "labels_ok es" "length es \<le> MAX_ENTRIES"
  shows "looks_legacy (encode_entries es) = Inr True"
    and "decode_legacy (encode_entries es) = Inr \<lparr>pm_entries = es, pm_encoding = Legacy\<rparr>"
proof -
  let ?r = "new_reader (encode_entries es)" and ?h = "encode_map_header (of_nat (length es))"
  note hd = entries_header [OF assms(1) at_bytes_new assms(4)]
  show "looks_legacy (encode_entries es) = Inr True"
  proof (cases "sort_key entry_key es")
    case Nil
    then have "es = []" by (metis length_0_conv length_sort)
    then show ?thesis using hd by (simp add: looks_legacy_def)
  next
    case (Cons e rest)
    have "at_bytes ?r (encode_entries es)" by simp
    then have "at_bytes (adv ?r (length ?h)) (text_key (hex (fst e)))"
      by (simp add: encode_entries_sorted Cons entry_bytes_def text_key_def)
    then have "text_map_key_bounded (adv ?r (length ?h)) None 64 =
        Inr (hex (fst e), Some (text_key (hex (fst e))), adv (adv ?r (length ?h)) (length (text_key (hex (fst e)))))"
      using assms(1) by (simp add: text_map_key_bounded_iff)
    moreover have "es \<noteq> []" using Cons by auto
    then have "(of_nat (length es) :: u64) \<noteq> 0" using hd(2) by (metis length_0_conv unat_0)
    ultimately show ?thesis using hd by (simp add: looks_legacy_def from_hex_hex)
  qed
  show "decode_legacy (encode_entries es) = Inr \<lparr>pm_entries = es, pm_encoding = Legacy\<rparr>"
    using decode_entries_complete [OF assms at_bytes_new] by (simp add: decode_legacy_def at_end_def new_reader_def)
qed

lemma envelope_complete:
  assumes "rd_ok (new_reader bs)" "bt_ok es" "labels_ok es" "length es \<le> MAX_ENTRIES"
    and bs: "bs = manifest_encode \<lparr>pm_entries = es, pm_encoding = Version1\<rparr>"
  shows "looks_legacy bs = Inr False" and "decode_envelope bs = Inr \<lparr>pm_entries = es, pm_encoding = Version1\<rparr>"
proof -
  let ?r = "new_reader bs" and ?h = "encode_map_header 2" and ?k = "text_key ''entries''" and ?e = "encode_entries es"
    and ?v = "text_key ''version''" and ?n = "encode_u64 CURRENT_VERSION"
  have "at_bytes ?r bs" by simp
  then have at: "at_bytes ?r ?h" "at_bytes (adv ?r (length ?h)) ?k" "at_bytes (adv ?r (length ?h + length ?k)) ?e"
      "at_bytes (adv ?r (length ?h + length ?k + length ?e)) ?v" "at_bytes (adv ?r (length ?h + length ?k + length ?e + length ?v)) ?n"
    unfolding bs envelope_bytes by (simp_all add: add.assoc)
  have "length bs = length ?h + length ?k + length ?e + length ?v + length ?n" unfolding bs envelope_bytes by simp
  moreover have c: "length ?k = 8" "valid_str ''entries''" "valid_str ''version''" "?k < ?v" by code_simp+
  ultimately have map: "rd_map ?r = Inr (2, adv ?r (length ?h))"
    using at(1) assms(1) by (simp add: rd_map_iff remaining_def new_reader_def)
  have key: "text_map_key_bounded (adv ?r (length ?h)) None n = Inr (''entries'', Some ?k, adv ?r (length ?h + length ?k))"
    if "7 \<le> n" for n
    using at(2) assms(1) c that by (simp add: text_map_key_bounded_iff)
  have vkey: "text_map_key_bounded (adv ?r (length ?h + length ?k + length ?e)) (Some ?k) 32 =
      Inr (''version'', Some ?v, adv ?r (length ?h + length ?k + length ?e + length ?v))"
    using at(4) assms(1) c by (simp add: text_map_key_bounded_iff)
  have es: "decode_entries (adv ?r (length ?h + length ?k)) = Inr (es, adv ?r (length ?h + length ?k + length ?e))"
    using decode_entries_complete [OF _ assms(2-4) at(3)] assms(1) by simp
  have ver: "rd_u64 (adv ?r (length ?h + length ?k + length ?e + length ?v)) =
      Inr (CURRENT_VERSION, adv ?r (length ?h + length ?k + length ?e + length ?v + length ?n))"
    using at(5) assms(1) by (simp add: rd_u64_iff)
  show "looks_legacy bs = Inr False" using map key [of 64] by (simp add: looks_legacy_def)
  have "envelope_loop (Suc (Suc 0)) (adv ?r (length ?h)) None (None, None) =
      Inr ((Some es, Some CURRENT_VERSION), adv ?r (length ?h + length ?k + length ?e + length ?v + length ?n))"
    using key [of 32] vkey es ver by simp
  then have "envelope_loop 2 (adv ?r (length ?h)) None (None, None) =
      Inr ((Some es, Some CURRENT_VERSION), adv ?r (length ?h + length ?k + length ?e + length ?v + length ?n))"
    by (simp only: numeral_2_eq_2)
  moreover have "at_end (adv ?r (length ?h + length ?k + length ?e + length ?v + length ?n))"
    unfolding bs envelope_bytes by (simp add: at_end_def new_reader_def)
  ultimately show "decode_envelope bs = Inr \<lparr>pm_entries = es, pm_encoding = Version1\<rparr>"
    using map by (simp add: decode_envelope_def del: envelope_loop.simps)
qed

lemma decode_entries_sound:
  assumes "decode_entries r = Inr (es, r')" "rd_ok r"
  shows "bt_ok es \<and> labels_ok es \<and> rd_ok r'"
proof -
  obtain n where "decode_entry_loop (unat n) (adv r (length (encode_map_header n))) None [] = Inr (es, r')"
    using assms by (auto simp: decode_entries_def and_then_Inr_iff rd_map_iff split: if_split_asm)
  then show ?thesis by (rule entry_loop_sound) (use assms(2) in \<open>simp_all add: labels_ok_def\<close>)
qed

lemma envelope_loop_sound:
  assumes "envelope_loop n r lst s = Inr ((es, v), r')" "rd_ok r" "\<And>es. fst s = Some es \<Longrightarrow> bt_ok es \<and> labels_ok es"
  shows "\<forall>x. es = Some x \<longrightarrow> bt_ok x \<and> labels_ok x"
  using assms
proof (induction n arbitrary: r lst s)
  case (Suc n)
  obtain key lst' r1 where k: "text_map_key_bounded r lst 32 = Inr (key, lst', r1)"
    using Suc.prems(1) by (auto simp: and_then_Inr_iff)
  have r1: "rd_ok r1" using k Suc.prems(2) by (simp add: text_map_key_bounded_iff)
  consider x r2 where "decode_entries r1 = Inr (x, r2)" "envelope_loop n r2 lst' (Some x, snd s) = Inr ((es, v), r')"
    | x r2 where "rd_u64 r1 = Inr (x, r2)" "envelope_loop n r2 lst' (fst s, Some x) = Inr ((es, v), r')"
    using Suc.prems(1) k by (auto simp: and_then_Inr_iff split: if_split_asm)
  then show ?case
  proof cases
    case 1
    then show ?thesis using decode_entries_sound [OF 1(1) r1] Suc.IH [OF 1(2)] by simp
  next
    case 2
    then show ?thesis using r1 Suc.IH [OF 2(2)] Suc.prems(3) by (simp add: rd_u64_iff)
  qed
qed auto

lemma manifest_decode_iff: "manifest_decode bs = Inr m \<longleftrightarrow> manifest_ok m \<and> manifest_encode m = bs"
proof
  assume d: "manifest_decode bs = Inr m"
  then have l: "length bs \<le> MAX_SERIALIZED_BYTES" "decode_legacy bs = Inr m \<or> decode_envelope bs = Inr m"
      "validate_manifest (pm_entries m) (pm_encoding m) MAX_SERIALIZED_BYTES = Inr ()" "manifest_encode m = bs"
    by (auto simp: manifest_decode_def decode_with_limit_def and_then_Inr_iff map_err_Inr_iff split: if_split_asm)
  have ok: "rd_ok (new_reader bs)" using l(1) by (simp add: rd_ok_def new_reader_def MAX_SERIALIZED_BYTES_def)
  have "bt_ok (pm_entries m) \<and> labels_ok (pm_entries m)"
  proof (cases "decode_legacy bs = Inr m")
    case True
    then show ?thesis using ok by (auto simp: decode_legacy_def and_then_Inr_iff split: if_split_asm dest!: decode_entries_sound)
  next
    case False
    then obtain f r es r' where e: "rd_map (new_reader bs) = Inr (f, r)" "envelope_loop (unat f) r None (None, None) = Inr ((Some es, Some CURRENT_VERSION), r')"
        "pm_entries m = es"
      using l(2) by (auto simp: decode_envelope_def and_then_Inr_iff ok_or_Inr_iff split: if_split_asm)
    have "rd_ok r" using e(1) ok by (auto simp: rd_map_iff)
    then show ?thesis using envelope_loop_sound [OF e(2)] e(3) by simp
  qed
  then show "manifest_ok m \<and> manifest_encode m = bs" using l(3,4) by (simp add: manifest_ok_def)
next
  assume m: "manifest_ok m \<and> manifest_encode m = bs"
  then have len: "length bs \<le> MAX_SERIALIZED_BYTES" "length (pm_entries m) \<le> MAX_ENTRIES"
    using manifest_len_exact [of m] by (auto simp: manifest_ok_def)
  then have ok: "rd_ok (new_reader bs)" by (simp add: rd_ok_def new_reader_def MAX_SERIALIZED_BYTES_def)
  show "manifest_decode bs = Inr m"
  proof (cases "pm_encoding m")
    case Legacy
    then have mm: "m = \<lparr>pm_entries = pm_entries m, pm_encoding = Legacy\<rparr>" "bs = encode_entries (pm_entries m)"
      using m by (auto simp: manifest_encode_def)
    then show ?thesis using legacy_complete [of "pm_entries m"] len m ok
      by (simp add: manifest_decode_def decode_with_limit_def manifest_ok_def)
  next
    case Version1
    then have mm: "m = \<lparr>pm_entries = pm_entries m, pm_encoding = Version1\<rparr>" by simp
    then have "bs = manifest_encode \<lparr>pm_entries = pm_entries m, pm_encoding = Version1\<rparr>" using m by metis
    then show ?thesis using envelope_complete [OF ok _ _ len(2)] len(1) m mm
      by (simp add: manifest_decode_def decode_with_limit_def manifest_ok_def)
  qed
qed

text \<open>
  C31: The decoder of provenance manifests accepts exactly the canonical encodings: of the manifests \<open>new\<close> makes, and of the
  unversioned maps of earlier builds, within the limits; every other byte string is an error.
\<close>

theorem manifest_codec_exact: "manifest_decode bs = Inr m \<longleftrightarrow> manifest_ok m \<and> manifest_encode m = bs"
  by (rule manifest_decode_iff)

end
