(* ===== verification/Integration.thy ===== *)
theory Integration
  imports Workspace Graph Manifest
begin

text \<open>
  Deterministic integration and sealed releases (\<open>src/crates/forge-api/src/integration.rs\<close>): the verbs \<open>merge\<close>, \<open>resolve\<close>,
  \<open>seal\<close> and \<open>verify_tag\<close>, whole. Ed25519, the seal keys of the repository, the ULID syntax check and the ceiling of a graph
  walk are arguments, as the hash and the HMAC are.
\<close>

section \<open>What the verbs share\<close>

record SealEnv =
  se_sign :: "bytes \<Rightarrow> bytes \<Rightarrow> bytes"
  se_key_ok :: "bytes \<Rightarrow> bool"
  se_verify :: "bytes \<Rightarrow> bytes \<Rightarrow> bytes \<Rightarrow> bool"
  se_seed :: bytes
  se_pk :: bytes
  se_limit :: nat

definition put_encoded :: "Env \<Rightarrow> bytes option \<Rightarrow> oid verb" where
  "put_encoded E enc = stored (\<lambda>l. Option.bind enc (\<lambda>bs. put_bytes (env_hash E) bs l))"

definition verb_put_conflict :: "Env \<Rightarrow> Conflict \<Rightarrow> oid verb" where
  "verb_put_conflict E c = (case conflict_validate c of Inl e \<Rightarrow> fail e | Inr _ \<Rightarrow> put_encoded E (conflict_encode c))"

definition verb_intros :: "Env \<Rightarrow> oid \<Rightarrow> oid \<Rightarrow> oid list verb" where
  "verb_intros E old new = (\<lambda>w. map_option (\<lambda>(r, _). (r, w)) (collect_intros (env_hash E) (Some old) new (objects w)))"

text \<open>Opening of \<open>merge\<close> and \<open>resolve\<close>: the ref must exist, and a protected one needs the merge authority.\<close>

definition open_into :: "Env \<Rightarrow> u64 \<Rightarrow> Capability \<Rightarrow> string \<Rightarrow> Forge \<Rightarrow> error + RefRow" where
  "open_into E now cap dest w =
    and_then (ok_or (NotFound (''ref '' @ dest)) (get_ref (f_meta w) dest)) (\<lambda>row.
    and_then (check E now cap (if row_protected row then Op.Merge else Op.Write) (Some dest) w) (\<lambda>_. Inr row))"

section \<open>Merge\<close>

definition publish_conflict :: "Env \<Rightarrow> u64 \<Rightarrow> string \<Rightarrow> Capability \<Rightarrow> string \<Rightarrow> string \<Rightarrow> Conflict \<Rightarrow> 'a verb" where
  "publish_conflict E now ulid cap dest reason conflict =
    act_bind (verb_put_conflict E conflict) (\<lambda>i.
    act_bind (meta (insert_ref (''conflicts/'' @ dest @ ''/'' @ ulid) i ''conflict'' False False (agent_id cap) reason (uint now))) (\<lambda>_.
    act_bind (counted (\<lambda>s. s\<lparr>ct_merge_conflict := ct_merge_conflict s + 1\<rparr>)) (\<lambda>_.
    fail (error.MergeConflict i))))"

definition open_merge :: "Env \<Rightarrow> u64 \<Rightarrow> Capability \<Rightarrow> string \<Rightarrow> string \<Rightarrow> oid option \<Rightarrow> Forge
    \<Rightarrow> error + RefRow \<times> Commit \<times> oid \<times> Commit" where
  "open_merge E now cap dest from resolved w =
    and_then (open_into E now cap dest w) (\<lambda>row.
    and_then (check_spec_read E now cap from w) (\<lambda>_.
      if resolved \<noteq> None then Inl (Invalid ''merge --resolved is disabled'')
      else and_then (get_commit (env_hash E) (row_oid row) (objects w)) (\<lambda>ours_c.
        and_then (peel_commit E from w) (\<lambda>(theirs_oid, theirs_c). Inr (row, ours_c, theirs_oid, theirs_c)))))"

definition merge_tree :: "Env \<Rightarrow> u64 \<Rightarrow> string \<Rightarrow> Capability \<Rightarrow> string \<Rightarrow> oid \<Rightarrow> Commit \<Rightarrow> oid \<Rightarrow> Commit \<Rightarrow> oid verb" where
  "merge_tree E now ulid cap dest ours_oid ours_c theirs_oid theirs_c =
    act_bind (act_of (\<lambda>w. merge_bases (\<lambda>i. get_commit (env_hash E) i (objects w)) ours_oid theirs_oid)) (\<lambda>bases.
    act_bind (act_of (\<lambda>w. try_fold (\<lambda>i trees. and_then (get_commit (env_hash E) i (objects w)) (\<lambda>c. Inr (trees @ [c_tree c]))) bases [])) (\<lambda>base_trees.
      if 1 < length bases then
        publish_conflict E now ulid cap dest ''multiple-merge-bases''
          \<lparr>k_bases = base_trees, k_ours = c_tree ours_c, k_theirs = c_tree theirs_c, k_paths = [], k_causal = [ours_oid, theirs_oid]\<rparr>
      else
        act_bind (stored (three_way (store_get_tree (env_hash E)) (store_put_tree (env_hash E))
            (case base_trees of [] \<Rightarrow> None | t # _ \<Rightarrow> Some t) (c_tree ours_c) (c_tree theirs_c))) (\<lambda>outcome. case outcome of
          MergedTree t \<Rightarrow> act_ret t
        | MergeOutcome.MergeConflict c \<Rightarrow> publish_conflict E now ulid cap dest ''conflict'' (c\<lparr>k_causal := [ours_oid, theirs_oid]\<rparr>))))"

definition forge_merge :: "Env \<Rightarrow> u64 \<Rightarrow> string \<Rightarrow> string \<Rightarrow> Capability \<Rightarrow> string \<Rightarrow> string \<Rightarrow> oid option \<Rightarrow> CasResult verb" where
  "forge_merge E now ulid fork_ulid cap dest from resolved =
    act_bind (act_of (open_merge E now cap dest from resolved)) (\<lambda>(row, ours_c, theirs_oid, theirs_c).
    act_bind (merge_tree E now ulid cap dest (row_oid row) ours_c theirs_oid theirs_c) (\<lambda>tree.
    let commit = \<lparr>c_tree = tree, c_parents = [row_oid row, theirs_oid], c_agent = agent_id cap,
                  c_msg = ''merge '' @ from @ '' into '' @ dest, c_ts = now, c_landmark = False, c_contrib = None\<rparr> in
    act_bind (put_encoded E (commit_encode commit)) (\<lambda>cid.
    act_bind (verb_intros E (c_tree ours_c) tree) (\<lambda>intro_oids.
    act_bind (meta (cas_ref_with_intros dest (row_oid row) cid ''commit'' (agent_id cap) (agent_id cap) (row_protected row)
      intro_oids fork_ulid (uint now))) (\<lambda>result.
    act_bind (counted (\<lambda>s. s\<lparr>ct_merge_applied := ct_merge_applied s + 1\<rparr>)) (\<lambda>_.
    act_ret result))))))"

section \<open>Resolve\<close>

definition published_conflict :: "string \<Rightarrow> oid \<Rightarrow> Forge \<Rightarrow> error + RefRow" where
  "published_conflict dest i w =
    ok_or (Invalid ''conflict is not published under this ref'')
      (List.find (\<lambda>row. row_kind row = ''conflict'' \<and> row_oid row = i \<and> prefix (''conflicts/'' @ dest @ ''/'') (row_name row))
        (list_refs (f_meta w)))"

definition open_resolve :: "Env \<Rightarrow> (string \<Rightarrow> bool) \<Rightarrow> u64 \<Rightarrow> Capability \<Rightarrow> oid \<Rightarrow> string \<Rightarrow> Forge
    \<Rightarrow> error + RefRow \<times> Conflict \<times> RefRow \<times> string" where
  "open_resolve E is_ulid now cap conflict_oid dest w =
    and_then (open_into E now cap dest w) (\<lambda>row.
    and_then (get_conflict (env_hash E) conflict_oid (objects w)) (\<lambda>conflict.
    and_then (published_conflict dest conflict_oid w) (\<lambda>conflict_ref.
      if row_oid row \<notin> set (k_causal conflict)
      then Inl (StaleObservation dest (hex (case k_causal conflict of [] \<Rightarrow> oid_zero | i # _ \<Rightarrow> i)) (hex (row_oid row)))
      else
        let leaf = last (split_on slash (row_name conflict_ref)) in
        if \<not> is_ulid leaf then Inl (Corrupt ''conflict ref has no ULID leaf'')
        else Inr (row, conflict, conflict_ref, ''resolutions/'' @ leaf))))"

definition forge_resolve :: "Env \<Rightarrow> (string \<Rightarrow> bool) \<Rightarrow> u64 \<Rightarrow> Capability \<Rightarrow> oid \<Rightarrow> string \<Rightarrow> ResolveChoice \<Rightarrow> PublishedResolution verb" where
  "forge_resolve E is_ulid now cap conflict_oid dest choice =
    act_bind (act_of (open_resolve E is_ulid now cap conflict_oid dest)) (\<lambda>(row, conflict, conflict_ref, resolution_ref).
    act_bind (stored (resolve_tree (env_hash E) conflict choice)) (\<lambda>tree.
      if length (k_causal conflict) \<noteq> 2 then fail (Corrupt ''conflict causal must name exactly two commits'')
      else
        let commit = \<lparr>c_tree = tree, c_parents = k_causal conflict, c_agent = agent_id cap, c_msg = ''resolve '' @ hex conflict_oid,
                      c_ts = now, c_landmark = False, c_contrib = None\<rparr> in
        act_bind (put_encoded E (commit_encode commit)) (\<lambda>cid.
        act_bind (act_of (\<lambda>w. get_commit (env_hash E) (row_oid row) (objects w))) (\<lambda>into_commit.
        act_bind (verb_intros E (c_tree into_commit) tree) (\<lambda>intro_oids.
        act_bind (meta (publish_resolution dest (row_oid row) cid (row_name conflict_ref) conflict_oid resolution_ref (agent_id cap)
          (row_protected row) intro_oids (uint now))) (\<lambda>published.
        act_bind (counted (\<lambda>s. s\<lparr>ct_merge_applied := ct_merge_applied s + 1\<rparr>)) (\<lambda>_.
        act_ret published)))))))"

section \<open>Seal\<close>

definition contribution_agents :: "(bytes \<Rightarrow> oid) \<Rightarrow> MemoryObjectStore \<Rightarrow> VerifiedGraphObject \<Rightarrow> Entries
    \<Rightarrow> (error, Entries, unit) act" where
  "contribution_agents H st x contributions =
    (if vg_object_type x \<noteq> ObjectType.Contribution then act_ret contributions
     else (\<lambda>u. map_option (\<lambda>r. (map_sum id (\<lambda>c. bt_insert (vg_id x) (co_agent c) contributions) r, u))
       (get_contribution H (vg_id x) st)))"

definition verified_provenance_scope :: "Env \<Rightarrow> nat \<Rightarrow> oid \<Rightarrow> oid \<Rightarrow> MemoryObjectStore \<Rightarrow> (error + oid list \<times> Entries) option" where
  "verified_provenance_scope E limit commit_oid tree_oid st =
    map_option fst (act_bind (\<lambda>u. map_option (\<lambda>r. (r, u)) (reachable_oids_verified (env_hash E) limit tree_oid st)) (\<lambda>content.
    act_bind (\<lambda>u. map_option (\<lambda>r. (r, u)) (reachable_graph_verified (env_hash E) limit commit_oid ObjectType.Commit st)) (\<lambda>graph.
    act_bind (act_fold (contribution_agents (env_hash E) st) graph []) (\<lambda>contributions.
    act_ret (content, contributions)))) ())"

definition verb_scope :: "Env \<Rightarrow> nat \<Rightarrow> oid \<Rightarrow> oid \<Rightarrow> (oid list \<times> Entries) verb" where
  "verb_scope E limit commit_oid tree_oid = (\<lambda>w. map_option (\<lambda>r. (r, w)) (verified_provenance_scope E limit commit_oid tree_oid (objects w)))"

definition tag_ok :: "string \<Rightarrow> bool" where
  "tag_ok tag \<longleftrightarrow> list_all (\<lambda>c. ascii_alnum c \<or> c = CHR ''.'' \<or> c = CHR ''_'' \<or> c = CHR ''-'') tag \<and> tag \<noteq> [] \<and> length tag \<le> 64"

definition open_seal :: "Env \<Rightarrow> u64 \<Rightarrow> Capability \<Rightarrow> string \<Rightarrow> string \<Rightarrow> Forge \<Rightarrow> error + RefRow \<times> Commit" where
  "open_seal E now cap name tag w =
    and_then (check E now cap Op.Seal (Some name) w) (\<lambda>_.
    and_then (check E now cap Op.Seal (Some (''tags/'' @ tag)) w) (\<lambda>_.
      if \<not> tag_ok tag then Inl (Invalid ''bad tag'')
      else and_then (ok_or (NotFound name) (get_ref (f_meta w) name)) (\<lambda>row.
        and_then (get_commit (env_hash E) (row_oid row) (objects w)) (\<lambda>commit. Inr (row, commit)))))"

definition manifest_entries :: "Catalog \<Rightarrow> oid list \<Rightarrow> Entries \<Rightarrow> Entries" where
  "manifest_entries c content contributions =
    fold (\<lambda>e. bt_insert (fst e) (snd e)) contributions
      (fold (\<lambda>i. bt_insert i (case intro_get c i of Some agent \<Rightarrow> agent | None \<Rightarrow> ''unknown'')) content [])"

definition forge_seal :: "Env \<Rightarrow> SealEnv \<Rightarrow> u64 \<Rightarrow> Capability \<Rightarrow> string \<Rightarrow> string \<Rightarrow> oid verb" where
  "forge_seal E K now cap name tag =
    act_bind (act_of (open_seal E now cap name tag)) (\<lambda>(row, commit).
    act_bind (verb_scope E (se_limit K) (row_oid row) (c_tree commit)) (\<lambda>(content, contributions).
    act_bind (act_of (\<lambda>w. manifest_new (manifest_entries (f_meta w) content contributions))) (\<lambda>manifest.
    act_bind (stored (put_blob E (manifest_encode manifest))) (\<lambda>prov.
    let snap = \<lparr>s_tree = c_tree commit, s_commit = row_oid row, s_tag = tag, s_ts = now, s_prov = prov, s_pk = se_pk K,
                s_sig = replicate 64 0\<rparr> in
    act_bind (\<lambda>w. map_option (\<lambda>bs. (Inr (env_hash E bs), w)) (snapshot_encode_unsigned snap)) (\<lambda>h.
    act_bind (put_encoded E (snapshot_encode (snap\<lparr>s_sig := se_sign K (se_seed K) (oid_bytes h)\<rparr>))) (\<lambda>snap_oid.
    act_bind (meta (commit_seal tag snap_oid (row_oid row) (c_tree commit) (agent_id cap) (Some (name, row_oid row)) (uint now))) (\<lambda>_.
    act_ret snap_oid)))))))"

section \<open>Verification of a sealed tag\<close>

definition check_snapshot :: "Env \<Rightarrow> SealEnv \<Rightarrow> string \<Rightarrow> oid \<Rightarrow> oid \<Rightarrow> oid \<Rightarrow> MemoryObjectStore \<Rightarrow> error + Snapshot" where
  "check_snapshot E K tag snap_oid commit_oid tree_oid st =
    and_then (get_snapshot (env_hash E) snap_oid st) (\<lambda>snap.
      if s_pk snap \<noteq> se_pk K then Inl (Corrupt ''snapshot key is not this forge's trusted seal key'')
      else if s_tag snap \<noteq> tag then Inl (Corrupt ''snapshot tag mismatch'')
      else if s_commit snap \<noteq> commit_oid \<or> s_tree snap \<noteq> tree_oid then Inl (Corrupt ''seal table snapshot mismatch'')
      else and_then (get_commit (env_hash E) commit_oid st) (\<lambda>commit.
        if c_tree commit \<noteq> tree_oid then Inl (Corrupt ''sealed commit tree mismatch'') else Inr snap))"

definition check_signature :: "Env \<Rightarrow> SealEnv \<Rightarrow> Snapshot \<Rightarrow> (error + unit) option" where
  "check_signature E K snap =
    map_option (\<lambda>bs.
      if \<not> se_key_ok K (se_pk K) then Inl (Corrupt ''seal key'')
      else if se_verify K (se_pk K) (oid_bytes (env_hash E bs)) (s_sig snap) then Inr ()
      else Inl (Corrupt ''snapshot signature''))
    (snapshot_encode_unsigned snap)"

definition check_manifest :: "ProvenanceManifest \<Rightarrow> oid list \<Rightarrow> Entries \<Rightarrow> error + unit" where
  "check_manifest manifest content contributions =
    (let expected = set content \<union> (if is_legacy manifest then {} else fst ` set contributions);
         actual = fst ` set (pm_entries manifest) in
     if \<not> expected \<subseteq> actual then Inl (Corrupt ''provenance missing reachable object'')
     else if \<not> actual \<subseteq> expected then Inl (Corrupt ''provenance contains unreachable object'')
     else if \<not> is_legacy manifest \<and> list_ex (\<lambda>(i, agent). map_of (pm_entries manifest) i \<noteq> Some agent) contributions
     then Inl (Corrupt ''provenance contribution attribution mismatch'')
     else Inr ())"

definition verify_seal_payload :: "Env \<Rightarrow> SealEnv \<Rightarrow> string \<Rightarrow> oid \<Rightarrow> oid \<Rightarrow> oid \<Rightarrow> oid verb" where
  "verify_seal_payload E K tag snap_oid commit_oid tree_oid =
    act_bind (act_of (\<lambda>w. check_snapshot E K tag snap_oid commit_oid tree_oid (objects w))) (\<lambda>snap.
    act_bind (\<lambda>w. map_option (\<lambda>r. (r, w)) (check_signature E K snap)) (\<lambda>_.
    act_bind (act_of (\<lambda>w. and_then (get_blob_data (env_hash E) (s_prov snap) (objects w)) manifest_decode)) (\<lambda>manifest.
    act_bind (verb_scope E (se_limit K) commit_oid tree_oid) (\<lambda>(content, contributions).
    act_bind (act_of (\<lambda>_. check_manifest manifest content contributions)) (\<lambda>_.
    act_ret snap_oid)))))"

definition open_tag :: "Env \<Rightarrow> u64 \<Rightarrow> Capability \<Rightarrow> string \<Rightarrow> Forge \<Rightarrow> error + oid \<times> oid \<times> oid" where
  "open_tag E now cap tag w =
    (let name = ''tags/'' @ tag in
     and_then (check E now cap Op.Read (Some name) w) (\<lambda>_.
     and_then (ok_or (NotFound (''ref '' @ name)) (get_ref (f_meta w) name)) (\<lambda>row.
     and_then (ok_or (NotFound (''tag '' @ tag)) (get_seal (f_meta w) tag)) (\<lambda>(snap_oid, commit_oid, tree_oid).
       if row_oid row \<noteq> snap_oid \<or> row_kind row \<noteq> ''snapshot'' \<or> \<not> row_protected row \<or> \<not> row_sealed row
       then Inl (Corrupt ''sealed tag ref metadata mismatch'')
       else Inr (snap_oid, commit_oid, tree_oid)))))"

definition verify_tag :: "Env \<Rightarrow> SealEnv \<Rightarrow> u64 \<Rightarrow> Capability \<Rightarrow> string \<Rightarrow> oid verb" where
  "verify_tag E K now cap tag =
    act_bind (act_of (open_tag E now cap tag)) (\<lambda>(snap_oid, commit_oid, tree_oid).
    verify_seal_payload E K tag snap_oid commit_oid tree_oid)"

end
