(* ===== verification/Fsck.thy ===== *)
theory Fsck
  imports Collector Integration Catalog_Audit
begin

text \<open>
  The repository check (\<open>src/crates/forge-api/src/fsck.rs\<close>): the refusal to audit an unknown schema, the collection of roots
  from the rows of the catalog or from its full audit, the scan of the object directory, and the walk that records what is wrong as
  findings instead of stopping at it. The object directory, the siblings of the repository's directory, the migration ledger and what
  other processes do after the first catalog read are arguments. The texts of the refusals are shortened.
\<close>

section \<open>Reports\<close>

record FsckFinding =
  fi_code :: string
  fi_resource :: string
  fi_detail :: string

record FsckReport =
  fr_ok :: bool
  fr_full :: bool
  fr_checked_refs :: nat
  fr_checked_objects :: nat
  fr_checked_namespaces :: nat
  fr_findings :: "FsckFinding list"

definition fsck_report :: "bool \<Rightarrow> FsckReport" where
  "fsck_report full = \<lparr>fr_ok = True, fr_full = full, fr_checked_refs = 0, fr_checked_objects = 0, fr_checked_namespaces = 0, fr_findings = []\<rparr>"

definition report_finding :: "string \<Rightarrow> string \<Rightarrow> string \<Rightarrow> FsckReport \<Rightarrow> FsckReport" where
  "report_finding cd resource detail r =
    r\<lparr>fr_ok := False, fr_findings := fr_findings r @ [\<lparr>fi_code = cd, fi_resource = resource, fi_detail = detail\<rparr>]\<rparr>"

definition report_finish :: "FsckReport \<Rightarrow> FsckReport" where
  "report_finish r = r\<lparr>fr_findings := remdups_adj (sort_key (\<lambda>f. (fi_code f, fi_resource f, fi_detail f)) (fr_findings r))\<rparr>"

section \<open>Refusal\<close>

definition CURRENT_SCHEMA_VERSION :: int where
  "CURRENT_SCHEMA_VERSION = 3"

datatype LedgerStanding = LedgerCurrent | NeedsMigration int | Newer int | Damaged

text \<open>The versions of the migration ledger in order; \<open>None\<close> is a table that is missing or has another shape.\<close>

definition ledger_standing :: "int list option \<Rightarrow> LedgerStanding" where
  "ledger_standing ledger =
    (case ledger of
       None \<Rightarrow> Damaged
     | Some versions \<Rightarrow>
         if versions = [] \<or> versions \<noteq> map int [1..<Suc (length versions)] then Damaged
         else if last versions < CURRENT_SCHEMA_VERSION then NeedsMigration (last versions)
         else if last versions = CURRENT_SCHEMA_VERSION then LedgerCurrent
         else Newer (last versions))"

datatype FsckRefusalReason = SchemaNeedsMigration | SchemaNewerThanSupported

definition FSCK_REFUSAL_SCHEMA :: string where
  "FSCK_REFUSAL_SCHEMA = ''forgefs.fsck-refusal/1''"

record FsckRefusal =
  fx_schema :: string
  fx_audited :: bool
  fx_reason :: FsckRefusalReason
  fx_schema_version :: int
  fx_supported_schema_version :: int
  fx_detail :: string

text \<open>The repository as the check sees it, with the display of its path, its object directory and the counters of checks.\<close>

record FsckWorld =
  fw_forge :: Forge
  fw_root :: string
  fw_dir :: listing
  fw_runs :: nat
  fw_findings :: nat

text \<open>What surrounds one check: whether the handle was opened with the ledger deferred, the ledger, the parent directory, and the
  steps of other processes. They run at one point, after the refs are listed or the audit has read its snapshot.\<close>

record FsckEnv =
  fe_fsck_catalog :: bool
  fe_ledger :: "int list option"
  fe_parent :: string
  fe_base :: string
  fe_siblings :: "string list"
  fe_is_ulid :: "string \<Rightarrow> bool"
  fe_others :: "FsckWorld \<Rightarrow> FsckWorld"

definition schema_refusal :: "FsckRefusalReason \<Rightarrow> int \<Rightarrow> FsckRefusal" where
  "schema_refusal reason version =
    \<lparr>fx_schema = FSCK_REFUSAL_SCHEMA, fx_audited = False, fx_reason = reason, fx_schema_version = version,
     fx_supported_schema_version = CURRENT_SCHEMA_VERSION,
     fx_detail = (case reason of SchemaNeedsMigration \<Rightarrow> ''metadata schema version needs migration''
       | SchemaNewerThanSupported \<Rightarrow> ''metadata schema version is newer than supported'')\<rparr>"

definition fsck_refusal :: "Env \<Rightarrow> FsckEnv \<Rightarrow> u64 \<Rightarrow> Capability \<Rightarrow> bool \<Rightarrow> Forge \<Rightarrow> error + FsckRefusal option" where
  "fsck_refusal E F now cap full w =
    (if fe_fsck_catalog F \<and> \<not> full then Inl (Invalid ''a ledger-deferred fsck handle requires full=true'')
     else and_then (check E now cap Op.Read None w) (\<lambda>_.
       if \<not> has_unrestricted_ref_scope cap then Inl (Denied ''fsck requires unrestricted read authority'')
       else if \<not> full then Inr None
       else Inr (case ledger_standing (fe_ledger F) of
           NeedsMigration version \<Rightarrow> Some (schema_refusal SchemaNeedsMigration version)
         | Newer version \<Rightarrow> Some (schema_refusal SchemaNewerThanSupported version)
         | LedgerCurrent \<Rightarrow> None
         | Damaged \<Rightarrow> None)))"

text \<open>Staging directories of an interrupted \<open>init\<close>: \<open>base.init-pid-ulid\<close> beside the repository.\<close>

definition is_staging :: "(string \<Rightarrow> bool) \<Rightarrow> string \<Rightarrow> string \<Rightarrow> bool" where
  "is_staging is_ulid base name =
    (case strip_prefix (base @ ''.init-'') name of
       None \<Rightarrow> False
     | Some tail \<Rightarrow> (case split_once (CHR ''-'') tail of
           None \<Rightarrow> False
         | Some (pid, ulid) \<Rightarrow> pid \<noteq> [] \<and> list_all (\<lambda>c. digit_val c \<noteq> None) pid \<and> is_ulid ulid))"

definition init_staging_siblings :: "FsckEnv \<Rightarrow> string list" where
  "init_staging_siblings F =
    map (\<lambda>name. fe_parent F @ ''/'' @ name) (sort (filter (is_staging (fe_is_ulid F) (fe_base F)) (fe_siblings F)))"

section \<open>Roots of the reachable check\<close>

type_synonym fsck_root = "oid \<times> GraphExpectation \<times> string"

type_synonym collected = "FsckReport \<times> fsck_root list"

type_synonym ref_types = "string \<Rightarrow> (oid \<times> ObjectType) option"

definition object_type_for_kind :: "string \<Rightarrow> string + ObjectType" where
  "object_type_for_kind kind =
    (if kind = ''blob'' then Inr ObjectType.Blob
     else if kind = ''tree'' then Inr ObjectType.Tree
     else if kind = ''commit'' then Inr ObjectType.Commit
     else if kind = ''conflict'' then Inr ObjectType.Conflict
     else if kind = ''snapshot'' then Inr ObjectType.Snapshot
     else Inl (''unknown ref kind '' @ kind))"

definition late_ref :: "string \<Rightarrow> Catalog \<Rightarrow> (oid \<times> ObjectType) option" where
  "late_ref name c =
    Option.bind (get_ref c name) (\<lambda>row.
      case object_type_for_kind (row_kind row) of Inl _ \<Rightarrow> None | Inr ty \<Rightarrow> Some (row_oid row, ty))"

definition add_root :: "oid \<Rightarrow> GraphExpectation \<Rightarrow> string \<Rightarrow> collected \<Rightarrow> collected" where
  "add_root i expected resource = (\<lambda>(report, roots). (report, roots @ [(i, expected, resource)]))"

definition add_finding :: "string \<Rightarrow> string \<Rightarrow> string \<Rightarrow> collected \<Rightarrow> collected" where
  "add_finding cd resource detail = (\<lambda>(report, roots). (report_finding cd resource detail report, roots))"

text \<open>A verb whose error is looked at instead of returned.\<close>

definition attempt :: "'a verb \<Rightarrow> (error + 'a) verb" where
  "attempt v = (\<lambda>w. map_option (\<lambda>(r, w'). (Inr r, w')) (v w))"

definition collect_tag :: "Env \<Rightarrow> SealEnv \<Rightarrow> u64 \<Rightarrow> Capability \<Rightarrow> RefRow \<Rightarrow> string \<Rightarrow> collected \<Rightarrow> collected verb" where
  "collect_tag E K now cap row tag s =
    (let s = (if \<not> row_protected row \<or> \<not> row_sealed row \<or> row_kind row \<noteq> ''snapshot''
              then add_finding ''TAG_FLAGS'' (''ref:'' @ row_name row) ''tag refs must be protected+sealed snapshots'' s else s) in
     act_bind (attempt (verify_tag E K now cap tag)) (\<lambda>r.
       act_ret (case r of Inl e \<Rightarrow> add_finding ''SEAL'' (''tag:'' @ tag) (error_string e) s | Inr _ \<Rightarrow> s)))"

definition collect_ref :: "Env \<Rightarrow> SealEnv \<Rightarrow> u64 \<Rightarrow> Capability \<Rightarrow> RefRow \<Rightarrow> collected \<times> ref_types \<Rightarrow> (collected \<times> ref_types) verb" where
  "collect_ref E K now cap row = (\<lambda>(s, types).
    case object_type_for_kind (row_kind row) of
      Inl detail \<Rightarrow> act_ret (add_finding ''REF_KIND'' (''ref:'' @ row_name row) detail s, types)
    | Inr expected \<Rightarrow>
        let types = types(row_name row \<mapsto> (row_oid row, expected));
            s = add_root (row_oid row) (ExpectExact expected) (''ref:'' @ row_name row) s in
        (case strip_prefix ''tags/'' (row_name row) of
           None \<Rightarrow> act_ret (s, types)
         | Some tag \<Rightarrow> act_bind (collect_tag E K now cap row tag s) (\<lambda>s. act_ret (s, types))))"

definition known_ref :: "ref_types \<Rightarrow> Catalog \<Rightarrow> string \<Rightarrow> (oid \<times> ObjectType) option" where
  "known_ref types c name = (case types name of Some x \<Rightarrow> Some x | None \<Rightarrow> late_ref name c)"

definition collect_live :: "ref_types \<Rightarrow> Catalog \<Rightarrow> NsRow \<Rightarrow> collected \<Rightarrow> collected" where
  "collect_live types c ns s =
    (let resource = ''namespace:'' @ ns_id ns in
     case ns_live_ref ns of
       None \<Rightarrow> s
     | Some live \<Rightarrow> (case known_ref types c live of
           Some (i, ty) \<Rightarrow>
             if ty = ObjectType.Commit then add_root i (ExpectExact ObjectType.Commit) (resource @ '':live_ref:'' @ live) s
             else add_finding ''NS_LIVE_TYPE'' resource (''live ref '' @ live @ '' is '' @ object_type_str ty @ '', expected commit'') s
         | None \<Rightarrow> add_finding ''NS_LIVE_REF'' resource (''missing live ref '' @ live) s))"

definition collect_spec :: "(string \<Rightarrow> (oid \<times> ObjectType) option) \<Rightarrow> string \<Rightarrow> string \<Rightarrow> string \<Rightarrow> collected \<Rightarrow> collected" where
  "collect_spec lookup resource spec mode s =
    (case parse_spec spec of
       Inr (SpecRef name) \<Rightarrow> (case lookup name of
           Some (i, ty) \<Rightarrow> add_root i (ExpectExact ty) (resource @ '':ref:'' @ name) s
         | None \<Rightarrow> add_finding ''MOUNT_REF'' resource (''missing ref '' @ name) s)
     | Inr (SpecOid i) \<Rightarrow>
         add_root i ExpectAny (resource @ '':oid'')
           (if mode = ''rw'' then add_finding ''MOUNT_RW_OID'' resource ''read-write mount cannot target immutable raw OID'' s else s)
     | Inl e \<Rightarrow> add_finding ''MOUNT_SPEC'' resource (error_string e) s)"

definition collect_mount :: "ref_types \<Rightarrow> Catalog \<Rightarrow> NsRow \<Rightarrow> MountRow \<Rightarrow> collected \<Rightarrow> collected" where
  "collect_mount types c ns mount s =
    (let resource = ''namespace:'' @ ns_id ns @ '':mount:'' @ mt_path mount;
         s = collect_spec (known_ref types c) resource (mt_spec mount) (mt_mode mount) s;
         s = (case mt_base_oid mount of None \<Rightarrow> s | Some base \<Rightarrow> add_root base ExpectAny (resource @ '':base'') s) in
     fold (\<lambda>(path, blob, _) s. case blob of None \<Rightarrow> s
        | Some i \<Rightarrow> add_root i (ExpectExact ObjectType.Blob) (resource @ '':overlay:'' @ path) s)
       (overlay_list c (ns_id ns) (mt_path mount)) s)"

definition collect_observation :: "NsRow \<Rightarrow> string \<times> string \<times> Observed \<Rightarrow> collected \<Rightarrow> collected" where
  "collect_observation ns = (\<lambda>(mount, path, seen) s.
    let resource = ''namespace:'' @ ns_id ns @ '':observation:'' @ mount @ '':'' @ path in
    case seen of
      SeenBlob i \<Rightarrow> add_root i (ExpectExact ObjectType.Blob) resource s
    | SeenTree i \<Rightarrow> add_root i (ExpectExact ObjectType.Tree) resource s
    | SeenAbsent \<Rightarrow> s)"

definition collect_namespace :: "ref_types \<Rightarrow> Catalog \<Rightarrow> NsRow \<Rightarrow> collected \<Rightarrow> collected" where
  "collect_namespace types c ns s =
    (let s = (case ns_pinned_oid ns of
                Some pin \<Rightarrow> add_root pin (ExpectExact ObjectType.Commit) (''namespace:'' @ ns_id ns @ '':pin'') s
              | None \<Rightarrow> add_finding ''NS_PIN'' (''namespace:'' @ ns_id ns) ''namespace has no pinned commit'' s);
         s = collect_live types c ns s;
         s = fold (collect_mount types c ns) (list_mounts c (ns_id ns)) s in
     fold (collect_observation ns) (observations c (ns_id ns)) s)"

definition on_forge :: "'a verb \<Rightarrow> (error, 'a, FsckWorld) act" where
  "on_forge v g = map_option (\<lambda>(r, w). (r, g\<lparr>fw_forge := w\<rparr>)) (v (fw_forge g))"

definition collect_reachable_roots :: "Env \<Rightarrow> SealEnv \<Rightarrow> FsckEnv \<Rightarrow> u64 \<Rightarrow> Capability \<Rightarrow> collected \<Rightarrow> (error, collected, FsckWorld) act" where
  "collect_reachable_roots E K F now cap = (\<lambda>(report, roots) g.
    let rows = list_refs (f_meta (fw_forge g)) in
    act_bind (on_forge (act_fold (collect_ref E K now cap) rows ((report\<lparr>fr_checked_refs := length rows\<rparr>, roots), Map.empty))) (\<lambda>((report, roots), types) g.
    let g = fe_others F g; c = f_meta (fw_forge g); nss = list_namespaces c in
    Some (Inr (fold (collect_namespace types c) nss (report\<lparr>fr_checked_namespaces := length nss\<rparr>, roots)), g)) g)"

section \<open>Roots of the full check\<close>

text \<open>\<open>Some None\<close> is a row whose kind is invalid, which the audit reports.\<close>

definition audit_ref_types :: "RefRow list \<Rightarrow> string \<Rightarrow> (oid \<times> ObjectType) option option" where
  "audit_ref_types rows = fold (\<lambda>row types. types(row_name row \<mapsto>
      (case object_type_for_kind (row_kind row) of Inl _ \<Rightarrow> None | Inr ty \<Rightarrow> Some (row_oid row, ty)))) rows Map.empty"

definition collect_audit_mount :: "CatalogAudit \<Rightarrow> (string \<times> string) \<times> MountRec \<Rightarrow> collected \<Rightarrow> collected" where
  "collect_audit_mount a = (\<lambda>((ns, path), m) s.
    let resource = ''namespace:'' @ ns @ '':mount:'' @ path in
    case parse_spec (m_spec m) of
      Inr (SpecRef name) \<Rightarrow>
        if \<not> refs_complete a then s
        else (case audit_ref_types (ref_rows a) name of
            Some (Some (i, ty)) \<Rightarrow> add_root i (ExpectExact ty) (resource @ '':ref:'' @ name) s
          | Some None \<Rightarrow> s
          | None \<Rightarrow> add_finding ''MOUNT_REF'' resource (''missing ref '' @ name) s)
    | Inr (SpecOid i) \<Rightarrow>
        add_root i ExpectAny (resource @ '':oid'')
          (if m_mode m = ''rw'' then add_finding ''MOUNT_RW_OID'' resource ''read-write mount cannot target immutable raw OID'' s else s)
    | Inl e \<Rightarrow> add_finding ''MOUNT_SPEC'' resource (error_string e) s)"

definition collect_seal :: "Env \<Rightarrow> SealEnv \<Rightarrow> string \<times> oid \<times> oid \<times> oid \<Rightarrow> collected \<Rightarrow> collected verb" where
  "collect_seal E K = (\<lambda>(tag, snap, commit, tree) s.
    act_bind (attempt (verify_seal_payload E K tag snap commit tree)) (\<lambda>r.
      act_ret (case r of Inl e \<Rightarrow> add_finding ''SEAL_PAYLOAD'' (''catalog:seal:'' @ tag) (error_string e) s | Inr _ \<Rightarrow> s)))"

fun graph_expectation :: "CatalogObjectExpectation \<Rightarrow> GraphExpectation" where
  "graph_expectation AnyObject = ExpectAny"
| "graph_expectation (Exact ty) = ExpectExact ty"
| "graph_expectation TreeEntryObject = ExpectTreeEntry"

definition collect_full_catalog :: "Env \<Rightarrow> SealEnv \<Rightarrow> CatalogAudit \<Rightarrow> collected \<Rightarrow> collected verb" where
  "collect_full_catalog E K a = (\<lambda>(report, roots).
    let s = (report\<lparr>fr_checked_refs := length (ref_rows a), fr_checked_namespaces := length (namespace_rows a)\<rparr>, roots);
        s = fold (collect_audit_mount a) (mount_rows a) s in
    act_bind (act_fold (collect_seal E K) (seal_rows a) s) (\<lambda>s.
    let s = fold (\<lambda>f. add_finding (cf_code f) (cf_resource f) (cf_detail f)) (findings a) s in
    act_ret (fold (\<lambda>r. add_root (cr_oid r) (graph_expectation (cr_expected r)) (cr_resource r)) (CatalogAudit.roots a) s)))"

definition scan_path_file :: "string \<Rightarrow> string \<Rightarrow> string \<Rightarrow> string \<times> FsNode \<Rightarrow> collected \<Rightarrow> collected" where
  "scan_path_file dir a b = (\<lambda>(name, node) s.
    let path = dir @ ''/'' @ a @ ''/'' @ b @ ''/'' @ name in
    case node of
      FsFile _ _ \<Rightarrow> (case from_hex name of
          Inl e \<Rightarrow> add_finding ''OBJECT_NAME'' path (error_string e) s
        | Inr i \<Rightarrow>
            add_root i ExpectAny (''object:'' @ hex i)
              (if (a, b) \<noteq> shard_dirs i
               then add_finding ''OBJECT_SHARD'' path (''object '' @ hex i @ '' is under '' @ a @ ''/'' @ b @ '', expected '' @
                 fst (shard_dirs i) @ ''/'' @ snd (shard_dirs i)) s
               else s))
    | _ \<Rightarrow> add_finding ''OBJECT_LAYOUT'' path ''object entry is not a regular file'' s)"

definition scan_path_shard :: "string \<Rightarrow> string \<Rightarrow> string \<times> FsNode \<Rightarrow> collected \<Rightarrow> collected" where
  "scan_path_shard dir a = (\<lambda>(b, node) s.
    case node of
      FsDir _ _ sub \<Rightarrow> fold (scan_path_file dir a b) sub s
    | _ \<Rightarrow> add_finding ''OBJECT_LAYOUT'' (dir @ ''/'' @ a @ ''/'' @ b) ''expected second-level shard directory'' s)"

definition scan_all_object_paths :: "string \<Rightarrow> listing \<Rightarrow> collected \<Rightarrow> collected" where
  "scan_all_object_paths repo objs =
    fold (\<lambda>(a, node) s. case node of
        FsDir _ _ sub \<Rightarrow> fold (scan_path_shard (repo @ ''/objects'') a) sub s
      | _ \<Rightarrow> add_finding ''OBJECT_LAYOUT'' (repo @ ''/objects/'' @ a) ''expected first-level shard directory'' s) objs"

section \<open>The walk that records findings\<close>

definition check_object_expectation :: "GraphEdge \<Rightarrow> ObjectType \<Rightarrow> FsckReport \<Rightarrow> FsckReport" where
  "check_object_expectation edge actual report =
    (if accepts (ge_expected edge) actual then report
     else report_finding ''TYPE_MISMATCH'' (ge_resource edge)
       (hex (ge_id edge) @ '' is '' @ object_type_str actual @ '', expected '' @ expectation_description (ge_expected edge)) report)"

type_synonym fsck_walk = "GraphWorkQueue \<times> verified \<times> FsckReport"

definition fsck_visit :: "(oid \<Rightarrow> error + bytes) \<Rightarrow> GraphEdge \<Rightarrow> fsck_walk \<Rightarrow> (error + fsck_walk) option" where
  "fsck_visit get edge = (\<lambda>(q, verified, report).
    let bad = (\<lambda>cd e report. report_finding cd (ge_resource edge) (hex (ge_id edge) @ '': '' @ error_string e) report) in
    case map_of verified (ge_id edge) of
      Some actual \<Rightarrow> Some (Inr (q, verified, check_object_expectation edge actual report))
    | None \<Rightarrow> (case get (ge_id edge) of
        Inl e \<Rightarrow> Some (Inr (q, verified, bad ''OBJECT_READ'' e report))
      | Inr bs \<Rightarrow> (case decode_object_type bs of
          Inl e \<Rightarrow> Some (Inr (q, verified, bad ''OBJECT_TYPE'' e report))
        | Inr actual \<Rightarrow>
            let report = check_object_expectation edge actual (report\<lparr>fr_checked_objects := fr_checked_objects report + 1\<rparr>);
                verified = (ge_id edge, actual) # verified in
            map_option (\<lambda>r. case r of
                Inl e \<Rightarrow> Inr (q, verified, bad ''DECODE'' e report)
              | Inr decoded \<Rightarrow> and_then (try_fold schedule (dg_edges decoded) q) (\<lambda>q. Inr (q, verified, report)))
              (decode_graph_object (ge_id edge) bs))))"

partial_function (option) fsck_loop :: "(oid \<Rightarrow> error + bytes) \<Rightarrow> fsck_walk \<Rightarrow> (error + FsckReport) option" where
  "fsck_loop get s =
    (case q_queue (fst s) of
       [] \<Rightarrow> Some (Inr (snd (snd s)))
     | edge # rest \<Rightarrow>
         Option.bind (fsck_visit get edge ((fst s)\<lparr>q_queue := rest\<rparr>, snd s)) (\<lambda>r. case r of
           Inl e \<Rightarrow> Some (Inl e)
         | Inr s \<Rightarrow> fsck_loop get s))"

definition verify_graph :: "(oid \<Rightarrow> error + bytes) \<Rightarrow> nat \<Rightarrow> fsck_root list \<Rightarrow> FsckReport \<Rightarrow> (error + FsckReport) option" where
  "verify_graph get limit rs report =
    (case try_fold (\<lambda>(i, expected, resource). schedule \<lparr>ge_id = i, ge_expected = expected, ge_resource = resource\<rparr>) rs (with_limit limit) of
       Inl e \<Rightarrow> Some (Inl e)
     | Inr q \<Rightarrow> fsck_loop get (q, [], report))"

section \<open>The verb\<close>

definition count_fsck :: "FsckReport \<Rightarrow> FsckWorld \<Rightarrow> FsckWorld" where
  "count_fsck r g = g\<lparr>fw_runs := fw_runs g + 1, fw_findings := fw_findings g + length (fr_findings r)\<rparr>"

text \<open>The ledger pass of the catalog audit.\<close>

definition audit_ledger :: "int list option \<Rightarrow> CatalogFinding list" where
  "audit_ledger ledger =
    (if ledger = Some (map int [1..<Suc (nat CURRENT_SCHEMA_VERSION)]) then []
     else [finding ''SCHEMA_LEDGER'' ''catalog:schema_migrations'' ''expected contiguous supported versions''])"

definition collect_roots :: "Env \<Rightarrow> SealEnv \<Rightarrow> FsckEnv \<Rightarrow> u64 \<Rightarrow> Capability \<Rightarrow> bool \<Rightarrow> FsckReport \<Rightarrow> (error, collected, FsckWorld) act" where
  "collect_roots E K F now cap full report =
    (if full then (\<lambda>g.
       let a = audit_catalog (f_meta (fw_forge g)); a = a\<lparr>findings := audit_ledger (fe_ledger F) @ findings a\<rparr> in
       act_bind (on_forge (collect_full_catalog E K a (report, []))) (\<lambda>s g.
         Some (Inr (scan_all_object_paths (fw_root g) (fw_dir g) s), g)) (fe_others F g))
     else collect_reachable_roots E K F now cap (report, []))"

definition forge_fsck :: "Env \<Rightarrow> SealEnv \<Rightarrow> FsckEnv \<Rightarrow> u64 \<Rightarrow> Capability \<Rightarrow> bool \<Rightarrow> (error, FsckReport, FsckWorld) act" where
  "forge_fsck E K F now cap full =
    act_bind (act_of (\<lambda>g. fsck_refusal E F now cap full (fw_forge g))) (\<lambda>refusal.
      case refusal of
        Some x \<Rightarrow> act_of (\<lambda>_. Inl (Invalid (fx_detail x)))
      | None \<Rightarrow>
          act_bind (collect_roots E K F now cap full
            (fold (\<lambda>path. report_finding ''INIT_STAGING'' (''path:'' @ path) ''orphaned repository-initialization staging path'')
              (init_staging_siblings F) (fsck_report full))) (\<lambda>(report, roots).
          act_bind (\<lambda>g. map_option (\<lambda>r. (r, g))
            (verify_graph (\<lambda>i. store_get (env_hash E) i (objects (fw_forge g))) (se_limit K) roots report)) (\<lambda>report g.
          let report = report_finish report in
          Some (Inr report, count_fsck report g))))"

end
