(* ===== verification/Graph_Laws.thy ===== *)
theory Graph_Laws
  imports Graph
begin

text \<open>
  The graph walk ends on every store, and succeeds exactly on a well-typed graph that fits the ceiling, with exactly the
  reachable objects.
\<close>

section \<open>The graph a store holds\<close>

type_synonym loader = "oid \<Rightarrow> (error + DecodedGraphObject) option"

definition graph_edge :: "loader \<Rightarrow> oid \<Rightarrow> GraphEdge \<Rightarrow> bool" where
  "graph_edge load i e \<longleftrightarrow> (\<exists>d. load i = Some (Inr d) \<and> e \<in> set (dg_edges d))"

definition edge_to :: "loader \<Rightarrow> oid \<Rightarrow> oid \<Rightarrow> bool" where
  "edge_to load i j \<longleftrightarrow> (\<exists>e. graph_edge load i e \<and> ge_id e = j)"

definition typed_edge :: "loader \<Rightarrow> GraphEdge \<Rightarrow> bool" where
  "typed_edge load e \<longleftrightarrow> (\<exists>d. load (ge_id e) = Some (Inr d) \<and> accepts (ge_expected e) (dg_object_type d))"

definition graph_of :: "loader \<Rightarrow> oid \<Rightarrow> oid set" where
  "graph_of load i = reach (edge_to load) {i}"

text \<open>Everything that a set of edges leads to, and that every edge there leads to an object of a type it accepts.\<close>

definition graph_from :: "loader \<Rightarrow> GraphEdge set \<Rightarrow> oid set" where
  "graph_from load rs = reach (edge_to load) (ge_id ` rs)"

definition graph_intact :: "loader \<Rightarrow> GraphEdge set \<Rightarrow> bool" where
  "graph_intact load rs \<longleftrightarrow> (\<forall>r \<in> rs. typed_edge load r) \<and>
    (\<forall>i \<in> graph_from load rs. \<forall>e. graph_edge load i e \<longrightarrow> typed_edge load e)"

definition walk_ok :: "loader \<Rightarrow> GraphEdge set \<Rightarrow> nat \<Rightarrow> bool" where
  "walk_ok load rs n \<longleftrightarrow> graph_intact load rs \<and> finite (graph_from load rs) \<and> card (graph_from load rs) \<le> n"

lemma graph_from_edge:
  assumes "i \<in> graph_from load rs" "graph_edge load i e"
  shows "ge_id e \<in> graph_from load rs"
proof -
  have "edge_to load i (ge_id e)" using assms(2) by (auto simp: edge_to_def)
  then show ?thesis using assms(1) unfolding graph_from_def reach_def by (auto intro: rtranclp.rtrancl_into_rtrancl)
qed

lemma graph_from_root: "r \<in> rs \<Longrightarrow> ge_id r \<in> graph_from load rs"
  by (auto simp: graph_from_def reach_def)

lemma graph_of_from: "graph_of load (ge_id r) = graph_from load {r}"
  by (simp add: graph_of_def graph_from_def)

lemma graph_of_edge: "i \<in> graph_of load r \<Longrightarrow> graph_edge load i e \<Longrightarrow> ge_id e \<in> graph_of load r"
  unfolding graph_of_def reach_def by (auto intro!: rtranclp.rtrancl_into_rtrancl [of _ _ i] simp: edge_to_def)

lemma graph_of_root [simp]: "r \<in> graph_of load r"
  by (simp add: graph_of_def reach_def)

section \<open>The queue\<close>

definition constraint :: "GraphEdge \<Rightarrow> oid \<times> u8" where
  "constraint e = (ge_id e, expectation_key (ge_expected e))"

lemma expectation_key_inject: "expectation_key a = expectation_key b \<longleftrightarrow> a = b"
proof -
  have "object_type_byte x = object_type_byte y \<longleftrightarrow> x = y" "object_type_byte x \<noteq> 0" "object_type_byte x \<noteq> 255" for x y
    by (cases x; cases y; simp)+
  then show ?thesis by (cases a; cases b) (auto dest: sym)
qed

lemma constraint_eq: "constraint a = constraint b \<longleftrightarrow> ge_id a = ge_id b \<and> ge_expected a = ge_expected b"
  by (simp add: constraint_def expectation_key_inject)

definition queue_ok :: "GraphWorkQueue \<Rightarrow> bool" where
  "queue_ok q \<longleftrightarrow> finite (q_scheduled q) \<and> q_scheduled_ids q = fst ` q_scheduled q \<and> card (q_scheduled_ids q) \<le> q_limit q"

lemma queue_ok_with_limit: "queue_ok (with_limit n)"
  by (simp add: queue_ok_def with_limit_def)

lemma queue_ok_pop: "queue_ok (q\<lparr>q_queue := es\<rparr>) = queue_ok q"
  by (simp add: queue_ok_def)

lemma schedule_Inr:
  assumes "schedule e q = Inr q'" "queue_ok q"
  shows "queue_ok q' \<and> q_limit q' = q_limit q \<and> q_scheduled q' = insert (constraint e) (q_scheduled q) \<and>
    (\<exists>new. q_queue q' = q_queue q @ new \<and> set new \<subseteq> {e} \<and> q_scheduled q' = q_scheduled q \<union> constraint ` set new \<and>
      card (q_scheduled q') = card (q_scheduled q) + length new)"
proof (cases "constraint e \<in> q_scheduled q")
  case True
  then show ?thesis using assms by (auto simp: schedule_def constraint_def)
next
  case False
  have fin: "finite (q_scheduled_ids q)" using assms(2) by (simp add: queue_ok_def)
  have q': "q' = q\<lparr>q_queue := q_queue q @ [e], q_scheduled := insert (constraint e) (q_scheduled q),
      q_scheduled_ids := insert (ge_id e) (q_scheduled_ids q)\<rparr>" "ge_id e \<in> q_scheduled_ids q \<or> card (q_scheduled_ids q) < q_limit q"
    using assms(1) False by (auto simp: schedule_def constraint_def split: if_split_asm)
  have "card (insert (ge_id e) (q_scheduled_ids q)) \<le> q_limit q"
    using q'(2) assms(2) fin by (auto simp: queue_ok_def card_insert_if)
  then have "queue_ok q'" using assms(2) by (simp add: queue_ok_def q'(1) constraint_def)
  moreover have "q_queue q' = q_queue q @ [e]" "q_scheduled q' = q_scheduled q \<union> constraint ` set [e]"
      "card (q_scheduled q') = card (q_scheduled q) + length [e]"
    using False assms(2) by (simp_all add: q'(1) queue_ok_def)
  ultimately show ?thesis by (intro conjI exI [of _ "[e]"]) (simp_all add: q'(1))
qed

lemma schedule_Inl:
  "schedule e q = Inl x \<Longrightarrow> queue_ok q \<Longrightarrow> q_limit q < card (insert (ge_id e) (q_scheduled_ids q))"
  by (auto simp: schedule_def queue_ok_def split: if_split_asm)

lemma schedules_Inr:
  assumes "try_fold schedule es q = Inr q'" "queue_ok q"
  shows "queue_ok q' \<and> q_limit q' = q_limit q \<and> q_scheduled q' = q_scheduled q \<union> constraint ` set es \<and>
    (\<exists>new. q_queue q' = q_queue q @ new \<and> set new \<subseteq> set es \<and> q_scheduled q' = q_scheduled q \<union> constraint ` set new \<and>
      card (q_scheduled q') = card (q_scheduled q) + length new)"
  using assms
proof (induction es arbitrary: q)
  case (Cons e es)
  then obtain q1 where q1: "schedule e q = Inr q1" "try_fold schedule es q1 = Inr q'" by (auto simp: and_then_Inr_iff)
  obtain new1 where n1: "queue_ok q1" "q_limit q1 = q_limit q" "q_scheduled q1 = insert (constraint e) (q_scheduled q)"
      "q_queue q1 = q_queue q @ new1" "set new1 \<subseteq> {e}" "q_scheduled q1 = q_scheduled q \<union> constraint ` set new1"
      "card (q_scheduled q1) = card (q_scheduled q) + length new1"
    using schedule_Inr [OF q1(1) Cons.prems(2)] by blast
  obtain new2 where n2: "queue_ok q'" "q_limit q' = q_limit q1" "q_scheduled q' = q_scheduled q1 \<union> constraint ` set es"
      "q_queue q' = q_queue q1 @ new2" "set new2 \<subseteq> set es" "q_scheduled q' = q_scheduled q1 \<union> constraint ` set new2"
      "card (q_scheduled q') = card (q_scheduled q1) + length new2"
    using Cons.IH [OF q1(2) n1(1)] by blast
  have "q_scheduled q' = q_scheduled q \<union> constraint ` set (e # es)" using n2(3) n1(3) by auto
  moreover have "q_queue q' = q_queue q @ (new1 @ new2)" "set (new1 @ new2) \<subseteq> set (e # es)"
      "card (q_scheduled q') = card (q_scheduled q) + length (new1 @ new2)"
    using n1(4,5,7) n2(4,5,7) by auto
  moreover have "q_scheduled q' = q_scheduled q \<union> constraint ` set (new1 @ new2)"
    unfolding n2(6) n1(6) by (simp add: image_Un Un_assoc)
  ultimately show ?case using n1(2) n2(1,2) by metis
qed auto

lemma schedules_Inl:
  assumes "try_fold schedule es q = Inl x" "queue_ok q" "q_scheduled_ids q \<union> ge_id ` set es \<subseteq> R" "finite R"
  shows "q_limit q < card R"
  using assms
proof (induction es arbitrary: q)
  case (Cons e es)
  show ?case
  proof (cases "schedule e q")
    case (Inl y)
    have "card (insert (ge_id e) (q_scheduled_ids q)) \<le> card R" using Cons.prems(3,4) by (intro card_mono) auto
    then show ?thesis using schedule_Inl [OF Inl Cons.prems(2)] by simp
  next
    case (Inr q1)
    have q1: "queue_ok q1" "q_limit q1 = q_limit q" "q_scheduled q1 = insert (constraint e) (q_scheduled q)"
      using schedule_Inr [OF Inr Cons.prems(2)] by blast+
    have "q_scheduled_ids q1 \<subseteq> insert (ge_id e) (q_scheduled_ids q)"
      using q1(1,3) Cons.prems(2) by (auto simp: queue_ok_def constraint_def)
    then show ?thesis using Cons.IH [of q1] Cons.prems Inr q1 by auto
  qed
qed simp

text \<open>Every step of a walk makes this number smaller.\<close>

definition work_left :: "GraphWorkQueue \<Rightarrow> nat" where
  "work_left q = length (q_queue q) + (256 * q_limit q - card (q_scheduled q))"

lemma scheduled_bound:
  assumes "queue_ok q"
  shows "card (q_scheduled q) \<le> 256 * q_limit q"
proof -
  have "q_scheduled q \<subseteq> q_scheduled_ids q \<times> (UNIV :: u8 set)" "finite (q_scheduled_ids q)"
    using assms by (force simp: queue_ok_def)+
  then have "card (q_scheduled q) \<le> card (q_scheduled_ids q \<times> (UNIV :: u8 set))"
    by (intro card_mono) auto
  also have "\<dots> = card (q_scheduled_ids q) * 256" by (simp add: card_cartesian_product card_word)
  also have "\<dots> \<le> q_limit q * 256" using assms unfolding queue_ok_def by (intro mult_le_mono1) blast
  finally show ?thesis by simp
qed

section \<open>The invariant of the walk\<close>

definition walk_inv :: "loader \<Rightarrow> GraphEdge set \<Rightarrow> GraphWorkQueue \<Rightarrow> verified \<Rightarrow> bool" where
  "walk_inv load rs q v \<longleftrightarrow> queue_ok q \<and> q_scheduled_ids q \<subseteq> graph_from load rs \<and>
    distinct (map fst v) \<and> fst ` set v \<subseteq> q_scheduled_ids q \<and>
    (\<forall>i ty. map_of v i = Some ty \<longrightarrow> (\<exists>d. load i = Some (Inr d) \<and> dg_object_type d = ty)) \<and>
    (\<forall>e \<in> set (q_queue q). ge_id e \<in> q_scheduled_ids q \<and> (e \<in> rs \<or> (\<exists>i \<in> graph_from load rs. graph_edge load i e))) \<and>
    (\<forall>e. e \<in> rs \<or> (\<exists>i \<in> fst ` set v. graph_edge load i e) \<longrightarrow> constraint e \<in> q_scheduled q) \<and>
    (\<forall>e. constraint e \<in> q_scheduled q \<longrightarrow>
      constraint e \<in> constraint ` set (q_queue q) \<or> (\<exists>ty. map_of v (ge_id e) = Some ty \<and> accepts (ge_expected e) ty))"

lemma walk_invD:
  assumes "walk_inv load rs q v"
  shows "queue_ok q" "q_scheduled_ids q \<subseteq> graph_from load rs" "distinct (map fst v)" "fst ` set v \<subseteq> q_scheduled_ids q"
    and "map_of v i = Some ty \<Longrightarrow> \<exists>d. load i = Some (Inr d) \<and> dg_object_type d = ty"
    and "e \<in> set (q_queue q) \<Longrightarrow> ge_id e \<in> q_scheduled_ids q"
    and "e \<in> set (q_queue q) \<Longrightarrow> e \<in> rs \<or> (\<exists>i \<in> graph_from load rs. graph_edge load i e)"
    and "e \<in> rs \<or> (\<exists>i \<in> fst ` set v. graph_edge load i e) \<Longrightarrow> constraint e \<in> q_scheduled q"
    and "constraint e \<in> q_scheduled q \<Longrightarrow>
      constraint e \<in> constraint ` set (q_queue q) \<or> (\<exists>ty. map_of v (ge_id e) = Some ty \<and> accepts (ge_expected e) ty)"
proof -
  show "queue_ok q" "q_scheduled_ids q \<subseteq> graph_from load rs" "distinct (map fst v)" "fst ` set v \<subseteq> q_scheduled_ids q"
    using assms by (simp_all add: walk_inv_def)
  show "\<exists>d. load i = Some (Inr d) \<and> dg_object_type d = ty" if "map_of v i = Some ty"
    using assms that unfolding walk_inv_def by (elim conjE) metis
  show "ge_id e \<in> q_scheduled_ids q" "e \<in> rs \<or> (\<exists>i \<in> graph_from load rs. graph_edge load i e)" if "e \<in> set (q_queue q)"
    using assms that unfolding walk_inv_def by (elim conjE, metis)+
  show "constraint e \<in> q_scheduled q" if "e \<in> rs \<or> (\<exists>i \<in> fst ` set v. graph_edge load i e)"
    using assms that unfolding walk_inv_def by (elim conjE) metis
  show "constraint e \<in> constraint ` set (q_queue q) \<or> (\<exists>ty. map_of v (ge_id e) = Some ty \<and> accepts (ge_expected e) ty)"
    if "constraint e \<in> q_scheduled q"
    using assms that unfolding walk_inv_def by (elim conjE) metis
qed

lemma walk_inv_seen:
  assumes inv: "walk_inv load rs q v" and q: "q_queue q = e # rest"
    and seen: "map_of v (ge_id e) = Some ty" "accepts (ge_expected e) ty"
  shows "walk_inv load rs (q\<lparr>q_queue := rest\<rparr>) v"
proof -
  have "constraint e' \<in> constraint ` set rest \<or> (\<exists>ty. map_of v (ge_id e') = Some ty \<and> accepts (ge_expected e') ty)"
    if "constraint e' \<in> q_scheduled q" for e'
  proof (cases "constraint e' = constraint e")
    case True
    then show ?thesis using seen by (simp add: constraint_eq)
  next
    case False
    then show ?thesis using walk_invD(9) [OF inv that] by (simp add: q)
  qed
  then show ?thesis using inv by (simp add: walk_inv_def queue_ok_pop q)
qed

lemma walk_inv_load:
  assumes inv: "walk_inv load rs q v" and q: "q_queue q = e # rest"
    and new: "map_of v (ge_id e) = None" "load (ge_id e) = Some (Inr d)" "accepts (ge_expected e) (dg_object_type d)"
    and sch: "try_fold schedule (dg_edges d) (q\<lparr>q_queue := rest\<rparr>) = Inr q'"
  shows "walk_inv load rs q' ((ge_id e, dg_object_type d) # v)"
proof -
  let ?v = "(ge_id e, dg_object_type d) # v"
  note I = walk_invD [OF inv]
  obtain more where s: "queue_ok q'" "q_scheduled q' = q_scheduled q \<union> constraint ` set (dg_edges d)"
      "q_queue q' = rest @ more" "set more \<subseteq> set (dg_edges d)" "q_scheduled q' = q_scheduled q \<union> constraint ` set more"
    using schedules_Inr [OF sch] I(1) by (auto simp: queue_ok_pop)
  have e: "ge_id e \<in> q_scheduled_ids q" "ge_id e \<in> graph_from load rs" using I(2,6) q by auto
  have edges: "graph_edge load (ge_id e) e' \<longleftrightarrow> e' \<in> set (dg_edges d)" for e' by (simp add: graph_edge_def new(2))
  have ids: "q_scheduled_ids q' = q_scheduled_ids q \<union> ge_id ` set (dg_edges d)"
    using s(1,2) I(1) by (simp add: queue_ok_def constraint_def image_Un image_image)
  have sub: "q_scheduled_ids q' \<subseteq> graph_from load rs"
    using I(2) graph_from_edge [OF e(2)] edges unfolding ids by blast
  have queue: "ge_id e' \<in> q_scheduled_ids q' \<and> (e' \<in> rs \<or> (\<exists>i \<in> graph_from load rs. graph_edge load i e'))"
    if "e' \<in> set (q_queue q')" for e'
  proof (cases "e' \<in> set more")
    case True
    then show ?thesis using s(4) edges e(2) ids by blast
  next
    case False
    then have "e' \<in> set (q_queue q)" using that q s(3) by auto
    then show ?thesis using I(6,7) ids by blast
  qed
  have all: "constraint e' \<in> q_scheduled q'" if "e' \<in> rs \<or> (\<exists>i \<in> fst ` set ?v. graph_edge load i e')" for e'
    using that I(8) [of e'] edges s(2) by auto
  have met: "constraint e' \<in> constraint ` set (q_queue q') \<or> (\<exists>ty. map_of ?v (ge_id e') = Some ty \<and> accepts (ge_expected e') ty)"
    if "constraint e' \<in> q_scheduled q'" for e'
  proof (cases "constraint e' = constraint e")
    case True
    then show ?thesis using new(3) by (simp add: constraint_eq)
  next
    case False
    show ?thesis
    proof (cases "constraint e' \<in> q_scheduled q")
      case True
      then show ?thesis using I(9) [OF True] False new(1) by (auto simp: q s(3))
    next
      case False
      then show ?thesis using that s(3,5) by auto
    qed
  qed
  have types: "\<exists>d. load i = Some (Inr d) \<and> dg_object_type d = ty" if "map_of ?v i = Some ty" for i ty
    using that I(5) new(2) by (auto split: if_split_asm)
  have "distinct (map fst ?v)" "fst ` set ?v \<subseteq> q_scheduled_ids q'" using I(3,4) e(1) new(1) ids by (auto simp: map_of_eq_None_iff)
  then show ?thesis unfolding walk_inv_def using s(1) sub queue all met types by blast
qed

lemma visit_Inr:
  assumes "graph_visit load e (q\<lparr>q_queue := rest\<rparr>) v = Some (Inr (q', v'))" "walk_inv load rs q v" "q_queue q = e # rest"
  shows "walk_inv load rs q' v' \<and> q_limit q' = q_limit q \<and> work_left q' < work_left q"
proof (cases "map_of v (ge_id e)")
  case (Some ty)
  then have "q' = q\<lparr>q_queue := rest\<rparr>" "v' = v" "accepts (ge_expected e) ty"
    using assms(1) by (auto simp: graph_visit_def and_then_Inr_iff expectation_verify_def split: if_split_asm)
  then show ?thesis using walk_inv_seen [OF assms(2,3) Some] assms(3) by (simp add: work_left_def)
next
  case None
  obtain d where d: "load (ge_id e) = Some (Inr d)" "accepts (ge_expected e) (dg_object_type d)"
      "try_fold schedule (dg_edges d) (q\<lparr>q_queue := rest\<rparr>) = Inr q'" "v' = (ge_id e, dg_object_type d) # v"
    using assms(1) None by (auto simp: graph_visit_def and_then_Inr_iff expectation_verify_def split: if_split_asm)
  have inv: "walk_inv load rs q' v'" using walk_inv_load [OF assms(2,3) None d(1-3)] d(4) by simp
  have "queue_ok (q\<lparr>q_queue := rest\<rparr>)" using assms(2) by (simp add: walk_inv_def queue_ok_pop)
  from schedules_Inr [OF d(3) this] obtain more where "q_limit q' = q_limit q" "q_queue q' = rest @ more"
      "card (q_scheduled q') = card (q_scheduled q) + length more" by auto
  moreover have "card (q_scheduled q') \<le> 256 * q_limit q'" using scheduled_bound inv by (simp add: walk_inv_def)
  ultimately show ?thesis using inv assms(3) by (simp add: work_left_def)
qed

lemma visit_Inl:
  assumes "graph_visit load e (q\<lparr>q_queue := rest\<rparr>) v = Some (Inl x)" "walk_inv load rs q v" "q_queue q = e # rest"
  shows "\<not> walk_ok load rs (q_limit q)"
proof
  assume ok: "walk_ok load rs (q_limit q)"
  have fin: "finite (graph_from load rs)" "card (graph_from load rs) \<le> q_limit q" using ok by (auto simp: walk_ok_def)
  have sub: "q_scheduled_ids q \<subseteq> graph_from load rs" "ge_id e \<in> q_scheduled_ids q" "fst ` set v \<subseteq> q_scheduled_ids q"
      "distinct (map fst v)" and q: "queue_ok (q\<lparr>q_queue := rest\<rparr>)"
    using assms(2,3) by (auto simp: walk_inv_def queue_ok_pop)
  have "typed_edge load e" using assms(2,3) ok unfolding walk_inv_def walk_ok_def graph_intact_def by (metis list.set_intros(1))
  then obtain d where d: "load (ge_id e) = Some (Inr d)" "accepts (ge_expected e) (dg_object_type d)" by (auto simp: typed_edge_def)
  show False
  proof (cases "map_of v (ge_id e)")
    case (Some ty)
    then have "ty = dg_object_type d" using walk_invD(5) [OF assms(2)] d(1) by fastforce
    then show ?thesis using assms(1) Some d(2) by (simp add: graph_visit_def expectation_verify_def)
  next
    case None
    have "card (insert (ge_id e) (fst ` set v)) \<le> card (graph_from load rs)" using fin sub by (intro card_mono) auto
    then have "length v < q_limit q"
      using None fin(2) sub(4) distinct_card [of "map fst v"] by (simp add: map_of_eq_None_iff card_insert_if)
    then obtain y where "try_fold schedule (dg_edges d) (q\<lparr>q_queue := rest\<rparr>) = Inl y"
      using assms(1) None d by (auto simp: graph_visit_def expectation_verify_def and_then_Inl_iff split: if_split_asm)
    moreover have "ge_id ` set (dg_edges d) \<subseteq> graph_from load rs"
      using graph_from_edge [of "ge_id e" load rs] sub d(1) by (auto simp: graph_edge_def)
    ultimately show ?thesis using schedules_Inl [OF _ q, of _ _ "graph_from load rs"] sub(1) fin by force
  qed
qed

lemma graph_loop_ends:
  assumes "walk_inv load rs q v" "\<And>i. load i \<noteq> None"
  shows "\<exists>z. graph_loop load q v = Some z \<and> (case z of
      Inl _ \<Rightarrow> \<not> walk_ok load rs (q_limit q)
    | Inr v' \<Rightarrow> \<exists>q'. walk_inv load rs q' v' \<and> q_queue q' = [] \<and> q_limit q' = q_limit q)"
  using assms(1)
proof (induction "work_left q" arbitrary: q v rule: less_induct)
  case less
  show ?case
  proof (cases "q_queue q")
    case Nil
    then show ?thesis using less.prems by (subst graph_loop.simps) auto
  next
    case (Cons e rest)
    have "graph_visit load e (q\<lparr>q_queue := rest\<rparr>) v \<noteq> None"
      using assms(2) by (auto simp: graph_visit_def split: option.split)
    then obtain z where z: "graph_visit load e (q\<lparr>q_queue := rest\<rparr>) v = Some z" by blast
    show ?thesis
    proof (cases z)
      case (Inl x)
      then show ?thesis using visit_Inl [OF _ less.prems Cons] z by (subst graph_loop.simps) (auto simp: Cons)
    next
      case (Inr s)
      obtain q' v' where s: "s = (q', v')" by (cases s)
      have step: "walk_inv load rs q' v'" "q_limit q' = q_limit q" "work_left q' < work_left q"
        using visit_Inr [OF _ less.prems Cons] z Inr s by auto
      have "graph_loop load q v = graph_loop load q' v'"
        by (subst graph_loop.simps) (simp add: Cons z Inr s)
      then show ?thesis using less.hyps [OF step(3,1)] unfolding step(2) by simp
    qed
  qed
qed

lemma walk_inv_done:
  assumes inv: "walk_inv load rs q v" and q: "q_queue q = []"
  shows "fst ` set v = graph_from load rs" "walk_ok load rs (q_limit q)"
proof -
  note I = walk_invD [OF inv]
  have closed: "\<exists>ty. map_of v (ge_id e) = Some ty \<and> accepts (ge_expected e) ty"
    if "e \<in> rs \<or> (\<exists>i \<in> fst ` set v. graph_edge load i e)" for e
    using I(9) [OF I(8) [OF that]] by (simp add: q)
  have mem: "ge_id e \<in> fst ` set v" if "e \<in> rs \<or> (\<exists>i \<in> fst ` set v. graph_edge load i e)" for e
    using closed [OF that] by (metis domI dom_map_of_conv_image_fst)
  have "graph_from load rs \<subseteq> fst ` set v"
    unfolding graph_from_def by (rule reach_least) (use mem in \<open>auto simp: edge_to_def\<close>)
  then show ids: "fst ` set v = graph_from load rs" using I(2,4) by blast
  have typed: "typed_edge load e" if "e \<in> rs \<or> (\<exists>i \<in> fst ` set v. graph_edge load i e)" for e
    using closed [OF that] I(5) unfolding typed_edge_def by metis
  have fin: "finite (q_scheduled_ids q)" "card (q_scheduled_ids q) \<le> q_limit q" using I(1) by (auto simp: queue_ok_def)
  have "card (fst ` set v) \<le> q_limit q" using card_mono [OF fin(1) I(4)] fin(2) by simp
  then show "walk_ok load rs (q_limit q)"
    using typed fin(1) I(4) finite_subset unfolding walk_ok_def graph_intact_def ids [symmetric] by blast
qed

section \<open>The walk of a store\<close>

lemma map_sum_Inr: "map_sum id f r = Inr y \<longleftrightarrow> (\<exists>x. r = Inr x \<and> y = f x)"
  by (cases r) auto

lemma contribution_decode_returns: "contribution_decode bs \<noteq> None"
proof -
  have "contribution_encode c \<noteq> None" for c
    by (auto simp: contribution_encode_def Let_def encode_file_def u32_try_from_def max_serialized_header_bytes_def split: sum.splits)
  then have "\<exists>z. contribution_encode c = Some z" for c by simp
  then show ?thesis unfolding contribution_decode_def Let_def by (auto split: sum.split option.split if_split) (metis option.discI)+
qed

lemma load_graph_object_returns: "load_graph_object H st i \<noteq> None"
  using contribution_decode_returns
  by (auto simp: load_graph_object_def decode_graph_object_def split: sum.splits ObjectType.splits)

definition object_graph :: "(bytes \<Rightarrow> oid) \<Rightarrow> MemoryObjectStore \<Rightarrow> oid \<Rightarrow> oid set" where
  "object_graph H st i = graph_of (load_graph_object H st) i"

text \<open>The graph below \<open>i\<close> is well typed: \<open>i\<close> is readable and of the type asked for, and every edge of every object in it
  leads to a readable object of a type the edge accepts.\<close>

definition well_typed :: "(bytes \<Rightarrow> oid) \<Rightarrow> MemoryObjectStore \<Rightarrow> oid \<Rightarrow> ObjectType \<Rightarrow> bool" where
  "well_typed H st i ty \<longleftrightarrow> (\<exists>d. load_graph_object H st i = Some (Inr d) \<and> dg_object_type d = ty) \<and>
    (\<forall>j \<in> object_graph H st i. \<forall>d e. load_graph_object H st j = Some (Inr d) \<and> e \<in> set (dg_edges d) \<longrightarrow>
      (\<exists>d'. load_graph_object H st (ge_id e) = Some (Inr d') \<and> accepts (ge_expected e) (dg_object_type d')))"

definition verified_object :: "(bytes \<Rightarrow> oid) \<Rightarrow> MemoryObjectStore \<Rightarrow> oid \<Rightarrow> VerifiedGraphObject" where
  "verified_object H st j = \<lparr>vg_id = j, vg_object_type =
    (case load_graph_object H st j of Some (Inr d) \<Rightarrow> dg_object_type d | _ \<Rightarrow> ObjectType.Blob)\<rparr>"

lemma walk_ok_exact:
  "walk_ok (load_graph_object H st) {exact_edge i ty r} n \<longleftrightarrow>
    well_typed H st i ty \<and> finite (object_graph H st i) \<and> card (object_graph H st i) \<le> n"
  by (auto simp: walk_ok_def graph_intact_def graph_of_from [symmetric] well_typed_def object_graph_def typed_edge_def graph_edge_def exact_edge_def)

lemma walk_start:
  assumes "schedule e (with_limit n) = Inr q"
  shows "walk_inv load {e} q [] \<and> q_limit q = n"
proof -
  have q: "q = \<lparr>q_queue = [e], q_scheduled = {constraint e}, q_scheduled_ids = {ge_id e}, q_limit = n\<rparr>" "0 < n"
    using assms by (auto simp: schedule_def with_limit_def constraint_def split: if_split_asm)
  then show ?thesis by (auto simp: walk_inv_def queue_ok_def constraint_def graph_from_def reach_def)
qed

lemma sort_key_eq: "(\<And>x. x \<in> set xs \<Longrightarrow> f x = g x) \<Longrightarrow> sort_key f xs = sort_key g xs"
proof (induction xs)
  case (Cons x xs)
  have "insort_key f x ys = insort_key g x ys" if "set ys \<subseteq> set xs" for ys
    using that Cons.prems by (induction ys) auto
  then show ?case using Cons by simp
qed simp

lemma sort_verified:
  assumes "distinct (map fst v)" "\<And>j ty. (j, ty) \<in> set v \<Longrightarrow> f j = \<lparr>vg_id = j, vg_object_type = ty\<rparr>"
  shows "sort_key vg_id (map (\<lambda>(j, ty). \<lparr>vg_id = j, vg_object_type = ty\<rparr>) v) = map f (sorted_list_of_set (fst ` set v))"
proof -
  have eq: "map (\<lambda>(j, ty). \<lparr>vg_id = j, vg_object_type = ty\<rparr>) v = map f (map fst v)" using assms(2) by (auto simp: case_prod_unfold)
  have key: "sort_key (\<lambda>j. vg_id (f j)) (map fst v) = sort_key (\<lambda>j. j) (map fst v)"
    by (intro sort_key_eq) (use assms(2) in fastforce)
  have "sort (map fst v) = sorted_list_of_set (set (map fst v))"
    using assms(1) sorted_list_of_set_sort_remdups [of "map fst v"] by (simp only: distinct_remdups_id)
  then show ?thesis using sort_key_map [of vg_id f "map fst v"] by (simp only: eq key set_map)
qed

lemma walk_result:
  "\<exists>z. reachable_graph_verified H n i ty st = Some z \<and> (case z of
      Inl _ \<Rightarrow> \<not> walk_ok (load_graph_object H st) {exact_edge i ty (''root:'' @ hex i)} n
    | Inr objs \<Rightarrow> walk_ok (load_graph_object H st) {exact_edge i ty (''root:'' @ hex i)} n \<and>
        objs = map (verified_object H st) (sorted_list_of_set (object_graph H st i)))"
proof (cases "schedule (exact_edge i ty (''root:'' @ hex i)) (with_limit n)")
  case (Inl e)
  then have "n = 0" by (auto simp: schedule_def with_limit_def split: if_split_asm)
  moreover have "0 < card (object_graph H st i)" if "finite (object_graph H st i)"
    using that graph_of_root [of i "load_graph_object H st"] by (auto simp: card_gt_0_iff object_graph_def simp del: graph_of_root)
  ultimately show ?thesis using Inl by (auto simp: reachable_graph_verified_def walk_ok_exact)
next
  case (Inr q)
  let ?load = "load_graph_object H st" and ?r = "exact_edge i ty (''root:'' @ hex i)"
  have inv: "walk_inv ?load {?r} q []" "q_limit q = n" using walk_start [OF Inr] by auto
  obtain z where z: "graph_loop ?load q [] = Some z" "case z of Inl _ \<Rightarrow> \<not> walk_ok ?load {?r} (q_limit q)
    | Inr v' \<Rightarrow> \<exists>q'. walk_inv ?load {?r} q' v' \<and> q_queue q' = [] \<and> q_limit q' = q_limit q"
    using graph_loop_ends [OF inv(1) load_graph_object_returns] by blast
  show ?thesis
  proof (cases z)
    case (Inl e)
    then show ?thesis using z inv(2) Inr by (simp add: reachable_graph_verified_def)
  next
    case (Inr v)
    then obtain q' where q': "walk_inv ?load {?r} q' v" "q_queue q' = []" "q_limit q' = n" using z(2) inv(2) by auto
    note fin = walk_inv_done [OF q'(1,2)]
    have "verified_object H st j = \<lparr>vg_id = j, vg_object_type = ty\<rparr>" if "(j, ty) \<in> set v" for j ty
      using walk_invD(3,5) [OF q'(1)] that by (fastforce simp: verified_object_def)
    then have "sort_key vg_id (map (\<lambda>(j, ty). \<lparr>vg_id = j, vg_object_type = ty\<rparr>) v) =
        map (verified_object H st) (sorted_list_of_set (fst ` set v))"
      using walk_invD(3) [OF q'(1)] by (intro sort_verified)
    then show ?thesis
      using z Inr \<open>schedule _ _ = Inr q\<close> fin q'(3) by (simp add: reachable_graph_verified_def object_graph_def graph_of_from [symmetric] exact_edge_def)
  qed
qed

lemma graph_verified_Inr:
  "reachable_graph_verified H n i ty st = Some (Inr objs) \<longleftrightarrow> well_typed H st i ty \<and> finite (object_graph H st i) \<and>
    card (object_graph H st i) \<le> n \<and> objs = map (verified_object H st) (sorted_list_of_set (object_graph H st i))"
proof -
  obtain z where "reachable_graph_verified H n i ty st = Some z" "case z of
      Inl _ \<Rightarrow> \<not> walk_ok (load_graph_object H st) {exact_edge i ty (''root:'' @ hex i)} n
    | Inr objs \<Rightarrow> walk_ok (load_graph_object H st) {exact_edge i ty (''root:'' @ hex i)} n \<and>
        objs = map (verified_object H st) (sorted_list_of_set (object_graph H st i))"
    using walk_result by blast
  then show ?thesis by (cases z) (auto simp: walk_ok_exact)
qed

text \<open>
  C20: The graph walk is total and exact. On any store, however damaged or cyclic, it returns; and it succeeds exactly when
  everything reachable from the root is readable and of the type every edge to it expects, and there are no more objects
  than the ceiling: then the answer is every reachable object once, in id order, with its type.
\<close>

theorem graph_walk_exact:
  "reachable_graph_verified H limit i ty st \<noteq> None \<and>
   (reachable_graph_verified H limit i ty st = Some (Inr objs) \<longleftrightarrow>
      well_typed H st i ty \<and> finite (object_graph H st i) \<and> card (object_graph H st i) \<le> limit \<and>
      objs = map (verified_object H st) (sorted_list_of_set (object_graph H st i)))"
  using walk_result [of H limit i ty st] by (intro conjI graph_verified_Inr) auto

end
