(* ===== verification/Catalog_Group.thy ===== *)
theory Catalog_Group
  imports Catalog_Session
begin

text \<open>
  Group commit (\<open>Meta::drain_group\<close>), abandonment, fork names and reclamation roots
  (\<open>src/crates/forge-store/src/meta.rs\<close>).
\<close>

section \<open>Group commit\<close>

text \<open>The reference: the queued jobs one after the other, each in a transaction of its own.\<close>

fun serial :: "'a tx list \<Rightarrow> Catalog \<Rightarrow> (error + 'a) list \<times> Catalog" where
  "serial [] c = ([], c)"
| "serial (job # jobs) c =
    (case job c of
       Inl e \<Rightarrow> (let (outs, c') = serial jobs c in (Inl e # outs, c'))
     | Inr (v, c1) \<Rightarrow> (let (outs, c') = serial jobs c1 in (Inr v # outs, c')))"

lemma run_jobs_poisoned:
  "run_jobs F i jobs (Some e) c = (map (\<lambda>_. Inl e) jobs, Some e, c)"
  by (induction jobs arbitrary: i) simp_all

lemma run_jobs_serial:
  "run_jobs F i jobs None c = (outs, None, c') \<Longrightarrow> serial jobs c = (outs, c')"
proof (induction jobs arbitrary: i c outs c')
  case (Cons job jobs)
  show ?case
  proof (cases "f_savepoint F i")
    case None
    show ?thesis
    proof (cases "job c")
      case (Inl e)
      then show ?thesis using Cons None
        by (cases "f_rollback F i") (auto simp: run_jobs_poisoned dest!: Cons.IH split: prod.splits)
    next
      case (Inr vc)
      then show ?thesis using Cons None
        by (cases vc; cases "f_release F i") (auto simp: run_jobs_poisoned dest!: Cons.IH split: prod.splits)
    qed
  qed (use Cons.prems in \<open>simp add: run_jobs_poisoned\<close>)
qed simp

lemma length_run_jobs: "length (fst (run_jobs F i jobs p c)) = length jobs"
  by (induction F i jobs p c rule: run_jobs.induct) (auto simp: Let_def split: prod.splits)

lemma length_serial: "length (fst (serial jobs c)) = length jobs"
  by (induction jobs c rule: serial.induct) (auto simp: Let_def split: sum.splits prod.splits)

text \<open>
  C29: Whatever SQLite answers, a drained batch is all or nothing: either the replies and the catalog
  are exactly those of running the jobs one after the other, each in its own transaction, or the
  catalog is unchanged and every caller is told the same error. Every job gets exactly one reply.
\<close>

theorem drain_group_all_or_nothing:
  "drain_group F jobs c = serial jobs c \<or> (\<exists>e. drain_group F jobs c = (map (\<lambda>_. Inl e) jobs, c))"
proof (cases "f_begin F")
  case None
  obtain outs p c' where run: "run_jobs F 0 jobs None c = (outs, p, c')" by (cases "run_jobs F 0 jobs None c")
  show ?thesis
  proof (cases p)
    case None
    then show ?thesis using run_jobs_serial [of F 0 jobs c outs c'] run \<open>f_begin F = None\<close>
      by (cases "f_commit F") (auto simp: drain_group_def)
  next
    case (Some e)
    then show ?thesis using run \<open>f_begin F = None\<close> by (auto simp: drain_group_def)
  qed
qed (auto simp: drain_group_def)

lemma run_jobs_no_fault:
  assumes "\<And>i. f_savepoint F i = None" "\<And>i. f_release F i = None" "\<And>i. f_rollback F i = None"
  shows "run_jobs F i jobs None c = (fst (serial jobs c), None, snd (serial jobs c))"
  by (induction jobs arbitrary: i c) (auto simp: assms Let_def split: sum.splits prod.splits)

definition no_faults :: sql_faults where
  "no_faults = \<lparr>f_begin = None, f_savepoint = (\<lambda>_. None), f_release = (\<lambda>_. None), f_rollback = (\<lambda>_. None),
     f_commit = None\<rparr>"

text \<open>With no fault a batch is committed: the leader's transaction serves every waiting caller.\<close>

theorem drain_group_serves_all: "drain_group no_faults jobs c = serial jobs c"
  using run_jobs_no_fault [of no_faults 0 jobs c] by (simp add: drain_group_def no_faults_def)

section \<open>Abandonment\<close>

definition other_sessions_kept :: "string \<Rightarrow> Catalog \<Rightarrow> Catalog \<Rightarrow> bool" where
  "other_sessions_kept ns c c' \<longleftrightarrow> refs c' = refs c \<and> reflog_rows c' = reflog_rows c
   \<and> (\<forall>n. map_of (namespaces c') n = (if n = ns then None else map_of (namespaces c) n))
   \<and> (\<forall>n p. map_of (mounts c') (n, p) = (if n = ns then None else map_of (mounts c) (n, p)))
   \<and> (\<forall>n m p. map_of (overlay c') (n, m, p) = (if n = ns then None else map_of (overlay c) (n, m, p)))
   \<and> (\<forall>n m p. map_of (observation_rows c') (n, m, p) = (if n = ns then None else map_of (observation_rows c) (n, m, p)))"

text \<open>
  A session with staged work is not abandoned unless the caller discards it explicitly; the
  refusal changes nothing, and a successful abandonment removes that session's mounts, overlay and
  observations and leaves every ref and every other session alone.
\<close>

theorem abandon_session_keeps_staged_work:
  assumes "\<not> read_only c"
  shows "case abandon_session ns discard c of
      Inr (a, c') \<Rightarrow> has_row ns (namespaces c) \<and> other_sessions_kept ns c c'
        \<and> (discard \<or> (\<forall>m p. \<not> has_row (ns, m, p) (overlay c)))
    | Inl e \<Rightarrow> e = NotFound ''namespace'' \<and> \<not> has_row ns (namespaces c)
        \<or> \<not> discard \<and> (\<exists>m p. has_row (ns, m, p) (overlay c))"
proof -
  have staged: "filter (\<lambda>((n, _), _). n = ns) (overlay c) = [] \<longleftrightarrow> (\<forall>m p. \<not> has_row (ns, m, p) (overlay c))"
    by (force simp: filter_empty_conv has_row_mem)
  show ?thesis
    using assms staged by (auto simp: abandon_session_def begin_tx_def Let_def other_sessions_kept_def)
qed

theorem abandon_session_keeps_staged_work_witness:
  "\<exists>e. abandon_session ''s1'' False demo5 = Inl e \<and> (\<exists>m p. has_row (''s1'', m, p) (overlay demo5))"
proof -
  have "\<not> read_only demo5" and ns: "has_row ''s1'' (namespaces demo5)" and ov: "has_row (''s1'', ''/'', ''f'') (overlay demo5)"
    by (simp_all add: demo5_def has_row_def)
  then show ?thesis
    using abandon_session_keeps_staged_work [of demo5 "''s1''" False]
    by (cases "abandon_session ''s1'' False demo5") auto
qed

section \<open>Fork names\<close>

lemma sanitize_chars_agent: "c \<in> set (sanitize_chars s) \<Longrightarrow> agent_char c"
  by (auto simp: sanitize_chars_def agent_char_def split: if_split_asm)

lemma char_codes:
  "of_char CHR ''0'' = (48 :: nat)" "of_char CHR ''9'' = (57 :: nat)" "of_char CHR ''A'' = (65 :: nat)"
  "of_char CHR ''Z'' = (90 :: nat)" "of_char CHR ''a'' = (97 :: nat)" "of_char CHR ''z'' = (122 :: nat)"
  "of_char CHR ''/'' = (47 :: nat)"
  by simp_all

lemma ascii_alnum_codes: "ascii_alnum c \<Longrightarrow> 48 \<le> (of_char c :: nat) \<and> (of_char c :: nat) \<le> 122"
  unfolding ascii_alnum_def less_eq_char_def char_codes by linarith

lemma agent_char_ascii: "agent_char c \<Longrightarrow> \<not> utf8_cont (of_char c) \<and> c \<noteq> CHR ''/''"
proof -
  assume c: "agent_char c"
  have "(of_char c :: nat) < 128"
    using c ascii_alnum_codes [of c] unfolding agent_char_def by (elim disjE) simp_all
  moreover have "c \<noteq> CHR ''/''"
    using c ascii_alnum_codes [of c] char_codes(7) unfolding agent_char_def by (elim disjE) auto
  ultimately show ?thesis by (simp add: utf8_cont_def word_le_nat_alt)
qed

lemma sanitize_agent_chars: "c \<in> set (sanitize_agent s) \<Longrightarrow> agent_char c"
proof (cases "sanitize_chars s = []")
  case True
  have "list_all agent_char ''anon''" by code_simp
  then show "c \<in> set (sanitize_agent s) \<Longrightarrow> agent_char c"
    using True by (auto simp: sanitize_agent_def list_all_iff)
qed (use sanitize_chars_agent in \<open>simp add: sanitize_agent_def\<close>)

lemma sanitize_chars_id: "(\<And>c. c \<in> set s \<Longrightarrow> agent_char c) \<Longrightarrow> sanitize_chars s = s"
  by (induction s) (auto simp: sanitize_chars_def agent_char_ascii)

lemma sanitize_agent_idem: "sanitize_agent (sanitize_agent s) = sanitize_agent s"
proof -
  have "sanitize_chars (sanitize_agent s) = sanitize_agent s"
    using sanitize_agent_chars by (intro sanitize_chars_id)
  moreover have "sanitize_agent s \<noteq> []" by (simp add: sanitize_agent_def Let_def)
  ultimately show ?thesis by (simp add: sanitize_agent_def)
qed

lemma fork_name_is_fork: "is_fork_ref (fork_name n agent ulid)"
  by (simp add: is_fork_ref_def fork_name_def starts_with_def)

lemma agent_subtree_fork:
  "is_fork_ref (''heads/agents/'' @ sanitize_agent agent @ ''/'' @ rest) = (prefix ''forks/'' rest \<and> length rest > 6)"
proof -
  have slash: "CHR ''/'' \<notin> set (sanitize_agent agent)"
    using sanitize_agent_chars agent_char_ascii by blast
  have "split_once CHR ''/'' (sanitize_agent agent @ ''/'' @ rest) = Some (sanitize_agent agent, rest)"
    using slash by (simp add: split_once_Some)
  moreover have "strip_prefix ''heads/agents/'' (''heads/agents/'' @ sanitize_agent agent @ ''/'' @ rest) =
      Some (sanitize_agent agent @ ''/'' @ rest)"
    by (rule strip_prefix_append)
  moreover have "\<not> starts_with ''forks/'' (''heads/agents/'' @ sanitize_agent agent @ ''/'' @ rest)"
    by (simp add: starts_with_def)
  ultimately show ?thesis unfolding is_fork_ref_def by (simp only: if_False option.case prod.case) (simp add: starts_with_def eval_nat_numeral)
qed

text \<open>
  Every fork a lost race mints can be retired: both spellings of a fork name, from a merge or
  import and from a session checkin, are recognised by \<open>is_fork_ref\<close>, whatever the agent is called;
  a session's own head is not, its last component being a ULID, which has no slash. And sanitising
  an agent name twice changes nothing more.
\<close>

theorem fork_names_can_be_abandoned:
  "is_fork_ref (fork_name n agent ulid) \<and> is_fork_ref (session_fork_name n agent ulid)
   \<and> is_fork_ref (''heads/agents/'' @ sanitize_agent agent @ ''/'' @ ulid) = (prefix ''forks/'' ulid \<and> length ulid > 6)
   \<and> sanitize_agent (sanitize_agent agent) = sanitize_agent agent"
proof (intro conjI)
  have "session_fork_name n agent ulid = ''heads/agents/'' @ sanitize_agent agent @ ''/'' @ (''forks/'' @ n @ ''/'' @ ulid)"
    by (simp add: session_fork_name_def)
  then show "is_fork_ref (session_fork_name n agent ulid)" by (simp only: agent_subtree_fork) simp
qed (rule fork_name_is_fork agent_subtree_fork sanitize_agent_idem)+

section \<open>Reclamation roots\<close>

definition gc_oids :: "GcCatalogRoots \<Rightarrow> oid set" where
  "gc_oids g = (\<lambda>(_, _, i). i) ` set (g_refs g) \<union> snd ` set (g_pins g)
    \<union> {i. \<exists>n p s. (n, p, s, Some i) \<in> set (g_mounts g)}
    \<union> (\<lambda>(_, _, i). i) ` set (g_overlay g) \<union> (\<lambda>(_, _, _, i). i) ` set (g_observations g)
    \<union> fst ` set (g_landmarks g) \<union> (\<Union>(_, a, b, d) \<in> set (g_seals g). {a, b, d})"

definition intro_oids :: "Catalog \<Rightarrow> oid set" where
  "intro_oids c = (\<Union>(i, r) \<in> set (object_intro c). {i, i_commit_oid r})"

lemma set_map_filter: "set (List.map_filter f xs) = {y. \<exists>x \<in> set xs. f x = Some y}"
  by (force simp: List.map_filter_def)

lemma cr_oid_root [simp]: "cr_oid (root i e r) = i"
  by (simp add: root_def)

text \<open>The oids each pass roots.\<close>

lemma image_map_filter:
  assumes "\<And>k v. map_option g (f (k, v)) = h v"
  shows "g ` set (List.map_filter f xs) = {i. \<exists>(k, v) \<in> set xs. h v = Some i}"
proof -
  have "h (snd x) = map_option g (f x)" for x using assms [of "fst x" "snd x"] by simp
  then have eq: "(\<exists>x \<in> set xs. case x of (k, v) \<Rightarrow> h v = Some i) \<longleftrightarrow> (\<exists>x \<in> set xs. \<exists>y. f x = Some y \<and> g y = i)" for i
    by (simp add: case_prod_unfold map_option_eq_Some)
  show ?thesis unfolding set_map_filter eq by blast
qed

lemma pass_roots:
  shows "cr_oid ` set (snd (audit_refs c)) = (\<lambda>(_, r). r_oid r) ` set (refs c)"
    and "cr_oid ` set (snd (audit_namespaces c)) = {i. \<exists>(ns, n) \<in> set (namespaces c). n_pinned_oid n = Some i}"
    and "cr_oid ` set (snd (audit_mounts c)) = {i. \<exists>(k, m) \<in> set (mounts c). m_base_oid m = Some i}"
    and "cr_oid ` set (snd (audit_observations c)) = {i. \<exists>(k, s) \<in> set (observation_rows c). observed_oid s = Some i}"
    and "cr_oid ` set (snd (audit_overlay c)) = {i. \<exists>(k, r) \<in> set (overlay c). o_blob_oid r = Some i}"
    and "cr_oid ` set (snd (audit_seals c)) = (\<Union>(_, s) \<in> set (seals c). {s_snap_oid s, s_commit_oid s, s_tree_oid s})"
    and "cr_oid ` set (snd (audit_landmarks c)) = fst ` set (landmarks c)"
    and "cr_oid ` set (audit_intros c) = intro_oids c"
proof -
  show "cr_oid ` set (snd (audit_refs c)) = (\<lambda>(_, r). r_oid r) ` set (refs c)"
    by (force simp: audit_refs_def ref_root_def)
  show "cr_oid ` set (snd (audit_namespaces c)) = {i. \<exists>(ns, n) \<in> set (namespaces c). n_pinned_oid n = Some i}"
    unfolding audit_namespaces_def snd_conv by (rule image_map_filter) (simp add: option.map_comp comp_def option.map_ident)
  show "cr_oid ` set (snd (audit_mounts c)) = {i. \<exists>(k, m) \<in> set (mounts c). m_base_oid m = Some i}"
    unfolding audit_mounts_def snd_conv by (rule image_map_filter) (auto simp: option.map_comp comp_def option.map_ident)
  show "cr_oid ` set (snd (audit_observations c)) = {i. \<exists>(k, s) \<in> set (observation_rows c). observed_oid s = Some i}"
    unfolding audit_observations_def snd_conv
    by (rule image_map_filter) (auto simp: Let_def split: Observed.split)
  show "cr_oid ` set (snd (audit_overlay c)) = {i. \<exists>(k, r) \<in> set (overlay c). o_blob_oid r = Some i}"
    unfolding audit_overlay_def snd_conv by (rule image_map_filter) (auto simp: option.map_comp comp_def option.map_ident)
  show "cr_oid ` set (snd (audit_seals c)) = (\<Union>(_, s) \<in> set (seals c). {s_snap_oid s, s_commit_oid s, s_tree_oid s})"
    by (simp add: audit_seals_def seal_roots_def Let_def image_UN case_prod_unfold)
  show "cr_oid ` set (snd (audit_landmarks c)) = fst ` set (landmarks c)"
    by (force simp: audit_landmarks_def)
  show "cr_oid ` set (audit_intros c) = intro_oids c"
    by (simp add: audit_intros_def intro_oids_def Let_def image_UN case_prod_unfold)
qed

lemma gc_oids_roots:
  "gc_oids (gc_roots c) = (\<lambda>(_, r). r_oid r) ` set (refs c) \<union> {i. \<exists>(ns, n) \<in> set (namespaces c). n_pinned_oid n = Some i}
    \<union> {i. \<exists>(k, m) \<in> set (mounts c). m_base_oid m = Some i} \<union> {i. \<exists>(k, r) \<in> set (overlay c). o_blob_oid r = Some i}
    \<union> {i. \<exists>(k, s) \<in> set (observation_rows c). observed_oid s = Some i} \<union> fst ` set (landmarks c)
    \<union> (\<Union>(_, s) \<in> set (seals c). {s_snap_oid s, s_commit_oid s, s_tree_oid s})"
proof -
  have "(\<lambda>(_, _, i). i) ` set (g_refs (gc_roots c)) = (\<lambda>(_, r). r_oid r) ` set (refs c)"
    by (force simp: gc_roots_def read_gc_roots_def)
  moreover have "snd ` set (g_pins (gc_roots c)) = {i. \<exists>(ns, n) \<in> set (namespaces c). n_pinned_oid n = Some i}"
    unfolding gc_roots_def read_gc_roots_def GcCatalogRoots.simps
    by (rule image_map_filter) (auto simp: option.map_comp comp_def option.map_ident)
  moreover have "{i. \<exists>n p s. (n, p, s, Some i) \<in> set (g_mounts (gc_roots c))} = {i. \<exists>(k, m) \<in> set (mounts c). m_base_oid m = Some i}"
    by (force simp: gc_roots_def read_gc_roots_def)
  moreover have "(\<lambda>(_, _, i). i) ` set (g_overlay (gc_roots c)) = {i. \<exists>(k, r) \<in> set (overlay c). o_blob_oid r = Some i}"
    unfolding gc_roots_def read_gc_roots_def GcCatalogRoots.simps
    by (rule image_map_filter) (auto simp: option.map_comp comp_def option.map_ident)
  moreover have "(\<lambda>(_, _, _, i). i) ` set (g_observations (gc_roots c)) =
      {i. \<exists>(k, s) \<in> set (observation_rows c). observed_oid s = Some i}"
    unfolding gc_roots_def read_gc_roots_def GcCatalogRoots.simps
    by (rule image_map_filter) (auto simp: option.map_comp comp_def option.map_ident)
  moreover have "fst ` set (g_landmarks (gc_roots c)) = fst ` set (landmarks c)"
    by (force simp: gc_roots_def read_gc_roots_def list_landmarks_def)
  moreover have "(\<Union>(_, a, b, d) \<in> set (g_seals (gc_roots c)). {a, b, d}) =
      (\<Union>(_, s) \<in> set (seals c). {s_snap_oid s, s_commit_oid s, s_tree_oid s})"
    by (simp add: gc_roots_def read_gc_roots_def list_seals_def case_prod_unfold)
  ultimately show ?thesis by (simp only: gc_oids_def)
qed

text \<open>
  The collector and the auditor agree on what the catalog keeps alive: the objects the audit
  demands are exactly the collector's roots and the objects named by introductions.
\<close>

theorem gc_roots_are_audit_roots:
  "cr_oid ` set (roots (audit_catalog c)) = gc_oids (gc_roots c) \<union> intro_oids c"
proof -
  have "set (roots (audit_catalog c)) = set (snd (audit_refs c)) \<union> set (snd (audit_namespaces c)) \<union> set (snd (audit_mounts c))
      \<union> set (snd (audit_observations c)) \<union> set (snd (audit_overlay c)) \<union> set (snd (audit_seals c))
      \<union> set (snd (audit_landmarks c)) \<union> set (audit_intros c)"
    by (simp add: audit_catalog_def audit_finish_def Un_assoc)
  then show ?thesis unfolding gc_oids_roots by (simp only: image_Un pass_roots) blast
qed

text \<open>After a sweep forgets an object, no introduction names it, so the audit demands it no more
  on that account, and introductions of other objects by other commits are kept.\<close>

theorem forget_object_clears_intros:
  "i \<notin> intro_oids (snd (forget_object i c))
   \<and> set (object_intro (snd (forget_object i c))) = {(k, r) \<in> set (object_intro c). k \<noteq> i \<and> i_commit_oid r \<noteq> i}
   \<and> fst (forget_object i c) = length (object_intro c) - length (object_intro (snd (forget_object i c)))"
proof -
  have le: "length (filter P (delete_rows Q t)) \<le> length (delete_rows Q t)" "length (delete_rows Q t) \<le> length t" for P Q t
    by (simp_all only: delete_rows_def length_filter_le)
  show ?thesis
    using le(1) [of "\<lambda>(_, r). i_commit_oid r \<noteq> i" "\<lambda>k. k = i" "object_intro c"]
      le(2) [of "\<lambda>k. k = i" "object_intro c"]
    by (auto simp: forget_object_def intro_oids_def delete_rows_def Let_def)
qed

end
