(* ===== verification/Collector_Laws.thy ===== *)
theory Collector_Laws
  imports Collector Graph_Laws Checkin Catalog_Group
begin

text \<open>
  The collector takes nothing that is live: what the root walk covers, what the walk out of the survivors covers, and what a
  sweep has unlinked when it ends, whatever other processes did before its transaction began.
\<close>

section \<open>The root set\<close>

definition raw_mounts :: "GcCatalogRoots \<Rightarrow> oid set" where
  "raw_mounts g = {i. \<exists>n p s b. (n, p, s, b) \<in> set (g_mounts g) \<and> parse_spec s = Inr (SpecOid i)}"

definition root_oids :: "GcCatalogRoots \<Rightarrow> oid set" where
  "root_oids g = gc_oids g \<union> raw_mounts g"

definition rooted :: "nat \<Rightarrow> oid set \<Rightarrow> GraphWorkQueue \<Rightarrow> bool" where
  "rooted n ids q \<longleftrightarrow> queue_ok q \<and> q_limit q = n \<and> q_scheduled_ids q = ids \<and> (\<forall>c \<in> q_scheduled q. \<exists>e \<in> set (q_queue q). ge_id e = fst c) \<and>
    ge_id ` set (q_queue q) \<subseteq> ids"

lemma rooted_init: "rooted n {} (with_limit n)"
  using queue_ok_with_limit by (simp add: rooted_def with_limit_def)

lemma rooted_step:
  assumes "schedule_root i x r q = Inr q'" "rooted n ids q"
  shows "rooted n (insert i ids) q'"
proof -
  let ?e = "\<lparr>ge_id = i, ge_expected = x, ge_resource = r\<rparr>"
  have q: "queue_ok q" "q_limit q = n" "q_scheduled_ids q = ids" "\<forall>c \<in> q_scheduled q. \<exists>e \<in> set (q_queue q). ge_id e = fst c"
    "ge_id ` set (q_queue q) \<subseteq> ids"
    using assms(2) by (simp_all add: rooted_def)
  obtain new where s: "queue_ok q'" "q_limit q' = q_limit q" "q_scheduled q' = insert (constraint ?e) (q_scheduled q)"
      "q_queue q' = q_queue q @ new" "set new \<subseteq> {?e}" "q_scheduled q' = q_scheduled q \<union> constraint ` set new"
    using schedule_Inr [OF assms(1) [unfolded schedule_root_def] q(1)] by blast
  have "q_scheduled_ids q' = insert i ids" using s(1,3) q(1,3) by (simp add: queue_ok_def constraint_def)
  moreover have "\<exists>e \<in> set (q_queue q'). ge_id e = fst c" if "c \<in> q_scheduled q'" for c
    using that q(4) s(4,6) by (auto simp: constraint_def)
  moreover have "ge_id ` set (q_queue q') \<subseteq> insert i ids" using q(5) s(4,5) by auto
  ultimately show ?thesis using s(1,2) q(2) by (simp add: rooted_def)
qed

text \<open>One pass over the rows of a table roots the ids \<open>g\<close> names.\<close>

definition pass_roots_ids :: "('x \<Rightarrow> rooting \<Rightarrow> error + rooting) \<Rightarrow> ('x \<Rightarrow> oid set) \<Rightarrow> bool" where
  "pass_roots_ids f g \<longleftrightarrow> (\<forall>n x k q k' q' ids. f x (k, q) = Inr (k', q') \<longrightarrow> rooted n ids q \<longrightarrow> rooted n (ids \<union> g x) q')"

lemma rooted_fold:
  assumes "pass_roots_ids f g" "try_fold f xs (k, q) = Inr (k', q')" "rooted n ids q"
  shows "rooted n (ids \<union> (\<Union>x \<in> set xs. g x)) q'"
  using assms(2,3)
proof (induction xs arbitrary: k q ids)
  case (Cons x xs)
  then obtain k1 q1 where 1: "f x (k, q) = Inr (k1, q1)" "try_fold f xs (k1, q1) = Inr (k', q')" by (auto simp: and_then_Inr_iff)
  have "rooted n (ids \<union> g x) q1" using assms(1) 1(1) Cons.prems(2) by (simp add: pass_roots_ids_def)
  from Cons.IH [OF 1(2) this] show ?case by (simp add: Un_assoc)
qed simp

lemma rooted_passes:
  "pass_roots_ids root_ref (\<lambda>x. {snd (snd x)})" "pass_roots_ids root_pin (\<lambda>x. {snd x})" "pass_roots_ids root_overlay (\<lambda>x. {snd (snd x)})"
  "pass_roots_ids root_observation (\<lambda>x. {snd (snd (snd x))})" "pass_roots_ids root_landmark (\<lambda>x. {fst x})"
  unfolding pass_roots_ids_def using rooted_step
  by (auto simp: root_ref_def root_pin_def root_overlay_def root_observation_def root_landmark_def and_then_Inr_iff Let_def
      split: prod.splits if_split_asm)

lemma rooted_seals: "pass_roots_ids root_seal (\<lambda>(_, a, b, d). {a, b, d})"
  unfolding pass_roots_ids_def
proof (intro allI impI)
  fix n s k q k' q' ids
  assume seal: "root_seal s (k, q) = Inr (k', q')" "rooted n ids q"
  obtain tag a b d where s: "s = (tag, a, b, d)" by (cases s)
  obtain q1 q2 where q: "schedule_root a (ExpectExact ObjectType.Snapshot) (''seal:'' @ tag @ '':snapshot'') q = Inr q1"
    "schedule_root b (ExpectExact ObjectType.Commit) (''seal:'' @ tag @ '':commit'') q1 = Inr q2"
    "schedule_root d (ExpectExact ObjectType.Tree) (''seal:'' @ tag @ '':tree'') q2 = Inr q'"
    using seal(1) by (auto simp: root_seal_def s and_then_Inr_iff)
  show "rooted n (ids \<union> (case s of (_, a, b, d) \<Rightarrow> {a, b, d})) q'"
    using rooted_step [OF q(3) rooted_step [OF q(2) rooted_step [OF q(1) seal(2)]]] by (simp add: s insert_commute)
qed

lemma rooted_mounts: "pass_roots_ids root_mount (\<lambda>(_, _, s, b). {i. parse_spec s = Inr (SpecOid i)} \<union> set_option b)"
  unfolding pass_roots_ids_def
proof (intro allI impI)
  fix n m k q k' q' ids
  assume mount: "root_mount m (k, q) = Inr (k', q')" "rooted n ids q"
  obtain ns p s b where m: "m = (ns, p, s, b)" by (cases m)
  obtain q1 where q1: "(case parse_spec s of Inr (SpecOid i) \<Rightarrow> schedule_root i ExpectAny (''namespace:'' @ ns @ '':mount:'' @ p) q | _ \<Rightarrow> Inr q) = Inr q1"
    "(case b of None \<Rightarrow> q' = q1 | Some i \<Rightarrow> schedule_root i ExpectAny (''namespace:'' @ ns @ '':mount:'' @ p @ '':base'') q1 = Inr q')"
    using mount(1) by (auto simp: root_mount_def m and_then_Inr_iff Let_def split: option.splits)
  have "rooted n (ids \<union> {i. parse_spec s = Inr (SpecOid i)}) q1"
    using q1(1) mount(2) rooted_step by (auto split: sum.splits Spec.splits)
  then show "rooted n (ids \<union> (case m of (_, _, s, b) \<Rightarrow> {i. parse_spec s = Inr (SpecOid i)} \<union> set_option b)) q'"
    using q1(2) rooted_step by (auto simp: m split: option.splits)
qed

lemma roots_scheduled:
  assumes "schedule_catalog_roots g (no_counts, with_limit n) = Inr (k, q)"
  shows "rooted n (root_oids g) q"
proof -
  obtain k1 q1 k2 q2 k3 q3 k4 q4 k5 q5 k6 q6 where
    r: "try_fold root_ref (g_refs g) (no_counts, with_limit n) = Inr (k1, q1)"
      "try_fold root_pin (g_pins g) (k1, q1) = Inr (k2, q2)"
      "try_fold root_mount (g_mounts g) (k2\<lparr>gk_session_live_refs := gk_session_live_refs k2 + g_live_refs g\<rparr>, q2) = Inr (k3, q3)"
      "try_fold root_overlay (g_overlay g) (k3, q3) = Inr (k4, q4)"
      "try_fold root_observation (g_observations g) (k4, q4) = Inr (k5, q5)"
      "try_fold root_landmark (g_landmarks g) (k5, q5) = Inr (k6, q6)" "try_fold root_seal (g_seals g) (k6, q6) = Inr (k, q)"
    using assms by (auto simp: schedule_catalog_roots_def and_then_Inr_iff Let_def)
  note 1 = rooted_fold [OF rooted_passes(1) r(1) rooted_init]
  note 2 = rooted_fold [OF rooted_passes(2) r(2) 1]
  note 3 = rooted_fold [OF rooted_mounts r(3) 2]
  note 4 = rooted_fold [OF rooted_passes(3) r(4) 3]
  note 5 = rooted_fold [OF rooted_passes(4) r(5) 4]
  note 6 = rooted_fold [OF rooted_passes(5) r(6) 5]
  note 7 = rooted_fold [OF rooted_seals r(7) 6]
  have mounts: "(\<Union>m \<in> set (g_mounts g). case m of (_, _, s, b) \<Rightarrow> {i. parse_spec s = Inr (SpecOid i)} \<union> set_option b) =
      raw_mounts g \<union> {i. \<exists>n p s. (n, p, s, Some i) \<in> set (g_mounts g)}"
    unfolding raw_mounts_def by (auto split: prod.splits)
  have "{} \<union> (\<Union>x \<in> set (g_refs g). {snd (snd x)}) \<union> (\<Union>x \<in> set (g_pins g). {snd x}) \<union>
      (raw_mounts g \<union> {i. \<exists>n p s. (n, p, s, Some i) \<in> set (g_mounts g)}) \<union> (\<Union>x \<in> set (g_overlay g). {snd (snd x)}) \<union>
      (\<Union>x \<in> set (g_observations g). {snd (snd (snd x))}) \<union> (\<Union>x \<in> set (g_landmarks g). {fst x}) \<union>
      (\<Union>x \<in> set (g_seals g). case x of (_, a, b, d) \<Rightarrow> {a, b, d}) = root_oids g"
    unfolding root_oids_def gc_oids_def by (auto simp: case_prod_unfold image_iff)
  then show ?thesis using 7 unfolding mounts by simp
qed

section \<open>The root walk\<close>

text \<open>What a walk has established: everything beyond the set it started from is readable, its edges are scheduled, and
  what is scheduled is reached or still in the queue. \<open>G\<close> bounds what the walk can reach.\<close>

definition walked :: "graph_loader \<Rightarrow> oid set \<Rightarrow> oid set \<Rightarrow> GraphWorkQueue \<Rightarrow> oid set \<Rightarrow> bool" where
  "walked load R0 G q R \<longleftrightarrow> queue_ok q \<and> R0 \<subseteq> R \<and> R \<subseteq> R0 \<union> G \<and> q_scheduled_ids q \<subseteq> G \<and>
    (\<forall>i \<in> R - R0. \<exists>d. load i = Some (Inr d) \<and> ge_id ` set (dg_edges d) \<subseteq> q_scheduled_ids q) \<and>
    (\<forall>i \<in> q_scheduled_ids q. i \<in> R \<or> (\<exists>e \<in> set (q_queue q). ge_id e = i)) \<and> ge_id ` set (q_queue q) \<subseteq> q_scheduled_ids q"

definition closed_under :: "graph_loader \<Rightarrow> oid set \<Rightarrow> bool" where
  "closed_under load G \<longleftrightarrow> (\<forall>i \<in> G. \<forall>d. load i = Some (Inr d) \<longrightarrow> ge_id ` set (dg_edges d) \<subseteq> G)"

lemma walked_skip:
  assumes "walked load R0 G q R" "q_queue q = e # rest" "ge_id e \<in> R"
  shows "walked load R0 G (q\<lparr>q_queue := rest\<rparr>) R"
  using assms by (auto simp: walked_def queue_ok_pop)

lemma scheduled_ids: "queue_ok q \<Longrightarrow> q_scheduled_ids q = fst ` q_scheduled q"
  by (simp add: queue_ok_def)

lemma walked_load:
  assumes inv: "walked load R0 G q R" "q_queue q = e # rest" and G: "closed_under load G"
    and d: "load (ge_id e) = Some (Inr d)" "try_fold schedule (dg_edges d) (q\<lparr>q_queue := rest\<rparr>) = Inr q'"
  shows "walked load R0 G q' (insert (ge_id e) R)"
proof -
  have q: "queue_ok q" using inv(1) by (simp add: walked_def)
  obtain new where n: "queue_ok q'" "q_scheduled q' = q_scheduled q \<union> constraint ` set (dg_edges d)" "q_queue q' = rest @ new"
      "set new \<subseteq> set (dg_edges d)" "q_scheduled q' = q_scheduled q \<union> constraint ` set new"
    using schedules_Inr [OF d(2)] q by (auto simp: queue_ok_pop)
  have ids: "q_scheduled_ids q' = q_scheduled_ids q \<union> ge_id ` set (dg_edges d)" "q_scheduled_ids q' = q_scheduled_ids q \<union> ge_id ` set new"
    unfolding scheduled_ids [OF n(1)] scheduled_ids [OF q] by (simp add: n(2) image_Un image_image constraint_def, simp add: n(5) image_Un image_image constraint_def)
  have e: "ge_id e \<in> q_scheduled_ids q" "ge_id e \<in> G" using inv by (auto simp: walked_def)
  then have sub: "ge_id ` set (dg_edges d) \<subseteq> G" using G d(1) by (auto simp: closed_under_def)
  have edges: "\<exists>d. load i = Some (Inr d) \<and> ge_id ` set (dg_edges d) \<subseteq> q_scheduled_ids q'" if i: "i \<in> insert (ge_id e) R - R0" for i
  proof (cases "i = ge_id e")
    case False
    have "\<forall>i \<in> R - R0. \<exists>d. load i = Some (Inr d) \<and> ge_id ` set (dg_edges d) \<subseteq> q_scheduled_ids q" using inv(1) by (simp add: walked_def)
    then obtain d' where "load i = Some (Inr d')" "ge_id ` set (dg_edges d') \<subseteq> q_scheduled_ids q" using i False by blast
    then show ?thesis using ids(1) by blast
  qed (use d(1) ids(1) in auto)
  have pend: "i \<in> insert (ge_id e) R \<or> (\<exists>x \<in> set (q_queue q'). ge_id x = i)" if i: "i \<in> q_scheduled_ids q'" for i
  proof (cases "i \<in> q_scheduled_ids q")
    case True
    then have "i \<in> R \<or> (\<exists>x \<in> set (e # rest). ge_id x = i)" using inv by (auto simp: walked_def)
    then show ?thesis using n(3) by auto
  next
    case False
    then obtain x where "x \<in> set new" "ge_id x = i" using i ids(2) by blast
    then show ?thesis using n(3) by auto
  qed
  have old: "R0 \<subseteq> R" "R \<subseteq> R0 \<union> G" "q_scheduled_ids q \<subseteq> G" "ge_id ` set (e # rest) \<subseteq> q_scheduled_ids q"
    using inv by (simp_all add: walked_def)
  have "ge_id ` set (q_queue q') \<subseteq> q_scheduled_ids q'" using old(4) n(3) ids(2) by auto
  moreover have "q_scheduled_ids q' \<subseteq> G" using old(3) sub ids(1) by simp
  moreover have "R0 \<subseteq> insert (ge_id e) R" "insert (ge_id e) R \<subseteq> R0 \<union> G" using old(1,2) e(2) by auto
  ultimately show ?thesis unfolding walked_def using n(1) edges pend by (intro conjI ballI) assumption+
qed

lemma gc_walk_Inr:
  assumes "gc_walk load q R = Some z" "walked load R0 G q R" "closed_under load G"
  shows "case z of Inl _ \<Rightarrow> True | Inr R' \<Rightarrow> R0 \<subseteq> R' \<and> R' \<subseteq> R0 \<union> G \<and> q_scheduled_ids q \<subseteq> R' \<and>
    (\<forall>i \<in> R' - R0. \<exists>d. load i = Some (Inr d) \<and> ge_id ` set (dg_edges d) \<subseteq> R')"
  using assms
proof (induction rule: gc_walk.raw_induct [rotated 1, consumes 1, case_names step])
  case (step walk load q R z)
  note 1 = step.IH step.hyps step.prems
  show ?case
  proof (cases "q_queue q")
    case Nil
    then have "z = Inr R" using 1(2) by simp
    moreover have "q_scheduled_ids q \<subseteq> R" using 1(3) Nil by (auto simp: walked_def)
    moreover have "\<forall>i \<in> R - R0. \<exists>d. load i = Some (Inr d) \<and> ge_id ` set (dg_edges d) \<subseteq> q_scheduled_ids q" "R0 \<subseteq> R" "R \<subseteq> R0 \<union> G"
      using 1(3) by (simp_all add: walked_def)
    ultimately show ?thesis by simp (meson subset_trans)
  next
    case (Cons e rest)
    show ?thesis
    proof (cases "ge_id e \<in> R")
      case True
      then have "walk load (q\<lparr>q_queue := rest\<rparr>) R = Some z" using 1(2) Cons by simp
      from 1(1) [OF this walked_skip [OF 1(3) Cons True] 1(4)] show ?thesis by (cases z) simp_all
    next
      case False
      obtain x where x: "load (ge_id e) = Some x" using 1(2) Cons False by (auto simp: Option.bind_eq_Some_conv)
      show ?thesis
      proof (cases x)
        case (Inr d)
        show ?thesis
        proof (cases "try_fold schedule (dg_edges d) (q\<lparr>q_queue := rest\<rparr>)")
          case (Inr q')
          have inv: "walked load R0 G q' (insert (ge_id e) R)" by (rule walked_load [OF 1(3) Cons 1(4) _ Inr]) (simp add: x \<open>x = Inr d\<close>)
          have "walk load q' (insert (ge_id e) R) = Some z" using 1(2) Cons False x \<open>x = Inr d\<close> Inr by simp
          note ih = 1(1) [OF this inv 1(4)]
          have "q_scheduled_ids q \<subseteq> q_scheduled_ids q'"
            using schedules_Inr [OF Inr] 1(3) by (auto simp: walked_def queue_ok_pop scheduled_ids)
          then show ?thesis using ih by (auto split: sum.splits)
        qed (use 1(2) Cons False x Inr in auto)
      qed (use 1(2) Cons False x in auto)
    qed
  qed
qed

lemma closed_underD: "closed_under load G \<Longrightarrow> i \<in> G \<Longrightarrow> load i = Some (Inr d) \<Longrightarrow> e \<in> set (dg_edges d) \<Longrightarrow> ge_id e \<in> G"
  unfolding closed_under_def by blast

lemma closed_underI: "(\<And>i d e. i \<in> G \<Longrightarrow> load i = Some (Inr d) \<Longrightarrow> e \<in> set (dg_edges d) \<Longrightarrow> ge_id e \<in> G) \<Longrightarrow> closed_under load G"
  unfolding closed_under_def by blast

lemma closed_Un: "closed_under load A \<Longrightarrow> closed_under load B \<Longrightarrow> closed_under load (A \<union> B)"
  by (rule closed_underI) (auto dest: closed_underD)

lemma closed_reach: "closed_under load (reach (edge_to load) S)"
proof (rule closed_underI)
  fix i d e
  assume "i \<in> reach (edge_to load) S" "load i = Some (Inr d)" "e \<in> set (dg_edges d)"
  moreover from this have "edge_to load i (ge_id e)" by (auto simp: edge_to_def graph_edge_def)
  ultimately show "ge_id e \<in> reach (edge_to load) S" unfolding reach_def by (auto intro: rtranclp.rtrancl_into_rtrancl)
qed

lemma reach_closed: "closed_under load R \<Longrightarrow> S \<subseteq> R \<Longrightarrow> reach (edge_to load) S \<subseteq> R"
  by (rule reach_least) (auto simp: edge_to_def graph_edge_def dest: closed_underD)

lemma reach_self: "S \<subseteq> reach E S"
  by (auto simp: reach_def)

lemma closure_Inr:
  assumes "reachable_closure load n g R0 = Some (Inr (k, R))"
  shows "R0 \<subseteq> R" "root_oids g \<subseteq> R" "R \<subseteq> R0 \<union> reach (edge_to load) (root_oids g)"
    "i \<in> R - R0 \<Longrightarrow> \<exists>d. load i = Some (Inr d) \<and> ge_id ` set (dg_edges d) \<subseteq> R"
proof -
  obtain q where q: "schedule_catalog_roots g (no_counts, with_limit n) = Inr (k, q)" "gc_walk load q R0 = Some (Inr R)"
    using assms by (auto simp: reachable_closure_def map_sum_Inr split: sum.splits prod.splits)
  let ?G = "reach (edge_to load) (root_oids g)"
  have r: "rooted n (root_oids g) q" by (rule roots_scheduled [OF q(1)])
  have ids: "q_scheduled_ids q = root_oids g" "queue_ok q" "\<forall>c \<in> q_scheduled q. \<exists>e \<in> set (q_queue q). ge_id e = fst c"
      "ge_id ` set (q_queue q) \<subseteq> root_oids g"
    using r by (simp_all add: rooted_def)
  have "root_oids g = fst ` q_scheduled q" using scheduled_ids [OF ids(2)] ids(1) by simp
  then have "\<forall>i \<in> root_oids g. \<exists>e \<in> set (q_queue q). ge_id e = i" using ids(3) by auto
  then have "walked load R0 ?G q R0" using ids reach_self [of "root_oids g"] by (simp add: walked_def)
  from gc_walk_Inr [OF q(2) this closed_reach] show "R0 \<subseteq> R" "root_oids g \<subseteq> R" "R \<subseteq> R0 \<union> ?G"
    "i \<in> R - R0 \<Longrightarrow> \<exists>d. load i = Some (Inr d) \<and> ge_id ` set (dg_edges d) \<subseteq> R"
    by (auto simp: ids(1))
qed

section \<open>The walk out of the survivors\<close>

lemma push_edges:
  "snd (fold push_edge es (stack, seen)) = seen \<union> ge_id ` set es"
  "set (fst (fold push_edge es (stack, seen))) = set stack \<union> (ge_id ` set es - seen)"
  by (induction es arbitrary: stack seen) (auto simp: push_edge_def)

lemma protect_loop_covers:
  assumes "protect_loop load stack seen R = Some R'" "set stack \<subseteq> seen"
    and "\<forall>i \<in> seen - set stack. i \<in> R \<and> (\<forall>d. load i = Some (Inr d) \<longrightarrow> ge_id ` set (dg_edges d) \<subseteq> seen)"
  shows "\<exists>C. seen \<subseteq> C \<and> closed_under load C \<and> R' = R \<union> C"
  using assms
proof (induction rule: protect_loop.raw_induct [rotated 1, consumes 1, case_names step])
  case (step loop load stack seen R R')
  show ?case
  proof (cases stack)
    case Nil
    then have "closed_under load seen" "R' = R \<union> seen" using step.hyps step.prems by (auto simp: closed_under_def)
    then show ?thesis by blast
  next
    case (Cons i rest)
    then obtain x where x: "load i = Some x" using step.hyps by (auto simp: Option.bind_eq_Some_conv)
    show ?thesis
    proof (cases x)
      case (Inl e)
      have run: "loop load rest seen (insert i R) = Some R'" using step.hyps Cons x Inl by simp
      have "j \<in> insert i R \<and> (\<forall>d. load j = Some (Inr d) \<longrightarrow> ge_id ` set (dg_edges d) \<subseteq> seen)" if "j \<in> seen - set rest" for j
        using bspec [OF step.prems(2), of j] that Cons x Inl by (cases "j = i") auto
      then have inv: "set rest \<subseteq> seen" "\<forall>j \<in> seen - set rest. j \<in> insert i R \<and> (\<forall>d. load j = Some (Inr d) \<longrightarrow> ge_id ` set (dg_edges d) \<subseteq> seen)"
        using step.prems(1) Cons by auto
      show ?thesis using step.IH [OF run inv] step.prems(1) Cons by auto
    next
      case (Inr d)
      let ?p = "fold push_edge (dg_edges d) (rest, seen)"
      have run: "loop load (fst ?p) (snd ?p) (insert i R) = Some R'" using step.hyps Cons x Inr by simp
      have sub: "set (fst ?p) \<subseteq> snd ?p" using step.prems(1) Cons by (auto simp: push_edges)
      have inv: "\<forall>j \<in> snd ?p - set (fst ?p). j \<in> insert i R \<and> (\<forall>d. load j = Some (Inr d) \<longrightarrow> ge_id ` set (dg_edges d) \<subseteq> snd ?p)"
      proof
        fix j
        assume j: "j \<in> snd ?p - set (fst ?p)"
        show "j \<in> insert i R \<and> (\<forall>d. load j = Some (Inr d) \<longrightarrow> ge_id ` set (dg_edges d) \<subseteq> snd ?p)"
        proof (cases "j = i")
          case False
          then have "j \<in> seen - set stack" using j Cons by (auto simp: push_edges)
          from bspec [OF step.prems(2) this] show ?thesis by (auto simp: push_edges)
        qed (simp add: x Inr push_edges)
      qed
      obtain C where "snd ?p \<subseteq> C" "closed_under load C" "R' = insert i R \<union> C" using step.IH [OF run sub inv] by blast
      then show ?thesis using step.prems(1) Cons by (intro exI [of _ C]) (auto simp: push_edges)
    qed
  qed
qed

lemma protect_covers:
  assumes "protect_from_survivors load survivors R = Some P" "closed_under load R"
  shows "closed_under load P" "R \<subseteq> P" "so_id ` set survivors \<subseteq> P"
proof -
  let ?xs = "map so_id (filter (\<lambda>s. so_id s \<notin> R) survivors)"
  have "\<exists>C. set ?xs \<subseteq> C \<and> closed_under load C \<and> P = R \<union> C"
    by (rule protect_loop_covers) (use assms(1) in \<open>auto simp: protect_from_survivors_def Let_def\<close>)
  then obtain C where "set ?xs \<subseteq> C" "closed_under load C" "P = R \<union> C" by blast
  then show "closed_under load P" "R \<subseteq> P" "so_id ` set survivors \<subseteq> P" using closed_Un [OF assms(2)] by auto
qed

section \<open>Choosing and unlinking\<close>

lemma choose_doomed:
  assumes "(s, len) \<in> set (ch_doomed (fold (choose_step m t dir R) xs c))"
  shows "(s, len) \<in> set (ch_doomed c) \<or> s \<in> set xs \<and> so_id s \<notin> R \<and> (\<exists>mt. fs_metadata (so_path s) dir = Some (len, mt) \<and> m \<le> file_age t mt)"
  using assms
proof (induction xs arbitrary: c)
  case (Cons x xs)
  from Cons.IH [of "choose_step m t dir R x c"] Cons.prems consider
    "(s, len) \<in> set (ch_doomed (choose_step m t dir R x c))"
    | "s \<in> set xs" "so_id s \<notin> R" "\<exists>mt. fs_metadata (so_path s) dir = Some (len, mt) \<and> m \<le> file_age t mt" by auto
  then show ?case
    by cases (auto simp: choose_step_def Let_def split: if_split_asm option.splits prod.splits)
qed simp

lemma choose_kept:
  "set (ch_doomed c) \<subseteq> set (ch_doomed (fold (choose_step m t dir R) xs c))" "set (ch_spared c) \<subseteq> set (ch_spared (fold (choose_step m t dir R) xs c))"
proof -
  have step: "set (ch_doomed c) \<subseteq> set (ch_doomed (choose_step m t dir R x c))" "set (ch_spared c) \<subseteq> set (ch_spared (choose_step m t dir R x c))" for x c
    by (auto simp: choose_step_def Let_def split: option.splits)
  show "set (ch_doomed c) \<subseteq> set (ch_doomed (fold (choose_step m t dir R) xs c))" "set (ch_spared c) \<subseteq> set (ch_spared (fold (choose_step m t dir R) xs c))"
    by (induction xs arbitrary: c) (use step in force)+
qed

lemma choose_covers:
  assumes "s \<in> set xs" "so_id s \<notin> R" "fs_metadata (so_path s) dir = Some x"
  shows "s \<in> set (ch_spared (fold (choose_step m t dir R) xs c)) \<or> s \<in> fst ` set (ch_doomed (fold (choose_step m t dir R) xs c))"
  using assms(1)
proof (induction xs arbitrary: c)
  case (Cons y ys)
  show ?case
  proof (cases "s \<in> set ys")
    case True
    then show ?thesis using Cons.IH [of "choose_step m t dir R y c"] by simp
  next
    case False
    then have "y = s" using Cons.prems by auto
    then have "s \<in> set (ch_spared (choose_step m t dir R y c)) \<or> s \<in> fst ` set (ch_doomed (choose_step m t dir R y c))"
      using assms(2,3) by (cases x) (auto simp: choose_step_def Let_def)
    then show ?thesis using choose_kept [of "choose_step m t dir R y c" m t dir R ys] by auto
  qed
qed simp

lemma choose_bounded:
  "length (ch_doomed c) \<le> GC_COLLECT_BATCH_LIMIT \<Longrightarrow> length (ch_doomed (fold (choose_step m t dir R) xs c)) \<le> GC_COLLECT_BATCH_LIMIT"
proof (induction xs arbitrary: c)
  case (Cons x xs)
  then have "length (ch_doomed (choose_step m t dir R x c)) \<le> GC_COLLECT_BATCH_LIMIT"
    by (auto simp: choose_step_def Let_def split: option.splits)
  then show ?case using Cons.IH by simp
qed simp

definition taken :: "oid set \<Rightarrow> (ScannedObject \<times> nat) list \<Rightarrow> oid set" where
  "taken P ds = {so_id s | s len. (s, len) \<in> set ds \<and> so_id s \<notin> P \<and> so_path s = object_path (so_id s)}"

text \<open>What differs after some of the doomed objects were unlinked: the objects \<open>gone\<close>, and introductions.\<close>

definition swept :: "oid set \<Rightarrow> GcWorld \<Rightarrow> GcWorld \<Rightarrow> bool" where
  "swept gone g g' \<longleftrightarrow> visible (objects (gw_forge g')) = (\<lambda>j. if j \<in> gone then None else visible (objects (gw_forge g)) j) \<and>
    (f_meta (gw_forge g'))\<lparr>object_intro := []\<rparr> = (f_meta (gw_forge g))\<lparr>object_intro := []\<rparr>"

lemma swept_refl: "swept {} g g"
  by (simp add: swept_def)

lemma swept_trans: "swept A g g1 \<Longrightarrow> swept B g1 g2 \<Longrightarrow> swept (A \<union> B) g g2"
  by (auto simp: swept_def)

lemma sweep_step_swept:
  assumes "sweep_step S P (s, len) a g = Some (z, g')"
  shows "(case z of Inr _ \<Rightarrow> swept (taken P [(s, len)]) g g' | Inl _ \<Rightarrow> swept {} g g')"
  using assms by (cases a) (auto simp: sweep_step_def Let_def taken_def swept_def unlink_object_def forget_object_def fun_eq_iff split: if_split_asm)

lemma sweep_fold:
  assumes "act_fold (sweep_step S P) ds a g = Some (z, g')"
  shows "\<exists>gone. swept gone g g' \<and> gone \<subseteq> taken P ds \<and> (is_ok z \<longrightarrow> gone = taken P ds)"
  using assms
proof (induction ds arbitrary: a g)
  case Nil
  then show ?case using swept_refl by (auto simp: taken_def)
next
  case (Cons d ds)
  obtain s len where d: "d = (s, len)" by (cases d)
  have un: "taken P (d # ds) = taken P [(s, len)] \<union> taken P ds" by (auto simp: taken_def d)
  from Cons.prems consider (Inl) e where "sweep_step S P d a g = Some (Inl e, g')" "z = Inl e"
    | (Inr) b g1 where "sweep_step S P d a g = Some (Inr b, g1)" "act_fold (sweep_step S P) ds b g1 = Some (z, g')"
    by (auto simp: act_bind_Some)
  then show ?case
  proof cases
    case Inl
    then show ?thesis using sweep_step_swept [of S P s len a g "Inl e" g'] d by auto
  next
    case Inr
    then have "swept (taken P [(s, len)]) g g1" using sweep_step_swept [of S P s len a g "Inr b" g1] d by simp
    moreover obtain gone where "swept gone g1 g'" "gone \<subseteq> taken P ds" "is_ok z \<longrightarrow> gone = taken P ds" using Cons.IH [OF Inr(2)] by blast
    ultimately show ?thesis using swept_trans unfolding un by (intro exI [of _ "taken P [(s, len)] \<union> gone"]) auto
  qed
qed

section \<open>Nothing live is taken\<close>

text \<open>Everything the roots of a catalog reach.\<close>

definition live_objects :: "(bytes \<Rightarrow> oid) \<Rightarrow> MemoryObjectStore \<Rightarrow> Catalog \<Rightarrow> oid set" where
  "live_objects H st c = (\<Union>r \<in> root_oids (gc_roots c). object_graph H st r)"

lemma live_reach: "live_objects H st c = reach (edge_to (load_graph_object H st)) (root_oids (gc_roots c))"
  by (auto simp: live_objects_def object_graph_def graph_of_def reach_def)

lemma same_object:
  assumes "inj_on H (ran (visible st) \<union> ran (visible st'))" "load_graph_object H st i = Some (Inr d)" "load_graph_object H st' i = Some (Inr d')"
  shows "d' = d"
proof -
  obtain a b where a: "store_get H i st = Inr a" "decode_graph_object i a = Some (Inr d)" and b: "store_get H i st' = Inr b" "decode_graph_object i b = Some (Inr d')"
    using assms(2,3) by (auto simp: load_graph_object_def split: sum.splits)
  then have "visible st i = Some a" "visible st' i = Some b" "H a = H b" by (auto simp: store_get_Inr)
  then have "a = b" using inj_onD [OF assms(1), of a b] by (auto simp: ran_def)
  then show ?thesis using a b by simp
qed

text \<open>The root set of both passes together is closed under the edges of the store the sweep sees.\<close>

lemma two_passes_closed:
  assumes "reachable_closure (load_graph_object H st) n g {} = Some (Inr (k, R))"
    and "reachable_closure (load_graph_object H st') n' g' R = Some (Inr (k', R'))" "inj_on H (ran (visible st) \<union> ran (visible st'))"
  shows "closed_under (load_graph_object H st') R'"
proof (rule closed_underI)
  fix i d e
  assume i: "i \<in> R'" and d: "load_graph_object H st' i = Some (Inr d)" "e \<in> set (dg_edges d)"
  note 1 = closure_Inr [OF assms(1)] and 2 = closure_Inr [OF assms(2)]
  show "ge_id e \<in> R'"
  proof (cases "i \<in> R")
    case True
    then obtain d0 where d0: "load_graph_object H st i = Some (Inr d0)" "ge_id ` set (dg_edges d0) \<subseteq> R" using 1(4) [of i] by auto
    have "d = d0" by (rule same_object [OF assms(3) d0(1) d(1)])
    then show ?thesis using d0(2) d(2) 2(1) by auto
  next
    case False
    then show ?thesis using 2(4) [of i] i d by auto
  qed
qed

text \<open>The choice of one sweep.\<close>

definition sweep_choice :: "SweepEnv \<Rightarrow> nat \<Rightarrow> nat \<times> ScannedObject list \<Rightarrow> oid set \<Rightarrow> GcWorld \<Rightarrow> GcRootCounts \<Rightarrow> oid set \<Rightarrow> Choice" where
  "sweep_choice S secs scan reached g k R =
    fold (choose_step (nanos secs) (sw_sweep_time S) (gw_dir g) R) (filter (\<lambda>s. so_id s \<notin> reached) (snd scan))
      \<lparr>ch_report = new_report False secs k R scan, ch_doomed = [], ch_spared = []\<rparr>"

lemma sweep_body_Some:
  assumes "sweep_body E limit S secs scan reached g = Some (z, g1)"
  obtains "g1 = g" "\<not> is_ok z"
  | k R P z1 where "reachable_closure (load_graph_object (env_hash E) (objects (gw_forge g))) limit (gc_roots (f_meta (gw_forge g))) reached = Some (Inr (k, R))"
    "protect_from_survivors (load_graph_object (env_hash E) (objects (gw_forge g))) (ch_spared (sweep_choice S secs scan reached g k R)) R = Some P"
    "act_fold (sweep_step S P) (ch_doomed (sweep_choice S secs scan reached g k R)) (ch_report (sweep_choice S secs scan reached g k R), []) g = Some (z1, g1)"
    "is_ok z1 = is_ok z" "\<forall>r sample. z1 = Inr (r, sample) \<longrightarrow> z = Inr (with_sample sample r)"
  using assms unfolding sweep_body_def gc_roots_def
  by (auto simp: act_bind_Some sweep_choice_def split: option.splits)

lemma swept_count [simp]: "swept gone g (count_gc r g') = swept gone g g'"
  by (simp add: swept_def count_gc_def Let_def)

text \<open>One collection, from its two passes to what it took; an error before the sweep leaves everything as it was.\<close>

lemma sweep_txn_Some:
  assumes "sweep_txn commit body g = Some (r, g')" "\<not> Catalog.read_only (f_meta (gw_forge g))"
  shows "\<exists>r1 g1. body g = Some (r1, g1) \<and> (is_ok r \<longrightarrow> is_ok r1) \<and> (\<forall>x. r = Inr x \<longrightarrow> r1 = Inr x) \<and>
    g' = (case r of Inr _ \<Rightarrow> g1 | Inl _ \<Rightarrow> g1\<lparr>gw_forge := (gw_forge g1)\<lparr>f_meta := f_meta (gw_forge g)\<rparr>\<rparr>)"
proof -
  obtain r1 g1 where b: "body g = Some (r1, g1)" using assms by (auto simp: sweep_txn_def)
  then show ?thesis using assms by (cases r1; cases commit) (auto simp: sweep_txn_def Let_def is_ok_def)
qed

lemma sweep_txn_Inr: "sweep_txn commit body g = Some (Inr x, g') \<Longrightarrow> body g = Some (Inr x, g')"
  by (cases commit) (auto simp: sweep_txn_def Let_def and_then_Inr_iff split: if_split_asm sum.splits)

lemma collect_run:
  assumes "forge_gc_collect E limit S now cap secs g = Some (z, g')"
  obtains "g' = g" "\<not> is_ok z"
  | "swept {} (sw_others S g) g'" "\<not> is_ok z"
  | k0 R0 k R P gone where "GC_COLLECT_MIN_AGE_FLOOR \<le> secs" "gc_authority E now cap [Op.Read, Op.Write] (gw_forge g) = Inr ()"
    "reachable_closure (load_graph_object (env_hash E) (objects (gw_forge g))) limit (gc_roots (f_meta (gw_forge g))) {} = Some (Inr (k0, R0))"
    "reachable_closure (load_graph_object (env_hash E) (objects (gw_forge (sw_others S g)))) limit (gc_roots (f_meta (gw_forge (sw_others S g)))) R0 = Some (Inr (k, R))"
    "protect_from_survivors (load_graph_object (env_hash E) (objects (gw_forge (sw_others S g))))
      (ch_spared (sweep_choice S secs (scan_objects (sw_scan_time S) (gw_dir g)) R0 (sw_others S g) k R)) R = Some P"
    "swept gone (sw_others S g) g'" "gone \<subseteq> taken P (ch_doomed (sweep_choice S secs (scan_objects (sw_scan_time S) (gw_dir g)) R0 (sw_others S g) k R))"
    "is_ok z \<longrightarrow> gone = taken P (ch_doomed (sweep_choice S secs (scan_objects (sw_scan_time S) (gw_dir g)) R0 (sw_others S g) k R))"
proof -
  let ?scan = "scan_objects (sw_scan_time S) (gw_dir g)" and ?g1 = "sw_others S g"
  consider "g' = g" "\<not> is_ok z"
    | k0 R0 z1 g2 where "GC_COLLECT_MIN_AGE_FLOOR \<le> secs" "gc_authority E now cap [Op.Read, Op.Write] (gw_forge g) = Inr ()"
      "reachable_closure (load_graph_object (env_hash E) (objects (gw_forge g))) limit (gc_roots (f_meta (gw_forge g))) {} = Some (Inr (k0, R0))"
      "sweep_txn (sw_commit S) (sweep_body E limit S secs ?scan R0) ?g1 = Some (z1, g2)" "is_ok z1 = is_ok z" "\<forall>gone. swept gone ?g1 g' = swept gone ?g1 g2"
    using assms by (auto simp: forge_gc_collect_def act_bind_Some split: if_split_asm)
  then show thesis
  proof cases
    case 1
    then show ?thesis by (rule that(1))
  next
    case (2 k0 R0 z1 g2)
    show ?thesis
    proof (cases "Catalog.read_only (f_meta (gw_forge ?g1))")
      case True
      then show ?thesis using 2(4,5,6) swept_refl by (intro that(2)) (auto simp: sweep_txn_def)
    next
      case False
      then obtain z3 g3 where body: "sweep_body E limit S secs ?scan R0 ?g1 = Some (z3, g3)" and z3: "is_ok z1 \<longrightarrow> is_ok z3"
        and g2: "g2 = (case z1 of Inr _ \<Rightarrow> g3 | Inl _ \<Rightarrow> g3\<lparr>gw_forge := (gw_forge g3)\<lparr>f_meta := f_meta (gw_forge ?g1)\<rparr>\<rparr>)"
        using sweep_txn_Some [OF 2(4)] by blast
      have rest: "swept gone ?g1 g'" if "swept gone ?g1 g3" for gone using that g2 2(6) by (auto simp: swept_def split: sum.splits)
      from body show ?thesis
      proof (cases rule: sweep_body_Some)
        case 1
        then show ?thesis using rest swept_refl z3 \<open>is_ok z1 = is_ok z\<close> by (intro that(2)) simp_all
      next
        case (2 k R P z2)
        then show ?thesis using sweep_fold [OF 2(3)] that(3) rest z3 \<open>is_ok z1 = is_ok z\<close> \<open>GC_COLLECT_MIN_AGE_FLOOR \<le> secs\<close>
            \<open>gc_authority E now cap [Op.Read, Op.Write] (gw_forge g) = Inr ()\<close>
            \<open>reachable_closure (load_graph_object (env_hash E) (objects (gw_forge g))) limit (gc_roots (f_meta (gw_forge g))) {} = Some (Inr (k0, R0))\<close>
          by blast
      qed
    qed
  qed
qed

text \<open>
  C3: A collection never takes live bytes. Whatever other processes publish between its unlocked pass and its write
  transaction, and whether it succeeds or stops half way, every object that the refs, pins, mounts, overlays, observations, landmarks
  and seals of the catalog reach at that point is still there when it ends, and no row of the catalog but introductions has changed.
\<close>

theorem gc_keeps_live:
  assumes "forge_gc_collect E limit S now cap secs g = Some (z, g')"
    and "inj_on (env_hash E) (ran (visible (objects (gw_forge g))) \<union> ran (visible (objects (gw_forge (sw_others S g)))))"
  shows "g' = g \<or> (\<forall>j \<in> live_objects (env_hash E) (objects (gw_forge (sw_others S g))) (f_meta (gw_forge (sw_others S g))).
      visible (objects (gw_forge g')) j = visible (objects (gw_forge (sw_others S g))) j) \<and>
    (f_meta (gw_forge g'))\<lparr>object_intro := []\<rparr> = (f_meta (gw_forge (sw_others S g)))\<lparr>object_intro := []\<rparr>"
  using assms(1)
proof (cases rule: collect_run)
  case (3 k0 R0 k R P gone)
  let ?load = "load_graph_object (env_hash E) (objects (gw_forge (sw_others S g)))"
  have closed: "closed_under ?load R" by (rule two_passes_closed [OF 3(3,4) assms(2)])
  then have "live_objects (env_hash E) (objects (gw_forge (sw_others S g))) (f_meta (gw_forge (sw_others S g))) \<subseteq> P"
    unfolding live_reach using reach_closed [OF closed] closure_Inr(2) [OF 3(4)] protect_covers(2) [OF 3(5) closed] by blast
  then show ?thesis using 3(6,7) by (auto simp: swept_def taken_def)
qed (auto simp: swept_def)

text \<open>
  C21: What a finished collection has taken is cold garbage. Each object it unlinked was found by its scan, is reached by no
  root, and was at least the requested age, one minute or more, when it was looked at under the lock; and a scanned object that is
  still there afterwards still has everything it reaches, so that no survivor is left with a missing child.
\<close>

theorem gc_takes_cold_garbage:
  assumes "forge_gc_collect E limit S now cap secs g = Some (Inr r, g')"
    and "inj_on (env_hash E) (ran (visible (objects (gw_forge g))) \<union> ran (visible (objects (gw_forge (sw_others S g)))))"
    and "g1 = sw_others S g" "scan = scan_objects (sw_scan_time S) (gw_dir g)"
  shows "(\<forall>j. visible (objects (gw_forge g1)) j \<noteq> None \<and> visible (objects (gw_forge g')) j = None \<longrightarrow> 60 \<le> secs \<and>
      j \<in> so_id ` set (snd scan) \<and> j \<notin> live_objects (env_hash E) (objects (gw_forge g1)) (f_meta (gw_forge g1)) \<and>
      (\<exists>len modified. fs_metadata (object_path j) (gw_dir g1) = Some (len, modified) \<and> nanos secs \<le> file_age (sw_sweep_time S) modified)) \<and>
    (\<forall>s \<in> set (snd scan). so_path s = object_path (so_id s) \<and> fs_metadata (so_path s) (gw_dir g1) \<noteq> None \<and>
      visible (objects (gw_forge g')) (so_id s) \<noteq> None \<longrightarrow>
      (\<forall>j \<in> object_graph (env_hash E) (objects (gw_forge g1)) (so_id s). visible (objects (gw_forge g')) j = visible (objects (gw_forge g1)) j))"
  using assms(1)
proof (cases rule: collect_run)
  case (3 k0 R0 k R P gone)
  let ?load = "load_graph_object (env_hash E) (objects (gw_forge g1))" and ?c = "sweep_choice S secs scan R0 g1 k R"
  note run = 3 [folded assms(3) assms(4)]
  have closed: "closed_under ?load R" using two_passes_closed [OF 3(3,4) assms(2)] by (simp add: assms(3))
  note P = protect_covers [OF run(5) closed]
  have roots: "root_oids (gc_roots (f_meta (gw_forge g1))) \<subseteq> P" using closure_Inr(2) [OF run(4)] P(2) by blast
  have live: "live_objects (env_hash E) (objects (gw_forge g1)) (f_meta (gw_forge g1)) \<subseteq> P"
    unfolding live_reach by (rule reach_closed [OF P(1) roots])
  have gone: "gone = taken P (ch_doomed ?c)" using run(8) by simp
  have vis: "visible (objects (gw_forge g')) = (\<lambda>j. if j \<in> gone then None else visible (objects (gw_forge g1)) j)" using run(6) by (simp add: swept_def)
  show ?thesis
  proof (intro conjI allI ballI impI)
    fix j
    assume "visible (objects (gw_forge g1)) j \<noteq> None \<and> visible (objects (gw_forge g')) j = None"
    then have "j \<in> gone" using vis by (auto split: if_split_asm)
    then obtain s len where s: "(s, len) \<in> set (ch_doomed ?c)" "so_id s = j" "j \<notin> P" "so_path s = object_path j" by (auto simp: gone taken_def)
    obtain mt where mt: "s \<in> set (snd scan)" "fs_metadata (so_path s) (gw_dir g1) = Some (len, mt)" "nanos secs \<le> file_age (sw_sweep_time S) mt"
      using choose_doomed [OF s(1) [unfolded sweep_choice_def]] by auto
    show "60 \<le> secs" using run(1) by (simp add: GC_COLLECT_MIN_AGE_FLOOR_def)
    show "j \<in> so_id ` set (snd scan)" using mt(1) s(2) by auto
    show "j \<notin> live_objects (env_hash E) (objects (gw_forge g1)) (f_meta (gw_forge g1))" using live s(3) by blast
    show "\<exists>len modified. fs_metadata (object_path j) (gw_dir g1) = Some (len, modified) \<and> nanos secs \<le> file_age (sw_sweep_time S) modified"
      using mt(2,3) s(4) by auto
  next
    fix s j
    assume s: "s \<in> set (snd scan)" "so_path s = object_path (so_id s) \<and> fs_metadata (so_path s) (gw_dir g1) \<noteq> None \<and> visible (objects (gw_forge g')) (so_id s) \<noteq> None"
      and j: "j \<in> object_graph (env_hash E) (objects (gw_forge g1)) (so_id s)"
    have "so_id s \<in> P"
    proof (rule ccontr)
      assume no: "so_id s \<notin> P"
      then have "so_id s \<notin> R" "so_id s \<notin> R0" using P(2) closure_Inr(1) [OF run(4)] by auto
      moreover obtain x where "fs_metadata (so_path s) (gw_dir g1) = Some x" using s(2) by blast
      ultimately have "s \<in> set (ch_spared ?c) \<or> s \<in> fst ` set (ch_doomed ?c)"
        unfolding sweep_choice_def using s(1) by (intro choose_covers) auto
      then have "so_id s \<in> gone" using no P(3) s(2) by (force simp: gone taken_def)
      then show False using s(2) vis by simp
    qed
    then have "j \<in> P" using j reach_closed [OF P(1), of "{so_id s}"] by (auto simp: object_graph_def graph_of_def)
    then have "j \<notin> gone" by (auto simp: gone taken_def)
    then show "visible (objects (gw_forge g')) j = visible (objects (gw_forge g1)) j" using vis by simp
  qed
qed simp_all

section \<open>The plan and the sweep agree\<close>

lemma closure_exact:
  assumes "reachable_closure (load_graph_object H st) n (gc_roots c) {} = Some (Inr (k, R))"
  shows "R = live_objects H st c"
proof -
  note 1 = closure_Inr [OF assms]
  have "closed_under (load_graph_object H st) R"
  proof (rule closed_underI)
    fix i d e
    assume "i \<in> R" "load_graph_object H st i = Some (Inr d)" "e \<in> set (dg_edges d)"
    then show "ge_id e \<in> R" using 1(4) [of i] by auto
  qed
  from reach_closed [OF this 1(2)] 1(3) show ?thesis unfolding live_reach by auto
qed

lemma closure_again:
  assumes "reachable_closure load n g {} = Some (Inr (k, R))" "reachable_closure load n g R = Some (Inr (k', R'))"
  shows "R' = R" "k' = k"
proof -
  note 1 = closure_Inr [OF assms(1)] and 2 = closure_Inr [OF assms(2)]
  have "closed_under load R" by (rule closed_underI) (use 1(4) in fastforce)
  then show "R' = R" using reach_closed [of load R "root_oids g"] 1(2) 2(1,3) by auto
  show "k' = k" using assms by (auto simp: reachable_closure_def map_sum_Inr split: sum.splits)
qed

text \<open>The part of a report the root walk fixes.\<close>

definition head_of :: "GcReport \<Rightarrow> bool \<times> nat \<times> GcRootCounts" where
  "head_of r = (gr_dry_run r, gr_reachable_objects r, gr_roots r)"

lemma head_steps [simp]:
  "head_of (with_sample xs r) = head_of r" "head_of (fst (plan_step m R s a)) = head_of (fst a)"
  "head_of (ch_report (choose_step m t dir R s c)) = head_of (ch_report c)" "head_of (new_report b secs k R scan) = (b, card R, k)"
  by (auto simp: head_of_def with_sample_def plan_step_def withheld_def choose_step_def new_report_def Let_def split: prod.split option.split)

lemma head_plan: "head_of (fst (fold (plan_step m R) xs a)) = head_of (fst a)"
  by (induction xs arbitrary: a) simp_all

lemma head_choice: "head_of (ch_report (fold (choose_step m t dir R) xs c)) = head_of (ch_report c)"
  by (induction xs arbitrary: c) simp_all

lemma head_sweep:
  "act_fold (sweep_step S P) ds (r, sample) g = Some (Inr (r', sample'), g') \<Longrightarrow>
    head_of r' = head_of r \<and> gr_deleted_objects r' \<le> gr_deleted_objects r + length ds"
proof (induction ds arbitrary: r sample g)
  case (Cons d ds)
  obtain s len where d: "d = (s, len)" by (cases d)
  from Cons.prems obtain r1 sample1 g1 where 1: "sweep_step S P d (r, sample) g = Some (Inr (r1, sample1), g1)"
      "act_fold (sweep_step S P) ds (r1, sample1) g1 = Some (Inr (r', sample'), g')"
    by (auto simp: act_bind_Some)
  have "head_of r1 = head_of r \<and> gr_deleted_objects r1 \<le> gr_deleted_objects r + 1"
    using 1(1) by (auto simp: sweep_step_def d Let_def head_of_def split: if_split_asm)
  then show ?case using Cons.IH [OF 1(2)] by simp
qed simp

lemma choice_deletes_nothing: "gr_deleted_objects (ch_report (fold (choose_step m t dir R) xs c)) = gr_deleted_objects (ch_report c)"
proof -
  have "gr_deleted_objects (ch_report (choose_step m t dir R s c)) = gr_deleted_objects (ch_report c)" for s c
    by (auto simp: choose_step_def withheld_def Let_def split: option.split)
  then show ?thesis by (induction xs arbitrary: c) simp_all
qed

lemma plan_deletes_nothing: "gr_deleted_objects (fst (fold (plan_step m R) xs a)) = gr_deleted_objects (fst a)"
proof -
  have "gr_deleted_objects (fst (plan_step m R s a)) = gr_deleted_objects (fst a)" for s a
    by (auto simp: plan_step_def withheld_def split: prod.split)
  then show ?thesis by (induction xs arbitrary: a) simp_all
qed

text \<open>
  C35: The plan and the sweep of one repository agree. The plan changes nothing but the counters of runs; the objects it reports as
  reachable are exactly those the catalog's roots reach; a collection that nothing interferes with reports the same number and the
  same root census; and it unlinks at most one batch.
\<close>

theorem gc_plan_agrees_with_sweep:
  assumes "forge_gc E limit now t cap True secs g = Some (Inr r, g')"
    and "forge_gc_collect E limit S now' cap' secs' g = Some (Inr r', g'')" "sw_others S g = g"
  shows "gw_forge g' = gw_forge g \<and> gw_dir g' = gw_dir g \<and> gr_deleted_objects r = 0 \<and>
    gr_reachable_objects r = card (live_objects (env_hash E) (objects (gw_forge g)) (f_meta (gw_forge g))) \<and>
    gr_reachable_objects r' = gr_reachable_objects r \<and> gr_roots r' = gr_roots r \<and> gr_deleted_objects r' \<le> 4096"
proof -
  let ?load = "load_graph_object (env_hash E) (objects (gw_forge g))" and ?roots = "gc_roots (f_meta (gw_forge g))"
  obtain k R where plan: "reachable_closure ?load limit ?roots {} = Some (Inr (k, R))" "g' = count_gc r g"
      "r = with_sample (snd (fold (plan_step (nanos secs) R) (snd (scan_objects t (gw_dir g))) (new_report True secs k R (scan_objects t (gw_dir g)), [])))
        (fst (fold (plan_step (nanos secs) R) (snd (scan_objects t (gw_dir g))) (new_report True secs k R (scan_objects t (gw_dir g)), [])))"
    using assms(1) by (auto simp: forge_gc_def act_bind_Some Let_def case_prod_unfold)
  have "head_of r = (True, card R, k)" unfolding plan(3) by (simp add: head_plan)
  then have p: "gr_reachable_objects r = card R" "gr_roots r = k" by (simp_all add: head_of_def)
  have "gr_deleted_objects r = 0" unfolding plan(3) by (simp add: with_sample_def plan_deletes_nothing) (simp add: new_report_def)
  moreover obtain k0 R0 g2 where c: "reachable_closure ?load limit ?roots {} = Some (Inr (k0, R0))"
      "sweep_body E limit S secs' (scan_objects (sw_scan_time S) (gw_dir g)) R0 g = Some (Inr r', g2)"
    using assms(2,3) by (auto simp: forge_gc_collect_def act_bind_Some split: if_split_asm dest!: sweep_txn_Inr)
  from c(2) have "head_of r' = (False, card R, k) \<and> gr_deleted_objects r' \<le> 4096"
  proof (cases rule: sweep_body_Some)
    case (2 k' R' P z1)
    have same: "k0 = k" "R0 = R" using c(1) plan(1) by auto
    have R': "R' = R" "k' = k" using closure_again [OF plan(1)] 2(1) same(2) by blast+
    let ?c = "sweep_choice S secs' (scan_objects (sw_scan_time S) (gw_dir g)) R0 g k R"
    obtain r1 sample where z1: "z1 = Inr (r1, sample)" "r' = with_sample sample r1" using 2(4,5) by (cases z1) auto
    have h: "head_of r1 = head_of (ch_report ?c) \<and> gr_deleted_objects r1 \<le> gr_deleted_objects (ch_report ?c) + length (ch_doomed ?c)"
      by (rule head_sweep) (use 2(3) z1(1) R' in simp)
    have "head_of (ch_report ?c) = (False, card R, k)" "gr_deleted_objects (ch_report ?c) = 0"
      by (simp_all add: sweep_choice_def head_choice choice_deletes_nothing) (simp add: new_report_def)
    moreover have "length (ch_doomed ?c) \<le> 4096"
      using choose_bounded [of "\<lparr>ch_report = new_report False secs' k R (scan_objects (sw_scan_time S) (gw_dir g)), ch_doomed = [], ch_spared = []\<rparr>"]
      by (simp add: sweep_choice_def GC_COLLECT_BATCH_LIMIT_def)
    ultimately show ?thesis using h by (simp add: z1(2) with_sample_def head_of_def)
  qed simp
  then have "gr_reachable_objects r' = card R" "gr_roots r' = k" "gr_deleted_objects r' \<le> 4096" by (simp_all add: head_of_def)
  moreover have "gw_forge g' = gw_forge g" "gw_dir g' = gw_dir g" by (simp_all add: plan(2) count_gc_def Let_def)
  ultimately show ?thesis using p closure_exact [OF plan(1)] by simp
qed

section \<open>A collection ends\<close>

lemma gc_walk_returns:
  assumes "queue_ok q" "\<And>i. load i \<noteq> None"
  shows "gc_walk load q R \<noteq> None"
  using assms(1)
proof (induction "work_left q" arbitrary: q R rule: less_induct)
  case less
  show ?case
  proof (cases "q_queue q")
    case Nil
    then show ?thesis by (subst gc_walk.simps) simp
  next
    case (Cons e rest)
    let ?q = "q\<lparr>q_queue := rest\<rparr>"
    have q: "queue_ok ?q" "work_left ?q < work_left q" using less.prems Cons by (simp_all add: queue_ok_pop work_left_def)
    obtain x where x: "load (ge_id e) = Some x" using assms(2) by blast
    have "gc_walk load q' (insert (ge_id e) R) \<noteq> None" if s: "try_fold schedule (dg_edges d) ?q = Inr q'" for d q'
    proof (rule less.hyps)
      obtain new where n: "queue_ok q'" "q_limit q' = q_limit q" "q_queue q' = rest @ new" "card (q_scheduled q') = card (q_scheduled q) + length new"
        using schedules_Inr [OF s q(1)] by auto
      show "queue_ok q'" by (rule n(1))
      show "work_left q' < work_left q" using n scheduled_bound [OF n(1)] Cons by (simp add: work_left_def)
    qed
    then show ?thesis using less.hyps [OF q(2,1)] x Cons by (subst gc_walk.simps) (auto split: sum.splits)
  qed
qed

lemma push_edges_measure:
  assumes "finite U" "set es \<subseteq> {e. ge_id e \<in> U}"
  shows "length (fst (fold push_edge es (stack, seen))) + card (U - snd (fold push_edge es (stack, seen))) = length stack + card (U - seen)"
  using assms(2)
proof (induction es arbitrary: stack seen)
  case (Cons e es)
  have "card (U - insert (ge_id e) seen) + 1 = card (U - seen)" if "ge_id e \<notin> seen"
  proof -
    have "U - seen = insert (ge_id e) (U - insert (ge_id e) seen)" using that Cons.prems by auto
    then show ?thesis using assms(1) by simp
  qed
  then show ?case using Cons by (simp add: push_edge_def)
qed simp

lemma protect_loop_returns:
  assumes "\<And>i. load i \<noteq> None" "finite U" "\<And>i d e. load i = Some (Inr d) \<Longrightarrow> e \<in> set (dg_edges d) \<Longrightarrow> ge_id e \<in> U"
  shows "protect_loop load stack seen R \<noteq> None"
proof (induction "length stack + card (U - seen)" arbitrary: stack seen R rule: less_induct)
  case less
  show ?case
  proof (cases stack)
    case Nil
    then show ?thesis by (subst protect_loop.simps) simp
  next
    case (Cons i rest)
    obtain x where x: "load i = Some x" using assms(1) by blast
    have "protect_loop load (fst (fold push_edge (dg_edges d) (rest, seen))) (snd (fold push_edge (dg_edges d) (rest, seen))) R' \<noteq> None"
      if "x = Inr d" for d R'
    proof (rule less.hyps)
      have "set (dg_edges d) \<subseteq> {e. ge_id e \<in> U}" using assms(3) x that by blast
      then have "length (fst (fold push_edge (dg_edges d) (rest, seen))) + card (U - snd (fold push_edge (dg_edges d) (rest, seen))) =
          length rest + card (U - seen)" by (rule push_edges_measure [OF assms(2)])
      then show "length (fst (fold push_edge (dg_edges d) (rest, seen))) + card (U - snd (fold push_edge (dg_edges d) (rest, seen))) < length stack + card (U - seen)"
        using Cons by simp
    qed
    then show ?thesis using less.hyps [of rest seen] x Cons by (subst protect_loop.simps) (auto split: sum.splits)
  qed
qed

lemma protect_returns:
  assumes "finite (dom (visible st))"
  shows "protect_from_survivors (load_graph_object H st) survivors R \<noteq> None"
proof -
  let ?load = "load_graph_object H st"
  let ?U = "\<Union>i \<in> dom (visible st). ge_id ` set (dg_edges (projr (the (?load i))))"
  have "finite ?U" using assms by simp
  moreover have "ge_id e \<in> ?U" if "?load i = Some (Inr d)" "e \<in> set (dg_edges d)" for i d e
  proof -
    have "i \<in> dom (visible st)" using that(1) by (auto simp: load_graph_object_def store_get_Inr split: sum.splits)
    then show ?thesis using that by force
  qed
  ultimately show ?thesis
    unfolding protect_from_survivors_def Let_def using load_graph_object_returns by (intro protect_loop_returns) blast+
qed

lemma closure_returns: "reachable_closure (load_graph_object H st) n g R \<noteq> None"
  using gc_walk_returns load_graph_object_returns
  by (auto simp: reachable_closure_def rooted_def split: sum.split dest!: roots_scheduled)

definition returns :: "('e, 'a, 'st) act \<Rightarrow> 'st \<Rightarrow> bool" where
  "returns m st \<longleftrightarrow> m st \<noteq> None"

lemma returns_bind: "returns m st \<Longrightarrow> (\<And>x st'. m st = Some (Inr x, st') \<Longrightarrow> returns (f x) st') \<Longrightarrow> returns (act_bind m f) st"
  by (auto simp: returns_def act_bind_def split: option.splits sum.splits)

lemma returns_simps [simp]:
  "returns (act_of f) st" "returns (act_ret x) st" "returns (\<lambda>g. Some (h g)) st" "returns (\<lambda>g. map_option (k g) (v g)) st \<longleftrightarrow> v st \<noteq> None"
  by (simp_all add: returns_def act_of_def act_ret_def)

lemma sweep_fold_returns: "act_fold (sweep_step S P) ds a g \<noteq> None"
proof (induction ds arbitrary: a g)
  case (Cons d ds)
  have "sweep_step S P d a g \<noteq> None" by (cases d; cases a) (simp add: sweep_step_def Let_def)
  then show ?case using Cons.IH by (auto simp: act_bind_def split: option.splits sum.splits)
qed simp

lemma sweep_body_returns:
  assumes "finite (dom (visible (objects (gw_forge g))))"
  shows "returns (sweep_body E limit S secs scan reached) g"
proof -
  have sweep: "returns (act_fold (sweep_step S P) ds a) g" for P ds a g by (simp only: returns_def sweep_fold_returns not_False_eq_True)
  show ?thesis
    using assms closure_returns protect_returns sweep unfolding sweep_body_def
    by (auto intro!: returns_bind split: prod.split simp del: not_None_eq)
qed

lemma collect_returns:
  assumes "finite (dom (visible (objects (gw_forge (sw_others S g)))))"
  shows "\<exists>z g'. forge_gc_collect E limit S now cap secs g = Some (z, g')"
proof -
  have "returns (sweep_txn (sw_commit S) (sweep_body E limit S secs scan reached)) (sw_others S g)" for scan reached
    using sweep_body_returns [OF assms] by (simp add: sweep_txn_def returns_def del: not_None_eq)
  then have "returns (forge_gc_collect E limit S now cap secs) g"
    using closure_returns unfolding forge_gc_collect_def by (auto intro!: returns_bind split: prod.split simp del: not_None_eq)
  then show ?thesis by (auto simp: returns_def)
qed

text \<open>
  C34: A collection ends: on a store with finitely many objects, whatever their graph, cyclic or damaged, every collection returns a
  report or an error.
\<close>

theorem gc_collect_returns:
  assumes "finite (dom (visible (objects (gw_forge (sw_others S g)))))"
  shows "\<exists>z g'. forge_gc_collect E limit S now cap secs g = Some (z, g')"
  by (rule collect_returns [OF assms])

end
