(* ===== verification/Seal_Laws.thy ===== *)
theory Seal_Laws
  imports Integration Graph_Laws Checkin Catalog_Group
begin

text \<open>
  Sealed releases: what a seal has put under its signature, that a sealed tag verifies from then on, and what a tag that
  verifies guarantees.
\<close>

section \<open>Objects put by a verb\<close>

lemma put_bytes_Inr:
  assumes "put_bytes H bs l = Some (Inr i, l')"
  shows "i = H bs" "store_grows (l_store l) (l_store l')" "l_seen l' = insert bs (l_seen l)"
    "\<exists>x. visible (l_store l') i = Some x \<and> H x = i"
proof -
  obtain st where st: "store_put_parts H [bs] (l_store l) = (Inr i, st)" "l' = l\<lparr>l_store := st, l_seen := insert bs (l_seen l)\<rparr>"
    using assms by (auto simp: put_bytes_def store_put_def split: prod.splits)
  obtain st1 b where st1: "put_parts H [bs] (l_store l, begin_batch) = (Inr i, (st1, b))" "visible st = visible st1"
    using st(1) by (auto simp: store_put_parts_def split: prod.splits sum.splits)
  then show "i = H bs" "\<exists>x. visible (l_store l') i = Some x \<and> H x = i" using put_parts_Inr [OF st1(1)] by (auto simp: st(2))
  show "store_grows (l_store l) (l_store l')" "l_seen l' = insert bs (l_seen l)" using store_put_parts_grows [OF st(1)] by (simp_all add: st(2))
qed

lemma put_bytes_grows: "put_bytes H bs l = Some (r, l') \<Longrightarrow> store_grows (l_store l) (l_store l') \<and> l_seen l \<subseteq> l_seen l'"
  by (auto simp: put_bytes_def store_put_def split: prod.splits dest: store_put_parts_grows)

lemma put_encoded_Inr:
  assumes "put_encoded E enc w = Some (Inr i, w1)"
  shows "\<exists>bs. enc = Some bs \<and> forge_grows w w1 \<and> f_meta w1 = f_meta w \<and>
    (\<forall>w'. forge_grows w1 w' \<longrightarrow> log_good (env_hash E) (f_store w') \<longrightarrow> store_get (env_hash E) i (objects w') = Inr bs)"
proof -
  obtain bs l where bs: "enc = Some bs" "put_bytes (env_hash E) bs (f_store w) = Some (Inr i, l)" "w1 = w\<lparr>f_store := l\<rparr>"
    using assms by (auto simp: put_encoded_def stored_Some Option.bind_eq_Some_conv)
  note p = put_bytes_Inr [OF bs(2)]
  have "store_get (env_hash E) i (objects w') = Inr bs" if g: "forge_grows w1 w'" "log_good (env_hash E) (f_store w')" for w'
  proof -
    have "log_good (env_hash E) l" using log_good_before [OF g] by (simp add: bs(3))
    then have inj: "inj_on (env_hash E) (ran (visible (l_store l)) \<union> l_seen l)" by (simp add: log_good_def)
    obtain x where x: "visible (l_store l) i = Some x" "env_hash E x = i" using p(4) by blast
    have "x \<in> ran (visible (l_store l))" using x(1) by (auto simp: ran_def)
    then have "x = bs" using inj_onD [OF inj, of x bs] x(2) p(1,3) by simp
    then show ?thesis using x g(1) by (auto simp: store_get_Inr forge_grows_def store_grows_def bs(3))
  qed
  then show ?thesis using bs p(2,3) by (auto simp: forge_grows_def)
qed

lemma stored_put_blob:
  assumes "stored (put_blob E d) w = Some (Inr i, w1)" "length d < 2 ^ 64"
  shows "forge_grows w w1 \<and> f_meta w1 = f_meta w \<and>
    (\<forall>w'. forge_grows w1 w' \<longrightarrow> log_good (env_hash E) (f_store w') \<longrightarrow> get_blob_data (env_hash E) i (objects w') = Inr d)"
proof -
  obtain l where l: "put_blob E d (f_store w) = Some (Inr i, l)" "w1 = w\<lparr>f_store := l\<rparr>" using assms by (auto simp: stored_Some)
  have "l_seen (f_store w) \<subseteq> l_seen l" using l(1) by (auto simp: put_blob_Some)
  then have "forge_grows w w1" using put_blob_grows [OF l(1)] by (simp add: l(2) forge_grows_def)
  moreover have "get_blob_data (env_hash E) i (objects w') = Inr d" if g: "forge_grows w1 w'" "log_good (env_hash E) (f_store w')" for w'
  proof -
    have "log_good (env_hash E) l" using log_good_before [OF g] by (simp add: l(2))
    then have "get_blob_data (env_hash E) i (l_store l) = Inr d" using put_blob_reads [OF l(1) _ assms(2)] by blast
    then show ?thesis using grown_typed(5) g(1) by (auto simp: forge_grows_def l(2))
  qed
  ultimately show ?thesis by (simp add: l(2))
qed

section \<open>A graph stays as the store grows\<close>

lemma grown_load:
  "store_grows st st' \<Longrightarrow> load_graph_object H st i = Some (Inr d) \<Longrightarrow> load_graph_object H st' i = Some (Inr d)"
  by (auto simp: load_graph_object_def grown_get split: sum.splits)

lemma well_typed_loads:
  assumes "well_typed H st i ty" "j \<in> object_graph H st i"
  shows "\<exists>d. load_graph_object H st j = Some (Inr d)"
proof -
  have "(edge_to (load_graph_object H st))\<^sup>*\<^sup>* i j" using assms(2) by (simp add: object_graph_def graph_of_def reach_def)
  then show ?thesis
  proof (cases rule: rtranclp.cases)
    case rtrancl_refl
    then show ?thesis using assms(1) by (auto simp: well_typed_def)
  next
    case (rtrancl_into_rtrancl k)
    then have "k \<in> object_graph H st i" by (simp add: object_graph_def graph_of_def reach_def)
    moreover obtain d e where "load_graph_object H st k = Some (Inr d)" "e \<in> set (dg_edges d)" "ge_id e = j"
      using rtrancl_into_rtrancl by (auto simp: edge_to_def graph_edge_def)
    ultimately show ?thesis using assms(1) unfolding well_typed_def by blast
  qed
qed

lemma grown_graph:
  assumes "store_grows st st'" "well_typed H st i ty"
  shows "object_graph H st' i = object_graph H st i" "well_typed H st' i ty"
    "j \<in> object_graph H st i \<Longrightarrow> load_graph_object H st' j = load_graph_object H st j"
proof -
  have same: "load_graph_object H st' j = load_graph_object H st j" if "j \<in> object_graph H st i" for j
    using well_typed_loads [OF assms(2) that] grown_load [OF assms(1)] by fastforce
  then show "j \<in> object_graph H st i \<Longrightarrow> load_graph_object H st' j = load_graph_object H st j" .
  let ?e = "edge_to (load_graph_object H st)"
  have "reach ?e {i} = reach (edge_to (load_graph_object H st')) {i}"
  proof (rule reach_cong [of "object_graph H st i"])
    show "?e x y = edge_to (load_graph_object H st') x y" if "x \<in> object_graph H st i" for x y
      using same [OF that] by (simp add: edge_to_def graph_edge_def)
    show "y \<in> object_graph H st i" if "x \<in> object_graph H st i" "?e x y" for x y
      using that graph_of_edge by (fastforce simp: object_graph_def edge_to_def)
  qed (simp add: object_graph_def)
  then show eq: "object_graph H st' i = object_graph H st i" by (simp add: object_graph_def graph_of_def)
  have edge: "\<exists>d'. load_graph_object H st' (ge_id e) = Some (Inr d') \<and> accepts (ge_expected e) (dg_object_type d')"
    if j: "j \<in> object_graph H st i" "load_graph_object H st' j = Some (Inr d)" "e \<in> set (dg_edges d)" for j d e
  proof -
    obtain d' where "load_graph_object H st (ge_id e) = Some (Inr d')" "accepts (ge_expected e) (dg_object_type d')"
      using assms(2) j same [OF j(1)] unfolding well_typed_def by metis
    then show ?thesis using grown_load [OF assms(1)] by blast
  qed
  have "\<exists>d. load_graph_object H st' i = Some (Inr d) \<and> dg_object_type d = ty"
    using assms(2) grown_load [OF assms(1)] unfolding well_typed_def by blast
  then show "well_typed H st' i ty" unfolding well_typed_def [of H st'] eq using edge by blast
qed

lemma grown_verified:
  assumes "store_grows st st'" "reachable_graph_verified H n i ty st = Some (Inr objs)"
  shows "reachable_graph_verified H n i ty st' = Some (Inr objs)"
proof -
  have w: "well_typed H st i ty" "finite (object_graph H st i)" using assms(2) by (auto simp: graph_verified_Inr)
  have "map (verified_object H st') (sorted_list_of_set (object_graph H st i)) = map (verified_object H st) (sorted_list_of_set (object_graph H st i))"
    using grown_graph(3) [OF assms(1) w(1)] w(2) by (auto simp: verified_object_def)
  then show ?thesis using assms(2) grown_graph(1,2) [OF assms(1) w(1)] by (simp add: graph_verified_Inr)
qed

lemma grown_contribution: "store_grows st st' \<Longrightarrow> get_contribution H i st = Some (Inr c) \<Longrightarrow> get_contribution H i st' = Some (Inr c)"
  by (auto simp: get_contribution_def grown_get split: sum.splits)

lemma contribution_agents_Inr:
  "contribution_agents H st x a u = Some (Inr c, v) \<longleftrightarrow> (if vg_object_type x = ObjectType.Contribution
    then \<exists>k. get_contribution H (vg_id x) st = Some (Inr k) \<and> c = bt_insert (vg_id x) (co_agent k) a else c = a)"
  by (cases "get_contribution H (vg_id x) st") (auto simp: contribution_agents_def map_sum_Inr)

lemma grown_agents:
  assumes "store_grows st st'" "act_fold (contribution_agents H st) objs a u = Some (Inr b, v)"
  shows "act_fold (contribution_agents H st') objs a u = Some (Inr b, v)"
  using assms(2)
proof (induction objs arbitrary: a u)
  case (Cons x objs)
  have "contribution_agents H st' x a u = Some (Inr c, v1)" if "contribution_agents H st x a u = Some (Inr c, v1)" for c v1
    using that grown_contribution [OF assms(1)] by (auto simp: contribution_agents_Inr split: if_split_asm)
  then show ?case using Cons by (auto simp: act_bind_Inr_iff)
qed simp

lemma scope_Inr:
  "verified_provenance_scope E n commit tree st = Some (Inr (content, contribs)) \<longleftrightarrow>
    (\<exists>cs gs. reachable_graph_verified (env_hash E) n tree ObjectType.Tree st = Some (Inr cs) \<and> content = map vg_id cs \<and>
      reachable_graph_verified (env_hash E) n commit ObjectType.Commit st = Some (Inr gs) \<and>
      act_fold (contribution_agents (env_hash E) st) gs [] () = Some (Inr contribs, ()))"
  by (force simp: verified_provenance_scope_def act_bind_Inr_iff reachable_oids_verified_def map_sum_Inr)

lemma grown_scope:
  assumes "store_grows st st'" "verified_provenance_scope E n commit tree st = Some (Inr r)"
  shows "verified_provenance_scope E n commit tree st' = Some (Inr r)"
  using assms(2) grown_verified [OF assms(1)] grown_agents [OF assms(1)] by (cases r) (auto simp: scope_Inr)

lemma agents_ok:
  assumes "act_fold (contribution_agents H st) objs a u = Some (Inr b, v)"
    and "bt_ok a" "\<And>i x. map_of a i = Some x \<Longrightarrow> valid_str x"
  shows "bt_ok b \<and> (\<forall>i x. map_of b i = Some x \<longrightarrow> valid_str x)"
  using assms
proof (induction objs arbitrary: a u)
  case (Cons x objs)
  obtain c v1 where c: "contribution_agents H st x a u = Some (Inr c, v1)" "act_fold (contribution_agents H st) objs c v1 = Some (Inr b, v)"
    using Cons.prems(1) by (auto simp: act_bind_Inr_iff)
  have "valid_str (co_agent k)" if "get_contribution H i st = Some (Inr k)" for i k
    using that by (auto simp: get_contribution_def contribution_decode_iff contribution_strs_def split: sum.splits)
  then have "bt_ok c \<and> (\<forall>i x. map_of c i = Some x \<longrightarrow> valid_str x)"
    using c(1) Cons.prems(2,3) by (auto simp: contribution_agents_Inr split: if_split_asm)
  then show ?case using Cons.IH [OF c(2)] by blast
qed simp

section \<open>Sealing, then verifying\<close>

lemma seal_run:
  assumes "forge_seal E K now cap name tag w = Some (Inr snap_oid, w')" "log_good (env_hash E) (f_store w')"
  obtains row commit content contribs manifest prov h u where
    "open_seal E now cap name tag w = Inr (row, commit)"
    "verified_provenance_scope E (se_limit K) (row_oid row) (c_tree commit) (objects w) = Some (Inr (content, contribs))"
    "manifest_new (manifest_entries (f_meta w) content contribs) = Inr manifest"
    "get_blob_data (env_hash E) prov (objects w') = Inr (manifest_encode manifest)"
    "snapshot_encode_unsigned \<lparr>s_tree = c_tree commit, s_commit = row_oid row, s_tag = tag, s_ts = now, s_prov = prov,
       s_pk = se_pk K, s_sig = replicate 64 0\<rparr> = Some u"
    "store_get (env_hash E) snap_oid (objects w') = Inr h"
    "snapshot_encode \<lparr>s_tree = c_tree commit, s_commit = row_oid row, s_tag = tag, s_ts = now, s_prov = prov,
       s_pk = se_pk K, s_sig = se_sign K (se_seed K) (oid_bytes (env_hash E u))\<rparr> = Some h"
    "commit_seal tag snap_oid (row_oid row) (c_tree commit) (agent_id cap) (Some (name, row_oid row)) (uint now) (f_meta w) = Inr ((), f_meta w')"
    "forge_grows w w'"
proof -
  obtain row commit content contribs manifest prov u w1 w2 c' where
    opn: "open_seal E now cap name tag w = Inr (row, commit)"
    and scope: "verified_provenance_scope E (se_limit K) (row_oid row) (c_tree commit) (objects w) = Some (Inr (content, contribs))"
    and man: "manifest_new (manifest_entries (f_meta w) content contribs) = Inr manifest"
    and blob: "stored (put_blob E (manifest_encode manifest)) w = Some (Inr prov, w1)"
    and u: "snapshot_encode_unsigned \<lparr>s_tree = c_tree commit, s_commit = row_oid row, s_tag = tag, s_ts = now, s_prov = prov,
       s_pk = se_pk K, s_sig = replicate 64 0\<rparr> = Some u"
    and put: "put_encoded E (snapshot_encode \<lparr>s_tree = c_tree commit, s_commit = row_oid row, s_tag = tag, s_ts = now, s_prov = prov,
       s_pk = se_pk K, s_sig = se_sign K (se_seed K) (oid_bytes (env_hash E u))\<rparr>) w1 = Some (Inr snap_oid, w2)"
    and cs: "commit_seal tag snap_oid (row_oid row) (c_tree commit) (agent_id cap) (Some (name, row_oid row)) (uint now) (f_meta w2) = Inr ((), c')"
      "w' = w2\<lparr>f_meta := c'\<rparr>"
    using assms(1) by (fastforce simp: forge_seal_def Let_def act_bind_Inr_iff verb_scope_def meta_Inr)
  have len: "length (manifest_encode manifest) < 2 ^ 64"
  proof -
    have "validate_manifest (pm_entries manifest) (pm_encoding manifest) MAX_SERIALIZED_BYTES = Inr ()"
      using man by (auto simp: manifest_new_def and_then_Inr_iff)
    then show ?thesis using manifest_len_exact by (fastforce simp: MAX_SERIALIZED_BYTES_def)
  qed
  note b = stored_put_blob [OF blob len]
  obtain h where h: "snapshot_encode \<lparr>s_tree = c_tree commit, s_commit = row_oid row, s_tag = tag, s_ts = now, s_prov = prov,
       s_pk = se_pk K, s_sig = se_sign K (se_seed K) (oid_bytes (env_hash E u))\<rparr> = Some h" "forge_grows w1 w2" "f_meta w2 = f_meta w1"
      "\<forall>w'. forge_grows w2 w' \<longrightarrow> log_good (env_hash E) (f_store w') \<longrightarrow> store_get (env_hash E) snap_oid (objects w') = Inr h"
    using put_encoded_Inr [OF put] by blast
  have g: "forge_grows w2 w'" by (simp add: cs(2) forge_grows_def)
  have "get_blob_data (env_hash E) prov (objects w') = Inr (manifest_encode manifest)"
    using b forge_grows_trans [OF h(2) g] assms(2) by blast
  moreover have "store_get (env_hash E) snap_oid (objects w') = Inr h" using h(4) g assms(2) by blast
  moreover have "forge_grows w w'" using b h(2) g forge_grows_trans by blast
  moreover have "commit_seal tag snap_oid (row_oid row) (c_tree commit) (agent_id cap) (Some (name, row_oid row)) (uint now) (f_meta w) = Inr ((), f_meta w')"
    using cs h(3) b by simp
  ultimately show ?thesis using that [OF opn scope man _ u _ h(1)] by blast
qed

lemma manifest_entries_ok:
  assumes "bt_ok contribs" "\<And>i x. map_of contribs i = Some x \<Longrightarrow> valid_str x" "\<And>i a. intro_get c i = Some a \<Longrightarrow> valid_str a"
  shows "bt_ok (manifest_entries c content contribs)"
    "map_of (manifest_entries c content contribs) i = (case map_of contribs i of Some a \<Rightarrow> Some a
      | None \<Rightarrow> if i \<in> set content then Some (case intro_get c i of Some agent \<Rightarrow> agent | None \<Rightarrow> ''unknown'') else None)"
    "map_of (manifest_entries c content contribs) i = Some a \<Longrightarrow> valid_str a"
proof -
  let ?f = "\<lambda>i. bt_insert i (case intro_get c i of Some agent \<Rightarrow> agent | None \<Rightarrow> ''unknown'')"
  have ok: "bt_ok (fold ?f content es)" if "bt_ok es" for es using that by (induction content arbitrary: es) auto
  have map: "map_of (fold ?f content es) i = (if i \<in> set content then Some (case intro_get c i of Some agent \<Rightarrow> agent | None \<Rightarrow> ''unknown'')
      else map_of es i)" for es i by (induction content arbitrary: es) auto
  show "bt_ok (manifest_entries c content contribs)"
    unfolding manifest_entries_def by (rule bt_ok_fold_insert) (simp add: ok)
  show eq: "map_of (manifest_entries c content contribs) i = (case map_of contribs i of Some a \<Rightarrow> Some a
      | None \<Rightarrow> if i \<in> set content then Some (case intro_get c i of Some agent \<Rightarrow> agent | None \<Rightarrow> ''unknown'') else None)" for i
    using map [of "[]" i] map_of_fold_insert [OF bt_ok_distinct [OF assms(1)], of snd] by (simp add: manifest_entries_def cong: option.case_cong)
  have "valid_str ''unknown''" by code_simp
  then show "valid_str a" if "map_of (manifest_entries c content contribs) i = Some a"
    using that assms(2,3) by (auto simp: eq split: option.splits if_split_asm)
qed

lemma tag_ok_valid: "tag_ok tag \<Longrightarrow> valid_str tag"
proof -
  assume t: "tag_ok tag"
  have "ascii_char c" if "ascii_alnum c \<or> c = CHR ''.'' \<or> c = CHR ''_'' \<or> c = CHR ''-''" for c
    using that ascii_alnum_codes [of c] by (auto simp: ascii_char_def)
  then show ?thesis using t by (intro valid_str_ascii) (auto simp: tag_ok_def list_all_iff)
qed

lemma agents_keys:
  "act_fold (contribution_agents H st) objs a u = Some (Inr b, v) \<Longrightarrow>
    fst ` set b = fst ` set a \<union> vg_id ` {x \<in> set objs. vg_object_type x = ObjectType.Contribution}"
proof (induction objs arbitrary: a u)
  case (Cons x objs)
  obtain c v1 where c: "contribution_agents H st x a u = Some (Inr c, v1)" "act_fold (contribution_agents H st) objs c v1 = Some (Inr b, v)"
    using Cons.prems by (auto simp: act_bind_Inr_iff)
  have "fst ` set c = (if vg_object_type x = ObjectType.Contribution then insert (vg_id x) (fst ` set a) else fst ` set a)"
    using c(1) unfolding contribution_agents_Inr by (metis keys_bt_insert)
  then show ?case using Cons.IH [OF c(2)] by auto
qed simp

lemma seal_rows:
  assumes "commit_seal tag snap commit tree agent e ts c = Inr (u, c')"
  shows "get_ref c' (''tags/'' @ tag) =
      Some \<lparr>row_name = ''tags/'' @ tag, row_oid = snap, row_kind = ''snapshot'', row_protected = True, row_sealed = True\<rparr>"
    "get_seal c' tag = Some (snap, commit, tree)"
  unfolding commit_seal_Inr(5) [OF assms]
  by (simp_all add: get_ref_def get_seal_def add_landmark_def new_ref_def push_reflog_def)

lemma check_manifest_Inr:
  "check_manifest m content contribs = Inr () \<longleftrightarrow>
    fst ` set (pm_entries m) = set content \<union> (if is_legacy m then {} else fst ` set contribs) \<and>
    (is_legacy m \<or> (\<forall>(i, a) \<in> set contribs. map_of (pm_entries m) i = Some a))"
  by (auto simp: check_manifest_def Let_def list_ex_iff split: if_split_asm)

lemma sealed_manifest:
  assumes scope: "verified_provenance_scope E n commit tree st = Some (Inr (content, contribs))"
    and man: "manifest_new (manifest_entries c content contribs) = Inr manifest"
    and strs: "\<And>i a. intro_get c i = Some a \<Longrightarrow> valid_str a"
  shows "manifest_decode (manifest_encode manifest) = Inr manifest \<and> check_manifest manifest content contribs = Inr ()"
proof -
  obtain gs where ag: "act_fold (contribution_agents (env_hash E) st) gs [] () = Some (Inr contribs, ())" using scope by (auto simp: scope_Inr)
  have cok: "bt_ok contribs" "\<And>i x. map_of contribs i = Some x \<Longrightarrow> valid_str x"
    using agents_ok [OF ag] by (auto simp: bt_ok_def)
  note m = manifest_entries_ok [OF cok strs, where content = content]
  have mm: "manifest = \<lparr>pm_entries = manifest_entries c content contribs, pm_encoding = Version1\<rparr>"
      "validate_manifest (pm_entries manifest) (pm_encoding manifest) MAX_SERIALIZED_BYTES = Inr ()"
    using man by (auto simp: manifest_new_def and_then_Inr_iff)
  have "length a \<le> MAX_LABEL_BYTES" if "map_of (pm_entries manifest) i = Some a" for i a
    using manifest_len_exact [OF mm(2)] map_of_SomeD [OF that] by fastforce
  then have "manifest_ok manifest" using m mm by (auto simp: manifest_ok_def labels_ok_def)
  then have dec: "manifest_decode (manifest_encode manifest) = Inr manifest" by (simp add: manifest_decode_iff)
  have "fst ` set (pm_entries manifest) = dom (map_of (pm_entries manifest))" by (simp add: dom_map_of_conv_image_fst)
  also have "\<dots> = set content \<union> fst ` set contribs"
    by (auto simp: mm(1) m(2) dom_map_of_conv_image_fst [symmetric] split: option.splits if_split_asm)
  finally have chk: "check_manifest manifest content contribs = Inr ()"
    using bt_ok_distinct [OF cok(1)] by (auto simp: check_manifest_Inr mm(1) m(2) is_legacy_def split: option.splits dest: map_of_is_SomeI)
  show ?thesis using dec chk by blast
qed

lemma seal_verifies:
  assumes seal: "forge_seal E K now cap name tag w = Some (Inr snap_oid, w')" and good: "log_good (env_hash E) (f_store w')"
    and key: "se_key_ok K (se_pk K)" "length (se_pk K) = 32"
    and sign: "\<And>m. se_verify K (se_pk K) m (se_sign K (se_seed K) m)" "\<And>m. length (se_sign K (se_seed K) m) = 64"
    and strs: "\<And>i a. intro_get (f_meta w) i = Some a \<Longrightarrow> valid_str a"
    and later: "store_grows (objects w') (objects w'')" "get_ref (f_meta w'') (''tags/'' @ tag) = get_ref (f_meta w') (''tags/'' @ tag)"
      "get_seal (f_meta w'') tag = get_seal (f_meta w') tag"
    and cap: "check E now' cap' Op.Read (Some (''tags/'' @ tag)) w'' = Inr ()"
  shows "verify_tag E K now' cap' tag w'' = Some (Inr snap_oid, w'')"
proof -
  let ?H = "env_hash E"
  obtain row commit content contribs manifest prov h u where
    opn: "open_seal E now cap name tag w = Inr (row, commit)"
    and scope: "verified_provenance_scope E (se_limit K) (row_oid row) (c_tree commit) (objects w) = Some (Inr (content, contribs))"
    and man: "manifest_new (manifest_entries (f_meta w) content contribs) = Inr manifest"
    and blob: "get_blob_data ?H prov (objects w') = Inr (manifest_encode manifest)"
    and u: "snapshot_encode_unsigned \<lparr>s_tree = c_tree commit, s_commit = row_oid row, s_tag = tag, s_ts = now, s_prov = prov,
       s_pk = se_pk K, s_sig = replicate 64 0\<rparr> = Some u"
    and h: "store_get ?H snap_oid (objects w') = Inr h"
      "snapshot_encode \<lparr>s_tree = c_tree commit, s_commit = row_oid row, s_tag = tag, s_ts = now, s_prov = prov,
       s_pk = se_pk K, s_sig = se_sign K (se_seed K) (oid_bytes (?H u))\<rparr> = Some h"
    and cs: "commit_seal tag snap_oid (row_oid row) (c_tree commit) (agent_id cap) (Some (name, row_oid row)) (uint now) (f_meta w) = Inr ((), f_meta w')"
    and g: "forge_grows w w'"
    by (rule seal_run [OF seal good])
  let ?s = "\<lparr>s_tree = c_tree commit, s_commit = row_oid row, s_tag = tag, s_ts = now, s_prov = prov,
       s_pk = se_pk K, s_sig = se_sign K (se_seed K) (oid_bytes (?H u))\<rparr>"
  have grow: "store_grows (objects w) (objects w'')" using g later(1) by (auto simp: forge_grows_def intro: store_grows_trans)
  have tag: "tag_ok tag" and com: "get_commit ?H (row_oid row) (objects w) = Inr commit"
    using opn by (auto simp: open_seal_def and_then_Inr_iff split: if_split_asm)
  have rows: "open_tag E now' cap' tag w'' = Inr (snap_oid, row_oid row, c_tree commit)"
    using seal_rows [OF cs] later(2,3) cap by (simp add: open_tag_def Let_def ok_or_def)
  have "snapshot_decode h = Inr ?s" using h(2) tag_ok_valid [OF tag] key(2) sign(2) by (simp add: snapshot_decode_iff snapshot_ok_def)
  then have "get_snapshot ?H snap_oid (objects w'') = Inr ?s" using grown_get [OF later(1) h(1)] by (simp add: get_snapshot_def)
  then have snap: "check_snapshot E K tag snap_oid (row_oid row) (c_tree commit) (objects w'') = Inr ?s"
    using grown_typed(2) [OF grow com] by (simp add: check_snapshot_def)
  have sig: "check_signature E K ?s = Some (Inr ())"
    using u key(1) sign(1) by (simp add: check_signature_def snapshot_encode_unsigned_def)
  note m = sealed_manifest [OF scope man strs]
  show ?thesis
    using rows snap sig m grown_typed(5) [OF later(1) blob] grown_scope [OF grow scope]
    by (simp add: verify_tag_def verify_seal_payload_def act_bind_def act_of_def act_ret_def verb_scope_def)
qed

text \<open>
  C17: A sealed tag verifies, then and later. Once a seal has succeeded, every capability that may read the tag finds it intact as
  long as stored objects stay, whatever else is published: the signature, the rows, and a manifest that names
  exactly what the sealed commit reaches. The hypotheses on the signature are the ones Ed25519 documents.
\<close>

theorem seal_then_verify:
  assumes "forge_seal E K now cap name tag w = Some (Inr snap_oid, w')" and "log_good (env_hash E) (f_store w')"
    and "se_key_ok K (se_pk K)" "length (se_pk K) = 32"
    and "\<And>m. se_verify K (se_pk K) m (se_sign K (se_seed K) m)" "\<And>m. length (se_sign K (se_seed K) m) = 64"
    and "\<And>i a. intro_get (f_meta w) i = Some a \<Longrightarrow> valid_str a"
    and "store_grows (objects w') (objects w'')" "get_ref (f_meta w'') (''tags/'' @ tag) = get_ref (f_meta w') (''tags/'' @ tag)"
      "get_seal (f_meta w'') tag = get_seal (f_meta w') tag"
    and "check E now' cap' Op.Read (Some (''tags/'' @ tag)) w'' = Inr ()"
  shows "verify_tag E K now' cap' tag w'' = Some (Inr snap_oid, w'')"
  by (rule seal_verifies [OF assms])

lemma scope_graphs:
  assumes "verified_provenance_scope E n commit tree st = Some (Inr (content, contribs))"
  shows "well_typed (env_hash E) st tree ObjectType.Tree" "well_typed (env_hash E) st commit ObjectType.Commit"
    "set content = object_graph (env_hash E) st tree"
    "fst ` set contribs = {j \<in> object_graph (env_hash E) st commit. vg_object_type (verified_object (env_hash E) st j) = ObjectType.Contribution}"
proof -
  let ?v = "verified_object (env_hash E) st"
  obtain gs where w: "well_typed (env_hash E) st tree ObjectType.Tree" "well_typed (env_hash E) st commit ObjectType.Commit"
      "finite (object_graph (env_hash E) st tree)" "finite (object_graph (env_hash E) st commit)"
      "content = map vg_id (map ?v (sorted_list_of_set (object_graph (env_hash E) st tree)))"
      "gs = map ?v (sorted_list_of_set (object_graph (env_hash E) st commit))"
      "act_fold (contribution_agents (env_hash E) st) gs [] () = Some (Inr contribs, ())"
    using assms unfolding scope_Inr graph_verified_Inr by blast
  have id: "vg_id (?v j) = j" for j by (simp add: verified_object_def)
  show "well_typed (env_hash E) st tree ObjectType.Tree" "well_typed (env_hash E) st commit ObjectType.Commit"
    "set content = object_graph (env_hash E) st tree" using w(1-3,5) by (simp_all add: image_image id)
  show "fst ` set contribs = {j \<in> object_graph (env_hash E) st commit. vg_object_type (?v j) = ObjectType.Contribution}"
    using agents_keys [OF w(7)] w(4,6) by (force simp: image_iff id)
qed

lemma open_tag_rows:
  assumes "open_tag E now cap tag w = Inr (s, c, t)"
  shows "check E now cap Op.Read (Some (''tags/'' @ tag)) w = Inr ()" "get_seal (f_meta w) tag = Some (s, c, t)"
    "get_ref (f_meta w) (''tags/'' @ tag) =
      Some \<lparr>row_name = ''tags/'' @ tag, row_oid = s, row_kind = ''snapshot'', row_protected = True, row_sealed = True\<rparr>"
proof -
  obtain row where row: "get_ref (f_meta w) (''tags/'' @ tag) = Some row" "row_oid row = s" "row_kind row = ''snapshot''"
      "row_protected row" "row_sealed row"
    and "check E now cap Op.Read (Some (''tags/'' @ tag)) w = Inr ()" "get_seal (f_meta w) tag = Some (s, c, t)"
    using assms by (auto simp: open_tag_def Let_def and_then_Inr_iff ok_or_Inr_iff split: if_split_asm)
  then show "check E now cap Op.Read (Some (''tags/'' @ tag)) w = Inr ()" "get_seal (f_meta w) tag = Some (s, c, t)" by blast+
  have "row_name row = ''tags/'' @ tag" using row(1) by (auto simp: get_ref_def)
  then show "get_ref (f_meta w) (''tags/'' @ tag) =
      Some \<lparr>row_name = ''tags/'' @ tag, row_oid = s, row_kind = ''snapshot'', row_protected = True, row_sealed = True\<rparr>"
    using row by (cases row) simp
qed

text \<open>
  C5: A tag that verifies is what was signed, whole. The tag's ref row is a protected and sealed snapshot ref at the
  snapshot the seal row names; the seal row and the snapshot agree on the commit, the tree and the tag; the snapshot's
  signature verifies under the repository's own key; the sealed commit has the sealed tree; everything the commit and the tree reach
  is readable and of the type its edges expect; and the manifest names exactly the objects of the tree, and with them
  exactly the receipts the commit's history reaches (the unversioned form has no receipts). Verification changes nothing.
\<close>

theorem verified_tag_is_complete:
  assumes "verify_tag E K now cap tag w = Some (Inr snap_oid, w')"
  shows "w' = w \<and> check E now cap Op.Read (Some (''tags/'' @ tag)) w = Inr () \<and>
    get_ref (f_meta w) (''tags/'' @ tag) =
      Some \<lparr>row_name = ''tags/'' @ tag, row_oid = snap_oid, row_kind = ''snapshot'', row_protected = True, row_sealed = True\<rparr> \<and>
    (\<exists>snap commit u d m. get_seal (f_meta w) tag = Some (snap_oid, s_commit snap, s_tree snap) \<and>
      get_snapshot (env_hash E) snap_oid (objects w) = Inr snap \<and> s_tag snap = tag \<and>
      get_commit (env_hash E) (s_commit snap) (objects w) = Inr commit \<and> c_tree commit = s_tree snap \<and>
      snapshot_encode_unsigned snap = Some u \<and> se_verify K (se_pk K) (oid_bytes (env_hash E u)) (s_sig snap) \<and>
      well_typed (env_hash E) (objects w) (s_commit snap) ObjectType.Commit \<and>
      well_typed (env_hash E) (objects w) (s_tree snap) ObjectType.Tree \<and>
      get_blob_data (env_hash E) (s_prov snap) (objects w) = Inr d \<and> manifest_decode d = Inr m \<and>
      fst ` set (pm_entries m) = object_graph (env_hash E) (objects w) (s_tree snap) \<union>
        (if is_legacy m then {} else {j \<in> object_graph (env_hash E) (objects w) (s_commit snap).
           vg_object_type (verified_object (env_hash E) (objects w) j) = ObjectType.Contribution}))"
proof -
  obtain s c t snap m d content contribs where o: "open_tag E now cap tag w = Inr (s, c, t)"
    and k: "check_snapshot E K tag s c t (objects w) = Inr snap" and sig: "check_signature E K snap = Some (Inr ())"
    and m: "get_blob_data (env_hash E) (s_prov snap) (objects w) = Inr d" "manifest_decode d = Inr m"
    and scope: "verified_provenance_scope E (se_limit K) c t (objects w) = Some (Inr (content, contribs))"
    and chk: "check_manifest m content contribs = Inr ()" and r: "s = snap_oid" "w' = w"
    using assms by (auto simp: verify_tag_def verify_seal_payload_def act_bind_Inr_iff and_then_Inr_iff verb_scope_def)
  note opened = open_tag_rows [OF o]
  have "check E now cap Op.Read (Some (''tags/'' @ tag)) w = Inr ()" "get_seal (f_meta w) tag = Some (s, c, t)"
    "get_ref (f_meta w) (''tags/'' @ tag) =
      Some \<lparr>row_name = ''tags/'' @ tag, row_oid = s, row_kind = ''snapshot'', row_protected = True, row_sealed = True\<rparr>"
    using opened by blast+
  moreover obtain commit where "get_snapshot (env_hash E) s (objects w) = Inr snap" "s_tag snap = tag" "s_commit snap = c" "s_tree snap = t"
      "get_commit (env_hash E) c (objects w) = Inr commit" "c_tree commit = t"
    using k by (auto simp: check_snapshot_def and_then_Inr_iff split: if_split_asm)
  moreover obtain u where "snapshot_encode_unsigned snap = Some u" "se_verify K (se_pk K) (oid_bytes (env_hash E u)) (s_sig snap)"
    using sig by (auto simp: check_signature_def split: if_split_asm)
  moreover have "fst ` set (pm_entries m) = set content \<union> (if is_legacy m then {} else fst ` set contribs)"
    using chk by (simp add: check_manifest_Inr)
  ultimately show ?thesis using scope_graphs [OF scope] m r by auto
qed

end
