(* ===== verification/Fsck_Laws.thy ===== *)
theory Fsck_Laws
  imports Fsck Collector_Laws Seal_Laws
begin

text \<open>
  What a check establishes: its walk finds nothing wrong exactly when everything its roots lead to is readable and of the types
  its edges expect; a clean full check covers everything the collector keeps and every object file; and after one the collector can
  prove reachability.
\<close>

section \<open>The walk\<close>

lemma fr_ok_finding [simp]: "fr_ok (report_finding a b d r) = False" "fr_checked_objects (report_finding a b d r) = fr_checked_objects r"
  by (simp_all add: report_finding_def)

lemma fr_ok_expectation [simp]:
  "fr_ok (check_object_expectation e ty r) \<longleftrightarrow> fr_ok r \<and> accepts (ge_expected e) ty"
  "fr_checked_objects (check_object_expectation e ty r) = fr_checked_objects r"
  by (simp_all add: check_object_expectation_def)

lemma schedule_error: "schedule e q = Inl x \<Longrightarrow> x = walk_limit_exceeded"
  by (auto simp: schedule_def split: if_split_asm)

lemma schedules_error: "try_fold schedule es q = Inl x \<Longrightarrow> x = walk_limit_exceeded"
  by (induction es arbitrary: q) (auto simp: and_then_Inl_iff dest: schedule_error)

text \<open>While nothing was found the walk is the strict one; once something was found, something is wrong.\<close>

definition fsck_inv :: "loader \<Rightarrow> GraphEdge set \<Rightarrow> bool \<Rightarrow> nat \<Rightarrow> fsck_walk \<Rightarrow> bool" where
  "fsck_inv load rs ok n = (\<lambda>(q, v, r). queue_ok q \<and> q_scheduled_ids q \<subseteq> graph_from load rs \<and> ge_id ` set (q_queue q) \<subseteq> graph_from load rs \<and>
    (if fr_ok r then ok \<and> walk_inv load rs q v \<and> fr_checked_objects r = n + length v else \<not> (ok \<and> graph_intact load rs)))"

lemma graph_load:
  "load_graph_object H st i = (case store_get H i st of Inl e \<Rightarrow> Some (Inl e) | Inr bs \<Rightarrow> decode_graph_object i bs)"
  by (simp add: load_graph_object_def)

lemma decode_graph_type:
  "decode_graph_object i bs = Some (Inr d) \<Longrightarrow> decode_object_type bs = Inr (dg_object_type d)"
  "decode_object_type bs = Inl e \<Longrightarrow> decode_graph_object i bs = Some (Inl e)"
  by (auto simp: decode_graph_object_def map_sum_Inr split: sum.splits)

lemma queue_edge_typed: "walk_inv load rs q v \<Longrightarrow> e \<in> set (q_queue q) \<Longrightarrow> graph_intact load rs \<Longrightarrow> typed_edge load e"
  using walk_invD(7) unfolding graph_intact_def by metis

text \<open>An edge that leaves the queue as it is: the object was seen before, or cannot be read or decoded.\<close>

lemma fsck_inv_skip:
  assumes inv: "fsck_inv load rs ok n (q, v, r)" and q: "q_queue q = e # rest"
    and step: "fr_ok r' \<longrightarrow> fr_ok r \<and> v' = v \<and> fr_checked_objects r' = fr_checked_objects r \<and> (\<exists>ty. map_of v (ge_id e) = Some ty \<and> accepts (ge_expected e) ty)"
    and bad: "fr_ok r \<and> \<not> fr_ok r' \<longrightarrow> \<not> typed_edge load e"
  shows "fsck_inv load rs ok n (q\<lparr>q_queue := rest\<rparr>, v', r')"
proof (cases "fr_ok r'")
  case True
  then have "walk_inv load rs (q\<lparr>q_queue := rest\<rparr>) v'" using walk_inv_seen [OF _ q] inv step by (auto simp: fsck_inv_def)
  then show ?thesis using True inv step q by (auto simp: fsck_inv_def queue_ok_pop)
next
  case False
  have "\<not> (ok \<and> graph_intact load rs)"
  proof (cases "fr_ok r")
    case True
    then have "walk_inv load rs q v" "\<not> typed_edge load e" using inv bad False by (auto simp: fsck_inv_def)
    then show ?thesis using queue_edge_typed [of load rs q v e] q by auto
  qed (use inv in \<open>simp add: fsck_inv_def\<close>)
  then show ?thesis using False inv q by (auto simp: fsck_inv_def queue_ok_pop)
qed

lemma fsck_inv_load:
  assumes inv: "fsck_inv load rs ok n (q, v, r)" and q: "q_queue q = e # rest"
    and new: "map_of v (ge_id e) = None" "load (ge_id e) = Some (Inr d)"
    and sch: "try_fold schedule (dg_edges d) (q\<lparr>q_queue := rest\<rparr>) = Inr q'"
    and r': "fr_ok r' \<longleftrightarrow> fr_ok r \<and> accepts (ge_expected e) (dg_object_type d)" "fr_checked_objects r' = fr_checked_objects r + 1"
  shows "fsck_inv load rs ok n (q', (ge_id e, dg_object_type d) # v, r')"
proof -
  have ok: "queue_ok q" "q_scheduled_ids q \<subseteq> graph_from load rs" "ge_id ` set (q_queue q) \<subseteq> graph_from load rs"
    using inv by (auto simp: fsck_inv_def)
  obtain more where s: "queue_ok q'" "q_scheduled q' = q_scheduled q \<union> constraint ` set (dg_edges d)" "q_queue q' = rest @ more" "set more \<subseteq> set (dg_edges d)"
    using schedules_Inr [OF sch] ok(1) by (auto simp: queue_ok_pop)
  have e: "ge_id ` set (dg_edges d) \<subseteq> graph_from load rs"
    using graph_from_edge [of "ge_id e" load rs] ok(3) q new(2) by (auto simp: graph_edge_def)
  have "q_scheduled_ids q' = q_scheduled_ids q \<union> ge_id ` set (dg_edges d)"
    unfolding scheduled_ids [OF s(1)] scheduled_ids [OF ok(1)] by (simp add: s(2) image_Un image_image constraint_def)
  then have base: "q_scheduled_ids q' \<subseteq> graph_from load rs" "ge_id ` set (q_queue q') \<subseteq> graph_from load rs"
    using ok(2,3) e order_trans [OF image_mono [OF s(4), of ge_id] e] unfolding s(3) q by (simp_all add: image_Un)
  show ?thesis
  proof (cases "fr_ok r'")
    case True
    then have w: "walk_inv load rs q v" "accepts (ge_expected e) (dg_object_type d)" using inv r'(1) by (auto simp: fsck_inv_def)
    show ?thesis using walk_inv_load [OF w(1) q new w(2) sch] True inv r' base s(1) by (auto simp: fsck_inv_def)
  next
    case False
    have "\<not> (ok \<and> graph_intact load rs)"
    proof (cases "fr_ok r")
      case True
      then have "\<not> typed_edge load e" using False r'(1) new(2) by (auto simp: typed_edge_def)
      then show ?thesis using queue_edge_typed [of load rs q v e] True inv q by (auto simp: fsck_inv_def)
    qed (use inv in \<open>simp add: fsck_inv_def\<close>)
    then show ?thesis using False base s(1) by (simp add: fsck_inv_def)
  qed
qed

lemma fsck_visit_cases:
  assumes "fsck_visit (\<lambda>i. store_get H i st) e (q, v, r) = Some (Inr (q', v', r'))"
  obtains ty where "map_of v (ge_id e) = Some ty" "q' = q" "v' = v" "r' = check_object_expectation e ty r"
  | x where "map_of v (ge_id e) = None" "load_graph_object H st (ge_id e) = Some (Inl x)" "q' = q" "\<not> fr_ok r'"
  | d where "map_of v (ge_id e) = None" "load_graph_object H st (ge_id e) = Some (Inr d)"
      "try_fold schedule (dg_edges d) q = Inr q'" "v' = (ge_id e, dg_object_type d) # v"
      "r' = check_object_expectation e (dg_object_type d) (r\<lparr>fr_checked_objects := fr_checked_objects r + 1\<rparr>)"
proof (cases "map_of v (ge_id e)")
  case (Some ty)
  then have "(q', v', r') = (q, v, check_object_expectation e ty r)" using assms by (simp add: fsck_visit_def)
  then show ?thesis using Some by (intro that(1)) simp_all
next
  case None
  show ?thesis
  proof (cases "store_get H (ge_id e) st")
    case (Inl x)
    then show ?thesis using assms None by (intro that(2) [of x]) (auto simp: fsck_visit_def graph_load)
  next
    case (Inr bs)
    show ?thesis
    proof (cases "decode_graph_object (ge_id e) bs")
      case None
      have "decode_object_type bs \<noteq> Inl x" for x using decode_graph_type(2) [of bs x "ge_id e"] None by auto
      then show ?thesis using assms \<open>map_of v (ge_id e) = None\<close> Inr None by (auto simp: fsck_visit_def Let_def split: sum.splits)
    next
      case (Some z)
      show ?thesis
      proof (cases z)
        case (Inl x)
        then show ?thesis using assms None \<open>store_get _ _ _ = _\<close> Some
          by (intro that(2) [of x]) (auto simp: fsck_visit_def Let_def graph_load split: sum.splits)
      next
        case (Inr d)
        then show ?thesis using assms None \<open>store_get _ _ _ = _\<close> Some
          by (intro that(3) [of d]) (auto simp: fsck_visit_def Let_def graph_load and_then_Inr_iff decode_graph_type(1))
      qed
    qed
  qed
qed

lemma fsck_visit_step:
  assumes inv: "fsck_inv (load_graph_object H st) rs ok n (q, v, r)" and q: "q_queue q = e # rest"
    and run: "fsck_visit (\<lambda>i. store_get H i st) e (q\<lparr>q_queue := rest\<rparr>, v, r) = Some (Inr (q', v', r'))"
  shows "fsck_inv (load_graph_object H st) rs ok n (q', v', r') \<and> q_limit q' = q_limit q \<and> work_left q' < work_left q"
proof -
  have qok: "queue_ok q" using inv by (simp add: fsck_inv_def)
  have skip: "q_limit q' = q_limit q \<and> work_left q' < work_left q" if "q' = q\<lparr>q_queue := rest\<rparr>" using that q by (simp add: work_left_def)
  note visit = fsck_visit_cases [OF run]
  show ?thesis
  proof (cases rule: visit)
    case (1 ty)
    note seen = this
    have "fsck_inv (load_graph_object H st) rs ok n (q\<lparr>q_queue := rest\<rparr>, v', r')"
    proof (rule fsck_inv_skip [OF inv q])
      show "fr_ok r \<and> \<not> fr_ok r' \<longrightarrow> \<not> typed_edge (load_graph_object H st) e"
        using walk_invD(5) [of "load_graph_object H st" rs q v "ge_id e" ty] inv seen by (fastforce simp: fsck_inv_def typed_edge_def)
    qed (use seen in auto)
    then show ?thesis using skip seen(2) by simp
  next
    case (2 x)
    note unread = this
    have "fsck_inv (load_graph_object H st) rs ok n (q\<lparr>q_queue := rest\<rparr>, v', r')"
      by (rule fsck_inv_skip [OF inv q]) (use unread in \<open>auto simp: typed_edge_def\<close>)
    then show ?thesis using skip unread(3) by simp
  next
    case (3 d)
    note load = this
    have "fsck_inv (load_graph_object H st) rs ok n (q', v', r')"
      unfolding load(4) by (rule fsck_inv_load [OF inv q load(1-3)]) (simp_all add: load(5))
    moreover from this have "card (q_scheduled q') \<le> 256 * q_limit q'" using scheduled_bound by (simp add: fsck_inv_def)
    moreover obtain more where "q_limit q' = q_limit q" "q_queue q' = rest @ more" "card (q_scheduled q') = card (q_scheduled q) + length more"
      using schedules_Inr [OF load(3)] qok by (auto simp: queue_ok_pop)
    ultimately show ?thesis using q by (simp add: work_left_def)
  qed
qed

lemma fsck_visit_stops:
  assumes inv: "fsck_inv (load_graph_object H st) rs ok n (q, v, r)" and q: "q_queue q = e # rest"
    and run: "fsck_visit (\<lambda>i. store_get H i st) e (q\<lparr>q_queue := rest\<rparr>, v, r) = Some (Inl x)"
  shows "x = walk_limit_exceeded \<and> \<not> (finite (graph_from (load_graph_object H st) rs) \<and> card (graph_from (load_graph_object H st) rs) \<le> q_limit q)"
proof -
  let ?G = "graph_from (load_graph_object H st) rs"
  have i: "queue_ok (q\<lparr>q_queue := rest\<rparr>)" "q_scheduled_ids q \<subseteq> ?G" "ge_id e \<in> ?G" using inv q by (auto simp: fsck_inv_def queue_ok_pop)
  obtain bs d where d: "store_get H (ge_id e) st = Inr bs" "decode_graph_object (ge_id e) bs = Some (Inr d)"
      "try_fold schedule (dg_edges d) (q\<lparr>q_queue := rest\<rparr>) = Inl x"
    using run by (auto simp: fsck_visit_def Let_def and_then_Inl_iff split: option.splits sum.splits) (metis obj_sumE)
  have "ge_id ` set (dg_edges d) \<subseteq> ?G"
    using graph_from_edge [OF i(3)] d(1,2) by (auto simp: graph_edge_def graph_load)
  then have "q_limit q < card ?G" if "finite ?G" using schedules_Inl [OF d(3) i(1), of ?G] i(2) that by simp
  then show ?thesis using schedules_error [OF d(3)] by auto
qed

lemma fsck_visit_returns: "fsck_visit get e s \<noteq> None"
proof -
  have "decode_graph_object i bs \<noteq> None" for i bs
    using contribution_decode_returns by (auto simp: decode_graph_object_def split: sum.splits ObjectType.splits)
  then show ?thesis by (cases s) (simp add: fsck_visit_def Let_def split: option.split sum.split)
qed

lemma fsck_loop_exact:
  assumes "fsck_inv (load_graph_object H st) rs ok n (q, v, r)"
  shows "\<exists>z. fsck_loop (\<lambda>i. store_get H i st) (q, v, r) = Some z \<and> (case z of
      Inl x \<Rightarrow> x = walk_limit_exceeded \<and> \<not> (finite (graph_from (load_graph_object H st) rs) \<and> card (graph_from (load_graph_object H st) rs) \<le> q_limit q)
    | Inr r' \<Rightarrow> (fr_ok r' \<longleftrightarrow> ok \<and> graph_intact (load_graph_object H st) rs) \<and>
        (fr_ok r' \<longrightarrow> walk_ok (load_graph_object H st) rs (q_limit q) \<and> fr_checked_objects r' = n + card (graph_from (load_graph_object H st) rs)))"
  using assms
proof (induction "work_left q" arbitrary: q v r rule: less_induct)
  case less
  let ?load = "load_graph_object H st"
  show ?case
  proof (cases "q_queue q")
    case Nil
    have "fsck_loop (\<lambda>i. store_get H i st) (q, v, r) = Some (Inr r)" by (subst fsck_loop.simps) (simp add: Nil)
    moreover have "ok \<and> walk_ok ?load rs (q_limit q) \<and> fr_checked_objects r = n + card (graph_from ?load rs)" if ok: "fr_ok r"
    proof -
      have w: "walk_inv ?load rs q v" "ok" "fr_checked_objects r = n + length v" using less.prems ok by (auto simp: fsck_inv_def)
      have "length v = card (fst ` set v)" using walk_invD(3) [OF w(1)] distinct_card [of "map fst v"] by simp
      then show ?thesis using walk_inv_done [OF w(1) Nil] w by simp
    qed
    moreover have "\<not> (ok \<and> graph_intact ?load rs)" if "\<not> fr_ok r" using less.prems that by (simp add: fsck_inv_def)
    ultimately show ?thesis by (auto simp: walk_ok_def)
  next
    case (Cons e rest)
    obtain z where z: "fsck_visit (\<lambda>i. store_get H i st) e (q\<lparr>q_queue := rest\<rparr>, v, r) = Some z" using fsck_visit_returns by blast
    show ?thesis
    proof (cases z)
      case (Inl x)
      have "fsck_loop (\<lambda>i. store_get H i st) (q, v, r) = Some (Inl x)" by (subst fsck_loop.simps) (simp add: Cons z Inl)
      then show ?thesis using fsck_visit_stops [OF less.prems Cons] z Inl by simp
    next
      case (Inr s)
      obtain q' v' r' where s: "s = (q', v', r')" by (cases s)
      have step: "fsck_inv ?load rs ok n (q', v', r')" "q_limit q' = q_limit q" "work_left q' < work_left q"
        using fsck_visit_step [OF less.prems Cons] z Inr s by auto
      have "fsck_loop (\<lambda>i. store_get H i st) (q, v, r) = fsck_loop (\<lambda>i. store_get H i st) (q', v', r')"
        by (subst fsck_loop.simps) (simp add: Cons z Inr s)
      then show ?thesis using less.hyps [OF step(3,1)] unfolding step(2) by simp
    qed
  qed
qed

definition root_edges :: "fsck_root list \<Rightarrow> GraphEdge set" where
  "root_edges rs = (\<lambda>(i, expected, resource). \<lparr>ge_id = i, ge_expected = expected, ge_resource = resource\<rparr>) ` set rs"

lemma try_fold_map: "try_fold f (map g xs) s = try_fold (\<lambda>x. f (g x)) xs s"
  by (induction xs arbitrary: s) (auto simp: and_then_def split: sum.split)

lemma verify_graph_exact:
  "\<exists>z. verify_graph (\<lambda>i. store_get H i st) limit rs r = Some z \<and> (case z of
      Inl x \<Rightarrow> x = walk_limit_exceeded \<and> \<not> (finite (graph_from (load_graph_object H st) (root_edges rs)) \<and>
        card (graph_from (load_graph_object H st) (root_edges rs)) \<le> limit)
    | Inr r' \<Rightarrow> (fr_ok r' \<longleftrightarrow> fr_ok r \<and> graph_intact (load_graph_object H st) (root_edges rs)) \<and>
        (fr_ok r' \<longrightarrow> walk_ok (load_graph_object H st) (root_edges rs) limit \<and>
          fr_checked_objects r' = fr_checked_objects r + card (graph_from (load_graph_object H st) (root_edges rs))))"
proof -
  let ?e = "\<lambda>(i, expected, resource). \<lparr>ge_id = i, ge_expected = expected, ge_resource = resource\<rparr> :: GraphEdge"
    and ?load = "load_graph_object H st" and ?R = "root_edges rs"
  have R: "set (map ?e rs) = ?R" by (auto simp: root_edges_def)
  have ids: "ge_id ` ?R \<subseteq> graph_from ?load ?R" using graph_from_root by blast
  have sch: "try_fold (\<lambda>(i, expected, resource). schedule \<lparr>ge_id = i, ge_expected = expected, ge_resource = resource\<rparr>) rs (with_limit limit) =
      try_fold schedule (map ?e rs) (with_limit limit)"
    unfolding try_fold_map by (intro try_fold_cong) auto
  show ?thesis
  proof (cases "try_fold schedule (map ?e rs) (with_limit limit)")
    case (Inl x)
    have "limit < card (graph_from ?load ?R)" if "finite (graph_from ?load ?R)"
      using schedules_Inl [OF Inl queue_ok_with_limit _ that] ids R by (simp add: with_limit_def)
    then show ?thesis using Inl schedules_error [OF Inl] by (auto simp: verify_graph_def sch)
  next
    case (Inr q)
    obtain new where n: "queue_ok q" "q_limit q = limit" "q_scheduled q = constraint ` ?R" "q_queue q = new" "set new \<subseteq> ?R" "q_scheduled q = constraint ` set new"
      using schedules_Inr [OF Inr queue_ok_with_limit] R by (auto simp: with_limit_def)
    have s: "q_scheduled_ids q = ge_id ` ?R" using scheduled_ids [OF n(1)] n(3) by (simp add: image_image constraint_def)
    have q: "ge_id ` set new \<subseteq> graph_from ?load ?R" using n(5) ids by blast
    have "constraint e \<in> constraint ` set new" if "constraint e \<in> q_scheduled q" for e using that n(6) by simp
    then have "walk_inv ?load ?R q []" using n s ids q unfolding walk_inv_def by auto
    then have "fsck_inv ?load ?R (fr_ok r) (fr_checked_objects r) (q, [], r)"
      using n(1,4) s ids q by (simp add: fsck_inv_def)
    from fsck_loop_exact [OF this, unfolded n(2)] show ?thesis by (simp add: verify_graph_def sch Inr)
  qed
qed

section \<open>Collecting the roots\<close>

text \<open>Collection adds roots and findings, and takes neither back.\<close>

definition collects :: "collected \<Rightarrow> collected \<Rightarrow> bool" where
  "collects s s' \<longleftrightarrow> (fr_ok (fst s') \<longrightarrow> fr_ok (fst s)) \<and> fst ` set (snd s) \<subseteq> fst ` set (snd s') \<and>
    fr_checked_objects (fst s') = fr_checked_objects (fst s)"

definition covers :: "oid \<Rightarrow> collected \<Rightarrow> bool" where
  "covers i s \<longleftrightarrow> (fr_ok (fst s) \<longrightarrow> i \<in> fst ` set (snd s))"

lemma collects_refl [simp]: "collects s s"
  by (simp add: collects_def)

lemma collects_trans: "collects a b \<Longrightarrow> collects b d \<Longrightarrow> collects a d"
  unfolding collects_def by auto

lemma collects_add [simp]: "collects s (add_root i x r s)" "collects s (add_finding k r d s)"
  by (auto simp: collects_def add_root_def add_finding_def split: prod.split)

lemma collects_add_trans: "collects a s \<Longrightarrow> collects a (add_root i x r s)" "collects a s \<Longrightarrow> collects a (add_finding k r d s)"
  by (metis collects_trans collects_add)+

lemma collects_fold: "(\<And>x s. x \<in> set xs \<Longrightarrow> collects s (f x s)) \<Longrightarrow> collects s (fold f xs s)"
proof (induction xs arbitrary: s)
  case (Cons x xs)
  have "collects s (f x s)" "collects (f x s) (fold f xs (f x s))" using Cons by simp_all
  then show ?case using collects_trans by simp
qed simp

lemma covers_collects: "covers i s \<Longrightarrow> collects s s' \<Longrightarrow> covers i s'"
  unfolding covers_def collects_def by blast

lemma covers_add [simp]: "covers i (add_root i x r s)" "covers i (add_finding k r d s)"
  by (simp_all add: covers_def add_root_def add_finding_def case_prod_unfold)

lemma add_finding_ok [simp]: "\<not> fr_ok (fst (add_finding k r d s))" "fr_ok (fst (add_root i x r s)) = fr_ok (fst s)"
  by (simp_all add: add_finding_def add_root_def case_prod_unfold)

text \<open>What one pass establishes for each row of a table holds when the pass is over.\<close>

lemma fold_row:
  assumes "x \<in> set xs" "\<And>s. P (f x s)" "\<And>y s. collects s (f y s)" "\<And>s s'. P s \<Longrightarrow> collects s s' \<Longrightarrow> P s'"
  shows "P (fold f xs s)"
proof -
  obtain ys zs where xs: "xs = ys @ x # zs" using assms(1) by (meson split_list)
  have "collects (f x (fold f ys s)) (fold f zs (f x (fold f ys s)))" by (intro collects_fold assms(3))
  from assms(4) [OF assms(2) this] show ?thesis by (simp add: xs)
qed

lemma fold_covers:
  assumes "x \<in> set xs" "\<And>s. covers i (f x s)" "\<And>y s. collects s (f y s)"
  shows "covers i (fold f xs s)"
  using fold_row [of x xs "covers i"] assms covers_collects by blast

lemma fold_clean:
  assumes "x \<in> set xs" "\<And>s. fr_ok (fst (f x s)) \<Longrightarrow> Q" "\<And>y s. collects s (f y s)" "fr_ok (fst (fold f xs s))"
  shows Q
  using fold_row [of x xs "\<lambda>s. fr_ok (fst s) \<longrightarrow> Q"] assms unfolding collects_def by blast

section \<open>The full check\<close>

lemma payload_keeps: "act_keeps (=) (verify_seal_payload E K tag a b d)"
  unfolding verify_seal_payload_def verb_scope_def
  by (intro act_keeps_bind act_keeps_pure) (auto simp: act_keeps_def transp_def reflp_def case_prod_unfold act_bind_Some)

lemma audit_mount_collects: "collects s (collect_audit_mount a m s)"
  by (auto simp: collect_audit_mount_def Let_def split: prod.split sum.split Spec.split option.split intro: collects_add_trans)

lemma audit_mount_covers: "parse_spec (m_spec m) = Inr (SpecOid i) \<Longrightarrow> covers i (collect_audit_mount a (k, m) s)"
  by (cases k) (simp add: collect_audit_mount_def Let_def)

lemma collect_seal_Some:
  assumes "collect_seal E K (tag, a, b, d) s w = Some (r, w')"
  obtains z where "w' = w" "verify_seal_payload E K tag a b d w = Some (z, w)"
    "r = Inr (case z of Inl e \<Rightarrow> add_finding ''SEAL_PAYLOAD'' (''catalog:seal:'' @ tag) (error_string e) s | Inr _ \<Rightarrow> s)"
proof -
  obtain z w1 where z: "verify_seal_payload E K tag a b d w = Some (z, w1)" "w' = w1"
      "r = Inr (case z of Inl e \<Rightarrow> add_finding ''SEAL_PAYLOAD'' (''catalog:seal:'' @ tag) (error_string e) s | Inr _ \<Rightarrow> s)"
    using assms by (auto simp: collect_seal_def attempt_def act_bind_Some)
  moreover have "w1 = w" using payload_keeps [of E K tag a b d] z(1) unfolding act_keeps_def by metis
  ultimately show ?thesis using that by blast
qed

lemma collect_seals:
  assumes "act_fold (collect_seal E K) rows s w = Some (r, w')"
  shows "w' = w \<and> (\<exists>s'. r = Inr s' \<and> collects s s' \<and> snd s' = snd s \<and>
    (fr_ok (fst s') \<longrightarrow> (\<forall>(tag, a, b, d) \<in> set rows. \<exists>x. verify_seal_payload E K tag a b d w = Some (Inr x, w))))"
  using assms
proof (induction rows arbitrary: s)
  case (Cons row rows)
  obtain tag a b d where row: "row = (tag, a, b, d)" by (cases row)
  obtain r1 w1 where run: "collect_seal E K (tag, a, b, d) s w = Some (r1, w1)"
    using Cons.prems by (auto simp: row act_bind_Some)
  obtain z where z: "w1 = w" "verify_seal_payload E K tag a b d w = Some (z, w)"
      "r1 = Inr (case z of Inl e \<Rightarrow> add_finding ''SEAL_PAYLOAD'' (''catalog:seal:'' @ tag) (error_string e) s | Inr _ \<Rightarrow> s)"
    by (rule collect_seal_Some [OF run])
  let ?s = "case z of Inl e \<Rightarrow> add_finding ''SEAL_PAYLOAD'' (''catalog:seal:'' @ tag) (error_string e) s | Inr _ \<Rightarrow> s"
  have "act_fold (collect_seal E K) rows ?s w = Some (r, w')" using Cons.prems run z(1,3) by (simp add: row act_bind_def)
  from Cons.IH [OF this] obtain s' where s': "w' = w" "r = Inr s'" "collects ?s s'" "snd s' = snd ?s"
      "fr_ok (fst s') \<longrightarrow> (\<forall>(tag, a, b, d) \<in> set rows. \<exists>x. verify_seal_payload E K tag a b d w = Some (Inr x, w))" by blast
  have "collects s ?s" by (simp split: sum.split)
  moreover have "snd ?s = snd s" by (simp add: add_finding_def case_prod_unfold split: sum.split)
  moreover have "\<exists>x. z = Inr x" if "fr_ok (fst s')" using s'(3) that by (cases z) (auto simp: collects_def)
  ultimately show ?case using s' z(2) collects_trans by (fastforce simp: row)
qed auto

lemma audit_rows:
  "set (mount_rows (audit_catalog c)) = set (mounts c)" "set (seal_rows (audit_catalog c)) = set (list_seals c)"
  by (simp_all add: audit_catalog_def audit_finish_def)

lemma full_catalog:
  assumes "collect_full_catalog E K ((audit_catalog c)\<lparr>findings := fs\<rparr>) s w = Some (r, w')"
  obtains s' where "w' = w" "r = Inr s'" "collects s s'"
    "fr_ok (fst s') \<longrightarrow> fs = []"
    "fr_ok (fst s') \<longrightarrow> (\<forall>(tag, a, b, d) \<in> set (list_seals c). \<exists>x. verify_seal_payload E K tag a b d w = Some (Inr x, w))"
    "fr_ok (fst s') \<longrightarrow> root_oids (gc_roots c) \<union> intro_oids c \<subseteq> fst ` set (snd s')"
proof -
  let ?a = "(audit_catalog c)\<lparr>findings := fs\<rparr>"
  let ?find = "\<lambda>f. add_finding (cf_code f) (cf_resource f) (cf_detail f)"
    and ?root = "\<lambda>r. add_root (cr_oid r) (graph_expectation (cr_expected r)) (cr_resource r)"
  define s0 where "s0 = ((fst s)\<lparr>fr_checked_refs := length (ref_rows ?a), fr_checked_namespaces := length (namespace_rows ?a)\<rparr>, snd s)"
  define s1 where "s1 = fold (collect_audit_mount ?a) (mount_rows ?a) s0"
  have run: "act_bind (act_fold (collect_seal E K) (seal_rows ?a) s1) (\<lambda>s2. act_ret (fold ?root (CatalogAudit.roots (audit_catalog c)) (fold ?find fs s2))) w = Some (r, w')"
    using assms by (simp add: collect_full_catalog_def Let_def case_prod_unfold s0_def s1_def)
  then obtain z w1 where z: "act_fold (collect_seal E K) (seal_rows ?a) s1 w = Some (z, w1)" by (auto simp: act_bind_Some)
  obtain s2 where s2: "w1 = w" "z = Inr s2" "collects s1 s2"
      "fr_ok (fst s2) \<longrightarrow> (\<forall>(tag, a, b, d) \<in> set (seal_rows ?a). \<exists>x. verify_seal_payload E K tag a b d w = Some (Inr x, w))"
    using collect_seals [OF z] by blast
  have res: "r = Inr (fold ?root (CatalogAudit.roots (audit_catalog c)) (fold ?find fs s2))" "w' = w"
    using run z s2(1,2) by (simp_all add: act_bind_def)
  define s3 where "s3 = fold ?find fs s2"
  define s4 where "s4 = fold ?root (CatalogAudit.roots (audit_catalog c)) s3"
  have "collects s s0" by (simp add: collects_def s0_def)
  moreover have "collects s0 s1" unfolding s1_def by (intro collects_fold audit_mount_collects)
  moreover have c3: "collects s2 s3" unfolding s3_def by (intro collects_fold) simp
  moreover have c4: "collects s3 s4" unfolding s4_def by (intro collects_fold) simp
  ultimately have all: "collects s s4" "collects s1 s4" using s2(3) by (meson collects_trans)+
  have fnd: "fs = []" if ok: "fr_ok (fst s4)"
  proof (rule ccontr)
    assume "fs \<noteq> []"
    then obtain f where f: "f \<in> set fs" by (cases "fs") auto
    have "fr_ok (fst (fold ?find fs s2))" using c4 ok by (simp add: collects_def s3_def)
    from fold_clean [OF f _ _ this, of False] show False by simp
  qed
  have "covers i s4" if "((n, p), m) \<in> set (mounts c)" "parse_spec (m_spec m) = Inr (SpecOid i)" for n p m i
  proof (rule covers_collects [OF _ all(2)])
    show "covers i s1" unfolding s1_def
      by (rule fold_covers [of "((n, p), m)"]) (use that audit_rows audit_mount_covers audit_mount_collects in auto)
  qed
  then have raw: "i \<in> fst ` set (snd s4)" if "i \<in> raw_mounts (gc_roots c)" "fr_ok (fst s4)" for i
    using that by (fastforce simp: raw_mounts_def gc_roots_def read_gc_roots_def covers_def)
  have "covers (cr_oid x) s4" if "x \<in> set (CatalogAudit.roots (audit_catalog c))" for x
    unfolding s4_def by (rule fold_covers [OF that]) simp_all
  then have "gc_oids (gc_roots c) \<union> intro_oids c \<subseteq> fst ` set (snd s4)" if "fr_ok (fst s4)"
    unfolding gc_roots_are_audit_roots [symmetric] using that unfolding covers_def by blast
  then have cov: "root_oids (gc_roots c) \<union> intro_oids c \<subseteq> fst ` set (snd s4)" if "fr_ok (fst s4)"
    unfolding root_oids_def using that raw by blast
  have seals: "\<forall>(tag, a, b, d) \<in> set (list_seals c). \<exists>x. verify_seal_payload E K tag a b d w = Some (Inr x, w)" if "fr_ok (fst s4)"
    using s2(4) c3 c4 that unfolding collects_def by (simp add: audit_rows)
  show ?thesis by (rule that [OF _ _ all(1)]) (use res fnd seals cov in \<open>simp_all add: s3_def s4_def\<close>)
qed

lemma fold_related:
  "(\<And>x a s. x \<in> set xs \<Longrightarrow> J a s \<Longrightarrow> J (f x a) (g x s)) \<Longrightarrow> J a s \<Longrightarrow> J (fold f xs a) (fold g xs s)"
  by (induction xs arbitrary: a s) auto

lemma scan_file_collects: "collects s (scan_path_file d a b x s)"
proof -
  have "collects s (if P then add_finding k r z s else s)" for P k r z by simp
  then show ?thesis unfolding scan_path_file_def Let_def by (auto intro: collects_add_trans split: prod.split FsNode.split sum.split simp del: if_split)
qed

lemma scan_shard_collects: "collects s (scan_path_shard d a x s)"
  by (auto simp: scan_path_shard_def intro: collects_fold scan_file_collects split: prod.split FsNode.split)

text \<open>The scan of the check and the scan of the collector see the same files.\<close>

definition scans_agree :: "nat \<times> ScannedObject list \<Rightarrow> collected \<Rightarrow> bool" where
  "scans_agree u s \<longleftrightarrow> (fr_ok (fst s) \<longrightarrow> fst u = 0 \<and>
    (\<forall>x \<in> set (snd u). take 2 (so_path x) = take 2 (object_path (so_id x)) \<and> so_id x \<in> fst ` set (snd s)))"

lemma scan_file_agrees: "scans_agree u s \<Longrightarrow> scans_agree (scan_file t a b x u) (scan_path_file d a b x s)"
  unfolding scan_file_def scan_path_file_def
  by (cases x; cases u; cases "snd x"; cases "from_hex (fst x)")
    (auto simp: scans_agree_def Let_def add_root_def add_finding_def object_path_def prod_eq_iff [of "(_, _)"] split: prod.splits)

lemma scan_shard_agrees: "scans_agree u s \<Longrightarrow> scans_agree (scan_shard t a x u) (scan_path_shard d a x s)"
proof (cases x)
  case (Pair b node)
  assume u: "scans_agree u s"
  show ?thesis
  proof (cases node)
    case (FsDir len m sub)
    have "scans_agree (fold (scan_file t a b) sub u) (fold (scan_path_file d a b) sub s)"
      by (rule fold_related [where J = scans_agree, OF scan_file_agrees u])
    then show ?thesis by (simp add: Pair FsDir scan_shard_def scan_path_shard_def)
  qed (simp_all add: Pair scan_shard_def scan_path_shard_def scans_agree_def)
qed

lemma scan_agrees:
  assumes "scans_agree (0, []) s"
  shows "scans_agree (scan_objects t dir) (scan_all_object_paths repo dir s)"
  unfolding scan_objects_def scan_all_object_paths_def
proof (rule fold_related [where J = scans_agree, OF _ assms])
  fix x :: "string \<times> FsNode" and u s
  assume u: "scans_agree u s"
  obtain a node where x: "x = (a, node)" by (cases x)
  show "scans_agree ((\<lambda>(a, node) s. case node of FsDir _ _ sub \<Rightarrow> fold (scan_shard t a) sub s | _ \<Rightarrow> (fst s + 1, snd s)) x u)
    ((\<lambda>(a, node) s. case node of FsDir _ _ sub \<Rightarrow> fold (scan_path_shard (repo @ ''/objects'') a) sub s
      | _ \<Rightarrow> add_finding ''OBJECT_LAYOUT'' (repo @ ''/objects/'' @ a) ''expected first-level shard directory'' s) x s)"
  proof (cases node)
    case (FsDir len m sub)
    have "scans_agree (fold (scan_shard t a) sub u) (fold (scan_path_shard (repo @ ''/objects'') a) sub s)"
      by (rule fold_related [where J = scans_agree, OF scan_shard_agrees u])
    then show ?thesis by (simp add: x FsDir)
  qed (simp_all add: x scans_agree_def)
qed

lemma staging_report:
  "fr_checked_objects (fold (\<lambda>path. report_finding k (f path) d) ps r) = fr_checked_objects r"
  "fr_ok (fold (\<lambda>path. report_finding k (f path) d) ps r) \<longleftrightarrow> fr_ok r \<and> ps = []"
  by (induction ps arbitrary: r) auto

lemma root_edges_ids: "ge_id ` root_edges rs = fst ` set rs"
  by (force simp: root_edges_def)

lemma verify_graph_clean:
  assumes "verify_graph (\<lambda>i. store_get H i st) limit rs r = Some (Inr r')" "fr_ok r'"
  shows "fr_ok r" "walk_ok (load_graph_object H st) (root_edges rs) limit"
    "fr_checked_objects r' = fr_checked_objects r + card (graph_from (load_graph_object H st) (root_edges rs))"
  using verify_graph_exact [of H st limit rs r] assms by auto

lemma finish_fields [simp]: "fr_ok (report_finish r) = fr_ok r" "fr_checked_objects (report_finish r) = fr_checked_objects r"
  by (simp_all add: report_finish_def)

text \<open>A check that returns a report has collected its roots and walked them.\<close>

lemma fsck_run:
  assumes "forge_fsck E K F now cap full g = Some (Inr r, g')"
  obtains report rs g1 r1 where "fsck_refusal E F now cap full (fw_forge g) = Inr None"
    "collect_roots E K F now cap full (fold (\<lambda>path. report_finding ''INIT_STAGING'' (''path:'' @ path) ''orphaned repository-initialization staging path'')
      (init_staging_siblings F) (fsck_report full)) g = Some (Inr (report, rs), g1)"
    "verify_graph (\<lambda>i. store_get (env_hash E) i (objects (fw_forge g1))) (se_limit K) rs report = Some (Inr r1)"
    "r = report_finish r1" "g' = count_fsck r g1"
  using assms by (auto simp: forge_fsck_def act_bind_Inr_iff Let_def split: option.splits)

lemma full_check_run:
  assumes run: "forge_fsck E K F now cap True g = Some (Inr r, g')" "fr_ok r"
    and defs: "g1 = fe_others F g" "c = f_meta (fw_forge g)" "load = load_graph_object (env_hash E) (objects (fw_forge g1))"
  obtains rs where "walk_ok load (root_edges rs) (se_limit K)" "fr_checked_objects r = card (graph_from load (root_edges rs))"
    "root_oids (gc_roots c) \<union> intro_oids c \<subseteq> fst ` set rs" "audit_ledger (fe_ledger F) @ findings (audit_catalog c) = []"
    "\<forall>(tag, a, b, d) \<in> set (list_seals c). \<exists>x. verify_seal_payload E K tag a b d (fw_forge g1) = Some (Inr x, fw_forge g1)"
    "\<And>t. scans_agree (scan_objects t (fw_dir g1)) (fsck_report True, rs)" "fw_forge g' = fw_forge g1"
proof -
  let ?r0 = "fold (\<lambda>path. report_finding ''INIT_STAGING'' (''path:'' @ path) ''orphaned repository-initialization staging path'')
      (init_staging_siblings F) (fsck_report True)"
  obtain report rs g2 r1 where col: "collect_roots E K F now cap True ?r0 g = Some (Inr (report, rs), g2)"
    and ver: "verify_graph (\<lambda>i. store_get (env_hash E) i (objects (fw_forge g2))) (se_limit K) rs report = Some (Inr r1)"
    and r: "r = report_finish r1" "g' = count_fsck r g2"
    by (rule fsck_run [OF run(1)])
  obtain z w where full: "collect_full_catalog E K ((audit_catalog c)\<lparr>findings := audit_ledger (fe_ledger F) @ findings (audit_catalog c)\<rparr>) (?r0, []) (fw_forge g1) = Some (z, w)"
    using col by (auto simp: collect_roots_def Let_def act_bind_Some on_forge_def defs)
  obtain s' where s': "w = fw_forge g1" "z = Inr s'" "collects (?r0, []) s'" "fr_ok (fst s') \<longrightarrow> audit_ledger (fe_ledger F) @ findings (audit_catalog c) = []"
      "fr_ok (fst s') \<longrightarrow> (\<forall>(tag, a, b, d) \<in> set (list_seals c). \<exists>x. verify_seal_payload E K tag a b d (fw_forge g1) = Some (Inr x, fw_forge g1))"
      "fr_ok (fst s') \<longrightarrow> root_oids (gc_roots c) \<union> intro_oids c \<subseteq> fst ` set (snd s')"
    by (rule full_catalog [OF full])
  have sc: "(report, rs) = scan_all_object_paths (fw_root g1) (fw_dir g1) s'" "g2 = g1"
    using col full s'(1,2) by (auto simp: collect_roots_def Let_def act_bind_def on_forge_def defs)
  have clean: "fr_ok report" "walk_ok load (root_edges rs) (se_limit K)" "fr_checked_objects r1 = fr_checked_objects report + card (graph_from load (root_edges rs))"
    using verify_graph_clean [OF ver] run(2) r(1) by (simp_all add: defs(3) sc(2))
  have grow: "collects s' (report, rs)" unfolding sc(1) scan_all_object_paths_def
    by (auto intro!: collects_fold scan_shard_collects split: FsNode.split)
  have ok: "fr_ok (fst s')" using grow clean(1) by (simp add: collects_def)
  have zero: "fr_checked_objects report = 0" using grow s'(3) by (simp add: collects_def staging_report fsck_report_def)
  have "scans_agree (scan_objects t (fw_dir g1)) (report, rs)" for t unfolding sc(1) by (intro scan_agrees) (simp add: scans_agree_def)
  then have scan: "scans_agree (scan_objects t (fw_dir g1)) (fsck_report True, rs)" for t using clean(1) by (simp add: scans_agree_def)
  show ?thesis
  proof (rule that [OF clean(2) _ _ s'(4) [rule_format, OF ok] mp [OF s'(5) ok] scan])
    show "root_oids (gc_roots c) \<union> intro_oids c \<subseteq> fst ` set rs" using s'(6) ok grow unfolding collects_def by auto
  qed (use r clean(3) zero sc(2) in \<open>simp_all add: count_fsck_def\<close>)
qed

lemma graph_from_intact:
  assumes "graph_intact load rs" "i \<in> graph_from load rs"
  shows "\<exists>d. load i = Some (Inr d) \<and> (\<forall>e \<in> set (dg_edges d). typed_edge load e)"
proof -
  have "\<exists>d. load i = Some (Inr d)"
    using assms(2) unfolding graph_from_def reach_def
  proof (clarify)
    fix r
    assume r: "r \<in> rs" and path: "(edge_to load)\<^sup>*\<^sup>* (ge_id r) i"
    from path show "\<exists>d. load i = Some (Inr d)"
    proof cases
      case rtrancl_refl
      then show ?thesis using r assms(1) unfolding graph_intact_def typed_edge_def by blast
    next
      case (rtrancl_into_rtrancl j)
      then have "j \<in> graph_from load rs" using r by (auto simp: graph_from_def reach_def)
      then show ?thesis using rtrancl_into_rtrancl(2) assms(1) unfolding graph_intact_def edge_to_def typed_edge_def by metis
    qed
  qed
  then show ?thesis using assms by (auto simp: graph_intact_def graph_edge_def)
qed

lemma live_in_graph: "root_oids (gc_roots c) \<subseteq> ge_id ` rs \<Longrightarrow> live_objects H st c \<subseteq> graph_from (load_graph_object H st) rs"
  unfolding live_reach graph_from_def reach_def by blast

text \<open>
  C6: A clean full check means a whole repository. When it finds nothing, the schema is the current one, the audit of the catalog has no finding and
  every seal verifies; every object that anything in the catalog keeps alive or remembers, and every object file, can be read and all its edges lead
  to readable objects of the types they expect; every file lies in its shard. The check changes nothing but its counters.
\<close>

theorem clean_full_check_is_complete:
  assumes "forge_fsck E K F now cap True g = Some (Inr r, g')" "fr_ok r"
    and "g1 = fe_others F g" "c = f_meta (fw_forge g)" "load = load_graph_object (env_hash E) (objects (fw_forge g1))" "scan = scan_objects t (fw_dir g1)"
  shows "fe_ledger F = Some [1, 2, 3] \<and> findings (audit_catalog c) = [] \<and>
    (\<forall>(tag, a, b, d) \<in> set (list_seals c). \<exists>x. verify_seal_payload E K tag a b d (fw_forge g1) = Some (Inr x, fw_forge g1)) \<and>
    (\<forall>i \<in> live_objects (env_hash E) (objects (fw_forge g1)) c \<union> intro_oids c \<union> so_id ` set (snd scan).
      \<exists>d. load i = Some (Inr d) \<and> (\<forall>e \<in> set (dg_edges d). typed_edge load e)) \<and>
    fst scan = 0 \<and> (\<forall>s \<in> set (snd scan). take 2 (so_path s) = take 2 (object_path (so_id s))) \<and>
    card (live_objects (env_hash E) (objects (fw_forge g1)) c) \<le> fr_checked_objects r \<and> fw_forge g' = fw_forge g1"
proof -
  obtain rs where w: "walk_ok load (root_edges rs) (se_limit K)" "fr_checked_objects r = card (graph_from load (root_edges rs))"
    and rt: "root_oids (gc_roots c) \<union> intro_oids c \<subseteq> fst ` set rs" and cat: "audit_ledger (fe_ledger F) @ findings (audit_catalog c) = []"
      "\<forall>(tag, a, b, d) \<in> set (list_seals c). \<exists>x. verify_seal_payload E K tag a b d (fw_forge g1) = Some (Inr x, fw_forge g1)"
    and sc: "scans_agree scan (fsck_report True, rs)" and g': "fw_forge g' = fw_forge g1"
    by (rule full_check_run [OF assms(1-5)]) (use assms(6) in auto)
  let ?live = "live_objects (env_hash E) (objects (fw_forge g1)) c" and ?G = "graph_from load (root_edges rs)"
  have scan: "fst scan = 0" "\<forall>s \<in> set (snd scan). take 2 (so_path s) = take 2 (object_path (so_id s))" "so_id ` set (snd scan) \<subseteq> fst ` set rs"
    using sc by (auto simp: scans_agree_def fsck_report_def)
  have live: "?live \<subseteq> ?G" using live_in_graph [of c "root_edges rs"] rt unfolding root_edges_ids assms(5) by blast
  have "fst ` set rs \<subseteq> ?G" using graph_from_root [of _ "root_edges rs" load] unfolding root_edges_ids [symmetric] by blast
  then have "?live \<union> intro_oids c \<union> so_id ` set (snd scan) \<subseteq> ?G" using live rt scan(3) by blast
  then have "\<exists>d. load i = Some (Inr d) \<and> (\<forall>e \<in> set (dg_edges d). typed_edge load e)" if "i \<in> ?live \<union> intro_oids c \<union> so_id ` set (snd scan)" for i
    using graph_from_intact [of load "root_edges rs"] w(1) that unfolding walk_ok_def by blast
  moreover have "card ?live \<le> fr_checked_objects r" using w live by (simp add: walk_ok_def card_mono)
  moreover have "fe_ledger F = Some [1, 2, 3]" "findings (audit_catalog c) = []"
    using cat(1) by (auto simp: audit_ledger_def CURRENT_SCHEMA_VERSION_def upt_rec split: if_split_asm)
  ultimately show ?thesis using cat(2) scan(1,2) g' by blast
qed

section \<open>After a clean check the collector can prove reachability\<close>

text \<open>A set of objects that is closed under edges, readable and within the ceiling holds the whole root walk.\<close>

definition walkable :: "graph_loader \<Rightarrow> nat \<Rightarrow> oid set \<Rightarrow> bool" where
  "walkable load n G \<longleftrightarrow> finite G \<and> card G \<le> n \<and> closed_under load G \<and> (\<forall>i \<in> G. \<exists>d. load i = Some (Inr d))"

definition fits :: "nat \<Rightarrow> oid set \<Rightarrow> rooting \<Rightarrow> bool" where
  "fits n G s \<longleftrightarrow> finite G \<and> card G \<le> n \<and> (\<exists>ids. rooted n ids (snd s) \<and> ids \<subseteq> G)"

lemma fits_root:
  assumes "fits n G (k, q)" "i \<in> G"
  shows "\<exists>q'. schedule_root i x r q = Inr q' \<and> (\<forall>k'. fits n G (k', q'))"
proof -
  obtain ids where ids: "rooted n ids q" "ids \<subseteq> G" "finite G" "card G \<le> n" using assms(1) by (auto simp: fits_def)
  have q: "queue_ok q" "q_limit q = n" "q_scheduled_ids q = ids" using ids(1) by (auto simp: rooted_def)
  show ?thesis
  proof (cases "schedule_root i x r q")
    case (Inl e)
    then have "n < card (insert i ids)" using schedule_Inl [of "\<lparr>ge_id = i, ge_expected = x, ge_resource = r\<rparr>" q e] q by (simp add: schedule_root_def)
    moreover have "card (insert i ids) \<le> card G" using ids assms(2) by (intro card_mono) auto
    ultimately show ?thesis using ids(4) by simp
  next
    case (Inr q')
    then show ?thesis using rooted_step [OF Inr ids(1)] ids assms(2) by (auto simp: fits_def)
  qed
qed

lemma fits_fold:
  assumes "\<And>x s. x \<in> set xs \<Longrightarrow> fits n G s \<Longrightarrow> \<exists>s'. f x s = Inr s' \<and> fits n G s'" "fits n G s"
  shows "\<exists>s'. try_fold f xs s = Inr s' \<and> fits n G s'"
  using assms
proof (induction xs arbitrary: s)
  case (Cons x xs)
  then obtain s1 where "f x s = Inr s1" "fits n G s1" by (meson list.set_intros(1))
  moreover from this obtain s2 where "try_fold f xs s1 = Inr s2" "fits n G s2" using Cons.IH [of s1] Cons.prems(1) by auto
  ultimately show ?case by auto
qed auto

lemma fits_then:
  assumes "fits n G s" "i \<in> G"
  shows "\<exists>s'. and_then (schedule_root i x r (snd s)) (\<lambda>q. Inr (k, q)) = Inr s' \<and> fits n G s'"
proof -
  obtain q' where "schedule_root i x r (snd s) = Inr q'" "\<forall>k'. fits n G (k', q')" using fits_root [of n G "fst s" "snd s" i x r] assms by auto
  then show ?thesis by simp
qed

lemma fits_rows:
  "fits n G s \<Longrightarrow> snd (snd a) \<in> G \<Longrightarrow> \<exists>s'. root_ref a s = Inr s' \<and> fits n G s'"
  "fits n G s \<Longrightarrow> snd b \<in> G \<Longrightarrow> \<exists>s'. root_pin b s = Inr s' \<and> fits n G s'"
  "fits n G s \<Longrightarrow> snd (snd a) \<in> G \<Longrightarrow> \<exists>s'. root_overlay a s = Inr s' \<and> fits n G s'"
  "fits n G s \<Longrightarrow> fst e \<in> G \<Longrightarrow> \<exists>s'. root_landmark e s = Inr s' \<and> fits n G s'"
  unfolding root_ref_def root_pin_def root_overlay_def root_landmark_def Let_def case_prod_unfold
  by (rule fits_then; assumption)+

lemma fits_observation:
  assumes "fits n G s" "i \<in> G" "kind = ''blob'' \<or> kind = ''tree''"
  shows "\<exists>s'. root_observation (ns, p, kind, i) s = Inr s' \<and> fits n G s'"
proof -
  let ?t = "if kind = ''blob'' then ObjectType.Blob else ObjectType.Tree" and ?k = "(fst s)\<lparr>gk_observations := gk_observations (fst s) + 1\<rparr>"
  have "root_observation (ns, p, kind, i) s =
      and_then (schedule_root i (ExpectExact ?t) (''namespace:'' @ ns @ '':observation:'' @ p) (snd s)) (\<lambda>q. Inr (?k, q))"
    using assms(3) by (auto simp: root_observation_def case_prod_unfold)
  then show ?thesis using fits_then [OF assms(1,2)] by metis
qed

lemma fits_mount:
  assumes "fits n G s" "\<And>i. parse_spec sp = Inr (SpecOid i) \<Longrightarrow> i \<in> G" "\<And>i. base = Some i \<Longrightarrow> i \<in> G"
  shows "\<exists>s'. root_mount (ns, p, sp, base) s = Inr s' \<and> fits n G s'"
proof -
  obtain k q where s: "s = (k, q)" by (cases s)
  have "\<exists>q1. (case parse_spec sp of Inr (SpecOid i) \<Rightarrow> schedule_root i ExpectAny (''namespace:'' @ ns @ '':mount:'' @ p) q | _ \<Rightarrow> Inr q) = Inr q1 \<and> (\<forall>k'. fits n G (k', q1))"
    using fits_root [of n G k q] assms(1,2) by (auto simp: s fits_def split: sum.split Spec.split)
  then obtain q1 where q1: "(case parse_spec sp of Inr (SpecOid i) \<Rightarrow> schedule_root i ExpectAny (''namespace:'' @ ns @ '':mount:'' @ p) q | _ \<Rightarrow> Inr q) = Inr q1"
      "\<And>k'. fits n G (k', q1)" by blast
  show ?thesis
  proof (cases base)
    case None
    then show ?thesis using q1 by (simp add: root_mount_def s)
  next
    case (Some i)
    obtain q2 where "schedule_root i ExpectAny (''namespace:'' @ ns @ '':mount:'' @ p @ '':base'') q1 = Inr q2" "\<forall>k'. fits n G (k', q2)"
      using fits_root [OF q1(2) assms(3) [OF Some]] by blast
    then show ?thesis using q1 Some by (simp add: root_mount_def s)
  qed
qed

lemma fits_seal:
  assumes "fits n G s" "{a, b, d} \<subseteq> G"
  shows "\<exists>s'. root_seal (tag, a, b, d) s = Inr s' \<and> fits n G s'"
proof -
  obtain k q where s: "s = (k, q)" by (cases s)
  obtain q1 where q1: "schedule_root a (ExpectExact ObjectType.Snapshot) (''seal:'' @ tag @ '':snapshot'') q = Inr q1" "\<forall>k'. fits n G (k', q1)"
    using fits_root assms s by blast
  obtain q2 where q2: "schedule_root b (ExpectExact ObjectType.Commit) (''seal:'' @ tag @ '':commit'') q1 = Inr q2" "\<forall>k'. fits n G (k', q2)"
    using fits_root q1(2) assms(2) by blast
  obtain q3 where q3: "schedule_root d (ExpectExact ObjectType.Tree) (''seal:'' @ tag @ '':tree'') q2 = Inr q3" "\<forall>k'. fits n G (k', q3)"
    using fits_root q2(2) assms(2) by blast
  show ?thesis using q1(1) q2(1) q3 by (simp add: root_seal_def s)
qed

lemma observation_kinds: "(ns, p, kind, i) \<in> set (g_observations (gc_roots c)) \<Longrightarrow> kind = ''blob'' \<or> kind = ''tree''"
proof -
  assume "(ns, p, kind, i) \<in> set (g_observations (gc_roots c))"
  then obtain seen where "observed_oid seen = Some i" "kind = observed_kind seen" by (auto simp: gc_roots_def read_gc_roots_def set_map_filter)
  then show ?thesis by (cases seen) auto
qed

lemma roots_fit:
  assumes "finite G" "card G \<le> n" "root_oids (gc_roots c) \<subseteq> G"
  shows "\<exists>s. schedule_catalog_roots (gc_roots c) (no_counts, with_limit n) = Inr s"
proof -
  let ?g = "gc_roots c"
  have sub: "(\<lambda>(_, _, i). i) ` set (g_refs ?g) \<subseteq> G" "snd ` set (g_pins ?g) \<subseteq> G" "(\<lambda>(_, _, i). i) ` set (g_overlay ?g) \<subseteq> G"
      "fst ` set (g_landmarks ?g) \<subseteq> G" "(\<lambda>(_, _, _, i). i) ` set (g_observations ?g) \<subseteq> G"
      "(\<Union>(_, a, b, d) \<in> set (g_seals ?g). {a, b, d}) \<subseteq> G" "{i. \<exists>n p s. (n, p, s, Some i) \<in> set (g_mounts ?g)} \<subseteq> G" "raw_mounts ?g \<subseteq> G"
    using assms(3) unfolding root_oids_def gc_oids_def by simp_all
  have ids: "snd (snd x) \<in> G" if "x \<in> set (g_refs ?g)" for x using sub(1) that by (cases x) force
  have pins: "snd x \<in> G" if "x \<in> set (g_pins ?g)" for x using sub(2) that by blast
  have ovs: "snd (snd x) \<in> G" if "x \<in> set (g_overlay ?g)" for x using sub(3) that by (cases x) force
  have marks: "fst x \<in> G" if "x \<in> set (g_landmarks ?g)" for x using sub(4) that by blast
  have obs: "i \<in> G" if "(ns, p, k, i) \<in> set (g_observations ?g)" for ns p k i using sub(5) that by force
  have sls: "{a, b, d} \<subseteq> G" if "(tag, a, b, d) \<in> set (g_seals ?g)" for tag a b d using sub(6) that by force
  have "fits n G (no_counts, with_limit n)" using assms(1,2) rooted_init by (auto simp: fits_def)
  then obtain s1 where s1: "try_fold root_ref (g_refs ?g) (no_counts, with_limit n) = Inr s1" "fits n G s1"
    using fits_fold [of "g_refs ?g" n G root_ref] fits_rows(1) ids by metis
  obtain k2 q2 where s2: "try_fold root_pin (g_pins ?g) s1 = Inr (k2, q2)" "fits n G (k2, q2)"
    using fits_fold [of "g_pins ?g" n G root_pin, OF _ s1(2)] fits_rows(2) pins by (metis surj_pair)
  let ?s = "(k2\<lparr>gk_session_live_refs := gk_session_live_refs k2 + g_live_refs ?g\<rparr>, q2)"
  have "fits n G ?s" using s2(2) by (simp add: fits_def)
  moreover have "\<exists>s'. root_mount m s = Inr s' \<and> fits n G s'" if "m \<in> set (g_mounts ?g)" "fits n G s" for m s
  proof -
    obtain ns p sp base where m: "m = (ns, p, sp, base)" by (cases m)
    have "i \<in> raw_mounts ?g" if "parse_spec sp = Inr (SpecOid i)" for i
      unfolding raw_mounts_def using that \<open>m \<in> set (g_mounts ?g)\<close> m by blast
    moreover have "i \<in> G" if "base = Some i" for i using sub(7) that \<open>m \<in> set (g_mounts ?g)\<close> m by blast
    ultimately show ?thesis unfolding m using sub(8) by (intro fits_mount [OF that(2)]) blast+
  qed
  ultimately obtain s3 where s3: "try_fold root_mount (g_mounts ?g) ?s = Inr s3" "fits n G s3"
    using fits_fold [of "g_mounts ?g" n G root_mount] by blast
  obtain s4 where s4: "try_fold root_overlay (g_overlay ?g) s3 = Inr s4" "fits n G s4"
    using fits_fold [of "g_overlay ?g" n G root_overlay, OF _ s3(2)] fits_rows(3) ovs by metis
  have "\<exists>s'. root_observation x s = Inr s' \<and> fits n G s'" if "x \<in> set (g_observations ?g)" "fits n G s" for x s
    by (cases x) (use that obs observation_kinds fits_observation in blast)
  then obtain s5 where s5: "try_fold root_observation (g_observations ?g) s4 = Inr s5" "fits n G s5"
    using fits_fold [of "g_observations ?g" n G root_observation, OF _ s4(2)] by blast
  obtain s6 where s6: "try_fold root_landmark (g_landmarks ?g) s5 = Inr s6" "fits n G s6"
    using fits_fold [of "g_landmarks ?g" n G root_landmark, OF _ s5(2)] fits_rows(4) marks by metis
  have "\<exists>s'. root_seal x s = Inr s' \<and> fits n G s'" if "x \<in> set (g_seals ?g)" "fits n G s" for x s
    using fits_seal [OF that(2) sls] that(1) by (metis prod_cases4)
  then obtain s7 where "try_fold root_seal (g_seals ?g) s6 = Inr s7"
    using fits_fold [of "g_seals ?g" n G root_seal, OF _ s6(2)] by blast
  then show ?thesis using s1(1) s2(1) s3(1) s4(1) s5(1) s6(1) by (simp add: schedule_catalog_roots_def Let_def)
qed

lemma gc_walk_safe:
  assumes "gc_walk load q R = Some z" "walked load R0 G q R" "walkable load n G" "q_limit q = n"
  shows "\<exists>R'. z = Inr R'"
  using assms
proof (induction rule: gc_walk.raw_induct [rotated 1, consumes 1, case_names step])
  case (step walk load q R z)
  have G: "finite G" "card G \<le> n" "closed_under load G" "\<forall>i \<in> G. \<exists>d. load i = Some (Inr d)" using step.prems(2) by (auto simp: walkable_def)
  have w: "queue_ok q" "q_scheduled_ids q \<subseteq> G" "ge_id ` set (q_queue q) \<subseteq> q_scheduled_ids q" using step.prems(1) by (auto simp: walked_def)
  show ?case
  proof (cases "q_queue q")
    case Nil
    then show ?thesis using step.hyps by auto
  next
    case (Cons e rest)
    show ?thesis
    proof (cases "ge_id e \<in> R")
      case True
      then have "walk load (q\<lparr>q_queue := rest\<rparr>) R = Some z" using step.hyps Cons by simp
      from step.IH [OF this walked_skip [OF step.prems(1) Cons True] step.prems(2)] show ?thesis using step.prems(3) by simp
    next
      case False
      have e: "ge_id e \<in> G" using w Cons by auto
      then obtain d where d: "load (ge_id e) = Some (Inr d)" using G(4) by blast
      show ?thesis
      proof (cases "try_fold schedule (dg_edges d) (q\<lparr>q_queue := rest\<rparr>)")
        case (Inl x)
        have "ge_id ` set (dg_edges d) \<subseteq> G" using closed_underD [OF G(3) e d] by blast
        then have "q_limit q < card G" using schedules_Inl [OF Inl _ _ G(1)] w(1,2) by (simp add: queue_ok_pop)
        then show ?thesis using G(2) step.prems(3) by simp
      next
        case (Inr q')
        have "walk load q' (insert (ge_id e) R) = Some z" using step.hyps Cons False d Inr by simp
        moreover have "q_limit q' = n" using schedules_Inr [OF Inr] w(1) step.prems(3) by (simp add: queue_ok_pop)
        ultimately show ?thesis using step.IH walked_load [OF step.prems(1) Cons G(3) d Inr] step.prems(2) by blast
      qed
    qed
  qed
qed

lemma closure_succeeds:
  assumes "walkable (load_graph_object H st) n G" "root_oids (gc_roots c) \<subseteq> G"
  shows "\<exists>k R. reachable_closure (load_graph_object H st) n (gc_roots c) {} = Some (Inr (k, R)) \<and> R \<subseteq> G"
proof -
  let ?load = "load_graph_object H st"
  obtain k q where q: "schedule_catalog_roots (gc_roots c) (no_counts, with_limit n) = Inr (k, q)"
    using roots_fit [OF _ _ assms(2), of n] assms(1) by (auto simp: walkable_def)
  obtain z where z: "gc_walk ?load q {} = Some z" using closure_returns [of H st n "gc_roots c" "{}"] q by (auto simp: reachable_closure_def)
  have r: "rooted n (root_oids (gc_roots c)) q" by (rule roots_scheduled [OF q])
  then have ids: "q_scheduled_ids q = root_oids (gc_roots c)" "queue_ok q" "\<forall>c \<in> q_scheduled q. \<exists>e \<in> set (q_queue q). ge_id e = fst c"
      "ge_id ` set (q_queue q) \<subseteq> root_oids (gc_roots c)" "q_limit q = n"
    by (simp_all add: rooted_def)
  have "root_oids (gc_roots c) = fst ` q_scheduled q" using scheduled_ids [OF ids(2)] ids(1) by simp
  then have "\<forall>i \<in> root_oids (gc_roots c). \<exists>e \<in> set (q_queue q). ge_id e = i" using ids(3) by auto
  then have w: "walked ?load {} G q {}" using ids assms(2) by (simp add: walked_def)
  obtain R where R: "z = Inr R" using gc_walk_safe [OF z w assms(1) ids(5)] by blast
  have "R \<subseteq> G" using gc_walk_Inr [OF z w] assms(1) R by (simp add: walkable_def)
  then show ?thesis using q z R by (auto simp: reachable_closure_def)
qed

text \<open>
  C16: After a clean full check the collector can plan. On a repository that the full check found clean, with nothing changed in
  between, the plan of a collection does not fail: neither an unreadable object nor the ceiling of the walk stands in its way, and it counts no
  more objects than the check has verified.
\<close>

theorem clean_check_then_plan:
  assumes "forge_fsck E K F now cap True g = Some (Inr r, g')" "fr_ok r" "fe_others F g = g" "gw_forge h = fw_forge g"
  shows "\<exists>plan h'. forge_gc E (se_limit K) now t cap True secs h = Some (Inr plan, h') \<and> gr_reachable_objects plan \<le> fr_checked_objects r"
proof -
  let ?c = "f_meta (fw_forge g)" and ?load = "load_graph_object (env_hash E) (objects (fw_forge g))"
  obtain rs where w: "walk_ok ?load (root_edges rs) (se_limit K)" "fr_checked_objects r = card (graph_from ?load (root_edges rs))"
    and rt: "root_oids (gc_roots ?c) \<union> intro_oids ?c \<subseteq> fst ` set rs"
    by (rule full_check_run [OF assms(1,2) refl refl refl]) (auto simp: assms(3))
  let ?G = "graph_from ?load (root_edges rs)"
  have "closed_under ?load ?G" unfolding graph_from_def by (rule closed_reach)
  moreover have "\<forall>i \<in> ?G. \<exists>d. ?load i = Some (Inr d)" using graph_from_intact w(1) unfolding walk_ok_def by blast
  ultimately have walk: "walkable ?load (se_limit K) ?G" using w(1) by (simp add: walkable_def walk_ok_def)
  have "root_oids (gc_roots ?c) \<subseteq> ?G" using rt graph_from_root [of _ "root_edges rs" ?load] unfolding root_edges_ids [symmetric] by blast
  then obtain k R where R: "reachable_closure ?load (se_limit K) (gc_roots ?c) {} = Some (Inr (k, R))" "R \<subseteq> ?G"
    using closure_succeeds [OF walk] by blast
  have "fsck_refusal E F now cap True (fw_forge g) = Inr None" by (rule fsck_run [OF assms(1)]) simp
  then have auth: "gc_authority E now cap [Op.Read] (gw_forge h) = Inr ()"
    by (auto simp: fsck_refusal_def gc_authority_def and_then_Inr_iff assms(4) split: if_split_asm)
  let ?f = "fold (plan_step (nanos secs) R) (snd (scan_objects t (gw_dir h))) (new_report True secs k R (scan_objects t (gw_dir h)), [])"
  have plan: "forge_gc E (se_limit K) now t cap True secs h = Some (Inr (with_sample (snd ?f) (fst ?f)), count_gc (with_sample (snd ?f) (fst ?f)) h)"
    using auth R(1) by (simp add: forge_gc_def act_bind_def act_of_def assms(4) Let_def case_prod_unfold)
  have "head_of (with_sample (snd ?f) (fst ?f)) = (True, card R, k)" by (simp add: head_plan)
  then have "gr_reachable_objects (with_sample (snd ?f) (fst ?f)) = card R" by (simp add: head_of_def)
  moreover have "card R \<le> card ?G" using R(2) w(1) by (intro card_mono) (simp_all add: walk_ok_def)
  ultimately show ?thesis using plan w(2) by auto
qed

section \<open>What the reachable check does not look at\<close>

text \<open>An action that commutes with a change of the state neither reads nor writes what the change is about.\<close>

definition commutes :: "('s \<Rightarrow> 's) \<Rightarrow> ('e, 'a, 's) act \<Rightarrow> bool" where
  "commutes L v \<longleftrightarrow> (\<forall>s. v (L s) = map_option (map_prod id L) (v s))"

lemma commutes_ret [simp]: "commutes L (act_ret x)"
  by (simp add: commutes_def act_ret_def)

lemma commutes_of: "(\<And>s. f (L s) = f s) \<Longrightarrow> commutes L (act_of f)"
  by (simp add: commutes_def act_of_def)

lemma commutes_pure: "(\<And>s. f (L s) = f s) \<Longrightarrow> commutes L (\<lambda>s. map_option (\<lambda>r. (r, s)) (f s))"
  by (simp add: commutes_def option.map_comp comp_def)

lemma commutes_bind: "commutes L v \<Longrightarrow> (\<And>x. commutes L (k x)) \<Longrightarrow> commutes L (act_bind v k)"
  by (auto simp: commutes_def act_bind_def split: option.splits sum.splits prod.splits)

lemma commutes_fold: "(\<And>x a. commutes L (f x a)) \<Longrightarrow> commutes L (act_fold f xs a)"
  by (induction xs arbitrary: a) (auto intro: commutes_bind)

lemma commutes_attempt: "commutes L v \<Longrightarrow> commutes L (attempt v)"
  by (simp add: commutes_def attempt_def option.map_comp comp_def map_prod_def split_def)

definition with_landmarks :: "(oid \<times> LandmarkRec) list \<Rightarrow> Forge \<Rightarrow> Forge" where
  "with_landmarks ls w = w\<lparr>f_meta := (f_meta w)\<lparr>landmarks := ls\<rparr>\<rparr>"

definition world_landmarks :: "(oid \<times> LandmarkRec) list \<Rightarrow> FsckWorld \<Rightarrow> FsckWorld" where
  "world_landmarks ls g = g\<lparr>fw_forge := with_landmarks ls (fw_forge g)\<rparr>"

lemma verify_tag_commutes: "commutes (with_landmarks ls) (verify_tag E K now cap tag)"
proof -
  have "open_tag E now cap tag (with_landmarks ls w) = open_tag E now cap tag w" for w
    by (simp add: open_tag_def with_landmarks_def check_def get_ref_def get_seal_def)
  moreover have "commutes (with_landmarks ls) (verify_seal_payload E K tag a b c)" for a b c
    unfolding verify_seal_payload_def verb_scope_def
    by (intro commutes_bind commutes_of commutes_pure commutes_ret) (auto simp: with_landmarks_def split_def intro!: commutes_bind commutes_of)
  ultimately show ?thesis unfolding verify_tag_def by (intro commutes_bind commutes_of) (auto simp: split_def)
qed

lemma collect_tag_commutes: "commutes (with_landmarks ls) (collect_tag E K now cap row tag s)"
  unfolding collect_tag_def Let_def by (intro commutes_bind commutes_attempt verify_tag_commutes commutes_ret)

lemma collect_ref_commutes: "commutes (with_landmarks ls) (collect_ref E K now cap row s)"
  by (cases s) (auto simp: collect_ref_def Let_def split: sum.splits option.splits intro!: commutes_bind collect_tag_commutes)

lemma collect_namespace_landmarks: "collect_namespace types (c\<lparr>landmarks := ls\<rparr>) = collect_namespace types c"
proof -
  have "late_ref x (c\<lparr>landmarks := ls\<rparr>) = late_ref x c" for x by (simp add: late_ref_def get_ref_def)
  then have k: "known_ref types (c\<lparr>landmarks := ls\<rparr>) = known_ref types c" by (simp add: known_ref_def fun_eq_iff split: option.split)
  then have "collect_live types (c\<lparr>landmarks := ls\<rparr>) ns = collect_live types c ns"
    "collect_mount types (c\<lparr>landmarks := ls\<rparr>) ns = collect_mount types c ns" for ns
    unfolding collect_live_def collect_mount_def k by (simp_all add: overlay_list_def fun_eq_iff)
  then show ?thesis by (intro ext) (simp add: collect_namespace_def list_mounts_def observations_def)
qed

lemma commutes_on_forge: "commutes (with_landmarks ls) v \<Longrightarrow> commutes (world_landmarks ls) (on_forge v)"
  by (auto simp: commutes_def on_forge_def world_landmarks_def option.map_comp comp_def map_prod_def split_def)

lemma reachable_roots_commute:
  assumes "\<And>g. fe_others F (world_landmarks ls g) = world_landmarks ls (fe_others F g)"
  shows "commutes (world_landmarks ls) (collect_reachable_roots E K F now cap s)"
proof -
  obtain report roots where s: "s = (report, roots)" by (cases s)
  have refs: "list_refs (f_meta (fw_forge (world_landmarks ls g))) = list_refs (f_meta (fw_forge g))" for g
    by (simp add: world_landmarks_def with_landmarks_def list_refs_def)
  have nss: "list_namespaces (f_meta (fw_forge (world_landmarks ls g))) = list_namespaces (f_meta (fw_forge g))"
    "collect_namespace types (f_meta (fw_forge (world_landmarks ls g))) = collect_namespace types (f_meta (fw_forge g))" for g types
    by (simp_all add: world_landmarks_def with_landmarks_def list_namespaces_def collect_namespace_landmarks)
  define later where "later = (\<lambda>((report, roots), types) g. let g = fe_others F g; c = f_meta (fw_forge g); nss = list_namespaces c in
    Some (Inr (fold (collect_namespace types c) nss (report\<lparr>fr_checked_namespaces := length nss\<rparr>, roots)), g) :: ((error + collected) \<times> FsckWorld) option)"
  have "commutes (world_landmarks ls) (later x)" for x
    by (auto simp: later_def commutes_def Let_def assms nss split: prod.splits)
  then have "commutes (world_landmarks ls) (act_bind (on_forge (act_fold (collect_ref E K now cap) rows t)) later)" for rows t
    by (intro commutes_bind commutes_on_forge commutes_fold collect_ref_commutes)
  then show ?thesis
    unfolding s collect_reachable_roots_def prod.case Let_def later_def [unfolded Let_def, symmetric]
    unfolding commutes_def refs by blast
qed

lemma reachable_check_commutes:
  assumes "\<And>g. fe_others F (world_landmarks ls g) = world_landmarks ls (fe_others F g)"
  shows "commutes (world_landmarks ls) (forge_fsck E K F now cap False)"
proof -
  have sel: "objects (fw_forge (world_landmarks ls g)) = objects (fw_forge g)"
    "fsck_refusal E F now cap False (fw_forge (world_landmarks ls g)) = fsck_refusal E F now cap False (fw_forge g)" for g
    by (simp_all add: world_landmarks_def with_landmarks_def fsck_refusal_def check_def)
  have count: "count_fsck r (world_landmarks ls g) = world_landmarks ls (count_fsck r g)" for r g
    by (simp add: count_fsck_def world_landmarks_def)
  have "commutes (world_landmarks ls) (\<lambda>g. Some (Inr (report_finish r), count_fsck (report_finish r) g))" for r
    by (simp add: commutes_def count)
  then show ?thesis
    unfolding forge_fsck_def collect_roots_def Let_def
    by (auto simp: sel split: option.split intro!: commutes_bind commutes_of reachable_roots_commute [OF assms] commutes_pure)
qed

lemma landmark_roots: "fst ` set (g_landmarks (gc_roots (f_meta (fw_forge (world_landmarks ls g))))) = fst ` set ls"
  by (simp add: gc_roots_def read_gc_roots_def list_landmarks_def world_landmarks_def with_landmarks_def image_image split_def)

text \<open>
  C38: A reachable check does not look at landmarks. Whatever rows the landmark table holds, on objects that are missing
  or corrupt too, the check without \<open>full\<close> gives the same report, although every landmark is a root of the collector.
\<close>

theorem reachable_check_skips_landmarks:
  assumes "forge_fsck E K F now cap False g = Some (Inr r, g')"
    and "\<And>h. fe_others F (world_landmarks ls h) = world_landmarks ls (fe_others F h)"
  shows "forge_fsck E K F now cap False (world_landmarks ls g) = Some (Inr r, world_landmarks ls g') \<and>
    fst ` set ls \<subseteq> root_oids (gc_roots (f_meta (fw_forge (world_landmarks ls g))))"
proof
  show "forge_fsck E K F now cap False (world_landmarks ls g) = Some (Inr r, world_landmarks ls g')"
    using reachable_check_commutes [OF assms(2), where E = E and K = K and now = now and cap = cap] assms(1) by (simp add: commutes_def)
  show "fst ` set ls \<subseteq> root_oids (gc_roots (f_meta (fw_forge (world_landmarks ls g))))"
    unfolding root_oids_def gc_oids_def landmark_roots by blast
qed

end
