(* ===== verification/Integration_Laws.thy ===== *)
theory Integration_Laws
  imports Seal_Laws
begin

text \<open>
  What the verbs \<open>merge\<close> and \<open>resolve\<close> publish: a clean merge is the three-way merge of the two commits over their
  one merge base, a merge that cannot be made moves no ref and keeps the conflict, and a resolution advances one ref and
  retires the conflict it settles.
\<close>

section \<open>Merge\<close>

lemma verb_intros_Some: "verb_intros E old new w = Some (r, w') \<Longrightarrow> w' = w"
  by (auto simp: verb_intros_def)

lemma publish_conflict_never: "publish_conflict E now ulid cap dest reason c w \<noteq> Some (Inr x, w')"
  by (auto simp: publish_conflict_def act_bind_Inr_iff)

lemma base_trees_Inr:
  assumes "try_fold (\<lambda>i trees. and_then (get_commit H i st) (\<lambda>c. Inr (trees @ [c_tree c]))) bases acc = Inr ts"
  shows "\<exists>cs. length cs = length bases \<and> ts = acc @ map c_tree cs \<and> (\<forall>k < length bases. get_commit H (bases ! k) st = Inr (cs ! k))"
  using assms
proof (induction bases arbitrary: acc)
  case (Cons i bases)
  then obtain c where c: "get_commit H i st = Inr c"
      "try_fold (\<lambda>i trees. and_then (get_commit H i st) (\<lambda>c. Inr (trees @ [c_tree c]))) bases (acc @ [c_tree c]) = Inr ts"
    by (auto simp: and_then_Inr_iff)
  obtain cs where "length cs = length bases" "ts = (acc @ [c_tree c]) @ map c_tree cs" "\<forall>k < length bases. get_commit H (bases ! k) st = Inr (cs ! k)"
    using Cons.IH [OF c(2)] by blast
  then show ?case using c(1) by (intro exI [of _ "c # cs"]) (auto simp: nth_Cons split: nat.split)
qed simp

lemma merge_tree_Inr:
  assumes "merge_tree E now ulid cap dest ours_oid ours_c theirs_oid theirs_c w = Some (Inr t, w1)"
  obtains bases base l where "merge_bases (\<lambda>i. get_commit (env_hash E) i (objects w)) ours_oid theirs_oid = Inr bases"
    "bases = [] \<and> base = None \<or> (\<exists>i c. bases = [i] \<and> get_commit (env_hash E) i (objects w) = Inr c \<and> base = Some (c_tree c))"
    "three_way (store_get_tree (env_hash E)) (store_put_tree (env_hash E)) base (c_tree ours_c) (c_tree theirs_c) (f_store w) =
      Some (Inr (MergedTree t), l)" "w1 = w\<lparr>f_store := l\<rparr>"
proof -
  obtain bases ts outcome l where b: "merge_bases (\<lambda>i. get_commit (env_hash E) i (objects w)) ours_oid theirs_oid = Inr bases"
      "try_fold (\<lambda>i trees. and_then (get_commit (env_hash E) i (objects w)) (\<lambda>c. Inr (trees @ [c_tree c]))) bases [] = Inr ts"
      "length bases \<le> 1"
    and o: "three_way (store_get_tree (env_hash E)) (store_put_tree (env_hash E)) (case ts of [] \<Rightarrow> None | t # _ \<Rightarrow> Some t)
        (c_tree ours_c) (c_tree theirs_c) (f_store w) = Some (Inr outcome, l)"
      "(case outcome of MergedTree t \<Rightarrow> act_ret t | MergeOutcome.MergeConflict c \<Rightarrow>
        publish_conflict E now ulid cap dest ''conflict'' (c\<lparr>k_causal := [ours_oid, theirs_oid]\<rparr>)) (w\<lparr>f_store := l\<rparr>) = Some (Inr t, w1)"
    using assms by (auto simp: merge_tree_def act_bind_Inr_iff stored_Some publish_conflict_never split: if_split_asm)
  have "outcome = MergedTree t \<and> w1 = w\<lparr>f_store := l\<rparr>"
    using o(2) by (cases outcome) (auto simp: publish_conflict_never)
  then have "\<exists>l. three_way (store_get_tree (env_hash E)) (store_put_tree (env_hash E)) (case ts of [] \<Rightarrow> None | t # _ \<Rightarrow> Some t)
        (c_tree ours_c) (c_tree theirs_c) (f_store w) = Some (Inr (MergedTree t), l) \<and> w1 = w\<lparr>f_store := l\<rparr>" using o(1) by blast
  moreover obtain cs where cs: "length cs = length bases" "ts = map c_tree cs" "\<forall>k < length bases. get_commit (env_hash E) (bases ! k) (objects w) = Inr (cs ! k)"
    using base_trees_Inr [OF b(2)] by auto
  moreover have "bases = [] \<or> (\<exists>i. bases = [i])" using b(3) by (cases bases) auto
  then have "bases = [] \<and> (case ts of [] \<Rightarrow> None | t # _ \<Rightarrow> Some t) = None \<or> (\<exists>i c. bases = [i] \<and> get_commit (env_hash E) i (objects w) = Inr c \<and>
      (case ts of [] \<Rightarrow> None | t # _ \<Rightarrow> Some t) = Some (c_tree c))"
    using cs by (cases cs) auto
  ultimately show ?thesis using that [OF b(1)] by blast
qed

lemma grows_extends: "forge_grows w w' \<Longrightarrow> whole.extends H (f_store w) (f_store w')"
  by (auto simp: whole.extends_def store_get_tree_def forge_grows_def grown_typed(4))

text \<open>
  C4: A merge that is applied is the three-way merge of the two commits. The capability may advance the ref and
  read the source; there is at most one merge base; the new commit is stored with the two merged commits as its parents,
  in order; every file of its tree is the three-way merge of that file over the base; and the ref advances to it only from the commit
  that was merged, a lost race putting it on a fork, with no other ref touched.
\<close>

theorem merge_publishes_three_way:
  assumes "forge_merge E now ulid fork_ulid cap dest from resolved w = Some (Inr res, w')"
    and "log_good (env_hash E) (f_store w')" and "valid_str (agent_id cap)" "valid_str (''merge '' @ from @ '' into '' @ dest)"
  shows "\<exists>row ours_c theirs_oid theirs_c bases base cid commit.
    open_merge E now cap dest from resolved w = Inr (row, ours_c, theirs_oid, theirs_c) \<and>
    merge_bases (\<lambda>i. get_commit (env_hash E) i (objects w)) (row_oid row) theirs_oid = Inr bases \<and>
    (bases = [] \<and> base = None \<or> (\<exists>i c. bases = [i] \<and> get_commit (env_hash E) i (objects w) = Inr c \<and> base = Some (c_tree c))) \<and>
    get_commit (env_hash E) cid (objects w') = Inr commit \<and> c_parents commit = [row_oid row, theirs_oid] \<and>
    cas_keeps_work dest (row_oid row) cid (fork_name dest (agent_id cap) fork_ulid) (f_meta w) res (f_meta w') \<and>
    (\<forall>ps. names_ok ps \<longrightarrow> merges_to (file_at (store_get_tree (env_hash E)) (f_store w') base ps)
      (file_at (store_get_tree (env_hash E)) (f_store w') (Some (c_tree ours_c)) ps)
      (file_at (store_get_tree (env_hash E)) (f_store w') (Some (c_tree theirs_c)) ps)
      (file_at (store_get_tree (env_hash E)) (f_store w') (Some (c_tree commit)) ps))"
proof -
  let ?k = "\<lambda>tree row theirs_oid. \<lparr>c_tree = tree, c_parents = [row_oid row, theirs_oid], c_agent = agent_id cap,
      c_msg = ''merge '' @ from @ '' into '' @ dest, c_ts = now, c_landmark = False, c_contrib = None\<rparr>"
  obtain row ours_c theirs_oid theirs_c tree w1 cid w2 oids c' where
    opn: "open_merge E now cap dest from resolved w = Inr (row, ours_c, theirs_oid, theirs_c)"
    and t: "merge_tree E now ulid cap dest (row_oid row) ours_c theirs_oid theirs_c w = Some (Inr tree, w1)"
    and put: "put_encoded E (commit_encode (?k tree row theirs_oid)) w1 = Some (Inr cid, w2)"
    and cas: "cas_ref_with_intros dest (row_oid row) cid ''commit'' (agent_id cap) (agent_id cap) (row_protected row) oids fork_ulid (uint now)
        (f_meta w2) = Inr (res, c')"
    and w': "f_meta w' = c'" "f_store w' = f_store w2"
    using assms(1) by (auto simp: forge_merge_def Let_def act_bind_Inr_iff meta_Inr dest!: verb_intros_Some)
  obtain bases base l where b: "merge_bases (\<lambda>i. get_commit (env_hash E) i (objects w)) (row_oid row) theirs_oid = Inr bases"
      "bases = [] \<and> base = None \<or> (\<exists>i c. bases = [i] \<and> get_commit (env_hash E) i (objects w) = Inr c \<and> base = Some (c_tree c))"
      "three_way (store_get_tree (env_hash E)) (store_put_tree (env_hash E)) base (c_tree ours_c) (c_tree theirs_c) (f_store w) =
        Some (Inr (MergedTree tree), l)" "w1 = w\<lparr>f_store := l\<rparr>"
    by (rule merge_tree_Inr [OF t])
  obtain bs where bs: "commit_encode (?k tree row theirs_oid) = Some bs" "forge_grows w1 w2" "f_meta w2 = f_meta w1"
      "\<forall>w'. forge_grows w2 w' \<longrightarrow> log_good (env_hash E) (f_store w') \<longrightarrow> store_get (env_hash E) cid (objects w') = Inr bs"
    using put_encoded_Inr [OF put] by blast
  have g: "forge_grows w2 w'" "forge_grows w1 w'" using w'(2) bs(2) by (simp_all add: forge_grows_def)
  have "get_commit (env_hash E) cid (objects w') = Inr (?k tree row theirs_oid)"
    using bs(1,4) g(1) assms(2-4) by (simp add: get_commit_def commit_decode_iff commit_ok_def max_commit_parents_def)
  moreover have "log_good (env_hash E) l" using log_good_before [OF g(2) assms(2)] by (simp add: b(4))
  then have "\<forall>ps. names_ok ps \<longrightarrow> merges_to (file_at (store_get_tree (env_hash E)) (f_store w') base ps)
      (file_at (store_get_tree (env_hash E)) (f_store w') (Some (c_tree ours_c)) ps)
      (file_at (store_get_tree (env_hash E)) (f_store w') (Some (c_tree theirs_c)) ps)
      (file_at (store_get_tree (env_hash E)) (f_store w') (Some tree) ps)"
    using three_way_clean [OF b(3)] grows_extends [OF g(2), of "env_hash E"] by (simp add: b(4))
  moreover have "cas_keeps_work dest (row_oid row) cid (fork_name dest (agent_id cap) fork_ulid) (f_meta w) res (f_meta w')"
    using cas bs(3) by (auto simp: cas_ref_with_intros_eq and_then_Inr_iff b(4) w'(1) cas_keeps_work_def
        dest!: cas_ref_Inr(4) cas_outcome_keeps_work)
  ultimately show ?thesis using opn b(1,2) by fastforce
qed

section \<open>A merge that cannot be made\<close>

text \<open>The conflict of a merge, stored and named by one new ref.\<close>

definition conflict_kept :: "Env \<Rightarrow> string \<Rightarrow> oid list \<Rightarrow> oid list \<Rightarrow> error \<Rightarrow> Forge \<Rightarrow> Forge \<Rightarrow> bool" where
  "conflict_kept E name trees causal e w w' \<longleftrightarrow> (\<exists>i k bs. e = error.MergeConflict i \<and> conflict_validate k = Inr () \<and>
     [k_ours k, k_theirs k] = trees \<and> k_causal k = causal \<and> conflict_encode k = Some bs \<and>
     store_get (env_hash E) i (objects w') = Inr bs \<and> tip (f_meta w) name = None \<and>
     (\<forall>n. tip (f_meta w') n = (if n = name then Some i else tip (f_meta w) n)))"

lemma conflict_kept_store [simp]: "conflict_kept E n ts ks e (w\<lparr>f_store := l\<rparr>) w' = conflict_kept E n ts ks e w w'"
  by (simp add: conflict_kept_def)

lemma put_encoded_meta: "put_encoded E enc w = Some (r, w') \<Longrightarrow> f_meta w' = f_meta w"
  by (auto simp: put_encoded_def stored_Some)

lemma verb_put_conflict_meta: "verb_put_conflict E k w = Some (r, w') \<Longrightarrow> f_meta w' = f_meta w"
  by (auto simp: verb_put_conflict_def split: sum.splits dest: put_encoded_meta)

lemma act_bind_InlE:
  assumes "act_bind m f st = Some (Inl e, st')"
  obtains "m st = Some (Inl e, st')" | x st1 where "m st = Some (Inr x, st1)" "f x st1 = Some (Inl e, st')"
  using assms by (auto simp: act_bind_Some)

lemma publish_conflict_Inl:
  assumes "publish_conflict E now ulid cap dest reason k w = Some (Inl e, w')" "log_good (env_hash E) (f_store w')"
  shows "f_meta w' = f_meta w \<or>
    conflict_kept E (''conflicts/'' @ dest @ ''/'' @ ulid) [k_ours k, k_theirs k] (k_causal k) e w w'"
proof -
  let ?n = "''conflicts/'' @ dest @ ''/'' @ ulid"
  consider (early) "f_meta w' = f_meta w"
    | (kept) i w1 c' where "verb_put_conflict E k w = Some (Inr i, w1)" "e = error.MergeConflict i"
      "insert_ref ?n i ''conflict'' False False (agent_id cap) reason (uint now) (f_meta w1) = Inr ((), c')"
      "f_meta w' = c'" "f_store w' = f_store w1"
    using assms(1) unfolding publish_conflict_def
  proof (elim act_bind_InlE)
    fix i w1 u w2
    assume a: "verb_put_conflict E k w = Some (Inr i, w1)"
      "meta (insert_ref ?n i ''conflict'' False False (agent_id cap) reason (uint now)) w1 = Some (Inr u, w2)"
    fix v w3 assume "counted (\<lambda>s. s\<lparr>ct_merge_conflict := ct_merge_conflict s + 1\<rparr>) w2 = Some (Inr v, w3)" "fail (error.MergeConflict i) w3 = Some (Inl e, w')"
    then show thesis using kept [OF a(1)] a(2) by (auto simp: meta_Inr)
  qed (auto simp: meta_Inl dest!: verb_put_conflict_meta intro: early)
  then show ?thesis
  proof cases
    case kept
    then have k: "conflict_validate k = Inr ()" "put_encoded E (conflict_encode k) w = Some (Inr i, w1)"
      by (auto simp: verb_put_conflict_def split: sum.splits)
    obtain bs where bs: "conflict_encode k = Some bs" "f_meta w1 = f_meta w"
        "\<forall>w'. forge_grows w1 w' \<longrightarrow> log_good (env_hash E) (f_store w') \<longrightarrow> store_get (env_hash E) i (objects w') = Inr bs"
      using put_encoded_Inr [OF k(2)] by blast
    have "store_get (env_hash E) i (objects w') = Inr bs" using bs(3) assms(2) kept(5) by (simp add: forge_grows_def)
    then have "conflict_kept E ?n [k_ours k, k_theirs k] (k_causal k) (error.MergeConflict i) w w'"
      unfolding conflict_kept_def using insert_ref_Inr [OF kept(3)] k(1) bs(1,2) kept(4)
      by (intro exI [of _ i] exI [of _ k] exI [of _ bs]) (auto simp: tip_def has_row_def)
    then show ?thesis using kept(2) by simp
  qed simp
qed

lemma three_way_conflict:
  "three_way get put base ours theirs st = Some (Inr (MergeOutcome.MergeConflict k), st') \<Longrightarrow> k_ours k = ours \<and> k_theirs k = theirs"
  by (auto simp: three_way_def act_bind_Inr_iff split: if_split_asm)

lemma merge_tree_Inl:
  assumes "merge_tree E now ulid cap dest i a j b w = Some (Inl e, w')" "log_good (env_hash E) (f_store w')"
  shows "f_meta w' = f_meta w \<or> conflict_kept E (''conflicts/'' @ dest @ ''/'' @ ulid) [c_tree a, c_tree b] [i, j] e w w'"
proof -
  let ?G = "f_meta w' = f_meta w \<or> conflict_kept E (''conflicts/'' @ dest @ ''/'' @ ulid) [c_tree a, c_tree b] [i, j] e w w'"
  have merged: ?G if t: "three_way (store_get_tree (env_hash E)) (store_put_tree (env_hash E)) base (c_tree a) (c_tree b) (f_store w) = Some (Inr outcome, l)"
      and o: "(case outcome of MergedTree t \<Rightarrow> act_ret t | MergeOutcome.MergeConflict c \<Rightarrow>
        publish_conflict E now ulid cap dest ''conflict'' (c\<lparr>k_causal := [i, j]\<rparr>)) (w\<lparr>f_store := l\<rparr>) = Some (Inl e, w')" for base outcome l
  proof (cases outcome)
    case (MergeConflict k)
    have "publish_conflict E now ulid cap dest ''conflict'' (k\<lparr>k_causal := [i, j]\<rparr>) (w\<lparr>f_store := l\<rparr>) = Some (Inl e :: error + oid, w')"
      using o by (simp add: MergeConflict)
    from publish_conflict_Inl [OF this assms(2)] three_way_conflict [OF t [unfolded MergeConflict]]
    show ?thesis by simp
  qed (use o in simp)
  have "?G" if "(if 1 < length bases then publish_conflict E now ulid cap dest ''multiple-merge-bases''
        \<lparr>k_bases = ts, k_ours = c_tree a, k_theirs = c_tree b, k_paths = [], k_causal = [i, j]\<rparr>
      else act_bind (stored (three_way (store_get_tree (env_hash E)) (store_put_tree (env_hash E)) base (c_tree a) (c_tree b)))
        (\<lambda>outcome. case outcome of MergedTree t \<Rightarrow> act_ret t | MergeOutcome.MergeConflict c \<Rightarrow>
          publish_conflict E now ulid cap dest ''conflict'' (c\<lparr>k_causal := [i, j]\<rparr>))) w = Some (Inl e, w')" for bases ts base
    using that publish_conflict_Inl [OF _ assms(2)]
    by (fastforce simp: stored_Some elim!: act_bind_InlE dest: merged split: if_split_asm)
  then show ?thesis using assms(1) unfolding merge_tree_def by (elim act_bind_InlE) auto
qed

text \<open>
  C19: A merge that fails moves no ref. Either the catalog is as it was, or the one change of any tip is a new ref of
  its own conflict namespace that names the stored conflict of the two commits, which the error reports.
\<close>

theorem failed_merge_keeps_refs:
  assumes "forge_merge E now ulid fork_ulid cap dest from resolved w = Some (Inl e, w')" "log_good (env_hash E) (f_store w')"
  shows "f_meta w' = f_meta w \<or> (\<exists>row ours_c theirs_oid theirs_c. open_merge E now cap dest from resolved w = Inr (row, ours_c, theirs_oid, theirs_c) \<and>
    conflict_kept E (''conflicts/'' @ dest @ ''/'' @ ulid) [c_tree ours_c, c_tree theirs_c] [row_oid row, theirs_oid] e w w')"
  using assms(1) unfolding forge_merge_def
proof (elim act_bind_InlE)
  fix x w0
  assume "act_of (open_merge E now cap dest from resolved) w = Some (Inr x, w0)"
  moreover obtain row ours_c theirs_oid theirs_c where x: "x = (row, ours_c, theirs_oid, theirs_c)" by (cases x)
  ultimately have w0: "open_merge E now cap dest from resolved w = Inr (row, ours_c, theirs_oid, theirs_c)" "w0 = w" by auto
  assume "(case x of (row, ours_c, theirs_oid, theirs_c) \<Rightarrow>
    act_bind (merge_tree E now ulid cap dest (row_oid row) ours_c theirs_oid theirs_c) (\<lambda>tree.
    let commit = \<lparr>c_tree = tree, c_parents = [row_oid row, theirs_oid], c_agent = agent_id cap,
                  c_msg = ''merge '' @ from @ '' into '' @ dest, c_ts = now, c_landmark = False, c_contrib = None\<rparr> in
    act_bind (put_encoded E (commit_encode commit)) (\<lambda>cid.
    act_bind (verb_intros E (c_tree ours_c) tree) (\<lambda>intro_oids.
    act_bind (meta (cas_ref_with_intros dest (row_oid row) cid ''commit'' (agent_id cap) (agent_id cap) (row_protected row)
      intro_oids fork_ulid (uint now))) (\<lambda>result.
    act_bind (counted (\<lambda>s. s\<lparr>ct_merge_applied := ct_merge_applied s + 1\<rparr>)) (\<lambda>_.
    act_ret result)))))) w0 = Some (Inl e, w')"
  then show ?thesis unfolding x w0(2) prod.case Let_def
  proof (elim act_bind_InlE)
    assume "merge_tree E now ulid cap dest (row_oid row) ours_c theirs_oid theirs_c w = Some (Inl e, w')"
    then show ?thesis using merge_tree_Inl [OF _ assms(2)] w0(1) by blast
  qed (auto simp: meta_Inl dest!: put_encoded_meta verb_intros_Some elim: merge_tree_Inr)
qed auto

section \<open>Resolve\<close>

lemma valid_str_resolve: "valid_str (''resolve '' @ hex i)"
proof -
  have "list_all printable (hex i)" using printable_hex_encode by (simp add: hex_def)
  then show ?thesis by (intro valid_str_ascii) (auto simp: list_all_iff printable_def ascii_char_def)
qed

lemma publish_resolution_result:
  assumes "publish_resolution dest expected commit con con_oid res agent allow oids ts c = Inr (pr, c')"
  shows "pr = \<lparr>pr_into = dest, pr_commit = commit, pr_resolution_ref = res, pr_retired_conflict = con, pr_retired_conflict_oid = con_oid\<rparr>"
  using assms by (auto simp: publish_resolution_def Let_def and_then_Inr_iff split: option.splits if_split_asm)

lemma publish_resolution_tips:
  assumes "publish_resolution dest expected commit con con_oid res agent allow oids ts c = Inr (pr, c')"
  shows "tip c dest = Some expected" "tip c con = Some con_oid" "tip c res = None"
    "tip c' n = (if n = dest \<or> n = res then Some commit else if n = con then None else tip c n)"
  by (rule publish_resolution_Inr [OF assms]; auto simp: tip_def has_row_def starts_with_def)+

text \<open>
  C18: A resolution settles one conflict, in one transaction. It is a stored commit whose parents are the two commits
  of the conflict, the ref still at one of them; its tree is the choice of the resolver, checked against the conflict; the ref
  and the resolution's own ref name it, the conflict's ref is retired, and no other ref changes.
\<close>

theorem resolve_settles_conflict:
  assumes "forge_resolve E is_ulid now cap k dest choice w = Some (Inr pr, w')"
    and "log_good (env_hash E) (f_store w')" "valid_str (agent_id cap)"
  shows "\<exists>row conflict con res l cid commit. open_resolve E is_ulid now cap k dest w = Inr (row, conflict, con, res) \<and>
    resolve_tree (env_hash E) conflict choice (f_store w) = Some (Inr (c_tree commit), l) \<and>
    get_commit (env_hash E) cid (objects w') = Inr commit \<and> c_parents commit = k_causal conflict \<and> length (c_parents commit) = 2 \<and>
    pr = \<lparr>pr_into = dest, pr_commit = cid, pr_resolution_ref = res, pr_retired_conflict = row_name con, pr_retired_conflict_oid = k\<rparr> \<and>
    tip (f_meta w) dest = Some (row_oid row) \<and> tip (f_meta w) (row_name con) = Some k \<and> tip (f_meta w) res = None \<and>
    (\<forall>n. tip (f_meta w') n = (if n = dest \<or> n = res then Some cid else if n = row_name con then None else tip (f_meta w) n))"
proof -
  let ?c = "\<lambda>tree conflict. \<lparr>c_tree = tree, c_parents = k_causal conflict, c_agent = agent_id cap, c_msg = ''resolve '' @ hex k,
      c_ts = now, c_landmark = False, c_contrib = None\<rparr>"
  obtain row conflict con res tree l cid w2 oids c' where
    opn: "open_resolve E is_ulid now cap k dest w = Inr (row, conflict, con, res)"
    and t: "resolve_tree (env_hash E) conflict choice (f_store w) = Some (Inr tree, l)"
    and len: "length (k_causal conflict) = 2"
    and put: "put_encoded E (commit_encode (?c tree conflict)) (w\<lparr>f_store := l\<rparr>) = Some (Inr cid, w2)"
    and pub: "publish_resolution dest (row_oid row) cid (row_name con) k res (agent_id cap) (row_protected row) oids (uint now)
        (f_meta w2) = Inr (pr, c')"
    and w': "f_meta w' = c'" "f_store w' = f_store w2"
    using assms(1) by (auto simp: forge_resolve_def Let_def act_bind_Inr_iff meta_Inr stored_Some split: if_split_asm dest!: verb_intros_Some)
  obtain bs where bs: "commit_encode (?c tree conflict) = Some bs" "f_meta w2 = f_meta w"
      "\<forall>w'. forge_grows w2 w' \<longrightarrow> log_good (env_hash E) (f_store w') \<longrightarrow> store_get (env_hash E) cid (objects w') = Inr bs"
    using put_encoded_Inr [OF put] by auto
  have "get_commit (env_hash E) cid (objects w') = Inr (?c tree conflict)"
    using bs(1,3) len assms(2,3) w'(2)
    by (simp add: get_commit_def commit_decode_iff commit_ok_def max_commit_parents_def forge_grows_def valid_str_resolve [simplified])
  moreover have "pr = \<lparr>pr_into = dest, pr_commit = cid, pr_resolution_ref = res, pr_retired_conflict = row_name con, pr_retired_conflict_oid = k\<rparr>"
    by (rule publish_resolution_result [OF pub])
  moreover have "tip (f_meta w) dest = Some (row_oid row)" "tip (f_meta w) (row_name con) = Some k" "tip (f_meta w) res = None"
    "\<forall>n. tip (f_meta w') n = (if n = dest \<or> n = res then Some cid else if n = row_name con then None else tip (f_meta w) n)"
    using publish_resolution_tips [OF pub] by (simp_all add: w'(1) bs(2))
  ultimately show ?thesis using opn t len by fastforce
qed

end
