(* ===== verification/Integration_Example.thy ===== *)
theory Integration_Example
  imports Workspace_Example Integration_Laws
begin

text \<open>
  Concrete runs of \<open>merge\<close>, \<open>resolve\<close>, \<open>seal\<close> and \<open>verify_tag\<close> on small repositories, as the witnesses of the
  integration theorems.
\<close>

section \<open>Repositories that hold given objects\<close>

text \<open>A list of encoded objects with their ids, the hash that names them so, and the stores that hold some of them.\<close>

definition pack_hash :: "(bytes \<times> oid) list \<Rightarrow> bytes \<Rightarrow> oid" where
  "pack_hash xs bs = (case map_of xs bs of Some i \<Rightarrow> i | None \<Rightarrow> 0)"

definition packed :: "(bytes \<times> oid) list \<Rightarrow> bool" where
  "packed xs \<longleftrightarrow> distinct (map fst xs) \<and> distinct (map snd xs)"

definition pack_world :: "(bytes \<times> oid) list \<Rightarrow> (oid \<Rightarrow> bytes option) \<Rightarrow> Forge \<Rightarrow> bool" where
  "pack_world xs V w \<longleftrightarrow> visible (objects w) = V \<and> \<not> Object_Store.read_only (objects w) \<and> l_seen (f_store w) \<subseteq> fst ` set xs \<and> ran V \<subseteq> fst ` set xs"

lemma pack_hash_id: "packed xs \<Longrightarrow> (bs, i) \<in> set xs \<Longrightarrow> pack_hash xs bs = i"
  by (simp add: pack_hash_def packed_def map_of_is_SomeI)

lemma pack_good:
  assumes "packed xs" "pack_world xs V w"
  shows "log_good (pack_hash xs) (f_store w)"
proof -
  have "inj_on (pack_hash xs) (fst ` set xs)"
  proof (rule inj_onI)
    fix a b
    assume "a \<in> fst ` set xs" "b \<in> fst ` set xs" and eq: "pack_hash xs a = pack_hash xs b"
    then obtain i j where ij: "(a, i) \<in> set xs" "(b, j) \<in> set xs" by auto
    then have "i = j" using pack_hash_id [OF assms(1)] eq by auto
    moreover have "inj_on snd (set xs)" using assms(1) by (simp add: packed_def distinct_map)
    ultimately show "a = b" using ij inj_onD [of snd "set xs" "(a, j)" "(b, j)"] by simp
  qed
  then show ?thesis using assms(2) unfolding log_good_def pack_world_def by (auto intro: inj_on_subset)
qed

lemma pack_get:
  assumes "packed xs" "pack_world xs V w" "(bs, i) \<in> set xs" "V i = Some bs"
  shows "store_get (pack_hash xs) i (objects w) = Inr bs"
  using assms pack_hash_id [OF assms(1,3)] by (simp add: store_get_def ok_or_def pack_world_def)

lemma pack_put_parts:
  assumes "packed xs" "pack_world xs V w" "(concat parts, i) \<in> set xs" "V i \<in> {None, Some (concat parts)}"
  shows "\<exists>st. store_put_parts (pack_hash xs) parts (objects w) = (Inr i, st) \<and> visible st = V(i \<mapsto> concat parts) \<and> \<not> Object_Store.read_only st"
  using assms pack_hash_id [OF assms(1,3)]
  by (auto simp: store_put_parts_def put_parts_def hash_parts_def pack_world_def Let_def batch_finish_def begin_batch_def fun_upd_idem)

lemma pack_world_grow:
  assumes "pack_world xs V w" "(bs, i) \<in> set xs" "visible st = V(i \<mapsto> bs)" "\<not> Object_Store.read_only st"
  shows "pack_world xs (V(i \<mapsto> bs)) (w\<lparr>f_store := (f_store w)\<lparr>l_store := st, l_seen := insert bs (l_seen (f_store w))\<rparr>\<rparr>)"
  using assms by (force simp: pack_world_def ran_def image_iff)

lemma pack_put:
  assumes "packed xs" "pack_world xs V w" "(bs, i) \<in> set xs" "V i \<in> {None, Some bs}" "env_hash E = pack_hash xs"
  shows "\<exists>l. put_encoded E (Some bs) w = Some (Inr i, w\<lparr>f_store := l\<rparr>) \<and> pack_world xs (V(i \<mapsto> bs)) (w\<lparr>f_store := l\<rparr>)"
proof -
  obtain st where st: "store_put_parts (pack_hash xs) [bs] (objects w) = (Inr i, st)" "visible st = V(i \<mapsto> bs)" "\<not> Object_Store.read_only st"
    using pack_put_parts [OF assms(1,2), of "[bs]" i] assms(3,4) by auto
  show ?thesis
    using st(1) pack_world_grow [OF assms(2,3) st(2,3)] by (auto simp: put_encoded_def stored_def put_bytes_def store_put_def assms(5))
qed

lemma pack_put_blob:
  assumes "packed xs" "pack_world xs V w" "(bs, i) \<in> set xs" "V i \<in> {None, Some bs}" "env_hash E = pack_hash xs"
    "blob_encode \<lparr>data = d\<rparr> = Some bs"
  shows "\<exists>l. stored (put_blob E d) w = Some (Inr i, w\<lparr>f_store := l\<rparr>) \<and> pack_world xs (V(i \<mapsto> bs)) (w\<lparr>f_store := l\<rparr>)"
proof -
  obtain p where p: "blob_frame_prefix (of_nat (length d)) = Some p" "bs = p @ d" using assms(6) by (auto simp: blob_encode_def)
  obtain st where st: "store_put_parts (pack_hash xs) [p, d] (objects w) = (Inr i, st)" "visible st = V(i \<mapsto> bs)" "\<not> Object_Store.read_only st"
    using pack_put_parts [OF assms(1,2), of "[p, d]" i] assms(3,4) p(2) by auto
  show ?thesis
    using st(1) pack_world_grow [OF assms(2,3) st(2,3)] p by (auto simp: stored_def put_blob_def assms(5))
qed

section \<open>A sealed release\<close>

definition seal_manifest :: ProvenanceManifest where
  "seal_manifest = \<lparr>pm_entries = [(2, ''unknown'')], pm_encoding = Version1\<rparr>"

definition seal_blob :: bytes where
  "seal_blob = the (blob_encode \<lparr>data = manifest_encode seal_manifest\<rparr>)"

definition seal_snap :: Snapshot where
  "seal_snap = \<lparr>s_tree = 2, s_commit = 5, s_tag = ''v1'', s_ts = 0, s_prov = 8, s_pk = replicate 32 0, s_sig = replicate 64 0\<rparr>"

definition snap_bytes :: bytes where
  "snap_bytes = the (snapshot_encode seal_snap)"

definition seal_objects :: "(bytes \<times> oid) list" where
  "seal_objects = [(tree_bytes empty_tree, 2), (commit_bytes demo_base, 5), (seal_blob, 8), (snap_bytes, 9)]"

lemma seal_blob_encodes: "blob_encode \<lparr>data = manifest_encode seal_manifest\<rparr> = Some seal_blob" "decode_object_type seal_blob = Inr ObjectType.Blob"
proof -
  let ?d = "manifest_encode seal_manifest"
  have "length (encode_map_sorted [(text_key ''size'', encode_u64 (of_nat (length ?d)))]) < 2 ^ 32"
    using length_encode_map_sorted [of "[(text_key ''size'', encode_u64 (of_nat (length ?d)))]"] length_encode_item(3) [of "''size''"]
      length_encode_item(4) [of "of_nat (length ?d)"] by simp
  then obtain p where "blob_frame_prefix (of_nat (length ?d)) = Some p" by (simp add: blob_frame_prefix_def u32_try_from_def Let_def)
  then show b: "blob_encode \<lparr>data = manifest_encode seal_manifest\<rparr> = Some seal_blob" by (simp add: seal_blob_def blob_encode_def)
  show "decode_object_type seal_blob = Inr ObjectType.Blob" using b by (auto simp: blob_encode_Some intro: encoded_type)
qed

lemma snap_encodes: "snapshot_encode seal_snap = Some snap_bytes" "decode_object_type snap_bytes = Inr ObjectType.Snapshot"
proof -
  let ?f = "[(text_key ''commit'', encode_bytes (oid_bytes (s_commit seal_snap))), (text_key ''pk'', encode_bytes (s_pk seal_snap)),
       (text_key ''prov'', encode_bytes (oid_bytes (s_prov seal_snap))), (text_key ''sig'', encode_bytes (s_sig seal_snap)),
       (text_key ''tag'', encode_text (s_tag seal_snap)), (text_key ''tree'', encode_bytes (oid_bytes (s_tree seal_snap))),
       (text_key ''ts'', encode_u64 (s_ts seal_snap))]"
  have "sum_list (map (\<lambda>(k, v). length k + length v) ?f) \<le> 1000"
    using length_encode_item(3) [of "''commit''"] length_encode_item(3) [of "''pk''"] length_encode_item(3) [of "''prov''"]
      length_encode_item(3) [of "''sig''"] length_encode_item(3) [of "''tag''"] length_encode_item(3) [of "''tree''"]
      length_encode_item(3) [of "''ts''"] length_encode_item(1) [of "s_pk seal_snap"] length_encode_item(1) [of "s_sig seal_snap"]
      length_encode_item(2) [of "s_tag seal_snap"] length_encode_item(6) [of "s_commit seal_snap"] length_encode_item(6) [of "s_prov seal_snap"]
      length_encode_item(6) [of "s_tree seal_snap"] length_encode_item(4) [of "s_ts seal_snap"]
    by (simp add: encode_oid_def seal_snap_def)
  then have "length (encode_map_sorted ?f) < 2 ^ 32" using length_encode_map_sorted [of ?f] by simp
  then show s: "snapshot_encode seal_snap = Some snap_bytes" by (simp add: snap_bytes_def snapshot_encode_def encode_file_def u32_try_from_def)
  show "decode_object_type snap_bytes = Inr ObjectType.Snapshot" using s by (auto simp: snapshot_encode_def intro: encoded_type)
qed

lemma seal_packed: "packed seal_objects"
  using demo_types(1,3) seal_blob_encodes(2) snap_encodes(2) by (auto simp: packed_def seal_objects_def)

definition seal_env :: Env where
  "seal_env = \<lparr>env_hash = pack_hash seal_objects, env_hmac = \<lambda>_ _. []\<rparr>"

definition seal_keys :: SealEnv where
  "seal_keys = \<lparr>se_sign = \<lambda>_ _. replicate 64 0, se_key_ok = \<lambda>_. True, se_verify = \<lambda>_ _ s. s = replicate 64 0, se_seed = [],
     se_pk = replicate 32 0, se_limit = 100\<rparr>"

definition all_cap :: Capability where
  "all_cap = \<lparr>p_ops = UNIV, p_ref_sets = [], p_op_ref_sets = Map.empty, p_ref_not = [], p_time_le = None,
     p_agent = Some ''a'', p_agent_conflict = False, cap_loc = ''forge'', cap_id = ''demo'', cap_caveats = [''agent=a''], cap_sig = []\<rparr>"

definition pack_forge :: "(oid \<Rightarrow> bytes option) \<Rightarrow> Catalog \<Rightarrow> Forge" where
  "pack_forge V c = \<lparr>f_store = \<lparr>l_store = (memory_store_new False)\<lparr>visible := V\<rparr>, l_seen = {}\<rparr>, f_meta = c, f_hmac_key = [],
     f_stats = \<lparr>ct_stale_observation = 0, ct_merge_conflict = 0, ct_sessions_opened = 0, ct_merge_applied = 0, ct_renames = 0\<rparr>\<rparr>"

lemma pack_forge_world: "ran V \<subseteq> fst ` set xs \<Longrightarrow> pack_world xs V (pack_forge V c)"
  by (simp add: pack_world_def pack_forge_def memory_store_new_def)

lemma all_check: "env_hmac E = (\<lambda>_ _. []) \<Longrightarrow> check E now all_cap op r w = Inr ()"
  by (cases r) (auto simp: check_def verify_def sign_chain_def all_cap_def allows_def Let_def)

definition main_catalog :: "oid \<Rightarrow> Catalog" where
  "main_catalog i = empty_catalog\<lparr>refs := [(''main'', ref_row i ''commit'' False False 0)]\<rparr>"

definition seal_visible :: "oid \<Rightarrow> bytes option" where
  "seal_visible = [2 \<mapsto> tree_bytes empty_tree, 5 \<mapsto> commit_bytes demo_base]"

abbreviation seal_forge :: Forge where
  "seal_forge \<equiv> pack_forge seal_visible (main_catalog 5)"

lemma seal_world: "pack_world seal_objects seal_visible seal_forge"
  by (rule pack_forge_world) (auto simp: seal_visible_def seal_objects_def ran_def split: if_split_asm)

lemma seal_gets:
  "store_get (pack_hash seal_objects) 5 (objects seal_forge) = Inr (commit_bytes demo_base)"
  "store_get (pack_hash seal_objects) 2 (objects seal_forge) = Inr (tree_bytes empty_tree)"
  by (rule pack_get [OF seal_packed seal_world]; simp add: seal_objects_def seal_visible_def)+

lemma seal_open: "open_seal seal_env 0 all_cap ''main'' ''v1'' seal_forge =
    Inr (\<lparr>row_name = ''main'', row_oid = 5, row_kind = ''commit'', row_protected = False, row_sealed = False\<rparr>, demo_base)"
proof -
  have "tag_ok ''v1''" by code_simp
  moreover have "get_ref (main_catalog 5) ''main'' = Some \<lparr>row_name = ''main'', row_oid = 5, row_kind = ''commit'', row_protected = False, row_sealed = False\<rparr>"
    by (simp add: get_ref_def main_catalog_def)
  moreover have "get_commit (pack_hash seal_objects) 5 (objects seal_forge) = Inr demo_base"
    by (simp add: get_commit_def seal_gets demo_decodes)
  moreover have "f_meta seal_forge = main_catalog 5" by (simp add: pack_forge_def)
  ultimately show ?thesis by (simp add: open_seal_def all_check seal_env_def ok_or_def)
qed

lemma demo_edges:
  "tree_edges i empty_tree = []" "commit_edges i demo_base = [exact_edge 2 ObjectType.Tree (''commit:'' @ hex i @ '':tree'')]"
  by (simp_all add: tree_edges_def empty_tree_def commit_edges_def demo_base_def)

lemma seal_loads:
  "load_graph_object (pack_hash seal_objects) (objects seal_forge) 2 = Some (Inr \<lparr>dg_object_type = ObjectType.Tree, dg_edges = []\<rparr>)"
  "load_graph_object (pack_hash seal_objects) (objects seal_forge) 5 = Some (Inr \<lparr>dg_object_type = ObjectType.Commit,
     dg_edges = [exact_edge 2 ObjectType.Tree (''commit:'' @ hex 5 @ '':tree'')]\<rparr>)"
  using demo_edges by (simp_all add: load_graph_object_def seal_gets decode_graph_object_def demo_types demo_decodes)

lemma seal_scope: "verified_provenance_scope seal_env 100 5 2 (objects seal_forge) = Some (Inr ([2], []))"
proof -
  note walk = reachable_graph_verified_def schedule_def with_limit_def exact_edge_def graph_loop.simps graph_visit_def seal_loads
    expectation_verify_def insort_key.simps
  have t: "reachable_graph_verified (pack_hash seal_objects) 100 2 ObjectType.Tree (objects seal_forge) =
      Some (Inr [\<lparr>vg_id = 2, vg_object_type = ObjectType.Tree\<rparr>])"
    by (simp add: walk)
  have c: "reachable_graph_verified (pack_hash seal_objects) 100 5 ObjectType.Commit (objects seal_forge) =
      Some (Inr [\<lparr>vg_id = 2, vg_object_type = ObjectType.Tree\<rparr>, \<lparr>vg_id = 5, vg_object_type = ObjectType.Commit\<rparr>])"
    by (simp add: walk)
  show ?thesis using t c by (simp add: scope_Inr seal_env_def contribution_agents_def act_bind_Inr_iff)
qed

lemma seal_entries: "manifest_entries (main_catalog 5) [2] [] = [(2, ''unknown'')]" "manifest_new [(2, ''unknown'')] = Inr seal_manifest"
  by (simp_all add: manifest_entries_def intro_get_def main_catalog_def empty_catalog_def manifest_new_def validate_manifest_def
      manifest_encoded_len_def entries_encoded_len_def entry_len_step_def encoded_text_len_def add_size_def cbor_header_len_def
      MAX_ENTRIES_def MAX_LABEL_BYTES_def MAX_SERIALIZED_BYTES_def CURRENT_VERSION_def seal_manifest_def)

lemma seal_commit: "\<exists>c'. commit_seal ''v1'' 9 5 2 ''a'' (Some (''main'', 5)) 0 (main_catalog 5) = Inr ((), c')"
proof -
  have "validate_ref_kind ''tags/v1'' ''snapshot'' = Inr ()" by code_simp
  then show ?thesis
    by (simp add: commit_seal_def begin_tx_def main_catalog_def empty_catalog_def ref_exists_def check_expect_ref_def insert_ref_row_def
        insert_seal_row_def insert_row_def has_row_def ref_kinds_def Let_def)
qed

lemma seal_example:
  "\<exists>w'. forge_seal seal_env seal_keys 0 all_cap ''main'' ''v1'' seal_forge = Some (Inr 9, w') \<and> log_good (env_hash seal_env) (f_store w')"
proof -
  have e: "env_hash seal_env = pack_hash seal_objects" by (simp add: seal_env_def)
  have mem: "(seal_blob, 8) \<in> set seal_objects" "(snap_bytes, 9) \<in> set seal_objects" by (simp_all add: seal_objects_def)
  let ?m = "f_meta seal_forge"
  have m: "?m = main_catalog 5" by (simp add: pack_forge_def)
  obtain l where l: "stored (put_blob seal_env (manifest_encode seal_manifest)) seal_forge = Some (Inr 8, seal_forge\<lparr>f_store := l\<rparr>)"
      "pack_world seal_objects (seal_visible(8 \<mapsto> seal_blob)) (seal_forge\<lparr>f_store := l\<rparr>)"
    using pack_put_blob [OF seal_packed seal_world mem(1) _ e seal_blob_encodes(1)] by (auto simp: seal_visible_def)
  obtain l2 where l2: "put_encoded seal_env (Some snap_bytes) (seal_forge\<lparr>f_store := l\<rparr>) = Some (Inr 9, seal_forge\<lparr>f_store := l2\<rparr>)"
      "pack_world seal_objects (seal_visible(8 \<mapsto> seal_blob, 9 \<mapsto> snap_bytes)) (seal_forge\<lparr>f_store := l2\<rparr>)"
    using pack_put [OF seal_packed l(2) mem(2) _ e] by (auto simp: seal_visible_def)
  obtain c' where c': "commit_seal ''v1'' 9 5 2 ''a'' (Some (''main'', 5)) 0 (main_catalog 5) = Inr ((), c')" using seal_commit by blast
  have snap: "\<lparr>s_tree = 2, s_commit = 5, s_tag = ''v1'', s_ts = 0, s_prov = 8, s_pk = replicate 32 0, s_sig = replicate 64 0\<rparr> = seal_snap"
    "seal_snap\<lparr>s_sig := replicate 64 0\<rparr> = seal_snap" by (simp_all add: seal_snap_def)
  have k: "se_sign seal_keys a b = replicate 64 0" "se_pk seal_keys = replicate 32 0" "se_limit seal_keys = 100" "agent_id all_cap = ''a''" for a b
    by (simp_all add: seal_keys_def agent_id_def all_cap_def)
  have "forge_seal seal_env seal_keys 0 all_cap ''main'' ''v1'' seal_forge = Some (Inr 9, seal_forge\<lparr>f_store := l2, f_meta := c'\<rparr>)"
    using l(1) l2(1) c' m snap_encodes(1) seal_scope seal_entries
    by (simp add: forge_seal_def act_bind_Inr_iff seal_open verb_scope_def k snap snapshot_encode_unsigned_def Let_def meta_Inr)
  moreover have "log_good (env_hash seal_env) l2" using pack_good [OF seal_packed l2(2)] e by simp
  ultimately show ?thesis by auto
qed

text \<open>The hypotheses of both seal theorems hold for this run and any later reader.\<close>

lemma seal_example_ok:
  "se_key_ok seal_keys (se_pk seal_keys)" "length (se_pk seal_keys) = 32" "se_verify seal_keys (se_pk seal_keys) m (se_sign seal_keys (se_seed seal_keys) m)"
  "length (se_sign seal_keys (se_seed seal_keys) m) = 64" "intro_get (f_meta seal_forge) i = Some a \<Longrightarrow> valid_str a"
  "check seal_env now all_cap op r w = Inr ()"
  by (simp_all add: seal_keys_def intro_get_def pack_forge_def main_catalog_def empty_catalog_def all_check seal_env_def)

theorem seal_then_verify_witness:
  "\<exists>w'. forge_seal seal_env seal_keys 0 all_cap ''main'' ''v1'' seal_forge = Some (Inr 9, w') \<and>
    verify_tag seal_env seal_keys 1 all_cap ''v1'' w' = Some (Inr 9, w')"
proof -
  obtain w' where w': "forge_seal seal_env seal_keys 0 all_cap ''main'' ''v1'' seal_forge = Some (Inr 9, w')" "log_good (env_hash seal_env) (f_store w')"
    using seal_example by blast
  have "verify_tag seal_env seal_keys 1 all_cap ''v1'' w' = Some (Inr 9, w')"
    by (rule seal_then_verify [OF w' seal_example_ok(1-5) _ _ _ seal_example_ok(6)]) simp_all
  then show ?thesis using w'(1) by blast
qed

theorem verified_tag_is_complete_witness:
  "\<exists>w (snap :: Snapshot). verify_tag seal_env seal_keys 1 all_cap ''v1'' w = Some (Inr 9, w) \<and> get_seal (f_meta w) ''v1'' = Some (9, s_commit snap, s_tree snap) \<and>
    get_ref (f_meta w) ''tags/v1'' = Some \<lparr>row_name = ''tags/v1'', row_oid = 9, row_kind = ''snapshot'', row_protected = True, row_sealed = True\<rparr> \<and>
    well_typed (env_hash seal_env) (objects w) (s_commit snap) ObjectType.Commit"
proof -
  obtain w' where w': "forge_seal seal_env seal_keys 0 all_cap ''main'' ''v1'' seal_forge = Some (Inr 9, w')" "log_good (env_hash seal_env) (f_store w')"
    using seal_example by blast
  have "verify_tag seal_env seal_keys 1 all_cap ''v1'' w' = Some (Inr 9, w')"
    by (rule seal_verifies [OF w' seal_example_ok(1-5) _ _ _ seal_example_ok(6)]) simp_all
  note v = this
  from verified_tag_is_complete [OF v] show ?thesis
  proof (elim exE conjE)
    fix snap :: Snapshot
    assume "get_ref (f_meta w') (''tags/'' @ ''v1'') =
        Some \<lparr>row_name = ''tags/'' @ ''v1'', row_oid = 9, row_kind = ''snapshot'', row_protected = True, row_sealed = True\<rparr>"
      "get_seal (f_meta w') ''v1'' = Some (9, s_commit snap, s_tree snap)"
      "well_typed (env_hash seal_env) (objects w') (s_commit snap) ObjectType.Commit"
    then show ?thesis using v by auto
  qed
qed

section \<open>A merge\<close>

text \<open>\<open>main\<close> is at the empty commit, \<open>work\<close> at its child, which adds a file.\<close>

definition merge_commit :: Commit where
  "merge_commit = \<lparr>c_tree = 1, c_parents = [5, 6], c_agent = ''a'', c_msg = ''merge ref:work into main'', c_ts = 0, c_landmark = False, c_contrib = None\<rparr>"

definition resolve_commit :: Commit where
  "resolve_commit = \<lparr>c_tree = 1, c_parents = [5, 6], c_agent = ''a'', c_msg = ''resolve '' @ hex 11, c_ts = 0, c_landmark = False, c_contrib = None\<rparr>"

definition fork_conflict :: Conflict where
  "fork_conflict = \<lparr>k_bases = [], k_ours = 2, k_theirs = 1, k_paths = [], k_causal = [5, 6]\<rparr>"

definition conflict_bytes :: bytes where
  "conflict_bytes = the (conflict_encode fork_conflict)"

definition int_objects :: "(bytes \<times> oid) list" where
  "int_objects = [(tree_bytes empty_tree, 2), (tree_bytes one_tree, 1), (commit_bytes demo_base, 5), (commit_bytes demo_next, 6), (blob_bytes, 7),
     (commit_bytes merge_commit, 10), (commit_bytes resolve_commit, 12), (conflict_bytes, 11)]"

lemma int_commits:
  "commit_encode merge_commit = Some (commit_bytes merge_commit)" "commit_encode resolve_commit = Some (commit_bytes resolve_commit)"
  "commit_decode (commit_bytes merge_commit) = Inr merge_commit" "commit_decode (commit_bytes resolve_commit) = Inr resolve_commit"
proof -
  have "length (hex 11) = 64" by simp
  then show e: "commit_encode merge_commit = Some (commit_bytes merge_commit)" "commit_encode resolve_commit = Some (commit_bytes resolve_commit)"
    using commit_encodes [of merge_commit] commit_encodes [of resolve_commit]
    by (auto simp: merge_commit_def resolve_commit_def commit_bytes_def)
  have "valid_str ''a''" "valid_str ''merge ref:work into main''" by (simp_all add: valid_str_ascii ascii_char_def)
  then show "commit_decode (commit_bytes merge_commit) = Inr merge_commit" "commit_decode (commit_bytes resolve_commit) = Inr resolve_commit"
    using e valid_str_resolve [of 11] by (auto simp: commit_decode_iff commit_ok_def merge_commit_def resolve_commit_def max_commit_parents_def)
qed

lemma fork_conflict_encodes: "conflict_encode fork_conflict = Some conflict_bytes" "conflict_decode conflict_bytes = Inr fork_conflict"
proof -
  let ?t = "conflict_vars_of fork_conflict"
  have "length (encode_record (conflict_fields ?t)) < 2 ^ 32"
    using length_encode_map_sorted [of "map (\<lambda>(k, v). (text_key k, v)) (present (conflict_fields ?t))"]
      length_encode_item(3) [of "''bases''"] length_encode_item(3) [of "''causal''"] length_encode_item(3) [of "''ours''"]
      length_encode_item(3) [of "''paths''"] length_encode_item(3) [of "''theirs''"] length_encode_item(6) [of 1] length_encode_item(6) [of 2]
      length_encode_item(6) [of 5] length_encode_item(6) [of 6] length_encode_item(7) [of 0] length_encode_item(7) [of 2]
    by (auto simp: encode_record_def conflict_fields_def encode_array_def fork_conflict_def conflict_vars_of_def)
  then show e: "conflict_encode fork_conflict = Some conflict_bytes"
    by (auto simp: conflict_bytes_def conflict_encode_record encode_file_def u32_try_from_def)
  show "conflict_decode conflict_bytes = Inr fork_conflict"
    using e by (intro conflict_decode_encode) (auto simp: conflict_validate_def fork_conflict_def max_conflict_items_def)
qed

lemma int_packed: "packed int_objects"
proof -
  have "commit_bytes demo_base \<noteq> commit_bytes demo_next" "commit_bytes c \<noteq> commit_bytes d"
    if "c \<in> {demo_base, demo_next}" "d \<in> {merge_commit, resolve_commit}" for c d
    using that demo_decodes(3,4) int_commits(3,4) by (auto simp: demo_base_def demo_next_def merge_commit_def resolve_commit_def)
  moreover have "commit_bytes merge_commit \<noteq> commit_bytes resolve_commit"
    using int_commits(3,4) by (auto simp: merge_commit_def resolve_commit_def)
  moreover have "decode_object_type (commit_bytes merge_commit) = Inr ObjectType.Commit" "decode_object_type (commit_bytes resolve_commit) = Inr ObjectType.Commit"
    using int_commits(1,2) by (auto simp: commit_encode_record intro: encoded_type)
  moreover have "decode_object_type conflict_bytes = Inr ObjectType.Conflict"
    using fork_conflict_encodes(1) by (auto simp: conflict_encode_record intro: encoded_type)
  ultimately show ?thesis using demo_distinct demo_types unfolding packed_def int_objects_def by auto
qed

definition int_env :: Env where
  "int_env = \<lparr>env_hash = pack_hash int_objects, env_hmac = \<lambda>_ _. []\<rparr>"

definition int_visible :: "oid \<Rightarrow> bytes option" where
  "int_visible = [2 \<mapsto> tree_bytes empty_tree, 1 \<mapsto> tree_bytes one_tree, 5 \<mapsto> commit_bytes demo_base, 6 \<mapsto> commit_bytes demo_next,
     7 \<mapsto> blob_bytes, 11 \<mapsto> conflict_bytes]"

definition conflict_ref :: string where
  "conflict_ref = ''conflicts/main/01''"

definition int_catalog :: Catalog where
  "int_catalog = empty_catalog\<lparr>refs := [(conflict_ref, ref_row 11 ''conflict'' False False 0), (''main'', ref_row 5 ''commit'' False False 0),
     (''work'', ref_row 6 ''commit'' False False 0)]\<rparr>"

abbreviation int_forge :: Forge where
  "int_forge \<equiv> pack_forge int_visible int_catalog"

lemma int_world: "pack_world int_objects int_visible int_forge"
  by (rule pack_forge_world) (auto simp: int_visible_def int_objects_def ran_def split: if_split_asm)

lemma int_gets:
  assumes "pack_world int_objects V w"
  shows "V 2 = int_visible 2 \<Longrightarrow> store_get (pack_hash int_objects) 2 (objects w) = Inr (tree_bytes empty_tree)"
    "V 1 = int_visible 1 \<Longrightarrow> store_get (pack_hash int_objects) 1 (objects w) = Inr (tree_bytes one_tree)"
    "V 5 = int_visible 5 \<Longrightarrow> store_get (pack_hash int_objects) 5 (objects w) = Inr (commit_bytes demo_base)"
    "V 6 = int_visible 6 \<Longrightarrow> store_get (pack_hash int_objects) 6 (objects w) = Inr (commit_bytes demo_next)"
    "V 7 = int_visible 7 \<Longrightarrow> store_get (pack_hash int_objects) 7 (objects w) = Inr blob_bytes"
    "V 11 = int_visible 11 \<Longrightarrow> store_get (pack_hash int_objects) 11 (objects w) = Inr conflict_bytes"
  using pack_get [OF int_packed assms] by (simp_all add: int_visible_def int_objects_def)

lemma int_open_merge: "open_merge int_env 0 all_cap ''main'' ''ref:work'' None int_forge =
    Inr (\<lparr>row_name = ''main'', row_oid = 5, row_kind = ''commit'', row_protected = False, row_sealed = False\<rparr>, demo_base, 6, demo_next)"
proof -
  note g = int_gets [OF int_world refl]
  have s: "parse_spec ''ref:work'' = Inr (SpecRef ''work'')" by code_simp
  have r: "get_ref int_catalog ''main'' = Some \<lparr>row_name = ''main'', row_oid = 5, row_kind = ''commit'', row_protected = False, row_sealed = False\<rparr>"
    "get_ref int_catalog ''work'' = Some \<lparr>row_name = ''work'', row_oid = 6, row_kind = ''commit'', row_protected = False, row_sealed = False\<rparr>"
    by (simp_all add: get_ref_def int_catalog_def conflict_ref_def)
  have m: "f_meta int_forge = int_catalog" "env_hash int_env = pack_hash int_objects" by (simp_all add: pack_forge_def int_env_def)
  have c: "check int_env 0 all_cap op p int_forge = Inr ()" for op p by (rule all_check) (simp add: int_env_def)
  show ?thesis
    by (simp add: open_merge_def open_into_def check_spec_read_def peel_commit_def resolve_spec_oid_def object_type_def get_commit_def
        m r s c g demo_types demo_decodes ok_or_def)
qed

lemma int_env_selects [simp]:
  "f_meta int_forge = int_catalog" "env_hash int_env = pack_hash int_objects" "agent_id all_cap = ''a''" "row_oid \<lparr>row_name = n, row_oid = i, row_kind = k, row_protected = p, row_sealed = s\<rparr> = i"
  by (simp_all add: pack_forge_def int_env_def agent_id_def all_cap_def)

lemma int_merge_tree: "merge_tree int_env 0 ''01'' all_cap ''main'' 5 demo_base 6 demo_next int_forge = Some (Inr 1, int_forge)"
proof -
  note g = int_gets [OF int_world refl]
  define get where "get = (\<lambda>i. get_commit (pack_hash int_objects) i (objects int_forge))"
  have c: "get 5 = Inr demo_base" "get 6 = Inr demo_next" by (simp_all add: get_def get_commit_def g demo_decodes)
  have p: "c_parents demo_base = []" "c_parents demo_next = [5]" "c_tree demo_next = 1" by (simp_all add: demo_base_def demo_next_def)
  have "merge_bases get 5 6 = Inr [5]"
    by (simp add: merge_bases_def ancestor_map_def ancestor_loop.simps c p MAX_ANCESTRY_COMMITS_def
        dominated_by_def dominated_loop.simps recorded_parents_def Let_def)
  moreover have "three_way (store_get_tree H) (store_put_tree H) (Some 2) 2 1 l = Some (Inr (MergedTree 1), l)" for H l
    by (simp add: three_way_def auto_merge_tree_def merge_trees.simps act_bind_Inr_iff)
  ultimately show ?thesis
    using c by (simp add: merge_tree_def act_bind_Inr_iff get_def stored_Some p)
qed

lemma int_put:
  assumes "(bs, i) \<in> set int_objects" "int_visible i = None"
  shows "\<exists>l. put_encoded int_env (Some bs) int_forge = Some (Inr i, int_forge\<lparr>f_store := l\<rparr>) \<and> log_good (pack_hash int_objects) l \<and>
    collect_intros (pack_hash int_objects) (Some 2) 1 (l_store l) = Some (Inr [1, 7], l_store l) \<and>
    get_commit (pack_hash int_objects) 5 (l_store l) = Inr demo_base"
proof -
  obtain l where l: "put_encoded int_env (Some bs) int_forge = Some (Inr i, int_forge\<lparr>f_store := l\<rparr>)"
      "pack_world int_objects (int_visible(i \<mapsto> bs)) (int_forge\<lparr>f_store := l\<rparr>)"
    using pack_put [OF int_packed int_world assms(1), of int_env] assms(2) by auto
  have v: "(int_visible(i \<mapsto> bs)) 2 = int_visible 2" "(int_visible(i \<mapsto> bs)) 1 = int_visible 1" "(int_visible(i \<mapsto> bs)) 5 = int_visible 5"
    "(int_visible(i \<mapsto> bs)) 7 = int_visible 7" using assms(2) by (auto simp: int_visible_def)
  note g = int_gets(1) [OF l(2) v(1)] int_gets(2) [OF l(2) v(2)] int_gets(3) [OF l(2) v(3)] int_gets(5) [OF l(2) v(4)]
  have "collect_intros (pack_hash int_objects) (Some 2) 1 (l_store l) = Some (Inr [1, 7], l_store l)"
    using g(1,2,4) by (intro one_file_intros) simp_all
  moreover have "get_commit (pack_hash int_objects) 5 (l_store l) = Inr demo_base" using g(3) by (simp add: get_commit_def demo_decodes)
  ultimately show ?thesis using l pack_good [OF int_packed l(2)] by auto
qed

lemma merge_example:
  "\<exists>w'. forge_merge int_env 0 ''01'' ''02'' all_cap ''main'' ''ref:work'' None int_forge = Some (Inr (Updated ''main'' 10), w') \<and>
    log_good (env_hash int_env) (f_store w')"
proof -
  have mem: "(commit_bytes merge_commit, 10) \<in> set int_objects" "int_visible 10 = None" by (simp_all add: int_objects_def int_visible_def)
  obtain l where l: "put_encoded int_env (Some (commit_bytes merge_commit)) int_forge = Some (Inr 10, int_forge\<lparr>f_store := l\<rparr>)"
      "log_good (pack_hash int_objects) l" "collect_intros (pack_hash int_objects) (Some 2) 1 (l_store l) = Some (Inr [1, 7], l_store l)"
    using int_put [OF mem] by blast
  have "validate_ref_kind ''main'' ''commit'' = Inr ()" by code_simp
  then obtain c' where c': "cas_ref_with_intros ''main'' 5 10 ''commit'' ''a'' ''a'' False [1, 7] ''02'' 0 int_catalog = Inr (Updated ''main'' 10, c')"
    by (simp add: cas_ref_with_intros_def begin_tx_def int_catalog_def empty_catalog_def conflict_ref_def starts_with_def has_row_def)
  have k: "\<lparr>c_tree = 1, c_parents = [5, 6], c_agent = ''a'', c_msg = ''merge '' @ ''ref:work'' @ '' into '' @ ''main'', c_ts = 0,
      c_landmark = False, c_contrib = None\<rparr> = merge_commit" by (simp add: merge_commit_def)
  show ?thesis
    using l c'
    by (simp add: forge_merge_def act_bind_Inr_iff int_open_merge int_merge_tree Let_def k [simplified] int_commits verb_intros_def meta_Inr)
qed

theorem merge_publishes_three_way_witness:
  "\<exists>w' commit. forge_merge int_env 0 ''01'' ''02'' all_cap ''main'' ''ref:work'' None int_forge = Some (Inr (Updated ''main'' 10), w') \<and>
    get_commit (env_hash int_env) 10 (objects w') = Inr commit \<and> c_parents commit = [5, 6]"
proof -
  obtain w' where w': "forge_merge int_env 0 ''01'' ''02'' all_cap ''main'' ''ref:work'' None int_forge = Some (Inr (Updated ''main'' 10), w')"
      "log_good (env_hash int_env) (f_store w')" using merge_example by blast
  have v: "valid_str (agent_id all_cap)" "valid_str (''merge '' @ ''ref:work'' @ '' into '' @ ''main'')" by (simp_all add: valid_str_ascii ascii_char_def)
  from merge_publishes_three_way [OF w' v] show ?thesis
  proof (elim exE conjE)
    fix row theirs_oid cid commit a b
    assume "open_merge int_env 0 all_cap ''main'' ''ref:work'' None int_forge = Inr (row, a, theirs_oid, b)"
      "get_commit (env_hash int_env) cid (objects w') = Inr commit" "c_parents commit = [row_oid row, theirs_oid]"
      "cas_keeps_work ''main'' (row_oid row) cid (fork_name ''main'' (agent_id all_cap) ''02'') (f_meta int_forge) (Updated ''main'' 10) (f_meta w')"
    then show ?thesis using w'(1) by (auto simp: int_open_merge cas_keeps_work_def)
  qed
qed

section \<open>A resolution\<close>

lemma int_open_resolve: "open_resolve int_env (\<lambda>s. s = ''01'') 0 all_cap 11 ''main'' int_forge =
    Inr (\<lparr>row_name = ''main'', row_oid = 5, row_kind = ''commit'', row_protected = False, row_sealed = False\<rparr>, fork_conflict,
      \<lparr>row_name = conflict_ref, row_oid = 11, row_kind = ''conflict'', row_protected = False, row_sealed = False\<rparr>, ''resolutions/01'')"
proof -
  have r: "get_ref int_catalog ''main'' = Some \<lparr>row_name = ''main'', row_oid = 5, row_kind = ''commit'', row_protected = False, row_sealed = False\<rparr>"
    by (simp add: get_ref_def int_catalog_def conflict_ref_def)
  have c: "check int_env 0 all_cap op p int_forge = Inr ()" for op p by (rule all_check) (simp add: int_env_def)
  have "published_conflict ''main'' 11 int_forge = Inr \<lparr>row_name = conflict_ref, row_oid = 11, row_kind = ''conflict'', row_protected = False, row_sealed = False\<rparr>"
    unfolding published_conflict_def int_env_selects(1) by (simp add: list_refs_def int_catalog_def conflict_ref_def ok_or_def)
  moreover have "last (split_on slash conflict_ref) = ''01''" by code_simp
  moreover have "get_conflict (pack_hash int_objects) 11 (objects int_forge) = Inr fork_conflict"
    by (simp add: get_conflict_def int_gets [OF int_world refl] fork_conflict_encodes)
  moreover have "k_causal fork_conflict = [5, 6]" by (simp add: fork_conflict_def)
  ultimately show ?thesis by (simp add: open_resolve_def open_into_def r c ok_or_def)
qed

lemma resolve_example:
  "\<exists>pr w'. forge_resolve int_env (\<lambda>s. s = ''01'') 0 all_cap 11 ''main'' Theirs int_forge = Some (Inr pr, w') \<and> log_good (env_hash int_env) (f_store w')"
proof -
  have mem: "(commit_bytes resolve_commit, 12) \<in> set int_objects" "int_visible 12 = None" by (simp_all add: int_objects_def int_visible_def)
  obtain l where l: "put_encoded int_env (Some (commit_bytes resolve_commit)) int_forge = Some (Inr 12, int_forge\<lparr>f_store := l\<rparr>)"
      "log_good (pack_hash int_objects) l" "collect_intros (pack_hash int_objects) (Some 2) 1 (l_store l) = Some (Inr [1, 7], l_store l)"
      "get_commit (pack_hash int_objects) 5 (l_store l) = Inr demo_base"
    using int_put [OF mem] by blast
  have "validate_ref_kind ''main'' ''commit'' = Inr ()" "validate_ref_kind ''resolutions/01'' ''commit'' = Inr ()"
    "validate_ref_kind conflict_ref ''conflict'' = Inr ()" by code_simp+
  then obtain pr c' where c': "publish_resolution ''main'' 5 12 conflict_ref 11 ''resolutions/01'' ''a'' False [1, 7] 0 int_catalog = Inr (pr, c')"
    by (simp add: publish_resolution_def begin_tx_def int_catalog_def empty_catalog_def conflict_ref_def starts_with_def has_row_def
        live_head_def still_mounted_def ref_exists_def deny_retired_def ref_retired_iff log_of_def Let_def insert_ref_row_def insert_row_def ref_kinds_def
        push_reflog_def set_ref_oid_def)
  have f: "k_causal fork_conflict = [5, 6]" "resolve_tree H fork_conflict Theirs m = Some (Inr 1, m)" for H m
    by (simp_all add: fork_conflict_def resolve_tree_def)
  have k: "\<lparr>c_tree = 1, c_parents = [5, 6], c_agent = ''a'', c_msg = ''resolve '' @ hex 11, c_ts = 0, c_landmark = False, c_contrib = None\<rparr> = resolve_commit"
    by (simp add: resolve_commit_def)
  show ?thesis
    using l c'
    by (simp add: forge_resolve_def act_bind_Inr_iff int_open_resolve stored_Some f Let_def k [simplified] int_commits verb_intros_def meta_Inr)
qed

theorem resolve_settles_conflict_witness:
  "\<exists>pr w' cid. forge_resolve int_env (\<lambda>s. s = ''01'') 0 all_cap 11 ''main'' Theirs int_forge = Some (Inr pr, w') \<and>
    tip (f_meta w') ''main'' = Some cid \<and> tip (f_meta w') ''resolutions/01'' = Some cid \<and> tip (f_meta w') conflict_ref = None"
proof -
  obtain pr w' where w': "forge_resolve int_env (\<lambda>s. s = ''01'') 0 all_cap 11 ''main'' Theirs int_forge = Some (Inr pr, w')"
      "log_good (env_hash int_env) (f_store w')" using resolve_example by blast
  have v: "valid_str (agent_id all_cap)" by (simp add: valid_str_ascii ascii_char_def)
  from resolve_settles_conflict [OF w' v] show ?thesis
  proof (elim exE conjE)
    fix row conflict con res cid
    assume "open_resolve int_env (\<lambda>s. s = ''01'') 0 all_cap 11 ''main'' int_forge = Inr (row, conflict, con, res)"
      "\<forall>n. tip (f_meta w') n = (if n = ''main'' \<or> n = res then Some cid else if n = row_name con then None else tip (f_meta int_forge) n)"
    then show ?thesis using w'(1) by (auto simp: int_open_resolve conflict_ref_def)
  qed
qed

section \<open>A merge that conflicts\<close>

text \<open>Two unrelated commits, each with its own file \<open>a\<close>.\<close>

definition two_tree :: Tree where
  "two_tree = \<lparr>entries = [ex_file ''a'' 8]\<rparr>"

definition root_commit :: "oid \<Rightarrow> Commit" where
  "root_commit t = \<lparr>c_tree = t, c_parents = [], c_agent = ''a'', c_msg = [], c_ts = 0, c_landmark = False, c_contrib = None\<rparr>"

definition file_conflict :: Conflict where
  "file_conflict = \<lparr>k_bases = [], k_ours = 1, k_theirs = 3, k_paths = [\<lparr>cp_path = ''a'', cp_a = Some 7, cp_b = Some 8, cp_base = None\<rparr>], k_causal = [5, 6]\<rparr>"

definition file_conflict_bytes :: bytes where
  "file_conflict_bytes = the (conflict_encode file_conflict)"

definition con_objects :: "(bytes \<times> oid) list" where
  "con_objects = [(tree_bytes one_tree, 1), (tree_bytes two_tree, 3), (commit_bytes (root_commit 1), 5), (commit_bytes (root_commit 3), 6),
     (file_conflict_bytes, 11)]"

lemma two_tree_small: "small_tree two_tree"
  by (simp add: two_tree_def small_tree_def tree_ok_def max_tree_entries_def ex_file_def validate_name_def utf8_ascii)

lemma root_commit_codec:
  "commit_encode (root_commit t) = Some (commit_bytes (root_commit t))" "commit_decode (commit_bytes (root_commit t)) = Inr (root_commit t)"
proof -
  show e: "commit_encode (root_commit t) = Some (commit_bytes (root_commit t))"
    using commit_encodes [of "root_commit t"] by (auto simp: root_commit_def commit_bytes_def)
  show "commit_decode (commit_bytes (root_commit t)) = Inr (root_commit t)"
    using e by (simp add: commit_decode_iff commit_ok_def root_commit_def max_commit_parents_def valid_str_ascii ascii_char_def)
qed

lemma file_conflict_encodes: "conflict_encode file_conflict = Some file_conflict_bytes" "conflict_validate file_conflict = Inr ()"
proof -
  let ?t = "conflict_vars_of file_conflict"
  let ?p = "path_vars_enc (path_vars_of \<lparr>cp_path = ''a'', cp_a = Some 7, cp_b = Some 8, cp_base = None\<rparr>)"
  have "length ?p \<le> 1000"
    using length_encode_map_sorted [of "map (\<lambda>(k, v). (text_key k, v)) (present (path_fields (path_vars_of \<lparr>cp_path = ''a'', cp_a = Some 7, cp_b = Some 8, cp_base = None\<rparr>)))"]
      length_encode_item(3) [of "''a''"] length_encode_item(3) [of "''b''"] length_encode_item(3) [of "''base''"] length_encode_item(3) [of "''p''"]
      length_encode_item(6) [of 7] length_encode_item(6) [of 8] length_encode_item(2) [of "''a''"]
    by (auto simp: path_vars_enc_def encode_record_def path_fields_def path_vars_of_def opt_id_def encode_null_def encode_oid_def)
  then have "length (encode_record (conflict_fields ?t)) < 2 ^ 32"
    using length_encode_map_sorted [of "map (\<lambda>(k, v). (text_key k, v)) (present (conflict_fields ?t))"]
      length_encode_item(3) [of "''bases''"] length_encode_item(3) [of "''causal''"] length_encode_item(3) [of "''ours''"]
      length_encode_item(3) [of "''paths''"] length_encode_item(3) [of "''theirs''"] length_encode_item(6) [of 1] length_encode_item(6) [of 3]
      length_encode_item(6) [of 5] length_encode_item(6) [of 6] length_encode_item(7) [of 0] length_encode_item(7) [of 1] length_encode_item(7) [of 2]
    by (auto simp: encode_record_def conflict_fields_def encode_array_def file_conflict_def conflict_vars_of_def)
  then show "conflict_encode file_conflict = Some file_conflict_bytes"
    by (auto simp: file_conflict_bytes_def conflict_encode_record encode_file_def u32_try_from_def)
  show "conflict_validate file_conflict = Inr ()" by (simp add: conflict_validate_def file_conflict_def max_conflict_items_def)
qed

lemma con_types:
  "decode_object_type (tree_bytes two_tree) = Inr ObjectType.Tree" "decode_object_type (commit_bytes (root_commit t)) = Inr ObjectType.Commit"
  "decode_object_type file_conflict_bytes = Inr ObjectType.Conflict"
  using tree_bytes [OF two_tree_small] root_commit_codec(1) [of t] file_conflict_encodes(1)
  by (auto simp: commit_encode_record conflict_encode_record intro: encoded_type tree_decode_type)

lemma con_packed: "packed con_objects"
proof -
  have "commit_bytes (root_commit 1) \<noteq> commit_bytes (root_commit 3)"
    using root_commit_codec(2) [of 1] root_commit_codec(2) [of 3] by (auto simp: root_commit_def)
  moreover have "tree_bytes one_tree \<noteq> tree_bytes two_tree"
    using demo_decodes(2) tree_bytes [OF two_tree_small] by (auto simp: one_tree_def two_tree_def ex_file_def)
  ultimately show ?thesis using con_types(1,3) con_types(2) [of 1] con_types(2) [of 3] demo_types(2) unfolding packed_def con_objects_def by auto
qed

definition con_env :: Env where
  "con_env = \<lparr>env_hash = pack_hash con_objects, env_hmac = \<lambda>_ _. []\<rparr>"

definition con_visible :: "oid \<Rightarrow> bytes option" where
  "con_visible = [1 \<mapsto> tree_bytes one_tree, 3 \<mapsto> tree_bytes two_tree, 5 \<mapsto> commit_bytes (root_commit 1), 6 \<mapsto> commit_bytes (root_commit 3)]"

definition con_catalog :: Catalog where
  "con_catalog = empty_catalog\<lparr>refs := [(''main'', ref_row 5 ''commit'' False False 0), (''work'', ref_row 6 ''commit'' False False 0)]\<rparr>"

abbreviation con_forge :: Forge where
  "con_forge \<equiv> pack_forge con_visible con_catalog"

lemma con_world: "pack_world con_objects con_visible con_forge"
  by (rule pack_forge_world) (auto simp: con_visible_def con_objects_def ran_def split: if_split_asm)

lemma con_gets:
  "store_get (pack_hash con_objects) 1 (objects con_forge) = Inr (tree_bytes one_tree)"
  "store_get (pack_hash con_objects) 3 (objects con_forge) = Inr (tree_bytes two_tree)"
  "store_get (pack_hash con_objects) 5 (objects con_forge) = Inr (commit_bytes (root_commit 1))"
  "store_get (pack_hash con_objects) 6 (objects con_forge) = Inr (commit_bytes (root_commit 3))"
  by (rule pack_get [OF con_packed con_world]; simp add: con_visible_def con_objects_def)+

lemma con_selects [simp]: "f_meta con_forge = con_catalog" "env_hash con_env = pack_hash con_objects"
  by (simp_all add: pack_forge_def con_env_def)

lemma con_open: "open_merge con_env 0 all_cap ''main'' ''ref:work'' None con_forge =
    Inr (\<lparr>row_name = ''main'', row_oid = 5, row_kind = ''commit'', row_protected = False, row_sealed = False\<rparr>, root_commit 1, 6, root_commit 3)"
proof -
  have s: "parse_spec ''ref:work'' = Inr (SpecRef ''work'')" by code_simp
  have r: "get_ref con_catalog ''main'' = Some \<lparr>row_name = ''main'', row_oid = 5, row_kind = ''commit'', row_protected = False, row_sealed = False\<rparr>"
    "get_ref con_catalog ''work'' = Some \<lparr>row_name = ''work'', row_oid = 6, row_kind = ''commit'', row_protected = False, row_sealed = False\<rparr>"
    by (simp_all add: get_ref_def con_catalog_def)
  have c: "check con_env 0 all_cap op p con_forge = Inr ()" for op p by (rule all_check) (simp add: con_env_def)
  show ?thesis
    by (simp add: open_merge_def open_into_def check_spec_read_def peel_commit_def resolve_spec_oid_def object_type_def get_commit_def
        r s c con_gets con_types root_commit_codec ok_or_def)
qed

lemma con_put_tree: "\<exists>l. store_put_tree (pack_hash con_objects) one_tree (f_store con_forge) = (Inr 1, l) \<and> pack_world con_objects con_visible (con_forge\<lparr>f_store := l\<rparr>)"
proof -
  have m: "(tree_bytes one_tree, 1) \<in> set con_objects" "con_visible 1 = Some (tree_bytes one_tree)" by (simp_all add: con_objects_def con_visible_def)
  obtain st where st: "store_put_parts (pack_hash con_objects) [tree_bytes one_tree] (objects con_forge) = (Inr 1, st)"
      "visible st = con_visible(1 \<mapsto> tree_bytes one_tree)" "\<not> Object_Store.read_only st"
    using pack_put_parts [OF con_packed con_world, of "[tree_bytes one_tree]" 1] m by auto
  show ?thesis
    using st(1) pack_world_grow [OF con_world m(1) st(2,3)] tree_bytes [OF demo_trees(2)] m(2)
    by (simp add: store_put_tree_def store_put_def fun_upd_idem)
qed

lemma con_three_way:
  "\<exists>l. three_way (store_get_tree (pack_hash con_objects)) (store_put_tree (pack_hash con_objects)) None 1 3 (f_store con_forge) =
    Some (Inr (MergeOutcome.MergeConflict (file_conflict\<lparr>k_causal := []\<rparr>)), l) \<and> pack_world con_objects con_visible (con_forge\<lparr>f_store := l\<rparr>)"
proof -
  obtain l where l: "store_put_tree (pack_hash con_objects) one_tree (f_store con_forge) = (Inr 1, l)" "pack_world con_objects con_visible (con_forge\<lparr>f_store := l\<rparr>)"
    using con_put_tree by blast
  have g: "store_get_tree (pack_hash con_objects) 1 (f_store con_forge) = Inr one_tree" "store_get_tree (pack_hash con_objects) 3 (f_store con_forge) = Inr two_tree"
    using tree_bytes [OF two_tree_small] by (simp_all add: store_get_tree_def get_tree_def con_gets demo_decodes)
  have n: "tree_new [ex_file ''a'' 7] = Inr one_tree"
    using demo_trees(2) unfolding tree_new_iff by (simp add: small_tree_def one_tree_def ex_file_def)
  have "merge_trees (store_get_tree (pack_hash con_objects)) (store_put_tree (pack_hash con_objects)) [] None 1 3 [] (f_store con_forge) =
      Some (Inr (1, k_paths file_conflict), l)"
    using l(1) n
    by (subst merge_trees.simps)
       (simp add: act_bind_def act_of_def act_ret_def g sorted_names_def as_map_def merge_name_def matches_base_def same_entry_def one_tree_def two_tree_def
        child_prefix_def file_conflict_def ex_file_def tree_default_def)
  then show ?thesis using l(2) by (auto simp: three_way_def auto_merge_tree_def act_bind_Inr_iff file_conflict_def)
qed

lemma con_merge_tree:
  "\<exists>w'. merge_tree con_env 0 ''02'' all_cap ''main'' 5 (root_commit 1) 6 (root_commit 3) con_forge = Some (Inl (error.MergeConflict 11), w') \<and>
    log_good (pack_hash con_objects) (f_store w') \<and> f_meta w' \<noteq> con_catalog"
proof -
  define get where "get = (\<lambda>i. get_commit (pack_hash con_objects) i (objects con_forge))"
  have c: "get 5 = Inr (root_commit 1)" "get 6 = Inr (root_commit 3)" by (simp_all add: get_def get_commit_def con_gets root_commit_codec)
  have p: "c_parents (root_commit t) = []" "c_tree (root_commit t) = t" for t by (simp_all add: root_commit_def)
  have b: "merge_bases get 5 6 = Inr []"
    by (simp add: merge_bases_def ancestor_map_def ancestor_loop.simps c p MAX_ANCESTRY_COMMITS_def
        dominated_by_def dominated_loop.simps recorded_parents_def Let_def)
  obtain l where l: "three_way (store_get_tree (pack_hash con_objects)) (store_put_tree (pack_hash con_objects)) None 1 3 (f_store con_forge) =
      Some (Inr (MergeOutcome.MergeConflict (file_conflict\<lparr>k_causal := []\<rparr>)), l)" "pack_world con_objects con_visible (con_forge\<lparr>f_store := l\<rparr>)"
    using con_three_way by blast
  have m: "(file_conflict_bytes, 11) \<in> set con_objects" "con_visible 11 \<in> {None, Some file_conflict_bytes}" by (simp_all add: con_objects_def con_visible_def)
  obtain l2 where l2: "put_encoded con_env (Some file_conflict_bytes) (con_forge\<lparr>f_store := l\<rparr>) = Some (Inr 11, con_forge\<lparr>f_store := l2\<rparr>)"
      "pack_world con_objects (con_visible(11 \<mapsto> file_conflict_bytes)) (con_forge\<lparr>f_store := l2\<rparr>)"
    using pack_put [OF con_packed l(2) m con_selects(2)] by auto
  have k: "file_conflict\<lparr>k_causal := [5, 6]\<rparr> = file_conflict" by (simp add: file_conflict_def)
  have "validate_ref_kind ''conflicts/main/02'' ''conflict'' = Inr ()" by code_simp
  then obtain c' where c': "insert_ref ''conflicts/main/02'' 11 ''conflict'' False False ''a'' ''conflict'' 0 con_catalog = Inr ((), c')" "c' \<noteq> con_catalog"
    by (auto simp: insert_ref_def begin_tx_def con_catalog_def empty_catalog_def starts_with_def ref_exists_def has_row_def deny_retired_def
        ref_retired_iff log_of_def insert_ref_row_def insert_row_def ref_kinds_def push_reflog_def)
  have "log_good (pack_hash con_objects) l2" using pack_good [OF con_packed l2(2)] by simp
  then show ?thesis
    using l(1) l2(1) c' b file_conflict_encodes
    by (auto simp: merge_tree_def get_def act_bind_Some p stored_Some publish_conflict_def k verb_put_conflict_def meta_Inr)
qed

theorem failed_merge_keeps_refs_witness:
  "\<exists>w'. forge_merge con_env 0 ''02'' ''03'' all_cap ''main'' ''ref:work'' None con_forge = Some (Inl (error.MergeConflict 11), w') \<and>
    conflict_kept con_env ''conflicts/main/02'' [1, 3] [5, 6] (error.MergeConflict 11) con_forge w'"
proof -
  obtain w' where w': "merge_tree con_env 0 ''02'' all_cap ''main'' 5 (root_commit 1) 6 (root_commit 3) con_forge = Some (Inl (error.MergeConflict 11), w')"
      "log_good (pack_hash con_objects) (f_store w')" "f_meta w' \<noteq> con_catalog"
    using con_merge_tree by blast
  then have run: "forge_merge con_env 0 ''02'' ''03'' all_cap ''main'' ''ref:work'' None con_forge = Some (Inl (error.MergeConflict 11), w')"
    by (simp add: forge_merge_def act_bind_Some con_open)
  have "c_tree (root_commit t) = t" for t by (simp add: root_commit_def)
  then show ?thesis using failed_merge_keeps_refs [OF run] w'(2,3) run by (auto simp: con_open)
qed

end
