(* ===== verification/Collector_Example.thy ===== *)
theory Collector_Example
  imports Integration_Example Collector_Laws
begin

text \<open>
  One collection on a small repository, as the witness of the collector's theorems: \<open>main\<close> names a commit of the empty tree,
  and a blob that nothing names has lain in the object directory for a long time.
\<close>

definition gc_objects :: "(bytes \<times> oid) list" where
  "gc_objects = [(tree_bytes empty_tree, 2), (commit_bytes demo_base, 5), (blob_bytes, 7)]"

lemma gc_packed: "packed gc_objects"
  using demo_distinct by (auto simp: packed_def gc_objects_def)

definition gc_env :: Env where
  "gc_env = \<lparr>env_hash = pack_hash gc_objects, env_hmac = \<lambda>_ _. []\<rparr>"

definition gc_visible :: "oid \<Rightarrow> bytes option" where
  "gc_visible = [2 \<mapsto> tree_bytes empty_tree, 5 \<mapsto> commit_bytes demo_base, 7 \<mapsto> blob_bytes]"

definition gc_listing :: listing where
  "gc_listing = [(''00'', FsDir 0 None [(''00'', FsDir 0 None [(hex 2, FsFile 9 (Some 0)), (hex 5, FsFile 9 (Some 0)), (hex 7, FsFile 9 (Some 0))])])]"

definition gc_world :: GcWorld where
  "gc_world = \<lparr>gw_forge = pack_forge gc_visible (main_catalog 5), gw_dir = gc_listing,
     gw_stats = \<lparr>gn_runs = 0, gn_objects_deleted = 0, gn_bytes_deleted = 0\<rparr>\<rparr>"

definition gc_around :: SweepEnv where
  "gc_around = \<lparr>sw_scan_time = 10 ^ 12, sw_sweep_time = 10 ^ 12, sw_lock = None, sw_refuses = \<lambda>_. False, sw_commit = None, sw_others = id\<rparr>"

lemma gc_selects [simp]:
  "sw_others gc_around = id" "gw_forge gc_world = pack_forge gc_visible (main_catalog 5)" "gw_dir gc_world = gc_listing"
  "env_hash gc_env = pack_hash gc_objects" "f_meta (pack_forge gc_visible (main_catalog 5)) = main_catalog 5"
  "visible (objects (pack_forge gc_visible (main_catalog 5))) = gc_visible" "sw_lock gc_around = None" "sw_refuses gc_around p = False" "sw_commit gc_around = None"
  "sw_scan_time gc_around = 10 ^ 12" "sw_sweep_time gc_around = 10 ^ 12"
  by (simp_all add: gc_around_def gc_world_def gc_env_def pack_forge_def)

lemma gc_pack: "pack_world gc_objects gc_visible (pack_forge gc_visible (main_catalog 5))"
  by (rule pack_forge_world) (auto simp: gc_visible_def gc_objects_def ran_def split: if_split_asm)

lemma gc_gets:
  "store_get (pack_hash gc_objects) 5 (objects (pack_forge gc_visible (main_catalog 5))) = Inr (commit_bytes demo_base)"
  "store_get (pack_hash gc_objects) 2 (objects (pack_forge gc_visible (main_catalog 5))) = Inr (tree_bytes empty_tree)"
  by (rule pack_get [OF gc_packed gc_pack]; simp add: gc_objects_def gc_visible_def)+

lemma gc_loads:
  "load_graph_object (pack_hash gc_objects) (objects (pack_forge gc_visible (main_catalog 5))) 2 = Some (Inr \<lparr>dg_object_type = ObjectType.Tree, dg_edges = []\<rparr>)"
  "load_graph_object (pack_hash gc_objects) (objects (pack_forge gc_visible (main_catalog 5))) 5 = Some (Inr \<lparr>dg_object_type = ObjectType.Commit,
     dg_edges = [exact_edge 2 ObjectType.Tree (''commit:'' @ hex 5 @ '':tree'')]\<rparr>)"
  using demo_edges by (simp_all add: load_graph_object_def gc_gets decode_graph_object_def demo_types demo_decodes)

lemma gc_root_set: "gc_roots (main_catalog 5) = \<lparr>g_refs = [(''main'', ''commit'', 5)], g_pins = [], g_live_refs = 0, g_mounts = [], g_overlay = [],
    g_observations = [], g_landmarks = [], g_seals = []\<rparr>"
  by (simp add: gc_roots_def read_gc_roots_def main_catalog_def empty_catalog_def list_landmarks_def list_seals_def List.map_filter_simps)

lemma gc_reaches:
  "R \<in> {{}, {2, 5}} \<Longrightarrow> \<exists>k. reachable_closure (load_graph_object (pack_hash gc_objects) (objects (pack_forge gc_visible (main_catalog 5)))) 100
    (gc_roots (main_catalog 5)) R = Some (Inr (k, {2, 5}))"
  by (auto simp: gc_root_set reachable_closure_def schedule_catalog_roots_def root_ref_def schedule_root_def schedule_def with_limit_def Let_def
      gc_walk.simps gc_loads exact_edge_def)

lemma gc_names: "shard_dirs 2 = (''00'', ''00'')" "shard_dirs 5 = (''00'', ''00'')" "shard_dirs 7 = (''00'', ''00'')"
  by code_simp+

lemma gc_scan: "scan_objects t gc_listing = (0, [\<lparr>so_id = 2, so_path = [''00'', ''00'', hex 2], so_size = 9, so_age = t\<rparr>,
    \<lparr>so_id = 5, so_path = [''00'', ''00'', hex 5], so_size = 9, so_age = t\<rparr>, \<lparr>so_id = 7, so_path = [''00'', ''00'', hex 7], so_size = 9, so_age = t\<rparr>])"
  by (simp add: scan_objects_def gc_listing_def scan_shard_def scan_file_def file_age_def from_hex_hex)

lemma gc_metadata: "fs_metadata [''00'', ''00'', hex 7] gc_listing = Some (9, Some 0)"
  by (simp add: gc_listing_def)

lemma gc_inj: "inj_on (env_hash gc_env) (ran (visible (objects (gw_forge gc_world))) \<union> ran (visible (objects (gw_forge (sw_others gc_around gc_world)))))"
  using pack_good [OF gc_packed gc_pack] by (auto simp: log_good_def intro: inj_on_subset)

lemma gc_collects:
  "\<exists>r g'. forge_gc_collect gc_env 100 gc_around 0 all_cap 60 gc_world = Some (Inr r, g') \<and> visible (objects (gw_forge g')) 7 = None"
proof -
  let ?st = "objects (pack_forge gc_visible (main_catalog 5))" and ?scan = "scan_objects (10 ^ 12) gc_listing"
  obtain k0 where c0: "reachable_closure (load_graph_object (pack_hash gc_objects) ?st) 100 (gc_roots (main_catalog 5)) {} = Some (Inr (k0, {2, 5}))"
    using gc_reaches by auto
  obtain k where c: "reachable_closure (load_graph_object (pack_hash gc_objects) ?st) 100 (read_gc_roots (main_catalog 5)) {2, 5} = Some (Inr (k, {2, 5}))"
    using gc_reaches unfolding gc_roots_def by auto
  let ?s = "\<lparr>so_id = 7 :: oid, so_path = [''00'', ''00'', hex 7], so_size = 9 :: nat, so_age = 10 ^ 12 :: nat\<rparr>"
  have choice: "fold (choose_step (nanos 60) (10 ^ 12) gc_listing {2, 5}) (filter (\<lambda>s. so_id s \<notin> {2, 5}) (snd ?scan))
      \<lparr>ch_report = new_report False 60 k {2, 5} ?scan, ch_doomed = [], ch_spared = []\<rparr> =
      \<lparr>ch_report = new_report False 60 k {2, 5} ?scan, ch_doomed = [(?s, 9)], ch_spared = []\<rparr>"
    by (simp add: gc_scan choose_step_def gc_metadata file_age_def nanos_def GC_COLLECT_BATCH_LIMIT_def Let_def del: fs_metadata.simps)
  have auth: "gc_authority gc_env 0 all_cap [Op.Read, Op.Write] (gw_forge gc_world) = Inr ()"
    by (simp add: gc_authority_def all_check gc_env_def) (simp add: has_unrestricted_ref_scope_def all_cap_def list_all_iff)
  have path: "object_path 7 = [''00'', ''00'', hex 7]" by (simp add: object_path_def gc_names)
  let ?g = "gc_world\<lparr>gw_forge := (gw_forge gc_world)\<lparr>f_meta := snd (forget_object 7 (main_catalog 5))\<rparr>\<rparr>"
  obtain r sample where fold: "act_fold (sweep_step gc_around {2, 5}) [(?s, 9)] (new_report False 60 k {2, 5} ?scan, []) gc_world = Some (Inr (r, sample), unlink_object ?s ?g)"
    by (simp add: act_bind_Inr_iff sweep_step_def Let_def)
  have body: "sweep_body gc_env 100 gc_around 60 ?scan {2, 5} gc_world = Some (Inr (with_sample sample r), unlink_object ?s ?g)"
    using c choice fold
    by (simp add: sweep_body_def act_bind_Inr_iff protect_from_survivors_def protect_loop.simps del: act_fold.simps)
  have "\<not> Catalog.read_only (main_catalog 5)" by (simp add: main_catalog_def empty_catalog_def)
  then have "forge_gc_collect gc_env 100 gc_around 0 all_cap 60 gc_world = Some (Inr (with_sample sample r), count_gc (with_sample sample r) (unlink_object ?s ?g))"
    using auth c0 body by (simp add: forge_gc_collect_def act_bind_Inr_iff sweep_txn_def GC_COLLECT_MIN_AGE_FLOOR_def)
  moreover have "visible (objects (gw_forge (count_gc (with_sample sample r) (unlink_object ?s ?g)))) 7 = None"
    by (simp add: count_gc_def unlink_object_def Let_def path)
  ultimately show ?thesis by blast
qed

lemma gc_live: "5 \<in> live_objects (pack_hash gc_objects) (objects (pack_forge gc_visible (main_catalog 5))) (main_catalog 5)"
  using reach_self [of "root_oids (gc_roots (main_catalog 5))"] unfolding live_reach by (auto simp: root_oids_def gc_oids_def gc_root_set)

theorem gc_keeps_live_witness:
  "\<exists>r g'. forge_gc_collect gc_env 100 gc_around 0 all_cap 60 gc_world = Some (Inr r, g') \<and> visible (objects (gw_forge g')) 7 = None \<and>
    visible (objects (gw_forge g')) 5 = Some (commit_bytes demo_base)"
proof -
  obtain r g' where run: "forge_gc_collect gc_env 100 gc_around 0 all_cap 60 gc_world = Some (Inr r, g')" "visible (objects (gw_forge g')) 7 = None"
    using gc_collects by blast
  have "visible (objects (gw_forge g')) 5 = gc_visible 5" using gc_keeps_live [OF run(1) gc_inj] gc_live by auto
  then show ?thesis using run by (simp add: gc_visible_def)
qed

theorem gc_takes_cold_garbage_witness:
  "\<exists>r g'. forge_gc_collect gc_env 100 gc_around 0 all_cap 60 gc_world = Some (Inr r, g') \<and> visible (objects (gw_forge g')) 7 = None \<and>
    7 \<notin> live_objects (pack_hash gc_objects) (objects (gw_forge gc_world)) (main_catalog 5)"
proof -
  obtain r g' where run: "forge_gc_collect gc_env 100 gc_around 0 all_cap 60 gc_world = Some (Inr r, g')" "visible (objects (gw_forge g')) 7 = None"
    using gc_collects by blast
  have "gc_visible 7 \<noteq> None" by (simp add: gc_visible_def)
  then show ?thesis using gc_takes_cold_garbage [OF run(1) gc_inj refl refl] run by auto
qed

theorem gc_plan_agrees_with_sweep_witness:
  "\<exists>r g' r' g''. forge_gc gc_env 100 0 0 all_cap True 60 gc_world = Some (Inr r, g') \<and>
    forge_gc_collect gc_env 100 gc_around 0 all_cap 60 gc_world = Some (Inr r', g'') \<and> gr_reachable_objects r' = gr_reachable_objects r"
proof -
  obtain r' g'' where run: "forge_gc_collect gc_env 100 gc_around 0 all_cap 60 gc_world = Some (Inr r', g'')" using gc_collects by blast
  obtain k0 where c0: "reachable_closure (load_graph_object (pack_hash gc_objects) (objects (pack_forge gc_visible (main_catalog 5)))) 100
      (gc_roots (main_catalog 5)) {} = Some (Inr (k0, {2, 5}))"
    using gc_reaches by auto
  have auth: "gc_authority gc_env 0 all_cap [Op.Read] (gw_forge gc_world) = Inr ()"
    by (simp add: gc_authority_def all_check gc_env_def) (simp add: has_unrestricted_ref_scope_def all_cap_def list_all_iff)
  obtain r g' where plan: "forge_gc gc_env 100 0 0 all_cap True 60 gc_world = Some (Inr r, g')"
    using auth c0 by (simp add: forge_gc_def act_bind_Inr_iff case_prod_unfold Let_def)
  show ?thesis using gc_plan_agrees_with_sweep [OF plan run] plan run by auto
qed

theorem gc_collect_returns_witness:
  "\<exists>z g'. forge_gc_collect gc_env 100 gc_around 0 all_cap 60 gc_world = Some (z, g')"
  by (rule gc_collect_returns) (simp add: gc_visible_def)

end
