(* ===== verification/Fsck_Example.thy ===== *)
theory Fsck_Example
  imports Fsck_Laws Collector_Example
begin

text \<open>
  One full check on a small repository, as the witness of the theorems on the check: \<open>main\<close> was created on a commit of the
  empty tree, and a blob that nothing names lies in the object directory.
\<close>

definition fsck_rows :: Catalog where
  "fsck_rows = (case insert_ref ''main'' 5 ''commit'' False False ''a'' ''create'' 0 empty_catalog of Inr (_, c) \<Rightarrow> c | Inl _ \<Rightarrow> empty_catalog)"

lemma fsck_rows_eq: "fsck_rows = empty_catalog\<lparr>refs := [(''main'', ref_row 5 ''commit'' False False 0)],
    reflog_rows := [\<lparr>l_name = ''main'', l_old_oid = None, l_new_oid = 5, l_agent_id = ''a'', l_reason = ''create'', l_ts_ms = 0\<rparr>]\<rparr>"
  by (simp add: fsck_rows_def) code_simp

abbreviation fsck_forge :: Forge where
  "fsck_forge \<equiv> pack_forge gc_visible fsck_rows"

definition fsck_world :: FsckWorld where
  "fsck_world = \<lparr>fw_forge = fsck_forge, fw_root = ''repo'', fw_dir = gc_listing, fw_runs = 0, fw_findings = 0\<rparr>"

definition fsck_around :: FsckEnv where
  "fsck_around = \<lparr>fe_fsck_catalog = False, fe_ledger = Some [1, 2, 3], fe_parent = ''.'', fe_base = ''repo'', fe_siblings = [''repo'', ''src''],
     fe_is_ulid = (\<lambda>s. length s = 26), fe_others = id\<rparr>"

lemma fsck_selects [simp]:
  "fw_forge fsck_world = fsck_forge" "fw_dir fsck_world = gc_listing" "fw_root fsck_world = ''repo''" "fe_others fsck_around = id"
  "f_meta (pack_forge V c) = c" "fe_ledger fsck_around = Some [1, 2, 3]" "fe_fsck_catalog fsck_around = False" "se_limit seal_keys = 100"
  by (simp_all add: fsck_world_def fsck_around_def pack_forge_def seal_keys_def)

lemma pack_objects: "objects (pack_forge V c) = objects (pack_forge V d)"
  by (simp add: pack_forge_def)

lemma fsck_loads:
  "load_graph_object (pack_hash gc_objects) (objects (pack_forge gc_visible c)) 2 = Some (Inr \<lparr>dg_object_type = ObjectType.Tree, dg_edges = []\<rparr>)"
  "load_graph_object (pack_hash gc_objects) (objects (pack_forge gc_visible c)) 5 = Some (Inr \<lparr>dg_object_type = ObjectType.Commit,
     dg_edges = [exact_edge 2 ObjectType.Tree (''commit:'' @ hex 5 @ '':tree'')]\<rparr>)"
  "load_graph_object (pack_hash gc_objects) (objects (pack_forge gc_visible c)) 7 = Some (Inr \<lparr>dg_object_type = ObjectType.Blob, dg_edges = []\<rparr>)"
proof -
  have "store_get (pack_hash gc_objects) 7 (objects (pack_forge gc_visible c)) = Inr blob_bytes"
    unfolding pack_objects [of gc_visible c "main_catalog 5"] by (rule pack_get [OF gc_packed gc_pack]) (simp_all add: gc_objects_def gc_visible_def)
  then show "load_graph_object (pack_hash gc_objects) (objects (pack_forge gc_visible c)) 7 = Some (Inr \<lparr>dg_object_type = ObjectType.Blob, dg_edges = []\<rparr>)"
    by (simp add: load_graph_object_def decode_graph_object_def demo_types demo_blob_encodes)
qed (simp_all only: pack_objects [of gc_visible c "main_catalog 5"] gc_loads)

lemma fsck_ready: "init_staging_siblings fsck_around = []" "fsck_refusal gc_env fsck_around 0 all_cap full fsck_forge = Inr None"
proof -
  show "init_staging_siblings fsck_around = []"
    by (simp add: init_staging_siblings_def fsck_around_def is_staging_def strip_prefix_def prefix_def)
  have "ledger_standing (Some [1, 2, 3]) = LedgerCurrent" by (simp add: ledger_standing_def CURRENT_SCHEMA_VERSION_def)
  then show "fsck_refusal gc_env fsck_around 0 all_cap full fsck_forge = Inr None"
    by (simp add: fsck_refusal_def all_check gc_env_def) (simp add: has_unrestricted_ref_scope_def all_cap_def list_all_iff)
qed

lemma fsck_audit:
  "findings (audit_catalog fsck_rows) = []" "CatalogAudit.roots (audit_catalog fsck_rows) = [root 5 (Exact ObjectType.Commit) ''ref:main'']"
  "mount_rows (audit_catalog fsck_rows) = []" "seal_rows (audit_catalog fsck_rows) = []"
  by (simp only: fsck_rows_eq; code_simp)+

lemma fsck_scan:
  "scan_all_object_paths ''repo'' gc_listing (r, rs) =
    (r, rs @ [(2, ExpectAny, ''object:'' @ hex 2), (5, ExpectAny, ''object:'' @ hex 5), (7, ExpectAny, ''object:'' @ hex 7)])"
  by (simp add: scan_all_object_paths_def gc_listing_def scan_path_shard_def scan_path_file_def from_hex_hex gc_names add_root_def)

abbreviation fsck_roots :: "fsck_root list" where
  "fsck_roots \<equiv> [(5, ExpectExact ObjectType.Commit, ''ref:main''), (2, ExpectAny, ''object:'' @ hex 2), (5, ExpectAny, ''object:'' @ hex 5), (7, ExpectAny, ''object:'' @ hex 7)]"

text \<open>The walk over any of these roots finds nothing wrong.\<close>

lemma fsck_walk_clean:
  assumes "set rs \<subseteq> set fsck_roots" "fr_ok r"
  shows "\<exists>r'. verify_graph (\<lambda>i. store_get (pack_hash gc_objects) i (objects (pack_forge gc_visible c))) 100 rs r = Some (Inr r') \<and> fr_ok r'"
proof -
  let ?load = "load_graph_object (pack_hash gc_objects) (objects (pack_forge gc_visible c))"
  have edge: "j \<in> {2, 5, 7}" if "edge_to ?load i j" "i \<in> {2, 5, 7}" for i j
    using that by (auto simp: edge_to_def graph_edge_def fsck_loads exact_edge_def)
  have "ge_id ` root_edges rs \<subseteq> {2, 5, 7}" using assms(1) unfolding root_edges_ids by auto
  then have sub: "graph_from ?load (root_edges rs) \<subseteq> {2, 5, 7}"
    unfolding graph_from_def by (intro reach_least) (use edge in blast)+
  have "typed_edge ?load e" if "graph_edge ?load i e" "i \<in> {2, 5, 7}" for i e
    using that by (auto simp: graph_edge_def typed_edge_def fsck_loads exact_edge_def)
  moreover have "typed_edge ?load e" if "e \<in> root_edges rs" for e
    using that assms(1) by (force simp: root_edges_def typed_edge_def fsck_loads)
  ultimately have "graph_intact ?load (root_edges rs)" using sub unfolding graph_intact_def by blast
  moreover have "finite (graph_from ?load (root_edges rs))" using sub finite_subset by blast
  moreover have "card (graph_from ?load (root_edges rs)) \<le> card {2, 5, 7 :: oid}" by (rule card_mono) (use sub in auto)
  ultimately have ok: "graph_intact ?load (root_edges rs)" "finite (graph_from ?load (root_edges rs))" "card (graph_from ?load (root_edges rs)) \<le> 100"
    by simp_all
  obtain z where z: "verify_graph (\<lambda>i. store_get (pack_hash gc_objects) i (objects (pack_forge gc_visible c))) 100 rs r = Some z"
      "case z of Inl x \<Rightarrow> x = walk_limit_exceeded \<and> \<not> (finite (graph_from ?load (root_edges rs)) \<and> card (graph_from ?load (root_edges rs)) \<le> 100)
       | Inr r' \<Rightarrow> (fr_ok r' \<longleftrightarrow> fr_ok r \<and> graph_intact ?load (root_edges rs)) \<and> (fr_ok r' \<longrightarrow> walk_ok ?load (root_edges rs) 100 \<and>
          fr_checked_objects r' = fr_checked_objects r + card (graph_from ?load (root_edges rs)))"
    using verify_graph_exact by blast
  show ?thesis using z ok assms(2) by (cases z) simp_all
qed

lemma fsck_runs:
  "\<exists>r g'. forge_fsck gc_env seal_keys fsck_around 0 all_cap True fsck_world = Some (Inr r, g') \<and> fr_ok r"
proof -
  let ?a = "audit_catalog fsck_rows"
  have "audit_ledger (Some [1, 2, 3]) = []" by (simp add: audit_ledger_def CURRENT_SCHEMA_VERSION_def upt_rec)
  then obtain report where col: "collect_roots gc_env seal_keys fsck_around 0 all_cap True (fsck_report True) fsck_world = Some (Inr (report, fsck_roots), fsck_world)" "fr_ok report"
    by (simp add: collect_roots_def Let_def collect_full_catalog_def fsck_audit on_forge_def act_bind_def act_ret_def fsck_scan add_root_def root_def fsck_report_def)
  obtain r' where r': "verify_graph (\<lambda>i. store_get (pack_hash gc_objects) i (objects fsck_forge)) 100 fsck_roots report = Some (Inr r')" "fr_ok r'"
    using fsck_walk_clean [OF subset_refl col(2)] by blast
  have "forge_fsck gc_env seal_keys fsck_around 0 all_cap True fsck_world = Some (Inr (report_finish r'), count_fsck (report_finish r') fsck_world)"
    using col(1) r'(1) by (simp add: forge_fsck_def act_bind_def act_of_def fsck_ready Let_def)
  then show ?thesis using r'(2) by auto
qed

theorem clean_full_check_is_complete_witness:
  "\<exists>r g' d. forge_fsck gc_env seal_keys fsck_around 0 all_cap True fsck_world = Some (Inr r, g') \<and> fr_ok r \<and>
    load_graph_object (pack_hash gc_objects) (objects fsck_forge) 7 = Some (Inr d)"
proof -
  obtain r g' where run: "forge_fsck gc_env seal_keys fsck_around 0 all_cap True fsck_world = Some (Inr r, g')" "fr_ok r" using fsck_runs by blast
  have "7 \<in> so_id ` set (snd (scan_objects 0 gc_listing))" by (simp add: gc_scan)
  then show ?thesis using clean_full_check_is_complete [OF run refl refl refl refl, of 0] run by auto
qed

theorem clean_check_then_plan_witness:
  "\<exists>plan h'. forge_gc gc_env 100 0 0 all_cap True 60 (gc_world\<lparr>gw_forge := fsck_forge\<rparr>) = Some (Inr plan, h')"
proof -
  obtain r g' where run: "forge_fsck gc_env seal_keys fsck_around 0 all_cap True fsck_world = Some (Inr r, g')" "fr_ok r" using fsck_runs by blast
  show ?thesis using clean_check_then_plan [OF run, of "gc_world\<lparr>gw_forge := fsck_forge\<rparr>" 0 60] by auto
qed

text \<open>The reachable check on the same repository, and a landmark on an object that is not there.\<close>

lemma reachable_fsck_runs:
  "\<exists>r g'. forge_fsck gc_env seal_keys fsck_around 0 all_cap False fsck_world = Some (Inr r, g') \<and> fr_ok r"
proof -
  have rows: "list_refs fsck_rows = [\<lparr>row_name = ''main'', row_oid = 5, row_kind = ''commit'', row_protected = False, row_sealed = False\<rparr>]"
    "list_namespaces fsck_rows = []"
    unfolding fsck_rows_eq by code_simp+
  have strip: "strip_prefix ''tags/'' ''main'' = None" by (simp add: strip_prefix_def prefix_def)
  obtain report where col: "collect_roots gc_env seal_keys fsck_around 0 all_cap False (fsck_report False) fsck_world =
      Some (Inr (report, [(5, ExpectExact ObjectType.Commit, ''ref:main'')]), fsck_world)" "fr_ok report"
    by (simp add: collect_roots_def collect_reachable_roots_def rows Let_def on_forge_def act_bind_def act_ret_def collect_ref_def object_type_for_kind_def strip add_root_def fsck_report_def)
  obtain r' where r': "verify_graph (\<lambda>i. store_get (pack_hash gc_objects) i (objects fsck_forge)) 100 [(5, ExpectExact ObjectType.Commit, ''ref:main'')] report = Some (Inr r')" "fr_ok r'"
    using fsck_walk_clean [of "[(5, ExpectExact ObjectType.Commit, ''ref:main'')]", OF _ col(2)] by auto
  have "forge_fsck gc_env seal_keys fsck_around 0 all_cap False fsck_world = Some (Inr (report_finish r'), count_fsck (report_finish r') fsck_world)"
    using col(1) r'(1) by (simp add: forge_fsck_def act_bind_def act_of_def fsck_ready Let_def)
  then show ?thesis using r'(2) by auto
qed

theorem reachable_check_skips_landmarks_witness:
  "\<exists>g r g' e. forge_fsck gc_env seal_keys fsck_around 0 all_cap False g = Some (Inr r, g') \<and> fr_ok r \<and>
    list_landmarks (f_meta (fw_forge g)) = [(9, ''blob'')] \<and> 9 \<in> root_oids (gc_roots (f_meta (fw_forge g))) \<and>
    load_graph_object (env_hash gc_env) (objects (fw_forge g)) 9 = Some (Inl e)"
proof -
  let ?ls = "[(9, \<lparr>k_kind = ''blob'', k_reason = [], k_ts_ms = 0\<rparr>)]"
  let ?g = "world_landmarks ?ls fsck_world"
  obtain r g' where run: "forge_fsck gc_env seal_keys fsck_around 0 all_cap False fsck_world = Some (Inr r, g')" "fr_ok r"
    using reachable_fsck_runs by blast
  have "forge_fsck gc_env seal_keys fsck_around 0 all_cap False ?g = Some (Inr r, world_landmarks ?ls g') \<and>
      fst ` set ?ls \<subseteq> root_oids (gc_roots (f_meta (fw_forge ?g)))"
    by (rule reachable_check_skips_landmarks [OF run(1)]) simp
  moreover have "list_landmarks (f_meta (fw_forge ?g)) = [(9, ''blob'')]" "objects (fw_forge ?g) = objects fsck_forge"
    by (simp_all add: list_landmarks_def world_landmarks_def with_landmarks_def)
  moreover have "\<exists>e. load_graph_object (env_hash gc_env) (objects fsck_forge) 9 = Some (Inl e)"
    by (simp add: load_graph_object_def store_get_def ok_or_def pack_forge_def) (simp add: gc_visible_def)
  ultimately show ?thesis using run(2) by (intro exI [of _ ?g] exI [of _ r] exI [of _ "world_landmarks ?ls g'"]) auto
qed

end
