(* ===== verification/Spec2Isabelle.thy ===== *)
theory Spec2Isabelle
  imports Receipts Fsck_Example
begin

text \<open>
  ForgeFS is a content-addressed store in which many agents work on one tree at a time without losing each other's work:
  a verification development of the Rust crates under \<open>src/crates\<close>.

  \<^bold>\<open>The program.\<close> Blobs, trees, commits, conflicts, snapshots and contribution receipts are immutable objects, named by the hash
  of their canonical bytes (\<open>forge-types\<close>, \<open>forge-core\<close>). An object store keeps them (\<open>forge-store/src/objectstore.rs\<close>,
  \<open>lib.rs\<close>), and one SQLite catalog keeps everything mutable: refs with their reflog, sessions with their mounts, overlays and
  observations, landmarks, seals and first introductions (\<open>forge-store/src/meta.rs\<close>). An agent holds a capability (\<open>forge-cap\<close>),
  opens a session, mounts refs in a namespace (\<open>forge-ns\<close>), reads, and stages writes in an overlay; \<open>checkin\<close> folds the
  overlay onto the commit the mount is pinned to and publishes the result by a compare-and-swap that forks when it loses
  (\<open>forge-api/src/workspace.rs\<close>). \<open>merge\<close> and \<open>resolve\<close> bring lines of work together (\<open>forge-merge\<close>,
  \<open>forge-api/src/integration.rs\<close>), \<open>seal\<close> signs a release with a manifest of what it holds, the graph walk
  (\<open>forge-store/src/graph.rs\<close>) proves what an object reaches, the collector (\<open>forge-api/src/gc.rs\<close>) unlinks what no root
  reaches, and \<open>fsck\<close> (\<open>forge-api/src/fsck.rs\<close>) looks for damage.

  \<^bold>\<open>The shape of the model.\<close> A struct is a record, an enum a datatype, a \<open>Result\<close> a sum whose left side is \<open>error\<close>, a panic or a
  loop that does not return the value \<open>None\<close>. A \<open>BTreeMap\<close> is a strictly sorted association list (\<open>bt_ok\<close>), a string is the list of its
  bytes as characters (\<open>valid_str\<close> says that it is UTF-8), a \<open>u64\<close> a 64-bit word where it wraps or is encoded. Stateful code
  passes its state: \<open>('e, 'a, 's) act\<close> takes a state to \<open>None\<close> or to a result and the state after it, kept also on an
  error, as the effects of a failed call are. A catalog transaction is \<open>Catalog \<Rightarrow> error + ('a \<times> Catalog)\<close>: an error rolls back. A verb of
  \<open>Forge\<close> runs on the record \<open>Forge\<close> of the catalog, the object store and the counters.

  \<^bold>\<open>The theories.\<close> Each model theory is followed by the theories of its laws.

  \<^item> \<open>Prelude\<close>: machine types, the \<open>Result\<close> combinators, \<open>act\<close>, the operations of \<open>str\<close> and \<open>BTreeMap\<close>, and the lemmas
    on them that the other theories share.
  \<^item> \<open>Types\<close> (\<open>forge-types/src/lib.rs\<close>): ids, hexadecimal, object and entry kinds, errors with codes and exit codes.
  \<^item> \<open>Cbor\<close> (\<open>forge-core/src/cbor.rs\<close>): encoders and the strict reader. The locale \<open>item_codec\<close> is the contract of one item: reading
    accepts exactly what writing makes. \<open>Codec\<close> has the locale \<open>record_codec\<close>, the contract of the loop over the keys of one
    header, which gives an \<open>item_codec\<close> for the whole map; every object kind below is an interpretation.
  \<^item> \<open>Objects\<close>, \<open>Trees\<close>, \<open>Conflicts\<close> (\<open>forge-core/src/object.rs\<close>, \<open>tree.rs\<close>), \<open>Contributions\<close> (\<open>contribution.rs\<close>), \<open>Manifest\<close>
    (\<open>provenance.rs\<close>): the codecs, each proved to accept exactly the canonical bytes of well-formed values, but for conflicts,
    where it is false.
  \<^item> \<open>Overlay\<close> (\<open>forge-core/src/tree.rs\<close>): the fold of staged paths onto a tree, over the locale \<open>tree_store\<close> of a store
    that keeps what it has put; it refines the path-level meaning of an overlay and returns.
  \<^item> \<open>Object_Store\<close> (\<open>forge-store/src/objectstore.rs\<close>, \<open>objectstore/memory.rs\<close>, \<open>lib.rs\<close>): put, get and two-phase publication by
    concurrent batches, with the interpretation of \<open>tree_store\<close>; \<open>Provenance\<close>: the walk for first introductions.
  \<^item> \<open>Catalog\<close> (\<open>forge-store/src/meta.rs\<close>): the tables and every transaction; \<open>Catalog_Audit\<close>: the audit passes. \<open>Catalog_History\<close> and
    \<open>Catalog_Steps\<close> have the step relation over all of them and its invariants by rule induction, \<open>Catalog_Life\<close> the refinement of the
    abstract life of a ref name, \<open>Catalog_Session\<close> the outcome of compare-and-swap, overlays and moves, \<open>Catalog_Group\<close> group
    commit, abandonment and the roots of reclamation.
  \<^item> \<open>Capability\<close>, \<open>Capability_Laws\<close>, \<open>Capability_Tokens\<close> (\<open>forge-cap/src/lib.rs\<close>): caveats, attenuation, tokens.
  \<^item> \<open>Namespace\<close>, \<open>Namespace_Laws\<close> (\<open>forge-ns/src/lib.rs\<close>): mounts, resolution and listing through an overlay.
  \<^item> \<open>Merge\<close>, \<open>Merge_Bases\<close>, \<open>Merge_Laws\<close>, \<open>Merge_Correct\<close>, \<open>Merge_Scope\<close> (\<open>forge-merge/src/lib.rs\<close> and the tree of a resolution in
    \<open>forge-api/src/integration.rs\<close>): merge bases, renames, the three-way merge against its path-level meaning, scopes.
  \<^item> \<open>Api\<close> (\<open>forge-api/src/lib.rs\<close>, \<open>authority.rs\<close>, \<open>refs.rs\<close>): the handle, the checks of every verb, refs, the log and receipts;
    \<open>Receipts\<close> has what a reported receipt means.
  \<^item> \<open>Workspace\<close> (\<open>forge-api/src/workspace.rs\<close>): every verb of a session; \<open>Workspace_Laws\<close>, \<open>Workspace_Reads\<close> (the step relation of
    a session among others, and when a move or a mount falls outside it), \<open>Checkin\<close>.
  \<^item> \<open>Graph\<close>, \<open>Graph_Laws\<close> (\<open>forge-store/src/graph.rs\<close>): typed edges, the bounded work queue and the verified walk.
  \<^item> \<open>Integration\<close> (\<open>forge-api/src/integration.rs\<close>): \<open>merge\<close>, \<open>resolve\<close>, \<open>seal\<close>, \<open>verify_tag\<close>; \<open>Seal_Laws\<close>, \<open>Integration_Laws\<close>.
  \<^item> \<open>Collector\<close> (\<open>forge-api/src/gc.rs\<close>): retirement, the plan and the sweep; \<open>Collector_Laws\<close>.
  \<^item> \<open>Fsck\<close> (\<open>forge-api/src/fsck.rs\<close>): the repository check, reachable and full; \<open>Fsck_Laws\<close>.
  \<^item> \<open>Merge_Example\<close>, \<open>Workspace_Example\<close>, \<open>Integration_Example\<close>, \<open>Collector_Example\<close>, \<open>Fsck_Example\<close>: runs on small concrete repositories,
    the witnesses that the hypotheses of the theorems hold together.

  \<^bold>\<open>What the lemmas show.\<close> Decoders accept exactly canonical bytes. Work is never lost: a losing compare-and-swap keeps it on a fork, a
  checkin publishes exactly the staged files over the pinned tree, \<open>Noop\<close> is answered only without work, a name that was
  retired is not reused, a sealed ref does not move, and in every interleaving of batches a returned id is durable. What
  a session reads through its overlay at a path with nothing staged below it is what its checkin publishes, and what it reads does not block
  its checkin unless it moves a directory over staged work it has observed or replaces a mount. Authority: attenuation is monotone, staging and
  moving protected refs need it. A merge is the three-way merge file by file outside the reported conflicts, symmetric when
  clean, and a failed one moves no ref; a resolution stays in scope and retires its conflict. A sealed tag verifies from then on, and a tag that
  verifies is whole and signed. The collector keeps all that is live, whatever runs beside it, takes only cold garbage, and ends.
  A full check that finds nothing means that everything the catalog names and every object file is whole, and that the collector can plan.
  A check without \<open>full\<close> is blind to landmarks. Loops end: the graph walk on every store, ancestry, the merge on complete trees, the fold, the sweep.

  \<^bold>\<open>Bounds and fuel.\<close> \<open>apply_level\<close> has fuel \<open>overlay_fuel\<close>, one more than the longest staged path, which is enough because each
  level consumes a name (\<open>apply_overlay_terminates\<close>). The walks of the store graph and of ancestry are \<open>partial_function (option)\<close>, so
  that not returning is \<open>None\<close>, and are proved to return. \<open>MAX_ANCESTRY_COMMITS\<close>, \<open>MAX_MOVED_PATH_BYTES\<close>, the limits of manifests and
  conflicts and \<open>GC_COLLECT_BATCH_LIMIT\<close> are the constants of the source; the ceiling of the graph walk, which the program reads from the
  environment, is an argument.

  \<^bold>\<open>Parameters and hypotheses.\<close> BLAKE3, HMAC-SHA256 and Ed25519 are function arguments (\<open>Env\<close>, \<open>SealEnv\<close>). \<open>log_good\<close>,
  \<open>publication_good\<close> and \<open>inj_on\<close> say that the hash has no collision among the objects that are stored; the signature hypotheses are that a
  signature is 64 bytes and verifies under its key. ULIDs and the clock are arguments, the clock read once per verb. For the
  collector the object directory, the answers of the file system, a commit of the catalog that fails after the unlinks and what other
  processes do between its two passes are arguments (\<open>SweepEnv\<close>); for the check so are the migration ledger, the siblings of the repository and what happens after its first
  read of the catalog (\<open>FsckEnv\<close>). The values interpolated in error messages are left out, their kinds are not.
  The steps of the catalog (\<open>catalog_step\<close>) are all the writing operations of \<open>meta.rs\<close> under what their callers ensure and the store does not
  check: fresh ULIDs in fork and session names, tags of one component, no reason \<open>abandon\<close> but from \<open>abandon_ref\<close>, and a live ref that
  is a commit ref for \<open>insert_namespace\<close>, which only tests call.

  \<^bold>\<open>Not modelled.\<close> The local blob store (\<open>forge-store/src/blob.rs\<close>) is files, renames, fsync and locks of the operating
  system; the store is modelled on the memory backend, the reference of the same contract, with the caches of
  \<open>forge-store/src/lib.rs\<close> left out as transparent. SQLite, schema migrations and connection pools; creating and opening
  a repository; import and export, which walk the host file system; the socket daemon, the command line, benchmarks, statistics and test
  hooks, which call the verbs modelled here; and the text of reports. I/O errors while a directory is listed are not
  modelled.
\<close>

end
